(* ===== verification/Prelude.thy ===== *)
theory Prelude
  imports Main "HOL-Library.Word"
begin

text \<open>
  Shared vocabulary of the development: the machine integer types, C strings and the
  standard-library routines the firmware uses on them, and the generic list facts the
  component theories rest on.

  A C string is modelled by the list of its characters before the terminating NUL, so a
  buffer of \<open>n\<close> bytes holds a string of length below \<open>n\<close>.  A routine that writes
  into a buffer takes the size of the buffer and returns the new contents; a routine that
  returns a pointer into a string returns the index, or None for NULL.
\<close>

type_synonym u8 = "8 word"
type_synonym u16 = "16 word"
type_synonym u32 = "32 word"

named_theorems cstr_simps \<open>equations of the C string routines\<close>
named_theorems frame_simps \<open>state components an operation leaves alone\<close>

section \<open>Characters\<close>

abbreviation ccode :: "char \<Rightarrow> nat" where
  "ccode c \<equiv> of_char c"

definition tolower :: "char \<Rightarrow> char" where
  "tolower c = (if 65 \<le> ccode c \<and> ccode c \<le> 90 then char_of (ccode c + 32) else c)"

definition isdigit :: "char \<Rightarrow> bool" where
  "isdigit c \<longleftrightarrow> 48 \<le> ccode c \<and> ccode c \<le> 57"

section \<open>C strings\<close>

definition strlcpy :: "string \<Rightarrow> nat \<Rightarrow> string" where
  "strlcpy src n = take (n - 1) src"

definition strlcat :: "string \<Rightarrow> string \<Rightarrow> nat \<Rightarrow> string" where
  "strlcat dst src n = (if n \<le> length dst then dst else dst @ take (n - 1 - length dst) src)"

fun strchr :: "string \<Rightarrow> char \<Rightarrow> nat option" where
  "strchr [] c = None"
| "strchr (x # xs) c = (if x = c then Some 0 else map_option Suc (strchr xs c))"

fun starts_with :: "'a list \<Rightarrow> 'a list \<Rightarrow> bool" where
  "starts_with xs [] = True"
| "starts_with [] (y # ys) = False"
| "starts_with (x # xs) (y # ys) = (x = y \<and> starts_with xs ys)"

fun strstr :: "string \<Rightarrow> string \<Rightarrow> nat option" where
  "strstr [] needle = (if needle = [] then Some 0 else None)"
| "strstr (x # xs) needle =
     (if starts_with (x # xs) needle then Some 0 else map_option Suc (strstr xs needle))"

text \<open>\<open>strncasecmp a b n == 0\<close> for a \<open>b\<close> of length \<open>n\<close>: \<open>a\<close> starts with \<open>b\<close>,
  letters compared without case.\<close>

definition starts_nocase :: "string \<Rightarrow> string \<Rightarrow> bool" where
  "starts_nocase s p \<longleftrightarrow> starts_with (map tolower s) (map tolower p)"

definition trim_end :: "string \<Rightarrow> string" where
  "trim_end s = rev (dropWhile (\<lambda>c. c = CHR '' '') (rev s))"

section \<open>Facts about the C string routines\<close>

lemma strlcpy_fits [cstr_simps]: "length s < n \<Longrightarrow> strlcpy s n = s"
  by (simp add: strlcpy_def)

lemma length_strlcpy: "0 < n \<Longrightarrow> length (strlcpy s n) < n"
  by (simp add: strlcpy_def min_def) linarith

lemma strlcat_fits [cstr_simps]: "length d + length s < n \<Longrightarrow> strlcat d s n = d @ s"
  by (simp add: strlcat_def)

lemma strchr_None_iff [cstr_simps]: "strchr s c = None \<longleftrightarrow> c \<notin> set s"
  by (induction s) auto

lemma strchr_append [cstr_simps]: "c \<notin> set a \<Longrightarrow> strchr (a @ c # b) c = Some (length a)"
  by (induction a) auto

lemma strchr_SomeD:
  "strchr s c = Some i \<Longrightarrow> i < length s \<and> s ! i = c \<and> c \<notin> set (take i s)"
  by (induction s arbitrary: i) (auto split: if_splits)

lemma starts_with_iff: "starts_with xs ys \<longleftrightarrow> (\<exists>zs. xs = ys @ zs)"
  by (induction xs ys rule: starts_with.induct) auto

lemma starts_with_take: "starts_with xs ys \<longleftrightarrow> take (length ys) xs = ys"
  by (induction xs ys rule: starts_with.induct) auto

lemma strstr_SomeD: "strstr h n = Some i \<Longrightarrow> i \<le> length h \<and> starts_with (drop i h) n"
  by (induction h n arbitrary: i rule: strstr.induct) (auto split: if_splits)

lemma strstr_append: "strstr (a @ n @ b) n \<noteq> None"
proof (induction a)
  case Nil
  show ?case
  proof (cases "n @ b")
    case (Cons c cs)
    have "starts_with (n @ b) n" by (auto simp: starts_with_iff)
    with Cons show ?thesis by simp
  qed simp
next
  case (Cons x a)
  then show ?case by auto
qed

lemma strstr_None_iff: "strstr h n = None \<longleftrightarrow> (\<nexists>a b. h = a @ n @ b)"
proof
  assume "strstr h n = None"
  then show "\<nexists>a b. h = a @ n @ b" using strstr_append by metis
next
  assume none: "\<nexists>a b. h = a @ n @ b"
  show "strstr h n = None"
  proof (cases "strstr h n")
    case (Some i)
    then have "starts_with (drop i h) n" by (simp add: strstr_SomeD)
    then obtain b where "drop i h = n @ b" by (auto simp: starts_with_iff)
    then have "h = take i h @ n @ b" by (metis append_take_drop_id)
    with none show ?thesis by blast
  qed simp
qed

lemma trim_end_Nil [simp]: "trim_end [] = []"
  by (simp add: trim_end_def)

lemma trim_end_snoc:
  "trim_end (s @ [c]) = (if c = CHR '' '' then trim_end s else s @ [c])"
  by (simp add: trim_end_def)

lemma trim_end_prefix: "\<exists>k. trim_end s = take k s"
proof (induction s rule: rev_induct)
  case (snoc c s)
  then obtain k where k: "trim_end s = take k s" by blast
  show ?case
  proof (cases "c = CHR '' ''")
    case True
    have "take (min k (length s)) (s @ [c]) = take k s"
      by (cases "k \<le> length s") (auto simp: min_def)
    with True k show ?thesis by (metis trim_end_snoc)
  next
    case False
    then show ?thesis by (metis trim_end_snoc append_Nil2 length_append_singleton take_all_iff order_refl)
  qed
qed simp

lemma set_trim_end: "set (trim_end s) \<subseteq> set s"
  using trim_end_prefix [of s] set_take_subset by metis

lemma length_trim_end: "length (trim_end s) \<le> length s"
  using trim_end_prefix [of s] by (metis length_take min.cobounded1)

lemma trim_end_id: "s = [] \<or> last s \<noteq> CHR '' '' \<Longrightarrow> trim_end s = s"
  by (cases s rule: rev_cases) (auto simp: trim_end_snoc)

lemma last_trim_end: "trim_end s \<noteq> [] \<Longrightarrow> last (trim_end s) \<noteq> CHR '' ''"
  by (induction s rule: rev_induct) (auto simp: trim_end_snoc)

lemma trim_end_idem [simp]: "trim_end (trim_end s) = trim_end s"
  using last_trim_end trim_end_id by blast

section \<open>Machine integers\<close>

lemma unat_less_u8: "unat (x::u8) < 256"
  using unsigned_less [of x] by simp

lemma unat_less_u16: "unat (x::u16) < 65536"
  using unsigned_less [of x] by simp

lemma unat_less_u32: "unat (x::u32) < 4294967296"
  using unsigned_less [of x] by simp

section \<open>Lists\<close>

text \<open>Removing the entry at an index, as the shift loops of the two saved lists do.\<close>

definition remove_nth :: "nat \<Rightarrow> 'a list \<Rightarrow> 'a list" where
  "remove_nth i xs = take i xs @ drop (Suc i) xs"

lemma length_remove_nth: "i < length xs \<Longrightarrow> length (remove_nth i xs) = length xs - 1"
  by (simp add: remove_nth_def)

lemma nth_remove_nth:
  "i < length xs \<Longrightarrow> j < length xs - 1 \<Longrightarrow>
    remove_nth i xs ! j = (if j < i then xs ! j else xs ! Suc j)"
  by (auto simp: remove_nth_def nth_append min_def)

lemma set_remove_nth: "set (remove_nth i xs) \<subseteq> set xs"
  by (auto simp: remove_nth_def dest: in_set_takeD in_set_dropD)

text \<open>A property that is a conjunction of several parts: the parts proved, and taken apart again.\<close>

lemmas conjI3 = conjI [OF _ conjI]
lemmas conjI4 = conjI [OF _ conjI3]
lemmas conjI5 = conjI [OF _ conjI4]
lemmas conjI6 = conjI [OF _ conjI5]
lemmas conjI7 = conjI [OF _ conjI6]
lemmas conjI8 = conjI [OF _ conjI7]

lemmas part2 = conjunct2 [THEN conjunct1]
lemmas part3 = conjunct2 [THEN part2]
lemmas part4 = conjunct2 [THEN part3]
lemmas part5 = conjunct2 [THEN part4]
lemmas part6 = conjunct2 [THEN part5]

end
