(* ===== verification/Bytes.thy ===== *)
theory Bytes
  imports Prelude "HOL-Library.Monad_Syntax"
begin

text \<open>
  Byte buffers with checked reads: a read outside the buffer is None, and makes the whole
  computation None, so that a parser that never returns None never leaves its buffer.
\<close>

definition rd8 :: "u8 list \<Rightarrow> nat \<Rightarrow> nat option" where
  "rd8 b i = (if i < length b then Some (unat (b ! i)) else None)"

definition rd16 :: "u8 list \<Rightarrow> nat \<Rightarrow> nat option" where
  "rd16 b i = do { hi \<leftarrow> rd8 b i; lo \<leftarrow> rd8 b (i + 1); Some (256 * hi + lo) }"

definition rd_chars :: "u8 list \<Rightarrow> nat \<Rightarrow> nat \<Rightarrow> string option" where
  "rd_chars b q n = (if q + n \<le> length b then Some (map (\<lambda>x. char_of (unat x)) (take n (drop q b))) else None)"

lemma rd_ok: "i < length b \<Longrightarrow> rd8 b i = Some (unat (b ! i))"
  "i + 1 < length b \<Longrightarrow> rd16 b i = Some (256 * unat (b ! i) + unat (b ! (i + 1)))"
  by (simp_all add: rd8_def rd16_def)

definition be16 :: "nat \<Rightarrow> u8 list" where
  "be16 n = [of_nat (n div 256), of_nat (n mod 256)]"

lemma unat_of_nat_u8: "n < 256 \<Longrightarrow> unat (of_nat n :: u8) = n"
  by (simp add: unat_of_nat)

lemma be16_len [simp]: "length (be16 n) = 2"
  by (simp add: be16_def)

lemma rd16_at:
  assumes "i = length pre" and "n < 65536"
  shows "rd16 (pre @ be16 n @ r) i = Some n"
proof -
  have "n div 256 < 256" "n mod 256 < 256" using assms(2) by auto
  then show ?thesis using assms(1) unfolding be16_def rd16_def rd8_def
    by (simp add: nth_append unat_of_nat_u8 del: of_nat_mod of_nat_div)
qed

lemma rd8_at: "i = length pre \<Longrightarrow> n < 256 \<Longrightarrow> rd8 (pre @ of_nat n # r) i = Some n"
  by (simp add: rd8_def unat_of_nat_u8)

lemma rd_chars_at:
  "q = length pre \<Longrightarrow> n = length h \<Longrightarrow> rd_chars (pre @ map (\<lambda>c. of_nat (ccode c)) h @ r) q n = Some h"
  by (simp add: rd_chars_def comp_def unat_of_nat_u8 map_idI)

end
