(* ===== verification/Nvs.thy ===== *)
theory Nvs
  imports Prelude
begin

text \<open>
  The interface to the non-volatile store (the NVS library of ESP-IDF, not part of this
  repository).  Its operations are a parameter of the model: a record of functions on an
  abstract flash image.  A device \<open>nvs_dev\<close> pairs the operations with the current image;
  \<open>dev_ok\<close> is the documented behaviour the code relies on: a write that returns
  \<open>ESP_OK\<close> is what the next read of that key returns (NVS applies writes at once), an
  erased key reads as absent, a string that does not fit the caller's buffer is refused, and
  no operation disturbs another key.  What a failed write leaves under its own key is left
  open, as the documentation does.
\<close>

datatype esp_err = ESP_OK | ESP_ERR_NVS_NOT_FOUND | ESP_FAIL int

record ('s, 'b) nvs_ops =
  op_open :: "'s \<Rightarrow> bool \<Rightarrow> esp_err"  \<comment> \<open>the flag is True for NVS_READWRITE\<close>
  op_get_str :: "'s \<Rightarrow> string \<Rightarrow> nat \<Rightarrow> string option"
  op_get_u8 :: "'s \<Rightarrow> string \<Rightarrow> u8 option"
  op_get_u16 :: "'s \<Rightarrow> string \<Rightarrow> u16 option"
  op_get_blob :: "'s \<Rightarrow> string \<Rightarrow> 'b option"
  op_set_str :: "'s \<Rightarrow> string \<Rightarrow> string \<Rightarrow> esp_err \<times> 's"
  op_set_u8 :: "'s \<Rightarrow> string \<Rightarrow> u8 \<Rightarrow> esp_err \<times> 's"
  op_set_u16 :: "'s \<Rightarrow> string \<Rightarrow> u16 \<Rightarrow> esp_err \<times> 's"
  op_set_blob :: "'s \<Rightarrow> string \<Rightarrow> 'b \<Rightarrow> esp_err \<times> 's"
  op_erase_key :: "'s \<Rightarrow> string \<Rightarrow> esp_err \<times> 's"
  op_commit :: "'s \<Rightarrow> esp_err \<times> 's"

record ('s, 'b) nvs_dev =
  dev_ops :: "('s, 'b) nvs_ops"
  dev_img :: "'s"

definition dev_put :: "('s, 'b) nvs_dev \<Rightarrow> esp_err \<times> 's \<Rightarrow> esp_err \<times> ('s, 'b) nvs_dev" where
  "dev_put d r = (fst r, d\<lparr>dev_img := snd r\<rparr>)"

definition nvs_open :: "('s, 'b) nvs_dev \<Rightarrow> bool \<Rightarrow> esp_err" where
  "nvs_open d rw = op_open (dev_ops d) (dev_img d) rw"

definition nvs_get_str :: "('s, 'b) nvs_dev \<Rightarrow> string \<Rightarrow> nat \<Rightarrow> string option" where
  "nvs_get_str d k n = op_get_str (dev_ops d) (dev_img d) k n"

definition nvs_get_u8 :: "('s, 'b) nvs_dev \<Rightarrow> string \<Rightarrow> u8 option" where
  "nvs_get_u8 d k = op_get_u8 (dev_ops d) (dev_img d) k"

definition nvs_get_u16 :: "('s, 'b) nvs_dev \<Rightarrow> string \<Rightarrow> u16 option" where
  "nvs_get_u16 d k = op_get_u16 (dev_ops d) (dev_img d) k"

definition nvs_get_blob :: "('s, 'b) nvs_dev \<Rightarrow> string \<Rightarrow> 'b option" where
  "nvs_get_blob d k = op_get_blob (dev_ops d) (dev_img d) k"

definition nvs_set_str :: "('s, 'b) nvs_dev \<Rightarrow> string \<Rightarrow> string \<Rightarrow> esp_err \<times> ('s, 'b) nvs_dev" where
  "nvs_set_str d k v = dev_put d (op_set_str (dev_ops d) (dev_img d) k v)"

definition nvs_set_u8 :: "('s, 'b) nvs_dev \<Rightarrow> string \<Rightarrow> u8 \<Rightarrow> esp_err \<times> ('s, 'b) nvs_dev" where
  "nvs_set_u8 d k v = dev_put d (op_set_u8 (dev_ops d) (dev_img d) k v)"

definition nvs_set_u16 :: "('s, 'b) nvs_dev \<Rightarrow> string \<Rightarrow> u16 \<Rightarrow> esp_err \<times> ('s, 'b) nvs_dev" where
  "nvs_set_u16 d k v = dev_put d (op_set_u16 (dev_ops d) (dev_img d) k v)"

definition nvs_set_blob :: "('s, 'b) nvs_dev \<Rightarrow> string \<Rightarrow> 'b \<Rightarrow> esp_err \<times> ('s, 'b) nvs_dev" where
  "nvs_set_blob d k v = dev_put d (op_set_blob (dev_ops d) (dev_img d) k v)"

definition nvs_erase_key :: "('s, 'b) nvs_dev \<Rightarrow> string \<Rightarrow> esp_err \<times> ('s, 'b) nvs_dev" where
  "nvs_erase_key d k = dev_put d (op_erase_key (dev_ops d) (dev_img d) k)"

definition nvs_commit :: "('s, 'b) nvs_dev \<Rightarrow> esp_err \<times> ('s, 'b) nvs_dev" where
  "nvs_commit d = dev_put d (op_commit (dev_ops d) (dev_img d))"

lemmas nvs_defs = nvs_open_def nvs_get_str_def nvs_get_u8_def nvs_get_u16_def nvs_get_blob_def
  nvs_set_str_def nvs_set_u8_def nvs_set_u16_def nvs_set_blob_def nvs_erase_key_def nvs_commit_def
  dev_put_def

section \<open>The documented behaviour\<close>

definition same_except :: "string set \<Rightarrow> ('s, 'b) nvs_ops \<Rightarrow> 's \<Rightarrow> 's \<Rightarrow> bool" where
  "same_except K ops s s' \<longleftrightarrow> (\<forall>k. k \<notin> K \<longrightarrow>
     (\<forall>n. op_get_str ops s' k n = op_get_str ops s k n) \<and>
     op_get_u8 ops s' k = op_get_u8 ops s k \<and>
     op_get_u16 ops s' k = op_get_u16 ops s k \<and>
     op_get_blob ops s' k = op_get_blob ops s k)"

definition dev_ok :: "('s, 'b) nvs_dev \<Rightarrow> bool" where
  "dev_ok d \<longleftrightarrow> (let ops = dev_ops d in
     (\<forall>s k v. fst (op_set_str ops s k v) = ESP_OK \<longrightarrow>
        (\<forall>n. op_get_str ops (snd (op_set_str ops s k v)) k n = (if length v < n then Some v else None))) \<and>
     (\<forall>s k v. fst (op_set_u8 ops s k v) = ESP_OK \<longrightarrow> op_get_u8 ops (snd (op_set_u8 ops s k v)) k = Some v) \<and>
     (\<forall>s k v. fst (op_set_u16 ops s k v) = ESP_OK \<longrightarrow> op_get_u16 ops (snd (op_set_u16 ops s k v)) k = Some v) \<and>
     (\<forall>s k v. fst (op_set_blob ops s k v) = ESP_OK \<longrightarrow> op_get_blob ops (snd (op_set_blob ops s k v)) k = Some v) \<and>
     (\<forall>s k. fst (op_erase_key ops s k) \<in> {ESP_OK, ESP_ERR_NVS_NOT_FOUND} \<longrightarrow>
        (let s' = snd (op_erase_key ops s k) in
          (\<forall>n. op_get_str ops s' k n = None) \<and> op_get_u8 ops s' k = None \<and>
          op_get_u16 ops s' k = None \<and> op_get_blob ops s' k = None)) \<and>
     (\<forall>s k v. same_except {k} ops s (snd (op_set_str ops s k v))) \<and>
     (\<forall>s k v. same_except {k} ops s (snd (op_set_u8 ops s k v))) \<and>
     (\<forall>s k v. same_except {k} ops s (snd (op_set_u16 ops s k v))) \<and>
     (\<forall>s k v. same_except {k} ops s (snd (op_set_blob ops s k v))) \<and>
     (\<forall>s k. same_except {k} ops s (snd (op_erase_key ops s k))) \<and>
     (\<forall>s. same_except {} ops s (snd (op_commit ops s))))"

text \<open>The same statement between two states of a device.\<close>

definition dev_same :: "string set \<Rightarrow> ('s, 'b) nvs_dev \<Rightarrow> ('s, 'b) nvs_dev \<Rightarrow> bool" where
  "dev_same K d d' \<longleftrightarrow> dev_ops d' = dev_ops d \<and> same_except K (dev_ops d) (dev_img d) (dev_img d')"

lemma dev_same_refl [simp, intro]: "dev_same K d d"
  by (simp add: dev_same_def same_except_def)

lemma dev_same_trans: "dev_same K d d' \<Longrightarrow> dev_same L d' d'' \<Longrightarrow> dev_same (K \<union> L) d d''"
  by (auto simp: dev_same_def same_except_def)

lemma dev_same_mono: "dev_same K d d' \<Longrightarrow> K \<subseteq> L \<Longrightarrow> dev_same L d d'"
  by (auto simp: dev_same_def same_except_def)

lemma dev_same_step: "dev_same K d d' \<Longrightarrow> dev_same K d' d'' \<Longrightarrow> dev_same K d d''"
  using dev_same_trans by fastforce

lemma dev_same_ok: "dev_same K d d' \<Longrightarrow> dev_ok d' = dev_ok d"
  by (simp add: dev_same_def dev_ok_def)

lemma dev_same_get:
  assumes "dev_same K d d'" and "k \<notin> K"
  shows "nvs_get_str d' k n = nvs_get_str d k n"
    and "nvs_get_u8 d' k = nvs_get_u8 d k"
    and "nvs_get_u16 d' k = nvs_get_u16 d k"
    and "nvs_get_blob d' k = nvs_get_blob d k"
  using assms by (auto simp: dev_same_def same_except_def nvs_defs)

section \<open>Reading back\<close>

lemma nvs_writes_same:
  assumes "dev_ok d"
  shows "dev_same {k} d (snd (nvs_set_str d k v))"
    and "dev_same {k} d (snd (nvs_set_u8 d k w))"
    and "dev_same {k} d (snd (nvs_set_u16 d k x))"
    and "dev_same {k} d (snd (nvs_set_blob d k b))"
    and "dev_same {k} d (snd (nvs_erase_key d k))"
    and "dev_same {} d (snd (nvs_commit d))"
  using assms by (simp_all add: dev_ok_def dev_same_def nvs_defs Let_def)

lemma nvs_get_set:
  assumes "dev_ok d"
  shows "nvs_set_str d k v = (ESP_OK, d') \<Longrightarrow>
           nvs_get_str d' k n = (if length v < n then Some v else None)"
    and "nvs_set_u8 d k w = (ESP_OK, d') \<Longrightarrow> nvs_get_u8 d' k = Some w"
    and "nvs_set_u16 d k x = (ESP_OK, d') \<Longrightarrow> nvs_get_u16 d' k = Some x"
    and "nvs_set_blob d k b = (ESP_OK, d') \<Longrightarrow> nvs_get_blob d' k = Some b"
  using assms by (auto simp: dev_ok_def nvs_defs Let_def)

lemma nvs_get_erased:
  assumes "dev_ok d" and "nvs_erase_key d k = (e, d')" and "e \<in> {ESP_OK, ESP_ERR_NVS_NOT_FOUND}"
  shows "nvs_get_str d' k n = None" and "nvs_get_u8 d' k = None"
    and "nvs_get_u16 d' k = None" and "nvs_get_blob d' k = None"
  using assms by (auto simp: dev_ok_def nvs_defs Let_def)

text \<open>Chaining the frame facts through a sequence of calls.\<close>

lemma nvs_step_same:
  assumes "dev_same K d d'" and "dev_ok d"
  shows "k \<in> K \<Longrightarrow> dev_same K d (snd (nvs_set_str d' k v))"
    and "k \<in> K \<Longrightarrow> dev_same K d (snd (nvs_set_u8 d' k w))"
    and "k \<in> K \<Longrightarrow> dev_same K d (snd (nvs_set_u16 d' k x))"
    and "k \<in> K \<Longrightarrow> dev_same K d (snd (nvs_set_blob d' k b))"
    and "k \<in> K \<Longrightarrow> dev_same K d (snd (nvs_erase_key d' k))"
    and "dev_same K d (snd (nvs_commit d'))"
proof -
  have ok: "dev_ok d'" using assms by (simp add: dev_same_ok)
  note w = nvs_writes_same [OF ok]
  have sub: "\<And>k. k \<in> K \<Longrightarrow> {k} \<subseteq> K" by simp
  show "k \<in> K \<Longrightarrow> dev_same K d (snd (nvs_set_str d' k v))"
    and "k \<in> K \<Longrightarrow> dev_same K d (snd (nvs_set_u8 d' k w))"
    and "k \<in> K \<Longrightarrow> dev_same K d (snd (nvs_set_u16 d' k x))"
    and "k \<in> K \<Longrightarrow> dev_same K d (snd (nvs_set_blob d' k b))"
    and "k \<in> K \<Longrightarrow> dev_same K d (snd (nvs_erase_key d' k))"
    and "dev_same K d (snd (nvs_commit d'))"
    using w sub assms(1) by (blast intro: dev_same_step dev_same_mono)+
qed

section \<open>A concrete store\<close>

text \<open>
  The store used by the witnesses: a map from keys to values that accepts every write.  It
  satisfies the documented behaviour, so \<open>dev_ok\<close> is not empty.
\<close>

datatype 'b nvs_val = VStr string | VU8 u8 | VU16 u16 | VBlob 'b

definition map_ops :: "(string \<rightharpoonup> 'b nvs_val, 'b) nvs_ops" where
  "map_ops = \<lparr>
     op_open = (\<lambda>m rw. ESP_OK),
     op_get_str = (\<lambda>m k n. case m k of Some (VStr v) \<Rightarrow> (if length v < n then Some v else None) | _ \<Rightarrow> None),
     op_get_u8 = (\<lambda>m k. case m k of Some (VU8 v) \<Rightarrow> Some v | _ \<Rightarrow> None),
     op_get_u16 = (\<lambda>m k. case m k of Some (VU16 v) \<Rightarrow> Some v | _ \<Rightarrow> None),
     op_get_blob = (\<lambda>m k. case m k of Some (VBlob v) \<Rightarrow> Some v | _ \<Rightarrow> None),
     op_set_str = (\<lambda>m k v. (ESP_OK, m(k \<mapsto> VStr v))),
     op_set_u8 = (\<lambda>m k v. (ESP_OK, m(k \<mapsto> VU8 v))),
     op_set_u16 = (\<lambda>m k v. (ESP_OK, m(k \<mapsto> VU16 v))),
     op_set_blob = (\<lambda>m k v. (ESP_OK, m(k \<mapsto> VBlob v))),
     op_erase_key = (\<lambda>m k. (if m k = None then ESP_ERR_NVS_NOT_FOUND else ESP_OK, m(k := None))),
     op_commit = (\<lambda>m. (ESP_OK, m)) \<rparr>"

definition map_dev :: "(string \<rightharpoonup> 'b nvs_val, 'b) nvs_dev" where
  "map_dev = \<lparr>dev_ops = map_ops, dev_img = Map.empty\<rparr>"

lemma dev_ok_map_ops: "dev_ok \<lparr>dev_ops = map_ops, dev_img = m\<rparr>"
  by (simp add: dev_ok_def map_ops_def same_except_def Let_def)

lemma map_dev_simps [simp]:
  "dev_ok map_dev" "nvs_open map_dev rw = ESP_OK" "nvs_get_str map_dev k n = None"
  "nvs_get_u8 map_dev k = None" "nvs_get_u16 map_dev k = None" "nvs_get_blob map_dev k = None"
  by (simp_all add: map_dev_def dev_ok_map_ops) (simp_all add: nvs_defs map_ops_def)

lemma map_store_simps [simp]:
  fixes m :: "string \<rightharpoonup> 'b nvs_val"
  defines "dv \<equiv> \<lambda>m. \<lparr>dev_ops = map_ops, dev_img = m\<rparr>"
  shows "nvs_open (dv m) rw = ESP_OK"
    and "nvs_get_str (dv m) k n = (case m k of Some (VStr v) \<Rightarrow> (if length v < n then Some v else None) | _ \<Rightarrow> None)"
    and "nvs_get_u8 (dv m) k = (case m k of Some (VU8 w) \<Rightarrow> Some w | _ \<Rightarrow> None)"
    and "nvs_get_u16 (dv m) k = (case m k of Some (VU16 x) \<Rightarrow> Some x | _ \<Rightarrow> None)"
    and "nvs_get_blob (dv m) k = (case m k of Some (VBlob b) \<Rightarrow> Some b | _ \<Rightarrow> None)"
    and "nvs_set_str (dv m) k v = (ESP_OK, dv (m(k \<mapsto> VStr v)))"
    and "nvs_set_u8 (dv m) k w = (ESP_OK, dv (m(k \<mapsto> VU8 w)))"
    and "nvs_set_u16 (dv m) k x = (ESP_OK, dv (m(k \<mapsto> VU16 x)))"
    and "nvs_set_blob (dv m) k b = (ESP_OK, dv (m(k \<mapsto> VBlob b)))"
    and "nvs_commit (dv m) = (ESP_OK, dv m)"
    and "dev_ok (dv m)"
  by (simp_all add: dv_def dev_ok_map_ops) (simp_all add: nvs_defs map_ops_def)

section \<open>Saved settings\<close>

text \<open>
  The contract of a setting kept in the store: saving touches only its own keys, loading reads
  only those, and loading after a save that was written gives the value the save put into
  RAM.
\<close>

locale nvs_setting =
  fixes keys :: "string set"
    and fits :: "'v \<Rightarrow> bool"
    and written :: "'v \<Rightarrow> ('i, 'b) nvs_dev \<Rightarrow> bool"
    and save :: "'v \<Rightarrow> ('i, 'b) nvs_dev \<Rightarrow> 'r \<times> ('i, 'b) nvs_dev"
    and load :: "('i, 'b) nvs_dev \<Rightarrow> 'r"
  assumes save_frame: "dev_ok d \<Longrightarrow> dev_same keys d (snd (save v d))"
    and load_frame: "dev_same K d d' \<Longrightarrow> K \<inter> keys = {} \<Longrightarrow> nvs_open d' False = nvs_open d False \<Longrightarrow> load d' = load d"
    and load_save: "dev_ok d \<Longrightarrow> fits v \<Longrightarrow> written v d \<Longrightarrow> nvs_open (snd (save v d)) False = ESP_OK \<Longrightarrow>
      load (snd (save v d)) = fst (save v d)"
begin

text \<open>A saved value survives whatever the rest of the firmware writes under other keys.\<close>

lemma survives:
  assumes "dev_ok d" and "fits v" and "written v d" and "nvs_open (snd (save v d)) False = ESP_OK"
    and "dev_same K (snd (save v d)) d'" and "K \<inter> keys = {}" and "nvs_open d' False = ESP_OK"
  shows "load d' = fst (save v d)"
  using load_frame [OF assms(5,6)] load_save [OF assms(1-4)] assms(4,7) by simp

text \<open>A save in between does not disturb the setting whose keys it does not touch.\<close>

lemma last_save_wins:
  assumes "dev_ok d" and "fits w" and "written w (snd (save v d))"
    and "nvs_open (snd (save w (snd (save v d)))) False = ESP_OK"
  shows "load (snd (save w (snd (save v d)))) = fst (save w (snd (save v d)))"
  using load_save [of "snd (save v d)" w] save_frame [OF assms(1), of v] assms by (simp add: dev_same_ok)

end

end
