(* ===== verification/SavedList.thy ===== *)
theory SavedList
  imports Prelude
begin

text \<open>
  The contract of a saved list as the web pages use it.  The bridge keeps two of them, the
  bookmarks and the WiFi networks; the pages number the entries from 0, print entry after
  entry, and delete by index.  \<open>entries\<close> is the abstract list, \<open>view\<close> the part of an entry
  the getter hands out, \<open>maxn\<close> the capacity.
\<close>

locale saved_list =
  fixes inv :: "'s \<Rightarrow> bool"
    and entries :: "'s \<Rightarrow> 'e list"
    and count :: "'s \<Rightarrow> nat"
    and get :: "'s \<Rightarrow> int \<Rightarrow> 'v option"
    and remove :: "'s \<Rightarrow> int \<Rightarrow> bool \<times> 's"
    and view :: "'e \<Rightarrow> 'v"
    and maxn :: nat
  assumes bound: "inv s \<Longrightarrow> length (entries s) \<le> maxn"
    and count: "inv s \<Longrightarrow> count s = length (entries s)"
    and get_in: "inv s \<Longrightarrow> k < length (entries s) \<Longrightarrow> get s (int k) = Some (view (entries s ! k))"
    and get_out: "inv s \<Longrightarrow> i < 0 \<or> int (length (entries s)) \<le> i \<Longrightarrow> get s i = None"
    and remove_ok: "inv s \<Longrightarrow> remove s i = (True, s') \<Longrightarrow>
      0 \<le> i \<and> i < int (length (entries s)) \<and> inv s' \<and> entries s' = remove_nth (nat i) (entries s)"
    and remove_out: "inv s \<Longrightarrow> i < 0 \<or> int (length (entries s)) \<le> i \<Longrightarrow> remove s i = (False, s)"
begin

text \<open>What a page shows: the getter asked for every index below the count.\<close>

lemma listing:
  assumes "inv s"
  shows "map (\<lambda>i. get s (int i)) [0..<count s] = map (Some \<circ> view) (entries s)"
  by (rule nth_equalityI) (simp_all add: assms count get_in)

lemma count_le: "inv s \<Longrightarrow> count s \<le> maxn"
  using bound count by simp

lemma get_after_remove:
  assumes "inv s" and "remove s i = (True, s')" and "0 \<le> j"
  shows "get s' j = (if j < i then get s j else get s (j + 1))"
proof -
  let ?n = "length (entries s)"
  note r = remove_ok [OF assms(1,2)]
  then have len: "length (entries s') = ?n - 1" using length_remove_nth [of "nat i" "entries s"] by auto
  obtain j' where j: "j = int j'" using assms(3) nonneg_int_cases by blast
  show ?thesis
  proof (cases "j' < ?n - 1")
    case True
    then have less: "j' < length (entries s')" "j' < ?n" "Suc j' < ?n" using len by auto
    have "entries s' ! j' = (if j < i then entries s ! j' else entries s ! Suc j')"
      using nth_remove_nth [of "nat i" "entries s" j'] r True j by auto
    moreover have "get s (j + 1) = Some (view (entries s ! Suc j'))"
      using get_in [OF assms(1) less(3)] j by (simp add: add.commute)
    ultimately show ?thesis
      using get_in [OF _ less(1)] get_in [OF assms(1) less(2)] r j by simp
  next
    case False
    then have "get s' j = None" "get s (j + 1) = None"
      using get_out [of s' j] get_out [OF assms(1), of "j + 1"] r len j by auto
    moreover have "\<not> j < i" using False r j by auto
    ultimately show ?thesis by simp
  qed
qed

lemma count_after_remove:
  "inv s \<Longrightarrow> remove s i = (True, s') \<Longrightarrow> count s' + 1 = count s"
  using remove_ok [of s i s'] count [of s] count [of s'] length_remove_nth [of "nat i" "entries s"]
  by auto

text \<open>Deleting never brings in anything that was not listed before.\<close>

lemma remove_shows_subset:
  assumes "inv s" and "remove s i = (True, s')" and "get s' j = Some v"
  shows "\<exists>k. get s k = Some v"
  using assms get_after_remove [OF assms(1,2), of j] get_out [of s' j] remove_ok [OF assms(1,2)]
  by (metis not_less option.distinct(1))

end

end
