(* ===== verification/OneShot.thy ===== *)
theory OneShot
  imports Main
begin

text \<open>
  The one-at-a-time guard of the firmware.  Work for another task is requested under
  \<open>state_mux\<close> by a flag: a request that finds the flag set queues nothing, one that finds it
  clear sets it and queues the work (or, when the task cannot be created, clears it again), and
  the work clears it when it fires.  Queueing a BTstack callback registration twice corrupts the
  run loop's list, and two retry tasks would race, so what matters is that at most one piece of
  work is ever queued.
\<close>

locale one_shot =
  fixes flag :: "'s \<Rightarrow> bool"
    and queued :: "'s \<Rightarrow> nat"
    and request :: "'s \<Rightarrow> 's"
    and fire :: "'s \<Rightarrow> 's"
  assumes busy: "flag s \<Longrightarrow> flag (request s) \<and> queued (request s) = queued s"
    and idle: "\<not> flag s \<Longrightarrow> (flag (request s) \<and> queued (request s) = Suc (queued s)) \<or>
      (\<not> flag (request s) \<and> queued (request s) = queued s)"
    and fired: "queued s = Suc n \<Longrightarrow> \<not> flag (fire s) \<and> queued (fire s) = n"
begin

text \<open>The flag says exactly whether the work is queued.\<close>

definition matched :: "'s \<Rightarrow> bool" where
  "matched s \<longleftrightarrow> queued s = (if flag s then 1 else 0)"

lemma request_matched: "matched s \<Longrightarrow> matched (request s)"
  using busy [of s] idle [of s] by (cases "flag s") (auto simp: matched_def)

lemma fire_matched: "matched s \<Longrightarrow> 0 < queued s \<Longrightarrow> matched (fire s)"
  using fired [of s 0] by (auto simp: matched_def split: if_splits)

lemma at_most_one: "matched s \<Longrightarrow> queued s \<le> 1"
  by (simp add: matched_def)

text \<open>However many requests arrive before the work fires, it is queued once.\<close>

lemma requests_coalesce:
  assumes "matched s" and "flag s \<or> flag (request s)"
  shows "flag ((request ^^ Suc n) s) \<and> queued ((request ^^ Suc n) s) = 1"
proof (induction n)
  case 0
  have "flag (request s)" using assms busy [of s] by auto
  then show ?case using request_matched [OF assms(1)] by (simp add: matched_def)
next
  case (Suc n)
  then show ?case using busy [of "(request ^^ Suc n) s"] by simp
qed

end

end
