(* ===== verification/Bookmarks.thy ===== *)
theory Bookmarks
  imports Nvs SavedList
begin

text \<open>
  The shared bookmark list of \<open>main/bookmarks.c\<close>: the sanitising and normalising of what
  the web page submits, and the list itself, which lives in the flash store as one string per
  entry and a count.
\<close>

definition BM_MAX :: nat where "BM_MAX = 24"
definition BM_TITLE_MAX :: nat where "BM_TITLE_MAX = 32"
definition BM_URL_MAX :: nat where "BM_URL_MAX = 160"
definition BM_RAW_MAX :: nat where "BM_RAW_MAX = BM_TITLE_MAX + BM_URL_MAX"

lemmas bm_consts = BM_MAX_def BM_TITLE_MAX_def BM_URL_MAX_def BM_RAW_MAX_def

record bookmark =
  bm_title :: string
  bm_url :: string

section \<open>Sanitizing\<close>

definition is_ctrl :: "char \<Rightarrow> bool" where
  "is_ctrl c \<longleftrightarrow> ccode c < 0x20 \<or> ccode c = 0x7f"

definition is_blank :: "char \<Rightarrow> bool" where
  "is_blank c \<longleftrightarrow> c = CHR '' '' \<or> c = CHR 0x09"

text \<open>The copy loop: \<open>dst\<close> is what has been written so far, \<open>length dst\<close> is \<open>w\<close>.\<close>

fun sanitize_copy :: "nat \<Rightarrow> string \<Rightarrow> string \<Rightarrow> string" where
  "sanitize_copy n dst [] = dst"
| "sanitize_copy n dst (c # p) =
     (if length dst + 1 < n
      then if is_ctrl c then sanitize_copy n dst p else sanitize_copy n (dst @ [c]) p
      else dst)"

definition sanitize :: "string \<Rightarrow> nat \<Rightarrow> string" where
  "sanitize src n = trim_end (sanitize_copy n [] (dropWhile is_blank src))"

definition starts_with_ci :: "string \<Rightarrow> string \<Rightarrow> bool" where
  "starts_with_ci s prefix = starts_nocase s prefix"

definition is_bare_host :: "string \<Rightarrow> bool" where
  "is_bare_host s =
     (case strchr s CHR '':'' of
        None \<Rightarrow> True
      | Some colon \<Rightarrow>
          (let slash = strchr s CHR ''/''; p = colon + 1 in
           if slash \<noteq> None \<and> colon > the slash then True
           else if p = length s \<or> Some p = slash then False
           else list_all isdigit
                  (case slash of None \<Rightarrow> drop p s | Some sl \<Rightarrow> take (sl - p) (drop p s))))"

definition normalize_url :: "string \<Rightarrow> nat \<Rightarrow> string option" where
  "normalize_url inp n =
     (let clean = sanitize inp (BM_URL_MAX * 2) in
      if clean = [] then None
      else if length clean \<ge> n then None
      else if strstr clean ''://'' = None then
        (if \<not> is_bare_host clean then None
         else if length clean + 7 \<ge> n then None
         else Some (strlcat (strlcpy ''http://'' n) clean n))
      else if \<not> starts_with_ci clean ''http://'' \<and> \<not> starts_with_ci clean ''https://'' then None
      else Some (strlcpy clean n))"

section \<open>The list in the flash store\<close>

record ('s, 'b) bm_state =
  bm_open :: bool          \<comment> \<open>\<open>bm_nvs != 0\<close>: the handle opened by \<open>bookmarks_init\<close>\<close>
  bm_dev :: "('s, 'b) nvs_dev"
  bm_count :: nat          \<comment> \<open>RAM copy of the stored count\<close>

definition digit_char :: "nat \<Rightarrow> char" where
  "digit_char d = char_of (48 + d mod 10)"

definition entry_key :: "nat \<Rightarrow> string" where
  "entry_key i = ''bm'' @ [digit_char (i mod 100 div 10), digit_char (i mod 100)]"

definition NVS_KEY_COUNT :: string where "NVS_KEY_COUNT = ''bmc''"

definition raw_read :: "('s, 'b) nvs_dev \<Rightarrow> nat \<Rightarrow> nat \<Rightarrow> string option" where
  "raw_read d i n = nvs_get_str d (entry_key i) n"

definition raw_write :: "('s, 'b) nvs_dev \<Rightarrow> nat \<Rightarrow> string \<Rightarrow> esp_err \<times> ('s, 'b) nvs_dev" where
  "raw_write d i raw = nvs_set_str d (entry_key i) raw"

definition count_write :: "('s, 'b) nvs_dev \<Rightarrow> nat \<Rightarrow> esp_err \<times> ('s, 'b) nvs_dev" where
  "count_write d c = nvs_set_u8 d NVS_KEY_COUNT (of_nat c)"

definition bookmarks_init :: "('s, 'b) bm_state \<Rightarrow> ('s, 'b) bm_state" where
  "bookmarks_init s =
     (if nvs_open (bm_dev s) True \<noteq> ESP_OK then s\<lparr>bm_open := False\<rparr>
      else (let s = s\<lparr>bm_open := True\<rparr> in
        case nvs_get_u8 (bm_dev s) NVS_KEY_COUNT of
          None \<Rightarrow> s
        | Some c \<Rightarrow> s\<lparr>bm_count := (if unat c > BM_MAX then BM_MAX else unat c)\<rparr>))"

definition bookmarks_count :: "('s, 'b) bm_state \<Rightarrow> nat" where
  "bookmarks_count s = bm_count s"

text \<open>Splitting a stored record \<open>"<title>\<newline><url>"\<close>; the result is what \<open>*out\<close> holds.\<close>

definition split_raw :: "string \<Rightarrow> bookmark" where
  "split_raw raw =
     (case strchr raw CHR 0x0A of
        Some sep \<Rightarrow> \<lparr>bm_title = strlcpy (take sep raw) BM_TITLE_MAX,
                     bm_url = strlcpy (drop (sep + 1) raw) BM_URL_MAX\<rparr>
      | None \<Rightarrow> \<lparr>bm_title = [], bm_url = strlcpy raw BM_URL_MAX\<rparr>)"

definition bookmarks_get :: "('s, 'b) bm_state \<Rightarrow> int \<Rightarrow> bookmark option" where
  "bookmarks_get s index =
     (if \<not> bm_open s \<or> index < 0 \<or> index \<ge> int (bm_count s) then None
      else case raw_read (bm_dev s) (nat index) BM_RAW_MAX of
        None \<Rightarrow> None
      | Some raw \<Rightarrow>
          (let out = split_raw raw in if bm_url out \<noteq> [] then Some out else None))"

definition join_raw :: "string \<Rightarrow> string \<Rightarrow> string" where
  "join_raw title url = strlcpy (title @ [CHR 0x0A] @ url) BM_RAW_MAX"

text \<open>\<open>title\<close> is None for a NULL pointer, and so is \<open>url\<close>.\<close>

definition bookmarks_set ::
  "('s, 'b) bm_state \<Rightarrow> int \<Rightarrow> string option \<Rightarrow> string option \<Rightarrow> bool \<times> ('s, 'b) bm_state" where
  "bookmarks_set s index title url =
     (if \<not> bm_open s \<or> url = None then (False, s)
      else case normalize_url (the url) BM_URL_MAX of
        None \<Rightarrow> (False, s)
      | Some clean_url \<Rightarrow>
          (let clean_title = sanitize (case title of Some t \<Rightarrow> t | None \<Rightarrow> []) BM_TITLE_MAX;
               append = index < 0
           in if append \<and> bm_count s \<ge> BM_MAX then (False, s)
              else if \<not> append \<and> index \<ge> int (bm_count s) then (False, s)
              else
                (let i = (if append then bm_count s else nat index);
                     raw = join_raw clean_title clean_url;
                     (e1, d1) = raw_write (bm_dev s) i raw;
                     (e2, d2) = (if e1 = ESP_OK \<and> append then count_write d1 (i + 1) else (e1, d1));
                     (e3, d3) = (if e2 = ESP_OK then nvs_commit d2 else (e2, d2));
                     s' = s\<lparr>bm_dev := d3\<rparr>
                 in if e3 \<noteq> ESP_OK then (False, s')
                    else (True, if append then s'\<lparr>bm_count := i + 1\<rparr> else s'))))"

text \<open>
  The shift loop of \<open>bookmarks_remove\<close>: \<open>n\<close> is \<open>last - j\<close>.  A slot that cannot be read
  is skipped (the \<open>continue\<close>), a failed write ends the loop with its error.
\<close>

fun shift_loop :: "('s, 'b) nvs_dev \<Rightarrow> nat \<Rightarrow> nat \<Rightarrow> esp_err \<times> ('s, 'b) nvs_dev" where
  "shift_loop d j 0 = (ESP_OK, d)"
| "shift_loop d j (Suc n) =
     (case raw_read d (j + 1) BM_RAW_MAX of
        None \<Rightarrow> shift_loop d (j + 1) n
      | Some raw \<Rightarrow>
          (case raw_write d j raw of
             (ESP_OK, d') \<Rightarrow> shift_loop d' (j + 1) n
           | (e, d') \<Rightarrow> (e, d')))"

definition bookmarks_remove :: "('s, 'b) bm_state \<Rightarrow> int \<Rightarrow> bool \<times> ('s, 'b) bm_state" where
  "bookmarks_remove s index =
     (if \<not> bm_open s \<or> index < 0 \<or> index \<ge> int (bm_count s) then (False, s)
      else
        (let last = bm_count s - 1;
             (e1, d1) = count_write (bm_dev s) last
         in if e1 \<noteq> ESP_OK then (False, s\<lparr>bm_dev := d1\<rparr>)
            else
              (let (e2, d2) = shift_loop d1 (nat index) (last - nat index) in
               if e2 \<noteq> ESP_OK
               then (False, s\<lparr>bm_count := last, bm_dev := snd (nvs_commit d2)\<rparr>)
               else
                 (let d3 = snd (nvs_erase_key d2 (entry_key last));
                      (e4, d4) = nvs_commit d3
                  in (e4 = ESP_OK, s\<lparr>bm_count := last, bm_dev := d4\<rparr>)))))"

section \<open>What sanitizing gives\<close>

lemma sanitize_copy_eq:
  "length dst < n \<Longrightarrow>
    sanitize_copy n dst p = dst @ take (n - 1 - length dst) (filter (\<lambda>c. \<not> is_ctrl c) p)"
proof (induction n dst p rule: sanitize_copy.induct)
  case (2 n dst c p)
  show ?case
  proof (cases "length dst + 1 < n")
    case True
    then have "n - 1 - length dst = Suc (n - 1 - length (dst @ [c]))" by simp
    with True 2 show ?thesis by simp
  next
    case False
    with 2 show ?thesis by simp
  qed
qed simp

definition visible :: "string \<Rightarrow> string" where
  "visible src = filter (\<lambda>c. \<not> is_ctrl c) (dropWhile is_blank src)"

lemma sanitize_eq: "0 < n \<Longrightarrow> sanitize src n = trim_end (take (n - 1) (visible src))"
  by (simp add: sanitize_def sanitize_copy_eq visible_def)

lemma sanitize_no_ctrl: "0 < n \<Longrightarrow> c \<in> set (sanitize src n) \<Longrightarrow> \<not> is_ctrl c"
  using set_trim_end [of "take (n - 1) (visible src)"] set_take_subset [of "n - 1" "visible src"]
  by (auto simp: sanitize_eq visible_def)

lemma length_sanitize: "0 < n \<Longrightarrow> length (sanitize src n) < n"
  using length_trim_end [of "take (n - 1) (visible src)"] by (auto simp: sanitize_eq)

lemma last_sanitize: "0 < n \<Longrightarrow> sanitize src n \<noteq> [] \<Longrightarrow> last (sanitize src n) \<noteq> CHR '' ''"
  by (simp add: sanitize_eq last_trim_end)

text \<open>A string that is already clean and fits passes unchanged.\<close>

lemma sanitize_id:
  assumes "\<forall>c \<in> set s. \<not> is_ctrl c" and "s = [] \<or> \<not> is_blank (hd s) \<and> last s \<noteq> CHR '' ''"
    and "length s < n"
  shows "sanitize s n = s"
proof -
  have "dropWhile is_blank s = s" using assms(2) by (cases s) auto
  then have "visible s = s" using assms(1) by (simp add: visible_def filter_id_conv)
  then show ?thesis using assms(2,3) by (auto simp: sanitize_eq trim_end_id)
qed

section \<open>What normalizing gives\<close>

definition http_url :: "string \<Rightarrow> bool" where
  "http_url u \<longleftrightarrow> starts_with_ci u ''http://'' \<or> starts_with_ci u ''https://''"

lemma starts_nocase_self: "starts_nocase (p @ s) p"
  by (auto simp: starts_nocase_def starts_with_iff)

lemma http_url_hd: "http_url u \<Longrightarrow> u \<noteq> [] \<and> \<not> is_blank (hd u)"
  by (cases u) (auto simp: http_url_def starts_with_ci_def starts_nocase_def is_blank_def tolower_def)

text \<open>The two ways \<open>normalize_url\<close> accepts an address.\<close>

lemma normalize_url_cases:
  assumes "normalize_url inp n = Some u" and "n \<le> BM_URL_MAX"
  defines "clean \<equiv> sanitize inp (BM_URL_MAX * 2)"
  obtains (prefixed) "u = ''http://'' @ clean" "is_bare_host clean" "strstr clean ''://'' = None"
      "length u < n" "clean \<noteq> []"
    | (full) "u = clean" "http_url clean" "strstr clean ''://'' \<noteq> None" "length u < n" "clean \<noteq> []"
  using assms
  by (auto simp: normalize_url_def Let_def http_url_def cstr_simps split: if_splits)

definition valid_url :: "string \<Rightarrow> bool" where
  "valid_url u \<longleftrightarrow> http_url u \<and> (\<forall>c \<in> set u. \<not> is_ctrl c) \<and> last u \<noteq> CHR '' '' \<and>
     strstr u ''://'' \<noteq> None \<and> length u < BM_URL_MAX"

lemma normalize_url_valid:
  assumes "normalize_url inp BM_URL_MAX = Some u"
  shows "valid_url u"
proof -
  have pos: "0 < BM_URL_MAX * 2" by (simp add: bm_consts)
  note clean = sanitize_no_ctrl [OF pos] last_sanitize [OF pos, of inp]
  from assms order_refl show ?thesis
  proof (cases rule: normalize_url_cases)
    case prefixed
    have "strstr (''http'' @ ''://'' @ sanitize inp (BM_URL_MAX * 2)) ''://'' \<noteq> None"
      by (rule strstr_append)
    moreover have "\<forall>c \<in> set ''http://''. \<not> is_ctrl c" by (simp add: is_ctrl_def)
    ultimately show ?thesis using prefixed clean starts_nocase_self [of "''http://''"]
      by (auto simp: valid_url_def http_url_def starts_with_ci_def)
  next
    case full
    then show ?thesis using clean by (auto simp: valid_url_def)
  qed
qed

lemma normalize_url_id:
  assumes "valid_url u"
  shows "normalize_url u BM_URL_MAX = Some u"
proof -
  have "sanitize u (BM_URL_MAX * 2) = u"
    using assms http_url_hd [of u] by (intro sanitize_id) (auto simp: valid_url_def bm_consts)
  then show ?thesis
    using assms http_url_hd [of u]
    by (auto simp: normalize_url_def valid_url_def http_url_def Let_def cstr_simps)
qed

lemma valid_url_facts:
  assumes "valid_url u"
  shows "u \<noteq> []" and "length u < 160" and "\<And>c. c \<in> set u \<Longrightarrow> \<not> is_ctrl c"
  using assms http_url_hd [of u] by (auto simp: valid_url_def bm_consts)

section \<open>Keys and records\<close>

lemma ccode_digit_char: "ccode (digit_char d) = 48 + d mod 10"
proof -
  have "48 + d mod 10 < 256" using mod_less_divisor [of 10 d] by linarith
  then show ?thesis by (simp add: digit_char_def)
qed

lemma digit_char_inj: "digit_char a = digit_char b \<Longrightarrow> a mod 10 = b mod 10"
  using ccode_digit_char [of a] ccode_digit_char [of b] by simp

lemma entry_key_inj: "i < 100 \<Longrightarrow> j < 100 \<Longrightarrow> entry_key i = entry_key j \<Longrightarrow> i = j"
proof -
  assume less: "i < 100" "j < 100" and "entry_key i = entry_key j"
  then have "digit_char (i div 10) = digit_char (j div 10)" "digit_char i = digit_char j"
    by (simp_all only: entry_key_def mod_less append.simps list.inject)
  then have "i div 10 mod 10 = j div 10 mod 10" and "i mod 10 = j mod 10"
    by (blast intro: digit_char_inj)+
  moreover have "i div 10 < 10" "j div 10 < 10" using less by auto
  ultimately show "i = j" by (metis div_mult_mod_eq mod_less)
qed

lemma entry_key_eq_iff [simp]: "i < 100 \<Longrightarrow> j < 100 \<Longrightarrow> entry_key i = entry_key j \<longleftrightarrow> i = j"
  using entry_key_inj by blast

lemma entry_key_count [simp]: "entry_key i \<noteq> NVS_KEY_COUNT" "NVS_KEY_COUNT \<noteq> entry_key i"
  by (auto simp: entry_key_def NVS_KEY_COUNT_def)

definition valid_bm :: "bookmark \<Rightarrow> bool" where
  "valid_bm b \<longleftrightarrow> valid_url (bm_url b) \<and> length (bm_title b) < BM_TITLE_MAX \<and>
     (\<forall>c \<in> set (bm_title b). \<not> is_ctrl c)"

definition raw_of :: "bookmark \<Rightarrow> string" where
  "raw_of b = bm_title b @ [CHR 0x0A] @ bm_url b"

lemma join_raw_eq:
  assumes "valid_bm b"
  shows "join_raw (bm_title b) (bm_url b) = raw_of b" and "length (raw_of b) < BM_RAW_MAX"
  using assms valid_url_facts [of "bm_url b"]
  by (auto simp: valid_bm_def join_raw_def raw_of_def strlcpy_def bm_consts)

lemma split_raw_of: "valid_bm b \<Longrightarrow> split_raw (raw_of b) = b"
proof -
  assume b: "valid_bm b"
  then have "CHR 0x0A \<notin> set (bm_title b)" by (force simp: valid_bm_def is_ctrl_def)
  then have "strchr (raw_of b) CHR 0x0A = Some (length (bm_title b))"
    by (simp add: raw_of_def cstr_simps)
  then show ?thesis using b valid_url_facts [of "bm_url b"]
    by (simp add: split_raw_def raw_of_def valid_bm_def bm_consts cstr_simps)
qed

section \<open>The stored list\<close>

definition slots :: "('s, 'b) nvs_dev \<Rightarrow> bookmark list \<Rightarrow> bool" where
  "slots d bs \<longleftrightarrow> (\<forall>i < length bs. valid_bm (bs ! i) \<and> raw_read d i BM_RAW_MAX = Some (raw_of (bs ! i)))"

definition count_stored :: "('s, 'b) nvs_dev \<Rightarrow> nat \<Rightarrow> bool" where
  "count_stored d n \<longleftrightarrow> nvs_get_u8 d NVS_KEY_COUNT = Some (of_nat n) \<or>
     n = 0 \<and> nvs_get_u8 d NVS_KEY_COUNT = None"

text \<open>\<open>bm_view\<close>: the running bridge shows the list \<open>bs\<close>.  \<open>bm_repr\<close>: it also survives
  a reboot.\<close>

definition bm_view :: "('s, 'b) bm_state \<Rightarrow> bookmark list \<Rightarrow> bool" where
  "bm_view s bs \<longleftrightarrow> bm_open s \<and> dev_ok (bm_dev s) \<and> length bs \<le> BM_MAX \<and>
     bm_count s = length bs \<and> slots (bm_dev s) bs"

definition bm_repr :: "('s, 'b) bm_state \<Rightarrow> bookmark list \<Rightarrow> bool" where
  "bm_repr s bs \<longleftrightarrow> bm_view s bs \<and> count_stored (bm_dev s) (length bs)"

lemma bm_viewD:
  assumes "bm_view s bs"
  shows "bm_open s" "dev_ok (bm_dev s)" "length bs \<le> 24" "bm_count s = length bs"
    "slots (bm_dev s) bs"
  using assms by (simp_all add: bm_view_def bm_consts)

lemma raw_write_frame:
  assumes "dev_ok d" and "raw_write d i raw = (e, d')" and "i < 100"
  shows "dev_ok d'" and "\<And>j n. j < 100 \<Longrightarrow> j \<noteq> i \<Longrightarrow> raw_read d' j n = raw_read d j n"
    and "nvs_get_u8 d' NVS_KEY_COUNT = nvs_get_u8 d NVS_KEY_COUNT"
proof -
  have same: "dev_same {entry_key i} d d'"
    using nvs_writes_same(1) [OF assms(1), of "entry_key i" raw] assms(2) by (simp add: raw_write_def)
  then show "dev_ok d'" using assms(1) by (simp add: dev_same_ok)
  show "\<And>j n. j < 100 \<Longrightarrow> j \<noteq> i \<Longrightarrow> raw_read d' j n = raw_read d j n"
    using dev_same_get(1) [OF same] assms(3) by (simp add: raw_read_def)
  show "nvs_get_u8 d' NVS_KEY_COUNT = nvs_get_u8 d NVS_KEY_COUNT"
    using dev_same_get(2) [OF same] by simp
qed

lemma raw_write_read:
  "dev_ok d \<Longrightarrow> raw_write d i raw = (ESP_OK, d') \<Longrightarrow> length raw < n \<Longrightarrow> raw_read d' i n = Some raw"
  by (simp add: raw_write_def raw_read_def nvs_get_set(1))

lemma count_write_frame:
  assumes "dev_ok d" and "count_write d c = (e, d')"
  shows "dev_ok d'" and "\<And>j n. raw_read d' j n = raw_read d j n"
    and "e = ESP_OK \<Longrightarrow> count_stored d' c"
proof -
  have same: "dev_same {NVS_KEY_COUNT} d d'"
    using nvs_writes_same(2) [OF assms(1), of NVS_KEY_COUNT "of_nat c"] assms(2)
    by (simp add: count_write_def)
  then show "dev_ok d'" using assms(1) by (simp add: dev_same_ok)
  show "\<And>j n. raw_read d' j n = raw_read d j n"
    using dev_same_get(1) [OF same] by (simp add: raw_read_def)
  show "e = ESP_OK \<Longrightarrow> count_stored d' c"
    using nvs_get_set(2) [OF assms(1)] assms(2) by (simp add: count_write_def count_stored_def)
qed

lemma commit_frame:
  assumes "dev_ok d" and "nvs_commit d = (e, d')"
  shows "dev_ok d'" and "raw_read d' j n = raw_read d j n"
    and "nvs_get_u8 d' k = nvs_get_u8 d k"
  using nvs_writes_same(6) [OF assms(1)] assms
  by (auto simp: raw_read_def dev_same_get dev_same_ok)

lemma erase_slot_frame:
  assumes "dev_ok d" and "i < 100"
  defines "d' \<equiv> snd (nvs_erase_key d (entry_key i))"
  shows "dev_ok d'" and "\<And>j n. j < 100 \<Longrightarrow> j \<noteq> i \<Longrightarrow> raw_read d' j n = raw_read d j n"
    and "nvs_get_u8 d' NVS_KEY_COUNT = nvs_get_u8 d NVS_KEY_COUNT"
  using nvs_writes_same(5) [OF assms(1), of "entry_key i"] assms
  by (auto simp: raw_read_def dev_same_get dev_same_ok)

lemma slots_cong:
  "slots d bs \<Longrightarrow> (\<And>i. i < length bs \<Longrightarrow> raw_read d' i BM_RAW_MAX = raw_read d i BM_RAW_MAX) \<Longrightarrow>
    slots d' bs"
  by (simp add: slots_def)

lemma count_stored_cong:
  "nvs_get_u8 d' NVS_KEY_COUNT = nvs_get_u8 d NVS_KEY_COUNT \<Longrightarrow> count_stored d' n = count_stored d n"
  by (simp add: count_stored_def)

lemma commit_keeps:
  assumes "dev_ok d" and "nvs_commit d = (e, d')"
  shows "dev_ok d'" "slots d bs \<Longrightarrow> slots d' bs" "count_stored d n \<Longrightarrow> count_stored d' n"
  using commit_frame [OF assms] by (simp_all add: slots_def count_stored_def)

lemma count_write_keeps:
  assumes "dev_ok d" and "count_write d c = (e, d')"
  shows "dev_ok d'" "slots d bs \<Longrightarrow> slots d' bs" "e = ESP_OK \<Longrightarrow> count_stored d' c"
  using count_write_frame [OF assms] by (simp_all add: slots_def)

lemma raw_write_keeps:
  assumes "dev_ok d" and "raw_write d i raw = (e, d')" and "i < 100"
  shows "dev_ok d'" "length bs \<le> i \<Longrightarrow> slots d bs \<Longrightarrow> slots d' bs"
    "count_stored d n \<Longrightarrow> count_stored d' n"
  using raw_write_frame [OF assms] assms(3) by (auto simp: slots_def count_stored_def)

subsection \<open>Reading\<close>

lemma bookmarks_get_view:
  assumes "bm_view s bs"
  shows "bookmarks_get s i = (if 0 \<le> i \<and> i < int (length bs) then Some (bs ! nat i) else None)"
proof (cases "0 \<le> i \<and> i < int (length bs)")
  case True
  then have k: "nat i < length bs" by linarith
  then have "valid_bm (bs ! nat i)" "raw_read (bm_dev s) (nat i) BM_RAW_MAX = Some (raw_of (bs ! nat i))"
    using bm_viewD(5) [OF assms] by (auto simp: slots_def)
  with True bm_viewD [OF assms] valid_url_facts(1) [of "bm_url (bs ! nat i)"] show ?thesis
    by (auto simp: bookmarks_get_def split_raw_of Let_def valid_bm_def)
next
  case False
  with bm_viewD [OF assms] show ?thesis by (auto simp: bookmarks_get_def)
qed

lemma bm_view_unique: "bm_view s bs \<Longrightarrow> bm_view s cs \<Longrightarrow> bs = cs"
proof -
  assume v: "bm_view s bs" "bm_view s cs"
  then have len: "length bs = length cs" by (simp add: bm_view_def)
  have "bs ! i = cs ! i" if "i < length bs" for i
    using bookmarks_get_view [OF v(1), of "int i"] bookmarks_get_view [OF v(2), of "int i"] that len
    by simp
  with len show ?thesis by (simp add: list_eq_iff_nth_eq)
qed

subsection \<open>Adding and updating\<close>

definition bm_new :: "string option \<Rightarrow> string \<Rightarrow> bookmark" where
  "bm_new title cu = \<lparr>bm_title = sanitize (case title of Some t \<Rightarrow> t | None \<Rightarrow> []) BM_TITLE_MAX, bm_url = cu\<rparr>"

lemma valid_bm_new: "normalize_url u BM_URL_MAX = Some cu \<Longrightarrow> valid_bm (bm_new t cu)"
  using normalize_url_valid [of u cu] sanitize_no_ctrl [of BM_TITLE_MAX]
    length_sanitize [of BM_TITLE_MAX]
  by (auto simp: valid_bm_def bm_new_def bm_consts split: option.splits)

lemma slots_append:
  assumes "slots d bs" and "dev_ok d" and "length bs < 100"
    and "raw_write d (length bs) (raw_of b) = (ESP_OK, d')" and "valid_bm b"
  shows "slots d' (bs @ [b])"
  using assms raw_write_frame(2) [OF assms(2,4,3)] raw_write_read [OF assms(2,4) join_raw_eq(2)]
  by (auto simp: slots_def nth_append less_Suc_eq)

lemma slots_update:
  assumes "slots d bs" and "dev_ok d" and "length bs \<le> 24" and "i < length bs"
    and "raw_write d i (raw_of b) = (ESP_OK, d')" and "valid_bm b"
  shows "slots d' (bs[i := b])"
  using assms raw_write_frame(2) [OF assms(2,5)] raw_write_read [OF assms(2,5) join_raw_eq(2)]
  by (auto simp: slots_def nth_list_update)

text \<open>How a successful save went: the writes it made.\<close>

lemma bookmarks_set_TrueE:
  assumes "bookmarks_set s index title url = (True, s')"
  obtains (append) cu d1 d2 d3 where "index < 0" "bm_count s < BM_MAX"
      "url \<noteq> None" "normalize_url (the url) BM_URL_MAX = Some cu"
      "raw_write (bm_dev s) (bm_count s) (raw_of (bm_new title cu)) = (ESP_OK, d1)"
      "count_write d1 (bm_count s + 1) = (ESP_OK, d2)" "nvs_commit d2 = (ESP_OK, d3)"
      "s' = s\<lparr>bm_dev := d3, bm_count := bm_count s + 1\<rparr>"
    | (update) cu d1 d3 where "0 \<le> index" "index < int (bm_count s)"
      "url \<noteq> None" "normalize_url (the url) BM_URL_MAX = Some cu"
      "raw_write (bm_dev s) (nat index) (raw_of (bm_new title cu)) = (ESP_OK, d1)"
      "nvs_commit d1 = (ESP_OK, d3)" "s' = s\<lparr>bm_dev := d3\<rparr>"
proof -
  from assms obtain cu where cu: "url \<noteq> None" "normalize_url (the url) BM_URL_MAX = Some cu"
    by (auto simp: bookmarks_set_def split: if_splits option.splits)
  have raw: "join_raw (sanitize (case title of Some t \<Rightarrow> t | None \<Rightarrow> []) BM_TITLE_MAX) cu
      = raw_of (bm_new title cu)"
    using join_raw_eq(1) [OF valid_bm_new [OF cu(2), of title]] by (simp add: bm_new_def)
  show thesis
  proof (cases "index < 0")
    case True
    with assms cu raw show thesis
      by (auto simp: bookmarks_set_def Let_def intro!: append split: if_splits prod.splits)
  next
    case False
    with assms cu raw show thesis
      by (auto simp: bookmarks_set_def Let_def intro!: update split: if_splits prod.splits)
  qed
qed

lemma bookmarks_append_repr:
  assumes "bm_view s bs" and "bookmarks_set s index title url = (True, s')" and "index < 0"
  shows "\<exists>cu. url \<noteq> None \<and> normalize_url (the url) BM_URL_MAX = Some cu \<and>
    bm_repr s' (bs @ [bm_new title cu])"
  using assms(2)
proof (cases rule: bookmarks_set_TrueE)
  case (append cu d1 d2 d3)
  note v = bm_viewD [OF assms(1)]
  have less: "length bs < 100" using v by simp
  have d1: "slots d1 (bs @ [bm_new title cu])" "dev_ok d1"
    using slots_append [OF v(5,2) less] raw_write_frame(1) [OF v(2)] append valid_bm_new v(3,4)
    by auto
  note d2 = count_write_keeps [OF d1(2) append(6)]
  note d3 = commit_keeps [OF d2(1) append(7)]
  have "slots d3 (bs @ [bm_new title cu])" "dev_ok d3" "count_stored d3 (length bs + 1)"
    using d1 d2 d3 v(4) by auto
  then show ?thesis using append v by (auto simp: bm_repr_def bm_view_def)
qed (use assms(3) in simp)

lemma bookmarks_update_repr:
  assumes "bm_repr s bs" and "bookmarks_set s index title url = (True, s')" and "0 \<le> index"
  shows "\<exists>cu. url \<noteq> None \<and> normalize_url (the url) BM_URL_MAX = Some cu \<and>
    nat index < length bs \<and> bm_repr s' (bs[nat index := bm_new title cu])"
  using assms(2)
proof (cases rule: bookmarks_set_TrueE)
  case (update cu d1 d3)
  have view: "bm_view s bs" "count_stored (bm_dev s) (length bs)" using assms(1) by (auto simp: bm_repr_def)
  note v = bm_viewD [OF view(1)]
  have less: "nat index < length bs" "nat index < 100" using update v by linarith+
  note d1 = raw_write_keeps [OF v(2) update(5) less(2)]
  note d3 = commit_keeps [OF d1(1) update(6)]
  have "slots d1 (bs[nat index := bm_new title cu])"
    by (rule slots_update [OF v(5,2,3) less(1) update(5) valid_bm_new [OF update(4)]])
  then have "slots d3 (bs[nat index := bm_new title cu])" "dev_ok d3" "count_stored d3 (length bs)"
    using d1 d3 view(2) by auto
  then show ?thesis using update v less by (auto simp: bm_repr_def bm_view_def bm_consts)
qed (use assms(3) in simp)

text \<open>An append that does not succeed leaves the visible list as it was.\<close>

lemma bookmarks_append_fail:
  assumes view: "bm_view s bs" and fail: "bookmarks_set s index title url = (False, s')" and "index < 0"
  shows "bm_view s' bs"
proof -
  note v = bm_viewD [OF view]
  have less: "length bs < 100" using v by simp
  show ?thesis
  proof (cases "url = None \<or> normalize_url (the url) BM_URL_MAX = None \<or> BM_MAX \<le> bm_count s")
    case True
    then have "s' = s" using fail assms(3)
      by (auto simp: bookmarks_set_def Let_def split: if_splits option.splits)
    with view show ?thesis by simp
  next
    case False
    then obtain cu where cu: "normalize_url (the url) BM_URL_MAX = Some cu" by auto
    define raw where "raw = join_raw (sanitize (case title of Some t \<Rightarrow> t | None \<Rightarrow> []) BM_TITLE_MAX) cu"
    obtain e1 d1 where w1: "raw_write (bm_dev s) (length bs) raw = (e1, d1)" by fastforce
    note d1 = raw_write_keeps [OF v(2) w1 less]
    obtain e2 d2 where w2: "(if e1 = ESP_OK then count_write d1 (length bs + 1) else (e1, d1)) = (e2, d2)"
      by fastforce
    have d2: "dev_ok d2" "slots d2 bs"
      using w2 d1 v(5) count_write_keeps [OF d1(1)] by (auto split: if_splits)
    obtain e3 d3 where w3: "(if e2 = ESP_OK then nvs_commit d2 else (e2, d2)) = (e3, d3)" by fastforce
    have d3: "dev_ok d3" "slots d3 bs"
      using w3 d2 commit_keeps [OF d2(1)] by (auto split: if_splits)
    have "s' = s\<lparr>bm_dev := d3\<rparr>"
      using fail False cu assms(3) v w1 w2 w3
      by (simp add: bookmarks_set_def Let_def flip: raw_def split: if_splits)
    then show ?thesis using d3 v by (simp add: bm_view_def bm_consts)
  qed
qed

subsection \<open>Removing\<close>

text \<open>The list as it stands after \<open>k\<close> shifts of the entries from \<open>i\<close> on.\<close>

definition shifted :: "bookmark list \<Rightarrow> nat \<Rightarrow> nat \<Rightarrow> bookmark list" where
  "shifted bs i k = map (\<lambda>m. bs ! (if i \<le> m \<and> m < i + k then m + 1 else m)) [0..<length bs]"

lemma length_shifted [simp]: "length (shifted bs i k) = length bs"
  by (simp add: shifted_def)

lemma nth_shifted:
  "m < length bs \<Longrightarrow> shifted bs i k ! m = bs ! (if i \<le> m \<and> m < i + k then m + 1 else m)"
  by (simp add: shifted_def)

lemma shifted_0 [simp]: "shifted bs i 0 = bs"
  by (rule nth_equalityI) (auto simp: nth_shifted)

lemma shifted_Suc:
  "i + k + 1 < length bs \<Longrightarrow> shifted bs i (Suc k) = (shifted bs i k)[i + k := bs ! (i + k + 1)]"
  by (rule nth_equalityI) (auto simp: nth_shifted nth_list_update)

lemma take_shifted_all:
  "i < length bs \<Longrightarrow> take (length bs - 1) (shifted bs i (length bs - 1 - i)) = remove_nth i bs"
  by (rule nth_equalityI) (auto simp: nth_shifted length_remove_nth nth_remove_nth)

lemma slots_take: "slots d bs \<Longrightarrow> slots d (take n bs)"
  by (simp add: slots_def)

lemma shift_loop_slots:
  assumes "slots d (shifted bs i k)" and "dev_ok d" and "length bs \<le> 24" and "i + k + n < length bs"
    and "shift_loop d (i + k) n = (ESP_OK, d')"
  shows "slots d' (shifted bs i (k + n)) \<and> dev_ok d' \<and>
    nvs_get_u8 d' NVS_KEY_COUNT = nvs_get_u8 d NVS_KEY_COUNT"
  using assms
proof (induction n arbitrary: d k)
  case 0
  then show ?case by simp
next
  case (Suc n)
  let ?b = "bs ! (i + k + 1)"
  have less: "i + k + 1 < length bs" "i + k < 100" "i + k < length bs" using Suc.prems by auto
  have "shifted bs i k ! (i + k + 1) = ?b" using less by (simp add: nth_shifted)
  then have rd: "raw_read d (i + k + 1) BM_RAW_MAX = Some (raw_of ?b)" "valid_bm ?b"
    using Suc.prems(1) less by (auto simp: slots_def)
  then obtain d1 where w: "raw_write d (i + k) (raw_of ?b) = (ESP_OK, d1)"
      and rest: "shift_loop d1 (i + k + 1) n = (ESP_OK, d')"
    using Suc.prems(5) by (auto split: prod.splits esp_err.splits)
  have "slots d1 (shifted bs i (Suc k))"
    using slots_update [OF Suc.prems(1,2) _ _ w rd(2)] less Suc.prems(3) shifted_Suc by simp
  moreover note raw_write_frame(1,3) [OF Suc.prems(2) w less(2)]
  ultimately show ?case
    using Suc.IH [of d1 "Suc k"] rest Suc.prems(3,4) by simp
qed

text \<open>How a successful delete went.\<close>

lemma bookmarks_remove_TrueE:
  assumes "bookmarks_remove s index = (True, s')"
  obtains d1 d2 d4 where "0 \<le> index" "index < int (bm_count s)"
    "count_write (bm_dev s) (bm_count s - 1) = (ESP_OK, d1)"
    "shift_loop d1 (nat index) (bm_count s - 1 - nat index) = (ESP_OK, d2)"
    "nvs_commit (snd (nvs_erase_key d2 (entry_key (bm_count s - 1)))) = (ESP_OK, d4)"
    "s' = s\<lparr>bm_count := bm_count s - 1, bm_dev := d4\<rparr>"
  using assms by (auto simp: bookmarks_remove_def Let_def split: if_splits prod.splits)

text \<open>After the count has been written and \<open>k\<close> entries have been shifted, the flash holds
  the shorter list \<open>take (length bs - 1) (shifted bs i k)\<close>; \<open>k\<close> ranges over every point
  of the loop.\<close>

lemma remove_prefix_stored:
  assumes "slots d bs" and "dev_ok d" and "length bs \<le> 24" and "i + k < length bs"
    and "count_write d (length bs - 1) = (ESP_OK, d1)" and "shift_loop d1 i k = (ESP_OK, d2)"
  shows "dev_ok d2" and "slots d2 (shifted bs i k)" and "count_stored d2 (length bs - 1)"
proof -
  note d1 = count_write_keeps [OF assms(2,5)]
  have d2: "slots d2 (shifted bs i k) \<and> dev_ok d2 \<and>
      nvs_get_u8 d2 NVS_KEY_COUNT = nvs_get_u8 d1 NVS_KEY_COUNT"
    using shift_loop_slots [of d1 bs i 0 k d2] d1 assms by simp
  then show "dev_ok d2" "slots d2 (shifted bs i k)" "count_stored d2 (length bs - 1)"
    using d1(3) count_stored_cong by blast+
qed

lemma bookmarks_remove_repr:
  assumes "bm_view s bs" and "bookmarks_remove s index = (True, s')"
  shows "0 \<le> index \<and> index < int (length bs) \<and> bm_repr s' (remove_nth (nat index) bs)"
  using assms(2)
proof (cases rule: bookmarks_remove_TrueE)
  case (1 d1 d2 d4)
  note v = bm_viewD [OF assms(1)]
  have i: "nat index < length bs" "nat index + (length bs - 1 - nat index) < length bs"
    "length bs - 1 < 100" using 1 v by auto
  have d2: "dev_ok d2" "slots d2 (remove_nth (nat index) bs)" "count_stored d2 (length bs - 1)"
    using remove_prefix_stored [OF v(5,2,3) i(2)] 1 v(4) slots_take take_shifted_all [OF i(1)]
    by metis+
  note d3 = erase_slot_frame [OF d2(1) i(3)]
  have "slots (snd (nvs_erase_key d2 (entry_key (length bs - 1)))) (remove_nth (nat index) bs)"
    using d3(2) d2(2) i by (intro slots_cong [OF d2(2)]) (auto simp: length_remove_nth)
  moreover have "count_stored (snd (nvs_erase_key d2 (entry_key (length bs - 1)))) (length bs - 1)"
    using count_stored_cong [OF d3(3)] d2(3) by simp
  moreover have "nvs_commit (snd (nvs_erase_key d2 (entry_key (length bs - 1)))) = (ESP_OK, d4)"
    using 1(5) v(4) by simp
  note d4 = commit_keeps [OF d3(1) this]
  ultimately show ?thesis using 1 v d4 i
    by (auto simp: bm_repr_def bm_view_def bm_consts length_remove_nth)
qed

lemma bookmarks_remove_out:
  "bm_view s bs \<Longrightarrow> index < 0 \<or> int (length bs) \<le> index \<Longrightarrow> bookmarks_remove s index = (False, s)"
  by (auto simp: bookmarks_remove_def bm_view_def)

subsection \<open>Reboot\<close>

definition bm_boot :: "('s, 'b) nvs_dev \<Rightarrow> ('s, 'b) bm_state" where
  "bm_boot d = bookmarks_init \<lparr>bm_open = False, bm_dev = d, bm_count = 0\<rparr>"

lemma bm_boot_repr:
  assumes "dev_ok d" and "slots d bs" and "count_stored d n" and "n \<le> length bs" and "length bs \<le> BM_MAX"
    and "nvs_open d True = ESP_OK"
  shows "bm_repr (bm_boot d) (take n bs)"
proof -
  have n: "n \<le> 24" using assms(4,5) by (simp add: bm_consts)
  then have "unat (of_nat n :: u8) = n" by (simp add: unat_of_nat)
  then have "bm_count (bm_boot d) = n"
    using assms(3,6) n by (auto simp: bm_boot_def bookmarks_init_def count_stored_def bm_consts)
  moreover have "bm_open (bm_boot d)" "bm_dev (bm_boot d) = d"
    using assms(6) by (auto simp: bm_boot_def bookmarks_init_def Let_def split: option.splits)
  ultimately show ?thesis using assms slots_take [OF assms(2), of n]
    by (auto simp: bm_repr_def bm_view_def min_def)
qed

section \<open>Failures and power cuts\<close>

text \<open>What NVS documents beyond \<open>dev_ok\<close>: a value is replaced as a whole or not at all.\<close>

definition dev_atomic :: "('s, 'b) nvs_dev \<Rightarrow> bool" where
  "dev_atomic d \<longleftrightarrow> (let ops = dev_ops d in
     (\<forall>s k v. fst (op_set_str ops s k v) \<noteq> ESP_OK \<longrightarrow> same_except {} ops s (snd (op_set_str ops s k v))) \<and>
     (\<forall>s k v. fst (op_set_u8 ops s k v) \<noteq> ESP_OK \<longrightarrow> same_except {} ops s (snd (op_set_u8 ops s k v))))"

lemma dev_atomic_map [simp]: "dev_atomic map_dev"
  by (simp add: dev_atomic_def map_ops_def map_dev_def)

lemma failed_writes:
  assumes "dev_atomic d"
  shows "raw_write d i raw = (e, d') \<Longrightarrow> e \<noteq> ESP_OK \<Longrightarrow> dev_same {} d d'"
    and "count_write d c = (e, d') \<Longrightarrow> e \<noteq> ESP_OK \<Longrightarrow> dev_same {} d d'"
  using assms by (auto simp: dev_atomic_def raw_write_def count_write_def nvs_defs dev_same_def Let_def)

lemma dev_same_keeps:
  assumes "dev_same {} d d'"
  shows "dev_ok d' = dev_ok d" "slots d' bs = slots d bs" "count_stored d' n = count_stored d n"
  using dev_same_get [OF assms] dev_same_ok [OF assms] by (simp_all add: slots_def raw_read_def count_stored_def)

text \<open>No call changes the operations of the device.\<close>

lemma bm_ops_kept [simp]:
  "dev_ops (snd (raw_write d i raw)) = dev_ops d" "dev_ops (snd (count_write d c)) = dev_ops d"
  "dev_ops (snd (nvs_commit d)) = dev_ops d" "dev_ops (snd (nvs_erase_key d k)) = dev_ops d"
  by (simp_all add: raw_write_def count_write_def nvs_defs)

lemma shift_ops_kept [simp]: "dev_ops (snd (shift_loop d j n)) = dev_ops d"
proof (induction d j n rule: shift_loop.induct)
  case (2 d j n)
  show ?case
  proof (cases "raw_read d (j + 1) BM_RAW_MAX")
    case (Some raw)
    obtain e d' where w: "raw_write d j raw = (e, d')" by fastforce
    then have "dev_ops d' = dev_ops d" using bm_ops_kept(1) [of d j raw] by simp
    then show ?thesis using 2(2) [OF Some w [symmetric]] Some w by (cases e) simp_all
  qed (use 2(1) in simp)
qed simp

lemma dev_atomic_ops: "dev_ops d' = dev_ops d \<Longrightarrow> dev_atomic d' = dev_atomic d"
  by (simp add: dev_atomic_def)

lemma dev_ok_ops: "dev_ops d' = dev_ops d \<Longrightarrow> dev_ok d' = dev_ok d"
  by (simp add: dev_ok_def)

text \<open>The shift loop ends, or is stopped by a write that fails, after a number of shifts.\<close>

lemma shift_point:
  assumes "slots d (shifted bs i k)" and "dev_ok d" and "dev_atomic d" and "length bs \<le> 24" and "i + k + n < length bs"
  shows "\<exists>k'\<le>k + n. slots (snd (shift_loop d (i + k) n)) (shifted bs i k') \<and> (fst (shift_loop d (i + k) n) = ESP_OK \<longrightarrow> k' = k + n) \<and>
    nvs_get_u8 (snd (shift_loop d (i + k) n)) NVS_KEY_COUNT = nvs_get_u8 d NVS_KEY_COUNT"
  using assms
proof (induction n arbitrary: d k)
  case 0
  then show ?case by (intro exI [of _ k]) simp
next
  case (Suc n)
  let ?b = "bs ! (i + k + 1)"
  have less: "i + k + 1 < length bs" "i + k < 100" "i + k < length bs" using Suc.prems by auto
  have "shifted bs i k ! (i + k + 1) = ?b" using less by (simp add: nth_shifted)
  then have rd: "raw_read d (i + k + 1) BM_RAW_MAX = Some (raw_of ?b)" "valid_bm ?b"
    using Suc.prems(1) less by (auto simp: slots_def)
  obtain e d1 where w: "raw_write d (i + k) (raw_of ?b) = (e, d1)" by fastforce
  note f = raw_write_frame(1,3) [OF Suc.prems(2) w less(2)]
  show ?case
  proof (cases "e = ESP_OK")
    case True
    have "dev_ops d1 = dev_ops d" using w by (metis bm_ops_kept(1) snd_conv)
    then have at: "dev_atomic d1" using Suc.prems(3) dev_atomic_ops by blast
    have "slots d1 (shifted bs i (Suc k))"
      using slots_update [OF Suc.prems(1,2) _ _ w [unfolded True] rd(2)] less Suc.prems(4) shifted_Suc by simp
    from Suc.IH [OF this f(1) at Suc.prems(4)] Suc.prems(5) show ?thesis using w rd True f(2) by auto
  next
    case False
    then have "shift_loop d (i + k) (Suc n) = (e, d1)" using w rd by (cases e) simp_all
    moreover have "slots d1 (shifted bs i k)"
      using dev_same_keeps(2) [OF failed_writes(1) [OF Suc.prems(3) w False]] Suc.prems(1) by simp
    ultimately show ?thesis using f(2) False by (intro exI [of _ k]) simp
  qed
qed

text \<open>The lists a delete can leave: the old one, or a shorter one with some of the entries shifted.\<close>

definition partly_removed :: "nat \<Rightarrow> bookmark list \<Rightarrow> bookmark list \<Rightarrow> bool" where
  "partly_removed i bs bs' \<longleftrightarrow> (\<exists>k. i + k < length bs \<and> bs' = take (length bs - 1) (shifted bs i k))"

lemma partly_removed_facts:
  assumes "partly_removed i bs bs'"
  shows "length bs' = length bs - 1" "set bs' \<subseteq> set bs" "take i bs' = take i bs"
proof -
  obtain k where k: "i + k < length bs" "bs' = take (length bs - 1) (shifted bs i k)"
    using assms by (auto simp: partly_removed_def)
  then show "length bs' = length bs - 1" by simp
  show "set bs' \<subseteq> set bs" using k by (auto simp: in_set_conv_nth [of _ "take _ _"] nth_shifted)
  show "take i bs' = take i bs" using k by (intro nth_equalityI) (auto simp: nth_shifted)
qed

definition after_delete :: "nat \<Rightarrow> bookmark list \<Rightarrow> ('s, 'b) nvs_dev \<Rightarrow> bool" where
  "after_delete i bs d \<longleftrightarrow> dev_ok d \<and> (\<exists>bs'. slots d bs' \<and> count_stored d (length bs') \<and> partly_removed i bs bs')"

lemma after_delete_steps:
  assumes "after_delete i bs d" and "length bs \<le> 24"
  shows "after_delete i bs (snd (nvs_commit d))"
    and "after_delete i bs (snd (nvs_erase_key d (entry_key (length bs - 1))))"
proof -
  obtain bs' where b: "dev_ok d" "slots d bs'" "count_stored d (length bs')" "partly_removed i bs bs'"
    using assms(1) by (auto simp: after_delete_def)
  show "after_delete i bs (snd (nvs_commit d))"
    using commit_keeps [OF b(1), of "fst (nvs_commit d)" "snd (nvs_commit d)"] b by (auto simp: after_delete_def)
  have l: "length bs' = length bs - 1" "length bs - 1 < 100" using partly_removed_facts(1) [OF b(4)] assms(2) by simp_all
  note f = erase_slot_frame [OF b(1) l(2)]
  have "slots (snd (nvs_erase_key d (entry_key (length bs - 1)))) bs'"
    by (rule slots_cong [OF b(2)]) (use f(2) l assms(2) in auto)
  then show "after_delete i bs (snd (nvs_erase_key d (entry_key (length bs - 1))))"
    using f(1) count_stored_cong [OF f(3)] b by (auto simp: after_delete_def)
qed

lemma after_delete_shift:
  assumes "bm_view s bs" and "dev_atomic (bm_dev s)" and "count_write (bm_dev s) (length bs - 1) = (ESP_OK, d1)"
    and "i + n < length bs"
  shows "after_delete i bs (snd (shift_loop d1 i n))"
proof -
  note v = bm_viewD [OF assms(1)]
  note d1 = count_write_keeps [OF v(2) assms(3)]
  have ops: "dev_ops d1 = dev_ops (bm_dev s)" using assms(3) by (metis bm_ops_kept(2) snd_conv)
  then have at: "dev_atomic d1" using assms(2) dev_atomic_ops by blast
  let ?d = "snd (shift_loop d1 i n)"
  obtain k' where k: "k' \<le> n" "slots ?d (shifted bs i k')" "nvs_get_u8 ?d NVS_KEY_COUNT = nvs_get_u8 d1 NVS_KEY_COUNT"
    using shift_point [of d1 bs i 0 n] d1 v at assms(4) by auto
  have "dev_ok ?d" using dev_ok_ops [of ?d d1] d1(1) by simp
  moreover have "count_stored ?d (length bs - 1)" using count_stored_cong [OF k(3)] d1(3) by simp
  moreover have "partly_removed i bs (take (length bs - 1) (shifted bs i k'))"
    using k(1) assms(4) unfolding partly_removed_def by (intro exI [of _ k']) simp
  ultimately show ?thesis
    using slots_take [OF k(2), of "length bs - 1"] by (fastforce simp: after_delete_def)
qed



text \<open>A device that keeps every image it went through: the points at which the power can go.\<close>

definition trace_ops :: "('s, 'b) nvs_ops \<Rightarrow> ('s \<times> 's list, 'b) nvs_ops" where
  "trace_ops ops = (let keep = (\<lambda>s r. (fst r, snd r, fst s # snd s)) in
     \<lparr>op_open = (\<lambda>s. op_open ops (fst s)), op_get_str = (\<lambda>s. op_get_str ops (fst s)),
      op_get_u8 = (\<lambda>s. op_get_u8 ops (fst s)), op_get_u16 = (\<lambda>s. op_get_u16 ops (fst s)),
      op_get_blob = (\<lambda>s. op_get_blob ops (fst s)),
      op_set_str = (\<lambda>s k v. keep s (op_set_str ops (fst s) k v)), op_set_u8 = (\<lambda>s k v. keep s (op_set_u8 ops (fst s) k v)),
      op_set_u16 = (\<lambda>s k v. keep s (op_set_u16 ops (fst s) k v)), op_set_blob = (\<lambda>s k v. keep s (op_set_blob ops (fst s) k v)),
      op_erase_key = (\<lambda>s k. keep s (op_erase_key ops (fst s) k)), op_commit = (\<lambda>s. keep s (op_commit ops (fst s)))\<rparr>)"

definition traced :: "'s list \<Rightarrow> ('s, 'b) nvs_dev \<Rightarrow> ('s \<times> 's list, 'b) nvs_dev" where
  "traced h d = \<lparr>dev_ops = trace_ops (dev_ops d), dev_img = (dev_img d, h)\<rparr>"

definition bm_traced :: "('s, 'b) bm_state \<Rightarrow> ('s \<times> 's list, 'b) bm_state" where
  "bm_traced s = \<lparr>bm_open = bm_open s, bm_dev = traced [] (bm_dev s), bm_count = bm_count s\<rparr>"

definition images :: "('s \<times> 's list, 'b) bm_state \<Rightarrow> 's list" where
  "images s = fst (dev_img (bm_dev s)) # snd (dev_img (bm_dev s))"

lemma traced_img [simp]: "dev_img (traced h d) = (dev_img d, h)"
  by (simp add: traced_def)

lemma traced_calls:
  "raw_read (traced h d) i n = raw_read d i n"
  "raw_write (traced h d) i raw = map_prod id (traced (dev_img d # h)) (raw_write d i raw)"
  "count_write (traced h d) c = map_prod id (traced (dev_img d # h)) (count_write d c)"
  "nvs_erase_key (traced h d) k = map_prod id (traced (dev_img d # h)) (nvs_erase_key d k)"
  "nvs_commit (traced h d) = map_prod id (traced (dev_img d # h)) (nvs_commit d)"
  by (simp_all add: traced_def trace_ops_def raw_read_def raw_write_def count_write_def nvs_defs Let_def)

lemma shift_traced:
  "\<exists>h'. shift_loop (traced h d) j n = map_prod id (traced h') (shift_loop d j n) \<and>
     set h' \<subseteq> set h \<union> (\<lambda>m. dev_img (snd (shift_loop d j m))) ` {..n}"
proof (induction n arbitrary: h d j)
  case 0
  then show ?case by (intro exI [of _ h]) auto
next
  case (Suc n)
  have st: "(\<lambda>m. dev_img (snd (shift_loop d j m))) ` {..Suc n} =
      insert (dev_img d) ((\<lambda>m. dev_img (snd (shift_loop d j (Suc m)))) ` {..n})"
    by (simp add: atMost_Suc_eq_insert_0 image_image del: shift_loop.simps(2))
  show ?case
  proof (cases "raw_read d (j + 1) BM_RAW_MAX")
    case None
    from Suc.IH [of h d "j + 1"] obtain h' where "shift_loop (traced h d) (j + 1) n = map_prod id (traced h') (shift_loop d (j + 1) n)"
      "set h' \<subseteq> set h \<union> (\<lambda>m. dev_img (snd (shift_loop d (j + 1) m))) ` {..n}" by blast
    with None show ?thesis unfolding st by (intro exI [of _ h']) (auto simp: traced_calls id_def)
  next
    case (Some raw)
    obtain e d' where w: "raw_write d j raw = (e, d')" by fastforce
    show ?thesis
    proof (cases "e = ESP_OK")
      case True
      from Suc.IH [of "dev_img d # h" d' "j + 1"] obtain h' where
        "shift_loop (traced (dev_img d # h) d') (j + 1) n = map_prod id (traced h') (shift_loop d' (j + 1) n)"
        "set h' \<subseteq> set (dev_img d # h) \<union> (\<lambda>m. dev_img (snd (shift_loop d' (j + 1) m))) ` {..n}" by blast
      with Some w True show ?thesis unfolding st by (intro exI [of _ h']) (auto simp: traced_calls id_def)
    next
      case False
      with Some w show ?thesis unfolding st by (cases e) (auto simp: traced_calls intro!: exI [of _ "dev_img d # h"])
    qed
  qed
qed

text \<open>A traced delete is the delete, and each of its images shows the old list or a shorter one.\<close>

lemma remove_traced:
  "fst (bookmarks_remove (bm_traced s) i) = fst (bookmarks_remove s i)"
  "hd (images (snd (bookmarks_remove (bm_traced s) i))) = dev_img (bm_dev (snd (bookmarks_remove s i)))"
proof -
  obtain e1 d1 where w: "count_write (bm_dev s) (bm_count s - 1) = (e1, d1)" by fastforce
  obtain e2 d2 where sh: "shift_loop d1 (nat i) (bm_count s - 1 - nat i) = (e2, d2)" by fastforce
  obtain h' where h': "shift_loop (traced [dev_img (bm_dev s)] d1) (nat i) (bm_count s - 1 - nat i) = (e2, traced h' d2)"
    using shift_traced [of "[dev_img (bm_dev s)]" d1] sh by (metis id_apply map_prod_simp)
  have "fst (bookmarks_remove (bm_traced s) i) = fst (bookmarks_remove s i) \<and>
      hd (images (snd (bookmarks_remove (bm_traced s) i))) = dev_img (bm_dev (snd (bookmarks_remove s i)))"
    using w sh h' by (simp add: bookmarks_remove_def bm_traced_def images_def traced_calls Let_def case_prod_beta)
  then show "fst (bookmarks_remove (bm_traced s) i) = fst (bookmarks_remove s i)"
    "hd (images (snd (bookmarks_remove (bm_traced s) i))) = dev_img (bm_dev (snd (bookmarks_remove s i)))" by blast+
qed

definition on_flash :: "nat \<Rightarrow> bookmark list \<Rightarrow> ('s, 'b) nvs_dev \<Rightarrow> bool" where
  "on_flash i bs d \<longleftrightarrow> dev_ok d \<and> slots d bs \<and> count_stored d (length bs) \<or> after_delete i bs d"

lemma remove_images:
  assumes repr: "bm_repr s bs" and at: "dev_atomic (bm_dev s)"
    and x: "x \<in> set (images (snd (bookmarks_remove (bm_traced s) i)))"
  shows "\<exists>d. dev_ops d = dev_ops (bm_dev s) \<and> dev_img d = x \<and> on_flash (nat i) bs d"
proof -
  have view: "bm_view s bs" and cs: "count_stored (bm_dev s) (length bs)" using repr by (simp_all add: bm_repr_def)
  note v = bm_viewD [OF view]
  have d0: "on_flash (nat i) bs (bm_dev s)" using v cs by (simp add: on_flash_def)
  show ?thesis
  proof (cases "0 \<le> i \<and> i < int (length bs)")
    case False
    then have "x = dev_img (bm_dev s)"
      using x v by (auto simp: bookmarks_remove_def bm_traced_def images_def traced_def)
    with d0 show ?thesis by blast
  next
    case in_range: True
    obtain e1 d1 where w: "count_write (bm_dev s) (length bs - 1) = (e1, d1)" by fastforce
    have o1: "dev_ops d1 = dev_ops (bm_dev s)" using w by (metis bm_ops_kept(2) snd_conv)
    show ?thesis
    proof (cases "e1 = ESP_OK")
      case False
      then have "x = dev_img (bm_dev s) \<or> x = dev_img d1"
        using x v in_range w by (auto simp: bookmarks_remove_def bm_traced_def images_def traced_calls)
      moreover have "on_flash (nat i) bs d1"
        using dev_same_keeps [OF failed_writes(2) [OF at w False]] v cs by (simp add: on_flash_def)
      ultimately show ?thesis using d0 o1 by blast
    next
      case True
      let ?n = "length bs - 1 - nat i" and ?key = "entry_key (length bs - 1)"
      have n: "nat i + ?n < length bs" using in_range by linarith
      obtain e2 d2 where sh: "shift_loop d1 (nat i) ?n = (e2, d2)" by fastforce
      obtain h' where h': "shift_loop (traced [dev_img (bm_dev s)] d1) (nat i) ?n = (e2, traced h' d2)"
        "set h' \<subseteq> {dev_img (bm_dev s)} \<union> (\<lambda>m. dev_img (snd (shift_loop d1 (nat i) m))) ` {..?n}"
        using shift_traced [of "[dev_img (bm_dev s)]" d1 "nat i" ?n] sh by auto
      have a: "after_delete (nat i) bs (snd (shift_loop d1 (nat i) m))" if "m \<le> ?n" for m
        using after_delete_shift [OF view at w [unfolded True]] that n by simp
      then have a2: "after_delete (nat i) bs d2" using sh by (metis order_refl snd_conv)
      have o2: "dev_ops d2 = dev_ops (bm_dev s)" using sh o1 by (metis shift_ops_kept snd_conv)
      note a3 = after_delete_steps [OF a2 v(3)]
      note a4 = after_delete_steps(1) [OF a3(2) v(3)]
      have "x \<in> set h' \<or> x = dev_img d2 \<or> x = dev_img (snd (nvs_commit d2)) \<or> x = dev_img (snd (nvs_erase_key d2 ?key)) \<or>
          x = dev_img (snd (nvs_commit (snd (nvs_erase_key d2 ?key))))"
        using x v in_range w True sh h'(1)
        by (auto simp: bookmarks_remove_def bm_traced_def images_def traced_calls Let_def case_prod_beta split: if_splits)
      then consider "x = dev_img (bm_dev s)" | m where "m \<le> ?n" "x = dev_img (snd (shift_loop d1 (nat i) m))"
        | d where "x = dev_img d" "dev_ops d = dev_ops (bm_dev s)" "after_delete (nat i) bs d"
        using h'(2) a2 a3 a4 o2 by fastforce
      then show ?thesis
      proof cases
        case (2 m)
        then show ?thesis using a [OF 2(1)] o1 by (intro exI [of _ "snd (shift_loop d1 (nat i) m)"]) (simp add: on_flash_def)
      qed (use d0 in \<open>auto simp: on_flash_def\<close>)
    qed
  qed
qed

section \<open>The contract of the list\<close>

definition bm_inv :: "('s, 'b) bm_state \<Rightarrow> bool" where
  "bm_inv s \<longleftrightarrow> (\<exists>bs. bm_view s bs)"

definition bm_list :: "('s, 'b) bm_state \<Rightarrow> bookmark list" where
  "bm_list s = map (\<lambda>i. the (bookmarks_get s (int i))) [0..<bm_count s]"

lemma bm_list_view: "bm_view s bs \<Longrightarrow> bm_list s = bs"
  by (rule nth_equalityI) (auto simp: bm_list_def bm_view_def bookmarks_get_view)

interpretation bml: saved_list bm_inv bm_list bookmarks_count bookmarks_get bookmarks_remove "\<lambda>b. b" BM_MAX
proof unfold_locales
  fix s s' :: "('s, 'b) bm_state" and i :: nat and j :: int
  assume "bm_inv s"
  then obtain bs where v: "bm_view s bs" and l: "bm_list s = bs"
    by (auto simp: bm_inv_def bm_list_view)
  show "length (bm_list s) \<le> BM_MAX" "bookmarks_count s = length (bm_list s)"
    using v l by (auto simp: bm_view_def bookmarks_count_def)
  show "i < length (bm_list s) \<Longrightarrow> bookmarks_get s (int i) = Some (bm_list s ! i)"
    and "j < 0 \<or> int (length (bm_list s)) \<le> j \<Longrightarrow> bookmarks_get s j = None"
    using bookmarks_get_view [OF v] l by auto
  show "bookmarks_remove s j = (True, s') \<Longrightarrow> 0 \<le> j \<and> j < int (length (bm_list s)) \<and> bm_inv s' \<and>
      bm_list s' = remove_nth (nat j) (bm_list s)"
    using bookmarks_remove_repr [OF v] l by (auto simp: bm_inv_def bm_repr_def bm_list_view)
  show "j < 0 \<or> int (length (bm_list s)) \<le> j \<Longrightarrow> bookmarks_remove s j = (False, s)"
    using bookmarks_remove_out [OF v] l by auto
qed

section \<open>Properties\<close>

text \<open>C38: An address that \<open>normalize_url\<close> accepts for storing is a well-formed one: it starts
  with http:// or https://, has no control character (so it cannot break the stored record) and no
  trailing blank, and fits the URL buffer.  It is the whole of the submitted text, trimmed and with
  at most the scheme added, whenever the visible part of that text fits the work buffer, and
  submitting it again (as the edit form does) changes nothing.\<close>

theorem normalize_url_sound:
  assumes "normalize_url inp BM_URL_MAX = Some u"
  shows "valid_url u \<and> normalize_url u BM_URL_MAX = Some u \<and>
    (length (visible inp) < 2 * BM_URL_MAX \<longrightarrow>
      u = trim_end (visible inp) \<or> u = ''http://'' @ trim_end (visible inp))"
proof -
  have v: "valid_url u" using assms by (rule normalize_url_valid)
  moreover have "u = trim_end (visible inp) \<or> u = ''http://'' @ trim_end (visible inp)"
    if "length (visible inp) < 2 * BM_URL_MAX"
    using assms order_refl
    by (cases rule: normalize_url_cases) (use that in \<open>auto simp: sanitize_eq bm_consts\<close>)
  ultimately show ?thesis using normalize_url_id by blast
qed

theorem normalize_url_sound_witness:
  "valid_url ''http://frogfind.com:8080/x'' \<and>
   normalize_url ''  frogfind.com:8080/x '' BM_URL_MAX = Some ''http://frogfind.com:8080/x''"
proof -
  have n: "normalize_url ''  frogfind.com:8080/x '' BM_URL_MAX = Some ''http://frogfind.com:8080/x''"
    by code_simp
  show ?thesis using normalize_url_sound [OF n] n by simp
qed

text \<open>Saving a bookmark implements the list operation: an accepted append puts the normalised
  entry at the end, an accepted edit replaces exactly the addressed entry, both survive a reboot,
  and the list never exceeds its capacity; a refused or failed append leaves the list as it was.\<close>

theorem bookmarks_set_refines:
  assumes "bm_repr s bs"
  shows "case bookmarks_set s index title url of
      (True, s') \<Rightarrow> \<exists>cu. normalize_url (the url) BM_URL_MAX = Some cu \<and>
        (if index < 0 then bm_repr s' (bs @ [bm_new title cu]) \<and> length bs < BM_MAX
         else nat index < length bs \<and> bm_repr s' (bs[nat index := bm_new title cu]))
    | (False, s') \<Rightarrow> index < 0 \<longrightarrow> bm_view s' bs"
proof -
  obtain ok s' where r: "bookmarks_set s index title url = (ok, s')" by fastforce
  have view: "bm_view s bs" using assms by (simp add: bm_repr_def)
  show ?thesis
  proof (cases ok)
    case True
    with r have r': "bookmarks_set s index title url = (True, s')" by simp
    show ?thesis
    proof (cases "index < 0")
      case True
      then obtain cu where cu: "normalize_url (the url) BM_URL_MAX = Some cu" "bm_repr s' (bs @ [bm_new title cu])"
        using bookmarks_append_repr [OF view r'] by blast
      then have "length bs < BM_MAX" by (simp add: bm_repr_def bm_view_def)
      with cu True r' show ?thesis by auto
    next
      case False
      then show ?thesis using bookmarks_update_repr [OF assms r'] r' by auto
    qed
  next
    case False
    then show ?thesis using bookmarks_append_fail [OF view] r by auto
  qed
qed

definition bm_demo :: "(string \<rightharpoonup> unit nvs_val, unit) bm_state" where
  "bm_demo = bm_boot map_dev"

definition bm_demo1 :: "(string \<rightharpoonup> unit nvs_val, unit) bm_state" where
  "bm_demo1 = snd (bookmarks_set bm_demo (-1) (Some ''Frog'') (Some ''frogfind.com''))"

lemma bm_demo_repr: "bm_repr bm_demo []"
  using bm_boot_repr [of "map_dev :: (string \<rightharpoonup> unit nvs_val, unit) nvs_dev" "[]" 0]
  by (simp add: bm_demo_def slots_def count_stored_def)

lemma bm_demo1_ok: "bookmarks_set bm_demo (-1) (Some ''Frog'') (Some ''frogfind.com'') = (True, bm_demo1)"
proof -
  have "fst (bookmarks_set bm_demo (-1) (Some ''Frog'') (Some ''frogfind.com''))" by code_simp
  then show ?thesis by (simp add: bm_demo1_def prod_eq_iff)
qed

theorem bookmarks_set_refines_witness:
  "bm_repr bm_demo1 [\<lparr>bm_title = ''Frog'', bm_url = ''http://frogfind.com''\<rparr>]"
proof -
  have n: "normalize_url ''frogfind.com'' BM_URL_MAX = Some ''http://frogfind.com''" by code_simp
  have t: "sanitize ''Frog'' BM_TITLE_MAX = ''Frog''" by code_simp
  show ?thesis
    using bookmarks_set_refines [OF bm_demo_repr, where index = "-1" and title = "Some ''Frog''" and url = "Some ''frogfind.com''"]
    by (simp add: bm_demo1_ok n bm_new_def t)
qed

lemma bm_demo1_view: "bm_view bm_demo1 [\<lparr>bm_title = ''Frog'', bm_url = ''http://frogfind.com''\<rparr>]"
proof -
  have n: "normalize_url ''frogfind.com'' BM_URL_MAX = Some ''http://frogfind.com''" by code_simp
  have t: "sanitize ''Frog'' BM_TITLE_MAX = ''Frog''" by code_simp
  show ?thesis
    using bookmarks_append_repr [OF _ bm_demo1_ok, of "[]"] bm_demo_repr
    by (auto simp: bm_repr_def n bm_new_def t)
qed

text \<open>Deleting a bookmark implements removal at an index: when it succeeds the index was valid,
  the shorter list survives a reboot, every earlier entry stays where it was and every later one
  moves down by one; an index outside the list changes nothing.\<close>

theorem bookmarks_remove_refines:
  assumes "bm_view s bs"
  shows "(\<forall>s'. bookmarks_remove s index = (True, s') \<longrightarrow>
      0 \<le> index \<and> index < int (length bs) \<and> bm_repr s' (remove_nth (nat index) bs) \<and>
      (\<forall>j \<ge> 0. bookmarks_get s' j = (if j < index then bookmarks_get s j else bookmarks_get s (j + 1)))) \<and>
    (index < 0 \<or> int (length bs) \<le> index \<longrightarrow> bookmarks_remove s index = (False, s))"
  using assms bookmarks_remove_repr bookmarks_remove_out bml.get_after_remove bm_inv_def by blast

theorem bookmarks_remove_refines_witness:
  "bm_repr (snd (bookmarks_remove bm_demo1 0)) []"
proof -
  have "fst (bookmarks_remove bm_demo1 0)" by code_simp
  then have "bookmarks_remove bm_demo1 0 = (True, snd (bookmarks_remove bm_demo1 0))"
    by (simp add: prod_eq_iff)
  then show ?thesis using bookmarks_remove_refines [OF bm_demo1_view, of 0]
    by (auto simp: remove_nth_def)
qed



text \<open>C39: A power cut while a bookmark is being deleted is harmless.  \<open>bookmarks_remove\<close> runs on a flash that
  keeps every image it goes through, one before and one after each write of the count, shift of an entry,
  erasure and commit, failed ones included (a value is replaced as a whole or not at all).  Whichever of
  these images the power cut leaves, the bridge comes back up, if the flash opens, with the old list or with a valid
  list of one entry less, whose entries all come from the old list and agree with it before the deleted
  index.  The traced run gives the result and the last image of the plain one.\<close>

theorem bookmarks_remove_power_cut:
  assumes "bm_repr s bs" and "dev_atomic (bm_dev s)"
    and "x \<in> set (images (snd (bookmarks_remove (bm_traced s) i)))"
    and "nvs_open ((bm_dev s)\<lparr>dev_img := x\<rparr>) True = ESP_OK"
  shows "(\<exists>bs'. bm_repr (bm_boot ((bm_dev s)\<lparr>dev_img := x\<rparr>)) bs' \<and>
      (bs' = bs \<or> length bs' = length bs - 1 \<and> set bs' \<subseteq> set bs \<and> take (nat i) bs' = take (nat i) bs)) \<and>
    fst (bookmarks_remove (bm_traced s) i) = fst (bookmarks_remove s i) \<and>
    hd (images (snd (bookmarks_remove (bm_traced s) i))) = dev_img (bm_dev (snd (bookmarks_remove s i)))"
proof -
  let ?d = "(bm_dev s)\<lparr>dev_img := x\<rparr>"
  obtain d where "dev_ops d = dev_ops (bm_dev s)" "dev_img d = x" "on_flash (nat i) bs d"
    using remove_images [OF assms(1-3)] by blast
  moreover from this have "d = ?d" by (metis nvs_dev.equality nvs_dev.select_convs nvs_dev.update_convs(2) old.unit.exhaust)
  ultimately have f: "on_flash (nat i) bs ?d" by simp
  have len: "length bs \<le> BM_MAX" using assms(1) by (simp add: bm_repr_def bm_view_def)
  have "\<exists>bs'. dev_ok ?d \<and> slots ?d bs' \<and> count_stored ?d (length bs') \<and> (bs' = bs \<or> partly_removed (nat i) bs bs')"
    using f by (auto simp: on_flash_def after_delete_def)
  then obtain bs' where b: "dev_ok ?d" "slots ?d bs'" "count_stored ?d (length bs')" "bs' = bs \<or> partly_removed (nat i) bs bs'"
    by blast
  have "length bs' \<le> BM_MAX" using b(4) len partly_removed_facts(1) by fastforce
  from bm_boot_repr [OF b(1-3) _ this assms(4)] have "bm_repr (bm_boot ?d) bs'" by simp
  moreover have "bs' = bs \<or> length bs' = length bs - 1 \<and> set bs' \<subseteq> set bs \<and> take (nat i) bs' = take (nat i) bs"
    using b(4)
  proof
    assume "partly_removed (nat i) bs bs'"
    from partly_removed_facts [OF this] show ?thesis by blast
  qed simp
  ultimately show ?thesis using remove_traced [of s i] by blast
qed

text \<open>The image between the write of the count and the erasure.\<close>

theorem bookmarks_remove_power_cut_witness:
  "\<exists>bs'. bm_repr (bm_boot (snd (count_write (bm_dev bm_demo1) 0))) bs' \<and> length bs' \<le> 1"
proof -
  let ?b = "[\<lparr>bm_title = ''Frog'', bm_url = ''http://frogfind.com''\<rparr>]"
  let ?d = "snd (count_write (bm_dev bm_demo1) 0)"
  have n: "normalize_url ''frogfind.com'' BM_URL_MAX = Some ''http://frogfind.com''" by code_simp
  have t: "sanitize ''Frog'' BM_TITLE_MAX = ''Frog''" by code_simp
  have r: "bm_repr bm_demo1 ?b"
    using bookmarks_append_repr [OF _ bm_demo1_ok, of "[]"] bm_demo_repr by (auto simp: bm_repr_def n bm_new_def t)
  have c: "bm_open bm_demo1" "bm_count bm_demo1 = 1" using r by (simp_all add: bm_repr_def bm_view_def)
  have ops: "dev_ops (bm_dev (snd (bookmarks_set s j tt u))) = dev_ops (bm_dev s)" for s :: "('x, 'y) bm_state" and j tt u
    by (auto simp: bookmarks_set_def Let_def case_prod_beta split: option.split)
  have m: "dev_ops (bm_dev bm_demo1) = map_ops"
    by (simp add: bm_demo1_def ops bm_demo_def bm_boot_def bookmarks_init_def Let_def map_dev_def split: option.split)
  have w: "count_write (bm_dev bm_demo1) 0 = (ESP_OK, ?d)" "nvs_open ?d True = ESP_OK"
    by (simp_all add: prod_eq_iff count_write_def nvs_set_u8_def dev_put_def nvs_open_def) code_simp+
  have "dev_img ?d \<in> set (images (snd (bookmarks_remove (bm_traced bm_demo1) 0)))"
    using c w(1) by (simp add: bookmarks_remove_def bm_traced_def images_def traced_calls Let_def case_prod_beta)
  note i = this
  have d: "(bm_dev bm_demo1)\<lparr>dev_img := dev_img ?d\<rparr> = ?d"
    by (simp add: count_write_def nvs_defs)
  have "dev_atomic (bm_dev bm_demo1)" by (simp add: dev_atomic_def m map_ops_def)
  from bookmarks_remove_power_cut [OF r this i, unfolded d, OF w(2), THEN conjunct1]
  obtain bs' where "bm_repr (bm_boot ?d) bs'" "bs' = ?b \<or> length bs' = length ?b - 1" by (elim exE conjE) blast
  then show ?thesis by (intro exI [of _ bs']) auto
qed

text \<open>The limit of the over-long check: \<open>normalize_url\<close> promises to reject an over-long address
  rather than cut it, but its work buffer is finite.  An address of 332 visible characters whose
  first 319 end in blanks is accepted as its first nine characters.\<close>

theorem normalize_url_truncates:
  "normalize_url (''http://a'' @ replicate 320 CHR '' '' @ ''/b'') BM_URL_MAX = Some ''http://a''"
proof -
  let ?in = "''http://a'' @ replicate 320 CHR '' '' @ ''/b''"
  have vis: "visible ?in = ?in"
    by (simp add: visible_def is_blank_def is_ctrl_def)
  have "dropWhile (\<lambda>c. c = CHR '' '') (replicate n CHR '' '' @ ys) = dropWhile (\<lambda>c. c = CHR '' '') ys"
    for n ys by (induction n) auto
  then have rep: "trim_end (''http://a'' @ replicate n CHR '' '') = ''http://a''" for n
    by (simp add: trim_end_def)
  have "take 319 (visible ?in) = ''http://a'' @ replicate 311 CHR '' ''"
    unfolding vis by simp
  moreover have "sanitize ?in (BM_URL_MAX * 2) = trim_end (take 319 (visible ?in))"
    using sanitize_eq [of 320 ?in] by (simp only: bm_consts) simp
  ultimately have "sanitize ?in (BM_URL_MAX * 2) = trim_end (''http://a'' @ replicate 311 CHR '' '')"
    by (simp only:)
  then have s: "sanitize ?in (BM_URL_MAX * 2) = ''http://a''" by (simp only: rep)
  have "normalize_url ''http://a'' BM_URL_MAX = Some ''http://a''" by code_simp
  moreover have "sanitize ''http://a'' (BM_URL_MAX * 2) = ''http://a''" by code_simp
  ultimately show ?thesis by (simp add: normalize_url_def s del: append.simps replicate.simps)
qed

end
