(* ===== verification/ProxyFlow.thy ===== *)
theory ProxyFlow
  imports Prelude
begin

unbundle bit_operations_syntax

text \<open>
  The packet half of the transparent proxy, \<open>src/main/http_proxy.c\<close>: the flow table, the
  input hook that redirects the phone's web connections to the relay ports, and the output
  wrapper that puts the original server back as the source of the replies.

  A pbuf chain is the bytes of its first buffer and the bytes of the rest; the code only
  looks into the first.  Header fields are read as the code reads them, as raw 16 and 32
  bit words of a little-endian machine, so a field in network order is byte-swapped by
  \<open>lwip_ntohs\<close> exactly where the source does it.
\<close>

section \<open>Raw words in a packet\<close>

definition get16 :: "u8 list \<Rightarrow> nat \<Rightarrow> u16" where
  "get16 bs off = of_nat (unat (bs ! off) + 256 * unat (bs ! (off + 1)))"

definition put16 :: "nat \<Rightarrow> u16 \<Rightarrow> u8 list \<Rightarrow> u8 list" where
  "put16 off w bs = bs[off := of_nat (unat w mod 256), off + 1 := of_nat (unat w div 256)]"

definition get32 :: "u8 list \<Rightarrow> nat \<Rightarrow> u32" where
  "get32 bs off = of_nat (unat (get16 bs off) + 65536 * unat (get16 bs (off + 2)))"

definition put32 :: "nat \<Rightarrow> u32 \<Rightarrow> u8 list \<Rightarrow> u8 list" where
  "put32 off w bs = put16 (off + 2) (of_nat (unat w div 65536)) (put16 off (of_nat (unat w mod 65536)) bs)"

definition lwip_ntohs :: "u16 \<Rightarrow> u16" where
  "lwip_ntohs x = of_nat (256 * (unat x mod 256) + unat x div 256)"

section \<open>Checksum update\<close>

definition csum_adj :: "u16 \<Rightarrow> u16 \<Rightarrow> u16 \<Rightarrow> u16" where
  "csum_adj chk old new =
     (let s = ucast (NOT chk) :: u32;
          s = s + ucast (NOT old);
          s = s + ucast new;
          s = (s AND 0xffff) + drop_bit 16 s;
          s = (s AND 0xffff) + drop_bit 16 s
      in NOT (ucast s))"

definition csum_adj32 :: "u16 \<Rightarrow> u32 \<Rightarrow> u32 \<Rightarrow> u16" where
  "csum_adj32 chk old new =
     (let chk = csum_adj chk (ucast (drop_bit 16 old)) (ucast (drop_bit 16 new))
      in csum_adj chk (ucast old) (ucast new))"

lemma unat_get16: "unat (get16 bs off) = unat (bs ! off) + 256 * unat (bs ! (off + 1))"
  using unat_less_u8 [of "bs ! off"] unat_less_u8 [of "bs ! (off+1)"]
  unfolding get16_def unat_of_nat by simp

lemma unat_not16: "unat (NOT (x::u16)) = 65535 - unat x"
proof -
  have "NOT x = - 1 - x" by (simp add: not_eq_complement)
  moreover have "x \<le> -1" by simp
  ultimately show ?thesis by (simp add: unat_sub unsigned_minus_1_eq_mask mask_eq_exp_minus_1)
qed

lemma fold16_lo: "unat ((s::u32) AND 0xffff) = unat s mod 65536"
proof -
  have "s AND 0xffff = take_bit 16 s" by (simp add: take_bit_eq_mask mask_eq_exp_minus_1)
  then show ?thesis by (simp only: unsigned_take_bit_eq) (simp add: take_bit_eq_mod)
qed

lemma fold16_hi: "unat (drop_bit 16 (s::u32)) = unat s div 65536"
  by (simp only: unsigned_drop_bit_eq) 
     (use unat_less_u32 [of s] in \<open>simp add: drop_bit_eq_div take_bit_eq_mod\<close>)

lemma unat_ucast16_32: "unat (ucast (x::u16) :: u32) = unat x"
  using unat_less_u16 [of x] by (simp add: unsigned_ucast_eq take_bit_eq_mod)

lemma unat_ucast32_16: "unat (ucast (x::u32) :: u16) = unat x mod 65536"
  by (simp add: unsigned_ucast_eq take_bit_eq_mod)

definition fold16 :: "nat \<Rightarrow> nat" where
  "fold16 s = s mod 65536 + s div 65536"

lemma fold16_mod: "fold16 s mod 65535 = s mod 65535"
proof -
  have "s = s div 65536 * 65536 + s mod 65536" by presburger
  then have "s = s div 65536 * 65535 + fold16 s" by (simp add: fold16_def)
  then show ?thesis by (metis mod_mult_self3)
qed

lemma fold16_le:
  assumes "s \<le> 65537"
  shows "fold16 s \<le> 65535"
proof (cases "s < 65536")
  case False
  then have "s = 65536 \<or> s = 65537" using assms by auto
  then show ?thesis by (auto simp: fold16_def)
qed (simp add: fold16_def)

lemma csum_adj_nat:
  "unat (csum_adj chk old new) = 65535 - fold16 (fold16 (131070 - unat chk - unat old + unat new))"
proof -
  note b = unat_less_u16 [of chk] unat_less_u16 [of old] unat_less_u16 [of new]
  define s0 where "s0 = (ucast (NOT chk) :: u32) + ucast (NOT old) + ucast new"
  have s0: "unat s0 = 131070 - unat chk - unat old + unat new"
    using b by (simp add: s0_def unat_word_ariths unat_ucast16_32 unat_not16)
  define s1 where "s1 = (s0 AND 0xffff) + drop_bit 16 s0"
  have "unat s0 < 196606" using s0 b by simp
  then have l1: "unat s0 mod 65536 + unat s0 div 65536 \<le> 65537" by simp
  then have s1: "unat s1 = fold16 (unat s0)"
    by (simp add: s1_def unat_word_ariths fold16_lo fold16_hi fold16_def)
  define s2 where "s2 = (s1 AND 0xffff) + drop_bit 16 s1"
  have l2: "fold16 (unat s1) \<le> 65535"
    using l1 s1 by (intro fold16_le) (simp add: fold16_def)
  then have s2: "unat s2 = fold16 (unat s1)"
    by (simp add: s2_def unat_word_ariths fold16_lo fold16_hi fold16_def)
  have "csum_adj chk old new = NOT (ucast s2)"
    by (simp add: csum_adj_def Let_def s0_def s1_def s2_def)
  then show ?thesis using s0 s1 s2 l2 by (simp add: unat_not16 unat_ucast32_16)
qed

text \<open>In one's complement arithmetic the new checksum replaces the old word by the new.\<close>

lemma csum_adj_mod:
  "(unat (csum_adj chk old new) + unat new) mod 65535 = (unat chk + unat old) mod 65535"
proof -
  note b = unat_less_u16 [of chk] unat_less_u16 [of old] unat_less_u16 [of new]
  define x where "x = 131070 - unat chk - unat old + unat new"
  define y where "y = fold16 (fold16 x)"
  have y: "y mod 65535 = x mod 65535" by (simp add: y_def fold16_mod)
  have "x < 196606" using b by (simp add: x_def)
  then have "fold16 x \<le> 65537" by (simp add: fold16_def)
  then have yle: "y \<le> 65535" unfolding y_def by (rule fold16_le)
  have e: "unat (csum_adj chk old new) = 65535 - y" by (simp add: csum_adj_nat x_def y_def)
  have a: "int (unat (csum_adj chk old new) + unat new) = 65535 - int y + int (unat new)"
    using e yle by simp
  have b': "int x = 131070 - int (unat chk) - int (unat old) + int (unat new)"
    using b by (simp add: x_def)
  have "int y mod 65535 = int x mod 65535" using y by (metis zmod_int of_nat_numeral)
  then obtain k where k: "int x - int y = 65535 * k" by (metis mod_eq_dvd_iff dvdE)
  have "int (unat (csum_adj chk old new) + unat new) - int (unat chk + unat old) = 65535 * (k - 1)"
    using a b' k by simp
  then have "int (unat (csum_adj chk old new) + unat new) mod 65535
      = int (unat chk + unat old) mod 65535" by (metis mod_eq_dvd_iff dvd_triv_left)
  then show ?thesis by (metis zmod_int of_nat_eq_iff of_nat_numeral)
qed

section \<open>Reading and writing words\<close>

lemma length_put16 [simp]: "length (put16 off w bs) = length bs"
  by (simp add: put16_def)

lemma length_put32 [simp]: "length (put32 off w bs) = length bs"
  by (simp add: put32_def)

lemma get16_put16_same [simp]:
  assumes "off + 1 < length bs"
  shows "get16 (put16 off w bs) off = w"
proof (rule word_unat_eq_iff [THEN iffD2])
  have "unat (of_nat (unat w mod 256) :: u8) = unat w mod 256" "unat (of_nat (unat w div 256) :: u8) = unat w div 256"
    using unat_less_u16 [of w] by (simp_all add: unat_of_nat)
  then show "unat (get16 (put16 off w bs) off) = unat w"
    using assms by (simp add: unat_get16 put16_def)
qed

lemma get16_put16_other [simp]:
  "i + 1 < off \<or> off + 1 < i \<Longrightarrow> get16 (put16 off w bs) i = get16 bs i"
  by (auto simp: get16_def put16_def)

lemma nth_put16_other [simp]: "i \<noteq> off \<Longrightarrow> i \<noteq> Suc off \<Longrightarrow> put16 off w bs ! i = bs ! i"
  by (auto simp: put16_def)

lemma nth_put32_other [simp]: "(off \<le> i \<longrightarrow> \<not> i \<le> off + 3) \<Longrightarrow> put32 off w bs ! i = bs ! i"
  by (auto simp: put32_def)

lemma get16_put32_other [simp]:
  "i + 1 < off \<or> off + 3 < i \<Longrightarrow> get16 (put32 off w bs) i = get16 bs i"
  by (auto simp: put32_def)

lemma get32_put16_other [simp]:
  "i + 3 < off \<or> off + 1 < i \<Longrightarrow> get32 (put16 off w bs) i = get32 bs i"
  by (auto simp: get32_def)

lemma get32_put32_other [simp]:
  "i + 3 < off \<or> off + 3 < i \<Longrightarrow> get32 (put32 off w bs) i = get32 bs i"
  by (auto simp: get32_def)

lemma unat_get32: "unat (get32 bs off) = unat (get16 bs off) + 65536 * unat (get16 bs (off + 2))"
  using unat_less_u16 [of "get16 bs off"] unat_less_u16 [of "get16 bs (off + 2)"]
  unfolding get32_def unat_of_nat by simp

lemma get32_halves:
  "ucast (get32 bs off) = get16 bs off" "ucast (drop_bit 16 (get32 bs off)) = get16 bs (off + 2)"
  using unat_less_u16 [of "get16 bs off"] unat_less_u16 [of "get16 bs (off + 2)"]
  by (simp_all add: word_unat_eq_iff unat_ucast32_16 fold16_hi unat_get32)

lemma put32_halves:
  "put32 off w bs = put16 (off + 2) (ucast (drop_bit 16 w)) (put16 off (ucast w) bs)"
proof -
  have "of_nat (unat w div 65536) = (ucast (drop_bit 16 w) :: u16)"
    using unat_less_u32 [of w] by (simp add: word_unat_eq_iff unat_of_nat unat_ucast32_16 fold16_hi)
  moreover have "of_nat (unat w mod 65536) = (ucast w :: u16)"
    by (simp add: word_unat_eq_iff unat_of_nat unat_ucast32_16)
  ultimately show ?thesis by (simp add: put32_def)
qed

lemma get32_put32_same [simp]:
  assumes "off + 3 < length bs"
  shows "get32 (put32 off w bs) off = w"
proof (rule word_unat_eq_iff [THEN iffD2])
  show "unat (get32 (put32 off w bs) off) = unat w"
    using assms unat_less_u32 [of w]
    by (simp add: unat_get32 put32_halves unat_ucast32_16 fold16_hi)
qed

lemma lwip_ntohs_ntohs [simp]: "lwip_ntohs (lwip_ntohs x) = x"
proof (rule word_unat_eq_iff [THEN iffD2])
  have u: "unat (lwip_ntohs y) = 256 * (unat y mod 256) + unat y div 256" for y
    using unat_less_u16 [of y] unfolding lwip_ntohs_def unat_of_nat by simp
  show "unat (lwip_ntohs (lwip_ntohs x)) = unat x"
    using unat_less_u16 [of x] by (simp add: u)
qed

lemma lwip_ntohs_eq_iff: "lwip_ntohs x = y \<longleftrightarrow> x = lwip_ntohs y"
  by (metis lwip_ntohs_ntohs)

section \<open>The internet checksum\<close>

text \<open>
  The sum of RFC 1071 over the bytes, 16 bits at a time, a last odd byte padded with zero; a
  checksummed block is valid when its sum is zero in one's complement arithmetic.
\<close>

fun words_sum :: "u8 list \<Rightarrow> nat" where
  "words_sum [] = 0"
| "words_sum [b] = unat b"
| "words_sum (b # c # bs) = unat b + 256 * unat c + words_sum bs"

lemma words_sum_append: "even (length a) \<Longrightarrow> words_sum (a @ b) = words_sum a + words_sum b"
  by (induction a rule: words_sum.induct) auto

lemma words_sum_put16:
  "even off \<Longrightarrow> off + 1 < length bs \<Longrightarrow>
     words_sum (put16 off w bs) + unat (get16 bs off) = words_sum bs + unat w"
proof (induction bs arbitrary: off rule: words_sum.induct)
  case (3 b c bs)
  have u: "unat (of_nat (unat w mod 256) :: u8) = unat w mod 256" "unat (of_nat (unat w div 256) :: u8) = unat w div 256"
    using unat_less_u16 [of w] by (simp_all add: unat_of_nat)
  show ?case
  proof (cases off)
    case 0
    then show ?thesis by (simp add: put16_def u unat_get16)
  next
    case (Suc n)
    then obtain m where m: "off = Suc (Suc m)" using 3(2) by (cases n) auto
    then have e: "even m" "m + 1 < length bs" using 3(2,3) by auto
    have "put16 off w (b # c # bs) = b # c # put16 m w bs" by (simp add: m put16_def)
    moreover have "get16 (b # c # bs) off = get16 bs m" by (simp add: m get16_def)
    ultimately show ?thesis using 3(1) [OF e] by simp
  qed
qed (auto simp: put16_def)

lemma words_sum_put32:
  assumes "even off" and "off + 3 < length bs"
  shows "words_sum (put32 off w bs) + unat (get16 bs off) + unat (get16 bs (off + 2)) =
         words_sum bs + unat (ucast w :: u16) + unat (ucast (drop_bit 16 w) :: u16)"
proof -
  have "words_sum (put32 off w bs) + unat (get16 (put16 off (ucast w) bs) (off + 2)) =
        words_sum (put16 off (ucast w) bs) + unat (ucast (drop_bit 16 w) :: u16)"
    unfolding put32_halves by (rule words_sum_put16) (use assms in auto)
  moreover have "words_sum (put16 off (ucast w) bs) + unat (get16 bs off) = words_sum bs + unat (ucast w :: u16)"
    by (rule words_sum_put16) (use assms in auto)
  ultimately show ?thesis by simp
qed

section \<open>The flow table\<close>

abbreviation (input) RELAY_HTTP_PORT :: u16 where "RELAY_HTTP_PORT \<equiv> 3080"
abbreviation (input) RELAY_TLS_PORT :: u16 where "RELAY_TLS_PORT \<equiv> 3443"
abbreviation (input) FLOW_MAX :: nat where "FLOW_MAX \<equiv> 16"
abbreviation (input) IDLE_MS :: u32 where "IDLE_MS \<equiv> 120000"
abbreviation (input) GW_ADDR_N :: u32 where "GW_ADDR_N \<equiv> 0x0107A8C0"     \<comment> \<open>192.168.7.1\<close>
abbreviation (input) PHONE_ADDR_N :: u32 where "PHONE_ADDR_N \<equiv> 0x0207A8C0"  \<comment> \<open>192.168.7.2\<close>

datatype flow_state = FLOW_FREE | FLOW_ACTIVE | FLOW_CLOSED

record flow =
  f_state :: flow_state
  f_phone_port :: u16
  f_relay_port :: u16
  f_orig_port :: u16
  f_orig_ip :: u32
  f_stamp_ms :: u32

definition flow_zero :: flow where
  "flow_zero = \<lparr>f_state = FLOW_FREE, f_phone_port = 0, f_relay_port = 0, f_orig_port = 0,
     f_orig_ip = 0, f_stamp_ms = 0\<rparr>"

fun flow_find :: "flow list \<Rightarrow> u16 \<Rightarrow> nat option" where
  "flow_find [] port = None"
| "flow_find (f # fs) port =
     (if f_state f \<noteq> FLOW_FREE \<and> f_phone_port f = port then Some 0
      else map_option Suc (flow_find fs port))"

text \<open>\<open>flow_slot\<close>: the loop carries the best closed and the best idle slot seen so far, each
  with its time stamp; \<open>i\<close> is the index of the first slot of the list.\<close>

fun flow_slot_from :: "u32 \<Rightarrow> nat \<Rightarrow> flow list \<Rightarrow> (nat \<times> u32) option \<Rightarrow> (nat \<times> u32) option \<Rightarrow> nat option" where
  "flow_slot_from now i [] closed idle =
     (case closed of Some (c, _) \<Rightarrow> Some c | None \<Rightarrow> map_option fst idle)"
| "flow_slot_from now i (f # fs) closed idle =
     (if f_state f = FLOW_FREE then Some i else
      let age = now - f_stamp_ms f in
      if f_state f = FLOW_CLOSED then
        flow_slot_from now (Suc i) fs
          (case closed of None \<Rightarrow> Some (i, f_stamp_ms f)
             | Some (c, st) \<Rightarrow> if age > now - st then Some (i, f_stamp_ms f) else closed) idle
      else if age > IDLE_MS then
        flow_slot_from now (Suc i) fs closed
          (case idle of None \<Rightarrow> Some (i, f_stamp_ms f)
             | Some (c, st) \<Rightarrow> if age > now - st then Some (i, f_stamp_ms f) else idle)
      else flow_slot_from now (Suc i) fs closed idle)"

definition flow_slot :: "flow list \<Rightarrow> u32 \<Rightarrow> nat option" where
  "flow_slot fs now = flow_slot_from now 0 fs None None"

definition flow_lookup :: "flow list \<Rightarrow> u16 \<Rightarrow> u16 \<Rightarrow> (u32 \<times> u16) option" where
  "flow_lookup fs phone_port relay_port =
     (case flow_find fs phone_port of
        Some i \<Rightarrow> if f_state (fs ! i) = FLOW_ACTIVE \<and> f_relay_port (fs ! i) = relay_port
                 then Some (f_orig_ip (fs ! i), f_orig_port (fs ! i)) else None
      | None \<Rightarrow> None)"

definition flow_mark_closed :: "u16 \<Rightarrow> u32 \<Rightarrow> flow list \<Rightarrow> flow list" where
  "flow_mark_closed phone_port now fs =
     (case flow_find fs phone_port of
        Some i \<Rightarrow> fs[i := (fs ! i)\<lparr>f_state := FLOW_CLOSED, f_stamp_ms := now\<rparr>]
      | None \<Rightarrow> fs)"

section \<open>The packets\<close>

record pbuf =
  pb_first :: "u8 list"   \<comment> \<open>the bytes of the first pbuf, \<open>p->payload\<close> to \<open>p->len\<close>\<close>
  pb_rest :: "u8 list"    \<comment> \<open>the bytes of the chain behind it\<close>

text \<open>\<open>tcp_headers\<close> returns the length of the IP header, so \<open>ip\<close> is at offset 0 and \<open>th\<close>
  at that offset of the first pbuf.\<close>

definition tcp_headers :: "pbuf \<Rightarrow> nat option" where
  "tcp_headers p =
     (let b = pb_first p in
      if length b < 20 then None
      else if drop_bit 4 (b ! 0) \<noteq> 4 \<or> b ! 9 \<noteq> 6 then None
      else let hl = unat (b ! 0 AND 0x0f) * 4 in
      if hl < 20 \<or> length b < hl + 20 then None
      else if get16 b 6 AND lwip_ntohs 0x3fff \<noteq> 0 then None
      else Some hl)"

definition rewrite_dst :: "nat \<Rightarrow> u32 \<Rightarrow> u16 \<Rightarrow> u8 list \<Rightarrow> u8 list" where
  "rewrite_dst hl new_ip new_port_n b =
     (let old_ip = get32 b 16; old_port = get16 b (hl + 2);
          b = put32 16 new_ip b;
          b = put16 (hl + 2) new_port_n b;
          b = put16 10 (csum_adj32 (get16 b 10) old_ip new_ip) b
      in put16 (hl + 16)
           (csum_adj (csum_adj32 (get16 b (hl + 16)) old_ip new_ip) old_port new_port_n) b)"

definition rewrite_src :: "nat \<Rightarrow> u32 \<Rightarrow> u16 \<Rightarrow> u8 list \<Rightarrow> u8 list" where
  "rewrite_src hl new_ip new_port_n b =
     (let old_ip = get32 b 12; old_port = get16 b hl;
          b = put32 12 new_ip b;
          b = put16 hl new_port_n b;
          b = put16 10 (csum_adj32 (get16 b 10) old_ip new_ip) b
      in put16 (hl + 16)
           (csum_adj (csum_adj32 (get16 b (hl + 16)) old_ip new_ip) old_port new_port_n) b)"

section \<open>The input hook\<close>

text \<open>The section of \<open>proxy_ip4_input_hook\<close> under \<open>flow_mux\<close>: whether the segment belongs
  to a redirected flow, and the new table.\<close>

definition hook_flow :: "u16 \<Rightarrow> u16 \<Rightarrow> u16 \<Rightarrow> u32 \<Rightarrow> bool \<Rightarrow> bool \<Rightarrow> u32 \<Rightarrow> flow list \<Rightarrow> bool \<times> flow list" where
  "hook_flow sport dport relay dst syn intercept now fs =
     (let f = flow_find fs sport;
          same = (case f of Some i \<Rightarrow> f_orig_ip (fs ! i) = dst \<and> f_orig_port (fs ! i) = dport
                    | None \<Rightarrow> False);
          (fs, f, same) =
            (case f of
               Some i \<Rightarrow> if syn \<and> (\<not> same \<or> f_state (fs ! i) = FLOW_CLOSED)
                         then (fs[i := (fs ! i)\<lparr>f_state := FLOW_FREE\<rparr>], None, False)
                         else (fs, f, same)
             | None \<Rightarrow> (fs, f, same));
          (fs, f, match) =
            (if same then (fs, f, True)
             else if intercept then
               (case flow_slot fs now of
                  Some i \<Rightarrow>
                    (fs[i := (fs ! i)\<lparr>f_state := FLOW_ACTIVE, f_phone_port := sport,
                        f_relay_port := relay, f_orig_port := dport, f_orig_ip := dst\<rparr>], Some i, True)
                | None \<Rightarrow> (fs, None, False))
             else (fs, f, False))
      in case f of
           Some i \<Rightarrow> if match then (True, fs[i := (fs ! i)\<lparr>f_stamp_ms := now\<rparr>]) else (False, fs)
         | None \<Rightarrow> (match, fs))"

definition proxy_ip4_input_hook ::
  "bool \<Rightarrow> bool \<Rightarrow> bool \<Rightarrow> u32 \<Rightarrow> pbuf \<Rightarrow> flow list \<Rightarrow> pbuf \<times> flow list" where
  "proxy_ip4_input_hook from_ppp px_ready wifi now p fs =
     (if \<not> from_ppp then (p, fs) else
      case tcp_headers p of None \<Rightarrow> (p, fs) | Some hl \<Rightarrow>
      let b = pb_first p in
      if get32 b 12 \<noteq> PHONE_ADDR_N \<or> get32 b 16 = GW_ADDR_N then (p, fs) else
      let dport = lwip_ntohs (get16 b (hl + 2)) in
      if dport \<noteq> 80 \<and> dport \<noteq> 443 then (p, fs) else
      let sport = lwip_ntohs (get16 b hl);
          relay = (if dport = 80 then RELAY_HTTP_PORT else RELAY_TLS_PORT);
          syn = (lwip_ntohs (get16 b (hl + 12)) AND 0x12 = 0x02);
          intercept = (syn \<and> px_ready \<and> wifi);
          dst = get32 b 16;
          (match, fs) = hook_flow sport dport relay dst syn intercept now fs
      in (if match then p\<lparr>pb_first := rewrite_dst hl GW_ADDR_N (lwip_ntohs relay) b\<rparr> else p, fs))"

section \<open>The output wrapper\<close>

text \<open>What leaves: the buffer handed to the interface's original output function, or the
  error code when the copy cannot be allocated.  \<open>clone\<close> is \<open>pbuf_clone\<close> of lwIP.\<close>

datatype out_result = OUT_SENT pbuf | OUT_ERR_MEM

definition proxy_netif_output ::
  "(pbuf \<Rightarrow> pbuf option) \<Rightarrow> u32 \<Rightarrow> pbuf \<Rightarrow> flow list \<Rightarrow> out_result \<times> pbuf \<times> flow list" where
  "proxy_netif_output clone now p fs =
     (case tcp_headers p of None \<Rightarrow> (OUT_SENT p, p, fs) | Some hl \<Rightarrow>
      let b = pb_first p;
          sport = lwip_ntohs (get16 b hl) in
      if sport \<noteq> RELAY_HTTP_PORT \<and> sport \<noteq> RELAY_TLS_PORT then (OUT_SENT p, p, fs) else
      (case flow_find fs (lwip_ntohs (get16 b (hl + 2))) of None \<Rightarrow> (OUT_SENT p, p, fs) | Some i \<Rightarrow>
       let f = fs ! i in
       if f_relay_port f \<noteq> sport then (OUT_SENT p, p, fs) else
       let fs' = (if f_state f = FLOW_ACTIVE then fs[i := f\<lparr>f_stamp_ms := now\<rparr>] else fs) in
       (case clone p of None \<Rightarrow> (OUT_ERR_MEM, p, fs') | Some q \<Rightarrow>
        let rw = (\<lambda>hl x. x\<lparr>pb_first := rewrite_src hl (f_orig_ip f) (lwip_ntohs (f_orig_port f)) (pb_first x)\<rparr>) in
        (case tcp_headers q of
           Some hl' \<Rightarrow> (OUT_SENT (rw hl' q), p, fs')
         | None \<Rightarrow> (OUT_SENT q, rw hl p, fs')))))"

text \<open>What lwIP documents of \<open>pbuf_clone(PBUF_RAW, PBUF_RAM, p)\<close>: one contiguous buffer with
  the bytes of the chain.\<close>

definition clone_ok :: "(pbuf \<Rightarrow> pbuf option) \<Rightarrow> bool" where
  "clone_ok clone \<longleftrightarrow> (\<forall>p q. clone p = Some q \<longrightarrow> pb_first q = pb_first p @ pb_rest p \<and> pb_rest q = [])"

definition flows_memset :: "flow list" where
  "flows_memset = replicate FLOW_MAX flow_zero"

datatype out_fn = OUT_OTHER nat | OUT_PROXY

record netif_hook =
  n_output :: out_fn              \<comment> \<open>\<open>n->output\<close>\<close>
  orig_output :: "out_fn option"  \<comment> \<open>the static \<open>orig_output\<close>\<close>

definition proxy_attach_netif :: "netif_hook \<Rightarrow> flow list \<Rightarrow> netif_hook \<times> flow list" where
  "proxy_attach_netif n fs =
     (if n_output n = OUT_PROXY then (n, flows_memset)
      else (n\<lparr>orig_output := Some (n_output n), n_output := OUT_PROXY\<rparr>, flows_memset))"

section \<open>Facts about the flow table\<close>

lemma flow_find_SomeD:
  "flow_find fs port = Some i \<Longrightarrow>
     i < length fs \<and> f_state (fs ! i) \<noteq> FLOW_FREE \<and> f_phone_port (fs ! i) = port"
  by (induction fs arbitrary: i) (auto split: if_splits)

lemma flow_find_None_iff:
  "flow_find fs port = None \<longleftrightarrow> (\<forall>f\<in>set fs. f_state f \<noteq> FLOW_FREE \<longrightarrow> f_phone_port f \<noteq> port)"
  by (induction fs) auto

text \<open>\<open>best\<close> is the loop invariant of \<open>flow_slot\<close>: the slot of the greatest age among
  those of the kind \<open>P\<close> that were passed.\<close>

definition best :: "u32 \<Rightarrow> (flow \<Rightarrow> bool) \<Rightarrow> flow list \<Rightarrow> (nat \<times> u32) option \<Rightarrow> bool" where
  "best now P pre r = (case r of
     None \<Rightarrow> \<forall>f\<in>set pre. \<not> P f
   | Some (c, st) \<Rightarrow> c < length pre \<and> P (pre ! c) \<and> st = f_stamp_ms (pre ! c) \<and>
       (\<forall>f\<in>set pre. P f \<longrightarrow> now - f_stamp_ms f \<le> now - st))"

lemma best_skip: "best now P pre r \<Longrightarrow> \<not> P f \<Longrightarrow> best now P (pre @ [f]) r"
  by (auto simp: best_def nth_append split: option.splits)

lemma best_take:
  assumes "best now P pre r" and "P f"
  shows "best now P (pre @ [f])
    (case r of None \<Rightarrow> Some (length pre, f_stamp_ms f)
       | Some (c, st) \<Rightarrow> if now - f_stamp_ms f > now - st then Some (length pre, f_stamp_ms f) else r)"
  using assms by (fastforce simp: best_def nth_append split: option.splits)

abbreviation flow_closed :: "flow \<Rightarrow> bool" where
  "flow_closed f \<equiv> f_state f = FLOW_CLOSED"

abbreviation flow_idle :: "u32 \<Rightarrow> flow \<Rightarrow> bool" where
  "flow_idle now f \<equiv> f_state f = FLOW_ACTIVE \<and> now - f_stamp_ms f > IDLE_MS"

definition slot_choice :: "u32 \<Rightarrow> flow list \<Rightarrow> nat option \<Rightarrow> bool" where
  "slot_choice now fs r = (case r of
     None \<Rightarrow> \<forall>f\<in>set fs. f_state f = FLOW_ACTIVE \<and> now - f_stamp_ms f \<le> IDLE_MS
   | Some i \<Rightarrow> i < length fs \<and>
      (if \<exists>f\<in>set fs. f_state f = FLOW_FREE then f_state (fs ! i) = FLOW_FREE
       else if \<exists>f\<in>set fs. flow_closed f then
         flow_closed (fs ! i) \<and> (\<forall>f\<in>set fs. flow_closed f \<longrightarrow> now - f_stamp_ms f \<le> now - f_stamp_ms (fs ! i))
       else flow_idle now (fs ! i) \<and> (\<forall>f\<in>set fs. now - f_stamp_ms f \<le> now - f_stamp_ms (fs ! i))))"

lemma flow_slot_from_choice:
  assumes "\<forall>f\<in>set pre. f_state f \<noteq> FLOW_FREE"
    and "best now flow_closed pre closed" and "best now (flow_idle now) pre idle"
  shows "slot_choice now (pre @ fs) (flow_slot_from now (length pre) fs closed idle)"
  using assms
proof (induction fs arbitrary: pre closed idle)
  case Nil
  then show ?case
  proof (cases closed)
    case (Some cs)
    obtain c st where cs: "cs = (c, st)" by force
    have i: "c < length pre" "flow_closed (pre ! c)" "st = f_stamp_ms (pre ! c)"
      and b: "\<And>f. f \<in> set pre \<Longrightarrow> flow_closed f \<Longrightarrow> now - f_stamp_ms f \<le> now - st"
      using Nil Some cs by (auto simp: best_def)
    have "pre ! c \<in> set pre" using i by simp
    then have "\<exists>f\<in>set pre. flow_closed f" "\<not> (\<exists>f\<in>set pre. f_state f = FLOW_FREE)"
      using i Nil(1) by blast+
    then have "slot_choice now pre (Some c)" using i b by (simp add: slot_choice_def)
    then show ?thesis using Some cs by simp
  next
    case None
    then have "\<forall>f\<in>set pre. \<not> flow_closed f" using Nil(2) by (simp add: best_def)
    then have nc: "\<forall>f\<in>set pre. f_state f = FLOW_ACTIVE"
      using Nil(1) by (metis flow_state.exhaust)
    show ?thesis
    proof (cases idle)
      case None
      then show ?thesis using \<open>closed = None\<close> Nil nc by (auto simp: slot_choice_def best_def not_less)
    next
      case (Some cs)
      obtain c st where cs: "cs = (c, st)" by force
      have i: "c < length pre" "flow_idle now (pre ! c)" "st = f_stamp_ms (pre ! c)"
        and b: "\<And>f. f \<in> set pre \<Longrightarrow> flow_idle now f \<Longrightarrow> now - f_stamp_ms f \<le> now - st"
        using Nil Some cs by (auto simp: best_def)
      have "now - f_stamp_ms f \<le> now - st" if "f \<in> set pre" for f
        using b [OF that] that nc i by (cases "flow_idle now f") auto
      moreover have "\<not> (\<exists>f\<in>set pre. f_state f = FLOW_FREE)" "\<not> (\<exists>f\<in>set pre. flow_closed f)"
        using nc by auto
      ultimately have "slot_choice now pre (Some c)" using i by (simp add: slot_choice_def)
      then show ?thesis using \<open>closed = None\<close> Some cs by simp
    qed
  qed
next
  case (Cons f fs)
  show ?case
  proof (cases "f_state f = FLOW_FREE")
    case True
    then show ?thesis by (simp add: slot_choice_def)
  next
    case False
    then have free: "\<forall>g\<in>set (pre @ [f]). f_state g \<noteq> FLOW_FREE" using Cons.prems by auto
    note step = Cons.IH [OF free, simplified]
    consider "flow_closed f" | "flow_idle now f"
      | "\<not> flow_closed f" "\<not> flow_idle now f" by blast
    then show ?thesis
    proof cases
      case 1
      show ?thesis using step [OF best_take [OF Cons.prems(2) 1] best_skip [OF Cons.prems(3)]] 1
        by (simp add: Let_def)
    next
      case 2
      show ?thesis using step [OF best_skip [OF Cons.prems(2)] best_take [OF Cons.prems(3) 2]] 2
        by (simp add: Let_def)
    next
      case 3
      then have "\<not> now - f_stamp_ms f > IDLE_MS" using False by (cases "f_state f") auto
      then show ?thesis using step [OF best_skip [OF Cons.prems(2) 3(1)] best_skip [OF Cons.prems(3) 3(2)]] 3 False
        by (simp add: Let_def)
    qed
  qed
qed

lemma flow_slot_choice: "slot_choice now fs (flow_slot fs now)"
  using flow_slot_from_choice [of "[]" now None None fs] by (simp add: flow_slot_def best_def)

lemma flow_slot_less: "flow_slot fs now = Some i \<Longrightarrow> i < length fs"
  using flow_slot_choice [of now fs] by (simp add: slot_choice_def)

text \<open>The invariant of the table: its size, one live flow per phone port, and every live
  flow is for a web server other than the bridge, at the relay port of its kind.\<close>

definition flow_wf :: "flow \<Rightarrow> bool" where
  "flow_wf f \<longleftrightarrow> f_state f \<noteq> FLOW_FREE \<longrightarrow>
     f_orig_ip f \<noteq> GW_ADDR_N \<and>
     (f_orig_port f = 80 \<and> f_relay_port f = RELAY_HTTP_PORT \<or>
      f_orig_port f = 443 \<and> f_relay_port f = RELAY_TLS_PORT)"

definition one_per_port :: "flow list \<Rightarrow> bool" where
  "one_per_port fs \<longleftrightarrow> (\<forall>i<length fs. \<forall>j<length fs.
     f_state (fs ! i) \<noteq> FLOW_FREE \<longrightarrow> f_state (fs ! j) \<noteq> FLOW_FREE \<longrightarrow>
     f_phone_port (fs ! i) = f_phone_port (fs ! j) \<longrightarrow> i = j)"

definition flows_ok :: "flow list \<Rightarrow> bool" where
  "flows_ok fs \<longleftrightarrow> length fs = FLOW_MAX \<and> (\<forall>f\<in>set fs. flow_wf f) \<and> one_per_port fs"

lemma flow_find_unique:
  assumes "one_per_port fs" and "i < length fs" and "f_state (fs ! i) \<noteq> FLOW_FREE"
  shows "flow_find fs (f_phone_port (fs ! i)) = Some i"
proof (cases "flow_find fs (f_phone_port (fs ! i))")
  case None
  then show ?thesis using assms by (auto simp: flow_find_None_iff)
next
  case (Some j)
  then show ?thesis using flow_find_SomeD [OF Some] assms by (auto simp: one_per_port_def)
qed

text \<open>The three kinds of update the code makes to a slot keep the invariant.\<close>

lemma flows_ok_update:
  assumes "flows_ok fs" and "i < length fs" and "flow_wf f"
    and "f_state f \<noteq> FLOW_FREE \<Longrightarrow> flow_find fs (f_phone_port f) \<in> {None, Some i}"
  shows "flows_ok (fs[i := f])"
proof -
  have len: "length (fs[i := f]) = FLOW_MAX" using assms(1) by (simp add: flows_ok_def)
  have wf: "\<forall>g\<in>set (fs[i := f]). flow_wf g"
    using assms(1,3) set_update_subset_insert [of fs i f] by (auto simp: flows_ok_def)
  have u: "one_per_port fs" using assms(1) by (simp add: flows_ok_def)
  have clash: "j = i" if "j < length fs" "f_state (fs ! j) \<noteq> FLOW_FREE" "f_state f \<noteq> FLOW_FREE"
      "f_phone_port (fs ! j) = f_phone_port f" for j
    using flow_find_unique [OF u that(1,2)] assms(4) that by auto
  have "one_per_port (fs[i := f])"
    unfolding one_per_port_def
  proof (intro allI impI)
    fix a b
    let ?fs = "fs[i := f]"
    assume a: "a < length ?fs" and b: "b < length ?fs"
      and sa: "f_state (?fs ! a) \<noteq> FLOW_FREE" and sb: "f_state (?fs ! b) \<noteq> FLOW_FREE"
      and p: "f_phone_port (?fs ! a) = f_phone_port (?fs ! b)"
    consider "a = i" "b = i" | "a = i" "b \<noteq> i" | "a \<noteq> i" "b = i" | "a \<noteq> i" "b \<noteq> i" by blast
    then show "a = b"
    proof cases
      case 2
      then show ?thesis using clash [of b] a b sa sb p by simp
    next
      case 3
      then show ?thesis using clash [of a] a b sa sb p by simp
    next
      case 4
      then show ?thesis using u a b sa sb p by (simp add: one_per_port_def)
    qed simp
  qed
  with len wf show ?thesis by (simp add: flows_ok_def)
qed

lemma flows_ok_same_key:
  assumes "flows_ok fs" and "flow_find fs port = Some i"
    and "f_phone_port f = f_phone_port (fs ! i)" and "flow_wf f"
  shows "flows_ok (fs[i := f])"
  using assms flow_find_SomeD [OF assms(2)] by (intro flows_ok_update) auto

lemma flows_ok_nth: "flows_ok fs \<Longrightarrow> i < length fs \<Longrightarrow> flow_wf (fs ! i)"
  by (simp add: flows_ok_def)

lemma flow_find_update_None:
  assumes "flows_ok fs" and "flow_find fs port = Some i"
  shows "flow_find (fs[i := (fs ! i)\<lparr>f_state := FLOW_FREE\<rparr>]) port = None"
proof -
  have u: "one_per_port fs" using assms(1) by (simp add: flows_ok_def)
  note s = flow_find_SomeD [OF assms(2)]
  show ?thesis
  proof (rule ccontr)
    assume "\<not> ?thesis"
    then obtain j where j: "flow_find (fs[i := (fs ! i)\<lparr>f_state := FLOW_FREE\<rparr>]) port = Some j" by auto
    from flow_find_SomeD [OF this] s u show False
      by (cases "j = i") (auto simp: one_per_port_def)
  qed
qed

lemma flow_find_update_Some:
  assumes "flows_ok (fs[i := f])" and "i < length fs" and "f_state f \<noteq> FLOW_FREE"
  shows "flow_find (fs[i := f]) (f_phone_port f) = Some i"
  using flow_find_unique [of "fs[i := f]" i] assms by (simp add: flows_ok_def)

text \<open>What the section under the lock decides.  The first case is a segment of a known flow,
  the second a new connection, the third leaves the segment alone.\<close>

lemma hook_flow_cases:
  assumes ok: "flows_ok fs" and dst: "dst \<noteq> GW_ADDR_N"
    and syn: "intercept \<Longrightarrow> syn"
    and ports: "dport = 80 \<and> relay = RELAY_HTTP_PORT \<or> dport = 443 \<and> relay = RELAY_TLS_PORT"
    and h: "hook_flow sport dport relay dst syn intercept now fs = (m, fs')"
  shows "flows_ok fs'"
    and "m \<Longrightarrow> \<exists>i. flow_find fs' sport = Some i \<and> f_orig_ip (fs' ! i) = dst \<and>
            f_orig_port (fs' ! i) = dport \<and> f_relay_port (fs' ! i) = relay \<and>
            f_stamp_ms (fs' ! i) = now \<and> (syn \<longrightarrow> f_state (fs' ! i) = FLOW_ACTIVE)"
    and "m \<Longrightarrow> intercept \<or> (\<exists>i. flow_find fs sport = Some i \<and> f_orig_ip (fs ! i) = dst \<and> f_orig_port (fs ! i) = dport)"
proof -
  define known where "known = (\<exists>i. flow_find fs sport = Some i \<and> f_orig_ip (fs ! i) = dst \<and>
    f_orig_port (fs ! i) = dport \<and> (syn \<longrightarrow> f_state (fs ! i) \<noteq> FLOW_CLOSED))"
  have "flows_ok fs' \<and>
    (m \<longrightarrow> (\<exists>i. flow_find fs' sport = Some i \<and> f_orig_ip (fs' ! i) = dst \<and>
            f_orig_port (fs' ! i) = dport \<and> f_relay_port (fs' ! i) = relay \<and>
            f_stamp_ms (fs' ! i) = now \<and> (syn \<longrightarrow> f_state (fs' ! i) = FLOW_ACTIVE))) \<and>
    (m \<longrightarrow> intercept \<or> (\<exists>i. flow_find fs sport = Some i \<and> f_orig_ip (fs ! i) = dst \<and> f_orig_port (fs ! i) = dport))"
  proof (cases known)
    case True
    then obtain i where i: "flow_find fs sport = Some i" "f_orig_ip (fs ! i) = dst"
      "f_orig_port (fs ! i) = dport" "syn \<longrightarrow> f_state (fs ! i) \<noteq> FLOW_CLOSED" by (auto simp: known_def)
    let ?f = "(fs ! i)\<lparr>f_stamp_ms := now\<rparr>"
    note s = flow_find_SomeD [OF i(1)]
    have r: "m" "fs' = fs[i := ?f]" using h i by (auto simp: hook_flow_def Let_def)
    have wf: "flow_wf (fs ! i)" using flows_ok_nth [OF ok] s by blast
    then have "flow_wf ?f" by (simp add: flow_wf_def)
    then have ok': "flows_ok fs'" using flows_ok_same_key [OF ok i(1)] r by simp
    have "flow_find fs' sport = Some i"
      using flow_find_update_Some [of fs i ?f] ok' r s by simp
    moreover have "f_relay_port (fs ! i) = relay" using wf s i ports by (auto simp: flow_wf_def)
    moreover have "f_state (fs ! i) = FLOW_ACTIVE" if syn using that i s by (cases "f_state (fs ! i)") auto
    ultimately show ?thesis using ok' r s i by auto
  next
    case False
    define fs1 where "fs1 = (case flow_find fs sport of
       Some i \<Rightarrow> if syn then fs[i := (fs ! i)\<lparr>f_state := FLOW_FREE\<rparr>] else fs | None \<Rightarrow> fs)"
    have ok1: "flows_ok fs1"
    proof (cases "flow_find fs sport")
      case (Some i)
      have "flow_wf ((fs ! i)\<lparr>f_state := FLOW_FREE\<rparr>)" by (simp add: flow_wf_def)
      then show ?thesis using flows_ok_same_key [OF ok Some] Some ok by (simp add: fs1_def)
    qed (use ok in \<open>simp add: fs1_def\<close>)
    have none: "flow_find fs1 sport = None" if syn
      using that flow_find_update_None [OF ok] by (cases "flow_find fs sport") (simp_all add: fs1_def)
    let ?new = "\<lambda>i. (fs1 ! i)\<lparr>f_state := FLOW_ACTIVE, f_phone_port := sport, f_relay_port := relay,
        f_orig_port := dport, f_orig_ip := dst, f_stamp_ms := now\<rparr>"
    have run: "hook_flow sport dport relay dst syn intercept now fs =
      (if intercept then (case flow_slot fs1 now of Some i \<Rightarrow> (True, fs1[i := ?new i]) | None \<Rightarrow> (False, fs1))
       else (False, fs1))"
      using False syn by (auto simp: hook_flow_def Let_def fs1_def known_def dest: flow_slot_less split: option.splits)
    show ?thesis
    proof (cases "\<exists>i. intercept \<and> flow_slot fs1 now = Some i")
      case False
      then have "\<not> m" "fs' = fs1" using run h by (auto split: if_splits option.splits)
      then show ?thesis using ok1 by simp
    next
      case True
      then obtain i where i: "intercept" "flow_slot fs1 now = Some i" by blast
      then have less: "i < length fs1" by (simp add: flow_slot_less)
      have r: "m" "fs' = fs1[i := ?new i]" using run h i by auto
      have "flow_wf (?new i)" using ports dst by (auto simp: flow_wf_def)
      then have ok': "flows_ok fs'"
        using flows_ok_update [OF ok1 less] none syn [OF i(1)] r by simp
      then have "flow_find fs' sport = Some i"
        using flow_find_update_Some [of fs1 i "?new i"] r less by simp
      then show ?thesis using ok' r less i(1) by simp
    qed
  qed
  then show "flows_ok fs'" and "m \<Longrightarrow> \<exists>i. flow_find fs' sport = Some i \<and> f_orig_ip (fs' ! i) = dst \<and>
            f_orig_port (fs' ! i) = dport \<and> f_relay_port (fs' ! i) = relay \<and>
            f_stamp_ms (fs' ! i) = now \<and> (syn \<longrightarrow> f_state (fs' ! i) = FLOW_ACTIVE)"
    and "m \<Longrightarrow> intercept \<or> (\<exists>i. flow_find fs sport = Some i \<and> f_orig_ip (fs ! i) = dst \<and> f_orig_port (fs ! i) = dport)"
    by blast+
qed

section \<open>Facts about the rewriting\<close>

lemma csum_adj32_mod:
  "(unat (csum_adj32 chk old new) + unat (ucast new :: u16) + unat (ucast (drop_bit 16 new) :: u16)) mod 65535 =
   (unat chk + unat (ucast old :: u16) + unat (ucast (drop_bit 16 old) :: u16)) mod 65535"
proof -
  define c where "c = csum_adj chk (ucast (drop_bit 16 old)) (ucast (drop_bit 16 new))"
  have "(unat (csum_adj c (ucast old) (ucast new)) + unat (ucast new :: u16) + unat (ucast (drop_bit 16 new) :: u16)) mod 65535
     = (unat c + unat (ucast old :: u16) + unat (ucast (drop_bit 16 new) :: u16)) mod 65535"
    by (intro mod_add_cong csum_adj_mod refl)
  also have "\<dots> = ((unat c + unat (ucast (drop_bit 16 new) :: u16)) + unat (ucast old :: u16)) mod 65535"
    by (simp add: algebra_simps)
  also have "\<dots> = ((unat chk + unat (ucast (drop_bit 16 old) :: u16)) + unat (ucast old :: u16)) mod 65535"
    unfolding c_def by (intro mod_add_cong csum_adj_mod refl)
  finally show ?thesis by (simp add: csum_adj32_def Let_def c_def algebra_simps)
qed

lemma take_put16:
  "off + 1 < n \<Longrightarrow> take n (put16 off w bs) = put16 off w (take n bs)"
  "n \<le> off \<Longrightarrow> take n (put16 off w bs) = take n bs"
  by (simp_all add: put16_def take_update_swap list_update_beyond)

lemma drop_put16:
  "n \<le> off \<Longrightarrow> drop n (put16 off w bs) = put16 (off - n) w (drop n bs)"
  "off + 1 < n \<Longrightarrow> drop n (put16 off w bs) = drop n bs"
  by (simp_all add: put16_def drop_update_swap Suc_diff_le)

lemma append_put16: "off + 1 < length bs \<Longrightarrow> put16 off w bs @ r = put16 off w (bs @ r)"
  by (simp add: put16_def list_update_append)

lemma take_put32: "off + 3 < n \<Longrightarrow> take n (put32 off w bs) = put32 off w (take n bs)"
  by (simp add: put32_halves take_put16)

lemma drop_put32: "off + 3 < n \<Longrightarrow> drop n (put32 off w bs) = drop n bs"
  by (simp add: put32_halves drop_put16)

lemma append_put32: "off + 3 < length bs \<Longrightarrow> put32 off w bs @ r = put32 off w (bs @ r)"
  by (simp add: put32_halves append_put16)

lemmas put_takes = take_put16 drop_put16 append_put16 take_put32 drop_put32 append_put32

lemma get16_take [simp]: "off + 1 < n \<Longrightarrow> get16 (take n bs) off = get16 bs off"
  by (simp add: get16_def)

lemma get16_drop [simp]: "n \<le> length bs \<Longrightarrow> get16 (drop n bs) off = get16 bs (n + off)"
  by (simp add: get16_def add.assoc)

lemma get16_append [simp]: "off + 1 < length a \<Longrightarrow> get16 (a @ b) off = get16 a off"
  by (simp add: get16_def nth_append)

lemma tcp_headers_SomeD:
  assumes "tcp_headers p = Some hl"
  shows "20 \<le> hl" "even hl" "hl + 20 \<le> length (pb_first p)"
  using assms by (auto simp: tcp_headers_def Let_def split: if_splits)

lemma rewrite_dst_nf:
  assumes "20 \<le> hl" and "hl + 20 \<le> length b"
  shows "rewrite_dst hl ip port b =
    put16 (hl + 16) (csum_adj (csum_adj32 (get16 b (hl + 16)) (get32 b 16) ip) (get16 b (hl + 2)) port)
     (put16 10 (csum_adj32 (get16 b 10) (get32 b 16) ip) (put16 (hl + 2) port (put32 16 ip b)))"
  using assms by (simp add: rewrite_dst_def Let_def)

lemma rewrite_src_nf:
  assumes "20 \<le> hl" and "hl + 20 \<le> length b"
  shows "rewrite_src hl ip port b =
    put16 (hl + 16) (csum_adj (csum_adj32 (get16 b (hl + 16)) (get32 b 12) ip) (get16 b hl) port)
     (put16 10 (csum_adj32 (get16 b 10) (get32 b 12) ip) (put16 hl port (put32 12 ip b)))"
  using assms by (simp add: rewrite_src_def Let_def)

lemma rewrite_dst_fields:
  assumes "20 \<le> hl" and "hl + 20 \<le> length b"
  shows "length (rewrite_dst hl ip port b) = length b"
    and "get32 (rewrite_dst hl ip port b) 16 = ip"
    and "get16 (rewrite_dst hl ip port b) (hl + 2) = port"
    and "get32 (rewrite_dst hl ip port b) 12 = get32 b 12"
    and "get16 (rewrite_dst hl ip port b) hl = get16 b hl"
    and "i \<notin> {10, 11} \<union> {16..19} \<union> {hl + 2, hl + 3} \<union> {hl + 16, hl + 17} \<Longrightarrow> rewrite_dst hl ip port b ! i = b ! i"
  using assms by (simp_all add: rewrite_dst_nf)

lemma rewrite_src_fields:
  assumes "20 \<le> hl" and "hl + 20 \<le> length b"
  shows "length (rewrite_src hl ip port b) = length b"
    and "get32 (rewrite_src hl ip port b) 12 = ip"
    and "get16 (rewrite_src hl ip port b) hl = port"
    and "get32 (rewrite_src hl ip port b) 16 = get32 b 16"
    and "get16 (rewrite_src hl ip port b) (hl + 2) = get16 b (hl + 2)"
    and "i \<notin> {10, 11} \<union> {12..15} \<union> {hl, hl + 1} \<union> {hl + 16, hl + 17} \<Longrightarrow>
           rewrite_src hl ip port b ! i = b ! i"
  using assms by (simp_all add: rewrite_src_nf)

lemma tcp_headers_cong:
  assumes "\<And>i. i \<in> {0, 6, 7, 9} \<Longrightarrow> b ! i = pb_first p ! i" and "length b = length (pb_first p)"
  shows "tcp_headers (p\<lparr>pb_first := b\<rparr>) = tcp_headers p"
  using assms by (simp add: tcp_headers_def get16_def Let_def)

lemma tcp_headers_rewrite:
  assumes "tcp_headers p = Some hl"
  shows "tcp_headers (p\<lparr>pb_first := rewrite_dst hl ip port (pb_first p)\<rparr>) = Some hl"
    and "tcp_headers (p\<lparr>pb_first := rewrite_src hl ip port (pb_first p)\<rparr>) = Some hl"
proof -
  note h = tcp_headers_SomeD [OF assms]
  show "tcp_headers (p\<lparr>pb_first := rewrite_dst hl ip port (pb_first p)\<rparr>) = Some hl"
    using h assms rewrite_dst_fields(1,6) [OF h(1,3)] by (subst tcp_headers_cong) auto
  show "tcp_headers (p\<lparr>pb_first := rewrite_src hl ip port (pb_first p)\<rparr>) = Some hl"
    using h assms rewrite_src_fields(1,6) [OF h(1,3)] by (subst tcp_headers_cong) auto
qed

text \<open>
  The two checksums of a packet whose first buffer is \<open>b\<close>, with \<open>r\<close> behind it: the IP
  header's over its \<open>hl\<close> bytes, and TCP's over the pseudo header (addresses, protocol 6,
  segment length) and the segment, which ends at the total length of the IP header.
\<close>

definition total_len :: "u8 list \<Rightarrow> nat" where
  "total_len b = unat (lwip_ntohs (get16 b 2))"

definition ip_sum :: "nat \<Rightarrow> u8 list \<Rightarrow> nat" where
  "ip_sum hl b = words_sum (take hl b)"

definition tcp_sum :: "nat \<Rightarrow> u8 list \<Rightarrow> u8 list \<Rightarrow> nat" where
  "tcp_sum hl b r =
     unat (get16 b 12) + unat (get16 b 14) + unat (get16 b 16) + unat (get16 b 18) +
     unat (lwip_ntohs 6) + unat (lwip_ntohs (of_nat (total_len b - hl))) +
     words_sum (take (total_len b - hl) (drop hl (b @ r)))"

definition checksums_ok :: "pbuf \<Rightarrow> bool" where
  "checksums_ok p = (case tcp_headers p of None \<Rightarrow> False | Some hl \<Rightarrow>
     hl + 20 \<le> total_len (pb_first p) \<and>
     ip_sum hl (pb_first p) mod 65535 = 0 \<and> tcp_sum hl (pb_first p) (pb_rest p) mod 65535 = 0)"

lemma mod_swap:
  fixes a :: nat
  assumes "a' + x = a + y" and "y mod m = x mod m"
  shows "a' mod m = a mod m"
proof -
  have "(a' + x) mod m = (a + x) mod m" using assms by (metis mod_add_right_eq)
  then obtain q r where "a' + x + m * q = a + x + m * r" using nat_mod_eq_iff by blast
  then have "a' + m * q = a + m * r" by simp
  then show ?thesis using nat_mod_eq_iff by blast
qed

text \<open>Both sums are unchanged modulo 65535 by a rewrite.\<close>

lemma get16_put32_same:
  assumes "off + 3 < length bs"
  shows "get16 (put32 off w bs) off = ucast w" and "get16 (put32 off w bs) (off + 2) = ucast (drop_bit 16 w)"
  using assms by (simp_all add: put32_halves)

lemma get16_put32_same2:
  assumes "off + 3 < length bs" and "i = off + 2"
  shows "get16 (put32 off w bs) i = ucast (drop_bit 16 w)"
  using assms get16_put32_same by simp

lemma ip_sum_rewrite:
  assumes hl: "20 \<le> hl" "hl + 20 \<le> length b"
  shows "ip_sum hl (rewrite_dst hl ip port b) mod 65535 = ip_sum hl b mod 65535"
    and "ip_sum hl (rewrite_src hl ip port b) mod 65535 = ip_sum hl b mod 65535"
proof -
  have *: "words_sum (put16 10 (csum_adj32 (get16 b 10) (get32 b off) ip) (put32 off ip (take hl b))) mod 65535
      = words_sum (take hl b) mod 65535" if off: "off \<in> {12, 16}" for off
  proof (rule mod_swap)
    let ?c = "csum_adj32 (get16 b 10) (get32 b off) ip"
    have "words_sum (put16 10 ?c (put32 off ip (take hl b))) + unat (get16 (put32 off ip (take hl b)) 10)
       = words_sum (put32 off ip (take hl b)) + unat ?c"
      by (rule words_sum_put16) (use hl in auto)
    moreover have "words_sum (put32 off ip (take hl b)) + unat (get16 (take hl b) off) + unat (get16 (take hl b) (off + 2)) =
         words_sum (take hl b) + unat (ucast ip :: u16) + unat (ucast (drop_bit 16 ip) :: u16)"
      by (rule words_sum_put32) (use hl off in auto)
    moreover have "get16 (put32 off ip (take hl b)) 10 = get16 b 10" using hl off by auto
    moreover have "get16 (take hl b) off = ucast (get32 b off)" "get16 (take hl b) (off + 2) = ucast (drop_bit 16 (get32 b off))"
      using hl off by (auto simp: get32_halves)
    ultimately show "words_sum (put16 10 ?c (put32 off ip (take hl b))) +
        (unat (get16 b 10) + unat (ucast (get32 b off) :: u16) + unat (ucast (drop_bit 16 (get32 b off)) :: u16))
      = words_sum (take hl b) + (unat ?c + unat (ucast ip :: u16) + unat (ucast (drop_bit 16 ip) :: u16))"
      by simp
  qed (rule csum_adj32_mod)
  show "ip_sum hl (rewrite_dst hl ip port b) mod 65535 = ip_sum hl b mod 65535"
    using * [of 16] hl by (simp add: ip_sum_def rewrite_dst_nf put_takes)
  show "ip_sum hl (rewrite_src hl ip port b) mod 65535 = ip_sum hl b mod 65535"
    using * [of 12] hl by (simp add: ip_sum_def rewrite_src_nf put_takes)
qed

lemma seg_sum_rewrite:
  assumes seg: "20 \<le> length seg" and off: "off \<in> {0, 2}"
    and chk: "get16 seg 16 = chk" and old: "get16 seg off = old_port"
  shows "(words_sum (put16 16 (csum_adj (csum_adj32 chk old new) old_port port) (put16 off port seg)) +
            unat (ucast new :: u16) + unat (ucast (drop_bit 16 new) :: u16)) mod 65535 =
         (words_sum seg + unat (ucast old :: u16) + unat (ucast (drop_bit 16 old) :: u16)) mod 65535"
proof (rule mod_swap)
  let ?c1 = "csum_adj32 chk old new"
  let ?c = "csum_adj ?c1 old_port port"
  have "words_sum (put16 16 ?c (put16 off port seg)) + unat (get16 (put16 off port seg) 16)
      = words_sum (put16 off port seg) + unat ?c"
    by (rule words_sum_put16) (use seg in auto)
  moreover have "words_sum (put16 off port seg) + unat (get16 seg off) = words_sum seg + unat port"
    by (rule words_sum_put16) (use seg off in auto)
  moreover have "get16 (put16 off port seg) 16 = chk" using off chk by auto
  ultimately show "words_sum (put16 16 ?c (put16 off port seg)) + unat (ucast new :: u16) +
        unat (ucast (drop_bit 16 new) :: u16) +
        (unat chk + unat old_port + unat (ucast old :: u16) + unat (ucast (drop_bit 16 old) :: u16))
      = words_sum seg + unat (ucast old :: u16) + unat (ucast (drop_bit 16 old) :: u16) +
        (unat ?c + unat port + unat (ucast new :: u16) + unat (ucast (drop_bit 16 new) :: u16))"
    using old by simp
  have "(unat ?c + unat port + (unat (ucast new :: u16) + unat (ucast (drop_bit 16 new) :: u16))) mod 65535 =
     (unat ?c1 + unat old_port + (unat (ucast new :: u16) + unat (ucast (drop_bit 16 new) :: u16))) mod 65535"
    by (intro mod_add_cong csum_adj_mod refl)
  also have "\<dots> = (unat ?c1 + unat (ucast new :: u16) + unat (ucast (drop_bit 16 new) :: u16) + unat old_port) mod 65535"
    by (simp add: algebra_simps)
  also have "\<dots> = (unat chk + unat (ucast old :: u16) + unat (ucast (drop_bit 16 old) :: u16) + unat old_port) mod 65535"
    by (intro mod_add_cong csum_adj32_mod refl)
  finally show "(unat ?c + unat port + unat (ucast new :: u16) + unat (ucast (drop_bit 16 new) :: u16)) mod 65535 =
    (unat chk + unat old_port + unat (ucast old :: u16) + unat (ucast (drop_bit 16 old) :: u16)) mod 65535"
    by (simp add: algebra_simps)
qed

lemma tcp_sum_rewrite:
  assumes hl: "20 \<le> hl" "hl + 20 \<le> length b" and tot: "hl + 20 \<le> total_len b"
  shows "tcp_sum hl (rewrite_dst hl ip port b) r mod 65535 = tcp_sum hl b r mod 65535"
    and "tcp_sum hl (rewrite_src hl ip port b) r mod 65535 = tcp_sum hl b r mod 65535"
proof -
  define seg where "seg = take (total_len b - hl) (drop hl (b @ r))"
  have len: "20 \<le> length seg" using hl tot by (simp add: seg_def)
  have fld: "get16 seg i = get16 b (hl + i)" if "i \<le> 16" for i
    using that hl tot by (simp add: seg_def del: take_append drop_append)
  define K where "K = unat (lwip_ntohs 6) + unat (lwip_ntohs (of_nat (total_len b - hl)))"
  have old: "tcp_sum hl b r = unat (get16 b 12) + unat (get16 b 14) + unat (get16 b 16) + unat (get16 b 18) + K + words_sum seg"
    by (simp add: tcp_sum_def K_def seg_def)
  show "tcp_sum hl (rewrite_dst hl ip port b) r mod 65535 = tcp_sum hl b r mod 65535"
  proof -
    define c where "c = csum_adj (csum_adj32 (get16 b (hl + 16)) (get32 b 16) ip) (get16 b (hl + 2)) port"
    have "total_len (rewrite_dst hl ip port b) = total_len b"
      using hl by (simp add: total_len_def rewrite_dst_nf)
    then have new: "tcp_sum hl (rewrite_dst hl ip port b) r = unat (get16 b 12) + unat (get16 b 14) +
        unat (ucast ip :: u16) + unat (ucast (drop_bit 16 ip) :: u16) + K + words_sum (put16 16 c (put16 2 port seg))"
      using hl tot by (simp add: tcp_sum_def K_def seg_def rewrite_dst_nf put_takes c_def get16_put32_same get16_put32_same2)
    have "(words_sum (put16 16 c (put16 2 port seg)) + unat (ucast ip :: u16) + unat (ucast (drop_bit 16 ip) :: u16)) mod 65535 =
      (words_sum seg + unat (ucast (get32 b 16) :: u16) + unat (ucast (drop_bit 16 (get32 b 16)) :: u16)) mod 65535"
      unfolding c_def by (rule seg_sum_rewrite) (use len fld in auto)
    then have "(unat (get16 b 12) + unat (get16 b 14) + K + (words_sum (put16 16 c (put16 2 port seg)) +
        unat (ucast ip :: u16) + unat (ucast (drop_bit 16 ip) :: u16))) mod 65535 =
      (unat (get16 b 12) + unat (get16 b 14) + K + (words_sum seg + unat (get16 b 16) + unat (get16 b 18))) mod 65535"
      unfolding get32_halves by (intro mod_add_cong [OF refl]) simp
    then show ?thesis unfolding old new by (simp add: algebra_simps)
  qed
  show "tcp_sum hl (rewrite_src hl ip port b) r mod 65535 = tcp_sum hl b r mod 65535"
  proof -
    define c where "c = csum_adj (csum_adj32 (get16 b (hl + 16)) (get32 b 12) ip) (get16 b hl) port"
    have "total_len (rewrite_src hl ip port b) = total_len b"
      using hl by (simp add: total_len_def rewrite_src_nf)
    then have new: "tcp_sum hl (rewrite_src hl ip port b) r =
        unat (ucast ip :: u16) + unat (ucast (drop_bit 16 ip) :: u16) + unat (get16 b 16) + unat (get16 b 18) +
        K + words_sum (put16 16 c (put16 0 port seg))"
      using hl tot by (simp add: tcp_sum_def K_def seg_def rewrite_src_nf put_takes c_def get16_put32_same get16_put32_same2)
    have "(words_sum (put16 16 c (put16 0 port seg)) + unat (ucast ip :: u16) + unat (ucast (drop_bit 16 ip) :: u16)) mod 65535 =
      (words_sum seg + unat (ucast (get32 b 12) :: u16) + unat (ucast (drop_bit 16 (get32 b 12)) :: u16)) mod 65535"
      unfolding c_def by (rule seg_sum_rewrite) (use len fld in auto)
    then have "(unat (get16 b 16) + unat (get16 b 18) + K + (words_sum (put16 16 c (put16 0 port seg)) +
        unat (ucast ip :: u16) + unat (ucast (drop_bit 16 ip) :: u16))) mod 65535 =
      (unat (get16 b 16) + unat (get16 b 18) + K + (words_sum seg + unat (get16 b 12) + unat (get16 b 14))) mod 65535"
      unfolding get32_halves by (intro mod_add_cong [OF refl]) simp
    then show ?thesis unfolding old new by (simp add: algebra_simps)
  qed
qed

lemma checksums_ok_rewrite:
  assumes h: "tcp_headers p = Some hl" and ok: "checksums_ok p"
  shows "checksums_ok (p\<lparr>pb_first := rewrite_dst hl ip port (pb_first p)\<rparr>)"
    and "checksums_ok (p\<lparr>pb_first := rewrite_src hl ip port (pb_first p)\<rparr>)"
proof -
  note l = tcp_headers_SomeD [OF h]
  have t: "hl + 20 \<le> total_len (pb_first p)" using ok h by (simp add: checksums_ok_def)
  have "total_len (rewrite_dst hl ip port (pb_first p)) = total_len (pb_first p)"
    "total_len (rewrite_src hl ip port (pb_first p)) = total_len (pb_first p)"
    using l by (simp_all add: total_len_def rewrite_dst_nf rewrite_src_nf)
  then show "checksums_ok (p\<lparr>pb_first := rewrite_dst hl ip port (pb_first p)\<rparr>)"
    and "checksums_ok (p\<lparr>pb_first := rewrite_src hl ip port (pb_first p)\<rparr>)"
    using ok h ip_sum_rewrite [OF l(1,3)] tcp_sum_rewrite [OF l(1,3) t] tcp_headers_rewrite [OF h]
    by (simp_all add: checksums_ok_def)
qed

text \<open>The copy \<open>pbuf_clone\<close> makes has the same headers, and the same checksums.\<close>

lemma clone_headers:
  assumes "clone_ok clone" and "clone p = Some q" and "tcp_headers p = Some hl"
  shows "tcp_headers q = Some hl" and "pb_first q = pb_first p @ pb_rest p" and "pb_rest q = []"
proof -
  show q: "pb_first q = pb_first p @ pb_rest p" "pb_rest q = []"
    using assms(1,2) by (auto simp: clone_ok_def)
  show "tcp_headers q = Some hl"
    using assms(3) q tcp_headers_SomeD [OF assms(3)]
    by (auto simp: tcp_headers_def Let_def nth_append split: if_splits)
qed

lemma clone_checksums:
  assumes "clone_ok clone" and "clone p = Some q" and "checksums_ok p"
  shows "checksums_ok q"
proof -
  obtain hl where h: "tcp_headers p = Some hl" using assms(3) by (auto simp: checksums_ok_def split: option.splits)
  note c = clone_headers [OF assms(1,2) h] and l = tcp_headers_SomeD [OF h]
  have "take hl (pb_first p @ pb_rest p) = take hl (pb_first p)" using l by simp
  moreover have "total_len (pb_first p @ pb_rest p) = total_len (pb_first p)"
    using l by (simp add: total_len_def)
  ultimately show ?thesis using assms(3) h c l
    by (simp add: checksums_ok_def ip_sum_def tcp_sum_def del: of_nat_diff)
qed

section \<open>Facts about the hook and the wrapper\<close>

text \<open>The segments the hook looks up in the flow table.\<close>

definition web_segment :: "bool \<Rightarrow> pbuf \<Rightarrow> nat \<Rightarrow> bool" where
  "web_segment from_ppp p hl \<longleftrightarrow> from_ppp \<and> tcp_headers p = Some hl \<and>
     get32 (pb_first p) 12 = PHONE_ADDR_N \<and> get32 (pb_first p) 16 \<noteq> GW_ADDR_N \<and>
     lwip_ntohs (get16 (pb_first p) (hl + 2)) \<in> {80, 443}"

abbreviation seg_sport :: "pbuf \<Rightarrow> nat \<Rightarrow> u16" where
  "seg_sport p hl \<equiv> lwip_ntohs (get16 (pb_first p) hl)"

abbreviation seg_dport :: "pbuf \<Rightarrow> nat \<Rightarrow> u16" where
  "seg_dport p hl \<equiv> lwip_ntohs (get16 (pb_first p) (hl + 2))"

definition seg_syn :: "pbuf \<Rightarrow> nat \<Rightarrow> bool" where
  "seg_syn p hl \<longleftrightarrow> lwip_ntohs (get16 (pb_first p) (hl + 12)) AND 0x12 = 0x02"

definition relay_of :: "u16 \<Rightarrow> u16" where
  "relay_of dport = (if dport = 80 then RELAY_HTTP_PORT else RELAY_TLS_PORT)"

lemma hook_skip:
  "(\<And>hl. \<not> web_segment from_ppp p hl) \<Longrightarrow> proxy_ip4_input_hook from_ppp ready wifi now p fs = (p, fs)"
  by (auto simp: proxy_ip4_input_hook_def web_segment_def Let_def split: option.splits)

lemma hook_run:
  assumes "web_segment from_ppp p hl"
  shows "proxy_ip4_input_hook from_ppp ready wifi now p fs =
    (let r = hook_flow (seg_sport p hl) (seg_dport p hl) (relay_of (seg_dport p hl)) (get32 (pb_first p) 16)
               (seg_syn p hl) (seg_syn p hl \<and> ready \<and> wifi) now fs
     in (if fst r then p\<lparr>pb_first := rewrite_dst hl GW_ADDR_N (lwip_ntohs (relay_of (seg_dport p hl))) (pb_first p)\<rparr>
         else p, snd r))"
  using assms unfolding proxy_ip4_input_hook_def web_segment_def Let_def relay_of_def seg_syn_def case_prod_beta
  by auto

lemma relay_of_ports:
  "d \<in> {80, 443} \<Longrightarrow> d = 80 \<and> relay_of d = RELAY_HTTP_PORT \<or> d = 443 \<and> relay_of d = RELAY_TLS_PORT"
  by (auto simp: relay_of_def)

text \<open>When the hook changes a segment, it was a web connection of the phone, and what comes
  out is the same segment sent to the relay.\<close>

lemma hook_flows_ok:
  assumes ok: "flows_ok fs"
  shows "flows_ok (snd (proxy_ip4_input_hook from_ppp ready wifi now p fs))"
proof (cases "\<exists>hl. web_segment from_ppp p hl")
  case True
  then obtain hl where w: "web_segment from_ppp p hl" by blast
  then have d: "get32 (pb_first p) 16 \<noteq> GW_ADDR_N" "seg_dport p hl \<in> {80, 443}" by (auto simp: web_segment_def)
  show ?thesis unfolding hook_run [OF w] Let_def snd_conv
    by (rule hook_flow_cases(1) [OF ok d(1) _ relay_of_ports [OF d(2)] prod.collapse [symmetric]]) simp
qed (use ok hook_skip in \<open>metis snd_conv\<close>)

lemma hook_redirect:
  assumes ok: "flows_ok fs" and h: "proxy_ip4_input_hook from_ppp ready wifi now p fs = (p', fs')"
    and moved: "p' \<noteq> p"
  obtains hl i where "web_segment from_ppp p hl"
    and "p' = p\<lparr>pb_first := rewrite_dst hl GW_ADDR_N (lwip_ntohs (relay_of (seg_dport p hl))) (pb_first p)\<rparr>"
    and "flow_find fs' (seg_sport p hl) = Some i"
    and "f_orig_ip (fs' ! i) = get32 (pb_first p) 16" and "f_orig_port (fs' ! i) = seg_dport p hl"
    and "f_relay_port (fs' ! i) = relay_of (seg_dport p hl)" and "f_stamp_ms (fs' ! i) = now"
    and "seg_syn p hl \<Longrightarrow> f_state (fs' ! i) = FLOW_ACTIVE"
    and "seg_syn p hl \<and> ready \<and> wifi \<or> (\<exists>j. flow_find fs (seg_sport p hl) = Some j \<and>
        f_orig_ip (fs ! j) = get32 (pb_first p) 16 \<and> f_orig_port (fs ! j) = seg_dport p hl)"
proof -
  from h moved obtain hl where w: "web_segment from_ppp p hl" using hook_skip by (metis fst_conv)
  then have d: "get32 (pb_first p) 16 \<noteq> GW_ADDR_N" "seg_dport p hl \<in> {80, 443}" by (auto simp: web_segment_def)
  define r where "r = hook_flow (seg_sport p hl) (seg_dport p hl) (relay_of (seg_dport p hl)) (get32 (pb_first p) 16)
               (seg_syn p hl) (seg_syn p hl \<and> ready \<and> wifi) now fs"
  have m: "fst r" "fs' = snd r"
    and p': "p' = p\<lparr>pb_first := rewrite_dst hl GW_ADDR_N (lwip_ntohs (relay_of (seg_dport p hl))) (pb_first p)\<rparr>"
    using h moved unfolding hook_run [OF w] Let_def r_def [symmetric] by (auto split: if_splits)
  have run: "hook_flow (seg_sport p hl) (seg_dport p hl) (relay_of (seg_dport p hl)) (get32 (pb_first p) 16)
               (seg_syn p hl) (seg_syn p hl \<and> ready \<and> wifi) now fs = (fst r, fs')"
    unfolding m(2) r_def by simp
  note c = hook_flow_cases [OF ok d(1) _ relay_of_ports [OF d(2)] run]
  from c(2) m obtain i where "flow_find fs' (seg_sport p hl) = Some i"
    "f_orig_ip (fs' ! i) = get32 (pb_first p) 16" "f_orig_port (fs' ! i) = seg_dport p hl"
    "f_relay_port (fs' ! i) = relay_of (seg_dport p hl)" "f_stamp_ms (fs' ! i) = now"
    "seg_syn p hl \<longrightarrow> f_state (fs' ! i) = FLOW_ACTIVE" by blast
  moreover have "seg_syn p hl \<and> ready \<and> wifi \<or> (\<exists>j. flow_find fs (seg_sport p hl) = Some j \<and>
        f_orig_ip (fs ! j) = get32 (pb_first p) 16 \<and> f_orig_port (fs ! j) = seg_dport p hl)"
    using c(3) m by blast
  ultimately show thesis using that [OF w p'] by blast
qed

lemma output_flows_ok:
  assumes "flows_ok fs"
  shows "flows_ok (snd (snd (proxy_netif_output clone now p fs)))"
proof -
  have "flows_ok (fs[i := (fs ! i)\<lparr>f_stamp_ms := now\<rparr>])" if "flow_find fs port = Some i" for i port
    using flows_ok_same_key [OF assms that, of "(fs ! i)\<lparr>f_stamp_ms := now\<rparr>"]
      flows_ok_nth [OF assms] flow_find_SomeD [OF that] by (simp add: flow_wf_def)
  then show ?thesis using assms by (auto simp: proxy_netif_output_def Let_def split: option.splits)
qed

lemma mark_closed_flows_ok:
  assumes "flows_ok fs"
  shows "flows_ok (flow_mark_closed port now fs)"
proof (cases "flow_find fs port")
  case (Some i)
  have "flow_wf ((fs ! i)\<lparr>f_state := FLOW_CLOSED, f_stamp_ms := now\<rparr>)"
    using flows_ok_nth [OF assms] flow_find_SomeD [OF Some] by (simp add: flow_wf_def)
  then show ?thesis using flows_ok_same_key [OF assms Some] by (simp add: flow_mark_closed_def Some)
qed (use assms in \<open>simp add: flow_mark_closed_def\<close>)

lemma memset_flows_ok: "flows_ok flows_memset"
  by (auto simp: flows_ok_def flows_memset_def one_per_port_def flow_wf_def flow_zero_def)


section \<open>Properties\<close>

text \<open>The steps that touch the table: packets in and out, the relay task closing a session,
  and the PPP interface coming up again.\<close>

inductive flow_step :: "flow list \<Rightarrow> flow list \<Rightarrow> bool" where
  step_input: "flow_step fs (snd (proxy_ip4_input_hook from_ppp ready wifi now p fs))"
| step_output: "flow_step fs (snd (snd (proxy_netif_output clone now p fs)))"
| step_closed: "flow_step fs (flow_mark_closed port now fs)"
| step_attach: "flow_step fs (snd (proxy_attach_netif n fs))"

inductive_cases flow_stepE: "flow_step fs fs'"

inductive flow_reach :: "flow list \<Rightarrow> bool" where
  reach_init: "flow_reach flows_memset"
| reach_step: "flow_reach fs \<Longrightarrow> flow_step fs fs' \<Longrightarrow> flow_reach fs'"

lemma flow_step_ok: "flow_step fs fs' \<Longrightarrow> flows_ok fs \<Longrightarrow> flows_ok fs'"
  by (induction rule: flow_step.induct)
    (simp_all add: hook_flows_ok output_flows_ok mark_closed_flows_ok proxy_attach_netif_def memset_flows_ok)

lemma flow_reach_ok: "flow_reach fs \<Longrightarrow> flows_ok fs"
  by (induction rule: flow_reach.induct) (auto intro: memset_flows_ok flow_step_ok)

text \<open>A phone's SYN to a web server and the relay's answer, for the witnesses.\<close>

definition demo_syn :: pbuf where
  "demo_syn = \<lparr>pb_first = [69, 0, 0, 40, 18, 52, 64, 0, 64, 6, 43, 23, 192, 168, 7, 2, 93, 184, 216, 34, 195, 80, 0, 80, 0, 0, 0, 1, 0, 0, 0, 0, 80, 2, 32, 0, 206, 187, 0, 0], pb_rest = []\<rparr>"

definition demo_reply :: pbuf where
  "demo_reply = \<lparr>pb_first = [69, 0, 0, 40, 18, 52, 64, 0, 64, 6, 153, 72, 192, 168, 7, 1, 192, 168, 7, 2, 12, 8, 195, 80, 0, 0, 0, 1, 0, 0, 0, 0, 80, 18, 32, 0, 49, 37, 0, 0], pb_rest = []\<rparr>"

definition demo_clone :: "pbuf \<Rightarrow> pbuf option" where
  "demo_clone p = Some \<lparr>pb_first = pb_first p @ pb_rest p, pb_rest = []\<rparr>"

lemma demo_clone_ok: "clone_ok demo_clone"
  by (simp add: clone_ok_def demo_clone_def)

definition demo_hooked :: "pbuf \<times> flow list" where
  "demo_hooked = proxy_ip4_input_hook True True True 1000 demo_syn flows_memset"

lemma demo_hooked_ok: "flows_ok (snd demo_hooked)"
  by (simp add: demo_hooked_def hook_flows_ok memset_flows_ok)

lemma demo_hooked_hook:
  "proxy_ip4_input_hook True True True 1000 demo_syn flows_memset = (fst demo_hooked, snd demo_hooked)"
  by (simp add: demo_hooked_def)

lemmas demo_eval = demo_syn_def demo_reply_def get16_def get32_def lwip_ntohs_def

lemma demo_headers: "tcp_headers demo_syn = Some 20" "tcp_headers demo_reply = Some 20"
  by (simp_all add: tcp_headers_def demo_eval)

lemma demo_checks: "checksums_ok demo_syn" "checksums_ok demo_reply"
  by (simp_all add: checksums_ok_def demo_headers) (simp_all add: ip_sum_def tcp_sum_def total_len_def demo_eval)

lemma demo_ports: "seg_sport demo_reply 20 = 3080" "seg_dport demo_reply 20 = 50000"
  "seg_sport demo_syn 20 = 50000" "seg_dport demo_syn 20 = 80"
  by (simp_all add: demo_eval)

lemma demo_web: "web_segment True demo_syn 20"
  unfolding web_segment_def demo_ports demo_headers by (simp add: demo_eval)

lemma demo_flags: "seg_syn demo_syn 20" by (simp add: seg_syn_def demo_eval)

lemma demo_dst: "get32 (pb_first demo_syn) 16 = 584628317" by (simp add: demo_eval)

definition demo_flow :: flow where
 "demo_flow = \<lparr>f_state = FLOW_ACTIVE, f_phone_port = 50000, f_relay_port = 3080, f_orig_port = 80, f_orig_ip = 584628317, f_stamp_ms = 1000\<rparr>"

lemma demo_hooked_eq: "demo_hooked = (demo_syn\<lparr>pb_first := rewrite_dst 20 GW_ADDR_N (lwip_ntohs 3080) (pb_first demo_syn)\<rparr>, flows_memset[0 := demo_flow])"
proof -
  have none: "flow_find flows_memset x = None" for x
    by (simp add: flow_find_None_iff flows_memset_def flow_zero_def)
  have slot: "flow_slot flows_memset 1000 = Some 0" by (simp add: flows_memset_def flow_zero_def flow_slot_def numeral_eq_Suc)
  have "hook_flow 50000 80 3080 584628317 True True 1000 flows_memset = (True, flows_memset[0 := demo_flow])"
    by (simp add: hook_flow_def none slot demo_flow_def) (simp add: flows_memset_def flow_zero_def)
  then show ?thesis
  unfolding demo_hooked_def hook_run [OF demo_web] demo_ports demo_dst Let_def by (simp add: relay_of_def demo_flags)
qed

lemma demo_hooked_moved: "fst demo_hooked \<noteq> demo_syn"
proof -
  have "get32 (pb_first (fst demo_hooked)) 16 \<noteq> get32 (pb_first demo_syn) 16"
    using rewrite_dst_fields(2) [of 20 "pb_first demo_syn"] demo_dst by (simp add: demo_hooked_eq demo_syn_def)
  then show ?thesis by metis
qed

lemma demo_find: "flow_find (snd demo_hooked) 50000 = Some 0" "snd demo_hooked ! 0 = demo_flow"
  by (simp_all add: demo_hooked_eq demo_flow_def flows_memset_def numeral_eq_Suc)

subsection \<open>The life of a connection\<close>

















text \<open>C3: The rewriting keeps the checksums valid: the IP header checksum and the TCP checksum of a
  packet that enters the hook or the wrapper with valid ones are valid when it comes out.\<close>

theorem proxy_checksums:
  assumes "checksums_ok p" and "checksums_ok q" and "clone_ok clone"
  shows "checksums_ok (fst (proxy_ip4_input_hook from_ppp ready wifi now p fs)) \<and>
    (case fst (proxy_netif_output clone now q fs) of OUT_SENT out \<Rightarrow> checksums_ok out | OUT_ERR_MEM \<Rightarrow> True)"
proof
  show "checksums_ok (fst (proxy_ip4_input_hook from_ppp ready wifi now p fs))"
  proof (cases "\<exists>hl. web_segment from_ppp p hl")
    case True
    then obtain hl where w: "web_segment from_ppp p hl" by blast
    then have "tcp_headers p = Some hl" by (simp add: web_segment_def)
    from checksums_ok_rewrite(1) [OF this assms(1)] assms(1) show ?thesis
      by (simp add: hook_run [OF w] Let_def)
  qed (use assms(1) hook_skip in \<open>metis fst_conv\<close>)
  have "checksums_ok (c\<lparr>pb_first := rewrite_src hl ip port (pb_first c)\<rparr>)"
    if "clone q = Some c" "tcp_headers c = Some hl" for c hl ip port
    using checksums_ok_rewrite(2) [OF that(2) clone_checksums [OF assms(3) that(1) assms(2)]] .
  moreover have "checksums_ok c" if "clone q = Some c" for c
    using clone_checksums [OF assms(3) that assms(2)] .
  ultimately show "case fst (proxy_netif_output clone now q fs) of OUT_SENT out \<Rightarrow> checksums_ok out | OUT_ERR_MEM \<Rightarrow> True"
    using assms(2) by (auto simp: proxy_netif_output_def Let_def split: option.splits)
qed

theorem proxy_checksums_witness:
  "checksums_ok (fst (proxy_ip4_input_hook True True True 1000 demo_syn flows_memset)) \<and>
    (case fst (proxy_netif_output demo_clone 1000 demo_reply flows_memset) of
       OUT_SENT out \<Rightarrow> checksums_ok out | OUT_ERR_MEM \<Rightarrow> True)"
  by (rule proxy_checksums [OF demo_checks demo_clone_ok])

text \<open>C5: The hook touches nothing else: a segment it changes came in over PPP from the phone's
  address, was addressed to port 80 or 443 of a host other than the bridge, and either opens
  a connection while a proxy is configured and WiFi is up or belongs to a known flow; and
  only its destination address, destination port and the two checksums differ.\<close>

theorem proxy_hook_scope:
  assumes "flow_reach fs" and "proxy_ip4_input_hook from_ppp ready wifi now p fs = (p', fs')" and "p' \<noteq> p"
  shows "\<exists>hl. web_segment from_ppp p hl \<and>
    (seg_syn p hl \<and> ready \<and> wifi \<or> flow_find fs (seg_sport p hl) \<noteq> None) \<and>
    get32 (pb_first p') 16 = GW_ADDR_N \<and> seg_dport p' hl = relay_of (seg_dport p hl) \<and>
    pb_rest p' = pb_rest p \<and> length (pb_first p') = length (pb_first p) \<and>
    (\<forall>i. i \<notin> {10, 11} \<union> {16..19} \<union> {hl + 2, hl + 3} \<union> {hl + 16, hl + 17} \<longrightarrow> pb_first p' ! i = pb_first p ! i)"
proof -
  obtain hl i where w: "web_segment from_ppp p hl"
    and p': "p' = p\<lparr>pb_first := rewrite_dst hl GW_ADDR_N (lwip_ntohs (relay_of (seg_dport p hl))) (pb_first p)\<rparr>"
    and why: "seg_syn p hl \<and> ready \<and> wifi \<or> (\<exists>j. flow_find fs (seg_sport p hl) = Some j \<and>
        f_orig_ip (fs ! j) = get32 (pb_first p) 16 \<and> f_orig_port (fs ! j) = seg_dport p hl)"
    by (rule hook_redirect [OF flow_reach_ok [OF assms(1)] assms(2,3)])
  have h: "tcp_headers p = Some hl" using w by (simp add: web_segment_def)
  note l = tcp_headers_SomeD [OF h]
  note f = rewrite_dst_fields [OF l(1,3), where ip = GW_ADDR_N and port = "lwip_ntohs (relay_of (seg_dport p hl))"]
  show ?thesis
  proof (intro exI [of _ hl] conjI)
    show "\<forall>i. i \<notin> {10, 11} \<union> {16..19} \<union> {hl + 2, hl + 3} \<union> {hl + 16, hl + 17} \<longrightarrow> pb_first p' ! i = pb_first p ! i"
      using f(6) by (simp add: p')
  qed (use w why f in \<open>auto simp: p'\<close>)
qed

theorem proxy_hook_scope_witness:
  "\<exists>hl. web_segment True demo_syn hl \<and>
    (seg_syn demo_syn hl \<and> True \<and> True \<or> flow_find flows_memset (seg_sport demo_syn hl) \<noteq> None) \<and>
    get32 (pb_first (fst demo_hooked)) 16 = GW_ADDR_N \<and>
    seg_dport (fst demo_hooked) hl = relay_of (seg_dport demo_syn hl)"
  using proxy_hook_scope [OF reach_init demo_hooked_hook demo_hooked_moved] by blast

text \<open>C18: Whatever packets pass and sessions close, the flow table keeps its sixteen slots, holds at
  most one live flow for each port of the phone, and every live flow is for port 80 or 443 of
  a host other than the bridge, with the relay port of its kind.\<close>

theorem flow_table_invariant:
  assumes "flow_reach fs"
  shows "length fs = FLOW_MAX \<and> one_per_port fs \<and> (\<forall>f\<in>set fs. flow_wf f)"
  using flow_reach_ok [OF assms] by (simp add: flows_ok_def)

lemma demo_reach: "flow_reach (snd demo_hooked)"
  unfolding demo_hooked_def by (rule reach_step [OF reach_init step_input])

theorem flow_table_invariant_witness:
  "length (snd demo_hooked) = FLOW_MAX \<and> one_per_port (snd demo_hooked) \<and> flow_wf (snd demo_hooked ! 0)"
  using flow_table_invariant [OF demo_reach] by (auto intro: nth_mem)

text \<open>A new flow takes a free slot if there is one, else the closed flow of the greatest age,
  else the active flow idle for longest, but never one that saw a packet in the last two
  minutes; when every slot is that busy there is none.  Ages are differences of the 32-bit
  millisecond clock, so they survive its wrap-around.\<close>

theorem flow_slot_evicts:
  "slot_choice now fs (flow_slot fs now)"
  using flow_slot_from_choice [of "[]" now None None fs] by (simp add: flow_slot_def best_def)

text \<open>The relay task marks a flow closed by the phone's port alone.  So when the phone opens a new
  connection from the port of an old one before the relay has closed the old session, that
  close hits the new flow: until then the relay's accept finds the server of the new
  connection, afterwards it finds none and the connection is refused.\<close>

theorem flow_close_hits_reused_port:
  assumes "flow_reach fs" and "proxy_ip4_input_hook from_ppp ready wifi now p fs = (p', fs')" and "p' \<noteq> p"
    and "tcp_headers p = Some hl" and "seg_syn p hl"
  shows "flow_lookup fs' (seg_sport p hl) (relay_of (seg_dport p hl)) =
           Some (get32 (pb_first p) 16, seg_dport p hl) \<and>
         flow_lookup (flow_mark_closed (seg_sport p hl) now' fs') (seg_sport p hl) (relay_of (seg_dport p hl)) = None"
proof -
  have ok: "flows_ok fs" using assms(1) by (rule flow_reach_ok)
  obtain hl2 i where "web_segment from_ppp p hl2"
    and f2: "flow_find fs' (seg_sport p hl2) = Some i" "f_orig_ip (fs' ! i) = get32 (pb_first p) 16"
      "f_orig_port (fs' ! i) = seg_dport p hl2" "f_relay_port (fs' ! i) = relay_of (seg_dport p hl2)"
      "seg_syn p hl2 \<Longrightarrow> f_state (fs' ! i) = FLOW_ACTIVE"
    using hook_redirect [OF ok assms(2,3)] by metis
  then have hl2: "hl2 = hl" using assms(4) by (simp add: web_segment_def)
  note f = f2 [unfolded hl2]
  have ok': "flows_ok fs'" using hook_flows_ok [OF ok, of from_ppp ready wifi now p] assms(2) by simp
  let ?f = "(fs' ! i)\<lparr>f_state := FLOW_CLOSED, f_stamp_ms := now'\<rparr>"
  note s = flow_find_SomeD [OF f(1)]
  have m: "flow_mark_closed (seg_sport p hl) now' fs' = fs'[i := ?f]" using f(1) by (simp add: flow_mark_closed_def)
  have "flow_find (fs'[i := ?f]) (f_phone_port ?f) = Some i"
    using flow_find_update_Some [of fs' i ?f] mark_closed_flows_ok [OF ok', of "seg_sport p hl" now'] m s by simp
  then show ?thesis using f s m assms(5) by (simp add: flow_lookup_def)
qed

theorem flow_close_hits_reused_port_witness:
  "flow_lookup (snd demo_hooked) 50000 (relay_of 80) = Some (get32 (pb_first demo_syn) 16, 80) \<and>
   flow_lookup (flow_mark_closed 50000 2000 (snd demo_hooked)) 50000 (relay_of 80) = None"
  using flow_close_hits_reused_port [OF reach_init demo_hooked_hook demo_hooked_moved demo_headers(1) demo_flags]
  by (simp only: demo_ports)

end
