(* ===== verification/ProxyParse.thy ===== *)
theory ProxyParse
  imports Bytes
begin

text \<open>
  The request parsing of the proxy relay, \<open>src/main/http_proxy.c\<close>: turning the origin-form
  request head of the phone into a proxy request, and reading the server name out of a TLS
  ClientHello.

  A buffer of bytes is a list; positions are offsets into it.  The text parser works on
  characters; the output buffer of \<open>http_rewrite\<close> is the list written so far, with its
  capacity.
\<close>

section \<open>The request head\<close>

fun find_crlf2 :: "char list \<Rightarrow> nat option" where
  "find_crlf2 (a # b # c # d # s) =
     (if a = CHR 0x0D \<and> b = CHR 0x0A \<and> c = CHR 0x0D \<and> d = CHR 0x0A then Some 0
      else map_option Suc (find_crlf2 (b # c # d # s)))"
| "find_crlf2 _ = None"

definition host_char :: "char \<Rightarrow> bool" where
  "host_char c \<longleftrightarrow> (97 \<le> ccode c \<and> ccode c \<le> 122) \<or> (65 \<le> ccode c \<and> ccode c \<le> 90) \<or>
     (48 \<le> ccode c \<and> ccode c \<le> 57) \<or> c = CHR ''.'' \<or> c = CHR ''-'' \<or> c = CHR ''_'' \<or>
     c = CHR '':'' \<or> c = CHR ''['' \<or> c = CHR '']''"

definition host_ok :: "string \<Rightarrow> bool" where
  "host_ok h \<longleftrightarrow> h \<noteq> [] \<and> list_all host_char h"

definition out_add :: "nat \<Rightarrow> char list \<Rightarrow> char list \<Rightarrow> char list option" where
  "out_add cap out s = (if length out + length s > cap then None else Some (out @ s))"

definition name_is :: "char list \<Rightarrow> string \<Rightarrow> bool" where
  "name_is s name \<longleftrightarrow> length name = length s \<and> map tolower s = map tolower name"

text \<open>\<open>memchr(b + off, c, n)\<close>, as an offset into \<open>b\<close>.\<close>

definition memchr :: "char list \<Rightarrow> nat \<Rightarrow> char \<Rightarrow> nat \<Rightarrow> nat option" where
  "memchr b off c n = map_option ((+) off) (strchr (take n (drop off b)) c)"

definition bslice :: "char list \<Rightarrow> nat \<Rightarrow> nat \<Rightarrow> char list" where
  "bslice b i j = take (j - i) (drop i b)"

abbreviation is_blank :: "char \<Rightarrow> bool" where
  "is_blank c \<equiv> c = CHR '' '' \<or> c = CHR 0x09"

text \<open>The value of a header field: the blanks around it skipped.\<close>

definition field_value :: "char list \<Rightarrow> char list" where
  "field_value v = rev (dropWhile is_blank (rev (dropWhile is_blank v)))"

text \<open>What a C string read from \<open>vn\<close> bytes holds: the bytes up to the first NUL.\<close>

definition cstr_of :: "char list \<Rightarrow> string" where
  "cstr_of v = takeWhile (\<lambda>c. c \<noteq> CHR 0x00) v"

text \<open>The end of the header line at \<open>s\<close>: the next CR before the end, or the end.\<close>

definition line_end :: "char list \<Rightarrow> nat \<Rightarrow> nat \<Rightarrow> nat" where
  "line_end b s fin = (case memchr b s (CHR 0x0D) (fin - s) of Some e \<Rightarrow> e | None \<Rightarrow> fin)"

function host_pass :: "char list \<Rightarrow> nat \<Rightarrow> nat \<Rightarrow> nat \<Rightarrow> string \<Rightarrow> string" where
  "host_pass b fin host_n s host =
     (if s < fin then
        let e = line_end b s fin;
            host = (case memchr b s (CHR '':'') (e - s) of
                Some c \<Rightarrow>
                  (if name_is (bslice b s c) ''host'' then
                     let v = field_value (bslice b (c + 1) e)
                     in if length v < host_n then cstr_of v else host
                   else host)
              | None \<Rightarrow> host)
        in host_pass b fin host_n (e + 2) host
      else host)"
  by pat_completeness auto

lemma memchr_SomeD: "memchr b off c n = Some e \<Longrightarrow> off \<le> e \<and> e < off + n \<and> e < length b \<and> b ! e = c"
  by (auto simp: memchr_def dest!: strchr_SomeD)

lemma line_end_bounds: "s < fin \<Longrightarrow> s \<le> line_end b s fin \<and> line_end b s fin \<le> fin"
  by (auto simp: line_end_def split: option.splits dest!: memchr_SomeD)

lemma line_end_next: "s < fin \<Longrightarrow> fin - Suc (Suc (line_end b s fin)) < fin - s"
  using line_end_bounds [of s fin b] by linarith

termination host_pass
  by (relation "measure (\<lambda>(b, fin, hn, s, host). fin - s)") (simp_all add: line_end_next)

declare host_pass.simps [simp del]

definition hop_header :: "char list \<Rightarrow> bool" where
  "hop_header nm \<longleftrightarrow> name_is nm ''connection'' \<or> name_is nm ''proxy-connection'' \<or> name_is nm ''keep-alive''"

function copy_pass :: "char list \<Rightarrow> nat \<Rightarrow> nat \<Rightarrow> nat \<Rightarrow> char list \<Rightarrow> char list option" where
  "copy_pass b fin cap s out =
     (if s < fin then
        let e = line_end b s fin;
            drp = (case memchr b s (CHR '':'') (e - s) of
                Some c \<Rightarrow> hop_header (bslice b s c)
              | None \<Rightarrow> False)
        in (case (if drp then Some out else out_add cap out (bslice b s (e + 2))) of
              Some out \<Rightarrow> copy_pass b fin cap (e + 2) out
            | None \<Rightarrow> None)
      else Some out)"
  by pat_completeness auto

termination copy_pass
  by (relation "measure (\<lambda>(b, fin, cap, s, out). fin - s)") (simp_all add: line_end_next)

declare copy_pass.simps [simp del]

definition conn_tail :: string where
  "conn_tail = ''Connection: close'' @ [CHR 0x0D, CHR 0x0A] @ ''Proxy-Connection: close'' @
     [CHR 0x0D, CHR 0x0A, CHR 0x0D, CHR 0x0A]"

text \<open>\<open>ntoa\<close> is \<open>ip4addr_ntoa_r\<close> of lwIP on the original address; the result is the bytes
  written, or None for -1, and the host name kept for the log.\<close>

definition http_rewrite :: "string \<Rightarrow> string \<Rightarrow> char list \<Rightarrow> nat \<Rightarrow> nat \<Rightarrow> char list option \<times> string" where
  "http_rewrite ntoa host0 head cap host_n =
     (let len = length head;
          fin = len - 2
      in case memchr head 0 (CHR 0x0D) len of None \<Rightarrow> (None, host0) | Some le \<Rightarrow>
         (case memchr head 0 (CHR '' '') le of None \<Rightarrow> (None, host0) | Some sp1 \<Rightarrow>
          let target = sp1 + 1 in
          (case memchr head target (CHR '' '') (le - target) of None \<Rightarrow> (None, host0) | Some sp2 \<Rightarrow>
           if sp2 = target then (None, host0) else
           let host = host_pass head fin host_n (le + 2) [];
               host = (if host_ok host then host else ntoa);
               r = Option.bind (out_add cap [] (bslice head 0 target)) (\<lambda>out.
                   Option.bind (if head ! target = CHR ''/''
                                then Option.bind (out_add cap out ''http://'') (\<lambda>out. out_add cap out host)
                                else Some out) (\<lambda>out.
                   Option.bind (out_add cap out (bslice head target (le + 2))) (\<lambda>out.
                   Option.bind (copy_pass head fin cap (le + 2) out) (\<lambda>out.
                   out_add cap out conn_tail))))
           in (r, host))))"

section \<open>Facts about the head parser\<close>

abbreviation CRLF :: "char list" where
  "CRLF \<equiv> [CHR 0x0D, CHR 0x0A]"

lemma memchr_at:
  assumes "c \<notin> set a" and "length a < n" and "off = length pre"
  shows "memchr (pre @ a @ c # r) off c n = Some (off + length a)"
proof -
  have "take n (a @ c # r) = a @ c # take (n - Suc (length a)) r"
    using assms(2) by (simp add: take_Cons' Suc_diff_le)
  then show ?thesis using assms(1,3) strchr_append [of c a] by (simp add: memchr_def)
qed

lemma memchr_none:
  assumes "c \<notin> set a" and "length a = n" and "off = length pre"
  shows "memchr (pre @ a @ r) off c n = None"
  using assms by (simp add: memchr_def strchr_None_iff)

lemma bslice_at: "off = length pre \<Longrightarrow> j = off + length a \<Longrightarrow> bslice (pre @ a @ r) off j = a"
  by (simp add: bslice_def)

lemma line_end_at:
  assumes "CHR 0x0D \<notin> set a" and "length pre + length a < fin"
  shows "line_end (pre @ a @ CRLF @ r) (length pre) fin = length pre + length a"
proof -
  have "memchr (pre @ a @ CHR 0x0D # (CHR 0x0A # r)) (length pre) (CHR 0x0D) (fin - length pre)
     = Some (length pre + length a)"
    by (rule memchr_at) (use assms in auto)
  then show ?thesis by (simp add: line_end_def)
qed

text \<open>The text of a request: the request line, the header fields and the empty line.\<close>

definition enc_field :: "char list \<times> char list \<Rightarrow> char list" where
  "enc_field f = fst f @ CHR '':'' # snd f @ CRLF"

definition enc_fields :: "(char list \<times> char list) list \<Rightarrow> char list" where
  "enc_fields fs = concat (map enc_field fs)"

definition enc_head :: "char list \<Rightarrow> char list \<Rightarrow> char list \<Rightarrow> (char list \<times> char list) list \<Rightarrow> char list" where
  "enc_head m t v fs = m @ CHR '' '' # t @ CHR '' '' # v @ CRLF @ enc_fields fs @ CRLF"

definition field_ok :: "char list \<times> char list \<Rightarrow> bool" where
  "field_ok f \<longleftrightarrow> CHR '':'' \<notin> set (fst f) \<and> CHR 0x0D \<notin> set (fst f) \<and> CHR 0x0D \<notin> set (snd f)"

definition request_ok :: "char list \<Rightarrow> char list \<Rightarrow> char list \<Rightarrow> (char list \<times> char list) list \<Rightarrow> bool" where
  "request_ok m t v fs \<longleftrightarrow> t \<noteq> [] \<and> CHR '' '' \<notin> set m \<and> CHR '' '' \<notin> set t \<and>
     CHR 0x0D \<notin> set m \<union> set t \<union> set v \<and> list_all field_ok fs"

text \<open>What the two passes compute: the last usable Host field, and the fields a proxy may see.\<close>

fun host_of :: "nat \<Rightarrow> string \<Rightarrow> (char list \<times> char list) list \<Rightarrow> string" where
  "host_of hn h [] = h"
| "host_of hn h (f # fs) =
     host_of hn (if name_is (fst f) ''host'' \<and> length (field_value (snd f)) < hn
                 then cstr_of (field_value (snd f)) else h) fs"

definition kept :: "(char list \<times> char list) list \<Rightarrow> (char list \<times> char list) list" where
  "kept fs = filter (\<lambda>f. \<not> hop_header (fst f)) fs"

lemma field_scan:
  assumes f: "field_ok f" and b: "b = pre @ enc_field f @ r" and fin: "length pre + length (enc_field f) \<le> fin"
    and s: "s = length pre"
  shows "line_end b s fin + 2 = length (pre @ enc_field f)"
    and "memchr b s (CHR '':'') (line_end b s fin - s) = Some (s + length (fst f))"
    and "bslice b s (s + length (fst f)) = fst f"
    and "bslice b (s + length (fst f) + 1) (line_end b s fin) = snd f"
    and "bslice b s (line_end b s fin + 2) = enc_field f"
    and "s < fin"
proof -
  let ?line = "fst f @ CHR '':'' # snd f"
  have e: "line_end (pre @ ?line @ CRLF @ r) (length pre) fin = length pre + length ?line"
    by (rule line_end_at) (use f fin in \<open>auto simp: field_ok_def enc_field_def\<close>)
  moreover have b': "b = pre @ ?line @ CRLF @ r" by (simp add: b enc_field_def)
  ultimately have e: "line_end b s fin = s + length ?line" using s by simp
  then show "line_end b s fin + 2 = length (pre @ enc_field f)" by (simp add: s enc_field_def)
  have "memchr (pre @ fst f @ CHR '':'' # (snd f @ CRLF @ r)) s (CHR '':'') (length ?line) = Some (s + length (fst f))"
    by (rule memchr_at) (use f s in \<open>auto simp: field_ok_def\<close>)
  then show "memchr b s (CHR '':'') (line_end b s fin - s) = Some (s + length (fst f))" unfolding e by (simp add: b')
  have "bslice (pre @ fst f @ (CHR '':'' # snd f @ CRLF @ r)) s (s + length (fst f)) = fst f"
    by (rule bslice_at) (use s in auto)
  then show "bslice b s (s + length (fst f)) = fst f" by (simp add: b')
  have "bslice ((pre @ fst f @ [CHR '':'']) @ snd f @ (CRLF @ r)) (s + length (fst f) + 1) (s + length ?line) = snd f"
    by (rule bslice_at) (use s in auto)
  then show "bslice b (s + length (fst f) + 1) (line_end b s fin) = snd f" unfolding e by (simp add: b')
  have "bslice (pre @ enc_field f @ r) s (s + length ?line + 2) = enc_field f"
    by (rule bslice_at) (use s in \<open>auto simp: enc_field_def\<close>)
  then show "bslice b s (line_end b s fin + 2) = enc_field f" unfolding e by (simp add: b)
  show "s < fin" using fin s by (simp add: enc_field_def)
qed

lemma host_pass_fields:
  "list_all field_ok fs \<Longrightarrow>
   host_pass (pre @ enc_fields fs @ r) (length pre + length (enc_fields fs)) hn (length pre) h = host_of hn h fs"
proof (induction fs arbitrary: pre h)
  case Nil
  then show ?case by (subst host_pass.simps) (simp add: enc_fields_def)
next
  case (Cons f fs)
  define b where "b = pre @ enc_fields (f # fs) @ r"
  define fin where "fin = length pre + length (enc_fields (f # fs))"
  define s where "s = length pre"
  have f: "field_ok f" and fs: "list_all field_ok fs" using Cons.prems by auto
  have b1: "b = pre @ enc_field f @ (enc_fields fs @ r)" by (simp add: b_def enc_fields_def)
  note sc = field_scan [OF f b1 _ s_def, of fin]
  have le: "length pre + length (enc_field f) \<le> fin" by (simp add: fin_def enc_fields_def)
  have b2: "b = (pre @ enc_field f) @ enc_fields fs @ r" by (simp add: b1)
  have f2: "fin = length (pre @ enc_field f) + length (enc_fields fs)" by (simp add: fin_def enc_fields_def)
  have next_pos: "line_end b s fin + 2 = length (pre @ enc_field f)" by (rule sc(1) [OF le])
  let ?h = "if name_is (fst f) ''host'' \<and> length (field_value (snd f)) < hn
                 then cstr_of (field_value (snd f)) else h"
  have "host_pass b fin hn s h = host_pass b fin hn (line_end b s fin + 2) ?h"
    using sc(2,3,4,6) [OF le] by (subst host_pass.simps) (simp add: Let_def)
  also have "\<dots> = host_of hn ?h fs"
    using Cons.IH [OF fs, of "pre @ enc_field f"] unfolding b2 [symmetric] f2 [symmetric] next_pos by simp
  finally show ?case by (simp add: b_def fin_def s_def)
qed

lemma copy_pass_fields:
  "list_all field_ok fs \<Longrightarrow>
   copy_pass (pre @ enc_fields fs @ r) (length pre + length (enc_fields fs)) cap (length pre) out =
     (if kept fs = [] \<or> length out + length (enc_fields (kept fs)) \<le> cap
      then Some (out @ enc_fields (kept fs)) else None)"
proof (induction fs arbitrary: pre out)
  case Nil
  then show ?case by (subst copy_pass.simps) (simp add: enc_fields_def kept_def)
next
  case (Cons f fs)
  define b where "b = pre @ enc_fields (f # fs) @ r"
  define fin where "fin = length pre + length (enc_fields (f # fs))"
  define s where "s = length pre"
  have f: "field_ok f" and fs: "list_all field_ok fs" using Cons.prems by auto
  have b1: "b = pre @ enc_field f @ (enc_fields fs @ r)" by (simp add: b_def enc_fields_def)
  note sc = field_scan [OF f b1 _ s_def, of fin]
  have le: "length pre + length (enc_field f) \<le> fin" by (simp add: fin_def enc_fields_def)
  have b2: "b = (pre @ enc_field f) @ enc_fields fs @ r" by (simp add: b1)
  have f2: "fin = length (pre @ enc_field f) + length (enc_fields fs)" by (simp add: fin_def enc_fields_def)
  have next_pos: "line_end b s fin + 2 = length (pre @ enc_field f)" by (rule sc(1) [OF le])
  have step: "copy_pass b fin cap s out =
    (case (if hop_header (fst f) then Some out else out_add cap out (enc_field f)) of
       Some out \<Rightarrow> copy_pass b fin cap (line_end b s fin + 2) out | None \<Rightarrow> None)"
    using sc(2,3,5,6) [OF le] by (subst copy_pass.simps) (simp add: Let_def)
  have rest: "copy_pass b fin cap (line_end b s fin + 2) o' =
     (if kept fs = [] \<or> length o' + length (enc_fields (kept fs)) \<le> cap
      then Some (o' @ enc_fields (kept fs)) else None)" for o'
    using Cons.IH [OF fs, of "pre @ enc_field f"] unfolding b2 [symmetric] f2 [symmetric] next_pos by simp
  have "copy_pass b fin cap s out = (if kept (f # fs) = [] \<or> length out + length (enc_fields (kept (f # fs))) \<le> cap
      then Some (out @ enc_fields (kept (f # fs))) else None)"
  proof (cases "hop_header (fst f)")
    case True
    then show ?thesis using step rest by (simp add: kept_def)
  next
    case False
    then show ?thesis using step rest by (auto simp: kept_def out_add_def enc_fields_def)
  qed
  then show ?case by (simp add: b_def fin_def s_def)
qed

text \<open>The request a proxy gets, written out.\<close>

definition proxy_head :: "string \<Rightarrow> char list \<Rightarrow> char list \<Rightarrow> char list \<Rightarrow> (char list \<times> char list) list \<Rightarrow> char list" where
  "proxy_head host m t v fs =
     m @ CHR '' '' # (if hd t = CHR ''/'' then ''http://'' @ host else []) @ t @ CHR '' '' # v @ CRLF @
     enc_fields (kept fs) @ conn_tail"

definition request_host :: "string \<Rightarrow> nat \<Rightarrow> (char list \<times> char list) list \<Rightarrow> string" where
  "request_host ntoa hn fs = (if host_ok (host_of hn [] fs) then host_of hn [] fs else ntoa)"

lemma out_add_fits: "length out + length s \<le> cap \<Longrightarrow> out_add cap out s = Some (out @ s)"
  by (simp add: out_add_def)

lemma http_rewrite_request:
  assumes "request_ok m t v fs"
  shows "http_rewrite ntoa h0 (enc_head m t v fs) cap hn =
    (let out = proxy_head (request_host ntoa hn fs) m t v fs
     in (if length out \<le> cap then Some out else None, request_host ntoa hn fs))"
proof -
  define b where "b = enc_head m t v fs"
  define line where "line = m @ CHR '' '' # t @ CHR '' '' # v"
  define le where "le = length line"
  have ok: "t \<noteq> []" "CHR '' '' \<notin> set m" "CHR '' '' \<notin> set t" "CHR 0x0D \<notin> set line" "list_all field_ok fs"
    using assms by (auto simp: request_ok_def line_def)
  have b1: "b = [] @ line @ CHR 0x0D # (CHR 0x0A # enc_fields fs @ CRLF)" by (simp add: b_def enc_head_def line_def)
  have c1: "memchr b 0 (CHR 0x0D) (length b) = Some le"
    unfolding b1 by (subst memchr_at) (use ok in \<open>simp_all add: le_def\<close>)
  have b2: "b = [] @ m @ CHR '' '' # (t @ CHR '' '' # v @ CRLF @ enc_fields fs @ CRLF)" by (simp add: b_def enc_head_def)
  have c2: "memchr b 0 (CHR '' '') le = Some (length m)"
    unfolding b2 by (subst memchr_at) (use ok in \<open>simp_all add: le_def line_def\<close>)
  have b3: "b = (m @ [CHR '' '']) @ t @ CHR '' '' # (v @ CRLF @ enc_fields fs @ CRLF)" by (simp add: b_def enc_head_def)
  have c3: "memchr b (length m + 1) (CHR '' '') (le - (length m + 1)) = Some (length m + 1 + length t)"
    unfolding b3 by (subst memchr_at) (use ok in \<open>simp_all add: le_def line_def\<close>)
  have hd: "b ! (length m + 1) = hd t"
    using ok(1) by (simp add: b3 nth_append hd_conv_nth)
  have s1: "bslice b 0 (length m + 1) = m @ [CHR '' '']"
    using bslice_at [of 0 "[]" "length m + 1" "m @ [CHR '' '']"] by (simp add: b3)
  have b4: "b = (m @ [CHR '' '']) @ (t @ CHR '' '' # v @ CRLF) @ (enc_fields fs @ CRLF)" by (simp add: b_def enc_head_def)
  have s2: "bslice b (length m + 1) (le + 2) = t @ CHR '' '' # v @ CRLF"
    unfolding b4 by (rule bslice_at) (simp_all add: le_def line_def)
  have b5: "b = (line @ CRLF) @ enc_fields fs @ CRLF" by (simp add: b1)
  have fin: "length b - 2 = length (line @ CRLF) + length (enc_fields fs)" by (simp add: b5)
  have le2: "le + 2 = length (line @ CRLF)" by (simp add: le_def)
  have hp: "host_pass b (length b - 2) hn (le + 2) [] = host_of hn [] fs"
    unfolding fin le2 unfolding b5 by (rule host_pass_fields [OF ok(5)])
  have cp: "copy_pass b (length b - 2) cap (le + 2) out =
     (if kept fs = [] \<or> length out + length (enc_fields (kept fs)) \<le> cap
      then Some (out @ enc_fields (kept fs)) else None)" for out
    unfolding fin le2 unfolding b5 by (rule copy_pass_fields [OF ok(5)])
  define host where "host = request_host ntoa hn fs"
  have run: "http_rewrite ntoa h0 b cap hn =
    (Option.bind (out_add cap [] (m @ [CHR '' ''])) (\<lambda>out.
      Option.bind (if hd t = CHR ''/''
                   then Option.bind (out_add cap out ''http://'') (\<lambda>out. out_add cap out host)
                   else Some out) (\<lambda>out.
      Option.bind (out_add cap out (t @ CHR '' '' # v @ CRLF)) (\<lambda>out.
      Option.bind (if kept fs = [] \<or> length out + length (enc_fields (kept fs)) \<le> cap
                   then Some (out @ enc_fields (kept fs)) else None) (\<lambda>out. out_add cap out conn_tail)))), host)"
    unfolding http_rewrite_def Let_def c1 option.case c2 c3 hd s1 s2 hp cp
      request_host_def [symmetric] host_def [symmetric]
    using ok(1) by simp
  show ?thesis
    unfolding b_def [symmetric] run Let_def host_def [symmetric]
    by (auto simp: out_add_def proxy_head_def enc_fields_def)
qed

section \<open>Bounds of the output\<close>

lemma out_add_bound: "out_add cap out s = Some r \<Longrightarrow> length r \<le> cap"
  by (auto simp: out_add_def split: if_splits)

lemma http_rewrite_bound: "http_rewrite ntoa h0 head cap hn = (Some out, h) \<Longrightarrow> length out \<le> cap"
  by (auto simp: http_rewrite_def Let_def Option.bind_eq_Some_conv split: option.splits if_splits
      dest!: out_add_bound)

lemma field_value_incl: "set (field_value v) \<subseteq> set v" "length (field_value v) \<le> length v"
  by (auto simp: field_value_def dest!: set_dropWhileD)
    (metis length_dropWhile_le length_rev order_trans)

lemma host_of_len: "length h < hn \<Longrightarrow> length (host_of hn h fs) < hn"
proof (induction fs arbitrary: h)
  case (Cons f fs)
  have "length (cstr_of v) < hn" if "length v < hn" for v
    unfolding cstr_of_def by (rule le_less_trans [OF length_takeWhile_le that])
  then show ?case using Cons by simp
qed simp

text \<open>A text made of lines has its first empty line where the lines end.\<close>

lemma find_crlf2_line:
  assumes "CHR 0x0D \<notin> set a" and "r \<noteq> []" and "hd r \<noteq> CHR 0x0D"
  shows "find_crlf2 (a @ CRLF @ r) = map_option ((+) (length a + 2)) (find_crlf2 r)"
proof -
  have nocr: "find_crlf2 (c # s) = map_option Suc (find_crlf2 s)" if "c \<noteq> CHR 0x0D" for c s
    by (cases s rule: find_crlf2.cases) (use that in \<open>auto split: list.split\<close>)
  obtain x xs where r: "r = x # xs" using assms(2) by (cases r) auto
  have base: "find_crlf2 (CRLF @ r) = map_option ((+) 2) (find_crlf2 r)"
  proof -
    have "find_crlf2 (CHR 0x0D # CHR 0x0A # r) = map_option Suc (find_crlf2 (CHR 0x0A # r))"
      by (cases xs) (use assms(3) r in auto)
    moreover have "(+) 2 = (\<lambda>x. Suc (Suc x))" by (simp add: fun_eq_iff)
    ultimately show ?thesis by (simp add: nocr option.map_comp comp_def)
  qed
  show ?thesis using assms(1)
  proof (induction a)
    case (Cons c a)
    then have "c \<noteq> CHR 0x0D" by auto
    with Cons show ?case by (simp add: nocr option.map_comp comp_def)
  qed (use base in \<open>simp add: numeral_2_eq_2\<close>)
qed

section \<open>The server name of a ClientHello\<close>

text \<open>
  Reads of the record are checked: an out-of-bounds read makes the whole function None.  Inside,
  None is the result false and \<open>Some host\<close> the result true with the name in \<open>out\<close>.
\<close>

function sni_names :: "u8 list \<Rightarrow> nat \<Rightarrow> nat \<Rightarrow> nat \<Rightarrow> string option option" where
  "sni_names b on q qe =
     (if q + 3 \<le> qe then do {
        nt \<leftarrow> rd8 b q;
        nl \<leftarrow> rd16 b (q + 1);
        let q = q + 3;
        if q + nl > qe then Some None
        else if nt = 0 \<and> nl > 0 \<and> nl < on then do {
          out \<leftarrow> rd_chars b q nl;
          let out = cstr_of out;
          Some (if host_ok out then Some out else None)
        }
        else sni_names b on (q + nl) qe
      } else Some None)"
  by pat_completeness auto
termination
  by (relation "measure (\<lambda>(b, on, q, qe). qe - q)") auto

function sni_exts :: "u8 list \<Rightarrow> nat \<Rightarrow> nat \<Rightarrow> nat \<Rightarrow> string option option" where
  "sni_exts b on p ext_end =
     (if p + 4 \<le> ext_end then do {
        ty \<leftarrow> rd16 b p;
        len \<leftarrow> rd16 b (p + 2);
        let p = p + 4;
        if p + len > ext_end then Some None
        else if ty = 0 then sni_names b on (p + 2) (p + len)
        else sni_exts b on (p + len) ext_end
      } else Some None)"
  by pat_completeness auto
termination
  by (relation "measure (\<lambda>(b, on, p, e). e - p)") auto

declare sni_names.simps [simp del] sni_exts.simps [simp del]

definition tls_sni :: "u8 list \<Rightarrow> nat \<Rightarrow> string option option" where
  "tls_sni b on =
     (let n = length b in
      if n < 5 then Some None else do {
      b0 \<leftarrow> rd8 b 0;
      if b0 \<noteq> 0x16 then Some None else do {
      rl \<leftarrow> rd16 b 3;
      let fin = (if 5 + rl > n then n else 5 + rl);
      let p = 5;
      if p + 4 > fin then Some None else do {
      ht \<leftarrow> rd8 b p;
      if ht \<noteq> 1 then Some None else do {
      let p = p + (4 + 2 + 32);
      if p + 1 > fin then Some None else do {
      sl \<leftarrow> rd8 b p;
      let p = p + (1 + sl);
      if p + 2 > fin then Some None else do {
      cl \<leftarrow> rd16 b p;
      let p = p + (2 + cl);
      if p + 1 > fin then Some None else do {
      ml \<leftarrow> rd8 b p;
      let p = p + (1 + ml);
      if p + 2 > fin then Some None else do {
      el \<leftarrow> rd16 b p;
      let ext_end = p + 2 + el;
      let p = p + 2;
      let ext_end = (if ext_end > fin then fin else ext_end);
      sni_exts b on p ext_end }}}}}}}})"

lemma sni_names_ok:
  "qe \<le> length b \<Longrightarrow> \<exists>r. sni_names b on q qe = Some r \<and> (\<forall>h. r = Some h \<longrightarrow> host_ok h \<and> length h < on)"
proof (induction b on q qe rule: sni_names.induct)
  case (1 b on q qe)
  show ?case
  proof (cases "q + 3 \<le> qe")
    case False
    then show ?thesis by (subst sni_names.simps) simp
  next
    case True
    define nt where "nt = unat (b ! q)"
    define nl where "nl = 256 * unat (b ! (q + 1)) + unat (b ! (q + 2))"
    have r: "rd8 b q = Some nt" "rd16 b (q + 1) = Some nl"
      using True 1(2) by (simp_all add: rd_ok nt_def nl_def)
    have run: "sni_names b on q qe =
      (if q + 3 + nl > qe then Some None
       else if nt = 0 \<and> nl > 0 \<and> nl < on then
         Some (let out = cstr_of (map (\<lambda>x. char_of (unat x)) (take nl (drop (q + 3) b))) in if host_ok out then Some out else None)
       else sni_names b on (q + 3 + nl) qe)"
      using True r 1(2) by (subst sni_names.simps) (simp add: rd_chars_def Let_def)
    have cs: "length (cstr_of v) < on" if "length v < on" for v
      unfolding cstr_of_def by (rule le_less_trans [OF length_takeWhile_le that])
    have lt: "length (map (\<lambda>x. char_of (unat x) :: char) (take nl (drop (q + 3) b))) < on" if "nl < on"
      using that by simp
    show ?thesis
    proof (cases "q + 3 + nl > qe \<or> (nt = 0 \<and> nl > 0 \<and> nl < on)")
      case True
      then show ?thesis unfolding run using cs [OF lt] by (auto simp: Let_def)
    next
      case False
      then show ?thesis unfolding run if_not_P [OF conjunct1 [OF False [unfolded de_Morgan_disj]]]
          if_not_P [OF conjunct2 [OF False [unfolded de_Morgan_disj]]]
        using 1(1) [OF True r refl] 1(2) by simp
    qed
  qed
qed

lemma sni_exts_ok:
  "e \<le> length b \<Longrightarrow> \<exists>r. sni_exts b on p e = Some r \<and> (\<forall>h. r = Some h \<longrightarrow> host_ok h \<and> length h < on)"
proof (induction b on p e rule: sni_exts.induct)
  case (1 b on p e)
  show ?case
  proof (cases "p + 4 \<le> e")
    case False
    then show ?thesis by (subst sni_exts.simps) simp
  next
    case True
    define ty where "ty = 256 * unat (b ! p) + unat (b ! (p + 1))"
    define len where "len = 256 * unat (b ! (p + 2)) + unat (b ! (p + 2 + 1))"
    have r: "rd16 b p = Some ty" "rd16 b (p + 2) = Some len"
      using True 1(2) by (simp_all add: rd_ok ty_def len_def)
    have run: "sni_exts b on p e =
      (if p + 4 + len > e then Some None
       else if ty = 0 then sni_names b on (p + 4 + 2) (p + 4 + len)
       else sni_exts b on (p + 4 + len) e)"
      using True r by (subst sni_exts.simps) (simp add: Let_def)
    show ?thesis
    proof (cases "p + 4 + len > e \<or> ty = 0")
      case True
      then show ?thesis unfolding run using sni_names_ok [of "p + 4 + len" b on] 1(2) by auto
    next
      case False
      then show ?thesis unfolding run using 1(1) [OF True r refl] 1(2) by simp
    qed
  qed
qed

definition sni_good :: "nat \<Rightarrow> string option option \<Rightarrow> bool" where
  "sni_good on r \<longleftrightarrow> (\<exists>x. r = Some x \<and> (\<forall>h. x = Some h \<longrightarrow> host_ok h \<and> length h < on))"

lemma sni_good_intros:
  "sni_good on (Some None)"
  "(c \<Longrightarrow> sni_good on x) \<Longrightarrow> (\<not> c \<Longrightarrow> sni_good on y) \<Longrightarrow> sni_good on (if c then x else y)"
  "i < length b \<Longrightarrow> (\<And>v. sni_good on (f v)) \<Longrightarrow> sni_good on (rd8 b i \<bind> f)"
  "i + 1 < length b \<Longrightarrow> (\<And>v. sni_good on (f v)) \<Longrightarrow> sni_good on (rd16 b i \<bind> f)"
  by (simp_all add: sni_good_def rd_ok)

lemma tls_sni_safe: "sni_good on (tls_sni b on)"
proof -
  have e: "sni_good on (sni_exts b on p e)" if "e \<le> length b" for p e
    using sni_exts_ok [OF that] by (simp add: sni_good_def)
  show ?thesis
    unfolding tls_sni_def Let_def
    by (intro sni_good_intros e) (auto split: if_splits)
qed

text \<open>A ClientHello as a browser sends it.\<close>

definition enc_ext :: "nat \<times> u8 list \<Rightarrow> u8 list" where
  "enc_ext e = be16 (fst e) @ be16 (length (snd e)) @ snd e"

definition enc_exts :: "(nat \<times> u8 list) list \<Rightarrow> u8 list" where
  "enc_exts es = concat (map enc_ext es)"

definition sni_data :: "string \<Rightarrow> u8 list" where
  "sni_data host = be16 (length host + 3) @ [0] @ be16 (length host) @ map (\<lambda>c. of_nat (ccode c)) host"

definition hello_record :: "u8 list \<Rightarrow> u8 list \<Rightarrow> u8 list \<Rightarrow> u8 list \<Rightarrow> (nat \<times> u8 list) list \<Rightarrow> u8 list" where
  "hello_record rnd sid ciphers cmps es =
     (let body = [3, 3] @ rnd @ [of_nat (length sid)] @ sid @ be16 (length ciphers) @ ciphers @
            [of_nat (length cmps)] @ cmps @ be16 (length (enc_exts es)) @ enc_exts es;
          hs = [1, 0] @ be16 (length body) @ body
      in [0x16, 3, 1] @ be16 (length hs) @ hs)"

definition hello_ok :: "u8 list \<Rightarrow> u8 list \<Rightarrow> u8 list \<Rightarrow> u8 list \<Rightarrow> (nat \<times> u8 list) list \<Rightarrow> bool" where
  "hello_ok rnd sid ciphers cmps es \<longleftrightarrow> length rnd = 32 \<and> length sid < 256 \<and> length cmps < 256 \<and>
     length (hello_record rnd sid ciphers cmps es) < 65536"

definition plain_ext :: "nat \<times> u8 list \<Rightarrow> bool" where
  "plain_ext e \<longleftrightarrow> 0 < fst e \<and> fst e < 65536"

lemma host_ok_cstr: "host_ok h \<Longrightarrow> cstr_of h = h"
  by (auto simp: host_ok_def cstr_of_def host_char_def list_all_iff takeWhile_eq_all_conv)

lemma sni_names_at:
  assumes "host_ok h" and "length h < on" and "length h < 65536" and "q = length pre" and "qe = q + 3 + length h"
  shows "sni_names (pre @ [0] @ be16 (length h) @ map (\<lambda>c. of_nat (ccode c)) h @ r) on q qe = Some (Some h)"
proof -
  define b where "b = pre @ [0] @ be16 (length h) @ map (\<lambda>c. of_nat (ccode c)) h @ r"
  have "rd8 b q = Some 0" using rd8_at [of q pre 0] assms(4) by (simp add: b_def)
  moreover have "rd16 b (q + 1) = Some (length h)"
    using rd16_at [of "q + 1" "pre @ [0]" "length h"] assms by (simp add: b_def)
  moreover have "rd_chars b (q + 3) (length h) = Some h"
    using rd_chars_at [of "q + 3" "pre @ [0] @ be16 (length h)"] assms by (simp add: b_def)
  moreover have "h \<noteq> []" using assms(1) by (simp add: host_ok_def)
  ultimately have "sni_names b on q qe = Some (Some h)"
    using assms by (subst sni_names.simps) (simp add: host_ok_cstr)
  then show ?thesis by (simp add: b_def)
qed

lemma sni_exts_skip:
  assumes "plain_ext e" and "length (snd e) < 65536" and "p = length pre" and "p + length (enc_ext e) \<le> fin"
  shows "sni_exts (pre @ enc_ext e @ r) on p fin = sni_exts (pre @ enc_ext e @ r) on (p + length (enc_ext e)) fin"
proof -
  define b where "b = pre @ enc_ext e @ r"
  have "rd16 b p = Some (fst e)"
    using rd16_at [of p pre "fst e"] assms by (simp add: b_def enc_ext_def plain_ext_def)
  moreover have "rd16 b (p + 2) = Some (length (snd e))"
    using rd16_at [of "p + 2" "pre @ be16 (fst e)" "length (snd e)"] assms by (simp add: b_def enc_ext_def)
  moreover have "p + 4 \<le> fin" "p + 4 + length (snd e) \<le> fin" "fst e \<noteq> 0"
    using assms by (simp_all add: enc_ext_def plain_ext_def)
  ultimately have "sni_exts b on p fin = sni_exts b on (p + 4 + length (snd e)) fin"
    by (subst sni_exts.simps) (simp add: Let_def)
  moreover have "p + 4 + length (snd e) = p + length (enc_ext e)" by (simp add: enc_ext_def)
  ultimately have "sni_exts b on p fin = sni_exts b on (p + length (enc_ext e)) fin" by simp
  then show ?thesis by (simp add: b_def)
qed

lemma enc_exts_simps [simp]: "enc_exts [] = []" "enc_exts (e # es) = enc_ext e @ enc_exts es"
  "enc_exts (es @ es') = enc_exts es @ enc_exts es'"
  by (simp_all add: enc_exts_def)

lemma sni_exts_skip_all:
  assumes "list_all plain_ext es" and "length (enc_exts es) < 65536" and "length pre + length (enc_exts es) \<le> fin"
  shows "sni_exts (pre @ enc_exts es @ r) on (length pre) fin =
         sni_exts (pre @ enc_exts es @ r) on (length pre + length (enc_exts es)) fin"
  using assms
proof (induction es arbitrary: pre)
  case (Cons e es)
  have "length (snd e) < 65536" using Cons.prems(2) by (simp add: enc_ext_def)
  then have "sni_exts (pre @ enc_ext e @ (enc_exts es @ r)) on (length pre) fin =
    sni_exts (pre @ enc_ext e @ (enc_exts es @ r)) on (length pre + length (enc_ext e)) fin"
    by (intro sni_exts_skip) (use Cons.prems in auto)
  also have "\<dots> = sni_exts ((pre @ enc_ext e) @ enc_exts es @ r) on (length (pre @ enc_ext e)) fin" by simp
  also have "\<dots> = sni_exts ((pre @ enc_ext e) @ enc_exts es @ r) on (length (pre @ enc_ext e) + length (enc_exts es)) fin"
    by (rule Cons.IH) (use Cons.prems in auto)
  finally show ?case by (simp add: add.assoc)
qed simp

lemma sni_exts_found:
  assumes h: "host_ok h" "length h < on" and p: "p = length pre"
    and fin: "length pre + length (enc_ext (0, sni_data h)) \<le> fin" and len: "length h + 5 < 65536"
  shows "sni_exts (pre @ enc_ext (0, sni_data h) @ r) on p fin = Some (Some h)"
proof -
  define b where "b = pre @ enc_ext (0, sni_data h) @ r"
  have l: "length (sni_data h) = length h + 5" by (simp add: sni_data_def)
  have "rd16 b p = Some 0"
    using rd16_at [of p pre 0] p by (simp add: b_def enc_ext_def)
  moreover have "rd16 b (p + 2) = Some (length h + 5)"
    using rd16_at [of "p + 2" "pre @ be16 0" "length (sni_data h)"] p len by (simp add: b_def enc_ext_def l)
  moreover have "p + 4 \<le> fin" "p + 4 + (length h + 5) \<le> fin" using p fin l by (simp_all add: enc_ext_def)
  ultimately have "sni_exts b on p fin = sni_names b on (p + 4 + 2) (p + 4 + (length h + 5))"
    by (subst sni_exts.simps) (simp add: Let_def)
  also have b2: "b = (pre @ be16 0 @ be16 (length h + 5) @ be16 (length h + 3)) @ [0] @ be16 (length h) @
      map (\<lambda>c. of_nat (ccode c)) h @ r"
    by (simp add: b_def enc_ext_def l) (simp add: sni_data_def)
  also have "sni_names \<dots> on (p + 4 + 2) (p + 4 + (length h + 5)) = Some (Some h)"
    by (rule sni_names_at) (use h p len in auto)
  finally show ?thesis unfolding b2 [symmetric] unfolding b_def .
qed

lemma tls_sni_hello:
  assumes ok: "hello_ok rnd sid ciphers cmps (es @ (0, sni_data h) # es')"
    and es: "list_all plain_ext es" and h: "host_ok h" "length h < on"
  shows "tls_sni (hello_record rnd sid ciphers cmps (es @ (0, sni_data h) # es') @ rest) on = Some (Some h)"
proof -
  let ?es = "es @ (0, sni_data h) # es'"
  define X where "X = enc_exts ?es"
  define body where "body = [3, 3] @ rnd @ of_nat (length sid) # sid @ be16 (length ciphers) @ ciphers @
            of_nat (length cmps) # cmps @ be16 (length X) @ X"
  define b where "b = hello_record rnd sid ciphers cmps ?es @ rest"
  have len: "length rnd = 32" "length sid < 256" "length cmps < 256"
    using ok by (auto simp: hello_ok_def)
  have rec: "hello_record rnd sid ciphers cmps ?es = [0x16, 3, 1] @ be16 (4 + length body) @ [1, 0] @ be16 (length body) @ body"
    by (simp only: hello_record_def Let_def X_def [symmetric]) (simp add: body_def numeral_eq_Suc)
  have tot: "9 + length body < 65536" using ok by (simp add: hello_ok_def rec)
  have bl: "length body = 40 + length sid + length ciphers + length cmps + length X"
    using len by (simp add: body_def)
  define p1 where "p1 = [0x16, 3, 1] @ be16 (4 + length body) @ [1, 0] @ be16 (length body) @ [3, 3] @ rnd"
  define p2 where "p2 = p1 @ of_nat (length sid) # sid"
  define p3 where "p3 = p2 @ be16 (length ciphers) @ ciphers"
  define p4 where "p4 = p3 @ of_nat (length cmps) # cmps"
  define p5 where "p5 = p4 @ be16 (length X)"
  have l: "length p1 = 43" "length p2 = 44 + length sid" "length p3 = 46 + length sid + length ciphers"
    "length p4 = 47 + length sid + length ciphers + length cmps"
    "length p5 = 49 + length sid + length ciphers + length cmps"
    using len by (simp_all add: p1_def p2_def p3_def p4_def p5_def)
  have b5: "b = p5 @ X @ rest" by (simp add: b_def rec body_def p1_def p2_def p3_def p4_def p5_def)
  have r0: "rd8 b 0 = Some 0x16" by (simp add: b_def rec rd8_def)
  have r3: "rd16 b 3 = Some (4 + length body)"
    unfolding b_def rec using rd16_at [of 3 "[0x16, 3, 1]" "4 + length body"] tot by simp
  have r5: "rd8 b 5 = Some 1"
    unfolding b_def rec using rd8_at [of 5 "[0x16, 3, 1] @ be16 (4 + length body)" 1] by simp
  have s1: "rd8 b 43 = Some (length sid)"
    unfolding b5 p5_def p4_def p3_def p2_def using rd8_at [of 43 p1] l len by simp
  have s2: "rd16 b (44 + length sid) = Some (length ciphers)"
    unfolding b5 p5_def p4_def p3_def using rd16_at [of "44 + length sid" p2 "length ciphers"] l tot bl by simp
  have s3: "rd8 b (46 + length sid + length ciphers) = Some (length cmps)"
    unfolding b5 p5_def p4_def using rd8_at [of "46 + length sid + length ciphers" p3] l len by simp
  have s4: "rd16 b (47 + length sid + length ciphers + length cmps) = Some (length X)"
    unfolding b5 p5_def using rd16_at [of "47 + length sid + length ciphers + length cmps" p4 "length X"] l tot bl by simp
  have lb: "length b = 9 + length body + length rest" by (simp add: b_def rec)
  have pos: "5 + (4 + length body) = length p5 + length X" using bl l by simp
  have "tls_sni b on = sni_exts b on (length p5) (length p5 + length X)"
    using s1 s2 s3 s4 lb bl l
    by (simp add: tls_sni_def Let_def r0 r3 r5 ac_simps)
  also have "\<dots> = Some (Some h)"
  proof -
    have lh: "length h + 5 < 65536"
      using tot bl by (simp add: X_def enc_ext_def sni_data_def)
    have b6: "b = p5 @ enc_exts es @ (enc_ext (0, sni_data h) @ enc_exts es' @ rest)" by (simp add: b5 X_def)
    have "sni_exts b on (length p5) (length p5 + length X) =
      sni_exts b on (length p5 + length (enc_exts es)) (length p5 + length X)"
      unfolding b6 by (rule sni_exts_skip_all) (use es tot bl in \<open>simp_all add: X_def\<close>)
    also have "\<dots> = Some (Some h)"
      using sni_exts_found [OF h, of "length p5 + length (enc_exts es)" "p5 @ enc_exts es" "length p5 + length X"
        "enc_exts es' @ rest"] lh by (simp add: b6 X_def)
    finally show ?thesis .
  qed
  finally show ?thesis by (simp add: b_def)
qed

lemma find_crlf2_fields:
  "list_all field_ok fs \<Longrightarrow>
     find_crlf2 (enc_fields fs @ conn_tail) = Some (length (enc_fields fs @ conn_tail) - 4)"
proof (induction fs)
  case Nil
  have "find_crlf2 conn_tail = Some (length conn_tail - 4)" by (simp add: conn_tail_def)
  then show ?case by (simp add: enc_fields_def)
next
  case (Cons f fs)
  have 1: "length (enc_fields fs @ conn_tail) \<ge> 4" by (simp add: conn_tail_def)
  have "hd (enc_fields fs @ conn_tail) \<noteq> CHR 0x0D"
    using Cons.prems by (cases fs; cases "fst (hd fs)") (auto simp: enc_fields_def enc_field_def conn_tail_def field_ok_def)
  moreover have "enc_fields fs @ conn_tail \<noteq> []" by (simp add: conn_tail_def)
  moreover have "enc_fields (f # fs) @ conn_tail =
    (fst f @ CHR '':'' # snd f) @ CRLF @ (enc_fields fs @ conn_tail)" by (simp add: enc_fields_def enc_field_def)
  moreover have "CHR 0x0D \<notin> set (fst f @ CHR '':'' # snd f)" using Cons.prems by (auto simp: field_ok_def)
  ultimately have "find_crlf2 (enc_fields (f # fs) @ conn_tail) =
    map_option ((+) (length (fst f @ CHR '':'' # snd f) + 2)) (find_crlf2 (enc_fields fs @ conn_tail))"
    using find_crlf2_line by metis
  moreover have "find_crlf2 (enc_fields fs @ conn_tail) = Some (length (enc_fields fs @ conn_tail) - 4)"
    using Cons by simp
  moreover have "length (enc_fields (f # fs) @ conn_tail) = length (fst f @ CHR '':'' # snd f) + 2 + length (enc_fields fs @ conn_tail)"
    by (simp add: enc_fields_def enc_field_def)
  ultimately show ?case using 1 by simp
qed

section \<open>Properties\<close>

text \<open>C10: A well-formed request of the phone becomes the same request for a proxy, or is refused when
  it does not fit: an origin-form target gets \<open>http://\<close> and the host of the last usable Host
  field in front, or the original address when there is none; every other target and the
  request line stay as they are; the header fields follow in order without the
  connection-management ones, and the two that close the connection at the end.  The result
  holds exactly one request head: its first empty line is its last.\<close>

theorem http_rewrite_correct:
  assumes "request_ok m t v fs" and "CHR 0x0D \<notin> set ntoa"
  shows "let host = request_host ntoa hn fs; out = proxy_head host m t v fs
    in http_rewrite ntoa h0 (enc_head m t v fs) cap hn = (if length out \<le> cap then Some out else None, host) \<and>
       find_crlf2 out = Some (length out - 4)"
proof -
  define host where "host = request_host ntoa hn fs"
  define line where "line = m @ CHR '' '' # (if hd t = CHR ''/'' then ''http://'' @ host else []) @ t @ CHR '' '' # v"
  define r where "r = enc_fields (kept fs) @ conn_tail"
  have fields: "list_all field_ok (kept fs)" using assms(1) by (auto simp: request_ok_def kept_def list_all_iff)
  have "CHR 0x0D \<notin> set host"
    using assms(2) by (auto simp: host_def request_host_def host_ok_def list_all_iff host_char_def)
  then have "CHR 0x0D \<notin> set line" using assms(1) by (auto simp: line_def request_ok_def)
  moreover have "r \<noteq> []" by (simp add: r_def conn_tail_def)
  moreover have "hd r \<noteq> CHR 0x0D"
    using fields by (cases "kept fs"; cases "fst (hd (kept fs))")
      (auto simp: r_def enc_fields_def enc_field_def conn_tail_def field_ok_def)
  moreover have out: "proxy_head host m t v fs = line @ CRLF @ r" by (simp add: proxy_head_def line_def r_def)
  ultimately have "find_crlf2 (proxy_head host m t v fs) = map_option ((+) (length line + 2)) (find_crlf2 r)"
    using find_crlf2_line by metis
  moreover have "find_crlf2 r = Some (length r - 4)" unfolding r_def by (rule find_crlf2_fields [OF fields])
  moreover have "length r \<ge> 4" by (simp add: r_def conn_tail_def)
  ultimately have "find_crlf2 (proxy_head host m t v fs) = Some (length (proxy_head host m t v fs) - 4)"
    by (simp add: out)
  then show ?thesis using http_rewrite_request [OF assms(1)] by (simp add: Let_def host_def)
qed

definition demo_fields :: "(char list \<times> char list) list" where
  "demo_fields = [(''Host'', '' wap.example.org ''), (''Keep-Alive'', '' 300''), (''Accept'', '' */*'')]"

lemma demo_request: "request_ok ''GET'' ''/wml'' ''HTTP/1.1'' demo_fields"
  by (simp add: request_ok_def demo_fields_def field_ok_def)

lemma demo_host: "request_host ''10.0.0.1'' 80 demo_fields = ''wap.example.org''"
  by code_simp

theorem http_rewrite_correct_witness:
  "let out = proxy_head ''wap.example.org'' ''GET'' ''/wml'' ''HTTP/1.1'' demo_fields
    in http_rewrite ''10.0.0.1'' [] (enc_head ''GET'' ''/wml'' ''HTTP/1.1'' demo_fields) 2560 80 =
         (if length out \<le> 2560 then Some out else None, ''wap.example.org'') \<and>
       find_crlf2 out = Some (length out - 4)"
  using http_rewrite_correct [OF demo_request, of "''10.0.0.1''" 80 "[]" 2560] by (simp add: demo_host Let_def)

text \<open>The ClientHello parser reads nothing outside the buffer, whatever bytes the phone sends, and
  the name it returns is a legal host name that fits the caller's buffer with its NUL.\<close>

theorem tls_sni_memory_safe:
  "sni_good on (tls_sni b on)"
  by (rule tls_sni_safe)

text \<open>It finds the name: for a ClientHello in one record, with any random, session id, cipher suites
  and compression methods and any other extensions around it, the parser returns the host
  of the server_name extension.\<close>

theorem tls_sni_finds_host:
  assumes "hello_ok rnd sid ciphers cmps (es @ (0, sni_data h) # es')"
    and "list_all plain_ext es" and "host_ok h" and "length h < on"
  shows "tls_sni (hello_record rnd sid ciphers cmps (es @ (0, sni_data h) # es') @ rest) on = Some (Some h)"
  using assms by (rule tls_sni_hello)

theorem tls_sni_finds_host_witness:
  "tls_sni (hello_record (replicate 32 7) [1, 2] [0, 47] [0] ([(65281, [0])] @ (0, sni_data ''wap.example.org'') # [(35, [])]) @ [9]) 80
     = Some (Some ''wap.example.org'')"
  by (rule tls_sni_finds_host)
    (simp_all add: hello_ok_def hello_record_def sni_data_def enc_ext_def Let_def plain_ext_def host_ok_def host_char_def)

text \<open>C24: The ClientHello parser reads nothing outside the buffer, whatever bytes the phone sends, and
  the name it returns is a legal host name that fits the caller's buffer with its NUL; and for a ClientHello
  in one record, with any random, session id, cipher suites and compression methods and any other
  extensions around it, it returns the host of the server_name extension.\<close>

theorem tls_sni_correct:
  "sni_good on (tls_sni b on) \<and>
   (hello_ok rnd sid ciphers cmps (es @ (0, sni_data h) # es') \<and> list_all plain_ext es \<and> host_ok h \<and> length h < on \<longrightarrow>
      tls_sni (hello_record rnd sid ciphers cmps (es @ (0, sni_data h) # es') @ rest) on = Some (Some h))"
  using tls_sni_safe tls_sni_hello by blast

theorem tls_sni_correct_witness:
  "tls_sni (hello_record (replicate 32 7) [1, 2] [0, 47] [0] ([(65281, [0])] @ (0, sni_data ''example.org'') # [(35, [])]) @ [9]) 80
     = Some (Some ''example.org'')"
  by (rule tls_sni_correct [THEN conjunct2, THEN mp])
    (simp_all add: hello_ok_def hello_record_def sni_data_def enc_ext_def Let_def plain_ext_def host_ok_def host_char_def)

end
