(* ===== verification/ProxySettings.thy ===== *)
theory ProxySettings
  imports Nvs
begin

text \<open>
  The proxy settings of \<open>src/main/http_proxy.c\<close>: the values in RAM, their copy in the
  non-volatile store, and the table of known proxies.
\<close>

abbreviation (input) PROXY_HOST_MAX :: nat where "PROXY_HOST_MAX \<equiv> 64"

record px_cfg =
  px_on :: bool
  px_host :: string
  px_port :: u16
  px_ready :: bool

record proxy_preset =
  pp_name :: string
  pp_host :: string
  pp_port :: u16
  pp_note :: string

definition presets :: "proxy_preset list" where
  "presets = [
     \<lparr>pp_name = ''HTTP Pass'', pp_host = ''176.103.221.33'', pp_port = 3130, pp_note = ''suggested for most vintage phones''\<rparr>,
     \<lparr>pp_name = ''HTTP Lite'', pp_host = ''176.103.221.33'', pp_port = 3129, pp_note = ''low-memory phones, text output''\<rparr>,
     \<lparr>pp_name = ''HTTP Extra Lite'', pp_host = ''176.103.221.33'', pp_port = 3131, pp_note = ''very memory-limited phones, text output''\<rparr>,
     \<lparr>pp_name = ''HTTP WML'', pp_host = ''176.103.221.33'', pp_port = 3132, pp_note = ''phones without HTML support''\<rparr>,
     \<lparr>pp_name = ''HTTPS'', pp_host = ''176.103.221.33'', pp_port = 3128, pp_note = ''needs its root CA installed on the phone''\<rparr>,
     \<lparr>pp_name = ''HTTPS Legacy'', pp_host = ''176.103.221.33'', pp_port = 3127, pp_note = ''fallback for 3128, its own root CA''\<rparr>]"

definition proxy_preset_count :: int where
  "proxy_preset_count = int (length presets)"

definition proxy_preset_get :: "int \<Rightarrow> proxy_preset option" where
  "proxy_preset_get i = (if i \<ge> 0 \<and> i < proxy_preset_count then Some (presets ! nat i) else None)"

definition proxy_get :: "px_cfg \<Rightarrow> nat \<Rightarrow> bool \<times> string \<times> u16" where
  "proxy_get c host_len = (px_on c, strlcpy (px_host c) host_len, px_port c)"

definition cfg_apply :: "bool \<Rightarrow> string \<Rightarrow> u16 \<Rightarrow> px_cfg" where
  "cfg_apply on host port =
     (let h = strlcpy host PROXY_HOST_MAX
      in \<lparr>px_on = on, px_host = h, px_port = port, px_ready = (on \<and> h \<noteq> [] \<and> port \<noteq> 0)\<rparr>)"

definition proxy_set :: "bool \<Rightarrow> string \<Rightarrow> u16 \<Rightarrow> ('i, 'b) nvs_dev \<Rightarrow> px_cfg \<times> ('i, 'b) nvs_dev" where
  "proxy_set on host port d =
     (cfg_apply on host port,
      (if nvs_open d True = ESP_OK then
         let d = snd (nvs_set_u8 d ''px_on'' (if on then 1 else 0));
             d = snd (nvs_set_str d ''px_host'' host);
             d = snd (nvs_set_u16 d ''px_port'' port)
         in snd (nvs_commit d)
       else d))"

definition settings_load :: "('i, 'b) nvs_dev \<Rightarrow> px_cfg" where
  "settings_load d =
     (let (on, host, port) =
        (if nvs_open d False = ESP_OK then
           ((case nvs_get_u8 d ''px_on'' of Some v \<Rightarrow> v | None \<Rightarrow> 0),
            (case nvs_get_str d ''px_host'' PROXY_HOST_MAX of Some h \<Rightarrow> h | None \<Rightarrow> []),
            (case nvs_get_u16 d ''px_port'' of Some p \<Rightarrow> p | None \<Rightarrow> 0))
         else (0, [], 0))
      in cfg_apply (on \<noteq> 0) host port)"

text \<open>The relay task switches the proxy off when its listeners cannot be made.\<close>

definition relay_unavailable :: "px_cfg \<Rightarrow> px_cfg" where
  "relay_unavailable c = c\<lparr>px_ready := False, px_on := False\<rparr>"

text \<open>The proxy is ready exactly when it is on and has an address, in every state the three
  operations leave.\<close>

definition cfg_ok :: "px_cfg \<Rightarrow> bool" where
  "cfg_ok c \<longleftrightarrow> length (px_host c) < PROXY_HOST_MAX \<and> (px_ready c \<longleftrightarrow> px_on c \<and> px_host c \<noteq> [] \<and> px_port c \<noteq> 0)"

lemma cfg_apply_ok: "cfg_ok (cfg_apply on host port)"
  by (simp add: cfg_apply_def cfg_ok_def Let_def length_strlcpy)

lemma relay_unavailable_ok: "cfg_ok c \<Longrightarrow> cfg_ok (relay_unavailable c)"
  by (simp add: relay_unavailable_def cfg_ok_def)

lemma settings_load_ok: "cfg_ok (settings_load d)"
  by (simp add: settings_load_def cfg_apply_ok split: prod.splits)

lemma preset_get_iff: "(\<exists>p. proxy_preset_get i = Some p) \<longleftrightarrow> 0 \<le> i \<and> i < 6"
  by (auto simp: proxy_preset_get_def proxy_preset_count_def presets_def)

text \<open>All writes succeed, for the states a save goes through.\<close>

definition save_ok :: "bool \<Rightarrow> string \<Rightarrow> u16 \<Rightarrow> ('i, 'b) nvs_dev \<Rightarrow> bool" where
  "save_ok on host port d =
     (nvs_open d True = ESP_OK \<and>
      (let r1 = nvs_set_u8 d ''px_on'' (if on then 1 else 0);
           r2 = nvs_set_str (snd r1) ''px_host'' host;
           r3 = nvs_set_u16 (snd r2) ''px_port'' port
       in fst r1 = ESP_OK \<and> fst r2 = ESP_OK \<and> fst r3 = ESP_OK))"

abbreviation px_keys :: "string set" where
  "px_keys \<equiv> {''px_on'', ''px_host'', ''px_port''}"

lemma proxy_set_frame: "dev_ok d \<Longrightarrow> dev_same px_keys d (snd (proxy_set on host port d))"
  by (simp add: proxy_set_def Let_def nvs_step_same)

lemma settings_load_frame:
  assumes "dev_same K d d'" and "K \<inter> px_keys = {}" and "nvs_open d' False = nvs_open d False"
  shows "settings_load d' = settings_load d"
proof -
  have k: "''px_on'' \<notin> K" "''px_host'' \<notin> K" "''px_port'' \<notin> K" using assms(2) by auto
  show ?thesis
    using assms(3) dev_same_get [OF assms(1) k(1)] dev_same_get [OF assms(1) k(2)] dev_same_get [OF assms(1) k(3)]
    by (simp add: settings_load_def)
qed

lemma settings_load_set:
  assumes "dev_ok d" and "length host < PROXY_HOST_MAX" and "save_ok on host port d"
    and "nvs_open (snd (proxy_set on host port d)) False = ESP_OK"
  shows "settings_load (snd (proxy_set on host port d)) = fst (proxy_set on host port d)"
proof -
  define r1 where "r1 = nvs_set_u8 d ''px_on'' (if on then 1 else 0)"
  define r2 where "r2 = nvs_set_str (snd r1) ''px_host'' host"
  define r3 where "r3 = nvs_set_u16 (snd r2) ''px_port'' port"
  define d' where "d' = snd (nvs_commit (snd r3))"
  have w: "fst r1 = ESP_OK" "fst r2 = ESP_OK" "fst r3 = ESP_OK" "nvs_open d True = ESP_OK"
    using assms(3) by (simp_all add: save_ok_def Let_def r1_def r2_def r3_def)
  have set: "proxy_set on host port d = (cfg_apply on host port, d')"
    using w by (simp add: proxy_set_def Let_def r1_def r2_def r3_def d'_def)
  have s1: "dev_same {''px_on''} d (snd r1)" using nvs_writes_same(2) [OF assms(1)] by (simp add: r1_def)
  then have ok1: "dev_ok (snd r1)" using assms(1) by (simp add: dev_same_ok)
  have s2: "dev_same {''px_host''} (snd r1) (snd r2)" using nvs_writes_same(1) [OF ok1] by (simp add: r2_def)
  then have ok2: "dev_ok (snd r2)" using ok1 by (simp add: dev_same_ok)
  have s3: "dev_same {''px_port''} (snd r2) (snd r3)" using nvs_writes_same(3) [OF ok2] by (simp add: r3_def)
  then have ok3: "dev_ok (snd r3)" using ok2 by (simp add: dev_same_ok)
  have s4: "dev_same {} (snd r3) d'" using nvs_writes_same(6) [OF ok3] by (simp add: d'_def)
  have "nvs_get_u8 (snd r1) ''px_on'' = Some (if on then 1 else 0)"
    by (rule nvs_get_set(2) [OF assms(1)]) (metis r1_def w(1) prod.collapse)
  then have on: "nvs_get_u8 d' ''px_on'' = Some (if on then 1 else 0)"
    using dev_same_get(2) [OF s2] dev_same_get(2) [OF s3] dev_same_get(2) [OF s4] by simp
  have "nvs_get_str (snd r2) ''px_host'' PROXY_HOST_MAX = Some host"
    using nvs_get_set(1) [OF ok1, where k = "''px_host''" and v = host and d' = "snd r2" and n = PROXY_HOST_MAX]
      assms(2) w(2) by (metis r2_def prod.collapse)
  then have host: "nvs_get_str d' ''px_host'' PROXY_HOST_MAX = Some host"
    using dev_same_get(1) [OF s3] dev_same_get(1) [OF s4] by simp
  have "nvs_get_u16 (snd r3) ''px_port'' = Some port"
    by (rule nvs_get_set(3) [OF ok2]) (metis r3_def w(3) prod.collapse)
  then have port: "nvs_get_u16 d' ''px_port'' = Some port"
    using dev_same_get(3) [OF s4] by simp
  show ?thesis
    using assms(4) by (simp add: set settings_load_def on host port)
qed

interpretation pxset: nvs_setting px_keys "\<lambda>(on, host, port). length host < PROXY_HOST_MAX"
  "\<lambda>(on, host, port). save_ok on host port" "\<lambda>(on, host, port). proxy_set on host port" settings_load
  by unfold_locales (auto simp: proxy_set_frame settings_load_frame settings_load_set split: prod.splits)

text \<open>What the settings page saved is what the bridge starts with after a restart, whatever else was
  written to flash in between: for a host that fits its buffer, when the writes succeed,
  loading gives the configuration that saving put into RAM, and it is ready exactly when it is
  on and complete.\<close>

theorem proxy_settings_persist:
  assumes "dev_ok d" and "length host < PROXY_HOST_MAX" and "save_ok on host port d"
    and "nvs_open (snd (proxy_set on host port d)) False = ESP_OK"
    and "dev_same K (snd (proxy_set on host port d)) d'" and "K \<inter> px_keys = {}" and "nvs_open d' False = ESP_OK"
  shows "settings_load d' = fst (proxy_set on host port d) \<and>
         proxy_get (settings_load d') PROXY_HOST_MAX = (on, host, port) \<and>
         px_ready (settings_load d') = (on \<and> host \<noteq> [] \<and> port \<noteq> 0)"
proof -
  have "settings_load d' = fst (proxy_set on host port d)"
    using pxset.survives [of d "(on, host, port)" K d'] assms by simp
  then show ?thesis
    using assms(2) by (simp add: proxy_set_def proxy_get_def cfg_apply_def strlcpy_fits)
qed

definition px_dev :: "(string \<rightharpoonup> unit nvs_val, unit) nvs_dev" where
  "px_dev = \<lparr>dev_ops = map_ops, dev_img = Map.empty\<rparr>"

lemma px_dev_set: "proxy_set True ''10.1.1.1'' 3130 px_dev = (cfg_apply True ''10.1.1.1'' 3130,
    \<lparr>dev_ops = map_ops, dev_img = [''px_on'' \<mapsto> VU8 1, ''px_host'' \<mapsto> VStr ''10.1.1.1'', ''px_port'' \<mapsto> VU16 3130]\<rparr>)"
  "save_ok True ''10.1.1.1'' 3130 px_dev"
  by (simp_all add: proxy_set_def px_dev_def save_ok_def)

theorem proxy_settings_persist_witness:
  "settings_load (snd (proxy_set True ''10.1.1.1'' 3130 px_dev)) = fst (proxy_set True ''10.1.1.1'' 3130 px_dev) \<and>
   proxy_get (settings_load (snd (proxy_set True ''10.1.1.1'' 3130 px_dev))) PROXY_HOST_MAX = (True, ''10.1.1.1'', 3130) \<and>
   px_ready (settings_load (snd (proxy_set True ''10.1.1.1'' 3130 px_dev))) = (True \<and> ''10.1.1.1'' \<noteq> [] \<and> (3130 :: u16) \<noteq> 0)"
  by (rule proxy_settings_persist [where K = "{}"]) (simp_all add: px_dev_set, simp_all add: px_dev_def)

text \<open>When the relay listeners could not be made the task switches the proxy off, but nothing keeps
  it off: the next save from the settings page makes it ready again although no relay
  listens, so the input hook goes back to redirecting connections.\<close>

lemma proxy_set_revives_dead_relay:
  "px_ready (relay_unavailable c) = False \<and>
   px_ready (fst (proxy_set True (CHR ''h'' # host) 3130 d)) = True"
  by (simp add: relay_unavailable_def proxy_set_def cfg_apply_def strlcpy_def Let_def)

end
