(* ===== verification/ProxySession.thy ===== *)
theory ProxySession
  imports ProxyFlow ProxyParse ProxySettings
begin

text \<open>
  The relay task of the proxy, \<open>src/main/http_proxy.c\<close>: the sessions, their states, and one
  round of the task's loop.

  The state \<open>relay\<close> holds the four session slots, the counter, the flow table it shares with
  the packet hooks, the settings and the resolved proxy address.  What the sockets, the
  resolver, the clock and the heap answer in a round is a parameter \<open>io\<close>; what the task does to
  the sockets is appended to \<open>r_trace\<close>.  A session's buffer is the list of its valid bytes, so
  \<open>up_len\<close> is the length of \<open>s_up\<close>.
\<close>

abbreviation (input) SESS_MAX :: nat where "SESS_MAX \<equiv> 4"
abbreviation (input) UP_SZ :: nat where "UP_SZ \<equiv> 2048"
abbreviation (input) UP_CAP :: nat where "UP_CAP \<equiv> 2560"
abbreviation (input) DOWN_SZ :: nat where "DOWN_SZ \<equiv> 1536"
abbreviation (input) SETUP_MS :: u32 where "SETUP_MS \<equiv> 10000"
abbreviation (input) MIN_FREE_HEAP :: nat where "MIN_FREE_HEAP \<equiv> 20480"

datatype sess_state = S_HEAD | S_CONNECTING | S_REPLY | S_SPLICE

record sess =
  s_used :: bool
  s_tls :: bool
  s_st :: sess_state
  s_ph :: int
  s_px :: int
  s_phone_port :: u16
  s_orig_ip :: u32
  s_up :: "u8 list"
  s_up_off :: nat
  s_down :: "u8 list"
  s_down_off :: nat
  s_ph_eof :: bool
  s_px_eof :: bool
  s_px_shut :: bool
  s_deadline :: u32
  s_host :: string

definition sess_zero :: sess where
  "sess_zero = \<lparr>s_used = False, s_tls = False, s_st = S_HEAD, s_ph = -1, s_px = -1, s_phone_port = 0,
     s_orig_ip = 0, s_up = [], s_up_off = 0, s_down = [], s_down_off = 0, s_ph_eof = False,
     s_px_eof = False, s_px_shut = False, s_deadline = 0, s_host = []\<rparr>"

datatype sock_ev = EvRecv int "u8 list" | EvSend int "u8 list" | EvShutdown int | EvClose int

record relay =
  r_sess :: "sess list"
  r_active :: int
  r_flows :: "flow list"
  r_cfg :: px_cfg
  r_resolved_host :: string
  r_resolved_addr :: u32
  r_resolved_valid :: bool
  r_trace :: "sock_ev list"

text \<open>The answers of a round.  A call that returns 0 from \<open>recv\<close> is the end of the stream; the
  errno values \<open>would_block\<close> accepts are \<open>RecvAgain\<close> and \<open>SendAgain\<close>.\<close>

datatype recv_res = RecvData "u8 list" | RecvEof | RecvAgain | RecvErr
datatype send_res = SendN nat | SendAgain | SendErr
datatype conn_res = ConnOk | ConnInProgress | ConnErr

record io =
  io_now :: u32                      \<comment> \<open>\<open>now\<close>, taken after \<open>select\<close>\<close>
  io_clk :: u32                      \<comment> \<open>\<open>now_ms()\<close> in \<open>flow_mark_closed\<close>\<close>
  io_select :: int                   \<comment> \<open>the result of \<open>select\<close>\<close>
  io_rd :: "int \<Rightarrow> bool"              \<comment> \<open>\<open>FD_ISSET(fd, rd)\<close>\<close>
  io_wr :: "int \<Rightarrow> bool"
  io_recv :: "int \<Rightarrow> nat \<Rightarrow> recv_res"
  io_send :: "int \<Rightarrow> u8 list \<Rightarrow> send_res"
  io_so_error :: "int \<Rightarrow> int"
  io_pton :: "string \<Rightarrow> u32 option"   \<comment> \<open>\<open>inet_pton\<close>\<close>
  io_dns :: "string \<Rightarrow> u32 option"    \<comment> \<open>\<open>getaddrinfo\<close>\<close>
  io_ntoa :: "u32 \<Rightarrow> string"          \<comment> \<open>\<open>ip4addr_ntoa_r\<close>\<close>
  io_socket :: "nat \<Rightarrow> int"           \<comment> \<open>the socket made for the session in a slot\<close>
  io_connect :: "int \<Rightarrow> u32 \<Rightarrow> u16 \<Rightarrow> conn_res"
  io_malloc :: "nat \<Rightarrow> bool"
  io_heap :: nat
  io_accept :: "int \<Rightarrow> (int \<times> u32 \<times> u16) option"   \<comment> \<open>socket, peer address and port\<close>

definition io_ok :: "io \<Rightarrow> bool" where
  "io_ok io \<longleftrightarrow>
     (\<forall>fd n d. io_recv io fd n = RecvData d \<longrightarrow> 0 < length d \<and> length d \<le> n) \<and>
     (\<forall>fd d n. io_send io fd d = SendN n \<longrightarrow> n \<le> length d) \<and>
     (\<forall>a. length (io_ntoa io a) < 16) \<and>
     (\<forall>l fd a p. io_accept io l = Some (fd, a, p) \<longrightarrow> 0 \<le> fd)"

abbreviation getS :: "nat \<Rightarrow> relay \<Rightarrow> sess" where
  "getS i r \<equiv> r_sess r ! i"

definition putS :: "nat \<Rightarrow> sess \<Rightarrow> relay \<Rightarrow> relay" where
  "putS i s r = r\<lparr>r_sess := (r_sess r)[i := s]\<rparr>"

definition emit :: "sock_ev list \<Rightarrow> relay \<Rightarrow> relay" where
  "emit e r = r\<lparr>r_trace := r_trace r @ e\<rparr>"

definition to_chars :: "u8 list \<Rightarrow> char list" where
  "to_chars b = map (\<lambda>x. char_of (unat x)) b"

definition to_bytes :: "char list \<Rightarrow> u8 list" where
  "to_bytes s = map (\<lambda>c. of_nat (ccode c)) s"

section \<open>Closing and connecting\<close>

definition sess_close :: "io \<Rightarrow> nat \<Rightarrow> relay \<Rightarrow> relay" where
  "sess_close io i r =
     (let s = getS i r;
          r = (if s_ph s \<ge> 0 then emit [EvClose (s_ph s)] r else r);
          r = (if s_px s \<ge> 0 then emit [EvClose (s_px s)] r else r);
          r = r\<lparr>r_flows := flow_mark_closed (s_phone_port s) (io_clk io) (r_flows r)\<rparr>
      in (putS i sess_zero r)\<lparr>r_active := r_active r - 1\<rparr>)"

definition sess_fail :: "io \<Rightarrow> nat \<Rightarrow> relay \<Rightarrow> relay" where
  "sess_fail io i r = sess_close io i r"

definition proxy_addr :: "io \<Rightarrow> relay \<Rightarrow> (u32 \<times> u16) option \<times> relay" where
  "proxy_addr io r =
     (let (on, host, port) = proxy_get (r_cfg r) PROXY_HOST_MAX in
      if host = [] \<or> port = 0 then (None, r) else
      (case io_pton io host of Some a \<Rightarrow> (Some (a, port), r) | None \<Rightarrow>
       if r_resolved_valid r \<and> r_resolved_host r = host then (Some (r_resolved_addr r, port), r) else
       (case io_dns io host of None \<Rightarrow> (None, r) | Some a \<Rightarrow>
        (Some (a, port), r\<lparr>r_resolved_addr := a, r_resolved_host := strlcpy host PROXY_HOST_MAX,
                           r_resolved_valid := True\<rparr>))))"

definition connect_req :: "string \<Rightarrow> string" where
  "connect_req host = ''CONNECT '' @ host @ '':443 HTTP/1.1'' @ CRLF @ ''Host: '' @ host @ '':443'' @ CRLF @ CRLF"

definition on_connected :: "io \<Rightarrow> nat \<Rightarrow> relay \<Rightarrow> relay" where
  "on_connected io i r =
     (let s = getS i r in
      if s_tls s then
        (let req = to_bytes (connect_req (s_host s)) in
         if length req = 0 \<or> length req \<ge> 200 then sess_fail io i r
         else (case io_send io (s_px s) req of
                 SendN n \<Rightarrow>
                   (let r = emit [EvSend (s_px s) (take n req)] r in
                    if n \<noteq> length req then sess_fail io i r
                    else putS i (s\<lparr>s_st := S_REPLY, s_down := [], s_deadline := io_now io + SETUP_MS\<rparr>) r)
               | _ \<Rightarrow> sess_fail io i r))
      else putS i (s\<lparr>s_st := S_SPLICE, s_up_off := 0, s_deadline := io_now io + IDLE_MS\<rparr>) r)"

definition start_connect :: "io \<Rightarrow> nat \<Rightarrow> relay \<Rightarrow> relay" where
  "start_connect io i r =
     (case proxy_addr io r of (None, r) \<Rightarrow> sess_fail io i r | (Some (a, port), r) \<Rightarrow>
      let fd = io_socket io i;
          r = putS i ((getS i r)\<lparr>s_px := fd\<rparr>) r in
      if fd < 0 then sess_fail io i r
      else (case io_connect io fd a port of
              ConnOk \<Rightarrow> on_connected io i r
            | ConnInProgress \<Rightarrow>
                putS i ((getS i r)\<lparr>s_st := S_CONNECTING, s_deadline := io_now io + SETUP_MS\<rparr>) r
            | ConnErr \<Rightarrow> sess_fail io i (r\<lparr>r_resolved_valid := False\<rparr>)))"

section \<open>Reading the head and the reply\<close>

definition head_ready :: "io \<Rightarrow> nat \<Rightarrow> relay \<Rightarrow> relay" where
  "head_ready io i r =
     (let s = getS i r; up = s_up s in
      if s_tls s then
        (if length up < 5 then r
         else let rec = 5 + (256 * unat (up ! 3) + unat (up ! 4)) in
         if up ! 0 = 0x16 \<and> length up < rec \<and> length up < UP_SZ then r
         else let host = (case tls_sni up 80 of Some (Some h) \<Rightarrow> h | _ \<Rightarrow> io_ntoa io (s_orig_ip s))
              in start_connect io i (putS i (s\<lparr>s_host := host\<rparr>) r))
      else
        (case find_crlf2 (to_chars up) of
           None \<Rightarrow> if length up \<ge> UP_SZ then sess_fail io i r else r
         | Some e \<Rightarrow>
             let head = e + 4; body = length up - head in
             if \<not> io_malloc io UP_CAP then sess_fail io i r
             else (case http_rewrite (io_ntoa io (s_orig_ip s)) (s_host s) (take head (to_chars up)) (UP_CAP - body) 80 of
                     (None, host) \<Rightarrow> sess_fail io i (putS i (s\<lparr>s_host := host\<rparr>) r)
                   | (Some out, host) \<Rightarrow>
                       start_connect io i (putS i (s\<lparr>s_host := host, s_up := to_bytes out @ drop head up\<rparr>) r))))"

definition reply_ready :: "io \<Rightarrow> nat \<Rightarrow> relay \<Rightarrow> relay" where
  "reply_ready io i r =
     (let s = getS i r; d = to_chars (s_down s) in
      case find_crlf2 d of
        None \<Rightarrow> if length (s_down s) \<ge> DOWN_SZ - 1 then sess_fail io i r else r
      | Some e \<Rightarrow>
          if \<not> starts_with d ''HTTP/1.'' \<or> length d < 12 \<or> d ! 9 \<noteq> CHR ''2'' then sess_close io i r
          else putS i (s\<lparr>s_down := drop (e + 4) (s_down s), s_down_off := 0, s_up_off := 0,
                        s_st := S_SPLICE, s_deadline := io_now io + IDLE_MS\<rparr>) r)"

section \<open>Copying both ways\<close>

text \<open>The two halves of \<open>splice\<close>, each with the session, whether bytes moved, and the events.
  None is a hard error, which closes the session.\<close>

definition splice_up :: "io \<Rightarrow> sess \<Rightarrow> (sess \<times> bool \<times> sock_ev list) option" where
  "splice_up io s =
     (if s_up_off s < length (s_up s) \<and> io_wr io (s_px s) then
        (case io_send io (s_px s) (drop (s_up_off s) (s_up s)) of
           SendErr \<Rightarrow> None
         | SendAgain \<Rightarrow> Some (s, False, [])
         | SendN n \<Rightarrow>
             let s' = (if n > 0 then s\<lparr>s_up_off := s_up_off s + n\<rparr> else s);
                 s' = (if s_up_off s' = length (s_up s') then s'\<lparr>s_up := [], s_up_off := 0\<rparr> else s')
             in Some (s', n > 0, [EvSend (s_px s) (take n (drop (s_up_off s) (s_up s)))]))
      else if s_up s = [] \<and> \<not> s_ph_eof s \<and> io_rd io (s_ph s) then
        (case io_recv io (s_ph s) UP_SZ of
           RecvErr \<Rightarrow> None
         | RecvAgain \<Rightarrow> Some (s, False, [])
         | RecvEof \<Rightarrow> Some (s\<lparr>s_ph_eof := True\<rparr>, False, [])
         | RecvData d \<Rightarrow> Some (s\<lparr>s_up := d, s_up_off := 0\<rparr>, True, [EvRecv (s_ph s) d]))
      else Some (s, False, []))"

definition splice_down :: "io \<Rightarrow> sess \<Rightarrow> (sess \<times> bool \<times> sock_ev list) option" where
  "splice_down io s =
     (if s_down_off s < length (s_down s) \<and> io_wr io (s_ph s) then
        (case io_send io (s_ph s) (drop (s_down_off s) (s_down s)) of
           SendErr \<Rightarrow> None
         | SendAgain \<Rightarrow> Some (s, False, [])
         | SendN n \<Rightarrow>
             let s' = (if n > 0 then s\<lparr>s_down_off := s_down_off s + n\<rparr> else s);
                 s' = (if s_down_off s' = length (s_down s') then s'\<lparr>s_down := [], s_down_off := 0\<rparr> else s')
             in Some (s', n > 0, [EvSend (s_ph s) (take n (drop (s_down_off s) (s_down s)))]))
      else if s_down s = [] \<and> \<not> s_px_eof s \<and> io_rd io (s_px s) then
        (case io_recv io (s_px s) DOWN_SZ of
           RecvErr \<Rightarrow> None
         | RecvAgain \<Rightarrow> Some (s, False, [])
         | RecvEof \<Rightarrow> Some (s\<lparr>s_px_eof := True\<rparr>, False, [])
         | RecvData d \<Rightarrow> Some (s\<lparr>s_down := d, s_down_off := 0\<rparr>, True, [EvRecv (s_px s) d]))
      else Some (s, False, []))"

definition splice_sess :: "io \<Rightarrow> nat \<Rightarrow> relay \<Rightarrow> relay" where
  "splice_sess io i r =
     (case splice_up io (getS i r) of None \<Rightarrow> sess_close io i r | Some (s, moved, e) \<Rightarrow>
      let r = putS i s (emit e r) in
      (case splice_down io s of None \<Rightarrow> sess_close io i r | Some (s, moved', e) \<Rightarrow>
       let r = emit e r;
           (s, r) = (if s_ph_eof s \<and> s_up s = [] \<and> \<not> s_px_shut s
                     then (s\<lparr>s_px_shut := True\<rparr>, emit [EvShutdown (s_px s)] r) else (s, r));
           r = putS i s r in
       if s_px_eof s \<and> s_down s = [] then sess_close io i r
       else if moved \<or> moved' then putS i (s\<lparr>s_deadline := io_now io + IDLE_MS\<rparr>) r
       else r))"

section \<open>The loop\<close>

definition sess_service :: "io \<Rightarrow> nat \<Rightarrow> relay \<Rightarrow> relay" where
  "sess_service io i r =
     (let s = getS i r in
      case s_st s of
        S_HEAD \<Rightarrow>
          if io_rd io (s_ph s) then
            (case io_recv io (s_ph s) (UP_SZ - length (s_up s)) of
               RecvData d \<Rightarrow>
                 head_ready io i (putS i (s\<lparr>s_up := s_up s @ d\<rparr>) (emit [EvRecv (s_ph s) d] r))
             | RecvAgain \<Rightarrow> r
             | _ \<Rightarrow> sess_close io i r)
          else r
      | S_CONNECTING \<Rightarrow>
          if io_wr io (s_px s) then
            (if io_so_error io (s_px s) \<noteq> 0 then sess_fail io i (r\<lparr>r_resolved_valid := False\<rparr>)
             else on_connected io i r)
          else r
      | S_REPLY \<Rightarrow>
          if io_rd io (s_px s) then
            (case io_recv io (s_px s) (DOWN_SZ - 1 - length (s_down s)) of
               RecvData d \<Rightarrow>
                 reply_ready io i (putS i (s\<lparr>s_down := s_down s @ d\<rparr>) (emit [EvRecv (s_px s) d] r))
             | RecvAgain \<Rightarrow> r
             | _ \<Rightarrow> sess_fail io i r)
          else r
      | S_SPLICE \<Rightarrow> splice_sess io i r)"

text \<open>What \<open>sess_fds\<close> asks \<open>select\<close> to watch: the sockets to read and those to write.\<close>

definition sess_fds :: "sess \<Rightarrow> int list \<times> int list" where
  "sess_fds s =
     (case s_st s of
        S_HEAD \<Rightarrow> ([s_ph s], [])
      | S_CONNECTING \<Rightarrow> ([], [s_px s])
      | S_REPLY \<Rightarrow> ([s_px s], [])
      | S_SPLICE \<Rightarrow>
          let (rd, wr) = (if s_up_off s < length (s_up s) then ([], [s_px s])
                          else if \<not> s_ph_eof s then ([s_ph s], []) else ([], []))
          in (if s_down_off s < length (s_down s) then (rd, wr @ [s_ph s])
              else if \<not> s_px_eof s then (rd @ [s_px s], wr) else (rd, wr)))"

fun free_slot :: "nat \<Rightarrow> sess list \<Rightarrow> nat option" where
  "free_slot i [] = None"
| "free_slot i (s # ss) = (if \<not> s_used s then Some i else free_slot (Suc i) ss)"

definition do_accept :: "io \<Rightarrow> int \<Rightarrow> bool \<Rightarrow> relay \<Rightarrow> relay" where
  "do_accept io lsock tls r =
     (case io_accept io lsock of None \<Rightarrow> r | Some (c, peer, pport) \<Rightarrow>
      (case (if peer \<noteq> PHONE_ADDR_N then None
             else flow_lookup (r_flows r) pport (if tls then RELAY_TLS_PORT else RELAY_HTTP_PORT)) of
         None \<Rightarrow> emit [EvClose c] r
       | Some (orig_ip, orig_port) \<Rightarrow>
           (case free_slot 0 (r_sess r) of
              Some i \<Rightarrow>
                if io_malloc io (UP_CAP + DOWN_SZ + 1) then
                  (putS i (sess_zero\<lparr>s_used := True, s_tls := tls, s_st := S_HEAD, s_ph := c, s_px := -1,
                      s_phone_port := pport, s_orig_ip := orig_ip, s_deadline := io_now io + SETUP_MS,
                      s_host := io_ntoa io orig_ip\<rparr>) r)\<lparr>r_active := r_active r + 1\<rparr>
                else (emit [EvClose c] r)\<lparr>r_flows := flow_mark_closed pport (io_clk io) (r_flows r)\<rparr>
            | None \<Rightarrow> (emit [EvClose c] r)\<lparr>r_flows := flow_mark_closed pport (io_clk io) (r_flows r)\<rparr>)))"

fun service_all :: "io \<Rightarrow> nat list \<Rightarrow> relay \<Rightarrow> relay" where
  "service_all io [] r = r"
| "service_all io (i # is) r = service_all io is (if s_used (getS i r) then sess_service io i r else r)"

text \<open>\<open>(int32_t)(now - s->deadline) > 0\<close>\<close>

definition past :: "u32 \<Rightarrow> u32 \<Rightarrow> bool" where
  "past now deadline \<longleftrightarrow> 0 < sint (now - deadline)"

fun expire_all :: "io \<Rightarrow> nat list \<Rightarrow> relay \<Rightarrow> relay" where
  "expire_all io [] r = r"
| "expire_all io (i # is) r =
     expire_all io is (if s_used (getS i r) \<and> past (io_now io) (s_deadline (getS i r))
                       then (if s_st (getS i r) = S_SPLICE then sess_close io i r else sess_fail io i r) else r)"

definition relay_room :: "io \<Rightarrow> relay \<Rightarrow> bool" where
  "relay_room io r \<longleftrightarrow> (\<exists>s\<in>set (r_sess r). \<not> s_used s) \<and> \<not> io_heap io < MIN_FREE_HEAP"

definition relay_round :: "int \<Rightarrow> int \<Rightarrow> io \<Rightarrow> relay \<Rightarrow> relay" where
  "relay_round lh lt io r =
     (let room = relay_room io r in
      if io_select io < 0 then r else
      let r = (if io_select io > 0 then
                 (let r = service_all io [0..<SESS_MAX] r;
                      r = (if room \<and> io_rd io lh then do_accept io lh False r else r);
                      r = (if room \<and> io_rd io lt then do_accept io lt True r else r)
                  in r)
               else r)
      in expire_all io [0..<SESS_MAX] r)"

definition relay_start :: "flow list \<Rightarrow> px_cfg \<Rightarrow> relay" where
  "relay_start fs cfg = \<lparr>r_sess = replicate SESS_MAX sess_zero, r_active = 0, r_flows = fs, r_cfg = cfg,
     r_resolved_host = [], r_resolved_addr = 0, r_resolved_valid = False, r_trace = []\<rparr>"

text \<open>A listening socket: what \<open>socket\<close>, \<open>bind\<close> and \<open>listen\<close> answer.\<close>

record listen_io =
  li_socket :: int
  li_bind :: bool
  li_listen :: bool

definition make_listener :: "listen_io \<Rightarrow> relay \<Rightarrow> int \<times> relay" where
  "make_listener li r =
     (let fd = li_socket li in
      if fd < 0 then (-1, r)
      else if \<not> li_bind li \<or> \<not> li_listen li then (-1, emit [EvClose fd] r)
      else (fd, r))"

text \<open>\<open>proxy_task\<close> before its loop: with both listeners it goes on, else it closes the one it has
  and switches the proxy off.\<close>

definition relay_boot :: "listen_io \<Rightarrow> listen_io \<Rightarrow> flow list \<Rightarrow> px_cfg \<Rightarrow> (int \<times> int) option \<times> relay" where
  "relay_boot http tls fs cfg =
     (let r = relay_start fs cfg;
          (lh, r) = make_listener http r;
          (lt, r) = make_listener tls r
      in if lh < 0 \<or> lt < 0
         then let r = (if lh \<ge> 0 then emit [EvClose lh] r else r);
                  r = (if lt \<ge> 0 then emit [EvClose lt] r else r)
              in (None, r\<lparr>r_cfg := relay_unavailable cfg\<rparr>)
         else (Some (lh, lt), r))"

text \<open>No socket is lost: both listen, or each one that was opened is closed once.\<close>

lemma relay_boot_sockets:
  assumes "relay_boot http tls fs cfg = (res, r)"
  shows "case res of
      Some (lh, lt) \<Rightarrow> r = relay_start fs cfg \<and> lh = li_socket http \<and> lt = li_socket tls \<and> 0 \<le> lh \<and> 0 \<le> lt
    | None \<Rightarrow> set (r_trace r) = EvClose ` {fd \<in> {li_socket http, li_socket tls}. 0 \<le> fd} \<and>
        length (r_trace r) = length (filter (\<lambda>fd. 0 \<le> fd) [li_socket http, li_socket tls]) \<and>
        \<not> px_ready (r_cfg r) \<and> r_sess r = replicate SESS_MAX sess_zero"
  using assms
  by (auto simp: relay_boot_def make_listener_def relay_start_def relay_unavailable_def emit_def Let_def split: if_splits)

section \<open>The invariant of the sessions\<close>

text \<open>Every state has its sockets and its room: a session that waits for bytes has space for at
  least one, so \<open>recv\<close> is never asked for none; what is pending fits its buffer.\<close>

definition fresh_io :: "sess \<Rightarrow> bool" where
  "fresh_io s \<longleftrightarrow> s_up_off s = 0 \<and> s_down_off s = 0 \<and> \<not> s_ph_eof s \<and> \<not> s_px_eof s \<and> \<not> s_px_shut s"

definition buf_ok :: "u8 list \<Rightarrow> nat \<Rightarrow> nat \<Rightarrow> bool" where
  "buf_ok b off cap \<longleftrightarrow> length b \<le> cap \<and> (if b = [] then off = 0 else off < length b)"

definition sess_ok :: "sess \<Rightarrow> bool" where
  "sess_ok s \<longleftrightarrow> (if s_used s then
     0 \<le> s_ph s \<and> length (s_host s) < 80 \<and> buf_ok (s_up s) (s_up_off s) UP_CAP \<and>
     buf_ok (s_down s) (s_down_off s) DOWN_SZ \<and>
     (case s_st s of
        S_HEAD \<Rightarrow> s_px s = -1 \<and> fresh_io s \<and> length (s_up s) < UP_SZ \<and> s_down s = []
      | S_CONNECTING \<Rightarrow> 0 \<le> s_px s \<and> fresh_io s \<and> s_down s = []
      | S_REPLY \<Rightarrow> 0 \<le> s_px s \<and> fresh_io s \<and> s_tls s \<and> length (s_down s) < DOWN_SZ - 1
      | S_SPLICE \<Rightarrow> 0 \<le> s_px s \<and> \<not> (s_px_eof s \<and> s_down s = []))
   else s = sess_zero)"

definition used_count :: "sess list \<Rightarrow> int" where
  "used_count ss = int (length (filter s_used ss))"

text \<open>The relay's invariant, for all slots or for all but the one being worked on.\<close>

definition relay_ok_but :: "nat \<Rightarrow> relay \<Rightarrow> bool" where
  "relay_ok_but i r \<longleftrightarrow> length (r_sess r) = SESS_MAX \<and> i < SESS_MAX \<and> s_used (getS i r) \<and>
     (\<forall>j<SESS_MAX. j \<noteq> i \<longrightarrow> sess_ok (getS j r)) \<and> r_active r = used_count (r_sess r) \<and> flows_ok (r_flows r)"

definition relay_ok :: "relay \<Rightarrow> bool" where
  "relay_ok r \<longleftrightarrow> length (r_sess r) = SESS_MAX \<and> (\<forall>j<SESS_MAX. sess_ok (getS j r)) \<and>
     r_active r = used_count (r_sess r) \<and> flows_ok (r_flows r)"

lemma used_count_simps [simp]:
  "used_count [] = 0" "used_count (x # ss) = (if s_used x then 1 else 0) + used_count ss"
  by (simp_all add: used_count_def)

lemma used_count_update:
  "i < length ss \<Longrightarrow> used_count (ss[i := s]) =
     used_count ss - (if s_used (ss ! i) then 1 else 0) + (if s_used s then 1 else 0)"
proof (induction ss arbitrary: i)
  case (Cons x ss)
  then show ?case by (cases i) auto
qed simp

lemma relay_ok_but_I: "relay_ok r \<Longrightarrow> i < SESS_MAX \<Longrightarrow> s_used (getS i r) \<Longrightarrow> relay_ok_but i r"
  by (simp add: relay_ok_def relay_ok_but_def)

lemma relay_ok_I:
  assumes "relay_ok_but i r" and "sess_ok (getS i r)"
  shows "relay_ok r"
  using assms by (auto simp: relay_ok_def relay_ok_but_def)

lemma ok_but_emit [simp]: "relay_ok_but i (emit e r) = relay_ok_but i r"
  by (simp add: relay_ok_but_def emit_def)

lemma getS_emit [simp]: "getS i (emit e r) = getS i r"
  by (simp add: emit_def)

lemma relay_ok_emit [simp]: "relay_ok (emit e r) = relay_ok r"
  by (simp add: relay_ok_def emit_def)

lemma putS_sel [simp]: "r_active (putS i s r) = r_active r" "r_flows (putS i s r) = r_flows r"
  "r_cfg (putS i s r) = r_cfg r" "r_trace (putS i s r) = r_trace r" "r_sess (putS i s r) = (r_sess r)[i := s]"
  "r_resolved_valid (putS i s r) = r_resolved_valid r" "r_resolved_host (putS i s r) = r_resolved_host r"
  "r_resolved_addr (putS i s r) = r_resolved_addr r"
  by (simp_all add: putS_def)

lemma ok_but_less: "relay_ok_but i r \<Longrightarrow> i < length (r_sess r)"
  by (simp add: relay_ok_but_def)

lemma getS_putS [simp]: "i < length (r_sess r) \<Longrightarrow> getS i (putS i s r) = s"
  by simp

lemma ok_but_putS: "relay_ok_but i r \<Longrightarrow> s_used s \<Longrightarrow> relay_ok_but i (putS i s r)"
  by (auto simp: relay_ok_but_def used_count_update)

lemma ok_putS: "relay_ok_but i r \<Longrightarrow> s_used s \<Longrightarrow> sess_ok s \<Longrightarrow> relay_ok (putS i s r)"
  by (rule relay_ok_I [OF ok_but_putS]) (simp_all add: ok_but_less)

lemma ok_but_resolved [simp]:
  "relay_ok_but i (r\<lparr>r_resolved_valid := v\<rparr>) = relay_ok_but i r"
  "relay_ok_but i (r\<lparr>r_resolved_addr := a\<rparr>) = relay_ok_but i r"
  "relay_ok_but i (r\<lparr>r_resolved_host := h\<rparr>) = relay_ok_but i r"
  by (simp_all add: relay_ok_but_def)

lemma sess_close_ok:
  assumes "relay_ok_but i r"
  shows "relay_ok (sess_close io i r)"
proof -
  have "relay_ok ((putS i sess_zero (q\<lparr>r_flows := flow_mark_closed p c (r_flows q)\<rparr>))\<lparr>r_active := r_active q - 1\<rparr>)"
    if q: "relay_ok_but i q" for q p c
    using q mark_closed_flows_ok [of "r_flows q"]
    by (auto simp: relay_ok_def relay_ok_but_def used_count_update nth_list_update sess_ok_def)
       (simp_all add: sess_zero_def)
  note c = this
  have "relay_ok_but i (if s_px s \<ge> 0 then emit [EvClose (s_px s)] (if s_ph s \<ge> 0 then emit [EvClose (s_ph s)] r else r)
      else (if s_ph s \<ge> 0 then emit [EvClose (s_ph s)] r else r))" for s :: sess
    using assms by simp
  from c [OF this] show ?thesis by (simp add: sess_close_def Let_def)
qed

lemma sess_fail_ok: "relay_ok_but i r \<Longrightarrow> relay_ok (sess_fail io i r)"
  by (simp add: sess_fail_def sess_close_ok)

text \<open>The request \<open>on_connected\<close> sends always fits its 200 bytes.\<close>

lemma connect_req_fits: "length h < 80 \<Longrightarrow> length (connect_req h) < 200"
  by (simp add: connect_req_def)

definition conn_ready :: "sess \<Rightarrow> bool" where
  "conn_ready s \<longleftrightarrow> s_used s \<and> 0 \<le> s_ph s \<and> length (s_host s) < 80 \<and> fresh_io s \<and>
     length (s_up s) \<le> UP_CAP \<and> s_down s = []"

lemma on_connected_ok:
  assumes "relay_ok_but i r" and "conn_ready (getS i r)" and "0 \<le> s_px (getS i r)"
  shows "relay_ok (on_connected io i r)"
proof -
  have reply: "relay_ok (putS i ((getS i r)\<lparr>s_st := S_REPLY, s_down := [], s_deadline := d\<rparr>) (emit e r))"
    if "s_tls (getS i r)" for d e
    using assms that by (intro ok_putS) (auto simp: conn_ready_def sess_ok_def buf_ok_def fresh_io_def)
  have splice: "relay_ok (putS i ((getS i r)\<lparr>s_st := S_SPLICE, s_up_off := 0, s_deadline := d\<rparr>) r)" for d
    using assms by (intro ok_putS) (auto simp: conn_ready_def sess_ok_def buf_ok_def fresh_io_def)
  show ?thesis
    using assms(1) reply splice sess_fail_ok
    by (auto simp: on_connected_def Let_def split: send_res.splits)
qed

lemma proxy_addr_ok:
  assumes "relay_ok_but i r" and "proxy_addr io r = (a, r')"
  shows "relay_ok_but i r' \<and> r_sess r' = r_sess r"
  using assms by (auto simp: proxy_addr_def split: prod.splits if_splits option.splits)

lemma start_connect_ok:
  assumes "relay_ok_but i r" and "conn_ready (getS i r)"
  shows "relay_ok (start_connect io i r)"
proof -
  obtain a r1 where a: "proxy_addr io r = (a, r1)" by force
  note r1 = proxy_addr_ok [OF assms(1) a]
  show ?thesis
  proof (cases a)
    case None
    then show ?thesis using a r1 sess_fail_ok by (simp add: start_connect_def)
  next
    case (Some ap)
    obtain ad port where ap: "ap = (ad, port)" by force
    define fd where "fd = io_socket io i"
    define r2 where "r2 = putS i ((getS i r1)\<lparr>s_px := fd\<rparr>) r1"
    have used: "s_used (getS i r1)" using r1 assms(1) by (simp add: relay_ok_but_def)
    then have ok2: "relay_ok_but i r2" unfolding r2_def using r1 by (intro ok_but_putS) auto
    have s2: "getS i r2 = (getS i r)\<lparr>s_px := fd\<rparr>" using r1 ok_but_less [of i r1] by (simp add: r2_def)
    have ready: "conn_ready (getS i r2)" using assms(2) by (simp add: s2 conn_ready_def fresh_io_def)
    have conn: "relay_ok (putS i ((getS i r2)\<lparr>s_st := S_CONNECTING, s_deadline := d\<rparr>) r2)" if "0 \<le> fd" for d
      using ok2 ready that by (intro ok_putS) (auto simp: s2 conn_ready_def sess_ok_def buf_ok_def fresh_io_def)
    have "start_connect io i r = (if fd < 0 then sess_fail io i r2
      else (case io_connect io fd ad port of
              ConnOk \<Rightarrow> on_connected io i r2
            | ConnInProgress \<Rightarrow> putS i ((getS i r2)\<lparr>s_st := S_CONNECTING, s_deadline := io_now io + SETUP_MS\<rparr>) r2
            | ConnErr \<Rightarrow> sess_fail io i (r2\<lparr>r_resolved_valid := False\<rparr>)))"
      by (simp only: start_connect_def a Some ap prod.case option.case Let_def fd_def r2_def)
    then show ?thesis
      using sess_fail_ok [of i r2] sess_fail_ok [of i "r2\<lparr>r_resolved_valid := False\<rparr>"] ok2 conn
        on_connected_ok [OF ok2 ready] by (auto simp: s2 split: conn_res.splits)
  qed
qed

lemma ntoa_80: "io_ok io \<Longrightarrow> length (io_ntoa io a) < 80"
  by (auto simp: io_ok_def intro: less_trans [of _ 16])

lemma http_rewrite_host:
  assumes "length ntoa < hn" and "length h0 < hn"
  shows "length (snd (http_rewrite ntoa h0 head cap hn)) < hn"
proof -
  have "length (host_pass b fin hn s h) < hn" if "length h < hn" for b fin s h
    using that
  proof (induction b fin hn s h rule: host_pass.induct)
    case (1 b fin hn s h)
    have cs: "length (cstr_of v) < hn" if "length v < hn" for v
      unfolding cstr_of_def by (rule le_less_trans [OF length_takeWhile_le that])
    show ?case
    proof (cases "s < fin")
      case True
      define h' where "h' = (case memchr b s (CHR '':'') (line_end b s fin - s) of
                Some c \<Rightarrow>
                  (if name_is (bslice b s c) ''host'' then
                     let v = field_value (bslice b (c + 1) (line_end b s fin))
                     in if length v < hn then cstr_of v else h
                   else h)
              | None \<Rightarrow> h)"
      have "host_pass b fin hn s h = host_pass b fin hn (line_end b s fin + 2) h'"
        by (subst host_pass.simps) (simp add: True Let_def h'_def)
      moreover have "length h' < hn" using 1(2) cs by (auto simp: h'_def Let_def split: option.splits)
      ultimately show ?thesis using 1(1) [OF True refl h'_def] by simp
    next
      case False
      then show ?thesis using 1(2) by (subst host_pass.simps) simp
    qed
  qed
  note hp = this
  have "0 < hn" using assms by simp
  then show ?thesis
    using assms hp [of "[]"] by (auto simp: http_rewrite_def Let_def split: option.splits)
qed

lemma head_ready_ok:
  assumes io: "io_ok io" and r: "relay_ok_but i r" and rdy: "conn_ready (getS i r)"
    and st: "s_st (getS i r) = S_HEAD" "s_px (getS i r) = -1" and up: "length (s_up (getS i r)) \<le> UP_SZ"
  shows "relay_ok (head_ready io i r)"
proof -
  define s where "s = getS i r"
  have stay: "relay_ok r" if "length (s_up s) < UP_SZ"
    by (rule relay_ok_I [OF r])
      (use that rdy st in \<open>auto simp: sess_ok_def s_def conn_ready_def buf_ok_def fresh_io_def\<close>)
  have conn: "relay_ok (start_connect io i (putS i (s\<lparr>s_host := h, s_up := u\<rparr>) r))"
    if "length h < 80" "length u \<le> UP_CAP" for h u
  proof (rule start_connect_ok)
    show "relay_ok_but i (putS i (s\<lparr>s_host := h, s_up := u\<rparr>) r)"
      using r rdy by (intro ok_but_putS) (auto simp: s_def conn_ready_def)
    show "conn_ready (getS i (putS i (s\<lparr>s_host := h, s_up := u\<rparr>) r))"
      using r rdy that ok_but_less [OF r] by (simp add: s_def conn_ready_def fresh_io_def)
  qed
  have fail: "relay_ok (sess_fail io i (putS i (s\<lparr>s_host := h\<rparr>) r))" for h
    using r rdy by (intro sess_fail_ok ok_but_putS) (auto simp: s_def conn_ready_def)
  show ?thesis
  proof (cases "s_tls s")
    case True
    define host where "host = (case tls_sni (s_up s) 80 of Some (Some h) \<Rightarrow> h | _ \<Rightarrow> io_ntoa io (s_orig_ip s))"
    have "length host < 80"
      using tls_sni_safe [of 80 "s_up s"] ntoa_80 [OF io] by (auto simp: host_def sni_good_def split: option.splits)
    then have "relay_ok (start_connect io i (putS i (s\<lparr>s_host := host, s_up := s_up s\<rparr>) r))"
      using up by (intro conn) (simp_all add: s_def)
    then have c: "relay_ok (start_connect io i (putS i (s\<lparr>s_host := host\<rparr>) r))" by simp
    show ?thesis unfolding head_ready_def Let_def s_def [symmetric] host_def [symmetric]
      using True c stay by simp
  next
    case False
    define n where "n = (\<lambda>head. http_rewrite (io_ntoa io (s_orig_ip s)) (s_host s) (take head (to_chars (s_up s)))
        (UP_CAP - (length (s_up s) - head)) 80)"
    have host: "length (snd (n head)) < 80" for head
      unfolding n_def using ntoa_80 [OF io] rdy by (intro http_rewrite_host) (auto simp: s_def conn_ready_def)
    have len: "length (to_bytes out @ drop head (s_up s)) \<le> UP_CAP" if "fst (n head) = Some out" for out head
    proof -
      have "length out \<le> UP_CAP - (length (s_up s) - head)"
        using http_rewrite_bound [of _ _ _ _ _ out "snd (n head)"] that unfolding n_def by (metis prod.collapse)
      then show ?thesis using up by (simp add: to_bytes_def s_def)
    qed
    show ?thesis
    proof (cases "find_crlf2 (to_chars (s_up s))")
      case None
      then show ?thesis using False stay sess_fail_ok [OF r]
        by (simp add: head_ready_def Let_def s_def [symmetric])
    next
      case (Some e)
      have "head_ready io i r = (if \<not> io_malloc io UP_CAP then sess_fail io i r
        else (case n (e + 4) of (None, host) \<Rightarrow> sess_fail io i (putS i (s\<lparr>s_host := host\<rparr>) r)
          | (Some out, host) \<Rightarrow> start_connect io i (putS i (s\<lparr>s_host := host, s_up := to_bytes out @ drop (e + 4) (s_up s)\<rparr>) r)))"
        using False Some by (simp add: head_ready_def Let_def s_def [symmetric] n_def)
      then show ?thesis
        using sess_fail_ok [OF r] fail conn [OF host len] host [of "e + 4"] len [of "e + 4"]
        by (auto split: prod.splits option.splits) (metis fst_conv snd_conv conn)
    qed
  qed
qed

lemma reply_ready_ok:
  assumes r: "relay_ok_but i r" and s: "s = getS i r" and u: "0 \<le> s_ph s" "0 \<le> s_px s" "length (s_host s) < 80"
      "fresh_io s" "length (s_up s) \<le> UP_CAP"
    and st: "s_st s = S_REPLY" "s_tls s" "length (s_down s) \<le> DOWN_SZ - 1"
  shows "relay_ok (reply_ready io i r)"
proof -
  have used: "s_used s" using r by (simp add: relay_ok_but_def s)
  have stay: "relay_ok r" if "length (s_down s) < DOWN_SZ - 1"
    by (rule relay_ok_I [OF r]) (use that used u st in \<open>auto simp: sess_ok_def s [symmetric] buf_ok_def fresh_io_def\<close>)
  have go: "relay_ok (putS i (s\<lparr>s_down := drop k (s_down s), s_down_off := 0, s_up_off := 0, s_st := S_SPLICE,
      s_deadline := d\<rparr>) r)" for k d
    using r used u st by (intro ok_putS) (auto simp: sess_ok_def buf_ok_def fresh_io_def)
  show ?thesis
    using stay go sess_fail_ok [OF r] sess_close_ok [OF r]
    by (auto simp: reply_ready_def Let_def s [symmetric] split: option.splits)
qed

section \<open>Splicing\<close>

text \<open>The bytes a trace read from a socket and wrote to it, in order.\<close>

fun recv_of :: "int \<Rightarrow> sock_ev list \<Rightarrow> u8 list" where
  "recv_of fd [] = []"
| "recv_of fd (EvRecv f d # es) = (if f = fd then d else []) @ recv_of fd es"
| "recv_of fd (_ # es) = recv_of fd es"

fun sent_of :: "int \<Rightarrow> sock_ev list \<Rightarrow> u8 list" where
  "sent_of fd [] = []"
| "sent_of fd (EvSend f d # es) = (if f = fd then d else []) @ sent_of fd es"
| "sent_of fd (_ # es) = sent_of fd es"

lemma recv_of_append: "recv_of fd (a @ b) = recv_of fd a @ recv_of fd b"
  by (induction fd a rule: recv_of.induct) auto

lemma sent_of_append: "sent_of fd (a @ b) = sent_of fd a @ sent_of fd b"
  by (induction fd a rule: sent_of.induct) auto

definition up_pending :: "sess \<Rightarrow> u8 list" where
  "up_pending s = drop (s_up_off s) (s_up s)"

definition down_pending :: "sess \<Rightarrow> u8 list" where
  "down_pending s = drop (s_down_off s) (s_down s)"

lemma splice_up_step:
  assumes io: "io_ok io" and b: "buf_ok (s_up s) (s_up_off s) UP_CAP" and r: "splice_up io s = Some (s', m, e)"
  shows "buf_ok (s_up s') (s_up_off s') UP_CAP"
    and "s' = s\<lparr>s_up := s_up s', s_up_off := s_up_off s', s_ph_eof := s_ph_eof s'\<rparr>"
    and "up_pending s @ recv_of (s_ph s) e = sent_of (s_px s) e @ up_pending s'"
    and "s_ph s \<noteq> s_px s \<Longrightarrow> recv_of (s_px s) e = [] \<and> sent_of (s_ph s) e = []"
proof -
  have sn: "n \<le> length d" if "io_send io fd d = SendN n" for fd d n using io that by (simp add: io_ok_def)
  have rn: "d \<noteq> []" "length d \<le> n" if "io_recv io fd n = RecvData d" for fd d n
    using io that by (auto simp: io_ok_def)
  have "buf_ok (s_up s') (s_up_off s') UP_CAP \<and>
    s' = s\<lparr>s_up := s_up s', s_up_off := s_up_off s', s_ph_eof := s_ph_eof s'\<rparr> \<and>
    up_pending s @ recv_of (s_ph s) e = sent_of (s_px s) e @ up_pending s' \<and>
    (s_ph s \<noteq> s_px s \<longrightarrow> recv_of (s_px s) e = [] \<and> sent_of (s_ph s) e = [])"
  proof (cases "s_up_off s < length (s_up s) \<and> io_wr io (s_px s)")
    case True
    show ?thesis
    proof (cases "io_send io (s_px s) (drop (s_up_off s) (s_up s))")
      case (SendN n)
      have n: "s_up_off s + n \<le> length (s_up s)" using sn [OF SendN] True by auto
      have split: "drop (s_up_off s) (s_up s) = take n (drop (s_up_off s) (s_up s)) @ drop (s_up_off s + n) (s_up s)"
        by (metis append_take_drop_id drop_drop add.commute)
      show ?thesis
      proof (cases "s_up_off s + n = length (s_up s)")
        case True
        then have "n > 0" "take n (drop (s_up_off s) (s_up s)) = drop (s_up_off s) (s_up s)"
          using \<open>s_up_off s < length (s_up s) \<and> _\<close> by auto
        then show ?thesis using r SendN \<open>s_up_off s < length (s_up s) \<and> _\<close> True
          by (auto simp: splice_up_def buf_ok_def up_pending_def)
      next
        case False
        then have "s' = s\<lparr>s_up_off := s_up_off s + n\<rparr>" "e = [EvSend (s_px s) (take n (drop (s_up_off s) (s_up s)))]"
          using r SendN True by (auto simp: splice_up_def split: if_splits)
        then show ?thesis using False n b split by (auto simp: buf_ok_def up_pending_def)
      qed
    qed (use r True b in \<open>auto simp: splice_up_def\<close>)
  next
    case False
    then show ?thesis using r b rn [of _ UP_SZ]
      by (fastforce simp: splice_up_def buf_ok_def up_pending_def split: if_splits recv_res.splits)
  qed
  then show "buf_ok (s_up s') (s_up_off s') UP_CAP"
    and "s' = s\<lparr>s_up := s_up s', s_up_off := s_up_off s', s_ph_eof := s_ph_eof s'\<rparr>"
    and "up_pending s @ recv_of (s_ph s) e = sent_of (s_px s) e @ up_pending s'"
    and "s_ph s \<noteq> s_px s \<Longrightarrow> recv_of (s_px s) e = [] \<and> sent_of (s_ph s) e = []"
    by blast+
qed

lemma splice_down_step:
  assumes io: "io_ok io" and b: "buf_ok (s_down s) (s_down_off s) DOWN_SZ" and r: "splice_down io s = Some (s', m, e)"
  shows "buf_ok (s_down s') (s_down_off s') DOWN_SZ"
    and "s' = s\<lparr>s_down := s_down s', s_down_off := s_down_off s', s_px_eof := s_px_eof s'\<rparr>"
    and "down_pending s @ recv_of (s_px s) e = sent_of (s_ph s) e @ down_pending s'"
    and "s_ph s \<noteq> s_px s \<Longrightarrow> recv_of (s_ph s) e = [] \<and> sent_of (s_px s) e = []"
proof -
  have sn: "n \<le> length d" if "io_send io fd d = SendN n" for fd d n using io that by (simp add: io_ok_def)
  have rn: "d \<noteq> []" "length d \<le> n" if "io_recv io fd n = RecvData d" for fd d n
    using io that by (auto simp: io_ok_def)
  have "buf_ok (s_down s') (s_down_off s') DOWN_SZ \<and>
    s' = s\<lparr>s_down := s_down s', s_down_off := s_down_off s', s_px_eof := s_px_eof s'\<rparr> \<and>
    down_pending s @ recv_of (s_px s) e = sent_of (s_ph s) e @ down_pending s' \<and>
    (s_ph s \<noteq> s_px s \<longrightarrow> recv_of (s_ph s) e = [] \<and> sent_of (s_px s) e = [])"
  proof (cases "s_down_off s < length (s_down s) \<and> io_wr io (s_ph s)")
    case True
    show ?thesis
    proof (cases "io_send io (s_ph s) (drop (s_down_off s) (s_down s))")
      case (SendN n)
      have n: "s_down_off s + n \<le> length (s_down s)" using sn [OF SendN] True by auto
      have split: "drop (s_down_off s) (s_down s) = take n (drop (s_down_off s) (s_down s)) @ drop (s_down_off s + n) (s_down s)"
        by (metis append_take_drop_id drop_drop add.commute)
      show ?thesis
      proof (cases "s_down_off s + n = length (s_down s)")
        case True
        then have "n > 0" "take n (drop (s_down_off s) (s_down s)) = drop (s_down_off s) (s_down s)"
          using \<open>s_down_off s < length (s_down s) \<and> _\<close> by auto
        then show ?thesis using r SendN \<open>s_down_off s < length (s_down s) \<and> _\<close> True
          by (auto simp: splice_down_def buf_ok_def down_pending_def)
      next
        case False
        then have "s' = s\<lparr>s_down_off := s_down_off s + n\<rparr>" "e = [EvSend (s_ph s) (take n (drop (s_down_off s) (s_down s)))]"
          using r SendN True by (auto simp: splice_down_def split: if_splits)
        then show ?thesis using False n b split by (auto simp: buf_ok_def down_pending_def)
      qed
    qed (use r True b in \<open>auto simp: splice_down_def\<close>)
  next
    case False
    then show ?thesis using r b rn [of _ DOWN_SZ]
      by (fastforce simp: splice_down_def buf_ok_def down_pending_def split: if_splits recv_res.splits)
  qed
  then show "buf_ok (s_down s') (s_down_off s') DOWN_SZ"
    and "s' = s\<lparr>s_down := s_down s', s_down_off := s_down_off s', s_px_eof := s_px_eof s'\<rparr>"
    and "down_pending s @ recv_of (s_px s) e = sent_of (s_ph s) e @ down_pending s'"
    and "s_ph s \<noteq> s_px s \<Longrightarrow> recv_of (s_ph s) e = [] \<and> sent_of (s_px s) e = []"
    by blast+
qed

lemma putS_putS [simp]: "putS i s (putS i t r) = putS i s r"
  by (simp add: putS_def)

lemma emit_putS [simp]: "emit e (putS i s r) = putS i s (emit e r)"
  by (simp add: putS_def emit_def)

lemma emit_emit [simp]: "emit e (emit f r) = emit (f @ e) r"
  by (simp add: emit_def)

lemma emit_Nil [simp]: "emit [] r = r"
  by (simp add: emit_def)

text \<open>A round of \<open>splice\<close> either closes the session or copies: what was pending and what came in
  is what went out and what is pending now, in order, both ways.\<close>

definition copied :: "sess \<Rightarrow> sess \<Rightarrow> sock_ev list \<Rightarrow> bool" where
  "copied s s' e \<longleftrightarrow> s_ph s' = s_ph s \<and> s_px s' = s_px s \<and>
     up_pending s @ recv_of (s_ph s) e = sent_of (s_px s) e @ up_pending s' \<and>
     down_pending s @ recv_of (s_px s) e = sent_of (s_ph s) e @ down_pending s'"

lemma splice_cases:
  assumes io: "io_ok io" and r: "relay_ok_but i r" and ok: "sess_ok (getS i r)"
    and st: "s_st (getS i r) = S_SPLICE"
  obtains q where "splice_sess io i r = sess_close io i q" and "relay_ok_but i q"
  | s' e where "splice_sess io i r = putS i s' (emit e r)" and "sess_ok s'" and "s_used s'" and "s_st s' = S_SPLICE"
      and "s_ph (getS i r) \<noteq> s_px (getS i r) \<Longrightarrow> copied (getS i r) s' e"
proof -
  define s where "s = getS i r"
  have used: "s_used s" using r by (simp add: s_def relay_ok_but_def)
  have bu: "buf_ok (s_up s) (s_up_off s) UP_CAP" and bd: "buf_ok (s_down s) (s_down_off s) DOWN_SZ"
    using ok used by (simp_all add: s_def sess_ok_def)
  show thesis
  proof (cases "splice_up io s")
    case None
    then have "splice_sess io i r = sess_close io i r" by (simp add: splice_sess_def s_def)
    then show ?thesis using that(1) r by blast
  next
    case (Some t)
    obtain s1 m1 e1 where t: "splice_up io s = Some (s1, m1, e1)" using Some by (cases t) auto
    note u = splice_up_step [OF io bu t]
    have s1: "s_used s1" "s_st s1 = S_SPLICE" "s_ph s1 = s_ph s" "s_px s1 = s_px s" "s_host s1 = s_host s"
        "s_down s1 = s_down s" "s_down_off s1 = s_down_off s" "s_px_eof s1 = s_px_eof s"
      by (subst u(2), use used st in \<open>simp add: s_def\<close>)+
    have r1: "relay_ok_but i (putS i s1 (emit e1 r))" using r s1 by (intro ok_but_putS) auto
    show ?thesis
    proof (cases "splice_down io s1")
      case None
      then have "splice_sess io i r = sess_close io i (putS i s1 (emit e1 r))"
        using t by (simp add: splice_sess_def s_def [symmetric])
      then show ?thesis using that(1) r1 by blast
    next
      case (Some t2)
      obtain s2 m2 e2 where t2: "splice_down io s1 = Some (s2, m2, e2)" using Some by (cases t2) auto
      have bd1: "buf_ok (s_down s1) (s_down_off s1) DOWN_SZ" using bd s1 by simp
      note d = splice_down_step [OF io bd1 t2]
      have s2: "s_used s2" "s_st s2 = S_SPLICE" "s_ph s2 = s_ph s" "s_px s2 = s_px s" "s_host s2 = s_host s"
          "s_up s2 = s_up s1" "s_up_off s2 = s_up_off s1"
        by (subst d(2), use s1 in simp)+
      define shut where "shut = (s_ph_eof s2 \<and> s_up s2 = [] \<and> \<not> s_px_shut s2)"
      define s3 where "s3 = (if shut then s2\<lparr>s_px_shut := True\<rparr> else s2)"
      define e3 where "e3 = e1 @ e2 @ (if shut then [EvShutdown (s_px s2)] else [])"
      define s4 where "s4 = (if m1 \<or> m2 then s3\<lparr>s_deadline := io_now io + IDLE_MS\<rparr> else s3)"
      have run: "splice_sess io i r = (if s_px_eof s3 \<and> s_down s3 = [] then sess_close io i (putS i s3 (emit e3 r))
          else putS i s4 (emit e3 r))"
        using t t2 by (auto simp: splice_sess_def s_def [symmetric] Let_def shut_def s3_def e3_def s4_def)
      have s3: "s_used s3" "s_st s3 = S_SPLICE" "s_ph s3 = s_ph s" "s_px s3 = s_px s" "s_host s3 = s_host s"
          "s_up s3 = s_up s1" "s_up_off s3 = s_up_off s1" "s_down s3 = s_down s2" "s_down_off s3 = s_down_off s2"
          "s_px_eof s3 = s_px_eof s2"
        using s2 by (simp_all add: s3_def)
      show ?thesis
      proof (cases "s_px_eof s3 \<and> s_down s3 = []")
        case True
        then show ?thesis using that(1) [of "putS i s3 (emit e3 r)"] run ok_but_putS [of i "emit e3 r" s3] r s3(1) by simp
      next
        case False
        have "sess_ok s4"
          using False s3 s1 u(1) d(1) ok used st by (auto simp: s4_def sess_ok_def s_def [symmetric])
        moreover have "copied s s4 e3" if ne: "s_ph s \<noteq> s_px s"
        proof -
          have q: "recv_of (s_px s) e1 = []" "sent_of (s_ph s) e1 = []" "recv_of (s_ph s) e2 = []" "sent_of (s_px s) e2 = []"
            using u(4) [OF ne] d(4) ne s1 by auto
          have c: "recv_of f e3 = recv_of f e1 @ recv_of f e2" "sent_of f e3 = sent_of f e1 @ sent_of f e2" for f
            by (simp_all add: e3_def recv_of_append sent_of_append)
          have "up_pending s4 = up_pending s1" "down_pending s1 = down_pending s" "down_pending s4 = down_pending s2"
            using s3 s1 by (simp_all add: s4_def up_pending_def down_pending_def)
          then show ?thesis using u(3) d(3) q c s1 s3 by (simp add: copied_def s4_def)
        qed
        moreover have "splice_sess io i r = putS i s4 (emit e3 r)" using run False by simp
        moreover have "s_used s4" "s_st s4 = S_SPLICE" using s3 by (simp_all add: s4_def)
        ultimately show ?thesis by (intro that(2)) (simp_all add: s_def)
      qed
    qed
  qed
qed

lemma splice_ok:
  assumes "io_ok io" and "relay_ok_but i r" and "sess_ok (getS i r)" and "s_st (getS i r) = S_SPLICE"
  shows "relay_ok (splice_sess io i r)"
proof (rule splice_cases [OF assms])
  fix s' e
  assume "splice_sess io i r = putS i s' (emit e r)" "sess_ok s'" "s_used s'"
  then show ?thesis using ok_putS [of i "emit e r" s'] assms(2) by simp
qed (simp add: sess_close_ok)

lemma sess_service_ok:
  assumes io: "io_ok io" and ok: "relay_ok r" and i: "i < SESS_MAX" and used: "s_used (getS i r)"
  shows "relay_ok (sess_service io i r)"
proof -
  define s where "s = getS i r"
  have r: "relay_ok_but i r" using ok i used by (rule relay_ok_but_I)
  have sok: "sess_ok s" using ok i by (simp add: relay_ok_def s_def)
  note u = used [folded s_def]
  have rn: "length d \<le> n" if "io_recv io fd n = RecvData d" for fd d n using io that by (auto simp: io_ok_def)
  show ?thesis
  proof (cases "s_st s")
    case S_HEAD
    have k: "0 \<le> s_ph s" "length (s_host s) < 80" "length (s_up s) < UP_SZ" "s_px s = -1" "fresh_io s" "s_down s = []"
      using sok S_HEAD u by (simp_all add: sess_ok_def)
    have "relay_ok (head_ready io i (putS i (s\<lparr>s_up := s_up s @ d\<rparr>) (emit e r)))"
      if "io_recv io (s_ph s) (UP_SZ - length (s_up s)) = RecvData d" for d e
    proof (rule head_ready_ok [OF io])
      let ?r = "putS i (s\<lparr>s_up := s_up s @ d\<rparr>) (emit e r)"
      show "relay_ok_but i ?r" using r u by (intro ok_but_putS) auto
      have g: "getS i ?r = s\<lparr>s_up := s_up s @ d\<rparr>" using ok_but_less [of i "emit e r"] r by simp
      have l: "length (s_up s @ d) \<le> UP_SZ" using rn [OF that] k by simp
      then show "length (s_up (getS i ?r)) \<le> UP_SZ" unfolding g by simp
      show "conn_ready (getS i ?r)" using l k u unfolding g by (simp add: conn_ready_def fresh_io_def)
      show "s_st (getS i ?r) = S_HEAD" "s_px (getS i ?r) = -1" using S_HEAD k unfolding g by simp_all
    qed
    then show ?thesis using sess_close_ok [OF r] ok S_HEAD
      by (auto simp: sess_service_def Let_def s_def [symmetric] split: recv_res.splits)
  next
    case S_CONNECTING
    have "conn_ready (getS i r)" "0 \<le> s_px (getS i r)"
      using sok S_CONNECTING u by (auto simp: sess_ok_def conn_ready_def buf_ok_def s_def)
    then show ?thesis using on_connected_ok [OF r] sess_fail_ok [of i "r\<lparr>r_resolved_valid := False\<rparr>"] r ok S_CONNECTING
      by (simp add: sess_service_def Let_def s_def [symmetric])
  next
    case S_REPLY
    have k: "0 \<le> s_ph s" "0 \<le> s_px s" "length (s_host s) < 80" "length (s_up s) \<le> UP_CAP" "fresh_io s" "s_tls s"
      "length (s_down s) < DOWN_SZ - 1"
      using sok S_REPLY u by (simp_all add: sess_ok_def buf_ok_def)
    have "relay_ok (reply_ready io i (putS i (s\<lparr>s_down := s_down s @ d\<rparr>) (emit e r)))"
      if "io_recv io (s_px s) (DOWN_SZ - 1 - length (s_down s)) = RecvData d" for d e
    proof (rule reply_ready_ok)
      let ?r = "putS i (s\<lparr>s_down := s_down s @ d\<rparr>) (emit e r)"
      show "relay_ok_but i ?r" using r u by (intro ok_but_putS) auto
      show "s\<lparr>s_down := s_down s @ d\<rparr> = getS i ?r" using ok_but_less [of i "emit e r"] r by simp
    qed (use k rn [OF that] S_REPLY in \<open>simp_all add: fresh_io_def\<close>)
    then show ?thesis using sess_fail_ok [OF r] ok S_REPLY
      by (auto simp: sess_service_def Let_def s_def [symmetric] split: recv_res.splits)
  next
    case S_SPLICE
    then show ?thesis using splice_ok [OF io r] sok by (simp add: sess_service_def s_def)
  qed
qed

lemma service_all_ok:
  "io_ok io \<Longrightarrow> relay_ok r \<Longrightarrow> \<forall>i\<in>set is. i < SESS_MAX \<Longrightarrow> relay_ok (service_all io is r)"
proof (induction io "is" r rule: service_all.induct)
  case (2 io i "is" r)
  have "relay_ok (if s_used (getS i r) then sess_service io i r else r)"
    using 2(2-4) sess_service_ok by simp
  then show ?case using 2 by simp
qed simp

lemma expire_all_ok:
  "relay_ok r \<Longrightarrow> \<forall>i\<in>set is. i < SESS_MAX \<Longrightarrow> relay_ok (expire_all io is r)"
proof (induction io "is" r rule: expire_all.induct)
  case (2 io i "is" r)
  have "relay_ok (if s_used (getS i r) \<and> past (io_now io) (s_deadline (getS i r))
                       then (if s_st (getS i r) = S_SPLICE then sess_close io i r else sess_fail io i r) else r)"
    using 2(2,3) by (auto intro!: sess_close_ok sess_fail_ok relay_ok_but_I)
  then show ?case using 2 by simp
qed simp

lemma free_slot_Some: "free_slot k ss = Some i \<Longrightarrow> k \<le> i \<and> i < k + length ss \<and> \<not> s_used (ss ! (i - k))"
  by (induction ss arbitrary: k) (force split: if_splits simp: nth_Cons')+

lemma do_accept_ok:
  assumes io: "io_ok io" and ok: "relay_ok r"
  shows "relay_ok (do_accept io l tls r)"
proof -
  have closed: "relay_ok ((emit e r)\<lparr>r_flows := flow_mark_closed p c (r_flows r)\<rparr>)" for e p c
    using ok mark_closed_flows_ok [of "r_flows r"] by (simp add: relay_ok_def emit_def)
  have new: "relay_ok ((putS i s r)\<lparr>r_active := r_active r + 1\<rparr>)"
    if "free_slot 0 (r_sess r) = Some i" "s_used s" "sess_ok s" for i s
    using free_slot_Some [OF that(1)] ok that by (auto simp: relay_ok_def used_count_update nth_list_update)
  have fd: "0 \<le> c" if "io_accept io l = Some (c, a, p)" for c a p
    using io that unfolding io_ok_def by blast
  show ?thesis
    unfolding do_accept_def
    using io ok closed fd
    by (auto split: option.splits intro!: new simp: sess_ok_def buf_ok_def fresh_io_def sess_zero_def ntoa_80)
qed

lemma relay_round_ok: "io_ok io \<Longrightarrow> relay_ok r \<Longrightarrow> relay_ok (relay_round lh lt io r)"
  by (auto simp: relay_round_def Let_def intro!: expire_all_ok do_accept_ok service_all_ok)

lemma relay_start_ok: "flows_ok fs \<Longrightarrow> relay_ok (relay_start fs cfg)"
  by (simp add: relay_ok_def relay_start_def sess_ok_def nth_Cons' eval_nat_numeral)
    (simp add: sess_zero_def)

section \<open>A request from end to end\<close>

lemma to_chars_bytes [simp]: "to_chars (to_bytes s) = s"
  by (simp add: to_chars_def to_bytes_def comp_def unat_of_nat_u8 map_idI)

lemma to_chars_append [simp]: "to_chars (a @ b) = to_chars a @ to_chars b"
  by (simp add: to_chars_def)

lemma length_conv [simp]: "length (to_chars b) = length b" "length (to_bytes s) = length s"
  by (simp_all add: to_chars_def to_bytes_def)

lemma find_crlf2_end: "CHR 0x0D \<notin> set a \<Longrightarrow> find_crlf2 (a @ CRLF @ CRLF @ r) = Some (length a)"
proof (induction a)
  case (Cons c a)
  have "find_crlf2 (c # s) = map_option Suc (find_crlf2 s)" if "c \<noteq> CHR 0x0D" for s
    by (cases s rule: find_crlf2.cases) (use that in \<open>auto split: list.split\<close>)
  then show ?case using Cons by auto
qed simp

lemma find_crlf2_text:
  assumes "CHR 0x0D \<notin> set a" and "list_all field_ok fs"
  shows "find_crlf2 (a @ CRLF @ enc_fields fs @ CRLF @ r) = Some (length a + length (enc_fields fs))"
  using assms
proof (induction fs arbitrary: a)
  case Nil
  then show ?case using find_crlf2_end by (simp add: enc_fields_def)
next
  case (Cons f fs)
  let ?l = "fst f @ CHR '':'' # snd f"
  have l: "CHR 0x0D \<notin> set ?l" using Cons.prems by (auto simp: field_ok_def)
  have e: "enc_fields (f # fs) = ?l @ CRLF @ enc_fields fs" by (simp add: enc_fields_def enc_field_def)
  have "find_crlf2 (a @ CRLF @ (?l @ CRLF @ enc_fields fs @ CRLF @ r)) =
    map_option ((+) (length a + 2)) (find_crlf2 (?l @ CRLF @ enc_fields fs @ CRLF @ r))"
    by (rule find_crlf2_line) (use l Cons.prems in \<open>cases "fst f"; auto\<close>)+
  also have "find_crlf2 (?l @ CRLF @ enc_fields fs @ CRLF @ r) = Some (length ?l + length (enc_fields fs))"
    by (rule Cons.IH) (use l Cons.prems in auto)
  finally show ?case by (simp add: e)
qed

lemma find_crlf2_head:
  assumes "request_ok m t v fs"
  shows "find_crlf2 (enc_head m t v fs @ r) = Some (length (enc_head m t v fs) - 4)"
proof -
  have "find_crlf2 ((m @ CHR '' '' # t @ CHR '' '' # v) @ CRLF @ enc_fields fs @ CRLF @ r) =
    Some (length (m @ CHR '' '' # t @ CHR '' '' # v) + length (enc_fields fs))"
    by (rule find_crlf2_text) (use assms in \<open>auto simp: request_ok_def\<close>)
  then show ?thesis by (simp add: enc_head_def)
qed

text \<open>The proxy's address is known, a socket is made, and \<open>connect\<close> answers \<open>c\<close>: made at once, in progress, or
  refused.\<close>

definition proxy_called :: "io \<Rightarrow> nat \<Rightarrow> relay \<Rightarrow> conn_res \<Rightarrow> bool" where
  "proxy_called io i r c \<longleftrightarrow> (\<exists>a. fst (proxy_addr io r) = Some a \<and> io_connect io (io_socket io i) (fst a) (snd a) = c) \<and>
     0 \<le> io_socket io i"

lemma proxy_addr_cong:
  assumes "proxy_addr io r = (a, r1)" and "r_cfg r' = r_cfg r" and "r_resolved_valid r' = r_resolved_valid r"
    and "r_resolved_host r' = r_resolved_host r" and "r_resolved_addr r' = r_resolved_addr r"
  shows "fst (proxy_addr io r') = a \<and> r_sess (snd (proxy_addr io r')) = r_sess r'"
  using assms by (auto simp: proxy_addr_def split: prod.splits if_splits option.splits)

lemma http_forward:
  assumes i: "i < length (r_sess r)" and s: "s = getS i r" and st: "s_st s = S_HEAD" "\<not> s_tls s"
    and req: "request_ok m t v fs" and got: "s_up s @ d = to_bytes (enc_head m t v fs) @ body"
    and recv: "io_rd io (s_ph s)" "io_recv io (s_ph s) (UP_SZ - length (s_up s)) = RecvData d"
    and up: "io_malloc io UP_CAP" "proxy_called io i r c"
    and host: "host = request_host (io_ntoa io (s_orig_ip s)) 80 fs"
    and fits: "length (proxy_head host m t v fs) + length body \<le> UP_CAP"
  obtains q where "i < length (r_sess q)"
    and "getS i q = s\<lparr>s_host := host, s_up := to_bytes (proxy_head host m t v fs) @ body, s_px := io_socket io i\<rparr>"
    and "sess_service io i r = (case c of ConnOk \<Rightarrow> on_connected io i q
       | ConnInProgress \<Rightarrow> putS i ((getS i q)\<lparr>s_st := S_CONNECTING, s_deadline := io_now io + SETUP_MS\<rparr>) q
       | ConnErr \<Rightarrow> sess_fail io i (q\<lparr>r_resolved_valid := False\<rparr>))"
proof -
  define r1 where "r1 = putS i (s\<lparr>s_up := s_up s @ d\<rparr>) (emit [EvRecv (s_ph s) d] r)"
  define H where "H = enc_head m t v fs"
  have h4: "length H \<ge> 4" by (simp add: H_def enc_head_def)
  have lu: "length (s_up s @ d) = length H + length body" using got by (simp add: H_def)
  have g1: "getS i r1 = s\<lparr>s_up := s_up s @ d\<rparr>" using i by (simp add: r1_def emit_def)
  have tc: "to_chars (s_up s @ d) = H @ to_chars body" unfolding got by (simp add: H_def)
  have e: "find_crlf2 (to_chars (s_up s @ d)) = Some (length H - 4)"
    unfolding tc using find_crlf2_head [OF req] by (simp add: H_def)
  have rw: "http_rewrite (io_ntoa io (s_orig_ip s)) (s_host s) H (UP_CAP - length body) 80 =
      (Some (proxy_head host m t v fs), host)"
    using http_rewrite_request [OF req] fits by (simp add: H_def host Let_def)
  define s2 where "s2 = s\<lparr>s_host := host, s_up := to_bytes (proxy_head host m t v fs) @ body\<rparr>"
  define r2 where "r2 = putS i s2 r1"
  have dh: "drop (length H) (s_up s @ d) = body"
    unfolding got using length_conv(2) [of H] by (simp add: H_def del: length_conv)
  have ext: "s\<lparr>s_up := s_up s @ d, s_host := host, s_up := to_bytes (proxy_head host m t v fs) @ body\<rparr> = s2"
    by (simp add: s2_def)
  have "sess_service io i r = head_ready io i r1"
    using st recv by (simp add: sess_service_def s [symmetric] r1_def Let_def)
  also have "\<dots> = start_connect io i r2"
  proof -
    have hd: "length H - 4 + 4 = length H" using h4 by simp
    have "head_ready io i r1 = (case (Some (proxy_head host m t v fs), host) of
         (None, host) \<Rightarrow> sess_fail io i (putS i ((s\<lparr>s_up := s_up s @ d\<rparr>)\<lparr>s_host := host\<rparr>) r1)
       | (Some out, host) \<Rightarrow> start_connect io i (putS i ((s\<lparr>s_up := s_up s @ d\<rparr>)\<lparr>s_host := host, s_up := to_bytes out @ body\<rparr>) r1))"
      unfolding head_ready_def Let_def g1
      using st(2) e up(1) rw lu hd tc dh by (simp add: tc)
    then show ?thesis by (simp add: r2_def s2_def)
  qed
  finally have run: "sess_service io i r = start_connect io i r2" .
  have i2: "i < length (r_sess r2)" using i by (simp add: r2_def r1_def emit_def)
  have g2: "getS i r2 = s2" using i2 by (simp add: r2_def)
  obtain a r0 where a: "proxy_addr io r = (Some a, r0)" "io_connect io (io_socket io i) (fst a) (snd a) = c"
    "0 \<le> io_socket io i" using up(2) by (auto simp: proxy_called_def) (metis prod.collapse)
  have "fst (proxy_addr io r2) = Some a \<and> r_sess (snd (proxy_addr io r2)) = r_sess r2"
    by (rule proxy_addr_cong [OF a(1)]) (simp_all add: r2_def r1_def emit_def)
  then obtain r3 where r3: "proxy_addr io r2 = (Some a, r3)" "r_sess r3 = r_sess r2" by (metis prod.collapse)
  have g3: "getS i r3 = s2" using g2 r3 by simp
  have i3: "i < length (r_sess r3)" using i2 r3 by simp
  obtain a1 a2 where aa: "a = (a1, a2)" by force
  define q where "q = putS i (s2\<lparr>s_px := io_socket io i\<rparr>) r3"
  have "sess_service io i r = (case c of ConnOk \<Rightarrow> on_connected io i q
       | ConnInProgress \<Rightarrow> putS i ((getS i q)\<lparr>s_st := S_CONNECTING, s_deadline := io_now io + SETUP_MS\<rparr>) q
       | ConnErr \<Rightarrow> sess_fail io i (q\<lparr>r_resolved_valid := False\<rparr>))"
    unfolding run using r3 a g3 by (cases c) (simp_all add: start_connect_def aa Let_def q_def)
  then show thesis using i3 by (intro that [of q]) (simp_all add: q_def s2_def)
qed

lemma on_connected_http:
  "i < length (r_sess r) \<Longrightarrow> \<not> s_tls (getS i r) \<Longrightarrow>
   getS i (on_connected io i r) = (getS i r)\<lparr>s_st := S_SPLICE, s_up_off := 0, s_deadline := io_now io + IDLE_MS\<rparr>"
  by (simp add: on_connected_def Let_def)


section \<open>Properties\<close>

text \<open>The relay's steps: a round of its loop, packets and interface events that change the flow
  table, and the settings page.\<close>

inductive relay_step :: "relay \<Rightarrow> relay \<Rightarrow> bool" where
  relay_loop: "io_ok io \<Longrightarrow> relay_step r (relay_round lh lt io r)"
| relay_flows: "flow_step (r_flows r) fs \<Longrightarrow> relay_step r (r\<lparr>r_flows := fs\<rparr>)"
| relay_cfg: "relay_step r (r\<lparr>r_cfg := c\<rparr>)"

inductive relay_reach :: "relay \<Rightarrow> bool" where
  relay_init: "flow_reach fs \<Longrightarrow> relay_reach (relay_start fs cfg)"
| relay_next: "relay_reach r \<Longrightarrow> relay_step r r' \<Longrightarrow> relay_reach r'"

lemma relay_step_ok: "relay_step r r' \<Longrightarrow> relay_ok r \<Longrightarrow> relay_ok r'"
  by (induction rule: relay_step.induct) (auto simp: relay_round_ok, auto simp: relay_ok_def dest: flow_step_ok)

lemma relay_reach_ok: "relay_reach r \<Longrightarrow> relay_ok r"
  by (induction rule: relay_reach.induct) (auto simp: relay_start_ok flow_reach_ok relay_step_ok)

text \<open>What a session in use guarantees: its buffers fit, a state that reads has room for a byte, and
  \<open>select\<close> watches at least one open socket for it, so it is never stuck.\<close>

definition session_sound :: "sess \<Rightarrow> bool" where
  "session_sound s \<longleftrightarrow> length (s_up s) \<le> UP_CAP \<and> length (s_down s) \<le> DOWN_SZ \<and>
     (s_st s = S_HEAD \<longrightarrow> 0 < UP_SZ - length (s_up s)) \<and>
     (s_st s = S_REPLY \<longrightarrow> 0 < DOWN_SZ - 1 - length (s_down s)) \<and>
     fst (sess_fds s) @ snd (sess_fds s) \<noteq> [] \<and> list_all (\<lambda>fd. 0 \<le> fd) (fst (sess_fds s) @ snd (sess_fds s))"

lemma sess_ok_sound: "sess_ok s \<Longrightarrow> s_used s \<Longrightarrow> session_sound s"
  by (cases "s_st s") (auto simp: sess_ok_def session_sound_def sess_fds_def buf_ok_def split: if_splits)

lemma used_count_le: "0 \<le> used_count ss \<and> used_count ss \<le> int (length ss)"
  by (induction ss) auto

text \<open>C14: In every state the relay can reach, its counter is the number of sessions in use, at most
  four; and every session in use keeps its buffers within bounds, never reads into a full
  one, and has an open socket that \<open>select\<close> watches.\<close>

theorem relay_invariant:
  assumes "relay_reach r"
  shows "length (r_sess r) = SESS_MAX \<and> r_active r = used_count (r_sess r) \<and> r_active r \<le> 4 \<and>
    (\<forall>s\<in>set (r_sess r). s_used s \<longrightarrow> session_sound s)"
proof -
  have ok: "relay_ok r" using assms by (rule relay_reach_ok)
  then have "session_sound s" if "s \<in> set (r_sess r)" "s_used s" for s
    using that sess_ok_sound by (auto simp: relay_ok_def in_set_conv_nth)
  then show ?thesis using ok used_count_le [of "r_sess r"] by (auto simp: relay_ok_def)
qed

definition demo_io :: io where
  "demo_io = \<lparr>io_now = 1000, io_clk = 1000, io_select = 1, io_rd = (\<lambda>fd. fd = 10), io_wr = (\<lambda>fd. False),
     io_recv = (\<lambda>fd n. RecvAgain), io_send = (\<lambda>fd d. SendAgain), io_so_error = (\<lambda>fd. 0),
     io_pton = (\<lambda>h. Some 7), io_dns = (\<lambda>h. None), io_ntoa = (\<lambda>a. ''10.0.0.1''), io_socket = (\<lambda>i. 30),
     io_connect = (\<lambda>fd a p. ConnOk), io_malloc = (\<lambda>n. True), io_heap = 30000,
     io_accept = (\<lambda>l. Some (20, PHONE_ADDR_N, 50000))\<rparr>"

lemma demo_io_ok: "io_ok demo_io"
  by (simp add: io_ok_def demo_io_def)

definition demo_relay :: relay where
  "demo_relay = relay_round 10 11 demo_io (relay_start (snd demo_hooked) (cfg_apply True ''10.1.1.1'' 3130))"

lemma demo_relay_reach: "relay_reach demo_relay"
  unfolding demo_relay_def by (rule relay_next [OF relay_init [OF demo_reach] relay_loop [OF demo_io_ok]])

text \<open>Several rounds of \<open>splice_sess\<close> on a slot, as long as its session lives.\<close>

fun splice_run :: "io list \<Rightarrow> nat \<Rightarrow> relay \<Rightarrow> relay" where
  "splice_run [] i r = r"
| "splice_run (io # ios) i r = (if s_used (getS i r) then splice_run ios i (splice_sess io i r) else r)"

lemma closed_unused: "i < length (r_sess r) \<Longrightarrow> \<not> s_used (getS i (sess_close io i r))"
  by (simp add: sess_close_def Let_def emit_def) (simp add: sess_zero_def)

lemma splice_run_unused: "\<not> s_used (getS i r) \<Longrightarrow> splice_run ios i r = r"
  by (cases ios) auto

lemma copied_trans:
  assumes "copied s t e" and "copied t u f"
  shows "copied s u (e @ f)"
proof -
  have s: "s_ph t = s_ph s" "s_px t = s_px s" "s_ph u = s_ph s" "s_px u = s_px s"
    using assms by (auto simp: copied_def)
  have "up_pending s @ recv_of (s_ph s) e @ recv_of (s_ph s) f = sent_of (s_px s) e @ up_pending t @ recv_of (s_ph s) f"
    using assms(1) unfolding copied_def by (metis append.assoc)
  also have "up_pending t @ recv_of (s_ph s) f = sent_of (s_px s) f @ up_pending u"
    using assms(2) s by (simp add: copied_def)
  finally have up: "up_pending s @ recv_of (s_ph s) (e @ f) = sent_of (s_px s) (e @ f) @ up_pending u"
    by (simp add: recv_of_append sent_of_append)
  have "down_pending s @ recv_of (s_px s) e @ recv_of (s_px s) f = sent_of (s_ph s) e @ down_pending t @ recv_of (s_px s) f"
    using assms(1) unfolding copied_def by (metis append.assoc)
  also have "down_pending t @ recv_of (s_px s) f = sent_of (s_ph s) f @ down_pending u"
    using assms(2) s by (simp add: copied_def)
  finally have "down_pending s @ recv_of (s_px s) (e @ f) = sent_of (s_ph s) (e @ f) @ down_pending u"
    by (simp add: recv_of_append sent_of_append)
  with up s show ?thesis by (simp add: copied_def)
qed

lemma splice_run_copied:
  assumes "relay_ok r" and "i < SESS_MAX" and "s_used (getS i r)" and "s_st (getS i r) = S_SPLICE"
    and "s_ph (getS i r) \<noteq> s_px (getS i r)" and "list_all io_ok ios" and "s_used (getS i (splice_run ios i r))"
  shows "\<exists>e. r_trace (splice_run ios i r) = r_trace r @ e \<and> copied (getS i r) (getS i (splice_run ios i r)) e"
  using assms
proof (induction ios arbitrary: r)
  case Nil
  then show ?case by (auto simp: copied_def)
next
  case (Cons io ios)
  have io: "io_ok io" using Cons.prems by simp
  have but: "relay_ok_but i r" using Cons.prems by (simp add: relay_ok_but_I)
  have ok: "sess_ok (getS i r)" using Cons.prems by (simp add: relay_ok_def)
  show ?case
  proof (rule splice_cases [OF io but ok Cons.prems(4)])
    fix q
    assume q: "splice_sess io i r = sess_close io i q" "relay_ok_but i q"
    then have "\<not> s_used (getS i (splice_sess io i r))" using closed_unused ok_but_less by simp
    then show ?thesis using Cons.prems(3,7) by (simp add: splice_run_unused)
  next
    fix s' e
    assume q: "splice_sess io i r = putS i s' (emit e r)" "sess_ok s'" "s_used s'" "s_st s' = S_SPLICE"
      and c: "s_ph (getS i r) \<noteq> s_px (getS i r) \<Longrightarrow> copied (getS i r) s' e"
    have ok': "relay_ok (splice_sess io i r)" using splice_ok [OF io but ok Cons.prems(4)] .
    have g: "getS i (splice_sess io i r) = s'" using q(1) ok_but_less [of i "emit e r"] but by simp
    have "s_ph s' \<noteq> s_px s'" using c Cons.prems(5) by (simp add: copied_def)
    then obtain f where "r_trace (splice_run ios i (splice_sess io i r)) = r_trace (splice_sess io i r) @ f"
      "copied (getS i (splice_sess io i r)) (getS i (splice_run ios i (splice_sess io i r))) f"
      using Cons.IH [of "splice_sess io i r"] ok' g q Cons.prems by auto
    then show ?thesis
      using copied_trans [OF c [OF Cons.prems(5)]] q(1) g Cons.prems(3) by (auto simp: emit_def putS_def)
  qed
qed

text \<open>C7: The relay is transparent: over any number of rounds of a spliced session, however the
  sockets chop the data, the bytes it read from the phone after those it held are exactly the
  bytes it wrote to the proxy followed by the ones it holds now, in order; and the same in the
  other direction.\<close>

theorem splice_transparent:
  assumes "relay_ok r" and "i < SESS_MAX" and "s_used (getS i r)" and "s_st (getS i r) = S_SPLICE"
    and "s_ph (getS i r) \<noteq> s_px (getS i r)" and "list_all io_ok ios" and "s_used (getS i (splice_run ios i r))"
  shows "\<exists>e. r_trace (splice_run ios i r) = r_trace r @ e \<and>
    (let s = getS i r; s' = getS i (splice_run ios i r) in
     up_pending s @ recv_of (s_ph s) e = sent_of (s_px s) e @ up_pending s' \<and>
     down_pending s @ recv_of (s_px s) e = sent_of (s_ph s) e @ down_pending s')"
  using splice_run_copied [OF assms] by (auto simp: copied_def Let_def)

text \<open>The session of the witnesses: the phone's connection is accepted, its request arrives and
  the proxy is there.\<close>

lemma demo_relay_sess: "getS 0 demo_relay = sess_zero\<lparr>s_used := True, s_ph := 20, s_phone_port := 50000,
    s_orig_ip := 584628317, s_deadline := 11000, s_host := ''10.0.0.1''\<rparr>"
  "length (r_sess demo_relay) = 4" "r_cfg demo_relay = cfg_apply True ''10.1.1.1'' 3130"
proof -
  define r0 where "r0 = relay_start (snd demo_hooked) (cfg_apply True ''10.1.1.1'' 3130)"
  have ss: "r_sess r0 = [sess_zero, sess_zero, sess_zero, sess_zero]" by (simp add: r0_def relay_start_def numeral_eq_Suc)
  have fl: "r_flows r0 = snd demo_hooked" by (simp add: r0_def relay_start_def)
  have zu: "\<not> s_used sess_zero" by (simp add: sess_zero_def)
  have srv: "service_all demo_io [0..<4] r0 = r0" by (simp add: upt_rec ss zu)
  have room: "relay_room demo_io r0" by (simp add: relay_room_def ss zu demo_io_def)
  have lk: "flow_lookup (r_flows r0) 50000 3080 = Some (584628317, 80)"
    by (simp add: flow_lookup_def fl demo_find demo_flow_def)
  define s where "s = sess_zero\<lparr>s_used := True, s_tls := False, s_st := S_HEAD, s_ph := 20, s_px := -1, s_phone_port := 50000,
    s_orig_ip := 584628317, s_deadline := 1000 + 10000, s_host := ''10.0.0.1''\<rparr>"
  define r1 where "r1 = (putS 0 s r0)\<lparr>r_active := r_active r0 + 1\<rparr>"
  have acc: "do_accept demo_io 10 False r0 = r1"
    using lk by (simp add: do_accept_def demo_io_def ss zu s_def r1_def)
  have s1: "r_sess r1 = [s, sess_zero, sess_zero, sess_zero]" by (simp add: r1_def ss)
  have dl: "s_deadline s = 11000" by (simp add: s_def)
  have "\<not> past 1000 11000" by (simp add: past_def) 
  then have "expire_all demo_io [0..<4] r1 = r1" using dl by (simp add: upt_rec s1 zu demo_io_def)
  then have eq: "demo_relay = r1"
    unfolding demo_relay_def r0_def [symmetric] using srv room acc
    by (simp add: relay_round_def Let_def) (simp add: demo_io_def)
  show "getS 0 demo_relay = sess_zero\<lparr>s_used := True, s_ph := 20, s_phone_port := 50000,
    s_orig_ip := 584628317, s_deadline := 11000, s_host := ''10.0.0.1''\<rparr>"
    unfolding eq s1 by (simp add: s_def sess_zero_def)
  show "length (r_sess demo_relay) = 4" unfolding eq s1 by simp
  show "r_cfg demo_relay = cfg_apply True ''10.1.1.1'' 3130" unfolding eq by (simp add: r1_def r0_def relay_start_def)
qed

theorem relay_invariant_witness:
  "length (r_sess demo_relay) = SESS_MAX \<and> r_active demo_relay = used_count (r_sess demo_relay) \<and>
     r_active demo_relay \<le> 4 \<and> session_sound (getS 0 demo_relay)"
proof -
  have "getS 0 demo_relay \<in> set (r_sess demo_relay)"
    by (rule nth_mem) (simp add: demo_relay_sess(2))
  moreover have "s_used (getS 0 demo_relay)" by (simp add: demo_relay_sess(1))
  ultimately show ?thesis using relay_invariant [OF demo_relay_reach] by blast
qed

definition demo_head :: "u8 list" where
  "demo_head = to_bytes (enc_head ''GET'' ''/wml'' ''HTTP/1.1'' demo_fields)"

definition demo_io2 :: io where
  "demo_io2 = demo_io\<lparr>io_rd := (\<lambda>fd. fd = 20), io_recv := (\<lambda>fd n. if length demo_head \<le> n then RecvData demo_head else RecvAgain)\<rparr>"

definition demo_io3 :: io where
  "demo_io3 = demo_io\<lparr>io_rd := (\<lambda>fd. False), io_wr := (\<lambda>fd. fd = 30), io_send := (\<lambda>fd d. SendN (length d))\<rparr>"

lemma demo_head_len: "demo_head \<noteq> []" "length demo_head \<le> 2048"
  by (simp_all add: demo_head_def enc_head_def demo_fields_def enc_fields_def enc_field_def to_bytes_def)

lemma demo_ios_ok: "io_ok demo_io2" "io_ok demo_io3"
  using demo_io_ok demo_head_len(1) by (auto simp: io_ok_def demo_io2_def demo_io3_def)


lemma demo_proxy_called: "proxy_called demo_io2 0 demo_relay ConnOk"
  "proxy_called (demo_io2\<lparr>io_connect := \<lambda>fd a p. ConnInProgress\<rparr>) 0 demo_relay ConnInProgress"
  by (simp_all add: proxy_called_def proxy_addr_def demo_relay_sess demo_io2_def demo_io_def proxy_get_def cfg_apply_def
      strlcpy_def split: prod.splits)

lemma demo_fits:
  "length (proxy_head ''wap.example.org'' ''GET'' ''/wml'' ''HTTP/1.1'' demo_fields) + length [] \<le> UP_CAP"
  "''wap.example.org'' = request_host (io_ntoa demo_io2 (s_orig_ip (getS 0 demo_relay))) 80 demo_fields"
  "s_up (getS 0 demo_relay) @ demo_head = to_bytes (enc_head ''GET'' ''/wml'' ''HTTP/1.1'' demo_fields) @ []"
  using demo_host by (simp_all add: proxy_head_def demo_fields_def enc_fields_def enc_field_def kept_def conn_tail_def
      demo_relay_sess demo_head_def sess_zero_def demo_io2_def demo_io_def)

lemma demo_forward:
  "getS 0 (sess_service demo_io2 0 demo_relay) = (getS 0 demo_relay)\<lparr>s_host := ''wap.example.org'',
     s_up := to_bytes (proxy_head ''wap.example.org'' ''GET'' ''/wml'' ''HTTP/1.1'' demo_fields) @ [],
      s_px := io_socket demo_io2 0, s_st := S_SPLICE, s_up_off := 0, s_deadline := io_now demo_io2 + IDLE_MS\<rparr>"
proof (rule http_forward [OF _ refl _ _ demo_request demo_fits(3) _ _ _ demo_proxy_called(1) demo_fits(2,1)])
  fix q
  assume "0 < length (r_sess q)" "getS 0 q = (getS 0 demo_relay)\<lparr>s_host := ''wap.example.org'',
      s_up := to_bytes (proxy_head ''wap.example.org'' ''GET'' ''/wml'' ''HTTP/1.1'' demo_fields) @ [],
      s_px := io_socket demo_io2 0\<rparr>"
    "sess_service demo_io2 0 demo_relay = (case ConnOk of ConnOk \<Rightarrow> on_connected demo_io2 0 q
       | ConnInProgress \<Rightarrow> putS 0 ((getS 0 q)\<lparr>s_st := S_CONNECTING, s_deadline := io_now demo_io2 + SETUP_MS\<rparr>) q
       | ConnErr \<Rightarrow> sess_fail demo_io2 0 (q\<lparr>r_resolved_valid := False\<rparr>))"
  then show ?thesis using on_connected_http [of 0 q demo_io2] by (simp add: demo_relay_sess sess_zero_def)
qed (simp_all add: demo_relay_sess demo_head_len sess_zero_def, simp_all add: demo_io2_def demo_head_len demo_io_def)




definition demo_spliced :: relay where
  "demo_spliced = sess_service demo_io2 0 demo_relay"

lemma demo_spliced_ok: "relay_ok demo_spliced"
  unfolding demo_spliced_def
  by (rule sess_service_ok [OF demo_ios_ok(1) relay_reach_ok [OF demo_relay_reach]]) (simp_all add: demo_relay_sess)

lemma demo_spliced_facts: "s_used (getS 0 demo_spliced)" "s_st (getS 0 demo_spliced) = S_SPLICE"
  "s_ph (getS 0 demo_spliced) = 20" "s_px (getS 0 demo_spliced) = 30"
  "s_used (getS 0 (splice_run [demo_io3] 0 demo_spliced))"
proof -
  define s where "s = getS 0 demo_spliced"
  have f: "s_used s" "s_st s = S_SPLICE" "s_ph s = 20" "s_px s = 30" "s_up_off s = 0" "s_down s = []" "s_down_off s = 0"
    "\<not> s_ph_eof s" "\<not> s_px_eof s" "s_up s \<noteq> []"
    unfolding s_def demo_spliced_def demo_forward by (simp_all add: demo_relay_sess demo_io2_def demo_io_def)
      (simp_all add: sess_zero_def proxy_head_def to_bytes_def)
  then show "s_used (getS 0 demo_spliced)" "s_st (getS 0 demo_spliced) = S_SPLICE"
  "s_ph (getS 0 demo_spliced) = 20" "s_px (getS 0 demo_spliced) = 30" by (simp_all add: s_def)
  have l: "0 < length (r_sess demo_spliced)" using demo_spliced_ok by (simp add: relay_ok_def)
  have u: "splice_up demo_io3 s = Some (s\<lparr>s_up_off := 0, s_up := []\<rparr>, True, [EvSend 30 (s_up s)])" if True
    using f by (auto simp: splice_up_def demo_io3_def Let_def)
  show "s_used (getS 0 (splice_run [demo_io3] 0 demo_spliced))"
    using f l by (simp add: s_def [symmetric] splice_sess_def splice_up_def splice_down_def demo_io3_def Let_def emit_def)
qed

theorem splice_transparent_witness:
  "\<exists>e. r_trace (splice_run [demo_io3] 0 demo_spliced) = r_trace demo_spliced @ e \<and>
    (let s = getS 0 demo_spliced; s' = getS 0 (splice_run [demo_io3] 0 demo_spliced) in
     up_pending s @ recv_of (s_ph s) e = sent_of (s_px s) e @ up_pending s' \<and>
     down_pending s @ recv_of (s_px s) e = sent_of (s_ph s) e @ down_pending s')"
  by (rule splice_transparent [OF demo_spliced_ok]) (simp_all add: demo_spliced_facts demo_ios_ok del: splice_run.simps)

section \<open>Expiry and acceptance\<close>

lemma lookup_wf:
  assumes "flows_ok fs" and "flow_lookup fs p relay = Some (ip, port)"
  shows "ip \<noteq> GW_ADDR_N \<and> (port = 80 \<and> relay = RELAY_HTTP_PORT \<or> port = 443 \<and> relay = RELAY_TLS_PORT)"
proof -
  obtain j where "flow_find fs p = Some j" "f_state (fs ! j) = FLOW_ACTIVE" "f_relay_port (fs ! j) = relay"
    "f_orig_ip (fs ! j) = ip" "f_orig_port (fs ! j) = port"
    using assms(2) by (auto simp: flow_lookup_def split: option.splits if_splits)
  then show ?thesis using flows_ok_nth [OF assms(1), of j] flow_find_SomeD [of fs p j] by (auto simp: flow_wf_def)
qed

lemma sess_close_sess [simp]: "r_sess (sess_close io i r) = (r_sess r)[i := sess_zero]"
  by (simp add: sess_close_def Let_def emit_def)

lemma expire_all_sess:
  assumes "distinct is" and "\<forall>i\<in>set is. i < length (r_sess r)" and "j < length (r_sess r)"
  shows "getS j (expire_all io is r) =
    (if j \<in> set is \<and> s_used (getS j r) \<and> past (io_now io) (s_deadline (getS j r)) then sess_zero else getS j r)"
  using assms
proof (induction io "is" r rule: expire_all.induct)
  case (2 io i "is" r)
  define r' where "r' = (if s_used (getS i r) \<and> past (io_now io) (s_deadline (getS i r))
                       then (if s_st (getS i r) = S_SPLICE then sess_close io i r else sess_fail io i r) else r)"
  have s': "r_sess r' = (if s_used (getS i r) \<and> past (io_now io) (s_deadline (getS i r))
      then (r_sess r)[i := sess_zero] else r_sess r)"
    by (simp add: r'_def sess_fail_def)
  then have len: "length (r_sess r') = length (r_sess r)" by simp
  have "getS j (expire_all io is r') =
    (if j \<in> set is \<and> s_used (getS j r') \<and> past (io_now io) (s_deadline (getS j r')) then sess_zero else getS j r')"
    unfolding r'_def by (rule 2(1)) (use 2(2-4) len [unfolded r'_def] in auto)
  then show ?case using 2(2-4) s' by (auto simp: r'_def [symmetric] nth_list_update)
qed simp

text \<open>No session outlives its deadline: after any round whose \<open>select\<close> did not fail, no session in use
  is past its deadline by the round's clock, also across the clock's wrap-around.\<close>

theorem relay_round_expires:
  assumes "relay_reach r" and "io_ok io" and "0 \<le> io_select io"
  shows "\<forall>s\<in>set (r_sess (relay_round lh lt io r)). \<not> (s_used s \<and> past (io_now io) (s_deadline s))"
proof -
  define q where "q = (if io_select io > 0 then
                 (let r' = service_all io [0..<SESS_MAX] r;
                      r' = (if relay_room io r \<and> io_rd io lh then do_accept io lh False r' else r');
                      r' = (if relay_room io r \<and> io_rd io lt then do_accept io lt True r' else r')
                  in r')
               else r)"
  have ok: "relay_ok q"
    using relay_reach_ok [OF assms(1)] assms(2) unfolding q_def Let_def
    by (auto intro!: do_accept_ok service_all_ok)
  have run: "relay_round lh lt io r = expire_all io [0..<SESS_MAX] q"
    using assms(3) by (simp add: relay_round_def q_def Let_def)
  have okr: "relay_ok (relay_round lh lt io r)" using relay_round_ok [OF assms(2) relay_reach_ok [OF assms(1)]] .
  show ?thesis
  proof
    fix s
    assume "s \<in> set (r_sess (relay_round lh lt io r))"
    then obtain j where j: "j < 4" "s = getS j (relay_round lh lt io r)"
      using okr by (auto simp: relay_ok_def in_set_conv_nth)
    have "getS j (expire_all io [0..<4] q) =
      (if j \<in> set [0..<4] \<and> s_used (getS j q) \<and> past (io_now io) (s_deadline (getS j q)) then sess_zero else getS j q)"
      by (rule expire_all_sess) (use ok j in \<open>auto simp: relay_ok_def\<close>)
    then show "\<not> (s_used s \<and> past (io_now io) (s_deadline s))"
      using j run by (auto simp: sess_zero_def split: if_splits)
  qed
qed

theorem relay_round_expires_witness:
  "\<not> (s_used (getS 0 (relay_round 10 11 demo_io demo_relay)) \<and>
      past (io_now demo_io) (s_deadline (getS 0 (relay_round 10 11 demo_io demo_relay))))"
proof -
  have "length (r_sess (relay_round 10 11 demo_io demo_relay)) = 4"
    using relay_round_ok [OF demo_io_ok relay_reach_ok [OF demo_relay_reach]] by (simp add: relay_ok_def)
  then have "getS 0 (relay_round 10 11 demo_io demo_relay) \<in> set (r_sess (relay_round 10 11 demo_io demo_relay))"
    by simp
  moreover have "0 \<le> io_select demo_io" by (simp add: demo_io_def)
  ultimately show ?thesis using relay_round_expires [OF demo_relay_reach demo_io_ok] by blast
qed

text \<open>C27: The relay is no open proxy: a slot that accepting takes into use is for a connection from the
  phone's address, from a port whose flow the input hook redirected to this listener, that is, a
  connection to port 80 of the flow's server on the one and to port 443 on the other.  The whole new session
  is fixed: the accepted socket, that port, that server's address, and its address text as the host, which stands until
  the request names another; and no other slot is touched.\<close>

theorem accept_only_redirected:
  assumes "flows_ok (r_flows r)" and "i < length (r_sess r)"
    and "\<not> s_used (getS i r)" and "s_used (getS i (do_accept io l tls r))"
  shows "\<exists>c p ip. io_accept io l = Some (c, PHONE_ADDR_N, p) \<and> ip \<noteq> GW_ADDR_N \<and>
    flow_lookup (r_flows r) p (if tls then RELAY_TLS_PORT else RELAY_HTTP_PORT) = Some (ip, if tls then 443 else 80) \<and>
    do_accept io l tls r = r\<lparr>r_active := r_active r + 1, r_sess := (r_sess r)[i :=
      \<lparr>s_used = True, s_tls = tls, s_st = S_HEAD, s_ph = c, s_px = -1, s_phone_port = p, s_orig_ip = ip, s_up = [],
       s_up_off = 0, s_down = [], s_down_off = 0, s_ph_eof = False, s_px_eof = False, s_px_shut = False,
       s_deadline = io_now io + SETUP_MS, s_host = io_ntoa io ip\<rparr>]\<rparr>"
proof -
  note used = assms(3,4)
  obtain c a p where acc: "io_accept io l = Some (c, a, p)"
    using used by (cases "io_accept io l") (auto simp: do_accept_def)
  define lk where "lk = flow_lookup (r_flows r) p (if tls then RELAY_TLS_PORT else RELAY_HTTP_PORT)"
  have a: "a = PHONE_ADDR_N" using used acc by (auto simp: do_accept_def emit_def split: if_splits)
  obtain ip port where lk1: "lk = Some (ip, port)"
    using used acc a by (cases lk) (auto simp: do_accept_def lk_def [symmetric] emit_def)
  obtain k where k: "free_slot 0 (r_sess r) = Some k" "io_malloc io (UP_CAP + DOWN_SZ + 1)"
    using used acc a lk1
    by (cases "free_slot 0 (r_sess r)"; cases "io_malloc io (UP_CAP + DOWN_SZ + 1)")
      (auto simp: do_accept_def lk_def [symmetric] emit_def)
  have ki: "k = i" using assms acc a lk1 k
    by (cases "k = i") (auto simp: do_accept_def lk_def [symmetric])
  have "ip \<noteq> GW_ADDR_N \<and> port = (if tls then 443 else 80)"
    using lookup_wf [OF assms(1) lk1 [unfolded lk_def]] by (auto split: if_splits)
  then show ?thesis using acc a lk1 k ki
    by (intro exI [of _ c] exI [of _ p] exI [of _ ip])
      (simp add: do_accept_def lk_def [symmetric] putS_def sess_zero_def)
qed

lemma demo_start: "r_sess (relay_start (snd demo_hooked) (cfg_apply True ''10.1.1.1'' 3130)) = [sess_zero, sess_zero, sess_zero, sess_zero]"
  "r_flows (relay_start (snd demo_hooked) (cfg_apply True ''10.1.1.1'' 3130)) = snd demo_hooked"
  by (simp_all add: relay_start_def numeral_eq_Suc)

definition demo_accepting :: relay where
  "demo_accepting = relay_start (snd demo_hooked) (cfg_apply True ''10.1.1.1'' 3130)"

theorem accept_only_redirected_witness:
  "\<exists>c p ip. io_accept demo_io 10 = Some (c, PHONE_ADDR_N, p) \<and> ip \<noteq> GW_ADDR_N \<and>
    flow_lookup (r_flows demo_accepting) p (if False then RELAY_TLS_PORT else RELAY_HTTP_PORT) =
      Some (ip, if False then 443 else 80) \<and>
    do_accept demo_io 10 False demo_accepting = demo_accepting\<lparr>r_active := r_active demo_accepting + 1,
      r_sess := (r_sess demo_accepting)[0 :=
      \<lparr>s_used = True, s_tls = False, s_st = S_HEAD, s_ph = c, s_px = -1, s_phone_port = p, s_orig_ip = ip, s_up = [],
       s_up_off = 0, s_down = [], s_down_off = 0, s_ph_eof = False, s_px_eof = False, s_px_shut = False,
       s_deadline = io_now demo_io + SETUP_MS, s_host = io_ntoa demo_io ip\<rparr>]\<rparr>"
proof (rule accept_only_redirected)
  have "flow_lookup (snd demo_hooked) 50000 3080 = Some (584628317, 80)"
    by (simp add: flow_lookup_def demo_find demo_flow_def)
  then show "s_used (getS 0 (do_accept demo_io 10 False demo_accepting))"
    by (simp add: do_accept_def demo_accepting_def demo_start demo_io_def sess_zero_def)
  show "flows_ok (r_flows demo_accepting)" by (simp add: demo_accepting_def demo_start demo_hooked_ok)
qed (simp_all add: demo_accepting_def demo_start sess_zero_def)

text \<open>The room for a new session is looked at once, before both listeners are served.  With one slot
  left and a connection waiting on each, the second one is accepted only to be closed, and its
  flow is marked closed.\<close>

lemma free_slot_None: "(\<forall>s\<in>set ss. s_used s) \<Longrightarrow> free_slot k ss = None"
  by (induction ss arbitrary: k) auto

lemma used_count_full: "used_count ss = int (length ss) \<Longrightarrow> \<forall>s\<in>set ss. s_used s"
proof (induction ss)
  case (Cons s ss)
  then show ?case using used_count_le [of ss] by (auto split: if_splits)
qed simp

lemma last_slot_taken_twice:
  assumes "relay_ok r" and "used_count (r_sess r) = 3" and "free_slot 0 (r_sess r) = Some i"
    and "io_accept io lh = Some (c1, PHONE_ADDR_N, p1)" and "flow_lookup (r_flows r) p1 RELAY_HTTP_PORT = Some f1"
    and "io_accept io lt = Some (c2, PHONE_ADDR_N, p2)" and "flow_lookup (r_flows r) p2 RELAY_TLS_PORT = Some f2"
    and "\<And>n. io_malloc io n"
  shows "do_accept io lt True (do_accept io lh False r) =
    (let q = do_accept io lh False r in (emit [EvClose c2] q)\<lparr>r_flows := flow_mark_closed p2 (io_clk io) (r_flows q)\<rparr>)"
proof -
  define q where "q = do_accept io lh False r"
  have i: "i < length (r_sess r)" "\<not> s_used (getS i r)" using free_slot_Some [OF assms(3)] by auto
  obtain ip port where f1: "f1 = (ip, port)" by force
  define s where "s = sess_zero\<lparr>s_used := True, s_tls := False, s_st := S_HEAD, s_ph := c1, s_px := -1,
    s_phone_port := p1, s_orig_ip := ip, s_deadline := io_now io + SETUP_MS, s_host := io_ntoa io ip\<rparr>"
  have q: "s_used s" "r_sess q = (r_sess r)[i := s]" "r_flows q = r_flows r"
    using assms(3-5,8) f1 by (simp_all add: q_def do_accept_def s_def)
  then have "used_count (r_sess q) = 4" "length (r_sess q) = 4"
    using used_count_update [of i "r_sess r"] i assms(1,2) by (auto simp: relay_ok_def)
  then have "free_slot 0 (r_sess q) = None" by (intro free_slot_None used_count_full) simp
  then show ?thesis unfolding q_def [symmetric] using assms(6,7) q by (auto simp: do_accept_def Let_def split: prod.splits)
qed

end
