(* ===== verification/DnsFwd.thy ===== *)
theory DnsFwd
  imports Bytes
begin

unbundle bit_operations_syntax

text \<open>
  The DNS forwarder, \<open>src/main/dns_fwd.c\<close>: the reply cache, the answers the bridge makes up
  itself, the exchange with the upstream server, one pass of the server task, and the watchdog
  that restarts it.

  Packets are byte lists, a length is the length of its list; a reply of length 0 is the empty
  list.  Times are the 32-bit millisecond clock.  What the sockets deliver is a parameter.
\<close>

abbreviation (input) DNS_CACHE_SIZE :: nat where "DNS_CACHE_SIZE \<equiv> 16"
abbreviation (input) DNS_MAX_PACKET :: nat where "DNS_MAX_PACKET \<equiv> 512"
abbreviation (input) DNS_WATCHDOG_MS :: u32 where "DNS_WATCHDOG_MS \<equiv> 15000"
abbreviation (input) DNS_WATCHDOG_TICKS :: u32 where "DNS_WATCHDOG_TICKS \<equiv> 2"

section \<open>The cache\<close>

record dns_entry =
  e_valid :: bool
  e_hash :: u16
  e_qlen :: nat
  e_rlen :: nat
  e_saved_ms :: u32
  e_query :: "u8 list"
  e_reply :: "u8 list"

definition entry_zero :: dns_entry where
  "entry_zero = \<lparr>e_valid = False, e_hash = 0, e_qlen = 0, e_rlen = 0, e_saved_ms = 0, e_query = [], e_reply = []\<rparr>"

record dns_cache =
  c_entries :: "dns_entry list"
  c_next :: nat

definition cache_zero :: dns_cache where
  "cache_zero = \<lparr>c_entries = replicate DNS_CACHE_SIZE entry_zero, c_next = 0\<rparr>"

definition dns_query_hash :: "u8 list \<Rightarrow> u16" where
  "dns_query_hash q =
     (let h = foldl (\<lambda>(h::u32) b. h * 31 + ucast b) 0 (drop 12 (take 40 q))
      in ucast (h XOR drop_bit 16 h))"

text \<open>The lookup's loop: the entries with those found stale made invalid, and the reply.\<close>

fun lookup_loop :: "u8 list \<Rightarrow> u16 \<Rightarrow> u32 \<Rightarrow> dns_entry list \<Rightarrow> dns_entry list \<times> u8 list option" where
  "lookup_loop query qhash now [] = ([], None)"
| "lookup_loop query qhash now (e # es) =
     (if \<not> e_valid e \<or> e_hash e \<noteq> qhash \<or> e_qlen e \<noteq> length query then
        (let (es, r) = lookup_loop query qhash now es in (e # es, r))
      else if now - e_saved_ms e > 60000 then
        (let (es, r) = lookup_loop query qhash now es in (e\<lparr>e_valid := False\<rparr> # es, r))
      else if drop 12 (e_query e) \<noteq> drop 12 query then
        (let (es, r) = lookup_loop query qhash now es in (e # es, r))
      else (e # es, Some (take 2 query @ drop 2 (e_reply e))))"

definition dns_cache_lookup :: "u8 list \<Rightarrow> u32 \<Rightarrow> dns_cache \<Rightarrow> dns_cache \<times> u8 list option" where
  "dns_cache_lookup query now c =
     (if length query < 12 then (c, None)
      else let (es, r) = lookup_loop query (dns_query_hash query) now (c_entries c)
           in (c\<lparr>c_entries := es\<rparr>, r))"

definition dns_cache_store :: "u8 list \<Rightarrow> u8 list \<Rightarrow> u32 \<Rightarrow> dns_cache \<Rightarrow> dns_cache" where
  "dns_cache_store query reply now c =
     (if length query < 12 \<or> length query > DNS_MAX_PACKET \<or> length reply < 12 \<or> length reply > DNS_MAX_PACKET then c
      else let e = \<lparr>e_valid = True, e_hash = dns_query_hash query, e_qlen = length query, e_rlen = length reply,
                   e_saved_ms = now, e_query = [0, 0] @ drop 2 query, e_reply = [0, 0] @ drop 2 reply\<rparr>
           in \<lparr>c_entries = (c_entries c)[c_next c := e], c_next = (c_next c + 1) mod DNS_CACHE_SIZE\<rparr>)"

section \<open>Answers made up here\<close>

text \<open>The end of the first question's name; None is a read outside the query.\<close>

function qname_end :: "u8 list \<Rightarrow> nat \<Rightarrow> nat option" where
  "qname_end q off =
     (if off < length q - 4 then
        (case rd8 q off of None \<Rightarrow> None
         | Some len \<Rightarrow>
             if len = 0 then Some (off + 1)
             else if 192 \<le> len then Some (off + 2)
             else qname_end q (off + 1 + len))
      else Some off)"
  by pat_completeness auto
termination
  by (relation "measure (\<lambda>(q, off). length q - off)") auto

declare qname_end.simps [simp del]

definition dns_hdr :: "u8 list \<Rightarrow> u8 \<Rightarrow> u8 \<Rightarrow> u8 list" where
  "dns_hdr query rcode an = take 2 query @ [0x81, rcode, 0, 1, 0, an, 0, 0, 0, 0]"

definition answer_gw :: "u8 list" where
  "answer_gw = [0xC0, 0x0C, 0, 1, 0, 1, 0, 0, 0, 0x3C, 0, 4, 192, 168, 7, 1]"

definition question_copy :: "u8 list \<Rightarrow> nat \<Rightarrow> u8 list" where
  "question_copy query rmax =
     (let qsz = min (length query) 200 - 12
      in if qsz > 0 \<and> 12 + qsz \<le> rmax then take qsz (drop 12 query) else [])"

definition dns_make_captive_reply :: "u8 list \<Rightarrow> nat \<Rightarrow> u8 list option" where
  "dns_make_captive_reply query rmax =
     (if length query < 12 \<or> rmax < 28 then Some [] else
      case qname_end query 12 of None \<Rightarrow> None | Some off \<Rightarrow>
      if off + 4 > length query then Some [] else
      (case rd16 query off of None \<Rightarrow> None | Some qtype \<Rightarrow>
       if qtype \<noteq> 1 then
         (if rmax < 12 then Some [] else Some (dns_hdr query 0x83 0 @ question_copy query rmax))
       else
         (let qsection = min (length query) 200 - 12 in
          if qsection = 0 \<or> 12 + qsection + 16 > rmax then Some []
          else Some (dns_hdr query 0x80 1 @ take qsection (drop 12 query) @ answer_gw))))"

definition dns_make_servfail_reply :: "u8 list \<Rightarrow> nat \<Rightarrow> u8 list" where
  "dns_make_servfail_reply query rmax =
     (if length query < 12 \<or> rmax < 12 then []
      else dns_hdr query 0x82 0 @ question_copy query rmax)"

section \<open>The name for the log\<close>

text \<open>The buffer \<open>name\<close> has \<open>nmax\<close> cells, None one that was never written.\<close>

definition printable :: "u8 \<Rightarrow> char" where
  "printable b = (if 32 < unat b \<and> unat b < 127 then char_of (unat b) else CHR ''?'')"

fun put_label :: "nat \<Rightarrow> u8 list \<Rightarrow> char option list \<times> nat \<Rightarrow> char option list \<times> nat" where
  "put_label nmax [] (name, w) = (name, w)"
| "put_label nmax (b # bs) (name, w) =
     (if w < nmax - 1 then put_label nmax bs (name[w := Some (printable b)], w + 1) else (name, w))"

text \<open>The loop ends with the position after the name, or returns early.\<close>

function desc_loop :: "u8 list \<Rightarrow> nat \<Rightarrow> nat \<Rightarrow> char option list \<times> nat \<Rightarrow> (char option list \<times> nat \<times> nat option) option" where
  "desc_loop q nmax off (name, w) =
     (if off < length q then
        (case rd8 q off of None \<Rightarrow> None
         | Some len \<Rightarrow>
             if len = 0 then Some (name, w, Some (off + 1))
             else if 64 \<le> len \<or> off + 1 + len > length q then Some (name, w, None)
             else
               let (name, w) = (if w \<noteq> 0 \<and> w < nmax - 1 then (name[w := Some (CHR ''.'')], w + 1) else (name, w))
               in desc_loop q nmax (off + 1 + len) (put_label nmax (take len (drop (off + 1) q)) (name, w)))
      else Some (name, w, Some off))"
  by pat_completeness auto
termination
  by (relation "measure (\<lambda>(q, nmax, off, nw). length q - off)") auto

declare desc_loop.simps [simp del]

definition dns_query_desc :: "u8 list \<Rightarrow> nat \<Rightarrow> (char option list \<times> nat) option" where
  "dns_query_desc q nmax =
     (let name = (replicate nmax None)[0 := Some (CHR 0x00)] in
      case desc_loop q nmax 12 (name, 0) of
        None \<Rightarrow> None
      | Some (name, w, None) \<Rightarrow> Some (name, 0)
      | Some (name, w, Some off) \<Rightarrow>
          (if off + 2 \<le> length q
           then (case rd16 q off of None \<Rightarrow> None | Some t \<Rightarrow> Some (name[w := Some (CHR 0x00)], t))
           else Some (name[w := Some (CHR 0x00)], 0)))"

section \<open>The upstream server\<close>

datatype dns_rx = RxAgain | RxError | RxPacket "u8 list" u32 u16

text \<open>Dropping what is queued: packets up to the first failing receive.\<close>

fun dns_drain :: "dns_rx list \<Rightarrow> dns_rx list" where
  "dns_drain (RxPacket b a p # rx) = dns_drain rx"
| "dns_drain (RxAgain # rx) = rx"
| "dns_drain (RxError # rx) = rx"
| "dns_drain [] = []"

text \<open>The waiting loop over its passes: the clock before each, and what the receive gives.  None
  is a loop still running when the passes end, \<open>Some None\<close> is false.\<close>

definition rx_ours :: "u32 \<Rightarrow> u16 \<Rightarrow> u8 list \<Rightarrow> u8 list \<Rightarrow> u32 \<Rightarrow> u16 \<Rightarrow> bool" where
  "rx_ours ip port query b a p \<longleftrightarrow> length b \<ge> 12 \<and> take 2 b = take 2 query \<and> a = ip \<and> p = port"

fun forward_wait :: "u32 \<Rightarrow> u16 \<Rightarrow> u8 list \<Rightarrow> int \<Rightarrow> (int \<times> dns_rx) list \<Rightarrow> u8 list option option" where
  "forward_wait ip port query deadline [] = None"
| "forward_wait ip port query deadline ((t, rx) # rest) =
     (if \<not> t < deadline then Some None
      else (case rx of
              RxAgain \<Rightarrow> forward_wait ip port query deadline rest
            | RxError \<Rightarrow> Some None
            | RxPacket b a p \<Rightarrow> if rx_ours ip port query b a p then Some (Some b)
                               else forward_wait ip port query deadline rest))"

definition dns_forward :: "u32 \<Rightarrow> u16 \<Rightarrow> u8 list \<Rightarrow> dns_rx list \<Rightarrow> bool \<Rightarrow> int \<Rightarrow> (int \<times> dns_rx) list \<Rightarrow>
    dns_rx list \<times> u8 list option option" where
  "dns_forward ip port query queued send_ok t0 passes =
     (let left = dns_drain queued in
      (left, if \<not> send_ok then Some None else forward_wait ip port query (t0 + 2000 * 1000) passes))"

definition dns_get_upstream :: "u32 option \<Rightarrow> u32 \<times> u16" where
  "dns_get_upstream sta_dns =
     (case sta_dns of Some a \<Rightarrow> if a \<noteq> 0 then (a, 53) else (0x08080808, 53) | None \<Rightarrow> (0x08080808, 53))"

section \<open>A pass of the server task\<close>

text \<open>\<open>fwd\<close> is what \<open>dns_forward\<close> returns for this query, \<open>now1\<close> and \<open>now2\<close> the clock at the lookup
  and at the store.  The result is the reply sent, or None when nothing is.\<close>

definition dns_serve :: "u8 list \<Rightarrow> bool \<Rightarrow> u8 list option \<Rightarrow> u32 \<Rightarrow> u32 \<Rightarrow> dns_cache \<Rightarrow> u8 list option \<times> dns_cache" where
  "dns_serve query wifi_up fwd now1 now2 c =
     (if length query < 12 then (None, c) else
      let (c, hit) = dns_cache_lookup query now1 c;
          (c, have) = (case hit of Some r \<Rightarrow> (c, Some r)
             | None \<Rightarrow> (case (if wifi_up then fwd else None) of
                  Some r \<Rightarrow> (dns_cache_store query r now2 c, Some r)
                | None \<Rightarrow> (c, None)));
          reply = (case have of Some r \<Rightarrow> r
             | None \<Rightarrow> if wifi_up then dns_make_servfail_reply query DNS_MAX_PACKET
                      else (case dns_make_captive_reply query DNS_MAX_PACKET of Some r \<Rightarrow> r | None \<Rightarrow> []))
      in (if reply = [] then None else Some reply, c))"

section \<open>The task and its watchdog\<close>

text \<open>\<open>dns_srv_sock\<close> and \<open>dns_ext_sock\<close> are open together or both closed (-1).\<close>

record dns_state =
  d_cache :: dns_cache
  d_handle :: bool         \<comment> \<open>\<open>dns_task_handle \<noteq> NULL\<close>\<close>
  d_alive_ms :: u32
  d_restart :: bool
  d_stuck :: u32           \<comment> \<open>the static counter of the watchdog\<close>
  d_socks :: bool

definition dns_task_enter :: "bool \<Rightarrow> bool \<Rightarrow> bool \<Rightarrow> dns_state \<Rightarrow> bool \<times> dns_state" where
  "dns_task_enter srv_ok ext_ok bind_ok s =
     (let s = s\<lparr>d_restart := False\<rparr> in
      if srv_ok \<and> ext_ok \<and> bind_ok then (True, s\<lparr>d_socks := True\<rparr>)
      else (False, s\<lparr>d_socks := False, d_handle := False\<rparr>))"

text \<open>The head of the loop: the flag ends the task, else it shows it is alive.\<close>

definition dns_task_pass :: "u32 \<Rightarrow> dns_state \<Rightarrow> bool \<times> dns_state" where
  "dns_task_pass now s =
     (if d_restart s then (False, s\<lparr>d_socks := False, d_handle := False\<rparr>)
      else (True, s\<lparr>d_alive_ms := now\<rparr>))"

definition dns_fwd_start :: "u32 \<Rightarrow> bool \<Rightarrow> dns_state \<Rightarrow> dns_state" where
  "dns_fwd_start now created s = s\<lparr>d_alive_ms := now, d_handle := created\<rparr>"

text \<open>\<open>during\<close> is what the old task does in the 1.5 s wait.\<close>

definition dns_fwd_watchdog_check :: "u32 \<Rightarrow> u32 \<Rightarrow> bool \<Rightarrow> (dns_state \<Rightarrow> dns_state) \<Rightarrow> dns_state \<Rightarrow> bool \<times> dns_state" where
  "dns_fwd_watchdog_check now now2 created during s =
     (if d_handle s \<and> now - d_alive_ms s > DNS_WATCHDOG_MS then
        (let s = s\<lparr>d_stuck := d_stuck s + 1\<rparr> in
         if d_stuck s \<ge> DNS_WATCHDOG_TICKS then
           (let s = s\<lparr>d_restart := True, d_handle := False\<rparr>;
                s = during s;
                s = s\<lparr>d_cache := cache_zero, d_alive_ms := now\<rparr>;
                s = dns_fwd_start now2 created s
            in (True, s\<lparr>d_stuck := 0\<rparr>))
         else (False, s))
      else (False, s\<lparr>d_stuck := 0\<rparr>))"

section \<open>The cache against its history\<close>

text \<open>A cache reached by stores and lookups, with the stores that made it, latest first.\<close>

inductive cache_reach :: "(u32 \<times> u8 list \<times> u8 list) list \<Rightarrow> dns_cache \<Rightarrow> bool" where
  cache_init: "cache_reach [] cache_zero"
| cache_store: "cache_reach h c \<Longrightarrow> cache_reach ((now, q, r) # h) (dns_cache_store q r now c)"
| cache_lookup: "cache_reach h c \<Longrightarrow> cache_reach h (fst (dns_cache_lookup q now c))"

definition entry_for :: "(u32 \<times> u8 list \<times> u8 list) list \<Rightarrow> dns_entry \<Rightarrow> bool" where
  "entry_for h e \<longleftrightarrow> (e_valid e \<longrightarrow> (\<exists>q r. (e_saved_ms e, q, r) \<in> set h \<and> 12 \<le> length q \<and> 12 \<le> length r \<and>
     e_qlen e = length q \<and> e_query e = [0, 0] @ drop 2 q \<and> e_reply e = [0, 0] @ drop 2 r))"

lemma entry_for_invalid: "entry_for h (e\<lparr>e_valid := False\<rparr>)"
  by (simp add: entry_for_def)

lemma lookup_loop_entries: "\<forall>e\<in>set es. entry_for h e \<Longrightarrow> \<forall>e\<in>set (fst (lookup_loop q qh now es)). entry_for h e"
  by (induction es) (auto simp: entry_for_invalid split: prod.splits if_splits)

lemma lookup_loop_length [simp]: "length (fst (lookup_loop q qh now es)) = length es"
  by (induction es) (auto split: prod.splits)

lemma cache_reach_inv:
  "cache_reach h c \<Longrightarrow> length (c_entries c) = DNS_CACHE_SIZE \<and> c_next c < DNS_CACHE_SIZE \<and> (\<forall>e\<in>set (c_entries c). entry_for h e)"
proof (induction rule: cache_reach.induct)
  case cache_init
  then show ?case by (simp add: cache_zero_def entry_for_def entry_zero_def)
next
  case (cache_store h c now q r)
  have mono: "entry_for ((now, q, r) # h) e" if "entry_for h e" for e
    using that by (fastforce simp: entry_for_def)
  show ?case
  proof (cases "length q < 12 \<or> length q > DNS_MAX_PACKET \<or> length r < 12 \<or> length r > DNS_MAX_PACKET")
    case True
    then show ?thesis using cache_store mono by (simp add: dns_cache_store_def)
  next
    case False
    define e where "e = \<lparr>e_valid = True, e_hash = dns_query_hash q, e_qlen = length q, e_rlen = length r,
                   e_saved_ms = now, e_query = [0, 0] @ drop 2 q, e_reply = [0, 0] @ drop 2 r\<rparr>"
    have "entry_for ((now, q, r) # h) e"
      unfolding entry_for_def using False by (intro impI exI [of _ q] exI [of _ r]) (simp add: e_def)
    moreover have "dns_cache_store q r now c =
      \<lparr>c_entries = (c_entries c)[c_next c := e], c_next = (c_next c + 1) mod DNS_CACHE_SIZE\<rparr>"
      using False by (simp add: dns_cache_store_def e_def)
    ultimately show ?thesis using cache_store mono set_update_subset_insert [of "c_entries c" "c_next c" e]
      by auto
  qed
next
  case (cache_lookup h c q now)
  then show ?case using lookup_loop_entries [of "c_entries c" h]
    by (auto simp: dns_cache_lookup_def split: prod.splits) (metis fst_conv lookup_loop_length, metis fst_conv)
qed

lemma lookup_loop_Some:
  "snd (lookup_loop query qh now es) = Some r \<Longrightarrow>
     \<exists>e\<in>set es. e_valid e \<and> e_qlen e = length query \<and> now - e_saved_ms e \<le> 60000 \<and>
       drop 12 (e_query e) = drop 12 query \<and> r = take 2 query @ drop 2 (e_reply e)"
  by (induction es) (auto split: prod.splits if_splits)

lemma lookup_loop_hit:
  "e \<in> set es \<Longrightarrow> e_valid e \<Longrightarrow> e_hash e = qh \<Longrightarrow> e_qlen e = length query \<Longrightarrow> now - e_saved_ms e \<le> 60000 \<Longrightarrow>
   drop 12 (e_query e) = drop 12 query \<Longrightarrow> \<exists>r. snd (lookup_loop query qh now es) = Some r"
  by (induction es) (auto split: prod.splits)

lemma drop_query: "12 \<le> length q \<Longrightarrow> drop 12 ([0, 0] @ drop 2 q) = drop 12 (q :: u8 list)"
  by (simp add: numeral_eq_Suc)

lemma lookup_sound:
  assumes "cache_reach h c" and "dns_cache_lookup query now c = (c', Some r)"
  shows "\<exists>t q rep. (t, q, rep) \<in> set h \<and> length q = length query \<and> drop 12 q = drop 12 query \<and>
     12 \<le> length rep \<and> now - t \<le> 60000 \<and> r = take 2 query @ drop 2 rep"
proof -
  have "snd (lookup_loop query (dns_query_hash query) now (c_entries c)) = Some r"
    using assms(2) by (auto simp: dns_cache_lookup_def split: prod.splits if_splits)
  then obtain e where e: "e \<in> set (c_entries c)" "e_valid e" "e_qlen e = length query" "now - e_saved_ms e \<le> 60000"
    "drop 12 (e_query e) = drop 12 query" "r = take 2 query @ drop 2 (e_reply e)"
    using lookup_loop_Some by blast
  then obtain q rep where q: "(e_saved_ms e, q, rep) \<in> set h" "12 \<le> length q" "12 \<le> length rep"
     "e_qlen e = length q" "e_query e = [0, 0] @ drop 2 q" "e_reply e = [0, 0] @ drop 2 rep"
    using cache_reach_inv [OF assms(1)] by (auto simp: entry_for_def)
  then show ?thesis using e drop_query [OF q(2)] by auto
qed

lemma hash_cong: "12 \<le> length q \<Longrightarrow> 12 \<le> length p \<Longrightarrow> drop 12 q = drop 12 p \<Longrightarrow> dns_query_hash q = dns_query_hash p"
  by (simp add: dns_query_hash_def drop_take)

lemma store_lookup:
  assumes "cache_reach h c" and "12 \<le> length q" "length q \<le> DNS_MAX_PACKET" "12 \<le> length rep" "length rep \<le> DNS_MAX_PACKET"
    and "length query = length q" "drop 12 query = drop 12 q" and "now - t \<le> 60000"
  shows "\<exists>r. snd (dns_cache_lookup query now (dns_cache_store q rep t c)) = Some r"
proof -
  define e where "e = \<lparr>e_valid = True, e_hash = dns_query_hash q, e_qlen = length q, e_rlen = length rep,
                   e_saved_ms = t, e_query = [0, 0] @ drop 2 q, e_reply = [0, 0] @ drop 2 rep\<rparr>"
  define es where "es = (c_entries c)[c_next c := e]"
  have "e \<in> set es" unfolding es_def
    using cache_reach_inv [OF assms(1)] by (intro set_update_memI) simp
  moreover have "dns_query_hash q = dns_query_hash query"
    by (rule hash_cong) (use assms in auto)
  moreover have "drop 12 (e_query e) = drop 12 query"
    using assms(7) drop_query [OF assms(2)] by (simp add: e_def)
  ultimately have "\<exists>r. snd (lookup_loop query (dns_query_hash query) now es) = Some r"
    using assms by (intro lookup_loop_hit [of e]) (auto simp: e_def)
  moreover have "c_entries (dns_cache_store q rep t c) = es"
    using assms by (simp add: dns_cache_store_def es_def e_def Let_def)
  ultimately show ?thesis using assms by (auto simp: dns_cache_lookup_def split: prod.splits)
qed

section \<open>Facts about the made-up answers\<close>

lemma qname_end_ok: "12 \<le> off \<Longrightarrow> \<exists>e. qname_end q off = Some e \<and> 12 \<le> e"
proof (induction q off rule: qname_end.induct)
  case (1 q off)
  show ?case
  proof (cases "off < length q - 4")
    case False
    then show ?thesis using 1 by (subst qname_end.simps) simp
  next
    case True
    then have r: "rd8 q off = Some (unat (q ! off))" by (simp add: rd_ok)
    show ?thesis
      using 1(1) [OF True r] 1(2) True r by (subst qname_end.simps) auto
  qed
qed

lemma captive_safe: "\<exists>r. dns_make_captive_reply q rmax = Some r"
proof -
  obtain e where e: "qname_end q 12 = Some e" using qname_end_ok [of 12 q] by auto
  show ?thesis
  proof (cases "length q < e + 4")
    case False
    then have "rd16 q e = Some (256 * unat (q ! e) + unat (q ! (e + 1)))" by (intro rd_ok) simp
    then show ?thesis using e by (simp add: dns_make_captive_reply_def Let_def)
  qed (use e in \<open>simp add: dns_make_captive_reply_def\<close>)
qed

lemma put_label_length [simp]: "length (fst (put_label nmax bs nw)) = length (fst nw)"
  by (induction nmax bs nw rule: put_label.induct) auto

lemma desc_loop_safe: "\<exists>x. desc_loop q nmax off nw = Some x"
proof (induction q nmax off nw rule: desc_loop.induct)
  case (1 q nmax off name w)
  show ?case
  proof (cases "off < length q")
    case True
    then have r: "rd8 q off = Some (unat (q ! off))" by (simp add: rd_ok)
    show ?thesis
      using 1 [OF True r] True r by (subst desc_loop.simps) (auto simp: Let_def split: prod.splits)
  qed (subst desc_loop.simps, simp)
qed

text \<open>A question as a resolver asks it: the labels of the name, the type and class IN.\<close>

definition enc_qname :: "u8 list list \<Rightarrow> u8 list" where
  "enc_qname ls = concat (map (\<lambda>l. of_nat (length l) # l) ls) @ [0]"

definition label_ok :: "u8 list \<Rightarrow> bool" where
  "label_ok l \<longleftrightarrow> 0 < length l \<and> length l < 64"

definition enc_query :: "u8 list \<Rightarrow> u8 list \<Rightarrow> u8 list list \<Rightarrow> nat \<Rightarrow> u8 list" where
  "enc_query txid hdr ls qtype = txid @ hdr @ enc_qname ls @ be16 qtype @ be16 1"

lemma qname_end_enc:
  "list_all label_ok ls \<Longrightarrow> length r \<ge> 4 \<Longrightarrow>
     qname_end (pre @ enc_qname ls @ r) (length pre) = Some (length pre + length (enc_qname ls))"
proof (induction ls arbitrary: pre)
  case Nil
  have "rd8 (pre @ of_nat 0 # r) (length pre) = Some 0" by (rule rd8_at) auto
  then show ?case using Nil by (subst qname_end.simps) (simp add: enc_qname_def)
next
  case (Cons l ls)
  define q where "q = pre @ enc_qname (l # ls) @ r"
  have q: "q = pre @ of_nat (length l) # (l @ enc_qname ls @ r)" by (simp add: q_def enc_qname_def)
  have l: "0 < length l" "length l < 64" using Cons.prems by (auto simp: label_ok_def)
  have r: "rd8 q (length pre) = Some (length l)" unfolding q by (rule rd8_at) (use l in auto)
  have lt: "length pre < length q - 4" using Cons.prems l by (simp add: q)
  have q2: "q = (pre @ of_nat (length l) # l) @ enc_qname ls @ r" by (simp add: q)
  have "qname_end q (length pre) = qname_end q (length pre + 1 + length l)"
    using r lt l by (subst qname_end.simps) simp
  also have "\<dots> = qname_end ((pre @ of_nat (length l) # l) @ enc_qname ls @ r) (length (pre @ of_nat (length l) # l))"
    by (simp add: q2)
  also have "\<dots> = Some (length (pre @ of_nat (length l) # l) + length (enc_qname ls))"
    by (rule Cons.IH) (use Cons.prems in auto)
  finally show ?case by (simp add: q_def enc_qname_def)
qed

lemma captive_query:
  assumes "length txid = 2" "length hdr = 10" "list_all label_ok ls" "qtype < 65536"
  shows "dns_make_captive_reply (enc_query txid hdr ls qtype) DNS_MAX_PACKET = Some
    (let question = take 188 (enc_qname ls @ be16 qtype @ be16 1)
     in if qtype = 1 then dns_hdr txid 0x80 1 @ question @ answer_gw else dns_hdr txid 0x83 0 @ question)"
proof -
  define q where "q = enc_query txid hdr ls qtype"
  define question where "question = enc_qname ls @ be16 qtype @ be16 1"
  have q: "q = (txid @ hdr) @ question" by (simp add: q_def enc_query_def question_def)
  have lq: "length q = 12 + length question" using assms by (simp add: q)
  have lqs: "length question = length (enc_qname ls) + 4" by (simp add: question_def)
  have e: "qname_end q 12 = Some (12 + length (enc_qname ls))"
    using qname_end_enc [OF assms(3), of "be16 qtype @ be16 1" "txid @ hdr"] assms(1,2)
    by (simp add: q question_def)
  have t: "rd16 q (12 + length (enc_qname ls)) = Some qtype"
    using rd16_at [of "12 + length (enc_qname ls)" "txid @ hdr @ enc_qname ls" qtype "be16 1"] assms
    by (simp add: q question_def)
  have d: "drop 12 q = question" "take 2 q = txid" "take (min (length q) 200 - 12) question = take 188 question"
    using assms(1,2) by (simp_all add: q min_def)
  have m: "\<not> min (16 + length (enc_qname ls)) 200 \<le> 12" "min (length q) 200 - 12 \<le> 188" by simp_all
  show ?thesis
    unfolding q_def [symmetric] question_def [symmetric]
    using e t d m lq lqs by (simp add: dns_make_captive_reply_def Let_def question_copy_def dns_hdr_def q_def [symmetric] assms(1))
qed

lemma take2_reply: "length query \<ge> 2 \<Longrightarrow> take 2 (take 2 query @ r) = take 2 query"
  by simp

lemma hdr_id: "length query \<ge> 12 \<Longrightarrow> take 2 (dns_hdr query rc an @ r) = take 2 query"
  by (simp add: dns_hdr_def)

lemma captive_form:
  assumes "dns_make_captive_reply query rmax = Some r"
  shows "r = [] \<or> (\<exists>rc an z. r = dns_hdr query rc an @ z)"
proof (cases "length query < 12 \<or> rmax < 28")
  case True
  then show ?thesis using assms by (simp add: dns_make_captive_reply_def)
next
  case False
  obtain e where e: "qname_end query 12 = Some e" using qname_end_ok [of 12 query] by auto
  show ?thesis
  proof (cases "rd16 query e")
    case None
    then show ?thesis using assms False e by (simp add: dns_make_captive_reply_def split: if_splits)
  next
    case (Some t)
    then show ?thesis using assms False e
      by (simp add: dns_make_captive_reply_def Let_def split: if_splits) blast+
  qed
qed

lemma captive_id:
  assumes "length query \<ge> 12" and "dns_make_captive_reply query rmax = Some r" and "r \<noteq> []"
  shows "take 2 r = take 2 query"
  using captive_form [OF assms(2)] assms(3) hdr_id [OF assms(1)] by blast

lemma forward_wait_spec:
  "forward_wait ip port query dl passes = Some (Some b) \<longleftrightarrow>
   (\<exists>pre t a p post. passes = pre @ (t, RxPacket b a p) # post \<and> t < dl \<and> rx_ours ip port query b a p \<and>
     (\<forall>(t, rx)\<in>set pre. t < dl \<and> rx \<noteq> RxError \<and> (\<forall>b a p. rx = RxPacket b a p \<longrightarrow> \<not> rx_ours ip port query b a p)))"
  (is "?L passes \<longleftrightarrow> ?R passes")
proof (induction passes)
  case Nil
  then show ?case by simp
next
  case (Cons x rest)
  obtain t rx where x: "x = (t, rx)" by force
  let ?skip = "t < dl \<and> rx \<noteq> RxError \<and> (\<forall>b a p. rx = RxPacket b a p \<longrightarrow> \<not> rx_ours ip port query b a p)"
  show ?case
  proof (cases ?skip)
    case True
    then have "?L (x # rest) = ?L rest" by (cases rx) (auto simp: x)
    moreover have "?R (x # rest) = ?R rest"
    proof
      assume "?R (x # rest)"
      then obtain pre t' a p post where h: "x # rest = pre @ (t', RxPacket b a p) # post" "t' < dl" "rx_ours ip port query b a p"
        "\<forall>(t, rx)\<in>set pre. t < dl \<and> rx \<noteq> RxError \<and> (\<forall>b a p. rx = RxPacket b a p \<longrightarrow> \<not> rx_ours ip port query b a p)"
        by blast
      then obtain pre' where pre: "pre = (t, rx) # pre'" using True x by (cases pre) auto
      show "?R rest"
        by (intro exI [of _ pre'] exI [of _ t'] exI [of _ a] exI [of _ p] exI [of _ post]) (use h x pre in auto)
    next
      assume "?R rest"
      then obtain pre t' a p post where h: "rest = pre @ (t', RxPacket b a p) # post" "t' < dl" "rx_ours ip port query b a p"
        "\<forall>(t, rx)\<in>set pre. t < dl \<and> rx \<noteq> RxError \<and> (\<forall>b a p. rx = RxPacket b a p \<longrightarrow> \<not> rx_ours ip port query b a p)"
        by blast
      then show "?R (x # rest)" using True
        by (intro exI [of _ "x # pre"] exI [of _ t'] exI [of _ a] exI [of _ p] exI [of _ post]) (auto simp: x)
    qed
    ultimately show ?thesis using Cons.IH by simp
  next
    case False
    have "?R (x # rest) \<longleftrightarrow> t < dl \<and> (\<exists>a p. rx = RxPacket b a p \<and> rx_ours ip port query b a p)"
    proof
      assume "?R (x # rest)"
      then obtain pre t' a p post where h: "x # rest = pre @ (t', RxPacket b a p) # post" "t' < dl" "rx_ours ip port query b a p"
        "\<forall>(t, rx)\<in>set pre. t < dl \<and> rx \<noteq> RxError \<and> (\<forall>b a p. rx = RxPacket b a p \<longrightarrow> \<not> rx_ours ip port query b a p)"
        by blast
      then have "pre = []" using False x by (cases pre) auto
      then show "t < dl \<and> (\<exists>a p. rx = RxPacket b a p \<and> rx_ours ip port query b a p)" using h x by auto
    next
      assume "t < dl \<and> (\<exists>a p. rx = RxPacket b a p \<and> rx_ours ip port query b a p)"
      then obtain a p where "t < dl" "rx = RxPacket b a p" "rx_ours ip port query b a p" by blast
      then show "?R (x # rest)" by (intro exI [of _ "[]"]) (auto simp: x)
    qed
    then show ?thesis using False by (cases rx) (auto simp: x)
  qed
qed

lemma forward_wait_ends: "(t, rx) \<in> set passes \<Longrightarrow> \<not> t < dl \<Longrightarrow> forward_wait ip port query dl passes \<noteq> None"
  by (induction ip port query dl passes rule: forward_wait.induct) (auto split: dns_rx.splits)

section \<open>Properties\<close>

text \<open>C21: The cache answers with what the upstream server said: a hit is a reply stored at most 60
  seconds ago for a query with the same question bytes, with the transaction id of the query
  being answered; and a stored reply is found again, for the same question under any id,
  within those 60 seconds.\<close>

theorem dns_cache_correct:
  assumes "cache_reach h c"
  shows "(\<forall>r. snd (dns_cache_lookup query now c) = Some r \<longrightarrow>
            (\<exists>t q rep. (t, q, rep) \<in> set h \<and> length q = length query \<and> drop 12 q = drop 12 query \<and>
               now - t \<le> 60000 \<and> r = take 2 query @ drop 2 rep)) \<and>
         (12 \<le> length q \<and> length q \<le> DNS_MAX_PACKET \<and> 12 \<le> length rep \<and> length rep \<le> DNS_MAX_PACKET \<and>
          length query = length q \<and> drop 12 query = drop 12 q \<and> now - t \<le> 60000 \<longrightarrow>
            snd (dns_cache_lookup query now (dns_cache_store q rep t c)) \<noteq> None)"
proof (intro conjI allI impI)
  fix r
  assume "snd (dns_cache_lookup query now c) = Some r"
  then have "dns_cache_lookup query now c = (fst (dns_cache_lookup query now c), Some r)" by (metis prod.collapse)
  from lookup_sound [OF assms this] show "\<exists>t q rep. (t, q, rep) \<in> set h \<and> length q = length query \<and>
      drop 12 q = drop 12 query \<and> now - t \<le> 60000 \<and> r = take 2 query @ drop 2 rep" by blast
next
  assume "12 \<le> length q \<and> length q \<le> DNS_MAX_PACKET \<and> 12 \<le> length rep \<and> length rep \<le> DNS_MAX_PACKET \<and>
          length query = length q \<and> drop 12 query = drop 12 q \<and> now - t \<le> 60000"
  then show "snd (dns_cache_lookup query now (dns_cache_store q rep t c)) \<noteq> None"
    using store_lookup [OF assms, of q rep query now t] by auto
qed

definition demo_q :: "u8 list" where
  "demo_q = [7, 9, 1, 0, 0, 1, 0, 0, 0, 0, 0, 0, 1, 97, 0, 0, 1, 0, 1]"

definition demo_rep :: "u8 list" where
  "demo_rep = [7, 9, 129, 128, 0, 1, 0, 1, 0, 0, 0, 0, 1, 97, 0, 0, 1, 0, 1, 192, 12, 0, 1, 0, 1, 0, 0, 0, 60, 0, 4, 10, 0, 0, 9]"

theorem dns_cache_correct_witness:
  "snd (dns_cache_lookup ([1, 2] @ drop 2 demo_q) 50000 (dns_cache_store demo_q demo_rep 1000 cache_zero)) \<noteq> None"
  using conjunct2 [OF dns_cache_correct [OF cache_init, of "[1, 2] @ drop 2 demo_q" 50000 demo_q demo_rep 1000]]
  by (simp add: demo_q_def demo_rep_def)

text \<open>C22: Forwarding returns the reply to this query and no other: the packet handed back arrived before
  the deadline, from the upstream's address and port, with the query's id, and everything
  received before it was none of that, so a late reply to an earlier query is skipped and not
  mistaken for this one.  The loop ends once the clock passes the deadline.\<close>

theorem dns_forward_matches:
  "(snd (dns_forward ip port query queued True t0 passes) = Some (Some b) \<longleftrightarrow>
     (\<exists>pre t a p post. passes = pre @ (t, RxPacket b a p) # post \<and> t < t0 + 2000000 \<and> rx_ours ip port query b a p \<and>
       (\<forall>(t, rx)\<in>set pre. t < t0 + 2000000 \<and> rx \<noteq> RxError \<and>
          (\<forall>b a p. rx = RxPacket b a p \<longrightarrow> \<not> rx_ours ip port query b a p)))) \<and>
   ((\<exists>(t, rx)\<in>set passes. \<not> t < t0 + 2000000) \<longrightarrow> snd (dns_forward ip port query queued True t0 passes) \<noteq> None)"
proof
  show "snd (dns_forward ip port query queued True t0 passes) = Some (Some b) \<longleftrightarrow>
     (\<exists>pre t a p post. passes = pre @ (t, RxPacket b a p) # post \<and> t < t0 + 2000000 \<and> rx_ours ip port query b a p \<and>
       (\<forall>(t, rx)\<in>set pre. t < t0 + 2000000 \<and> rx \<noteq> RxError \<and>
          (\<forall>b a p. rx = RxPacket b a p \<longrightarrow> \<not> rx_ours ip port query b a p)))"
    using forward_wait_spec [of ip port query "t0 + 2000000" passes b] by (simp add: dns_forward_def Let_def)
  show "(\<exists>(t, rx)\<in>set passes. \<not> t < t0 + 2000000) \<longrightarrow> snd (dns_forward ip port query queued True t0 passes) \<noteq> None"
  proof
    assume "\<exists>(t, rx)\<in>set passes. \<not> t < t0 + 2000000"
    then obtain t rx where "(t, rx) \<in> set passes" "\<not> t < t0 + 2000000" by blast
    then show "snd (dns_forward ip port query queued True t0 passes) \<noteq> None"
      using forward_wait_ends by (simp add: dns_forward_def Let_def)
  qed
qed

theorem dns_forward_matches_witness:
  "snd (dns_forward 8 53 demo_q [] True 0 [(10, RxPacket [1] 8 53), (20, RxPacket demo_rep 8 53)]) = Some (Some demo_rep)"
proof -
  have "\<exists>pre t a p post. [(10, RxPacket [1] 8 53), (20, RxPacket demo_rep 8 53)] = pre @ (t, RxPacket demo_rep a p) # post \<and>
      t < (0::int) + 2000000 \<and> rx_ours 8 53 demo_q demo_rep a p \<and>
       (\<forall>(t, rx)\<in>set pre. t < 0 + 2000000 \<and> rx \<noteq> RxError \<and>
          (\<forall>b a p. rx = RxPacket b a p \<longrightarrow> \<not> rx_ours 8 53 demo_q b a p))"
    by (intro exI [of _ "[(10, RxPacket [1] 8 53)]"] exI [of _ 20] exI [of _ 8] exI [of _ 53] exI [of _ "[]"])
      (simp add: rx_ours_def demo_q_def demo_rep_def)
  then show ?thesis
    using dns_forward_matches [of 8 53 demo_q "[]" 0 "[(10, RxPacket [1] 8 53), (20, RxPacket demo_rep 8 53)]" demo_rep]
    by blast
qed

text \<open>C30: While WiFi is down the cache is asked first: what the phone looked up less than a minute ago is answered
  from there (with the real address, see below).  Every other query for an address gets the bridge's own address, so that any page the
  phone opens lands on the setup page: the reply is
  the question's id, a positive header, the question and one A record 192.168.7.1; a question
  of any other type is answered with NXDOMAIN.  The question is copied up to 188 bytes, so it is whole in queries of up to 200
  bytes.\<close>

theorem dns_captive_answers:
  assumes "length txid = 2" and "length hdr = 10" and "list_all label_ok ls" and "qtype < 65536" and "cache_reach h c"
  shows "fst (dns_serve (enc_query txid hdr ls qtype) False fwd now now2 c) =
    (case snd (dns_cache_lookup (enc_query txid hdr ls qtype) now c) of
       Some r \<Rightarrow> Some r
     | None \<Rightarrow> Some
        (let question = take 188 (enc_qname ls @ be16 qtype @ be16 1)
         in if qtype = 1 then txid @ [0x81, 0x80, 0, 1, 0, 1, 0, 0, 0, 0] @ question @
              [0xC0, 0x0C, 0, 1, 0, 1, 0, 0, 0, 60, 0, 4, 192, 168, 7, 1]
            else txid @ [0x81, 0x83, 0, 1, 0, 0, 0, 0, 0, 0] @ question))"
proof -
  let ?q = "enc_query txid hdr ls qtype"
  have q: "12 \<le> length ?q" using assms(1,2) by (simp add: enc_query_def)
  obtain c' hit where l: "dns_cache_lookup ?q now c = (c', hit)" by force
  show ?thesis
  proof (cases hit)
    case None
    then have "fst (dns_serve ?q False fwd now now2 c) =
      (case dns_make_captive_reply ?q DNS_MAX_PACKET of
         Some r \<Rightarrow> if r = [] then None else Some r | None \<Rightarrow> None)"
      using q l by (simp add: dns_serve_def Let_def split: option.splits)
    then show ?thesis
      unfolding captive_query [OF assms(1-4)] using assms(1) l None by (simp add: dns_hdr_def answer_gw_def Let_def)
  next
    case (Some r)
    then have "r \<noteq> []" using lookup_sound [OF assms(5), of ?q now c' r] l q by auto
    then show ?thesis using q l Some by (simp add: dns_serve_def)
  qed
qed

theorem dns_captive_answers_witness:
  "fst (dns_serve (enc_query [7, 9] [1, 0, 0, 1, 0, 0, 0, 0, 0, 0] [[119, 97, 112], [97]] 1) False None 0 0 cache_zero) = Some
    ([7, 9, 0x81, 0x80, 0, 1, 0, 1, 0, 0, 0, 0, 3, 119, 97, 112, 1, 97, 0, 0, 1, 0, 1,
      0xC0, 0x0C, 0, 1, 0, 1, 0, 0, 0, 60, 0, 4, 192, 168, 7, 1])"
proof -
  have "snd (lookup_loop q qh 0 (replicate n entry_zero)) = None" for q qh n
    by (induction n) (auto simp: entry_zero_def split: prod.splits)
  then have "snd (dns_cache_lookup (enc_query [7, 9] [1, 0, 0, 1, 0, 0, 0, 0, 0, 0] [[119, 97, 112], [97]] 1) 0 cache_zero) = None"
    by (simp add: dns_cache_lookup_def cache_zero_def case_prod_beta)
  then show ?thesis
    using dns_captive_answers [OF _ _ _ _ cache_init, of "[7, 9]" "[1, 0, 0, 1, 0, 0, 0, 0, 0, 0]" "[[119, 97, 112], [97]]" 1 None 0 0]
    by (simp add: label_ok_def enc_qname_def be16_def)
qed

text \<open>C19: Every answer carries the id of its query, whichever of the four ways it was made.  While WiFi is up
  every query of at least a header is answered: by the unexpired reply of the cache, else by
  what \<open>dns_forward\<close> picks from the packets that arrive for it, else by a SERVFAIL without any
  record, so never by an address made up here.  And only what was forwarded while WiFi was up enters the cache.\<close>

theorem dns_serve_answers:
  fixes now now2 :: u32
  assumes q: "12 \<le> length query" and c: "cache_reach h c"
    and f: "wifi_up \<Longrightarrow> snd (dns_forward ip port query queued send_ok t0 passes) = Some fwd"
  defines "out \<equiv> dns_serve query wifi_up fwd now now2 c"
  shows "(\<forall>r. fst out = Some r \<longrightarrow> take 2 r = take 2 query) \<and>
    (wifi_up \<longrightarrow> fst out = Some (case snd (dns_cache_lookup query now c) of Some r \<Rightarrow> r
       | None \<Rightarrow> (case fwd of Some r \<Rightarrow> r
          | None \<Rightarrow> take 2 query @ [0x81, 0x82, 0, 1, 0, 0, 0, 0, 0, 0] @ question_copy query DNS_MAX_PACKET))) \<and>
    (\<exists>h'. cache_reach h' (snd out) \<and> set h' \<subseteq> set h \<union> {(now2, query, r) | r. wifi_up \<and> fwd = Some r})"
proof -
  obtain c' hit where l: "dns_cache_lookup query now c = (c', hit)" by force
  have hit: "take 2 r = take 2 query \<and> r \<noteq> []" if "hit = Some r" for r
    using lookup_sound [OF c, of query now c' r] l that q by auto
  have fw: "take 2 r = take 2 query \<and> r \<noteq> []" if "wifi_up" "fwd = Some r" for r
  proof -
    have "forward_wait ip port query (t0 + 2000000) passes = Some (Some r)"
      using f [OF that(1)] that(2) by (simp add: dns_forward_def Let_def split: if_splits)
    then show ?thesis unfolding forward_wait_spec by (auto simp: rx_ours_def)
  qed
  obtain cr where cr: "dns_make_captive_reply query DNS_MAX_PACKET = Some cr" using captive_safe by blast
  have sf: "dns_make_servfail_reply query DNS_MAX_PACKET =
     take 2 query @ [0x81, 0x82, 0, 1, 0, 0, 0, 0, 0, 0] @ question_copy query DNS_MAX_PACKET"
    using q by (simp add: dns_make_servfail_reply_def dns_hdr_def)
  define reply where "reply = (case hit of Some r \<Rightarrow> r | None \<Rightarrow>
     (case (if wifi_up then fwd else None) of Some r \<Rightarrow> r
      | None \<Rightarrow> if wifi_up then dns_make_servfail_reply query DNS_MAX_PACKET else cr))"
  have run: "fst out = (if reply = [] then None else Some reply)"
    using q l cr by (simp add: out_def dns_serve_def reply_def Let_def split: option.splits)
  consider r where "hit = Some r" | r where "hit = None" "wifi_up" "fwd = Some r"
    | "hit = None" "wifi_up" "fwd = None" | "hit = None" "\<not> wifi_up" by (cases hit; cases fwd) auto
  then have "(reply \<noteq> [] \<longrightarrow> take 2 reply = take 2 query) \<and> (wifi_up \<longrightarrow> reply \<noteq> [] \<and> reply = (case hit of Some r \<Rightarrow> r
       | None \<Rightarrow> (case fwd of Some r \<Rightarrow> r
          | None \<Rightarrow> take 2 query @ [0x81, 0x82, 0, 1, 0, 0, 0, 0, 0, 0] @ question_copy query DNS_MAX_PACKET)))"
  proof cases
    case (1 r)
    then show ?thesis using hit [of r] by (simp add: reply_def)
  next
    case (2 r)
    then show ?thesis using fw [of r] by (simp add: reply_def)
  next
    case 3
    then show ?thesis using q by (simp add: reply_def sf)
  next
    case 4
    then show ?thesis using captive_id [OF q cr] by (simp add: reply_def)
  qed
  moreover have "snd out = c' \<or> (\<exists>r. wifi_up \<and> fwd = Some r \<and> snd out = dns_cache_store query r now2 c')"
    using q l by (auto simp: out_def dns_serve_def Let_def split: option.splits)
  moreover have c': "cache_reach h c'" using cache_lookup [OF c, of query now] l by simp
  ultimately show ?thesis using cache_store [OF c', of now2 query] by (simp add: run l) fastforce
qed

theorem dns_serve_answers_witness:
  "fst (dns_serve demo_q True (Some demo_rep) 0 0 cache_zero) = Some demo_rep"
proof -
  have "snd (lookup_loop q qh 0 (replicate n entry_zero)) = None" for q qh n
    by (induction n) (auto simp: entry_zero_def split: prod.splits)
  then have n: "snd (dns_cache_lookup demo_q 0 cache_zero) = None"
    by (simp add: dns_cache_lookup_def cache_zero_def case_prod_beta)
  have f: "snd (dns_forward 8 53 demo_q [] True 0 [(20, RxPacket demo_rep 8 53)]) = Some (Some demo_rep)"
    by (simp add: dns_forward_def rx_ours_def demo_q_def demo_rep_def)
  show ?thesis
    using dns_serve_answers [OF _ cache_init f, of True 0 0] n by (simp add: demo_q_def)
qed

text \<open>The cache is asked before WiFi is: for up to 60 seconds after WiFi went down, a name the
  phone had looked up still gets its real address, not the bridge's, so the page lands
  nowhere instead of on the setup page.\<close>

theorem dns_stale_while_down:
  assumes "cache_reach h c" and "12 \<le> length q" "length q \<le> DNS_MAX_PACKET" "12 \<le> length rep" "length rep \<le> DNS_MAX_PACKET"
    and "now - t \<le> 60000"
  shows "\<exists>u p r. (u, p, r) \<in> set ((t, q, rep) # h) \<and> drop 12 p = drop 12 q \<and>
    fst (dns_serve q False fwd now now2 (dns_cache_store q rep t c)) = Some (take 2 q @ drop 2 r)"
proof -
  define c1 where "c1 = dns_cache_store q rep t c"
  obtain r where "snd (dns_cache_lookup q now c1) = Some r"
    using store_lookup [OF assms(1-5) refl refl assms(6)] by (auto simp: c1_def)
  then obtain c2 where l: "dns_cache_lookup q now c1 = (c2, Some r)" by (metis prod.collapse)
  have "cache_reach ((t, q, rep) # h) c1" unfolding c1_def by (rule cache_store [OF assms(1)])
  from lookup_sound [OF this l] obtain u p r' where u: "(u, p, r') \<in> set ((t, q, rep) # h)" "drop 12 p = drop 12 q"
    "r = take 2 q @ drop 2 r'" by blast
  have "r \<noteq> []" using u(3) assms(2) by auto
  then have "fst (dns_serve q False fwd now now2 c1) = Some r" using l assms(2) by (simp add: dns_serve_def)
  then show ?thesis using u unfolding c1_def by blast
qed

theorem dns_stale_while_down_witness:
  "\<exists>u p r. (u, p, r) \<in> set ((1000 :: u32, demo_q, demo_rep) # []) \<and> drop 12 p = drop 12 demo_q \<and>
    fst (dns_serve demo_q False None 61000 0 (dns_cache_store demo_q demo_rep 1000 cache_zero)) = Some (take 2 demo_q @ drop 2 r)"
  by (rule dns_stale_while_down [OF cache_init]) (simp_all add: demo_q_def demo_rep_def)

text \<open>What the log's name buffer holds after a first label that is followed by a compression pointer or
  by a label that runs past the end.\<close>

lemma put_label_full:
  "w + length l < nmax \<Longrightarrow> length name = nmax \<Longrightarrow>
     put_label nmax l (name, w) = (take w name @ map (\<lambda>b. Some (printable b)) l @ drop (w + length l) name, w + length l)"
proof (induction l arbitrary: name w)
  case (Cons b l)
  have lw: "w < length name" using Cons.prems by simp
  have "w < nmax - 1" using Cons.prems by simp
  then have "put_label nmax (b # l) (name, w) = put_label nmax l (name[w := Some (printable b)], w + 1)"
    by (simp only: put_label.simps if_True)
  also have "\<dots> = (take (w + 1) (name[w := Some (printable b)]) @ map (\<lambda>b. Some (printable b)) l @
      drop (w + 1 + length l) (name[w := Some (printable b)]), w + 1 + length l)"
    by (rule Cons.IH) (use Cons.prems in auto)
  also have "take (w + 1) (name[w := Some (printable b)]) = take w name @ [Some (printable b)]"
    using lw by (simp add: take_Suc_conv_app_nth)
  finally show ?case by simp
qed simp

lemma printable_not_nul: "printable b \<noteq> CHR 0x00"
proof
  assume "printable b = CHR 0x00"
  then have "ccode (printable b) = 0" by simp
  then show False using unsigned_less [of b] by (simp add: printable_def split: if_splits)
qed

text \<open>The name buffer of the verbose log is left without its NUL when the loop returns early: for a
  query whose first label is sound and whose second is not, no cell of the buffer holds a NUL,
  so printing it runs past its end.\<close>

theorem dns_query_desc_unterminated:
  assumes "l = unat (q ! 12)" and "0 < l" and "l < 63" and "13 + l < length q" and "64 \<le> unat (q ! (13 + l))"
  shows "\<exists>name. dns_query_desc q 64 = Some (name, 0) \<and> Some (CHR 0x00) \<notin> set name"
proof -
  define name0 where "name0 = (replicate 64 (None :: char option))[0 := Some (CHR 0x00)]"
  have n0: "name0 = Some (CHR 0x00) # replicate 63 None" by (simp add: name0_def numeral_eq_Suc)
  define lab where "lab = take l (drop 13 q)"
  have ll: "length lab = l" using assms(4) by (simp add: lab_def)
  define name1 where "name1 = map (\<lambda>b. Some (printable b)) lab @ drop l name0"
  have pl: "put_label 64 lab (name0, 0) = (name1, l)"
    using put_label_full [of 0 lab 64 name0] assms(3) ll by (simp add: name1_def n0)
  have r1: "rd8 q 12 = Some l" "rd8 q (13 + l) = Some (unat (q ! (13 + l)))"
    using assms by (simp_all add: rd_ok)
  have "desc_loop q 64 12 (name0, 0) = desc_loop q 64 (13 + l) (name1, l)"
    using r1 assms pl by (subst desc_loop.simps) (simp add: lab_def)
  also have "\<dots> = Some (name1, l, None)"
    using r1 assms by (subst desc_loop.simps) simp
  finally have "dns_query_desc q 64 = Some (name1, 0)"
    by (simp add: dns_query_desc_def name0_def Let_def)
  moreover have "Some (CHR 0x00) \<notin> set name1"
    using printable_not_nul assms(2) by (auto simp: name1_def n0 drop_Cons' dest!: in_set_dropD) metis
  ultimately show ?thesis by blast
qed

theorem dns_query_desc_unterminated_witness:
  "\<exists>name. dns_query_desc ([0, 0, 1, 0, 0, 1, 0, 0, 0, 0, 0, 0, 1, 97, 0xC0, 0x0C]) 64 = Some (name, 0) \<and> Some (CHR 0x00) \<notin> set name"
  by (rule dns_query_desc_unterminated [where l = 1]) simp_all

text \<open>The watchdog restarts a task that hangs and leaves a live one alone: it acts only when the task
  exists and has not shown itself for 15 seconds at two checks in a row; then the cache is
  empty, the counter starts over, and the task's clock is fresh.  A task that is gone is not
  restarted.\<close>

theorem dns_watchdog_restarts:
  "(\<not> d_handle s \<or> now - d_alive_ms s \<le> DNS_WATCHDOG_MS \<longrightarrow>
           dns_fwd_watchdog_check now now2 created during s = (False, s\<lparr>d_stuck := 0\<rparr>)) \<and>
         (d_handle s \<and> now - d_alive_ms s > DNS_WATCHDOG_MS \<and> now' - d_alive_ms s > DNS_WATCHDOG_MS \<and> d_stuck s = 0 \<longrightarrow>
           (let (r1, s1) = dns_fwd_watchdog_check now now2 created during s;
                (r2, s2) = dns_fwd_watchdog_check now' now2 created during s1
            in \<not> r1 \<and> s1 = s\<lparr>d_stuck := 1\<rparr> \<and> r2 \<and> d_cache s2 = cache_zero \<and> d_stuck s2 = 0 \<and>
               d_alive_ms s2 = now2 \<and> d_handle s2 = created))"
proof -
  have "\<not> (2::u32) \<le> 1" by (simp add: word_le_nat_alt)
  then show ?thesis by (auto simp: dns_fwd_watchdog_check_def dns_fwd_start_def Let_def not_less)
qed

definition demo_dns :: dns_state where
  "demo_dns = \<lparr>d_cache = cache_zero, d_handle = True, d_alive_ms = 0, d_restart = False, d_stuck = 0, d_socks = True\<rparr>"

theorem dns_watchdog_restarts_witness:
  "let (r1, s1) = dns_fwd_watchdog_check 20000 0 True id demo_dns;
       (r2, s2) = dns_fwd_watchdog_check 25000 0 True id s1
   in \<not> r1 \<and> s1 = demo_dns\<lparr>d_stuck := 1\<rparr> \<and> r2 \<and> d_cache s2 = cache_zero \<and> d_stuck s2 = 0 \<and>
      d_alive_ms s2 = 0 \<and> d_handle s2 = True"
  using dns_watchdog_restarts [of demo_dns 20000 0 True id 25000] by (simp add: demo_dns_def)

text \<open>An address query with records after its question (EDNS) has its made-up answer behind those
  records, although the header counts none of them: what follows the question in the reply is
  not the answer.\<close>

lemma captive_answer_behind_additional:
  assumes "12 < length q" "length q \<le> 200" and "qname_end q 12 = Some e" and "e + 4 \<le> length q" and "rd16 q e = Some 1"
  shows "dns_make_captive_reply q DNS_MAX_PACKET = Some (dns_hdr q 0x80 1 @ drop 12 q @ answer_gw)"
  using assms by (auto simp: dns_make_captive_reply_def Let_def min_def)

end
