(* ===== verification/SdpLap.thy ===== *)
theory SdpLap
  imports Prelude
begin

text \<open>
  The service records of \<open>main/sdp_lap.c\<close>.  BTstack's data element functions are not part of the
  repository, so \<open>create_svc_sdp_record\<close> is modelled by the calls it makes on its sequences;
  what such calls build is stated afterwards, for the properties.
\<close>

datatype de_type = DE_UINT | DE_UUID
datatype de_size = DE_SIZE_8 | DE_SIZE_16 | DE_SIZE_32

text \<open>The pointers the builder holds.\<close>

datatype de_seq = Service | Attribute | L2cap | Rfcomm | Profile

datatype de_call =
    DeCreate de_seq
  | DeNumber de_seq de_type de_size nat
  | DeData de_seq string
  | DePush de_seq de_seq     \<comment> \<open>parent, the child it returns\<close>
  | DePop de_seq de_seq

definition BLUETOOTH_SERVICE_CLASS_LAN_ACCESS_USING_PPP :: u16 where
  "BLUETOOTH_SERVICE_CLASS_LAN_ACCESS_USING_PPP = 0x1102"

definition BLUETOOTH_SERVICE_CLASS_DIALUP_NETWORKING :: u16 where
  "BLUETOOTH_SERVICE_CLASS_DIALUP_NETWORKING = 0x1103"

text \<open>\<open>create_svc_sdp_record\<close>; an attribute id is a 16-bit number of the outer sequence.\<close>

definition attr_id :: "nat \<Rightarrow> de_call" where
  "attr_id a = DeNumber Service DE_UINT DE_SIZE_16 a"

definition create_svc_sdp_record :: "u32 \<Rightarrow> u8 \<Rightarrow> u16 \<Rightarrow> string \<Rightarrow> de_call list" where
  "create_svc_sdp_record record_handle channel service_class name =
     [DeCreate Service,
      attr_id 0x0000, DeNumber Service DE_UINT DE_SIZE_32 (unat record_handle),
      attr_id 0x0001, DePush Service Attribute,
        DeNumber Attribute DE_UUID DE_SIZE_16 (unat service_class),
      DePop Service Attribute,
      attr_id 0x0004, DePush Service Attribute,
        DePush Attribute L2cap,
          DeNumber L2cap DE_UUID DE_SIZE_16 0x0100,
        DePop Attribute L2cap,
        DePush Attribute Rfcomm,
          DeNumber Rfcomm DE_UUID DE_SIZE_16 0x0003,
          DeNumber Rfcomm DE_UINT DE_SIZE_8 (unat channel),
        DePop Attribute Rfcomm,
      DePop Service Attribute,
      attr_id 0x0005, DePush Service Attribute,
        DeNumber Attribute DE_UUID DE_SIZE_16 0x1002,
      DePop Service Attribute,
      attr_id 0x0006, DePush Service Attribute,
        DeNumber Attribute DE_UINT DE_SIZE_16 0x656e,
        DeNumber Attribute DE_UINT DE_SIZE_16 0x006a,
        DeNumber Attribute DE_UINT DE_SIZE_16 0x0100,
      DePop Service Attribute,
      attr_id 0x0008, DeNumber Service DE_UINT DE_SIZE_8 0xFF,
      attr_id 0x0009, DePush Service Attribute,
        DePush Attribute Profile,
          DeNumber Profile DE_UUID DE_SIZE_16 (unat service_class),
          DeNumber Profile DE_UINT DE_SIZE_16 0x0100,
        DePop Attribute Profile,
      DePop Service Attribute,
      attr_id 0x0100, DeData Service name]"

text \<open>A record handed to \<open>sdp_register_service\<close>: one built here, or the one \<open>spp_create_sdp_record\<close> of
  BTstack fills in from a handle, a channel and a name.\<close>

datatype sdp_rec = OwnRecord "de_call list" | SppRecord u32 u8 string

definition lap_record :: "u32 \<Rightarrow> u8 \<Rightarrow> sdp_rec" where
  "lap_record h ch =
     OwnRecord (create_svc_sdp_record h ch BLUETOOTH_SERVICE_CLASS_LAN_ACCESS_USING_PPP ''LAN Access Using PPP'')"

definition spp_record :: "u32 \<Rightarrow> u8 \<Rightarrow> sdp_rec" where
  "spp_record h ch = SppRecord h ch ''Serial Port''"

definition dun_record :: "u32 \<Rightarrow> u8 \<Rightarrow> sdp_rec" where
  "dun_record h ch =
     OwnRecord (create_svc_sdp_record h ch BLUETOOTH_SERVICE_CLASS_DIALUP_NETWORKING ''Dial-Up Networking'')"

text \<open>\<open>hs\<close> are the three handles \<open>sdp_create_service_record_handle\<close> gives, \<open>len\<close> is
  \<open>de_get_len\<close>; a failed \<open>btstack_assert\<close> is None.\<close>

definition sdp_register_lap_and_spp ::
  "(sdp_rec \<Rightarrow> nat) \<Rightarrow> u32 \<times> u32 \<times> u32 \<Rightarrow> u8 \<Rightarrow> u8 \<Rightarrow> sdp_rec list option" where
  "sdp_register_lap_and_spp len hs lap_channel spp_channel =
     (case hs of (h1, h2, h3) \<Rightarrow>
        if \<not> len (lap_record h1 lap_channel) \<le> 200 then None
        else if \<not> len (spp_record h2 spp_channel) \<le> 150 then None
        else if \<not> len (dun_record h3 spp_channel) \<le> 200 then None
        else Some [lap_record h1 lap_channel, spp_record h2 spp_channel, dun_record h3 spp_channel])"

section \<open>What the calls build\<close>

datatype de = DeNum de_type de_size nat | DeStr string | DeSeq "de list"

text \<open>The calls build a tree: a push opens a sequence inside its parent, everything goes to the
  innermost open one, and a pop closes it.  Calls that do not nest have no meaning.\<close>

fun de_step :: "de_call \<Rightarrow> (de_seq \<times> de list) list \<Rightarrow> (de_seq \<times> de list) list option" where
  "de_step (DeCreate q) [] = Some [(q, [])]"
| "de_step (DeNumber q t z v) ((p, es) # st) = (if q = p then Some ((p, es @ [DeNum t z v]) # st) else None)"
| "de_step (DeData q n) ((p, es) # st) = (if q = p then Some ((p, es @ [DeStr n]) # st) else None)"
| "de_step (DePush q c) ((p, es) # st) = (if q = p then Some ((c, []) # (p, es) # st) else None)"
| "de_step (DePop q c) ((d, ds) # (p, es) # st) = (if q = p \<and> c = d then Some ((p, es @ [DeSeq ds]) # st) else None)"
| "de_step cl st = None"

fun de_steps :: "de_call list \<Rightarrow> (de_seq \<times> de list) list \<Rightarrow> (de_seq \<times> de list) list option" where
  "de_steps [] st = Some st"
| "de_steps (c # cs) st = (case de_step c st of None \<Rightarrow> None | Some st' \<Rightarrow> de_steps cs st')"

definition de_build :: "de_call list \<Rightarrow> de list option" where
  "de_build cs = (case de_steps cs [] of Some [(q, es)] \<Rightarrow> Some es | _ \<Rightarrow> None)"

text \<open>A record is a list of attributes, an id and a value each.\<close>

fun attributes :: "de list \<Rightarrow> (nat \<times> de) list option" where
  "attributes [] = Some []"
| "attributes (DeNum DE_UINT DE_SIZE_16 a # v # es) = map_option ((#) (a, v)) (attributes es)"
| "attributes es = None"

text \<open>An upper bound on the bytes of the standard encoding: one type byte and at most four length bytes
  for each element, and the bytes of the value.\<close>

fun de_bound :: "de \<Rightarrow> nat" and des_bound :: "de list \<Rightarrow> nat" where
  "de_bound (DeNum t z v) = 1 + (case z of DE_SIZE_8 \<Rightarrow> 1 | DE_SIZE_16 \<Rightarrow> 2 | DE_SIZE_32 \<Rightarrow> 4)"
| "de_bound (DeStr n) = 5 + length n"
| "de_bound (DeSeq es) = 5 + des_bound es"
| "des_bound [] = 0"
| "des_bound (e # es) = de_bound e + des_bound es"

text \<open>What the code relies on: the encoder keeps to the standard, and BTstack's own serial port
  record fits the buffer its examples use for it.\<close>

definition len_standard :: "(sdp_rec \<Rightarrow> nat) \<Rightarrow> bool" where
  "len_standard len \<longleftrightarrow>
     (\<forall>cs es. de_build cs = Some es \<longrightarrow> len (OwnRecord cs) \<le> de_bound (DeSeq es)) \<and>
     (\<forall>h ch. len (SppRecord h ch ''Serial Port'') \<le> 150)"

lemma svc_record_build:
  "de_build (create_svc_sdp_record h ch cl name) = Some
    [DeNum DE_UINT DE_SIZE_16 0x0000, DeNum DE_UINT DE_SIZE_32 (unat h),
     DeNum DE_UINT DE_SIZE_16 0x0001, DeSeq [DeNum DE_UUID DE_SIZE_16 (unat cl)],
     DeNum DE_UINT DE_SIZE_16 0x0004, DeSeq [DeSeq [DeNum DE_UUID DE_SIZE_16 0x0100],
       DeSeq [DeNum DE_UUID DE_SIZE_16 0x0003, DeNum DE_UINT DE_SIZE_8 (unat ch)]],
     DeNum DE_UINT DE_SIZE_16 0x0005, DeSeq [DeNum DE_UUID DE_SIZE_16 0x1002],
     DeNum DE_UINT DE_SIZE_16 0x0006, DeSeq [DeNum DE_UINT DE_SIZE_16 0x656e, DeNum DE_UINT DE_SIZE_16 0x006a,
       DeNum DE_UINT DE_SIZE_16 0x0100],
     DeNum DE_UINT DE_SIZE_16 0x0008, DeNum DE_UINT DE_SIZE_8 0xFF,
     DeNum DE_UINT DE_SIZE_16 0x0009, DeSeq [DeSeq [DeNum DE_UUID DE_SIZE_16 (unat cl), DeNum DE_UINT DE_SIZE_16 0x0100]],
     DeNum DE_UINT DE_SIZE_16 0x0100, DeStr name]"
  by (simp add: de_build_def create_svc_sdp_record_def attr_id_def)

lemma svc_record_bound:
  "de_build (create_svc_sdp_record h ch cl name) = Some es \<Longrightarrow> de_bound (DeSeq es) = 110 + length name"
  by (auto simp: svc_record_build)

lemma sdp_register_succeeds:
  assumes len: "len_standard len"
  shows "sdp_register_lap_and_spp len (h1, h2, h3) lap spp =
     Some [OwnRecord (create_svc_sdp_record h1 lap 0x1102 ''LAN Access Using PPP''), SppRecord h2 spp ''Serial Port'',
           OwnRecord (create_svc_sdp_record h3 spp 0x1103 ''Dial-Up Networking'')]"
proof -
  have own: "len (OwnRecord (create_svc_sdp_record h ch cl name)) \<le> 200" if "length name \<le> 90" for h ch cl name
  proof -
    obtain es where es: "de_build (create_svc_sdp_record h ch cl name) = Some es" by (simp add: svc_record_build)
    with len have "len (OwnRecord (create_svc_sdp_record h ch cl name)) \<le> de_bound (DeSeq es)"
      unfolding len_standard_def by blast
    then show ?thesis using svc_record_bound [OF es] that by simp
  qed
  show "sdp_register_lap_and_spp len (h1, h2, h3) lap spp =
     Some [OwnRecord (create_svc_sdp_record h1 lap 0x1102 ''LAN Access Using PPP''), SppRecord h2 spp ''Serial Port'',
           OwnRecord (create_svc_sdp_record h3 spp 0x1103 ''Dial-Up Networking'')]"
    using len own [of "''LAN Access Using PPP''"] own [of "''Dial-Up Networking''"]
    by (simp add: sdp_register_lap_and_spp_def lap_record_def spp_record_def dun_record_def len_standard_def
        BLUETOOTH_SERVICE_CLASS_LAN_ACCESS_USING_PPP_def BLUETOOTH_SERVICE_CLASS_DIALUP_NETWORKING_def)
qed

text \<open>C37: The service records.  Every record the bridge builds itself is a well-nested list of
  attributes with strictly ascending ids that carries the service class, the channel behind RFCOMM
  behind L2CAP, the public browse root and the name.  With any encoder that keeps to the standard
  the records fit their buffers, so no assertion fails and exactly three services are registered:
  LAN access on the first channel, the serial port and dial-up networking on the second.\<close>

theorem sdp_records:
  shows "(\<exists>es as. de_build (create_svc_sdp_record h ch cl name) = Some es \<and> attributes es = Some as \<and>
       sorted_wrt (<) (map fst as) \<and>
       map_of as 0x0001 = Some (DeSeq [DeNum DE_UUID DE_SIZE_16 (unat cl)]) \<and>
       map_of as 0x0004 = Some (DeSeq [DeSeq [DeNum DE_UUID DE_SIZE_16 0x0100],
       DeSeq [DeNum DE_UUID DE_SIZE_16 0x0003, DeNum DE_UINT DE_SIZE_8 (unat ch)]]) \<and>
       map_of as 0x0005 = Some (DeSeq [DeNum DE_UUID DE_SIZE_16 0x1002]) \<and>
       map_of as 0x0100 = Some (DeStr name)) \<and>
     (len_standard len \<longrightarrow> sdp_register_lap_and_spp len (h1, h2, h3) lap spp =
       Some [OwnRecord (create_svc_sdp_record h1 lap 0x1102 ''LAN Access Using PPP''), SppRecord h2 spp ''Serial Port'',
       OwnRecord (create_svc_sdp_record h3 spp 0x1103 ''Dial-Up Networking'')])"
proof (rule conjI; (intro impI)?)
  show "\<exists>es as. de_build (create_svc_sdp_record h ch cl name) = Some es \<and> attributes es = Some as \<and>
      sorted_wrt (<) (map fst as) \<and>
      map_of as 0x0001 = Some (DeSeq [DeNum DE_UUID DE_SIZE_16 (unat cl)]) \<and>
      map_of as 0x0004 = Some (DeSeq [DeSeq [DeNum DE_UUID DE_SIZE_16 0x0100],
        DeSeq [DeNum DE_UUID DE_SIZE_16 0x0003, DeNum DE_UINT DE_SIZE_8 (unat ch)]]) \<and>
      map_of as 0x0005 = Some (DeSeq [DeNum DE_UUID DE_SIZE_16 0x1002]) \<and>
      map_of as 0x0100 = Some (DeStr name)"
    by (intro exI conjI, rule svc_record_build, simp, simp_all)
qed (rule sdp_register_succeeds)

text \<open>An encoder with the longest headers the standard has.\<close>

definition len_longest :: "sdp_rec \<Rightarrow> nat" where
  "len_longest r = (case r of OwnRecord cs \<Rightarrow> (case de_build cs of Some es \<Rightarrow> de_bound (DeSeq es) | None \<Rightarrow> 0)
                   | SppRecord h ch name \<Rightarrow> 100)"

theorem sdp_records_witness:
  "sdp_register_lap_and_spp len_longest (0x10001, 0x10002, 0x10003) 3 4 =
     Some [OwnRecord (create_svc_sdp_record 0x10001 3 0x1102 ''LAN Access Using PPP''), SppRecord 0x10002 4 ''Serial Port'',
           OwnRecord (create_svc_sdp_record 0x10003 4 0x1103 ''Dial-Up Networking'')]"
  by (rule sdp_records [THEN conjunct2, THEN mp]) (simp add: len_standard_def len_longest_def)

end
