(* ===== verification/AppState.thy ===== *)
theory AppState
  imports Prelude OneShot SdpLap
begin

text \<open>
  What the modules of the bridge share (\<open>main/gateway.h\<close>, the helpers of
  \<open>main/gateway.c\<close>): the application state, the flags other modules read, the tasks
  handed to the scheduler, and the trace of calls into the drivers.  The states of the single
  modules extend this record.

  FreeRTOS, the WiFi and Bluetooth drivers and lwIP are not part of the repository.  A call whose
  only effect is outside is an entry of \<open>calls\<close>, oldest first; a result the code branches
  on is an argument of the operation.
\<close>

datatype app_state_t =
    APP_WAIT_BT | APP_NO_WIFI | APP_WIFI_SCANNING | APP_WIFI_CONNECTING | APP_WIFI_FAILED
  | APP_BRIDGE | APP_BRIDGE_NO_WIFI

type_synonym bd_addr = "u8 list"

text \<open>Work handed to a task or a run loop, with the argument it was given.\<close>

datatype task = WifiRetry u32 | WifiRecovery | WifiKick | WatchdogTask | SecButtonTask
  | NatUpdate | TxNotify | RssiPoll | NameApply | FlagsApply | RebootTask | DnsTask | ProxyTask

datatype dcall =
    EspScanStart | EspClearApList | EspSetConfig string string bool | EspConnect | EspDisconnect
  | EspSetPs | EspStop | EspDeinit | EspInit | EspSetModeSta | EspStart
  | WifiHandlersOn | IpHandlersOn | WifiHandlersOff | IpHandlersOff | Restart
  | GapDiscoverable bool | GapConnectable bool | GapReadRssi u16 | GapSetName string
  | ReopenTimerRemove | ReopenTimerAdd nat | PinReply bd_addr string | ConfirmReply bd_addr
  | RfAccept u16 | RfDecline u16 | RfDisconnect u16 | RfCanSend u16 | RfSend u16 "u8 list"
  | NameRequest bd_addr | SecRequest u16
  | PppCreate | ProxyAttach | PppAddrs | PppSilent | PppListen | PppClose | PppFree
  | PppInput "u8 list" | NaptEnable bool
  | HciDump bool bool | RfSecLevel nat | RfService nat | SdpRegister sdp_rec | GapClass nat | GapSecLevel nat
  | GapIoCapability | HciHandlerOn | AutoHandlerOn | L2capInit | RfcommInit | SdpInit | HciPowerOn
  | GpioConfig | LedSet bool | WebStart
  | BootTimerRemove | BootTimerAdd nat | GapDisconnect u16
  | SdpQuery bd_addr u16 u8 | RfCreate bd_addr u8 u8  \<comment> \<open>the last argument is the returned error, 0 for none\<close>

record app_sh =
  app_state :: app_state_t
  bt_connected :: bool
  ppp_up_flag :: bool
  tasks :: "task list"
  calls :: "dcall list"

definition emit :: "dcall \<Rightarrow> 'z app_sh_scheme \<Rightarrow> 'z app_sh_scheme" where
  "emit c s = s\<lparr>calls := calls s @ [c]\<rparr>"

definition spawn :: "task \<Rightarrow> 'z app_sh_scheme \<Rightarrow> 'z app_sh_scheme" where
  "spawn t s = s\<lparr>tasks := tasks s @ [t]\<rparr>"

text \<open>The number of queued pieces of work of one kind.\<close>

definition queued_of :: "(task \<Rightarrow> bool) \<Rightarrow> 'z app_sh_scheme \<Rightarrow> nat" where
  "queued_of p s = length (filter p (tasks s))"

text \<open>Taking the first such piece of work off the queue.\<close>

fun remove_first :: "('a \<Rightarrow> bool) \<Rightarrow> 'a list \<Rightarrow> 'a list" where
  "remove_first p [] = []"
| "remove_first p (x # xs) = (if p x then xs else x # remove_first p xs)"

definition unqueue :: "(task \<Rightarrow> bool) \<Rightarrow> 'z app_sh_scheme \<Rightarrow> 'z app_sh_scheme" where
  "unqueue p s = s\<lparr>tasks := remove_first p (tasks s)\<rparr>"

section \<open>Helpers of gateway.c\<close>

definition state_to_str :: "app_state_t \<Rightarrow> string" where
  "state_to_str st = (case st of
      APP_WAIT_BT \<Rightarrow> ''WAIT_BT''
    | APP_NO_WIFI \<Rightarrow> ''NO_WIFI''
    | APP_WIFI_SCANNING \<Rightarrow> ''WIFI_SCAN''
    | APP_WIFI_CONNECTING \<Rightarrow> ''WIFI_CONN''
    | APP_WIFI_FAILED \<Rightarrow> ''WIFI_FAIL''
    | APP_BRIDGE \<Rightarrow> ''BRIDGE_ACTIVE''
    | APP_BRIDGE_NO_WIFI \<Rightarrow> ''BRIDGE_LOST_WIFI'')"

definition set_app_state :: "app_state_t \<Rightarrow> 'z app_sh_scheme \<Rightarrow> 'z app_sh_scheme" where
  "set_app_state st s = (if app_state s \<noteq> st then s\<lparr>app_state := st\<rparr> else s)"

text \<open>\<open>gw_safe_task_create\<close>: a task that cannot be created reboots the bridge.\<close>

definition gw_safe_task_create :: "bool \<Rightarrow> task \<Rightarrow> 'z app_sh_scheme \<Rightarrow> 'z app_sh_scheme" where
  "gw_safe_task_create created t s = (if created then spawn t s else emit Restart s)"

text \<open>\<open>update_nat\<close> only posts to the tcpip task.\<close>

definition update_nat :: "'z app_sh_scheme \<Rightarrow> 'z app_sh_scheme" where
  "update_nat s = spawn NatUpdate s"

text \<open>\<open>ppp_link_up\<close>\<close>

definition ppp_link_up :: "'z app_sh_scheme \<Rightarrow> bool" where
  "ppp_link_up s = ppp_up_flag s"

definition get_bt_connected :: "'z app_sh_scheme \<Rightarrow> bool" where
  "get_bt_connected s = bt_connected s"

section \<open>Frame facts\<close>

lemma set_app_state_eq: "set_app_state st s = s\<lparr>app_state := st\<rparr>"
  by (simp add: set_app_state_def)

lemma emit_sel [simp]:
  "app_state (emit c s) = app_state s" "bt_connected (emit c s) = bt_connected s"
  "ppp_up_flag (emit c s) = ppp_up_flag s" "tasks (emit c s) = tasks s"
  "calls (emit c s) = calls s @ [c]" "app_sh.more (emit c s) = app_sh.more s"
  by (simp_all add: emit_def)

lemma spawn_sel [simp]:
  "app_state (spawn t s) = app_state s" "bt_connected (spawn t s) = bt_connected s"
  "ppp_up_flag (spawn t s) = ppp_up_flag s" "tasks (spawn t s) = tasks s @ [t]"
  "calls (spawn t s) = calls s" "app_sh.more (spawn t s) = app_sh.more s"
  by (simp_all add: spawn_def)

lemma set_app_state_sel [simp]:
  "app_state (set_app_state st s) = st" "bt_connected (set_app_state st s) = bt_connected s"
  "ppp_up_flag (set_app_state st s) = ppp_up_flag s" "tasks (set_app_state st s) = tasks s"
  "calls (set_app_state st s) = calls s" "app_sh.more (set_app_state st s) = app_sh.more s"
  by (simp_all add: set_app_state_eq)

lemma update_nat_sel [simp]:
  "app_state (update_nat s) = app_state s" "bt_connected (update_nat s) = bt_connected s"
  "ppp_up_flag (update_nat s) = ppp_up_flag s" "calls (update_nat s) = calls s"
  by (simp_all add: update_nat_def)

lemma queued_of_spawn [simp]:
  "queued_of p (spawn t s) = (if p t then Suc (queued_of p s) else queued_of p s)"
  by (simp add: queued_of_def)

lemma queued_of_emit [simp]: "queued_of p (emit c s) = queued_of p s"
  by (simp add: queued_of_def)

lemma queued_of_set_app_state [simp]: "queued_of p (set_app_state st s) = queued_of p s"
  by (simp add: queued_of_def)

lemma queued_of_unqueue: "queued_of p (unqueue p s) = queued_of p s - 1"
proof -
  have "length (filter p (remove_first p ts)) = length (filter p ts) - 1" for ts
    by (induction ts) auto
  then show ?thesis by (simp add: queued_of_def unqueue_def)
qed

lemma queued_of_unqueue_other:
  assumes "\<And>t. \<not> (p t \<and> q t)"
  shows "queued_of p (unqueue q s) = queued_of p s"
proof -
  have "filter p (remove_first q ts) = filter p ts" for ts
    using assms by (induction ts) auto
  then show ?thesis by (simp add: queued_of_def unqueue_def)
qed

end
