(* ===== verification/WifiList.thy ===== *)
theory WifiList
  imports AppState Nvs SavedList
begin

text \<open>
  The WiFi station of \<open>main/wifi_multi.c\<close>: the saved list of networks in flash, and the
  scan-and-pick connect cycle with its retries, backoff and recovery.

  The WiFi driver is not part of the repository: its calls are entries of the trace, and its
  answers are arguments.  \<open>wifi_env\<close> collects the two results \<open>wifi_connect_begin\<close>
  and what it calls branch on (did the scan start, could the retry task be created);
  \<open>scan_env\<close> what the driver reports of a finished scan.  \<open>int8_t\<close> signal strengths
  are integers, \<open>int\<close> counters natural numbers.
\<close>

definition WIFI_LIST_MAX :: nat where "WIFI_LIST_MAX = 8"
definition WIFI_MAX_RETRIES :: nat where "WIFI_MAX_RETRIES = 7"
definition WIFI_RETRY_BASE_MS :: u32 where "WIFI_RETRY_BASE_MS = 1000"
definition WIFI_RETRY_MAX_MS :: u32 where "WIFI_RETRY_MAX_MS = 30000"
definition CAND_MAX_ATTEMPTS :: nat where "CAND_MAX_ATTEMPTS = 2"
definition SCAN_MAX_RECORDS :: nat where "SCAN_MAX_RECORDS = 24"
definition WIFI_NEGOTIATE_RECHECK_MS :: u32 where "WIFI_NEGOTIATE_RECHECK_MS = 3000"

lemmas wifi_consts = WIFI_LIST_MAX_def WIFI_MAX_RETRIES_def WIFI_RETRY_BASE_MS_def
  WIFI_RETRY_MAX_MS_def CAND_MAX_ATTEMPTS_def SCAN_MAX_RECORDS_def WIFI_NEGOTIATE_RECHECK_MS_def

record wifi_cred =
  c_ssid :: string
  c_pass :: string

record wifi_list_t =
  wl_ver :: nat
  wl_count :: nat
  wl_e :: "wifi_cred list"

definition cred0 :: wifi_cred where
  "cred0 = \<lparr>c_ssid = [], c_pass = []\<rparr>"

text \<open>A zeroed list.\<close>

definition wl_zero :: wifi_list_t where
  "wl_zero = \<lparr>wl_ver = 0, wl_count = 0, wl_e = replicate WIFI_LIST_MAX cred0\<rparr>"

record 's wifi_st = app_sh +
  wifi_list :: wifi_list_t
  wifi_connected :: bool
  wifi_ignore_disconnect :: bool
  wifi_retries :: nat
  wifi_retry_delay_ms :: u32
  wifi_rssi :: int
  wifi_cur_ssid :: string
  wifi_ip :: string
  scan_in_progress :: bool
  candidates :: "wifi_cred list"
  cand_rssi :: "int list"
  cand_count :: nat
  cand_index :: nat
  cand_attempts :: nat
  wifi_retry_running :: bool
  wifi_recovery_running :: bool
  wifi_stuck_count :: nat
  wifi_evt_inst :: bool   \<comment> \<open>\<open>!= NULL\<close>: the handler is registered\<close>
  ip_evt_inst :: bool
  wifi_dev :: "('s, wifi_list_t) nvs_dev"

record wifi_env =
  scan_ok :: bool   \<comment> \<open>\<open>esp_wifi_scan_start\<close> returned \<open>ESP_OK\<close>\<close>
  task_ok :: bool   \<comment> \<open>\<open>xTaskCreate\<close> returned \<open>pdPASS\<close>\<close>

record scan_env =
  sc_num :: nat                                   \<comment> \<open>\<open>esp_wifi_scan_get_ap_num\<close>\<close>
  sc_calloc :: bool                               \<comment> \<open>\<open>calloc\<close> succeeded\<close>
  sc_records :: "nat \<Rightarrow> (string \<times> int) list option"  \<comment> \<open>\<open>esp_wifi_scan_get_ap_records\<close> with room for n\<close>

section \<open>The saved list\<close>

definition wl_key :: string where "wl_key = ''wifilist''"

text \<open>\<open>nvs_list_load\<close>: the list read, or None when it returns false.\<close>

definition nvs_list_load :: "('i, wifi_list_t) nvs_dev \<Rightarrow> wifi_list_t option" where
  "nvs_list_load d =
     (if nvs_open d False \<noteq> ESP_OK then None
      else case nvs_get_blob d wl_key of
          None \<Rightarrow> None
        | Some tmp \<Rightarrow> if wl_ver tmp = 1 \<and> wl_count tmp \<le> WIFI_LIST_MAX then Some tmp else None)"

definition nvs_list_save :: "wifi_list_t \<Rightarrow> ('i, wifi_list_t) nvs_dev \<Rightarrow> bool \<times> ('i, wifi_list_t) nvs_dev" where
  "nvs_list_save l d =
     (if nvs_open d True \<noteq> ESP_OK then (False, d)
      else let (e, d1) = nvs_set_blob d wl_key l; (e', d2) = nvs_commit d1 in (e = ESP_OK, d2))"

definition wifi_save :: "('s, 'z) wifi_st_scheme \<Rightarrow> ('s, 'z) wifi_st_scheme" where
  "wifi_save s = s\<lparr>wifi_dev := snd (nvs_list_save (wifi_list s) (wifi_dev s))\<rparr>"

definition wifi_list_count :: "('s, 'z) wifi_st_scheme \<Rightarrow> nat" where
  "wifi_list_count s = wl_count (wifi_list s)"

definition wifi_list_get_ssid :: "('s, 'z) wifi_st_scheme \<Rightarrow> int \<Rightarrow> nat \<Rightarrow> string option" where
  "wifi_list_get_ssid s index out_len =
     (if 0 \<le> index \<and> index < int (wl_count (wifi_list s))
      then Some (strlcpy (c_ssid (wl_e (wifi_list s) ! nat index)) out_len) else None)"

text \<open>The search loop: the first entry from \<open>i\<close> on, below \<open>n\<close>, with this name.\<close>

function find_ssid :: "wifi_cred list \<Rightarrow> nat \<Rightarrow> string \<Rightarrow> nat \<Rightarrow> nat option" where
  "find_ssid es n ssid i =
     (if i < n then (if c_ssid (es ! i) = ssid then Some i else find_ssid es n ssid (Suc i)) else None)"
  by auto
termination by (relation "measure (\<lambda>(es, n, ssid, i). n - i)") auto

declare find_ssid.simps [simp del]

text \<open>The critical section of \<open>wifi_list_add\<close>.\<close>

definition wl_add :: "wifi_list_t \<Rightarrow> string \<Rightarrow> string option \<Rightarrow> wifi_list_t option" where
  "wl_add l ssid pass =
     (let found = find_ssid (wl_e l) (wl_count l) ssid 0;
          (idx, l) =
            (if found = None \<and> wl_count l < WIFI_LIST_MAX
             then (Some (wl_count l), l\<lparr>wl_count := wl_count l + 1\<rparr>) else (found, l))
      in case idx of
           None \<Rightarrow> None
         | Some i \<Rightarrow> Some (l\<lparr>wl_e := (wl_e l)[i := \<lparr>c_ssid = strlcpy ssid 33,
                      c_pass = (case pass of None \<Rightarrow> [] | Some p \<Rightarrow> strlcpy p 65)\<rparr>]\<rparr>))"

definition wifi_list_add :: "('s, 'z) wifi_st_scheme \<Rightarrow> string option \<Rightarrow> string option \<Rightarrow> bool \<times> ('s, 'z) wifi_st_scheme" where
  "wifi_list_add s ssid pass =
     (case ssid of
        None \<Rightarrow> (False, s)
      | Some ssid \<Rightarrow>
          if length ssid = 0 \<or> length ssid > 32 then (False, s)
          else if (case pass of None \<Rightarrow> False | Some p \<Rightarrow> length p > 64) then (False, s)
          else (case wl_add (wifi_list s) ssid pass of
                  None \<Rightarrow> (False, s)
                | Some l \<Rightarrow> (True, wifi_save (s\<lparr>wifi_list := l\<rparr>))))"

text \<open>The shift loop of \<open>wifi_list_remove\<close>: entries \<open>i + 1 \<dots> last\<close> move down by one.\<close>

function wl_shift :: "nat \<Rightarrow> nat \<Rightarrow> wifi_cred list \<Rightarrow> wifi_cred list" where
  "wl_shift i lst es = (if i < lst then wl_shift (Suc i) lst (es[i := es ! Suc i]) else es)"
  by auto
termination by (relation "measure (\<lambda>(i, lst, es). lst - i)") auto

declare wl_shift.simps [simp del]

definition wl_remove :: "nat \<Rightarrow> wifi_list_t \<Rightarrow> wifi_list_t" where
  "wl_remove i l =
     (let es = wl_shift i (wl_count l - 1) (wl_e l); n = wl_count l - 1
      in l\<lparr>wl_count := n, wl_e := es[n := cred0]\<rparr>)"

definition wifi_list_remove :: "('s, 'z) wifi_st_scheme \<Rightarrow> int \<Rightarrow> bool \<times> ('s, 'z) wifi_st_scheme" where
  "wifi_list_remove s index =
     (if 0 \<le> index \<and> index < int (wl_count (wifi_list s)) then
        let was_current = (c_ssid (wl_e (wifi_list s) ! nat index) = wifi_cur_ssid s);
            s = wifi_save (s\<lparr>wifi_list := wl_remove (nat index) (wifi_list s)\<rparr>);
            s = (if was_current \<and> wifi_connected s then emit EspDisconnect s else s)
        in (True, s)
      else (False, s))"

definition wifi_list_clear :: "('s, 'z) wifi_st_scheme \<Rightarrow> ('s, 'z) wifi_st_scheme" where
  "wifi_list_clear s =
     (let s = s\<lparr>wifi_list := wl_zero\<lparr>wl_ver := 1\<rparr>, wifi_cur_ssid := [], wifi_ignore_disconnect := True\<rparr>;
          s = wifi_save s;
          s = emit EspDisconnect s
      in set_app_state APP_NO_WIFI s)"

section \<open>Frame facts\<close>

text \<open>The operations of the shared part leave the WiFi state alone.\<close>

lemma wifi_emit [simp]:
  "wifi_list (emit c s) = wifi_list s" "wifi_connected (emit c s) = wifi_connected s"
  "wifi_ignore_disconnect (emit c s) = wifi_ignore_disconnect s" "wifi_retries (emit c s) = wifi_retries s"
  "wifi_retry_delay_ms (emit c s) = wifi_retry_delay_ms s" "wifi_rssi (emit c s) = wifi_rssi s"
  "wifi_cur_ssid (emit c s) = wifi_cur_ssid s" "wifi_ip (emit c s) = wifi_ip s"
  "scan_in_progress (emit c s) = scan_in_progress s" "candidates (emit c s) = candidates s"
  "cand_rssi (emit c s) = cand_rssi s" "cand_count (emit c s) = cand_count s"
  "cand_index (emit c s) = cand_index s" "cand_attempts (emit c s) = cand_attempts s"
  "wifi_retry_running (emit c s) = wifi_retry_running s" "wifi_recovery_running (emit c s) = wifi_recovery_running s"
  "wifi_stuck_count (emit c s) = wifi_stuck_count s" "wifi_evt_inst (emit c s) = wifi_evt_inst s"
  "ip_evt_inst (emit c s) = ip_evt_inst s" "wifi_dev (emit c s) = wifi_dev s"
  by (simp_all add: emit_def)

lemma wifi_spawn [simp]:
  "wifi_list (spawn t s) = wifi_list s" "wifi_connected (spawn t s) = wifi_connected s"
  "wifi_ignore_disconnect (spawn t s) = wifi_ignore_disconnect s" "wifi_retries (spawn t s) = wifi_retries s"
  "wifi_retry_delay_ms (spawn t s) = wifi_retry_delay_ms s" "wifi_rssi (spawn t s) = wifi_rssi s"
  "wifi_cur_ssid (spawn t s) = wifi_cur_ssid s" "wifi_ip (spawn t s) = wifi_ip s"
  "scan_in_progress (spawn t s) = scan_in_progress s" "candidates (spawn t s) = candidates s"
  "cand_rssi (spawn t s) = cand_rssi s" "cand_count (spawn t s) = cand_count s"
  "cand_index (spawn t s) = cand_index s" "cand_attempts (spawn t s) = cand_attempts s"
  "wifi_retry_running (spawn t s) = wifi_retry_running s" "wifi_recovery_running (spawn t s) = wifi_recovery_running s"
  "wifi_stuck_count (spawn t s) = wifi_stuck_count s" "wifi_evt_inst (spawn t s) = wifi_evt_inst s"
  "ip_evt_inst (spawn t s) = ip_evt_inst s" "wifi_dev (spawn t s) = wifi_dev s"
  by (simp_all add: spawn_def)

lemma wifi_set_app_state [simp]:
  "wifi_list (set_app_state a s) = wifi_list s" "wifi_connected (set_app_state a s) = wifi_connected s"
  "wifi_ignore_disconnect (set_app_state a s) = wifi_ignore_disconnect s" "wifi_retries (set_app_state a s) = wifi_retries s"
  "wifi_retry_delay_ms (set_app_state a s) = wifi_retry_delay_ms s" "wifi_rssi (set_app_state a s) = wifi_rssi s"
  "wifi_cur_ssid (set_app_state a s) = wifi_cur_ssid s" "wifi_ip (set_app_state a s) = wifi_ip s"
  "scan_in_progress (set_app_state a s) = scan_in_progress s" "candidates (set_app_state a s) = candidates s"
  "cand_rssi (set_app_state a s) = cand_rssi s" "cand_count (set_app_state a s) = cand_count s"
  "cand_index (set_app_state a s) = cand_index s" "cand_attempts (set_app_state a s) = cand_attempts s"
  "wifi_retry_running (set_app_state a s) = wifi_retry_running s" "wifi_recovery_running (set_app_state a s) = wifi_recovery_running s"
  "wifi_stuck_count (set_app_state a s) = wifi_stuck_count s" "wifi_evt_inst (set_app_state a s) = wifi_evt_inst s"
  "ip_evt_inst (set_app_state a s) = ip_evt_inst s" "wifi_dev (set_app_state a s) = wifi_dev s"
  by (simp_all add: set_app_state_eq)

lemma wifi_unqueue [simp]:
  "wifi_list (unqueue p s) = wifi_list s" "wifi_connected (unqueue p s) = wifi_connected s"
  "wifi_ignore_disconnect (unqueue p s) = wifi_ignore_disconnect s" "wifi_retries (unqueue p s) = wifi_retries s"
  "wifi_retry_delay_ms (unqueue p s) = wifi_retry_delay_ms s" "wifi_rssi (unqueue p s) = wifi_rssi s"
  "wifi_cur_ssid (unqueue p s) = wifi_cur_ssid s" "wifi_ip (unqueue p s) = wifi_ip s"
  "scan_in_progress (unqueue p s) = scan_in_progress s" "candidates (unqueue p s) = candidates s"
  "cand_rssi (unqueue p s) = cand_rssi s" "cand_count (unqueue p s) = cand_count s"
  "cand_index (unqueue p s) = cand_index s" "cand_attempts (unqueue p s) = cand_attempts s"
  "wifi_retry_running (unqueue p s) = wifi_retry_running s" "wifi_recovery_running (unqueue p s) = wifi_recovery_running s"
  "wifi_stuck_count (unqueue p s) = wifi_stuck_count s" "wifi_evt_inst (unqueue p s) = wifi_evt_inst s"
  "ip_evt_inst (unqueue p s) = ip_evt_inst s" "wifi_dev (unqueue p s) = wifi_dev s"
  by (simp_all add: unqueue_def)

lemma wifi_update_nat [simp]:
  "wifi_list (update_nat s) = wifi_list s" "wifi_connected (update_nat s) = wifi_connected s"
  "wifi_ignore_disconnect (update_nat s) = wifi_ignore_disconnect s" "wifi_retries (update_nat s) = wifi_retries s"
  "wifi_retry_delay_ms (update_nat s) = wifi_retry_delay_ms s" "wifi_rssi (update_nat s) = wifi_rssi s"
  "wifi_cur_ssid (update_nat s) = wifi_cur_ssid s" "wifi_ip (update_nat s) = wifi_ip s"
  "scan_in_progress (update_nat s) = scan_in_progress s" "candidates (update_nat s) = candidates s"
  "cand_rssi (update_nat s) = cand_rssi s" "cand_count (update_nat s) = cand_count s"
  "cand_index (update_nat s) = cand_index s" "cand_attempts (update_nat s) = cand_attempts s"
  "wifi_retry_running (update_nat s) = wifi_retry_running s" "wifi_recovery_running (update_nat s) = wifi_recovery_running s"
  "wifi_stuck_count (update_nat s) = wifi_stuck_count s" "wifi_evt_inst (update_nat s) = wifi_evt_inst s"
  "ip_evt_inst (update_nat s) = ip_evt_inst s" "wifi_dev (update_nat s) = wifi_dev s"
  by (simp_all add: update_nat_def spawn_def)

section \<open>Facts about the saved list\<close>

lemma find_ssid_None:
  "find_ssid es n ssid i = None \<longleftrightarrow> (\<forall>k. i \<le> k \<and> k < n \<longrightarrow> c_ssid (es ! k) \<noteq> ssid)"
proof (induction es n ssid i rule: find_ssid.induct)
  case (1 es n ssid i)
  have "(\<forall>k. i \<le> k \<and> k < n \<longrightarrow> c_ssid (es ! k) \<noteq> ssid) \<longleftrightarrow>
      (i < n \<longrightarrow> c_ssid (es ! i) \<noteq> ssid) \<and> (\<forall>k. Suc i \<le> k \<and> k < n \<longrightarrow> c_ssid (es ! k) \<noteq> ssid)"
    by (metis Suc_leD Suc_leI le_neq_implies_less order_refl)
  then show ?case using 1 by (subst find_ssid.simps) auto
qed

lemma find_ssid_Some:
  "find_ssid es n ssid i = Some k \<Longrightarrow>
    i \<le> k \<and> k < n \<and> c_ssid (es ! k) = ssid \<and> (\<forall>j. i \<le> j \<and> j < k \<longrightarrow> c_ssid (es ! j) \<noteq> ssid)"
proof (induction es n ssid i rule: find_ssid.induct)
  case (1 es n ssid i)
  show ?case
  proof (cases "i < n \<and> c_ssid (es ! i) \<noteq> ssid")
    case True
    then have s: "find_ssid es n ssid (Suc i) = Some k" using "1.prems" by (subst (asm) find_ssid.simps) simp
    from "1.IH" True this have *: "Suc i \<le> k \<and> k < n \<and> c_ssid (es ! k) = ssid \<and>
        (\<forall>j. Suc i \<le> j \<and> j < k \<longrightarrow> c_ssid (es ! j) \<noteq> ssid)" by blast
    then have "\<forall>j. i \<le> j \<and> j < k \<longrightarrow> c_ssid (es ! j) \<noteq> ssid"
      using True by (metis Suc_leI le_neq_implies_less)
    with * show ?thesis by simp
  next
    case False
    then show ?thesis using "1.prems" by (subst (asm) find_ssid.simps) (auto split: if_splits)
  qed
qed

lemma wl_shift_nth:
  "lst < length es \<Longrightarrow> length (wl_shift i lst es) = length es \<and>
    (\<forall>k < length es. wl_shift i lst es ! k = (if i \<le> k \<and> k < lst then es ! Suc k else es ! k))"
proof (induction i lst es rule: wl_shift.induct)
  case (1 i lst es)
  show ?case
  proof (cases "i < lst")
    case True
    let ?es = "es[i := es ! Suc i]"
    have IH: "length (wl_shift (Suc i) lst ?es) = length es"
      "\<And>k. k < length es \<Longrightarrow> wl_shift (Suc i) lst ?es ! k = (if Suc i \<le> k \<and> k < lst then ?es ! Suc k else ?es ! k)"
      using "1.IH" [OF True] "1.prems" by auto
    have "wl_shift i lst es = wl_shift (Suc i) lst ?es" using True by (subst wl_shift.simps) simp
    then show ?thesis using IH True "1.prems" by (auto simp: nth_list_update)
  next
    case False
    then show ?thesis by (subst (1 2) wl_shift.simps) auto
  qed
qed

text \<open>The networks the list holds, and its well-formedness: the names are distinct and of legal
  length, and the slots behind the last entry are wiped.\<close>

definition nets :: "wifi_list_t \<Rightarrow> wifi_cred list" where
  "nets l = take (wl_count l) (wl_e l)"

definition wl_ok :: "wifi_list_t \<Rightarrow> bool" where
  "wl_ok l \<longleftrightarrow> wl_ver l = 1 \<and> length (wl_e l) = WIFI_LIST_MAX \<and> wl_count l \<le> WIFI_LIST_MAX \<and>
     distinct (map c_ssid (nets l)) \<and>
     list_all (\<lambda>c. 0 < length (c_ssid c) \<and> length (c_ssid c) \<le> 32 \<and> length (c_pass c) \<le> 64) (nets l) \<and>
     list_all (\<lambda>c. c = cred0) (drop (wl_count l) (wl_e l))"

lemma length_nets: "wl_ok l \<Longrightarrow> length (nets l) = wl_count l"
  by (simp add: nets_def wl_ok_def)

lemma nth_nets: "wl_ok l \<Longrightarrow> k < wl_count l \<Longrightarrow> nets l ! k = wl_e l ! k"
  by (simp add: nets_def)

lemma wl_ok_zero: "wl_ok (wl_zero\<lparr>wl_ver := 1\<rparr>)" and nets_zero: "nets (wl_zero\<lparr>wl_ver := 1\<rparr>) = []"
  by (simp_all add: wl_ok_def wl_zero_def nets_def list_all_iff)

text \<open>Adding: a known name gets the new password in its place, a new one is appended.\<close>

definition put_net :: "wifi_cred \<Rightarrow> wifi_cred list \<Rightarrow> wifi_cred list" where
  "put_net c cs = (if c_ssid c \<in> c_ssid ` set cs
     then map (\<lambda>x. if c_ssid x = c_ssid c then c else x) cs else cs @ [c])"

lemma map_distinct_update:
  assumes "distinct (map f xs)" and "k < length xs" and "f (xs ! k) = f c"
  shows "map (\<lambda>x. if f x = f c then c else x) xs = xs[k := c]"
proof (rule nth_equalityI)
  fix j assume j: "j < length (map (\<lambda>x. if f x = f c then c else x) xs)"
  show "map (\<lambda>x. if f x = f c then c else x) xs ! j = xs[k := c] ! j"
  proof (cases "j = k")
    case False
    then have "f (xs ! j) \<noteq> f (xs ! k)" using assms(1,2) j by (simp add: distinct_conv_nth)
    then show ?thesis using False assms j by simp
  qed (use assms j in simp)
qed simp

lemma wl_add_spec:
  fixes ssid :: string and pass :: "string option"
  defines "c \<equiv> \<lparr>c_ssid = ssid, c_pass = (case pass of None \<Rightarrow> [] | Some p \<Rightarrow> p)\<rparr>"
  assumes ok: "wl_ok l" and ssid: "0 < length ssid" "length ssid \<le> 32"
    and pass: "length (c_pass c) \<le> 64"
  shows "case wl_add l ssid pass of
      None \<Rightarrow> ssid \<notin> c_ssid ` set (nets l) \<and> length (nets l) = WIFI_LIST_MAX
    | Some l' \<Rightarrow> wl_ok l' \<and> nets l' = put_net c (nets l)"
proof -
  note lens = length_nets [OF ok]
  have len: "length (wl_e l) = 8" "wl_count l \<le> 8" using ok by (auto simp: wl_ok_def WIFI_LIST_MAX_def)
  have cp: "strlcpy ssid 33 = ssid" using ssid by (simp add: strlcpy_fits)
  have cpp: "(case pass of None \<Rightarrow> [] | Some p \<Rightarrow> strlcpy p 65) = c_pass c"
    using pass by (cases pass) (auto simp: c_def strlcpy_fits)
  have cc: "\<lparr>c_ssid = ssid, c_pass = c_pass c\<rparr> = c" by (simp add: c_def)
  have cred: "0 < length (c_ssid c)" "length (c_ssid c) \<le> 32" "c_ssid c = ssid"
    using ssid by (simp_all add: c_def)
  show ?thesis
  proof (cases "find_ssid (wl_e l) (wl_count l) ssid 0")
    case None
    then have new: "ssid \<notin> c_ssid ` set (nets l)"
      unfolding find_ssid_None by (fastforce simp: nets_def in_set_conv_nth)
    show ?thesis
    proof (cases "wl_count l < 8")
      case True
      let ?l = "l\<lparr>wl_count := Suc (wl_count l), wl_e := (wl_e l)[wl_count l := c]\<rparr>"
      have add: "wl_add l ssid pass = Some ?l"
        using True None cp cpp cc by (simp add: wl_add_def WIFI_LIST_MAX_def)
      have n: "nets ?l = nets l @ [c]"
        using True len by (simp add: nets_def take_Suc_conv_app_nth)
      have d: "drop (Suc (wl_count l)) ((wl_e l)[wl_count l := c]) = drop (Suc (wl_count l)) (wl_e l)"
        by simp
      have "list_all (\<lambda>c. c = cred0) (drop (Suc (wl_count l)) (wl_e l))"
        using ok set_drop_subset_set_drop [of "wl_count l" "Suc (wl_count l)" "wl_e l"]
        by (auto simp: wl_ok_def list_all_iff)
      then have "wl_ok ?l"
        unfolding wl_ok_def n using ok new cred pass True len d
        by (simp add: wl_ok_def WIFI_LIST_MAX_def)
      with add n new cred show ?thesis by (simp add: put_net_def)
    next
      case False
      then have "wl_add l ssid pass = None" using None by (simp add: wl_add_def WIFI_LIST_MAX_def)
      with False new lens len show ?thesis by (simp add: WIFI_LIST_MAX_def)
    qed
  next
    case (Some k)
    note k = find_ssid_Some [OF Some]
    let ?l = "l\<lparr>wl_e := (wl_e l)[k := c]\<rparr>"
    have add: "wl_add l ssid pass = Some ?l" using Some cp cpp cc by (simp add: wl_add_def)
    have n: "nets ?l = (nets l)[k := c]" using k by (simp add: nets_def take_update_swap)
    have kn: "c_ssid (nets l ! k) = ssid" "k < length (nets l)" using k ok lens by (simp_all add: nets_def)
    have dist: "distinct (map c_ssid (nets l))" using ok by (simp add: wl_ok_def)
    have "c_ssid (nets l ! k) \<in> c_ssid ` set (nets l)" using kn(2) by simp
    then have "c_ssid c \<in> c_ssid ` set (nets l)" using kn(1) cred(3) by simp
    then have p: "put_net c (nets l) = (nets l)[k := c]"
      unfolding put_net_def using map_distinct_update [OF dist kn(2), of c] kn(1) cred(3) by (simp only: if_True)
    have m: "map c_ssid ((nets l)[k := c]) = map c_ssid (nets l)"
      using kn cred by (metis list_update_id map_update nth_map)
    have "list_all (\<lambda>c. 0 < length (c_ssid c) \<and> length (c_ssid c) \<le> 32 \<and> length (c_pass c) \<le> 64) ((nets l)[k := c])"
      using ok cred pass set_update_subset_insert [of "nets l" k c] by (auto simp: wl_ok_def list_all_iff)
    then have "wl_ok ?l" unfolding wl_ok_def n m using ok k by (simp add: wl_ok_def)
    with add n p show ?thesis by simp
  qed
qed

text \<open>Deleting: the entries behind move down and the freed slot is wiped.\<close>

lemma wl_remove_spec:
  assumes ok: "wl_ok l" and i: "i < wl_count l"
  shows "wl_ok (wl_remove i l) \<and> nets (wl_remove i l) = remove_nth i (nets l)"
proof -
  let ?n = "wl_count l"
  have len: "length (wl_e l) = 8" "?n \<le> 8" using ok by (auto simp: wl_ok_def WIFI_LIST_MAX_def)
  let ?es = "wl_shift i (?n - 1) (wl_e l)"
  have sh: "length ?es = 8"
    "\<And>k. k < 8 \<Longrightarrow> ?es ! k = (if i \<le> k \<and> k < ?n - 1 then wl_e l ! Suc k else wl_e l ! k)"
    using wl_shift_nth [of "?n - 1" "wl_e l" i] len i by auto
  have rem: "wl_remove i l = l\<lparr>wl_count := ?n - 1, wl_e := ?es[?n - 1 := cred0]\<rparr>"
    by (simp add: wl_remove_def Let_def)
  have lens: "length (nets l) = ?n" using length_nets [OF ok] .
  have n: "nets (wl_remove i l) = remove_nth i (nets l)"
  proof (rule nth_equalityI)
    show "length (nets (wl_remove i l)) = length (remove_nth i (nets l))"
      using i lens len sh by (simp add: rem nets_def length_remove_nth)
  next
    fix j assume "j < length (nets (wl_remove i l))"
    then have j: "j < ?n - 1" using sh len by (simp add: rem nets_def)
    then show "nets (wl_remove i l) ! j = remove_nth i (nets l) ! j"
      using i lens len sh(1) sh(2) [of j] nth_remove_nth [of i "nets l" j] by (auto simp: rem nets_def)
  qed
  have tail: "drop (?n - 1) (?es[?n - 1 := cred0]) = cred0 # drop ?n (wl_e l)"
  proof (rule nth_equalityI)
    show "length (drop (?n - 1) (?es[?n - 1 := cred0])) = length (cred0 # drop ?n (wl_e l))"
      using sh len i by simp
  next
    fix j assume "j < length (drop (?n - 1) (?es[?n - 1 := cred0]))"
    then have j: "?n - 1 + j < 8" using sh by simp
    show "drop (?n - 1) (?es[?n - 1 := cred0]) ! j = (cred0 # drop ?n (wl_e l)) ! j"
    proof (cases j)
      case 0
      then show ?thesis using j sh by simp
    next
      case (Suc m)
      then have "?n - 1 + j = ?n + m" using i by simp
      then show ?thesis using Suc j sh(1) sh(2) [of "?n + m"] len i by (simp add: nth_list_update)
    qed
  qed
  have sub: "set (remove_nth i (nets l)) \<subseteq> set (nets l)" by (rule set_remove_nth)
  have dist: "distinct (map c_ssid (remove_nth i (nets l)))"
  proof -
    have "map c_ssid (remove_nth i (nets l)) = remove_nth i (map c_ssid (nets l))"
      by (simp add: remove_nth_def take_map drop_map)
    moreover have "distinct (remove_nth i xs)" if "distinct xs" for xs :: "string list"
      using that by (auto simp: remove_nth_def set_take_disj_set_drop_if_distinct)
    ultimately show ?thesis using ok by (simp add: wl_ok_def)
  qed
  have wiped: "list_all (\<lambda>c. c = cred0) (drop (?n - 1) (?es[?n - 1 := cred0]))"
    unfolding tail using ok by (simp add: wl_ok_def)
  have "wl_ok (wl_remove i l)"
    unfolding wl_ok_def n using ok dist sub wiped sh len i
    by (auto simp: rem wl_ok_def list_all_iff WIFI_LIST_MAX_def)
  with n show ?thesis by simp
qed

end
