(* ===== verification/WifiScan.thy ===== *)
theory WifiScan
  imports WifiList "HOL-Library.Multiset"
begin

text \<open>
  How \<open>handle_scan_done\<close> of \<open>main/wifi_multi.c\<close> picks and orders the candidates of a
  connect cycle: the records of the scan met with the saved list, one candidate per name with
  its best signal strength, sorted best first by an insertion sort on two parallel arrays.
\<close>

section \<open>Choosing the candidates\<close>

text \<open>The records the handler works on: at most \<open>SCAN_MAX_RECORDS\<close>, none when memory or the
  driver fails.  The second component says whether the driver's list was cleared instead.\<close>

definition scan_fetch :: "scan_env \<Rightarrow> (string \<times> int) list \<times> bool" where
  "scan_fetch sc =
     (let n = min (sc_num sc) SCAN_MAX_RECORDS in
      if n > 0 \<and> sc_calloc sc
      then ((case sc_records sc n of Some rs \<Rightarrow> rs | None \<Rightarrow> []), False)
      else ([], True))"

function find_cand :: "wifi_cred list \<Rightarrow> nat \<Rightarrow> string \<Rightarrow> nat \<Rightarrow> nat option" where
  "find_cand cs n ssid c =
     (if c < n then (if c_ssid (cs ! c) = ssid then Some c else find_cand cs n ssid (Suc c)) else None)"
  by auto
termination by (relation "measure (\<lambda>(cs, n, ssid, i). n - i)") auto

declare find_cand.simps [simp del]

text \<open>The candidate arrays and their fill count.\<close>

type_synonym cands = "wifi_cred list \<times> int list \<times> nat"

definition add_hit :: "wifi_list_t \<Rightarrow> (string \<times> int) \<Rightarrow> cands \<Rightarrow> cands" where
  "add_hit saved r ca =
     (let (seen, rssi) = r; (cs, rs, n) = ca in
      case find_ssid (wl_e saved) (wl_count saved) seen 0 of
        None \<Rightarrow> ca
      | Some s \<Rightarrow>
          (case find_cand cs n seen 0 of
             Some ex \<Rightarrow> if rssi > rs ! ex then (cs, rs[ex := rssi], n) else ca
           | None \<Rightarrow> if n < WIFI_LIST_MAX then (cs[n := wl_e saved ! s], rs[n := rssi], n + 1) else ca))"

text \<open>The shift loop of the insertion sort; the position is \<open>j + 1\<close>, so that the loop ends
  at 0.\<close>

fun ins_shift :: "int \<Rightarrow> wifi_cred list \<Rightarrow> int list \<Rightarrow> nat \<Rightarrow> wifi_cred list \<times> int list \<times> nat" where
  "ins_shift r cs rs 0 = (cs, rs, 0)"
| "ins_shift r cs rs (Suc j) =
     (if rs ! j < r then ins_shift r (cs[Suc j := cs ! j]) (rs[Suc j := rs ! j]) j else (cs, rs, Suc j))"

definition ins_step :: "nat \<Rightarrow> wifi_cred list \<Rightarrow> int list \<Rightarrow> wifi_cred list \<times> int list" where
  "ins_step i cs rs =
     (let c = cs ! i; r = rs ! i; (cs, rs, k) = ins_shift r cs rs i in (cs[k := c], rs[k := r]))"

function ins_sort :: "nat \<Rightarrow> nat \<Rightarrow> wifi_cred list \<Rightarrow> int list \<Rightarrow> wifi_cred list \<times> int list" where
  "ins_sort i n cs rs = (if i < n then (case ins_step i cs rs of (cs, rs) \<Rightarrow> ins_sort (Suc i) n cs rs) else (cs, rs))"
  by auto
termination by (relation "measure (\<lambda>(i, n, cs, rs). n - i)") auto

declare ins_sort.simps [simp del]

section \<open>Facts about the candidate selection\<close>

lemma find_cand_eq: "find_cand cs n ssid c = find_ssid cs n ssid c"
proof (induction cs n ssid c rule: find_cand.induct)
  case (1 cs n ssid c)
  then show ?case by (subst find_cand.simps, subst find_ssid.simps) simp
qed

text \<open>The insertion sort, on the array of pairs.\<close>

lemma ins_shift_spec:
  assumes "ins_shift r cs rs j = (cs', rs', k)" and "length cs = length rs" and "j < length rs"
  shows "k \<le> j \<and> length cs' = length rs \<and> length rs' = length rs \<and>
    (\<forall>m < length rs. zip cs' rs' ! m = (if k < m \<and> m \<le> j then zip cs rs ! (m - 1) else zip cs rs ! m)) \<and>
    (\<forall>m. k \<le> m \<and> m < j \<longrightarrow> rs ! m < r) \<and> (k = 0 \<or> \<not> rs ! (k - 1) < r)"
  using assms
proof (induction r cs rs j rule: ins_shift.induct)
  case (1 r cs rs)
  then show ?case by auto
next
  case (2 r cs rs j)
  show ?case
  proof (cases "rs ! j < r")
    case True
    let ?cs = "cs[Suc j := cs ! j]" and ?rs = "rs[Suc j := rs ! j]"
    have sh: "ins_shift r ?cs ?rs j = (cs', rs', k)" using "2.prems" True by simp
    have IH: "k \<le> j" "length cs' = length rs" "length rs' = length rs"
      "\<And>m. m < length rs \<Longrightarrow> zip cs' rs' ! m = (if k < m \<and> m \<le> j then zip ?cs ?rs ! (m - 1) else zip ?cs ?rs ! m)"
      "\<And>m. k \<le> m \<Longrightarrow> m < j \<Longrightarrow> ?rs ! m < r" "k = 0 \<or> \<not> ?rs ! (k - 1) < r"
      using "2.IH" [OF True sh] "2.prems" by auto
    have z: "zip ?cs ?rs = (zip cs rs)[Suc j := zip cs rs ! j]"
      using "2.prems" by (simp add: zip_update)
    have a: "zip cs' rs' ! m = (if k < m \<and> m \<le> Suc j then zip cs rs ! (m - 1) else zip cs rs ! m)"
      if m: "m < length rs" for m
    proof (cases "m = Suc j")
      case True
      then show ?thesis using IH(4) [OF m] IH(1) "2.prems" m unfolding z by simp
    next
      case False
      then show ?thesis using IH(4) [OF m] "2.prems" m unfolding z by (auto simp: nth_list_update)
    qed
    have b: "rs ! m < r" if "k \<le> m" "m < Suc j" for m
      using IH(5) [of m] that True by (cases "m = j") auto
    have c: "k = 0 \<or> \<not> rs ! (k - 1) < r" using IH(1,6) by (cases k) auto
    show ?thesis using IH(1,2,3) a b c by simp
  next
    case False
    then show ?thesis using "2.prems" by auto
  qed
qed

abbreviation rank :: "wifi_cred \<times> int \<Rightarrow> int" where
  "rank p \<equiv> - snd p"

text \<open>Placing one element between a part that ranks no worse and a part that ranks strictly worse
  keeps a list sorted, and moves the element past no equal one.\<close>

lemma place_between:
  fixes A B :: "(wifi_cred \<times> int) list"
  assumes "sorted (map rank (A @ B))" and "\<And>y. y \<in> set A \<Longrightarrow> rank y \<le> rank x"
    and less: "\<And>y. y \<in> set B \<Longrightarrow> rank x < rank y"
  shows "sorted (map rank (A @ x # B))"
    and "mset (A @ x # B) = mset ((A @ B) @ [x])"
    and "filter (\<lambda>y. v = rank y) (A @ x # B) = filter (\<lambda>y. v = rank y) ((A @ B) @ [x])"
proof -
  show "sorted (map rank (A @ x # B))"
    using assms by (auto simp: sorted_append intro: less_imp_le)
  show "mset (A @ x # B) = mset ((A @ B) @ [x])" by simp
  show "filter (\<lambda>y. v = rank y) (A @ x # B) = filter (\<lambda>y. v = rank y) ((A @ B) @ [x])"
  proof (cases "v = rank x")
    case True
    have "filter (\<lambda>y. v = rank y) B = []" unfolding filter_empty_conv True using less by fastforce
    then show ?thesis by (simp only: filter_append filter.simps append_Nil2 append_Nil append_assoc if_True if_False split: if_split)
  qed simp
qed

lemma ins_step_spec:
  assumes eq: "ins_step i cs rs = (cs', rs')" and len: "length cs = length rs" and i: "i < length rs"
    and sorted: "sorted (map rank (take i (zip cs rs)))"
  shows "length cs' = length rs \<and> length rs' = length rs \<and>
    drop (Suc i) (zip cs' rs') = drop (Suc i) (zip cs rs) \<and>
    sorted (map rank (take (Suc i) (zip cs' rs'))) \<and>
    mset (take (Suc i) (zip cs' rs')) = mset (take (Suc i) (zip cs rs)) \<and>
    (\<forall>v. filter (\<lambda>x. v = rank x) (take (Suc i) (zip cs' rs')) =
         filter (\<lambda>x. v = rank x) (take (Suc i) (zip cs rs)))"
proof -
  let ?P = "zip cs rs" and ?x = "zip cs rs ! i"
  obtain cs1 rs1 k where sh: "ins_shift (rs ! i) cs rs i = (cs1, rs1, k)" by (metis prod_cases3)
  then have eqs: "cs' = cs1[k := cs ! i]" "rs' = rs1[k := rs ! i]"
    using eq by (simp_all add: ins_step_def)
  note s = ins_shift_spec [OF sh len i]
  have x: "?x = (cs ! i, rs ! i)" using len i by simp
  have lP: "length ?P = length rs" using len by simp
  let ?Q = "zip cs' rs'"
  have Q: "?Q = (zip cs1 rs1)[k := ?x]" unfolding eqs x using s by (simp add: zip_update)
  have lQ: "length ?Q = length rs" using s eqs by simp
  have k: "k \<le> i" using s by simp
  let ?A = "take k ?P" and ?B = "drop k (take i ?P)"
  have AB: "?A @ ?B = take i ?P" using k by (metis append_take_drop_id min.absorb1 take_take)
  have nth: "?Q ! m = (if m = k then ?x else if k < m \<and> m \<le> i then ?P ! (m - 1) else ?P ! m)"
    if "m < length rs" for m
    using s that lQ unfolding Q by (auto simp: nth_list_update)
  have front: "take (Suc i) ?Q = ?A @ ?x # ?B"
  proof (rule nth_equalityI)
    show "length (take (Suc i) ?Q) = length (?A @ ?x # ?B)" using lQ lP i k by simp
  next
    fix m assume "m < length (take (Suc i) ?Q)"
    then have m: "m \<le> i" "m < length rs" using lQ by auto
    show "take (Suc i) ?Q ! m = (?A @ ?x # ?B) ! m"
    proof -
      have l: "take (Suc i) ?Q ! m = ?Q ! m" using m by simp
      have r: "(?A @ ?x # ?B) ! m = (if m < k then ?P ! m else if m = k then ?x else ?P ! (m - 1))"
        using m k lP i by (auto simp: nth_append nth_Cons' min_def)
      show ?thesis unfolding l r nth [OF m(2)] using m by simp
    qed
  qed
  have rear: "drop (Suc i) ?Q = drop (Suc i) ?P"
  proof (rule nth_equalityI)
    show "length (drop (Suc i) ?Q) = length (drop (Suc i) ?P)" using lQ lP by simp
  next
    fix m assume "m < length (drop (Suc i) ?Q)"
    then show "drop (Suc i) ?Q ! m = drop (Suc i) ?P ! m"
      using nth [of "Suc i + m"] lQ lP k by simp
  qed
  have old: "take (Suc i) ?P = take i ?P @ [?x]" using i lP by (simp add: take_Suc_conv_app_nth)
  have Bless: "rank ?x < rank y" if y: "y \<in> set ?B" for y
  proof -
    obtain m where "m < length ?B" "y = ?B ! m" using y unfolding in_set_conv_nth by blast
    then have "k + m < i" "y = ?P ! (k + m)" using lP i by auto
    then have "snd y < rs ! i" using s i len by simp
    then show ?thesis using x by simp
  qed
  have sA: "sorted (map rank ?A)" using sorted AB by (metis map_append sorted_append)
  have Ale: "rank y \<le> rank ?x" if y: "y \<in> set ?A" for y
  proof -
    have kpos: "0 < k" using y by (cases k) auto
    then have r: "\<not> rs ! (k - 1) < rs ! i" using s by simp
    obtain m where m: "m < k" "y = ?P ! m" using y lP i k by (auto simp: in_set_conv_nth)
    have l: "k - 1 < k" "k - 1 < length rs" "m < length rs" "m \<le> k - 1" "k - 1 < length (map rank ?A)"
      using kpos i k m lP by auto
    have "map rank ?A ! m \<le> map rank ?A ! (k - 1)" by (rule sorted_nth_mono [OF sA l(4,5)])
    then have "rs ! (k - 1) \<le> rs ! m" using m(1) l(1-3) len by simp
    then show ?thesis using r m x i k len by simp
  qed
  have srtAB: "sorted (map rank (?A @ ?B))" using sorted AB by simp
  note pl = place_between [OF srtAB Ale Bless]
  have old': "take (Suc i) ?P = (?A @ ?B) @ [?x]" using old AB by simp
  show ?thesis using s eqs rear pl unfolding front old' by simp
qed

lemma ins_sort_spec:
  assumes "length cs = length rs" and "n \<le> length rs" and "i \<le> n"
    and "sorted (map rank (take i (zip cs rs)))"
    and "ins_sort i n cs rs = (cs', rs')"
  shows "length cs' = length rs \<and> length rs' = length rs \<and>
    sorted (map rank (take n (zip cs' rs'))) \<and> mset (take n (zip cs' rs')) = mset (take n (zip cs rs)) \<and>
    (\<forall>v. filter (\<lambda>x. v = rank x) (take n (zip cs' rs')) = filter (\<lambda>x. v = rank x) (take n (zip cs rs)))"
  using assms
proof (induction i n cs rs rule: ins_sort.induct)
  case (1 i n cs rs)
  show ?case
  proof (cases "i < n")
    case False
    then show ?thesis using "1.prems" by (subst (asm) ins_sort.simps) simp
  next
    case True
    obtain cs1 rs1 where st: "ins_step i cs rs = (cs1, rs1)" by force
    have i: "i < length rs" using True "1.prems" by simp
    note s = ins_step_spec [OF st "1.prems"(1) i "1.prems"(4)]
    have r: "ins_sort (Suc i) n cs1 rs1 = (cs', rs')"
      using "1.prems"(5) True st by (subst (asm) ins_sort.simps) simp
    have l: "length cs1 = length rs1" "n \<le> length rs1" "Suc i \<le> n"
      using s "1.prems" True by auto
    have IH: "length cs' = length rs1 \<and> length rs' = length rs1 \<and>
      sorted (map rank (take n (zip cs' rs'))) \<and> mset (take n (zip cs' rs')) = mset (take n (zip cs1 rs1)) \<and>
      (\<forall>v. filter (\<lambda>x. v = rank x) (take n (zip cs' rs')) = filter (\<lambda>x. v = rank x) (take n (zip cs1 rs1)))"
      using "1.IH" [OF True st [symmetric] l _ r] s by blast
    have split: "take n xs = take (Suc i) xs @ take (n - Suc i) (drop (Suc i) xs)" for xs :: "(wifi_cred \<times> int) list"
      using True by (metis Suc_leI add_diff_inverse_nat not_less take_add)
    show ?thesis using IH s split [of "zip cs1 rs1"] split [of "zip cs rs"] by simp
  qed
qed

lemma ins_sort_sorts:
  assumes "length cs = length rs" and "n \<le> length rs" and "ins_sort 1 n cs rs = (cs', rs')"
  shows "length cs' = length rs \<and> length rs' = length rs \<and>
    take n (zip cs' rs') = sort_key rank (take n (zip cs rs))"
proof (cases "n = 0")
  case True
  then show ?thesis using assms by (subst (asm) ins_sort.simps) auto
next
  case False
  have "sorted (map rank (take 1 (zip cs rs)))" by (cases "zip cs rs") auto
  with False have s: "length cs' = length rs \<and> length rs' = length rs \<and>
    sorted (map rank (take n (zip cs' rs'))) \<and> mset (take n (zip cs' rs')) = mset (take n (zip cs rs)) \<and>
    (\<forall>v. filter (\<lambda>x. v = rank x) (take n (zip cs' rs')) = filter (\<lambda>x. v = rank x) (take n (zip cs rs)))"
    using ins_sort_spec [OF assms(1,2) _ _ assms(3)] by simp
  have "sort_key rank (take n (zip cs rs)) = take n (zip cs' rs')"
  proof (rule properties_for_sort_key)
    show "mset (take n (zip cs' rs')) = mset (take n (zip cs rs))" using s by blast
    show "filter (\<lambda>x. rank k = rank x) (take n (zip cs' rs')) = filter (\<lambda>x. rank k = rank x) (take n (zip cs rs))"
      for k :: "wifi_cred \<times> int" using s by blast
    show "sorted (map rank (take n (zip cs' rs')))" using s by blast
  qed
  with s show ?thesis by simp
qed

text \<open>The strengths at which a scan saw a name, and what the selection should come to: every saved
  network that was seen, with the best of its strengths.\<close>

definition seen :: "(string \<times> int) list \<Rightarrow> string \<Rightarrow> int set" where
  "seen recs ssid = set (map snd (filter (\<lambda>r. fst r = ssid) recs))"

definition visible :: "wifi_list_t \<Rightarrow> (string \<times> int) list \<Rightarrow> (wifi_cred \<times> int) set" where
  "visible saved recs = (\<lambda>c. (c, Max (seen recs (c_ssid c)))) ` {c \<in> set (nets saved). seen recs (c_ssid c) \<noteq> {}}"

definition cands_ok :: "wifi_list_t \<Rightarrow> (string \<times> int) list \<Rightarrow> cands \<Rightarrow> bool" where
  "cands_ok saved recs ca = (case ca of (cs, rs, n) \<Rightarrow>
     length cs = WIFI_LIST_MAX \<and> length rs = WIFI_LIST_MAX \<and> n \<le> WIFI_LIST_MAX \<and>
     distinct (map c_ssid (take n cs)) \<and> set (take n (zip cs rs)) = visible saved recs)"

lemma visible_iff:
  "(c, x) \<in> visible saved recs \<longleftrightarrow>
    c \<in> set (nets saved) \<and> seen recs (c_ssid c) \<noteq> {} \<and> x = Max (seen recs (c_ssid c))"
  by (auto simp: visible_def)

lemma seen_snoc: "seen (recs @ [(a, r)]) ssid = (if ssid = a then insert r (seen recs ssid) else seen recs ssid)"
  by (auto simp: seen_def)

lemma finite_seen [simp]: "finite (seen recs ssid)"
  by (simp add: seen_def)

lemma nets_unique:
  assumes "wl_ok l" and "c \<in> set (nets l)" and "d \<in> set (nets l)" and "c_ssid c = c_ssid d"
  shows "c = d"
proof -
  have "distinct (map c_ssid (nets l))" using assms(1) by (simp add: wl_ok_def)
  then have "inj_on c_ssid (set (nets l))" by (simp only: distinct_map)
  from inj_onD [OF this assms(4,2,3)] show ?thesis .
qed

lemma take_fst_zip: "length cs = length rs \<Longrightarrow> map fst (take n (zip cs rs)) = take n cs"
  by (simp add: take_zip)

lemma cands_ok_step:
  assumes ok: "wl_ok saved" and inv: "cands_ok saved recs ca"
  shows "cands_ok saved (recs @ [r]) (add_hit saved r ca)"
proof -
  obtain a v where r: "r = (a, v)" by force
  obtain cs rs n where ca: "ca = (cs, rs, n)" by (cases ca) auto
  have len: "length cs = 8" "length rs = 8" "n \<le> 8"
    and dist: "distinct (map c_ssid (take n cs))"
    and vis: "set (take n (zip cs rs)) = visible saved recs"
    using inv by (auto simp: cands_ok_def ca WIFI_LIST_MAX_def)
  have zlen: "length (take n (zip cs rs)) = n" using len by simp
  have cset: "set (take n cs) = fst ` visible saved recs"
    using take_fst_zip [of cs rs n] len vis by (metis image_set)
  show ?thesis
  proof (cases "find_ssid (wl_e saved) (wl_count saved) a 0")
    case None
    then have no: "\<And>c. c \<in> set (nets saved) \<Longrightarrow> c_ssid c \<noteq> a"
      unfolding find_ssid_None by (fastforce simp: nets_def in_set_conv_nth)
    have "visible saved (recs @ [r]) = visible saved recs"
      using no unfolding visible_def r seen_snoc by (intro image_cong) auto
    then show ?thesis using inv None by (simp add: cands_ok_def add_hit_def ca r)
  next
    case (Some s)
    note s = find_ssid_Some [OF Some]
    let ?d = "wl_e saved ! s"
    have d: "?d \<in> set (nets saved)" "c_ssid ?d = a"
      using s nth_nets [OF ok, of s] length_nets [OF ok] by (metis nth_mem)+
    have only: "c = ?d" if "c \<in> set (nets saved)" "c_ssid c = a" for c
      using nets_unique [OF ok that(1) d(1)] that(2) d(2) by simp
    have same: "seen (recs @ [r]) (c_ssid c) = seen recs (c_ssid c)"
      if "c \<in> set (nets saved)" "c \<noteq> ?d" for c
    proof -
      have "c_ssid c \<noteq> a" using only that by blast
      then show ?thesis unfolding r seen_snoc by simp
    qed
    have ne': "seen (recs @ [r]) a \<noteq> {}" unfolding r seen_snoc by simp
    show ?thesis
    proof (cases "find_cand cs n a 0")
      case None
      then have new: "\<And>k. k < n \<Longrightarrow> c_ssid (cs ! k) \<noteq> a" unfolding find_cand_eq find_ssid_None by simp
      then have fresh: "a \<notin> c_ssid ` set (take n cs)" by (metis imageE in_set_conv_nth length_take min_less_iff_conj nth_take)
      have unseen: "seen recs a = {}"
      proof (rule ccontr)
        assume "seen recs a \<noteq> {}"
        then have "?d \<in> fst ` visible saved recs" using d by (force simp: visible_def)
        then show False using fresh d cset by blast
      qed
      have room: "n < 8"
      proof -
        have "c_ssid ` set (take n cs) \<subseteq> c_ssid ` set (nets saved) - {a}"
          using fresh cset by (auto simp: visible_def)
        then have "card (c_ssid ` set (take n cs)) \<le> card (c_ssid ` set (nets saved) - {a})"
          by (intro card_mono) auto
        also have "\<dots> < card (c_ssid ` set (nets saved))"
          using d by (intro psubset_card_mono) auto
        also have "\<dots> \<le> length (nets saved)" by (metis card_length length_map set_map)
        also have "\<dots> \<le> 8" using ok length_nets [OF ok] by (simp add: wl_ok_def WIFI_LIST_MAX_def)
        finally show ?thesis using distinct_card [OF dist] len by simp
      qed
      have add: "add_hit saved r ca = (cs[n := ?d], rs[n := v], n + 1)"
        using Some None room by (simp add: add_hit_def ca r WIFI_LIST_MAX_def)
      have tz: "take (n + 1) (zip (cs[n := ?d]) (rs[n := v])) = take n (zip cs rs) @ [(?d, v)]"
        using len room by (simp add: zip_update take_Suc_conv_app_nth)
      have tc: "take (n + 1) (cs[n := ?d]) = take n cs @ [?d]"
        using len room by (simp add: take_Suc_conv_app_nth)
      have mx: "Max (seen (recs @ [r]) a) = v" using unseen unfolding r seen_snoc by simp
      have "(c, x) \<in> visible saved (recs @ [r]) \<longleftrightarrow> (c, x) \<in> insert (?d, v) (visible saved recs)" for c x
        by (cases "c = ?d"; cases "c \<in> set (nets saved)") (use d mx ne' unseen same [of c] in \<open>simp_all add: visible_iff\<close>)
      then have "visible saved (recs @ [r]) = insert (?d, v) (visible saved recs)" by auto
      then show ?thesis
        unfolding add cands_ok_def using len room tz tc dist fresh d vis by (simp add: WIFI_LIST_MAX_def)
    next
      case ex: (Some k)
      have k: "k < n" "c_ssid (cs ! k) = a" using find_ssid_Some [OF ex [unfolded find_cand_eq]] by auto
      have mem: "(cs ! k, rs ! k) \<in> visible saved recs"
        using k len vis by (metis length_zip min.idem nth_mem nth_take nth_zip order_less_le_trans zlen)
      then have ck: "cs ! k = ?d" and rk: "rs ! k = Max (seen recs a)" and ne: "seen recs a \<noteq> {}"
        using only [of "cs ! k"] k d by (auto simp: visible_def)
      let ?m = "max v (rs ! k)"
      have add: "add_hit saved r ca = (cs, rs[k := ?m], n)"
        using Some ex by (auto simp: add_hit_def ca r max_def)
      have tz: "take n (zip cs (rs[k := ?m])) = (take n (zip cs rs))[k := (?d, ?m)]"
      proof -
        have "zip cs (rs[k := ?m]) = (zip cs rs)[k := (?d, ?m)]"
          using zip_update [of cs k ?d rs ?m] ck by (metis list_update_id)
        then show ?thesis using k by (simp add: take_update_swap)
      qed
      have dz: "distinct (take n (zip cs rs))"
        using dist take_fst_zip [of cs rs n] len by (metis distinct_map)
      have upd: "set ((take n (zip cs rs))[k := (?d, ?m)]) = insert (?d, ?m) (visible saved recs - {(?d, rs ! k)})"
        using set_update_distinct [OF dz, of k "(?d, ?m)"] k len zlen vis ck by simp
      have mx: "Max (seen (recs @ [r]) a) = ?m" using ne rk unfolding r seen_snoc by simp
      have "(c, x) \<in> visible saved (recs @ [r]) \<longleftrightarrow>
          (c, x) \<in> insert (?d, ?m) (visible saved recs - {(?d, rs ! k)})" for c x
        by (cases "c = ?d"; cases "c \<in> set (nets saved)") (use d mx ne' ne rk same [of c] in \<open>simp_all add: visible_iff\<close>)
      then have "visible saved (recs @ [r]) = insert (?d, ?m) (visible saved recs - {(?d, rs ! k)})" by auto
      then show ?thesis
        unfolding add cands_ok_def using len tz upd dist by (simp add: WIFI_LIST_MAX_def)
    qed
  qed
qed

lemma cands_ok_fold:
  assumes "wl_ok saved" and "length cs = WIFI_LIST_MAX" and "length rs = WIFI_LIST_MAX"
  shows "cands_ok saved recs (fold (add_hit saved) recs (cs, rs, 0))"
proof (induction recs rule: rev_induct)
  case Nil
  show ?case using assms by (simp add: cands_ok_def visible_def seen_def)
next
  case (snoc r recs)
  then show ?case using cands_ok_step [OF assms(1)] by simp
qed

end
