(* ===== verification/WifiMulti.thy ===== *)
theory WifiMulti
  imports WifiScan
begin

text \<open>
  The connect cycle of \<open>main/wifi_multi.c\<close>: scan, try the candidates, count the failed
  cycle, back off and retry; the guarded retry and recovery tasks, the watchdog and the driver's
  event handler.
\<close>

section \<open>Accessors\<close>

definition get_wifi_connected :: "('s, 'z) wifi_st_scheme \<Rightarrow> bool" where
  "get_wifi_connected s = wifi_connected s"

definition wifi_get_retries :: "('s, 'z) wifi_st_scheme \<Rightarrow> nat" where
  "wifi_get_retries s = wifi_retries s"

definition wifi_get_rssi :: "('s, 'z) wifi_st_scheme \<Rightarrow> int" where
  "wifi_get_rssi s = wifi_rssi s"

definition wifi_get_current :: "('s, 'z) wifi_st_scheme \<Rightarrow> nat \<Rightarrow> nat \<Rightarrow> string \<times> string" where
  "wifi_get_current s ssid_len ip_len = (strlcpy (wifi_cur_ssid s) ssid_len, strlcpy (wifi_ip s) ip_len)"

section \<open>The connect cycle\<close>

definition wifi_bt_negotiating :: "('s, 'z) wifi_st_scheme \<Rightarrow> bool" where
  "wifi_bt_negotiating s = (get_bt_connected s \<and> \<not> ppp_link_up s)"

definition wifi_schedule_retry :: "wifi_env \<Rightarrow> u32 \<Rightarrow> ('s, 'z) wifi_st_scheme \<Rightarrow> ('s, 'z) wifi_st_scheme" where
  "wifi_schedule_retry e delay s =
     (if wifi_retry_running s then s
      else let s = s\<lparr>wifi_retry_running := True\<rparr> in
        if task_ok e then spawn (WifiRetry delay) s else s\<lparr>wifi_retry_running := False\<rparr>)"

definition wifi_cycle_failed :: "wifi_env \<Rightarrow> ('s, 'z) wifi_st_scheme \<Rightarrow> ('s, 'z) wifi_st_scheme" where
  "wifi_cycle_failed e s =
     (let st = app_state s;
          delay = wifi_retry_delay_ms s;
          s = s\<lparr>wifi_retries := wifi_retries s + 1,
                wifi_retry_delay_ms := (if delay * 2 > WIFI_RETRY_MAX_MS then WIFI_RETRY_MAX_MS else delay * 2)\<rparr>
      in if st = APP_BRIDGE_NO_WIFI then wifi_schedule_retry e delay s
         else if wifi_retries s < WIFI_MAX_RETRIES then wifi_schedule_retry e delay s
         else set_app_state APP_WIFI_FAILED s)"

definition wifi_connect_begin :: "wifi_env \<Rightarrow> ('s, 'z) wifi_st_scheme \<Rightarrow> ('s, 'z) wifi_st_scheme" where
  "wifi_connect_begin e s =
     (if wifi_list_count s = 0 then set_app_state APP_NO_WIFI s
      else if wifi_connected s \<or> scan_in_progress s \<or> cand_count s > 0 then s
      else if wifi_bt_negotiating s then wifi_schedule_retry e WIFI_NEGOTIATE_RECHECK_MS s
      else let s = (if app_state s \<noteq> APP_BRIDGE_NO_WIFI then set_app_state APP_WIFI_SCANNING s else s);
               s = emit EspScanStart (s\<lparr>scan_in_progress := True\<rparr>)
           in if scan_ok e then s else wifi_cycle_failed e (s\<lparr>scan_in_progress := False\<rparr>))"

definition wifi_try_candidate :: "wifi_env \<Rightarrow> ('s, 'z) wifi_st_scheme \<Rightarrow> ('s, 'z) wifi_st_scheme" where
  "wifi_try_candidate e s =
     (if wifi_bt_negotiating s
      then wifi_schedule_retry e WIFI_NEGOTIATE_RECHECK_MS (s\<lparr>cand_count := 0\<rparr>)
      else let c = candidates s ! cand_index s;
               s = s\<lparr>wifi_cur_ssid := strlcpy (c_ssid c) 33\<rparr>;
               s = emit (EspSetConfig (take 31 (c_ssid c)) (take 63 (c_pass c)) (c_pass c = [])) s;
               s = (if app_state s \<noteq> APP_BRIDGE_NO_WIFI then set_app_state APP_WIFI_CONNECTING s else s)
           in emit EspConnect s)"

text \<open>The candidate arrays after the selection and the sort.\<close>

definition pick_cands :: "wifi_list_t \<Rightarrow> (string \<times> int) list \<Rightarrow> wifi_cred list \<Rightarrow> int list \<Rightarrow> cands" where
  "pick_cands saved recs cs rs =
     (let (cs, rs, n) = fold (add_hit saved) recs (cs, rs, 0); (cs, rs) = ins_sort 1 n cs rs in (cs, rs, n))"

definition handle_scan_done :: "wifi_env \<Rightarrow> scan_env \<Rightarrow> ('s, 'z) wifi_st_scheme \<Rightarrow> ('s, 'z) wifi_st_scheme" where
  "handle_scan_done e sc s =
     (if \<not> scan_in_progress s then s
      else let s = s\<lparr>scan_in_progress := False\<rparr>;
               (recs, cleared) = scan_fetch sc;
               s = (if cleared then emit EspClearApList s else s);
               (cs, rs, n) = pick_cands (wifi_list s) recs (candidates s) (cand_rssi s);
               s = s\<lparr>candidates := cs, cand_rssi := rs, cand_count := n\<rparr>
           in if n = 0 then wifi_cycle_failed e s
              else wifi_try_candidate e (s\<lparr>cand_index := 0, cand_attempts := 0\<rparr>))"

section \<open>Retry, recovery and watchdog\<close>

definition wifi_retry_task :: "wifi_env \<Rightarrow> ('s, 'z) wifi_st_scheme \<Rightarrow> ('s, 'z) wifi_st_scheme" where
  "wifi_retry_task e s =
     (let s = s\<lparr>wifi_retry_running := False\<rparr> in
      if wifi_list_count s > 0 \<and> \<not> wifi_connected s then wifi_connect_begin e s else s)"

definition wifi_register_handlers :: "('s, 'z) wifi_st_scheme \<Rightarrow> ('s, 'z) wifi_st_scheme" where
  "wifi_register_handlers s =
     (let s = (if \<not> wifi_evt_inst s then emit WifiHandlersOn s\<lparr>wifi_evt_inst := True\<rparr> else s)
      in if \<not> ip_evt_inst s then emit IpHandlersOn s\<lparr>ip_evt_inst := True\<rparr> else s)"

definition wifi_unregister_handlers :: "('s, 'z) wifi_st_scheme \<Rightarrow> ('s, 'z) wifi_st_scheme" where
  "wifi_unregister_handlers s =
     (let s = (if wifi_evt_inst s then emit WifiHandlersOff s\<lparr>wifi_evt_inst := False\<rparr> else s)
      in if ip_evt_inst s then emit IpHandlersOff s\<lparr>ip_evt_inst := False\<rparr> else s)"

definition wifi_soft_reset :: "wifi_env \<Rightarrow> ('s, 'z) wifi_st_scheme \<Rightarrow> ('s, 'z) wifi_st_scheme" where
  "wifi_soft_reset e s =
     (let s = wifi_unregister_handlers s;
          s = emit EspDeinit (emit EspStop (emit EspDisconnect s));
          s = s\<lparr>scan_in_progress := False, cand_count := 0\<rparr>;
          s = emit EspInit s;
          s = wifi_register_handlers s;
          s = emit EspStart (emit EspSetModeSta s)
      in if wifi_list_count s > 0 then wifi_connect_begin e s else s)"

definition wifi_recovery_task :: "wifi_env \<Rightarrow> ('s, 'z) wifi_st_scheme \<Rightarrow> ('s, 'z) wifi_st_scheme" where
  "wifi_recovery_task e s = (wifi_soft_reset e s)\<lparr>wifi_recovery_running := False\<rparr>"

text \<open>The guarded start of the recovery task.\<close>

definition wifi_recover :: "bool \<Rightarrow> ('s, 'z) wifi_st_scheme \<Rightarrow> ('s, 'z) wifi_st_scheme" where
  "wifi_recover created s =
     (if wifi_recovery_running s then s
      else gw_safe_task_create created WifiRecovery (s\<lparr>wifi_recovery_running := True\<rparr>))"

definition wifi_watchdog_check :: "bool \<Rightarrow> ('s, 'z) wifi_st_scheme \<Rightarrow> ('s, 'z) wifi_st_scheme" where
  "wifi_watchdog_check created s =
     (if app_state s = APP_BRIDGE_NO_WIFI then
        let s = s\<lparr>wifi_stuck_count := wifi_stuck_count s + 1\<rparr> in
        if wifi_stuck_count s \<ge> 10 then (wifi_recover created s)\<lparr>wifi_stuck_count := 0\<rparr> else s
      else s\<lparr>wifi_stuck_count := 0\<rparr>)"

section \<open>The event handler\<close>

text \<open>\<open>GotIp\<close> carries the address as text and the signal strength of the access point, None when
  \<open>esp_wifi_sta_get_ap_info\<close> fails.\<close>

datatype wifi_event = ScanDone scan_env | StaDisconnected | GotIp string "int option"

text \<open>A disconnect in the middle of a candidate cycle: try the same candidate once more, then the
  next one; after the last one the cycle has failed.\<close>

definition next_attempt :: "wifi_env \<Rightarrow> ('s, 'z) wifi_st_scheme \<Rightarrow> ('s, 'z) wifi_st_scheme" where
  "next_attempt e s =
     (let s = s\<lparr>cand_attempts := cand_attempts s + 1\<rparr> in
      if cand_attempts s < CAND_MAX_ATTEMPTS then emit EspConnect s
      else let s = s\<lparr>cand_attempts := 0, cand_index := cand_index s + 1\<rparr> in
        if cand_index s < cand_count s then wifi_try_candidate e s
        else wifi_cycle_failed e (s\<lparr>cand_count := 0\<rparr>))"

definition mark_disconnected :: "('s, 'z) wifi_st_scheme \<Rightarrow> ('s, 'z) wifi_st_scheme" where
  "mark_disconnected s =
     (update_nat (s\<lparr>wifi_ignore_disconnect := False, wifi_connected := False\<rparr>))\<lparr>wifi_ip := strlcpy ''--'' 16\<rparr>"

definition on_disconnected :: "wifi_env \<Rightarrow> ('s, 'z) wifi_st_scheme \<Rightarrow> ('s, 'z) wifi_st_scheme" where
  "on_disconnected e s =
     (let ignore = wifi_ignore_disconnect s; s = mark_disconnected s; st = app_state s
      in if ignore then s
         else if st \<in> {APP_WIFI_CONNECTING, APP_BRIDGE_NO_WIFI, APP_WAIT_BT, APP_WIFI_FAILED} then
           (if cand_count s > 0 then
              (if wifi_bt_negotiating s
               then wifi_schedule_retry e WIFI_NEGOTIATE_RECHECK_MS (s\<lparr>cand_count := 0\<rparr>)
               else next_attempt e s)
            else wifi_cycle_failed e s)
         else if st = APP_BRIDGE then
           (if wifi_list_count s = 0 then set_app_state APP_NO_WIFI s
            else wifi_schedule_retry e WIFI_RETRY_BASE_MS
              ((set_app_state APP_BRIDGE_NO_WIFI s)\<lparr>wifi_retries := 0,
                 wifi_retry_delay_ms := WIFI_RETRY_BASE_MS, cand_count := 0\<rparr>))
         else s)"

definition on_got_ip :: "string \<Rightarrow> int option \<Rightarrow> ('s, 'z) wifi_st_scheme \<Rightarrow> ('s, 'z) wifi_st_scheme" where
  "on_got_ip ip ap s =
     (let s = emit EspSetPs (s\<lparr>wifi_ip := strlcpy ip 16\<rparr>);
          s = (case ap of Some r \<Rightarrow> s\<lparr>wifi_rssi := r\<rparr> | None \<Rightarrow> s);
          s = s\<lparr>wifi_connected := True, wifi_retries := 0, wifi_retry_delay_ms := WIFI_RETRY_BASE_MS,
                cand_count := 0\<rparr>;
          s = update_nat s
      in if ppp_link_up s then set_app_state APP_BRIDGE s
         else if app_state s \<noteq> APP_WAIT_BT then set_app_state APP_WAIT_BT s else s)"

definition wifi_event_handler :: "wifi_env \<Rightarrow> wifi_event \<Rightarrow> ('s, 'z) wifi_st_scheme \<Rightarrow> ('s, 'z) wifi_st_scheme" where
  "wifi_event_handler e ev s =
     (case ev of
        ScanDone sc \<Rightarrow> handle_scan_done e sc s
      | StaDisconnected \<Rightarrow> on_disconnected e s
      | GotIp ip ap \<Rightarrow> on_got_ip ip ap s)"

definition wifi_multi_init :: "wifi_env \<Rightarrow> ('s, 'z) wifi_st_scheme \<Rightarrow> ('s, 'z) wifi_st_scheme" where
  "wifi_multi_init e s =
     (let s = wifi_register_handlers (emit EspInit s);
          s = emit EspStart (emit EspSetModeSta s);
          s = s\<lparr>wifi_list := (wifi_list s)\<lparr>wl_ver := 1\<rparr>\<rparr>
      in case nvs_list_load (wifi_dev s) of
           Some l \<Rightarrow> (let s = s\<lparr>wifi_list := l\<rparr> in
              if wifi_list_count s > 0 then wifi_connect_begin e s else set_app_state APP_NO_WIFI s)
         | None \<Rightarrow> set_app_state APP_NO_WIFI s)"

section \<open>The list in RAM and in flash\<close>

interpretation wlset: nvs_setting "{wl_key}" "\<lambda>l. wl_ver l = 1 \<and> wl_count l \<le> WIFI_LIST_MAX"
  "\<lambda>l d. nvs_open d True = ESP_OK \<and> fst (nvs_set_blob d wl_key l) = ESP_OK"
  "\<lambda>l d. (Some l, snd (nvs_list_save l d))" nvs_list_load
proof unfold_locales
  fix d d' :: "('i, wifi_list_t) nvs_dev" and l :: wifi_list_t and K :: "string set"
  show "dev_same {wl_key} d (snd (Some l, snd (nvs_list_save l d)))" if "dev_ok d"
    using nvs_step_same [OF nvs_writes_same(4) [OF that, of wl_key l] that]
    by (auto simp: nvs_list_save_def split: prod.splits dest: arg_cong [where f = snd])
  show "nvs_list_load d' = nvs_list_load d"
    if "dev_same K d d'" "K \<inter> {wl_key} = {}" "nvs_open d' False = nvs_open d False"
    using dev_same_get(4) [OF that(1), of wl_key] that by (simp add: nvs_list_load_def)
  show "nvs_list_load (snd (Some l, snd (nvs_list_save l d))) = fst (Some l, snd (nvs_list_save l d))"
    if ok: "dev_ok d" and "wl_ver l = 1 \<and> wl_count l \<le> WIFI_LIST_MAX"
      and w: "nvs_open d True = ESP_OK \<and> fst (nvs_set_blob d wl_key l) = ESP_OK"
      and o: "nvs_open (snd (Some l, snd (nvs_list_save l d))) False = ESP_OK"
  proof -
    obtain d1 where d1: "nvs_set_blob d wl_key l = (ESP_OK, d1)" using w by (metis prod.collapse)
    have ok1: "dev_ok d1" using nvs_writes_same(4) [OF ok, of wl_key l] d1 ok by (simp add: dev_same_ok)
    have s: "snd (nvs_list_save l d) = snd (nvs_commit d1)"
      using w d1 by (simp add: nvs_list_save_def split: prod.splits)
    have "nvs_get_blob (snd (nvs_commit d1)) wl_key = Some l"
      using dev_same_get(4) [OF nvs_writes_same(6) [OF ok1], of wl_key] nvs_get_set(4) [OF ok d1] by simp
    then show ?thesis using that(2) o by (simp add: nvs_list_load_def s)
  qed
qed

text \<open>The list as the web page sees it.\<close>

definition wifi_nets :: "('s, 'z) wifi_st_scheme \<Rightarrow> wifi_cred list" where
  "wifi_nets s = nets (wifi_list s)"

lemma wifi_save_sel [simp]:
  "wifi_list (wifi_save s) = wifi_list s" "wifi_cur_ssid (wifi_save s) = wifi_cur_ssid s"
  "wifi_connected (wifi_save s) = wifi_connected s" "app_state (wifi_save s) = app_state s"
  by (simp_all add: wifi_save_def)

interpretation wll: saved_list "\<lambda>s. wl_ok (wifi_list s)" wifi_nets wifi_list_count
  "\<lambda>s i. wifi_list_get_ssid s i 33" wifi_list_remove c_ssid WIFI_LIST_MAX
proof unfold_locales
  fix s s' :: "('s, 'z) wifi_st_scheme" and i :: nat and j :: int
  assume ok: "wl_ok (wifi_list s)"
  note len = length_nets [OF ok]
  show "length (wifi_nets s) \<le> WIFI_LIST_MAX" "wifi_list_count s = length (wifi_nets s)"
    using ok len by (auto simp: wifi_nets_def wl_ok_def wifi_list_count_def)
  show "wifi_list_get_ssid s (int i) 33 = Some (c_ssid (wifi_nets s ! i))" if i: "i < length (wifi_nets s)"
  proof -
    have "nets (wifi_list s) ! i \<in> set (nets (wifi_list s))" using i by (simp add: wifi_nets_def)
    then have "length (c_ssid (nets (wifi_list s) ! i)) \<le> 32"
      using ok by (simp add: wl_ok_def list_all_iff)
    then show ?thesis
      using i len nth_nets [OF ok, of i] by (simp add: wifi_list_get_ssid_def wifi_nets_def strlcpy_fits)
  qed
  show "wifi_list_get_ssid s j 33 = None" if "j < 0 \<or> int (length (wifi_nets s)) \<le> j"
    using that len by (auto simp: wifi_list_get_ssid_def wifi_nets_def)
  show "0 \<le> j \<and> j < int (length (wifi_nets s)) \<and> wl_ok (wifi_list s') \<and>
      wifi_nets s' = remove_nth (nat j) (wifi_nets s)" if "wifi_list_remove s j = (True, s')"
  proof -
    have j: "0 \<le> j" "j < int (wl_count (wifi_list s))"
      using that by (simp_all add: wifi_list_remove_def split: if_splits)
    then have "wifi_list s' = wl_remove (nat j) (wifi_list s)"
      using that by (auto simp: wifi_list_remove_def Let_def split: if_splits)
    then show ?thesis using wl_remove_spec [OF ok, of "nat j"] j len by (simp add: wifi_nets_def)
  qed
  show "wifi_list_remove s j = (False, s)" if "j < 0 \<or> int (length (wifi_nets s)) \<le> j"
    using that len by (auto simp: wifi_list_remove_def wifi_nets_def)
qed

section \<open>The guards\<close>

abbreviation is_retry :: "task \<Rightarrow> bool" where
  "is_retry t \<equiv> (case t of WifiRetry d \<Rightarrow> True | _ \<Rightarrow> False)"

abbreviation is_recovery :: "task \<Rightarrow> bool" where
  "is_recovery t \<equiv> t = WifiRecovery"

text \<open>The moment the scheduled task starts its work: it leaves the queue and clears the flag.\<close>

definition retry_fire :: "('s, 'z) wifi_st_scheme \<Rightarrow> ('s, 'z) wifi_st_scheme" where
  "retry_fire s = (unqueue is_retry s)\<lparr>wifi_retry_running := False\<rparr>"

definition recovery_fire :: "('s, 'z) wifi_st_scheme \<Rightarrow> ('s, 'z) wifi_st_scheme" where
  "recovery_fire s = (unqueue is_recovery s)\<lparr>wifi_recovery_running := False\<rparr>"

lemma queued_of_upd [simp]:
  "queued_of p (s\<lparr>wifi_retry_running := b\<rparr>) = queued_of p s"
  "queued_of p (s\<lparr>wifi_recovery_running := b\<rparr>) = queued_of p s"
  "queued_of p (s\<lparr>cand_count := n\<rparr>) = queued_of p s"
  "queued_of p (s\<lparr>scan_in_progress := b\<rparr>) = queued_of p s"
  by (simp_all add: queued_of_def)

interpretation wretry: one_shot wifi_retry_running "queued_of is_retry" "wifi_schedule_retry e d" retry_fire
  for e d
  by unfold_locales
    (auto simp: wifi_schedule_retry_def retry_fire_def queued_of_unqueue Let_def)

interpretation wrec: one_shot wifi_recovery_running "queued_of is_recovery" "wifi_recover True" recovery_fire
  by unfold_locales
    (auto simp: wifi_recover_def gw_safe_task_create_def recovery_fire_def queued_of_unqueue Let_def)


section \<open>The invariant of the module\<close>

definition backoff_steps :: "u32 list" where
  "backoff_steps = [1000, 2000, 4000, 8000, 16000, 30000]"

definition cycle_ok :: "('s, 'z) wifi_st_scheme \<Rightarrow> bool" where
  "cycle_ok s \<longleftrightarrow> length (candidates s) = WIFI_LIST_MAX \<and> length (cand_rssi s) = WIFI_LIST_MAX \<and>
     cand_count s \<le> WIFI_LIST_MAX \<and>
     (0 < cand_count s \<longrightarrow> cand_index s < cand_count s \<and> \<not> scan_in_progress s) \<and>
     cand_attempts s < CAND_MAX_ATTEMPTS \<and>
     wifi_retry_delay_ms s \<in> set backoff_steps"

text \<open>\<open>r\<close> counts the recovery tasks that have left the queue and are at work: their flag stays set
  to the end.\<close>

definition guards_ok :: "nat \<Rightarrow> ('s, 'z) wifi_st_scheme \<Rightarrow> bool" where
  "guards_ok r s \<longleftrightarrow> queued_of is_retry s = (if wifi_retry_running s then 1 else 0) \<and>
     queued_of is_recovery s + r = (if wifi_recovery_running s then 1 else 0)"

definition wifi_okr :: "nat \<Rightarrow> ('s, 'z) wifi_st_scheme \<Rightarrow> bool" where
  "wifi_okr r s \<longleftrightarrow> wl_ok (wifi_list s) \<and> cycle_ok s \<and> guards_ok r s"

abbreviation wifi_ok :: "('s, 'z) wifi_st_scheme \<Rightarrow> bool" where
  "wifi_ok \<equiv> wifi_okr 0"

lemmas wifi_ok_defs = wifi_okr_def cycle_ok_def guards_ok_def

text \<open>Work of other kinds does not count.\<close>

definition foreign :: "task \<Rightarrow> bool" where
  "foreign t \<longleftrightarrow> \<not> is_retry t \<and> \<not> is_recovery t"

lemma wifi_ok_shared [simp]:
  "wifi_okr r (emit c s) = wifi_okr r s" "wifi_okr r (set_app_state a s) = wifi_okr r s"
  "foreign t \<Longrightarrow> wifi_okr r (spawn t s) = wifi_okr r s"
  "wifi_okr r (update_nat s) = wifi_okr r s"
  by (auto simp: wifi_ok_defs foreign_def update_nat_def)

lemma backoff_next:
  "d \<in> set backoff_steps \<Longrightarrow>
    (if d * 2 > WIFI_RETRY_MAX_MS then WIFI_RETRY_MAX_MS else d * 2) \<in> set backoff_steps"
  by (auto simp: backoff_steps_def WIFI_RETRY_MAX_MS_def)

lemma schedule_retry_sel [simp]:
  fixes s :: "('s, 'z) wifi_st_scheme"
  defines "t \<equiv> \<lambda>e d (s :: ('s, 'z) wifi_st_scheme). wifi_schedule_retry e d s"
  shows "wifi_list (t e d s) = wifi_list s" "candidates (t e d s) = candidates s"
    "cand_rssi (t e d s) = cand_rssi s" "cand_count (t e d s) = cand_count s"
    "cand_index (t e d s) = cand_index s" "cand_attempts (t e d s) = cand_attempts s"
    "scan_in_progress (t e d s) = scan_in_progress s" "wifi_retries (t e d s) = wifi_retries s"
    "wifi_retry_delay_ms (t e d s) = wifi_retry_delay_ms s"
    "wifi_recovery_running (t e d s) = wifi_recovery_running s"
    "wifi_connected (t e d s) = wifi_connected s" "app_state (t e d s) = app_state s"
    "wifi_ignore_disconnect (t e d s) = wifi_ignore_disconnect s"
    "ppp_up_flag (t e d s) = ppp_up_flag s" "bt_connected (t e d s) = bt_connected s"
    "calls (t e d s) = calls s" "wifi_dev (t e d s) = wifi_dev s" "wifi_cur_ssid (t e d s) = wifi_cur_ssid s"
    "queued_of is_recovery (t e d s) = queued_of is_recovery s"
  by (auto simp: t_def wifi_schedule_retry_def Let_def)

lemma schedule_retry_ok:
  assumes "wifi_okr r s"
  shows "wifi_okr r (wifi_schedule_retry e d s)"
proof -
  have "one_shot.matched wifi_retry_running (queued_of is_retry) s"
    using assms by (simp add: wretry.matched_def wifi_ok_defs)
  then have "one_shot.matched wifi_retry_running (queued_of is_retry) (wifi_schedule_retry e d s)"
    by (rule wretry.request_matched)
  then show ?thesis using assms by (simp add: wretry.matched_def wifi_ok_defs)
qed

lemma cycle_failed_ok:
  assumes "wifi_okr r s"
  shows "wifi_okr r (wifi_cycle_failed e s)"
proof -
  let ?s = "s\<lparr>wifi_retries := wifi_retries s + 1, wifi_retry_delay_ms :=
    (if wifi_retry_delay_ms s * 2 > WIFI_RETRY_MAX_MS then WIFI_RETRY_MAX_MS else wifi_retry_delay_ms s * 2)\<rparr>"
  have "wifi_retry_delay_ms s \<in> set backoff_steps" using assms by (simp add: wifi_ok_defs)
  note backoff_next [OF this]
  then have "wifi_okr r ?s" using assms by (simp add: wifi_ok_defs queued_of_def)
  then show ?thesis by (simp add: wifi_cycle_failed_def Let_def schedule_retry_ok)
qed

lemma connect_begin_ok:
  assumes "wifi_okr r s"
  shows "wifi_okr r (wifi_connect_begin e s)"
proof -
  have scan: "wifi_okr r (s'\<lparr>scan_in_progress := True\<rparr>)" if "wifi_okr r s'" "cand_count s' = 0"
    for s' :: "('s, 'z) wifi_st_scheme"
    using that by (simp add: wifi_ok_defs)
  have idle: "wifi_okr r (s'\<lparr>scan_in_progress := False\<rparr>)" if "wifi_okr r s'" for s' :: "('s, 'z) wifi_st_scheme"
    using that by (simp add: wifi_ok_defs)
  show ?thesis
    using assms by (auto simp: wifi_connect_begin_def Let_def intro!: schedule_retry_ok cycle_failed_ok scan idle)
qed

lemma drop_cands_ok: "wifi_okr r s \<Longrightarrow> wifi_okr r (s\<lparr>cand_count := 0\<rparr>)"
  by (simp add: wifi_ok_defs)

lemma try_candidate_ok: "wifi_okr r s \<Longrightarrow> wifi_okr r (wifi_try_candidate e s)"
proof -
  have cur: "wifi_okr r (s'\<lparr>wifi_cur_ssid := x\<rparr>) = wifi_okr r s'" for x and s' :: "('s, 'z) wifi_st_scheme"
    by (simp add: wifi_ok_defs queued_of_def)
  show "wifi_okr r s \<Longrightarrow> wifi_okr r (wifi_try_candidate e s)"
    by (simp add: wifi_try_candidate_def Let_def schedule_retry_ok drop_cands_ok cur)
qed

text \<open>What a scan leaves behind in the candidate arrays.\<close>

lemma pick_cands_spec:
  assumes ok: "wl_ok saved" and len: "length cs = WIFI_LIST_MAX" "length rs = WIFI_LIST_MAX"
    and p: "pick_cands saved recs cs rs = (cs2, rs2, n)"
  shows "length cs2 = WIFI_LIST_MAX \<and> length rs2 = WIFI_LIST_MAX \<and> n \<le> WIFI_LIST_MAX \<and>
    set (take n (zip cs2 rs2)) = visible saved recs \<and> distinct (map c_ssid (take n cs2)) \<and>
    sorted (map rank (take n (zip cs2 rs2)))"
proof -
  obtain cs1 rs1 n1 where f: "fold (add_hit saved) recs (cs, rs, 0) = (cs1, rs1, n1)" by (metis prod_cases3)
  then have so: "ins_sort 1 n cs1 rs1 = (cs2, rs2)" and n1: "n1 = n"
    using p by (auto simp: pick_cands_def split: prod.splits)
  have c: "length cs1 = WIFI_LIST_MAX" "length rs1 = WIFI_LIST_MAX" "n \<le> WIFI_LIST_MAX"
    "distinct (map c_ssid (take n cs1))" "set (take n (zip cs1 rs1)) = visible saved recs"
    using cands_ok_fold [OF ok len, of recs] by (simp_all add: f n1 cands_ok_def)
  have s: "length cs2 = length rs1 \<and> length rs2 = length rs1 \<and>
      take n (zip cs2 rs2) = sort_key rank (take n (zip cs1 rs1))"
    using ins_sort_sorts [OF _ _ so] c by simp
  have z: "map c_ssid (take n cs2) = map (c_ssid \<circ> fst) (take n (zip cs2 rs2))"
    "map c_ssid (take n cs1) = map (c_ssid \<circ> fst) (take n (zip cs1 rs1))"
    using s c take_fst_zip [of cs2 rs2 n] take_fst_zip [of cs1 rs1 n] by (simp_all flip: map_map)
  have "mset (map c_ssid (take n cs2)) = mset (map c_ssid (take n cs1))"
    unfolding z using s by simp
  then have "distinct (map c_ssid (take n cs2))" using c(4) mset_eq_imp_distinct_iff by blast
  then show ?thesis using s c by simp
qed

definition after_scan :: "scan_env \<Rightarrow> ('s, 'z) wifi_st_scheme \<Rightarrow> ('s, 'z) wifi_st_scheme" where
  "after_scan sc s =
     (let s = s\<lparr>scan_in_progress := False\<rparr>; s = (if snd (scan_fetch sc) then emit EspClearApList s else s);
          ca = pick_cands (wifi_list s) (fst (scan_fetch sc)) (candidates s) (cand_rssi s)
      in s\<lparr>candidates := fst ca, cand_rssi := fst (snd ca), cand_count := snd (snd ca)\<rparr>)"

lemma handle_scan_done_eq:
  "scan_in_progress s \<Longrightarrow> handle_scan_done e sc s =
    (if cand_count (after_scan sc s) = 0 then wifi_cycle_failed e (after_scan sc s)
     else wifi_try_candidate e ((after_scan sc s)\<lparr>cand_index := 0, cand_attempts := 0\<rparr>))"
  by (simp add: handle_scan_done_def after_scan_def Let_def split: prod.split)

lemma after_scan_spec:
  fixes s :: "('s, 'z) wifi_st_scheme" and sc :: scan_env
  assumes ok: "wifi_okr r s"
  defines "t \<equiv> after_scan sc s"
  shows "length (candidates t) = WIFI_LIST_MAX" "length (cand_rssi t) = WIFI_LIST_MAX"
    "cand_count t \<le> WIFI_LIST_MAX"
    "set (take (cand_count t) (zip (candidates t) (cand_rssi t))) = visible (wifi_list s) (fst (scan_fetch sc))"
    "distinct (map c_ssid (take (cand_count t) (candidates t)))"
    "sorted (map rank (take (cand_count t) (zip (candidates t) (cand_rssi t))))"
    "\<not> scan_in_progress t"
proof -
  obtain cs rs n where p: "pick_cands (wifi_list s) (fst (scan_fetch sc)) (candidates s) (cand_rssi s) = (cs, rs, n)"
    by (metis prod_cases3)
  have "wl_ok (wifi_list s)" "length (candidates s) = WIFI_LIST_MAX" "length (cand_rssi s) = WIFI_LIST_MAX"
    using ok by (auto simp: wifi_ok_defs)
  note sp = pick_cands_spec [OF this p]
  have t: "candidates t = cs" "cand_rssi t = rs" "cand_count t = n" "\<not> scan_in_progress t"
    using p by (auto simp: t_def after_scan_def Let_def)
  show "length (candidates t) = WIFI_LIST_MAX" "length (cand_rssi t) = WIFI_LIST_MAX"
    "cand_count t \<le> WIFI_LIST_MAX"
    "set (take (cand_count t) (zip (candidates t) (cand_rssi t))) = visible (wifi_list s) (fst (scan_fetch sc))"
    "distinct (map c_ssid (take (cand_count t) (candidates t)))"
    "sorted (map rank (take (cand_count t) (zip (candidates t) (cand_rssi t))))"
    "\<not> scan_in_progress t"
    using sp t(4) unfolding t(1-3) by auto
qed

lemma after_scan_frame [simp]:
  "wifi_list (after_scan sc s) = wifi_list s" "queued_of p (after_scan sc s) = queued_of p s"
  "wifi_retry_running (after_scan sc s) = wifi_retry_running s"
  "wifi_recovery_running (after_scan sc s) = wifi_recovery_running s"
  "wifi_retry_delay_ms (after_scan sc s) = wifi_retry_delay_ms s"
  "cand_attempts (after_scan sc s) = cand_attempts s" "cand_index (after_scan sc s) = cand_index s"
  "app_state (after_scan sc s) = app_state s" "wifi_retries (after_scan sc s) = wifi_retries s"
  "bt_connected (after_scan sc s) = bt_connected s" "ppp_up_flag (after_scan sc s) = ppp_up_flag s"
  by (simp_all add: after_scan_def Let_def queued_of_def)

lemma scan_done_ok:
  assumes ok: "wifi_okr r s"
  shows "wifi_okr r (handle_scan_done e sc s)"
proof (cases "scan_in_progress s")
  case True
  note a = after_scan_spec [OF ok, of sc]
  have g: "guards_ok r (after_scan sc s)" "wl_ok (wifi_list s)" "wifi_retry_delay_ms s \<in> set backoff_steps"
    "cand_attempts s < CAND_MAX_ATTEMPTS"
    using ok by (auto simp: wifi_ok_defs)
  have z: "wifi_okr r (after_scan sc s)" if "cand_count (after_scan sc s) = 0"
    using a g that by (simp add: wifi_okr_def cycle_ok_def)
  have p: "wifi_okr r ((after_scan sc s)\<lparr>cand_index := 0, cand_attempts := 0\<rparr>)"
    using a g by (simp add: wifi_ok_defs queued_of_def CAND_MAX_ATTEMPTS_def)
  show ?thesis unfolding handle_scan_done_eq [OF True]
    using cycle_failed_ok [OF z] try_candidate_ok [OF p] by (simp split: if_split)
qed (use ok in \<open>simp add: handle_scan_done_def\<close>)

lemma next_attempt_ok:
  assumes ok: "wifi_okr r s" and c: "0 < cand_count s"
  shows "wifi_okr r (next_attempt e s)"
proof -
  have att: "wifi_okr r (s\<lparr>cand_attempts := k\<rparr>)" if "k < CAND_MAX_ATTEMPTS" for k
    using ok that by (simp add: wifi_ok_defs queued_of_def)
  have nxt: "wifi_okr r (s\<lparr>cand_attempts := 0, cand_index := k\<rparr>)" if "k < cand_count s" for k
    using ok that by (simp add: wifi_ok_defs queued_of_def CAND_MAX_ATTEMPTS_def)
  have fin: "wifi_okr r (s\<lparr>cand_attempts := 0, cand_index := k, cand_count := 0\<rparr>)" for k
    using ok by (simp add: wifi_ok_defs queued_of_def CAND_MAX_ATTEMPTS_def)
  show ?thesis
    using att [of "Suc (cand_attempts s)"] try_candidate_ok [OF nxt] cycle_failed_ok [OF fin]
    by (simp add: next_attempt_def Let_def)
qed

lemma mark_disconnected_sel [simp]:
  "app_state (mark_disconnected s) = app_state s" "cand_count (mark_disconnected s) = cand_count s"
  "cand_index (mark_disconnected s) = cand_index s" "cand_attempts (mark_disconnected s) = cand_attempts s"
  "wifi_list (mark_disconnected s) = wifi_list s" "bt_connected (mark_disconnected s) = bt_connected s"
  "ppp_up_flag (mark_disconnected s) = ppp_up_flag s" "calls (mark_disconnected s) = calls s"
  "wifi_retries (mark_disconnected s) = wifi_retries s" "candidates (mark_disconnected s) = candidates s"
  "wifi_retry_running (mark_disconnected s) = wifi_retry_running s"
  "wifi_retry_delay_ms (mark_disconnected s) = wifi_retry_delay_ms s"
  "wifi_okr r (mark_disconnected s) = wifi_okr r s" "\<not> wifi_connected (mark_disconnected s)"
  "\<not> wifi_ignore_disconnect (mark_disconnected s)" "scan_in_progress (mark_disconnected s) = scan_in_progress s"
  by (simp_all add: mark_disconnected_def update_nat_def wifi_ok_defs queued_of_def)

lemma back_to_base_ok:
  "wifi_okr r t \<Longrightarrow> wifi_okr r (t\<lparr>wifi_retries := 0, wifi_retry_delay_ms := WIFI_RETRY_BASE_MS, cand_count := 0\<rparr>)"
  by (simp add: wifi_ok_defs queued_of_def WIFI_RETRY_BASE_MS_def backoff_steps_def)

lemma on_disconnected_ok:
  assumes ok: "wifi_okr r s"
  shows "wifi_okr r (on_disconnected e s)"
  using ok by (auto simp: on_disconnected_def Let_def
      intro!: next_attempt_ok schedule_retry_ok cycle_failed_ok drop_cands_ok back_to_base_ok)

lemma on_got_ip_ok:
  fixes s :: "('s, 'z) wifi_st_scheme"
  assumes ok: "wifi_okr r s"
  shows "wifi_okr r (on_got_ip ip ap s)"
proof -
  have "wifi_okr r (t\<lparr>wifi_ip := x\<rparr>) = wifi_okr r t" "wifi_okr r (t\<lparr>wifi_rssi := v\<rparr>) = wifi_okr r t" for x v and t :: "('s, 'z) wifi_st_scheme"
    by (simp_all add: wifi_ok_defs queued_of_def)
  moreover have "wifi_okr r (t\<lparr>wifi_connected := True, wifi_retries := 0, wifi_retry_delay_ms := WIFI_RETRY_BASE_MS,
      cand_count := 0\<rparr>)" if "wifi_okr r t" for t :: "('s, 'z) wifi_st_scheme"
    using that by (simp add: wifi_ok_defs queued_of_def WIFI_RETRY_BASE_MS_def backoff_steps_def)
  ultimately show ?thesis using ok by (cases ap) (simp_all add: on_got_ip_def Let_def)
qed

lemma event_ok: "wifi_okr r s \<Longrightarrow> wifi_okr r (wifi_event_handler e ev s)"
  by (cases ev) (simp_all add: wifi_event_handler_def scan_done_ok on_disconnected_ok on_got_ip_ok)

lemma retry_task_ok:
  assumes ok: "wifi_okr r s" and q: "0 < queued_of is_retry s"
  shows "wifi_okr r (wifi_retry_task e (unqueue is_retry s))"
proof -
  have f: "wifi_okr r (retry_fire s)"
    using ok q queued_of_unqueue_other [of is_recovery is_retry s]
    by (auto simp: wifi_ok_defs retry_fire_def queued_of_unqueue split: if_splits task.splits)
  have "wifi_retry_task e (unqueue is_retry s) =
      (if wifi_list_count (retry_fire s) > 0 \<and> \<not> wifi_connected (retry_fire s)
       then wifi_connect_begin e (retry_fire s) else retry_fire s)"
    by (simp add: wifi_retry_task_def retry_fire_def)
  then show ?thesis using f by (simp add: connect_begin_ok)
qed

lemma handlers_ok [simp]:
  "wifi_okr r (wifi_register_handlers s) = wifi_okr r s" "wifi_okr r (wifi_unregister_handlers s) = wifi_okr r s"
  by (auto simp: wifi_register_handlers_def wifi_unregister_handlers_def Let_def wifi_ok_defs queued_of_def)

lemma soft_reset_ok:
  fixes s :: "('s, 'z) wifi_st_scheme"
  assumes "wifi_okr r s"
  shows "wifi_okr r (wifi_soft_reset e s)"
proof -
  have "wifi_okr r (t\<lparr>scan_in_progress := False, cand_count := 0\<rparr>)" if "wifi_okr r t" for t :: "('s, 'z) wifi_st_scheme"
    using that by (simp add: wifi_ok_defs queued_of_def)
  then show ?thesis using assms by (simp add: wifi_soft_reset_def Let_def connect_begin_ok)
qed

lemma recovery_task_ok:
  assumes ok: "wifi_ok s" and q: "0 < queued_of is_recovery s"
  shows "wifi_ok (wifi_recovery_task e (unqueue is_recovery s))"
proof -
  have "wifi_okr 1 (unqueue is_recovery s)"
    using ok q queued_of_unqueue_other [of is_retry is_recovery s]
    by (auto simp: wifi_ok_defs queued_of_unqueue split: if_splits task.splits)
  from soft_reset_ok [OF this, of e]
  show ?thesis by (simp add: wifi_recovery_task_def wifi_ok_defs split: if_splits)
qed

lemma watchdog_ok:
  assumes ok: "wifi_ok s"
  shows "wifi_ok (wifi_watchdog_check True s)"
proof -
  have stuck: "wifi_ok (t\<lparr>wifi_stuck_count := n\<rparr>) = wifi_ok t" for n and t :: "('a, 'b) wifi_st_scheme"
    by (simp add: wifi_ok_defs queued_of_def)
  have rec: "wifi_ok (wifi_recover True t)" if "wifi_ok t" for t :: "('a, 'b) wifi_st_scheme"
  proof -
    have "one_shot.matched wifi_recovery_running (queued_of is_recovery) t"
      using that by (simp add: wrec.matched_def wifi_ok_defs)
    then have "one_shot.matched wifi_recovery_running (queued_of is_recovery) (wifi_recover True t)"
      by (rule wrec.request_matched)
    moreover have "wifi_list (wifi_recover True t) = wifi_list t" "cycle_ok (wifi_recover True t) = cycle_ok t"
      "queued_of is_retry (wifi_recover True t) = queued_of is_retry t"
      "wifi_retry_running (wifi_recover True t) = wifi_retry_running t"
      by (simp_all add: wifi_recover_def gw_safe_task_create_def cycle_ok_def)
    ultimately show ?thesis using that by (simp add: wrec.matched_def wifi_okr_def guards_ok_def)
  qed
  show ?thesis using ok by (auto simp: wifi_watchdog_check_def Let_def stuck intro!: rec)
qed

lemma list_api_ok:
  assumes ok: "wifi_ok s"
  shows "wifi_ok (snd (wifi_list_add s ssid pass))" and "wifi_ok (snd (wifi_list_remove s i))"
    and "wifi_ok (wifi_list_clear s)"
proof -
  have put: "wifi_ok (wifi_save (s\<lparr>wifi_list := l\<rparr>))" if "wl_ok l" for l
    using ok that by (simp add: wifi_save_def wifi_ok_defs queued_of_def)
  have wl: "wl_ok (wifi_list s)" using ok by (simp add: wifi_okr_def)
  show "wifi_ok (snd (wifi_list_add s ssid pass))"
  proof (cases "\<exists>n l. ssid = Some n \<and> 0 < length n \<and> length n \<le> 32 \<and>
      (case pass of None \<Rightarrow> True | Some p \<Rightarrow> length p \<le> 64) \<and> wl_add (wifi_list s) n pass = Some l")
    case True
    then obtain n l where n: "ssid = Some n" "0 < length n" "length n \<le> 32"
      "case pass of None \<Rightarrow> True | Some p \<Rightarrow> length p \<le> 64" "wl_add (wifi_list s) n pass = Some l" by blast
    then have "wl_ok l" using wl_add_spec [OF wl n(2,3), of pass] by (simp split: option.splits)
    from put [OF this] show ?thesis using n by (cases pass) (simp_all add: wifi_list_add_def)
  next
    case False
    then have "snd (wifi_list_add s ssid pass) = s"
      by (auto simp: wifi_list_add_def not_less split: option.splits)
    then show ?thesis using ok by simp
  qed
  show "wifi_ok (snd (wifi_list_remove s i))"
    using put wl_remove_spec [OF wl, of "nat i"] ok
    by (auto simp: wifi_list_remove_def Let_def)
  have "wifi_ok (wifi_save (s\<lparr>wifi_list := wl_zero\<lparr>wl_ver := 1\<rparr>, wifi_cur_ssid := [], wifi_ignore_disconnect := True\<rparr>))"
    using ok wl_ok_zero by (simp add: wifi_save_def wifi_ok_defs queued_of_def)
  then show "wifi_ok (wifi_list_clear s)" by (simp add: wifi_list_clear_def Let_def)
qed

section \<open>Runs of the module\<close>

text \<open>The state before \<open>wifi_multi_init\<close>: the static initialisers.\<close>

definition wifi_boot :: "('i, wifi_list_t) nvs_dev \<Rightarrow> 'i wifi_st" where
  "wifi_boot d = \<lparr>app_state = APP_WAIT_BT, bt_connected = False, ppp_up_flag = False, tasks = [], calls = [],
     wifi_list = wl_zero, wifi_connected = False, wifi_ignore_disconnect = False, wifi_retries = 0,
     wifi_retry_delay_ms = WIFI_RETRY_BASE_MS, wifi_rssi = -100, wifi_cur_ssid = [], wifi_ip = ''--'',
     scan_in_progress = False, candidates = replicate WIFI_LIST_MAX cred0,
     cand_rssi = replicate WIFI_LIST_MAX 0, cand_count = 0, cand_index = 0, cand_attempts = 0,
     wifi_retry_running = False, wifi_recovery_running = False, wifi_stuck_count = 0,
     wifi_evt_inst = False, ip_evt_inst = False, wifi_dev = d\<rparr>"

text \<open>A run: the list operations of the web pages, the driver's events, the tasks the module has
  scheduled, the heartbeat, and at any time changes other modules make to the shared state.\<close>

inductive wifi_step :: "('s, 'z) wifi_st_scheme \<Rightarrow> ('s, 'z) wifi_st_scheme \<Rightarrow> bool" where
  ws_add: "wifi_step s (snd (wifi_list_add s ssid pass))"
| ws_remove: "wifi_step s (snd (wifi_list_remove s i))"
| ws_clear: "wifi_step s (wifi_list_clear s)"
| ws_begin: "wifi_step s (wifi_connect_begin e s)"
| ws_event: "wifi_step s (wifi_event_handler e ev s)"
| ws_retry: "0 < queued_of is_retry s \<Longrightarrow> wifi_step s (wifi_retry_task e (unqueue is_retry s))"
| ws_recovery: "0 < queued_of is_recovery s \<Longrightarrow> wifi_step s (wifi_recovery_task e (unqueue is_recovery s))"
| ws_watchdog: "wifi_step s (wifi_watchdog_check True s)"
| ws_other: "wifi_step s (s\<lparr>app_state := a, bt_connected := b, ppp_up_flag := p, calls := cs\<rparr>)"
| ws_spawn: "foreign t \<Longrightarrow> wifi_step s (spawn t s)"

inductive wifi_run :: "('i, wifi_list_t) nvs_dev \<Rightarrow> 'i wifi_st \<Rightarrow> bool" for d where
  wr_init: "wifi_run d (wifi_multi_init e (wifi_boot d))"
| wr_step: "wifi_run d s \<Longrightarrow> wifi_step s t \<Longrightarrow> wifi_run d t"

inductive_cases wifi_runE: "wifi_run d s"

lemma wifi_step_ok: "wifi_step s t \<Longrightarrow> wifi_ok s \<Longrightarrow> wifi_ok t"
proof (induction rule: wifi_step.induct)
  case (ws_other s a b p cs)
  then show ?case by (simp add: wifi_ok_defs queued_of_def)
qed (simp_all add: list_api_ok connect_begin_ok event_ok retry_task_ok recovery_task_ok watchdog_ok)

lemma wifi_init_ok:
  assumes flash: "\<And>l. nvs_list_load d = Some l \<Longrightarrow> wl_ok l"
  shows "wifi_ok (wifi_multi_init e (wifi_boot d))"
proof -
  have b: "wifi_ok ((emit EspStart (emit EspSetModeSta (wifi_register_handlers (emit EspInit (wifi_boot d)))))
      \<lparr>wifi_list := l\<rparr>)" if "wl_ok l" for l
    using that by (simp add: wifi_boot_def wifi_register_handlers_def Let_def wifi_ok_defs queued_of_def emit_def
        WIFI_RETRY_BASE_MS_def backoff_steps_def CAND_MAX_ATTEMPTS_def)
  have z: "wl_ok (wl_zero\<lparr>wl_ver := 1\<rparr>)" by (rule wl_ok_zero)
  have dv: "wifi_dev (wifi_register_handlers (emit EspInit (wifi_boot d))) = d"
    "wifi_list (wifi_register_handlers (emit EspInit (wifi_boot d))) = wl_zero"
    by (simp_all add: wifi_boot_def wifi_register_handlers_def Let_def emit_def)
  show ?thesis
    using b [OF z] b [OF flash] by (auto simp: wifi_multi_init_def Let_def dv intro!: connect_begin_ok split: option.split)
qed

lemma wifi_run_ok:
  assumes "wifi_run d s" and "\<And>l. nvs_list_load d = Some l \<Longrightarrow> wl_ok l"
  shows "wifi_ok s"
  using assms by (induction rule: wifi_run.induct) (auto intro: wifi_init_ok wifi_step_ok)

section \<open>Behaviour of the single steps\<close>

lemma try_candidate_sel [simp]:
  "candidates (wifi_try_candidate e s) = candidates s" "cand_rssi (wifi_try_candidate e s) = cand_rssi s"
  "cand_count (wifi_try_candidate e s) = (if wifi_bt_negotiating s then 0 else cand_count s)"
  "cand_index (wifi_try_candidate e s) = cand_index s"
  by (simp_all add: wifi_try_candidate_def Let_def)

lemma cycle_failed_sel [simp]:
  "candidates (wifi_cycle_failed e s) = candidates s" "cand_rssi (wifi_cycle_failed e s) = cand_rssi s"
  "cand_count (wifi_cycle_failed e s) = cand_count s" "cand_index (wifi_cycle_failed e s) = cand_index s"
  "wifi_list (wifi_cycle_failed e s) = wifi_list s" "wifi_connected (wifi_cycle_failed e s) = wifi_connected s"
  "bt_connected (wifi_cycle_failed e s) = bt_connected s" "ppp_up_flag (wifi_cycle_failed e s) = ppp_up_flag s"
  "scan_in_progress (wifi_cycle_failed e s) = scan_in_progress s"
  "wifi_retries (wifi_cycle_failed e s) = Suc (wifi_retries s)" "calls (wifi_cycle_failed e s) = calls s"
  "wifi_retry_delay_ms (wifi_cycle_failed e s) = (if wifi_retry_delay_ms s * 2 > WIFI_RETRY_MAX_MS
     then WIFI_RETRY_MAX_MS else wifi_retry_delay_ms s * 2)"
  "app_state (wifi_cycle_failed e s) = (if app_state s \<noteq> APP_BRIDGE_NO_WIFI \<and> WIFI_MAX_RETRIES \<le> Suc (wifi_retries s)
     then APP_WIFI_FAILED else app_state s)"
  by (simp_all add: wifi_cycle_failed_def Let_def)

lemma schedule_retry_running:
  "task_ok e \<Longrightarrow> wifi_retry_running (wifi_schedule_retry e d s)"
  "tasks (wifi_schedule_retry e d s) =
    (if wifi_retry_running s \<or> \<not> task_ok e then tasks s else tasks s @ [WifiRetry d])"
  by (simp_all add: wifi_schedule_retry_def Let_def)

lemma cycle_failed_retry:
  "app_state s = APP_BRIDGE_NO_WIFI \<or> Suc (wifi_retries s) < WIFI_MAX_RETRIES \<Longrightarrow>
    wifi_retry_running (wifi_cycle_failed e s) = (wifi_retry_running s \<or> task_ok e) \<and>
    tasks (wifi_cycle_failed e s) = (if wifi_retry_running s \<or> \<not> task_ok e then tasks s
      else tasks s @ [WifiRetry (wifi_retry_delay_ms s)])"
  "app_state s \<noteq> APP_BRIDGE_NO_WIFI \<Longrightarrow> WIFI_MAX_RETRIES \<le> Suc (wifi_retries s) \<Longrightarrow>
    wifi_retry_running (wifi_cycle_failed e s) = wifi_retry_running s \<and> tasks (wifi_cycle_failed e s) = tasks s"
  by (auto simp: wifi_cycle_failed_def wifi_schedule_retry_def Let_def)

lemma negotiating_eq:
  "wifi_bt_negotiating s = (bt_connected s \<and> \<not> ppp_up_flag s)"
  by (simp add: wifi_bt_negotiating_def get_bt_connected_def ppp_link_up_def)

text \<open>A whole failed cycle: the retry task wakes, the scan starts and finds no saved network.\<close>

definition failed_cycle :: "wifi_env \<Rightarrow> scan_env \<Rightarrow> ('s, 'z) wifi_st_scheme \<Rightarrow> ('s, 'z) wifi_st_scheme" where
  "failed_cycle e sc s = handle_scan_done e sc (wifi_retry_task e (unqueue is_retry s))"

definition waiting :: "('s, 'z) wifi_st_scheme \<Rightarrow> bool" where
  "waiting s \<longleftrightarrow> wifi_ok s \<and> 0 < wifi_list_count s \<and> \<not> wifi_connected s \<and> \<not> (bt_connected s \<and> \<not> ppp_up_flag s) \<and>
     \<not> scan_in_progress s \<and> cand_count s = 0 \<and> wifi_retry_running s"

lemma failed_cycle_eq:
  fixes s :: "('s, 'z) wifi_st_scheme"
  assumes w: "waiting s" and e: "scan_ok e" and none: "visible (wifi_list s) (fst (scan_fetch sc)) = {}"
  obtains t where "failed_cycle e sc s = wifi_cycle_failed e t" and "wifi_ok t"
    and "app_state t = (if app_state s = APP_BRIDGE_NO_WIFI then APP_BRIDGE_NO_WIFI else APP_WIFI_SCANNING)"
    and "\<not> wifi_retry_running t" and "cand_count t = 0" and "\<not> scan_in_progress t"
    and "wifi_retries t = wifi_retries s" and "wifi_retry_delay_ms t = wifi_retry_delay_ms s"
    and "wifi_list t = wifi_list s" and "\<not> wifi_connected t"
    and "bt_connected t = bt_connected s" and "ppp_up_flag t = ppp_up_flag s"
    and "tasks t = remove_first is_retry (tasks s)"
proof -
  have ok: "wifi_ok s" and cnt: "0 < wifi_list_count s" using w by (simp_all add: waiting_def)
  have q: "0 < queued_of is_retry s" using w by (simp add: waiting_def wifi_ok_defs)
  let ?u = "wifi_retry_task e (unqueue is_retry s)"
  let ?a = "if app_state s = APP_BRIDGE_NO_WIFI then APP_BRIDGE_NO_WIFI else APP_WIFI_SCANNING"
  have neg: "\<not> wifi_bt_negotiating ((unqueue is_retry s)\<lparr>wifi_retry_running := False\<rparr>)"
    using w by (auto simp: negotiating_eq waiting_def unqueue_def)
  have u: "?u = emit EspScanStart
      ((set_app_state ?a ((unqueue is_retry s)\<lparr>wifi_retry_running := False\<rparr>))\<lparr>scan_in_progress := True\<rparr>)"
    using w neg e cnt
    by (auto simp: wifi_retry_task_def wifi_connect_begin_def waiting_def wifi_list_count_def Let_def unqueue_def
        set_app_state_def)
  have uok: "wifi_ok ?u" by (rule retry_task_ok [OF ok q])
  have us: "scan_in_progress ?u" "wifi_list ?u = wifi_list s" unfolding u by simp_all
  have zero: "cand_count (after_scan sc ?u) = 0"
  proof -
    have "take (cand_count (after_scan sc ?u)) (zip (candidates (after_scan sc ?u)) (cand_rssi (after_scan sc ?u))) = []"
      using after_scan_spec(4) [OF uok, of sc] none unfolding us by simp
    then show ?thesis using after_scan_spec(1-3) [OF uok, of sc] by (auto simp: WIFI_LIST_MAX_def)
  qed
  let ?t = "after_scan sc ?u"
  have "failed_cycle e sc s = wifi_cycle_failed e ?t"
    unfolding failed_cycle_def handle_scan_done_eq [OF us(1)] using zero by simp
  moreover have "wifi_ok ?t"
    using uok after_scan_spec [OF uok, of sc] zero by (simp add: wifi_okr_def cycle_ok_def guards_ok_def)
  moreover have "\<not> scan_in_progress ?t" by (rule after_scan_spec(7) [OF uok])
  moreover have "\<not> wifi_connected ?t" "tasks ?t = remove_first is_retry (tasks s)"
    using w unfolding u by (simp_all add: after_scan_def Let_def waiting_def unqueue_def)
  moreover have "app_state ?t = ?a" "\<not> wifi_retry_running ?t" "wifi_retries ?t = wifi_retries s"
    "wifi_retry_delay_ms ?t = wifi_retry_delay_ms s" "wifi_list ?t = wifi_list s"
    "bt_connected ?t = bt_connected s" "ppp_up_flag ?t = ppp_up_flag s"
    unfolding after_scan_frame u by (simp_all add: unqueue_def)
  ultimately show ?thesis using zero that by blast
qed

definition delay_after :: "nat \<Rightarrow> nat" where
  "delay_after k = min 30000 (1000 * 2 ^ k)"

lemma delay_step:
  assumes "d \<in> set backoff_steps" and "unat d = delay_after k"
  shows "unat (if d * 2 > WIFI_RETRY_MAX_MS then WIFI_RETRY_MAX_MS else d * 2) = delay_after (Suc k)"
proof -
  have v: "unat (if d * 2 > WIFI_RETRY_MAX_MS then WIFI_RETRY_MAX_MS else d * 2) = min 30000 (2 * unat d)"
    using assms(1) by (auto simp: backoff_steps_def WIFI_RETRY_MAX_MS_def)
  show ?thesis unfolding v assms(2) by (simp add: delay_after_def min_def)
qed

lemma failed_cycle_step:
  assumes w: "waiting s" and e: "scan_ok e" "task_ok e"
    and none: "visible (wifi_list s) (fst (scan_fetch sc)) = {}"
    and more: "app_state s = APP_BRIDGE_NO_WIFI \<or> Suc (wifi_retries s) < WIFI_MAX_RETRIES"
    and d: "unat (wifi_retry_delay_ms s) = delay_after k"
  defines "t \<equiv> failed_cycle e sc s"
  shows "waiting t \<and> wifi_retries t = Suc (wifi_retries s) \<and> unat (wifi_retry_delay_ms t) = delay_after (Suc k) \<and>
    wifi_list t = wifi_list s \<and> (app_state t = APP_BRIDGE_NO_WIFI) = (app_state s = APP_BRIDGE_NO_WIFI) \<and>
    tasks t = remove_first is_retry (tasks s) @ [WifiRetry (wifi_retry_delay_ms s)]"
proof -
  obtain u where u: "t = wifi_cycle_failed e u" "wifi_ok u"
    "app_state u = (if app_state s = APP_BRIDGE_NO_WIFI then APP_BRIDGE_NO_WIFI else APP_WIFI_SCANNING)"
    "\<not> wifi_retry_running u" "cand_count u = 0" "\<not> scan_in_progress u"
    "wifi_retries u = wifi_retries s" "wifi_retry_delay_ms u = wifi_retry_delay_ms s"
    "wifi_list u = wifi_list s" "\<not> wifi_connected u"
    "bt_connected u = bt_connected s" "ppp_up_flag u = ppp_up_flag s"
    "tasks u = remove_first is_retry (tasks s)"
    using failed_cycle_eq [OF w e(1) none] unfolding t_def by metis
  have m: "app_state u = APP_BRIDGE_NO_WIFI \<or> Suc (wifi_retries u) < WIFI_MAX_RETRIES" using more u by auto
  note r = cycle_failed_retry(1) [OF m, of e]
  have ok: "wifi_ok t" unfolding u(1) by (rule cycle_failed_ok [OF u(2)])
  have ds: "wifi_retry_delay_ms s \<in> set backoff_steps" using w by (simp add: waiting_def wifi_ok_defs)
  have "waiting t" using w ok u r e by (simp add: waiting_def wifi_list_count_def)
  moreover have "unat (wifi_retry_delay_ms t) = delay_after (Suc k)"
    unfolding u(1) cycle_failed_sel u(8) by (rule delay_step [OF ds d])
  moreover have "(app_state t = APP_BRIDGE_NO_WIFI) = (app_state s = APP_BRIDGE_NO_WIFI)"
    unfolding u(1) using u(3) by simp
  ultimately show ?thesis using u r e by simp
qed

lemma failed_cycles:
  assumes w: "waiting s" and e: "scan_ok e" "task_ok e"
    and none: "visible (wifi_list s) (fst (scan_fetch sc)) = {}"
    and start: "wifi_retries s = 0" "wifi_retry_delay_ms s = WIFI_RETRY_BASE_MS"
    and k: "app_state s = APP_BRIDGE_NO_WIFI \<or> k < WIFI_MAX_RETRIES"
  shows "let t = (failed_cycle e sc ^^ k) s in waiting t \<and> wifi_retries t = k \<and>
    unat (wifi_retry_delay_ms t) = delay_after k \<and> wifi_list t = wifi_list s \<and>
    (app_state t = APP_BRIDGE_NO_WIFI) = (app_state s = APP_BRIDGE_NO_WIFI)"
  using k
proof (induction k)
  case 0
  show ?case using w start by (simp add: delay_after_def WIFI_RETRY_BASE_MS_def)
next
  case (Suc k)
  then have IH: "waiting ((failed_cycle e sc ^^ k) s)" "wifi_retries ((failed_cycle e sc ^^ k) s) = k"
    "unat (wifi_retry_delay_ms ((failed_cycle e sc ^^ k) s)) = delay_after k"
    "wifi_list ((failed_cycle e sc ^^ k) s) = wifi_list s"
    "(app_state ((failed_cycle e sc ^^ k) s) = APP_BRIDGE_NO_WIFI) = (app_state s = APP_BRIDGE_NO_WIFI)"
    by (auto simp: Let_def)
  show ?case
    using failed_cycle_step [OF IH(1) e _ _ IH(3), of sc] IH none Suc.prems by (auto simp: Let_def)
qed

section \<open>Properties\<close>

text \<open>A bridge that was started with an empty flash and given two networks, one of them open; it
  serves the witnesses.\<close>

definition env_good :: wifi_env where
  "env_good = \<lparr>scan_ok = True, task_ok = True\<rparr>"

definition demo_added :: "(string \<rightharpoonup> wifi_list_t nvs_val) wifi_st" where
  "demo_added = snd (wifi_list_add (snd (wifi_list_add (wifi_multi_init env_good (wifi_boot map_dev))
     (Some ''cafe'') None)) (Some ''home'') (Some ''secret12''))"

definition demo_scanning :: "(string \<rightharpoonup> wifi_list_t nvs_val) wifi_st" where
  "demo_scanning = wifi_connect_begin env_good demo_added"


lemma demo_init:
  "wifi_multi_init env_good (wifi_boot map_dev) = (wifi_boot map_dev)\<lparr>app_state := APP_NO_WIFI,
     calls := [EspInit, WifiHandlersOn, IpHandlersOn, EspSetModeSta, EspStart],
     wifi_list := wl_zero\<lparr>wl_ver := 1\<rparr>, wifi_evt_inst := True, ip_evt_inst := True\<rparr>"
  by (simp add: wifi_multi_init_def wifi_boot_def wifi_register_handlers_def Let_def emit_def set_app_state_eq
      nvs_list_load_def)

lemma demo_run: "wifi_run map_dev demo_added" "wifi_run map_dev demo_scanning"
proof -
  show added: "wifi_run map_dev demo_added"
    unfolding demo_added_def by (rule wr_step [OF wr_step [OF wr_init ws_add] ws_add])
  show "wifi_run map_dev demo_scanning"
    unfolding demo_scanning_def by (rule wr_step [OF added ws_begin])
qed

lemma demo_flash: "nvs_list_load (map_dev :: (string \<rightharpoonup> wifi_list_t nvs_val, wifi_list_t) nvs_dev) = Some l \<Longrightarrow> wl_ok l"
  by (simp add: nvs_list_load_def)

lemma demo_added_list: "wifi_list demo_added = \<lparr>wl_ver = 1, wl_count = 2,
    wl_e = \<lparr>c_ssid = ''cafe'', c_pass = ''''\<rparr> # \<lparr>c_ssid = ''home'', c_pass = ''secret12''\<rparr> # replicate 6 cred0\<rparr>"
  by (simp add: demo_added_def wifi_list_add_def demo_init wl_add_def wl_zero_def find_ssid.simps strlcpy_def
      WIFI_LIST_MAX_def wifi_save_def eval_nat_numeral)

lemma wifi_list_add_frame [simp]:
  "wifi_connected (snd (wifi_list_add s n p)) = wifi_connected s"
  "scan_in_progress (snd (wifi_list_add s n p)) = scan_in_progress s"
  "cand_count (snd (wifi_list_add s n p)) = cand_count s"
  "bt_connected (snd (wifi_list_add s n p)) = bt_connected s"
  "ppp_up_flag (snd (wifi_list_add s n p)) = ppp_up_flag s"
  "app_state (snd (wifi_list_add s n p)) = app_state s"
  "candidates (snd (wifi_list_add s n p)) = candidates s"
  "cand_rssi (snd (wifi_list_add s n p)) = cand_rssi s"
  "calls (snd (wifi_list_add s n p)) = calls s"
  "wifi_retries (snd (wifi_list_add s n p)) = wifi_retries s"
  "wifi_retry_delay_ms (snd (wifi_list_add s n p)) = wifi_retry_delay_ms s"
  "wifi_retry_running (snd (wifi_list_add s n p)) = wifi_retry_running s"
  "tasks (snd (wifi_list_add s n p)) = tasks s"
  "wifi_ignore_disconnect (snd (wifi_list_add s n p)) = wifi_ignore_disconnect s"
  "wifi_cur_ssid (snd (wifi_list_add s n p)) = wifi_cur_ssid s"
  by (simp_all add: wifi_list_add_def wifi_save_def split: option.split)

lemma demo_added_sel [simp]:
  "wifi_connected demo_added = False" "scan_in_progress demo_added = False" "cand_count demo_added = 0"
  "bt_connected demo_added = False" "ppp_up_flag demo_added = False" "app_state demo_added = APP_NO_WIFI"
  "candidates demo_added = replicate 8 cred0" "cand_rssi demo_added = replicate 8 0"
  "calls demo_added = [EspInit, WifiHandlersOn, IpHandlersOn, EspSetModeSta, EspStart]"
  "wifi_retries demo_added = 0" "wifi_retry_delay_ms demo_added = WIFI_RETRY_BASE_MS"
  "wifi_retry_running demo_added = False" "tasks demo_added = []"
  "wifi_ignore_disconnect demo_added = False"
  by (simp_all only: demo_added_def wifi_list_add_frame demo_init) (simp_all add: wifi_boot_def WIFI_LIST_MAX_def)

lemma demo_scanning_eq: "demo_scanning = emit EspScanStart
    ((set_app_state APP_WIFI_SCANNING demo_added)\<lparr>scan_in_progress := True\<rparr>)"
  by (simp add: demo_scanning_def wifi_connect_begin_def wifi_list_count_def demo_added_list negotiating_eq env_good_def)





text \<open>C28: Adding a network changes the saved list as specified (a known name gets the new password in its
  place, a new one is appended), and when the flash accepts the write the bridge comes up with
  exactly this list after a reboot.  The only other outcomes are the rejection of an illegal name or
  password, and of a new name when the list is full; these change nothing.  Deleting an entry removes
  that entry and no other.\<close>

theorem wifi_list_edits:
  fixes s t :: "'i wifi_st"
  assumes run: "wifi_run d s" and flash: "\<And>l. nvs_list_load d = Some l \<Longrightarrow> wl_ok l"
  shows "(wifi_list_add s (Some n) p = (True, t) \<longrightarrow> wifi_nets t = put_net \<lparr>c_ssid = n, c_pass = (case p of None \<Rightarrow> [] | Some q \<Rightarrow> q)\<rparr> (wifi_nets s) \<and>
       (dev_ok (wifi_dev s) \<and> nvs_open (wifi_dev s) True = ESP_OK \<and>
       fst (nvs_set_blob (wifi_dev s) wl_key (wifi_list t)) = ESP_OK \<and> nvs_open (wifi_dev t) False = ESP_OK \<longrightarrow>
       nvs_list_load (wifi_dev t) = Some (wifi_list t))) \<and>
     (wifi_list_add s (Some n) p = (False, t) \<longrightarrow> t = s \<and> (n = [] \<or> 32 < length n \<or> (\<exists>q. p = Some q \<and> 64 < length q) \<or>
       n \<notin> c_ssid ` set (wifi_nets s) \<and> length (wifi_nets s) = WIFI_LIST_MAX)) \<and>
     (wifi_list_remove s i = (True, t) \<longrightarrow> wifi_nets t = remove_nth (nat i) (wifi_nets s))"
proof (rule conjI3; (intro impI)?)
  have wl: "wl_ok (wifi_list s)" using wifi_run_ok [OF run flash] by (simp add: wifi_okr_def)
  show "wifi_nets t = remove_nth (nat i) (wifi_nets s)" if "wifi_list_remove s i = (True, t)"
    using wll.remove_ok [OF wl that] by simp
  let ?c = "\<lparr>c_ssid = n, c_pass = (case p of None \<Rightarrow> [] | Some q \<Rightarrow> q)\<rparr>"
  have spec: "case wl_add (wifi_list s) n p of
      None \<Rightarrow> n \<notin> c_ssid ` set (wifi_nets s) \<and> length (wifi_nets s) = WIFI_LIST_MAX
    | Some l' \<Rightarrow> wl_ok l' \<and> nets l' = put_net ?c (wifi_nets s)"
    if "0 < length n" "length n \<le> 32" "case p of None \<Rightarrow> True | Some q \<Rightarrow> length q \<le> 64"
    using wl_add_spec [OF wl that(1,2), of p] that(3) by (simp add: wifi_nets_def split: option.splits)
  show "t = s \<and> (n = [] \<or> 32 < length n \<or> (\<exists>q. p = Some q \<and> 64 < length q) \<or>
        n \<notin> c_ssid ` set (wifi_nets s) \<and> length (wifi_nets s) = WIFI_LIST_MAX)"
    if "wifi_list_add s (Some n) p = (False, t)"
    using that spec by (auto simp: wifi_list_add_def not_less split: if_splits option.splits)
  show "wifi_nets t = put_net ?c (wifi_nets s) \<and>
      (dev_ok (wifi_dev s) \<and> nvs_open (wifi_dev s) True = ESP_OK \<and>
         fst (nvs_set_blob (wifi_dev s) wl_key (wifi_list t)) = ESP_OK \<and> nvs_open (wifi_dev t) False = ESP_OK \<longrightarrow>
       nvs_list_load (wifi_dev t) = Some (wifi_list t))" if add: "wifi_list_add s (Some n) p = (True, t)"
  proof -
    obtain l where l: "wl_add (wifi_list s) n p = Some l" "t = wifi_save (s\<lparr>wifi_list := l\<rparr>)"
      "0 < length n" "length n \<le> 32" "case p of None \<Rightarrow> True | Some q \<Rightarrow> length q \<le> 64"
      using add by (auto simp: wifi_list_add_def not_less split: if_splits option.splits)
    have tl: "wifi_list t = l" "wifi_dev t = snd (nvs_list_save l (wifi_dev s))"
      using l(2) by (simp_all add: wifi_save_def)
    have lok: "wl_ok l" "nets l = put_net ?c (wifi_nets s)" using spec [OF l(3,4,5)] l(1) by simp_all
    then have "wl_ver l = 1 \<and> wl_count l \<le> WIFI_LIST_MAX" by (simp add: wl_ok_def)
    note reload = wlset.load_save [OF _ this, of "wifi_dev s"]
    show ?thesis using lok reload unfolding tl wifi_nets_def by simp
  qed
qed

theorem wifi_list_edits_witness:
  "wifi_nets (snd (wifi_list_add demo_added (Some ''home'') (Some ''newpass99''))) =
     [\<lparr>c_ssid = ''cafe'', c_pass = []\<rparr>, \<lparr>c_ssid = ''home'', c_pass = ''newpass99''\<rparr>]"
proof -
  have n: "wifi_nets demo_added = [\<lparr>c_ssid = ''cafe'', c_pass = []\<rparr>, \<lparr>c_ssid = ''home'', c_pass = ''secret12''\<rparr>]"
    by (simp add: wifi_nets_def demo_added_list nets_def eval_nat_numeral)
  have "fst (wifi_list_add demo_added (Some ''home'') (Some ''newpass99''))"
    by (simp add: wifi_list_add_def demo_added_list wl_add_def find_ssid.simps eval_nat_numeral)
  then have "wifi_list_add demo_added (Some ''home'') (Some ''newpass99'') =
      (True, snd (wifi_list_add demo_added (Some ''home'') (Some ''newpass99'')))"
    by (metis prod.collapse)
  from wifi_list_edits [OF demo_run(1) demo_flash, THEN conjunct1, THEN mp, OF _ this]
  show ?thesis by (simp add: n put_net_def)
qed

text \<open>In every run of the module, whatever order the web pages, the driver's events, the tasks and the
  other modules act in: the saved list is well formed, the candidate being tried lies inside the
  candidate arrays, at most one retry task and one recovery task exist at a time and their flags say
  so, and the backoff delay is one of the doubling steps from 1 s up to the 30 s cap.\<close>

theorem wifi_run_safe:
  assumes "wifi_run d s" and "\<And>l. nvs_list_load d = Some l \<Longrightarrow> wl_ok l"
  shows "(wl_ok (wifi_list s)) \<and>
     (cand_count s \<le> length (candidates s) \<and> length (candidates s) = 8 \<and> length (cand_rssi s) = 8) \<and>
     (0 < cand_count s \<longrightarrow> cand_index s < cand_count s \<and> \<not> scan_in_progress s \<and> cand_attempts s < 2) \<and>
     (queued_of is_retry s = (if wifi_retry_running s then 1 else 0)) \<and>
     (queued_of is_recovery s = (if wifi_recovery_running s then 1 else 0)) \<and>
     (unat (wifi_retry_delay_ms s) \<in> {1000, 2000, 4000, 8000, 16000, 30000})"
proof (rule conjI6; (intro impI)?)
  have ok: "wifi_ok s" by (rule wifi_run_ok) (rule assms)+
  then show "wl_ok (wifi_list s)"
    and "cand_count s \<le> length (candidates s) \<and> length (candidates s) = 8 \<and> length (cand_rssi s) = 8"
    and "0 < cand_count s \<Longrightarrow> cand_index s < cand_count s \<and> \<not> scan_in_progress s \<and> cand_attempts s < 2"
    and "queued_of is_retry s = (if wifi_retry_running s then 1 else 0)"
    and "queued_of is_recovery s = (if wifi_recovery_running s then 1 else 0)"
    by (simp_all add: wifi_ok_defs WIFI_LIST_MAX_def CAND_MAX_ATTEMPTS_def)
  show "unat (wifi_retry_delay_ms s) \<in> {1000, 2000, 4000, 8000, 16000, 30000}"
    using ok by (auto simp: wifi_ok_defs backoff_steps_def)
qed

theorem wifi_run_safe_witness:
  "wl_ok (wifi_list demo_scanning) \<and> queued_of is_retry demo_scanning = 0"
  using wifi_run_safe [OF demo_run(2) demo_flash]
  by (simp add: demo_scanning_eq)

text \<open>The one retry task that a failed cycle queues.\<close>

lemma failed_cycle_queues:
  assumes w: "waiting s" and e: "scan_ok e" "task_ok e"
    and none: "visible (wifi_list s) (fst (scan_fetch sc)) = {}"
    and start: "wifi_retries s = 0" "wifi_retry_delay_ms s = WIFI_RETRY_BASE_MS"
    and k: "app_state s = APP_BRIDGE_NO_WIFI \<or> Suc k < WIFI_MAX_RETRIES"
  shows "\<exists>d. filter is_retry (tasks ((failed_cycle e sc ^^ Suc k) s)) = [WifiRetry d] \<and> unat d = delay_after k"
proof -
  let ?u = "(failed_cycle e sc ^^ k) s" and ?t = "(failed_cycle e sc ^^ Suc k) s"
  have u: "waiting ?u" "wifi_retries ?u = k" "unat (wifi_retry_delay_ms ?u) = delay_after k" "wifi_list ?u = wifi_list s"
    "(app_state ?u = APP_BRIDGE_NO_WIFI) = (app_state s = APP_BRIDGE_NO_WIFI)"
    using failed_cycles [OF w e none start, of k] k by (auto simp: Let_def)
  have "waiting ?t" and t: "tasks ?t = remove_first is_retry (tasks ?u) @ [WifiRetry (wifi_retry_delay_ms ?u)]"
    using failed_cycle_step [OF u(1) e _ _ u(3), of sc] none k u by auto
  then have "length (filter is_retry (tasks ?t)) = 1" by (simp only: waiting_def wifi_ok_defs queued_of_def) simp
  then have "filter is_retry (tasks ?t) = [WifiRetry (wifi_retry_delay_ms ?u)]" unfolding t by simp
  with u(3) show ?thesis by blast
qed

text \<open>C31: The backoff.  A bridge waits for its first retry, with the counters as a loss of the network leaves
  them, tasks can be created, and scans start but keep finding no saved network.  Then failed cycle number k + 1
  leaves exactly one retry task in the queue, and its delay is 1 s doubled k times and capped at
  30 s; the delay kept for the next cycle is one doubling further.  When no bridge is up the seventh failed cycle ends
  the attempts in the failed state with no retry left; while the bridge is up and has lost its WiFi the
  retries go on for ever.\<close>

theorem wifi_backoff:
  fixes s :: "('i, 'z) wifi_st_scheme"
  assumes w: "waiting s" and e: "scan_ok e" "task_ok e"
    and none: "visible (wifi_list s) (fst (scan_fetch sc)) = {}"
    and start: "wifi_retries s = 0" "wifi_retry_delay_ms s = WIFI_RETRY_BASE_MS"
  shows "(app_state s = APP_BRIDGE_NO_WIFI \<or> k < WIFI_MAX_RETRIES \<longrightarrow> wifi_retry_running ((failed_cycle e sc ^^ k) s) \<and>
       unat (wifi_retry_delay_ms ((failed_cycle e sc ^^ k) s)) = min 30000 (1000 * 2 ^ k)) \<and>
     (app_state s = APP_BRIDGE_NO_WIFI \<or> Suc k < WIFI_MAX_RETRIES \<longrightarrow>
       (\<exists>d. filter is_retry (tasks ((failed_cycle e sc ^^ Suc k) s)) = [WifiRetry d] \<and> unat d = min 30000 (1000 * 2 ^ k))) \<and>
     (app_state s \<noteq> APP_BRIDGE_NO_WIFI \<longrightarrow> app_state ((failed_cycle e sc ^^ WIFI_MAX_RETRIES) s) = APP_WIFI_FAILED \<and>
       filter is_retry (tasks ((failed_cycle e sc ^^ WIFI_MAX_RETRIES) s)) = [] \<and>
       \<not> wifi_retry_running ((failed_cycle e sc ^^ WIFI_MAX_RETRIES) s))"
proof (rule conjI3; (intro impI)?)
  show "app_state s = APP_BRIDGE_NO_WIFI \<or> Suc k < WIFI_MAX_RETRIES \<Longrightarrow>
      \<exists>d. filter is_retry (tasks ((failed_cycle e sc ^^ Suc k) s)) = [WifiRetry d] \<and> unat d = min 30000 (1000 * 2 ^ k)"
    using failed_cycle_queues [OF w e none start, of k] by (simp only: delay_after_def)
  show "app_state s = APP_BRIDGE_NO_WIFI \<or> k < WIFI_MAX_RETRIES \<Longrightarrow>
      wifi_retry_running ((failed_cycle e sc ^^ k) s) \<and>
      unat (wifi_retry_delay_ms ((failed_cycle e sc ^^ k) s)) = min 30000 (1000 * 2 ^ k)"
    using failed_cycles [OF w e none start, of k] by (simp add: Let_def waiting_def delay_after_def)
  assume a: "app_state s \<noteq> APP_BRIDGE_NO_WIFI"
  let ?t = "(failed_cycle e sc ^^ 6) s"
  have t: "waiting ?t" "wifi_retries ?t = 6" "wifi_list ?t = wifi_list s" "app_state ?t \<noteq> APP_BRIDGE_NO_WIFI"
    using failed_cycles [OF w e none start, of 6] a by (simp_all add: Let_def WIFI_MAX_RETRIES_def)
  have none': "visible (wifi_list ?t) (fst (scan_fetch sc)) = {}" using none t(3) by simp
  obtain u where u: "failed_cycle e sc ?t = wifi_cycle_failed e u" "\<not> wifi_retry_running u" "wifi_ok u"
    "app_state u \<noteq> APP_BRIDGE_NO_WIFI" "wifi_retries u = 6"
    by (rule failed_cycle_eq [OF t(1) e(1) none']) (use t in auto)
  have seven: "(failed_cycle e sc ^^ WIFI_MAX_RETRIES) s = failed_cycle e sc ?t"
    unfolding WIFI_MAX_RETRIES_def using funpow.simps(2) [of 6 "failed_cycle e sc"] by (simp add: numeral_eq_Suc)
  have "wifi_ok (wifi_cycle_failed e u)" by (rule cycle_failed_ok [OF u(3)])
  moreover have "app_state (wifi_cycle_failed e u) = APP_WIFI_FAILED" "\<not> wifi_retry_running (wifi_cycle_failed e u)"
    using u(2,4,5) cycle_failed_retry(2) [of u e] by (simp_all add: WIFI_MAX_RETRIES_def)
  ultimately show "app_state ((failed_cycle e sc ^^ WIFI_MAX_RETRIES) s) = APP_WIFI_FAILED \<and>
      filter is_retry (tasks ((failed_cycle e sc ^^ WIFI_MAX_RETRIES) s)) = [] \<and>
      \<not> wifi_retry_running ((failed_cycle e sc ^^ WIFI_MAX_RETRIES) s)"
    unfolding seven u(1) by (simp add: wifi_ok_defs queued_of_def)
qed

text \<open>A bridge that has just lost its WiFi, and one that is still waiting for a phone.\<close>

definition demo_waiting :: "app_state_t \<Rightarrow> (string \<rightharpoonup> wifi_list_t nvs_val) wifi_st" where
  "demo_waiting a = wifi_schedule_retry env_good WIFI_RETRY_BASE_MS (demo_added\<lparr>app_state := a\<rparr>)"

theorem wifi_backoff_witness:
  "app_state ((failed_cycle env_good \<lparr>sc_num = 0, sc_calloc = True, sc_records = (\<lambda>n. None)\<rparr> ^^ 7)
      (demo_waiting APP_WAIT_BT)) = APP_WIFI_FAILED"
proof -
  have ok: "wifi_ok (demo_added\<lparr>app_state := APP_WAIT_BT\<rparr>)"
    using wifi_run_ok [OF demo_run(1) demo_flash] by (simp add: wifi_ok_defs queued_of_def)
  have "waiting (demo_waiting APP_WAIT_BT)"
    using schedule_retry_ok [OF ok]
    by (simp add: demo_waiting_def waiting_def wifi_list_count_def demo_added_list schedule_retry_running env_good_def)
  moreover have "visible (wifi_list (demo_waiting APP_WAIT_BT))
      (fst (scan_fetch \<lparr>sc_num = 0, sc_calloc = True, sc_records = (\<lambda>n. None)\<rparr>)) = {}"
    by (simp add: visible_def seen_def scan_fetch_def)
  moreover have "wifi_retries (demo_waiting APP_WAIT_BT) = 0"
    "wifi_retry_delay_ms (demo_waiting APP_WAIT_BT) = WIFI_RETRY_BASE_MS"
    "app_state (demo_waiting APP_WAIT_BT) \<noteq> APP_BRIDGE_NO_WIFI" "scan_ok env_good" "task_ok env_good"
    by (simp_all add: demo_waiting_def env_good_def)
  ultimately show ?thesis
    using wifi_backoff [of "demo_waiting APP_WAIT_BT" env_good, THEN conjunct2, THEN conjunct2] by (simp add: WIFI_MAX_RETRIES_def)
qed



text \<open>Clearing the list in the middle of a candidate cycle wedges the module.  The disconnect that
  follows is ignored without ending the cycle, so its candidate count stays above zero; a network added
  later is saved, but every attempt to start connecting, from whatever state of the bridge, returns
  without doing anything.\<close>

theorem wifi_clear_wedges:
  fixes s :: "('i, 'z) wifi_st_scheme"
  assumes cyc: "0 < cand_count s" "\<not> scan_in_progress s"
    and add: "wifi_list_add (wifi_event_handler e StaDisconnected (wifi_list_clear s)) (Some n) p = (True, t)"
    and nonempty: "0 < wifi_list_count t"
  shows "(0 < cand_count t) \<and>
     (wifi_connect_begin e' (t\<lparr>app_state := a, bt_connected := b, ppp_up_flag := u\<rparr>) =
       t\<lparr>app_state := a, bt_connected := b, ppp_up_flag := u\<rparr>) \<and>
     (calls (wifi_retry_task e' t) = calls t)"
proof (rule conjI3; (intro impI)?)
  let ?m = "mark_disconnected (wifi_list_clear s)"
  have "wifi_event_handler e StaDisconnected (wifi_list_clear s) = ?m"
    by (simp add: wifi_event_handler_def on_disconnected_def wifi_list_clear_def wifi_save_def Let_def)
  then have t: "t = snd (wifi_list_add ?m (Some n) p)" using add by simp
  have keep: "cand_count t = cand_count s" "\<not> scan_in_progress t"
    using cyc unfolding t by (simp_all add: wifi_list_clear_def wifi_save_def Let_def)
  show "0 < cand_count t" using keep cyc by simp
  have stop: "wifi_connect_begin e' v = v"
    if "0 < cand_count v" "0 < wifi_list_count v" for v :: "('i, 'z) wifi_st_scheme"
    using that by (simp add: wifi_connect_begin_def)
  show "wifi_connect_begin e' (t\<lparr>app_state := a, bt_connected := b, ppp_up_flag := u\<rparr>) =
      t\<lparr>app_state := a, bt_connected := b, ppp_up_flag := u\<rparr>"
    using keep cyc nonempty by (intro stop) (simp_all add: wifi_list_count_def)
  show "calls (wifi_retry_task e' t) = calls t"
    using keep cyc nonempty stop [of "t\<lparr>wifi_retry_running := False\<rparr>"]
    by (simp add: wifi_retry_task_def Let_def wifi_list_count_def)
qed

definition demo_cycling :: "(string \<rightharpoonup> wifi_list_t nvs_val) wifi_st" where
  "demo_cycling = demo_added\<lparr>app_state := APP_WIFI_CONNECTING, cand_count := 1\<rparr>"

theorem wifi_clear_wedges_witness:
  "\<exists>t. wifi_list_add (wifi_event_handler env_good StaDisconnected (wifi_list_clear demo_cycling)) (Some ''new'') None = (True, t) \<and>
     wifi_connect_begin env_good (t\<lparr>app_state := APP_WAIT_BT, bt_connected := False, ppp_up_flag := False\<rparr>) =
       t\<lparr>app_state := APP_WAIT_BT, bt_connected := False, ppp_up_flag := False\<rparr>"
proof -
  let ?s = "wifi_event_handler env_good StaDisconnected (wifi_list_clear demo_cycling)"
  have l: "wifi_list ?s = wl_zero\<lparr>wl_ver := 1\<rparr>"
    by (simp add: wifi_event_handler_def on_disconnected_def wifi_list_clear_def wifi_save_def Let_def)
  have a: "wifi_list_add ?s (Some ''new'') None = (True, snd (wifi_list_add ?s (Some ''new'') None))"
    "0 < wifi_list_count (snd (wifi_list_add ?s (Some ''new'') None))"
    by (simp_all add: wifi_list_add_def l wl_add_def wl_zero_def find_ssid.simps WIFI_LIST_MAX_def wifi_list_count_def)
  show ?thesis
    by (rule exI, rule conjI, rule a(1), rule wifi_clear_wedges [OF _ _ a, THEN part2])
      (simp_all add: demo_cycling_def)
qed

section \<open>Two further observations\<close>

text \<open>\<open>wifi_list_clear\<close> also arms the flag when no disconnect event will follow; the next genuine loss
  of the network is then swallowed: the state stays as it was and nothing is scheduled.\<close>

lemma armed_flag_swallows_loss:
  assumes "wifi_ignore_disconnect s"
  shows "wifi_event_handler e StaDisconnected s = mark_disconnected s"
    and "app_state (wifi_event_handler e StaDisconnected s) = app_state s"
    and "wifi_retry_running (wifi_event_handler e StaDisconnected s) = wifi_retry_running s"
    and "calls (wifi_event_handler e StaDisconnected s) = calls s"
  using assms by (simp_all add: wifi_event_handler_def on_disconnected_def Let_def)

text \<open>The driver is configured with at most 31 bytes of the name and 63 of the password, while the
  list accepts 32 and 64.\<close>

lemma long_name_cut:
  assumes "\<not> wifi_bt_negotiating s" and "length (c_ssid (candidates s ! cand_index s)) = 32"
  shows "EspSetConfig (c_ssid (candidates s ! cand_index s)) p a \<notin> set (drop (length (calls s)) (calls (wifi_try_candidate e s)))"
proof -
  have "length (take 31 (c_ssid (candidates s ! cand_index s))) \<noteq> length (c_ssid (candidates s ! cand_index s))"
    using assms(2) by simp
  then have "c_ssid (candidates s ! cand_index s) \<noteq> take 31 (c_ssid (candidates s ! cand_index s))" by metis
  then show ?thesis using assms(1) by (simp add: wifi_try_candidate_def Let_def)
qed

end
