(* ===== verification/Decimal.thy ===== *)
theory Decimal
  imports Prelude
begin

text \<open>
  The number formats the firmware prints with \<open>snprintf\<close> (\<open>%u\<close> and \<open>%d\<close>), and the reading
  of decimal digits.  \<open>dec\<close> is the decimal representation without leading zeros.
\<close>

definition digit :: "nat \<Rightarrow> char" where
  "digit d = char_of (48 + d)"

fun dec :: "nat \<Rightarrow> string" where
  "dec n = (if n < 10 then [digit n] else dec (n div 10) @ [digit (n mod 10)])"

declare dec.simps [simp del]

definition dec_int :: "int \<Rightarrow> string" where
  "dec_int i = (if i < 0 then CHR ''-'' # dec (nat (- i)) else dec (nat i))"

text \<open>\<open>snprintf\<close> into a buffer of \<open>n\<close> bytes keeps what fits before the terminator.\<close>

definition snprint :: "nat \<Rightarrow> string \<Rightarrow> string" where
  "snprint n s = take (n - 1) s"

text \<open>Reading digits back.\<close>

definition undigits :: "string \<Rightarrow> nat" where
  "undigits s = foldl (\<lambda>a c. 10 * a + (ccode c - 48)) 0 s"

lemma digit_simps [simp]:
  "digit 0 = CHR ''0''" "digit (Suc 0) = CHR ''1''" "digit 2 = CHR ''2''" "digit 3 = CHR ''3''" "digit 4 = CHR ''4''"
  "digit 5 = CHR ''5''" "digit 6 = CHR ''6''" "digit 7 = CHR ''7''" "digit 8 = CHR ''8''" "digit 9 = CHR ''9''"
  by code_simp+

lemma ccode_digit: "d < 10 \<Longrightarrow> ccode (digit d) = 48 + d"
  by (simp add: digit_def)

lemma isdigit_digit: "d < 10 \<Longrightarrow> isdigit (digit d)"
  by (simp add: isdigit_def ccode_digit)

lemma dec_digits: "list_all isdigit (dec n)"
proof (induction n rule: dec.induct)
  case (1 n)
  then show ?case by (subst dec.simps) (auto simp: isdigit_digit)
qed

lemma dec_not_Nil [simp]: "dec n \<noteq> []"
  by (subst dec.simps) simp

lemma undigits_snoc: "undigits (s @ [c]) = 10 * undigits s + (ccode c - 48)"
  by (simp add: undigits_def)

lemma undigits_dec: "undigits (dec n) = n"
proof (induction n rule: dec.induct)
  case (1 n)
  show ?case
  proof (cases "n < 10")
    case True
    then show ?thesis by (subst dec.simps) (simp add: undigits_def ccode_digit)
  next
    case False
    then have "dec n = dec (n div 10) @ [digit (n mod 10)]" by (subst dec.simps) simp
    then show ?thesis using 1 False by (simp add: undigits_snoc ccode_digit)
  qed
qed

lemma dec_inj: "dec m = dec n \<longleftrightarrow> m = n"
  using undigits_dec by metis

lemma length_dec: "n < 10 ^ k \<Longrightarrow> 0 < k \<Longrightarrow> length (dec n) \<le> k"
proof (induction k arbitrary: n)
  case (Suc k)
  show ?case
  proof (cases "n < 10")
    case True
    then show ?thesis by (subst dec.simps) simp
  next
    case False
    then have k: "0 < k" using Suc.prems by (cases k) auto
    have "n div 10 < 10 ^ k" using Suc.prems by (simp add: div_less_iff_less_mult mult.commute)
    then have "length (dec (n div 10)) \<le> k" using Suc.IH k by simp
    then show ?thesis using False by (subst dec.simps) simp
  qed
qed simp

lemma dec_ascii: "c \<in> set (dec n) \<Longrightarrow> 48 \<le> ccode c \<and> ccode c \<le> 57"
  using dec_digits [of n] by (simp add: list_all_iff isdigit_def)

end
