(* ===== verification/BtName.thy ===== *)
theory BtName
  imports WifiMulti Decimal
begin

text \<open>
  The Bluetooth device name of \<open>main/bt_name.c\<close>: a name derived from the low two bytes of the
  controller's address, overridden by a custom name kept in flash, and the run-loop callback that
  hands a rename to the BTstack task.  The local address is an argument (\<open>gap_local_bd_addr\<close>).
\<close>

definition BT_NAME_PREFIX :: string where "BT_NAME_PREFIX = ''Vetera Bridge''"
definition BT_NAME_MAX :: nat where "BT_NAME_MAX = 32"
definition BT_NAME_CUSTOM_MAX :: nat where "BT_NAME_CUSTOM_MAX = 24"

lemmas name_consts = BT_NAME_PREFIX_def BT_NAME_MAX_def BT_NAME_CUSTOM_MAX_def

record 's name_st = "'s wifi_st" +
  name_active :: string
  name_custom :: string
  name_derived :: string
  name_pending :: bool

definition name_key :: string where "name_key = ''btname''"

section \<open>Flash\<close>

text \<open>The value is the custom name; absent is the empty one.\<close>

definition nvs_name_load :: "('i, 'b) nvs_dev \<Rightarrow> string option" where
  "nvs_name_load d =
     (if nvs_open d False \<noteq> ESP_OK then None
      else case nvs_get_str d name_key BT_NAME_MAX of
          None \<Rightarrow> None
        | Some tmp \<Rightarrow> Some (strlcpy tmp BT_NAME_MAX))"

definition nvs_name_save :: "string \<Rightarrow> ('i, 'b) nvs_dev \<Rightarrow> ('i, 'b) nvs_dev" where
  "nvs_name_save name d =
     (if nvs_open d True \<noteq> ESP_OK then d
      else let d1 = snd (if name = [] then nvs_erase_key d name_key else nvs_set_str d name_key name)
           in snd (nvs_commit d1))"

section \<open>Composition\<close>

text \<open>\<open>(addr[4] << 8) | addr[5]\<close>: the two bytes do not overlap, so the OR is a sum.\<close>

definition derived_name :: "bd_addr \<Rightarrow> string" where
  "derived_name addr = snprint BT_NAME_MAX
     (BT_NAME_PREFIX @ '' '' @ dec (256 * unat (addr ! 4) + unat (addr ! 5)))"

definition set_active :: "string \<Rightarrow> ('s, 'z) name_st_scheme \<Rightarrow> ('s, 'z) name_st_scheme" where
  "set_active src s = s\<lparr>name_active := strlcpy src BT_NAME_MAX\<rparr>"

definition bt_name_apply_from_addr :: "bd_addr \<Rightarrow> ('s, 'z) name_st_scheme \<Rightarrow> ('s, 'z) name_st_scheme" where
  "bt_name_apply_from_addr addr s =
     (let custom = strlcpy (name_custom s) BT_NAME_MAX;
          derived = derived_name addr;
          s = s\<lparr>name_derived := strlcpy derived BT_NAME_MAX\<rparr>;
          s = set_active (if custom \<noteq> [] then custom else derived) s
      in emit (GapSetName (name_active s)) s)"

text \<open>The run-loop callback.\<close>

definition name_apply_cb :: "bd_addr \<Rightarrow> ('s, 'z) name_st_scheme \<Rightarrow> ('s, 'z) name_st_scheme" where
  "name_apply_cb addr s = bt_name_apply_from_addr addr (s\<lparr>name_pending := False\<rparr>)"

section \<open>Interface\<close>

definition bt_name_init :: "('s, 'z) name_st_scheme \<Rightarrow> ('s, 'z) name_st_scheme" where
  "bt_name_init s =
     (let s = (case nvs_name_load (wifi_dev s) of None \<Rightarrow> s | Some n \<Rightarrow> s\<lparr>name_custom := n\<rparr>)
      in if name_custom s \<noteq> [] then s\<lparr>name_active := strlcpy (name_custom s) BT_NAME_MAX\<rparr> else s)"

definition bt_name_get :: "('s, 'z) name_st_scheme \<Rightarrow> int \<Rightarrow> string option" where
  "bt_name_get s out_len = (if out_len \<le> 0 then None else Some (strlcpy (name_active s) (nat out_len)))"

definition bt_name_get_custom :: "('s, 'z) name_st_scheme \<Rightarrow> int \<Rightarrow> string option" where
  "bt_name_get_custom s out_len = (if out_len \<le> 0 then None else Some (strlcpy (name_custom s) (nat out_len)))"

definition bt_name_get_derived :: "('s, 'z) name_st_scheme \<Rightarrow> int \<Rightarrow> string option" where
  "bt_name_get_derived s out_len = (if out_len \<le> 0 then None else Some (strlcpy (name_derived s) (nat out_len)))"

text \<open>The cleaning loop of \<open>bt_name_set\<close>; \<open>w\<close> is the text written so far.\<close>

fun name_copy :: "string \<Rightarrow> string \<Rightarrow> string" where
  "name_copy w [] = w"
| "name_copy w (c # p) =
     (if length w < BT_NAME_CUSTOM_MAX
      then if ccode c < 0x20 \<or> ccode c > 0x7e then name_copy w p else name_copy (w @ [c]) p
      else w)"

definition name_clean :: "string option \<Rightarrow> string" where
  "name_clean name = trim_end (case name of None \<Rightarrow> [] | Some n \<Rightarrow> name_copy [] (dropWhile (\<lambda>c. c = CHR '' '') n))"

definition bt_name_set :: "string option \<Rightarrow> ('s, 'z) name_st_scheme \<Rightarrow> ('s, 'z) name_st_scheme" where
  "bt_name_set name s =
     (let clean = name_clean name;
          already = name_pending s;
          s = s\<lparr>name_custom := strlcpy clean BT_NAME_MAX\<rparr>;
          s = (if already then s else s\<lparr>name_pending := True\<rparr>);
          s = s\<lparr>wifi_dev := nvs_name_save clean (wifi_dev s)\<rparr>
      in if already then s else spawn NameApply s)"

section \<open>Facts\<close>

definition printable :: "char \<Rightarrow> bool" where
  "printable c \<longleftrightarrow> 0x20 \<le> ccode c \<and> ccode c \<le> 0x7e"

lemma name_copy_eq:
  "length w \<le> BT_NAME_CUSTOM_MAX \<Longrightarrow> name_copy w p = take BT_NAME_CUSTOM_MAX (w @ filter printable p)"
proof (induction p arbitrary: w)
  case Nil
  then show ?case by simp
next
  case (Cons c p)
  show ?case
  proof (cases "length w < BT_NAME_CUSTOM_MAX")
    case True
    then show ?thesis using Cons.IH [of w] Cons.IH [of "w @ [c]"] by (auto simp: printable_def not_less)
  next
    case False
    then show ?thesis using Cons.prems by simp
  qed
qed

lemma name_clean_eq:
  "name_clean n = trim_end (take BT_NAME_CUSTOM_MAX (filter printable
     (dropWhile (\<lambda>c. c = CHR '' '') (case n of None \<Rightarrow> [] | Some n \<Rightarrow> n))))"
  by (cases n) (simp_all add: name_clean_def name_copy_eq)

lemma name_clean_fits: "length (name_clean n) \<le> BT_NAME_CUSTOM_MAX"
  unfolding name_clean_eq by (rule order_trans [OF length_trim_end]) simp

lemma name_clean_printable: "c \<in> set (name_clean n) \<Longrightarrow> printable c"
  unfolding name_clean_eq using set_trim_end set_take_subset by fastforce

lemma derived_name_fits:
  "derived_name addr = BT_NAME_PREFIX @ '' '' @ dec (256 * unat (addr ! 4) + unat (addr ! 5))"
  "length (derived_name addr) \<le> 19"
proof -
  have "unat (addr ! 4) < 256" "unat (addr ! 5) < 256" by (rule unat_less_u8)+
  then have "256 * unat (addr ! 4) + unat (addr ! 5) < 10 ^ 5" by simp
  then have "length (dec (256 * unat (addr ! 4) + unat (addr ! 5))) \<le> 5" by (rule length_dec) simp
  then show "derived_name addr = BT_NAME_PREFIX @ '' '' @ dec (256 * unat (addr ! 4) + unat (addr ! 5))"
    "length (derived_name addr) \<le> 19"
    by (simp_all add: derived_name_def snprint_def name_consts)
qed

text \<open>The stored setting: the custom name, with the empty name kept as an absent key.\<close>

definition name_written :: "string \<Rightarrow> ('i, 'b) nvs_dev \<Rightarrow> bool" where
  "name_written n d \<longleftrightarrow> nvs_open d True = ESP_OK \<and>
     (if n = [] then fst (nvs_erase_key d name_key) \<in> {ESP_OK, ESP_ERR_NVS_NOT_FOUND}
      else fst (nvs_set_str d name_key n) = ESP_OK)"

interpretation nameset: nvs_setting "{name_key}" "\<lambda>n. length n < BT_NAME_MAX" name_written
  "\<lambda>n d. (if n = [] then None else Some n, nvs_name_save n d)" nvs_name_load
proof unfold_locales
  fix d d' :: "('i, 'b) nvs_dev" and n :: string and K :: "string set"
  show "dev_same {name_key} d (snd (if n = [] then None else Some n, nvs_name_save n d))" if ok: "dev_ok d"
    using nvs_step_same(6) [OF nvs_writes_same(1) [OF ok, of name_key n] ok]
      nvs_step_same(6) [OF nvs_writes_same(5) [OF ok, of name_key] ok]
    by (simp add: nvs_name_save_def Let_def)
  show "nvs_name_load d' = nvs_name_load d"
    if "dev_same K d d'" "K \<inter> {name_key} = {}" "nvs_open d' False = nvs_open d False"
    using dev_same_get(1) [OF that(1), of name_key] that by (simp add: nvs_name_load_def)
  show "nvs_name_load (snd (if n = [] then None else Some n, nvs_name_save n d)) =
      fst (if n = [] then None else Some n, nvs_name_save n d)"
    if ok: "dev_ok d" and fits: "length n < BT_NAME_MAX" and w: "name_written n d"
      and o: "nvs_open (snd (if n = [] then None else Some n, nvs_name_save n d)) False = ESP_OK"
  proof -
    define r where "r = (if n = [] then nvs_erase_key d name_key else nvs_set_str d name_key n)"
    have s: "nvs_name_save n d = snd (nvs_commit (snd r))"
      using w by (simp add: nvs_name_save_def name_written_def Let_def r_def)
    have ok1: "dev_ok (snd r)"
      using dev_same_ok [OF nvs_writes_same(1) [OF ok, of name_key n]] dev_same_ok [OF nvs_writes_same(5) [OF ok, of name_key]] ok
      by (simp add: r_def)
    have "nvs_get_str (snd r) name_key BT_NAME_MAX = (if n = [] then None else Some n)"
    proof (cases "n = []")
      case True
      then have "nvs_erase_key d name_key = (fst r, snd r)" "fst r \<in> {ESP_OK, ESP_ERR_NVS_NOT_FOUND}"
        using w by (simp_all add: r_def name_written_def)
      from nvs_get_erased(1) [OF ok this] True show ?thesis by simp
    next
      case False
      then have "nvs_set_str d name_key n = (ESP_OK, snd r)"
        using w by (simp add: r_def name_written_def prod_eq_iff)
      from nvs_get_set(1) [OF ok this] False fits show ?thesis by simp
    qed
    then have "nvs_get_str (snd (nvs_commit (snd r))) name_key BT_NAME_MAX = (if n = [] then None else Some n)"
      using dev_same_get(1) [OF nvs_writes_same(6) [OF ok1], of name_key] by simp
    then show ?thesis using o fits by (simp add: s nvs_name_load_def strlcpy_fits)
  qed
qed

section \<open>The queued rename\<close>

abbreviation is_name_apply :: "task \<Rightarrow> bool" where
  "is_name_apply t \<equiv> t = NameApply"

text \<open>The callback runs: it leaves the run loop's list and does its work.\<close>

definition name_fire :: "bd_addr \<Rightarrow> ('s, 'z) name_st_scheme \<Rightarrow> ('s, 'z) name_st_scheme" where
  "name_fire addr s = name_apply_cb addr (unqueue is_name_apply s)"

lemma name_pending_sel [simp]:
  "name_pending (emit c s) = name_pending s" "name_pending (spawn t s) = name_pending s"
  "name_pending (unqueue p s) = name_pending s"
  by (simp_all add: emit_def spawn_def unqueue_def)

lemma name_apply_frame [simp]:
  "tasks (bt_name_apply_from_addr addr s) = tasks s"
  "name_pending (bt_name_apply_from_addr addr s) = name_pending s"
  "wifi_dev (bt_name_apply_from_addr addr s) = wifi_dev s"
  "name_custom (bt_name_apply_from_addr addr s) = name_custom s"
  by (simp_all add: bt_name_apply_from_addr_def set_active_def Let_def emit_def)

interpretation namereq: one_shot name_pending "queued_of is_name_apply" "bt_name_set n" "name_fire addr"
  for n addr
proof unfold_locales
  fix s :: "('i, 'z) name_st_scheme" and k
  show "name_pending s \<Longrightarrow> name_pending (bt_name_set n s) \<and> queued_of is_name_apply (bt_name_set n s) = queued_of is_name_apply s"
    by (simp add: bt_name_set_def Let_def queued_of_def)
  show "\<not> name_pending s \<Longrightarrow>
      (name_pending (bt_name_set n s) \<and> queued_of is_name_apply (bt_name_set n s) = Suc (queued_of is_name_apply s)) \<or>
      (\<not> name_pending (bt_name_set n s) \<and> queued_of is_name_apply (bt_name_set n s) = queued_of is_name_apply s)"
    by (simp add: bt_name_set_def Let_def queued_of_def)
  show "queued_of is_name_apply s = Suc k \<Longrightarrow>
      \<not> name_pending (name_fire addr s) \<and> queued_of is_name_apply (name_fire addr s) = k"
    using queued_of_unqueue [of is_name_apply s] by (simp add: name_fire_def name_apply_cb_def queued_of_def)
qed

section \<open>Properties\<close>

text \<open>Setting a name.  The custom name becomes the submitted text reduced to printable ASCII, cut to
  24 characters and trimmed behind; the callback already queued, or the one queued now, is the only
  one in the run loop; when it runs, the advertised name is the custom one or, if that is empty, the
  name derived from the address, complete and within its buffer; and a reboot after a successful write
  finds the same custom name.\<close>

theorem bt_name_set_effect:
  fixes s :: "('i, 'z) name_st_scheme" and n :: "string option" and addr :: bd_addr
  assumes queue: "queued_of is_name_apply s = (if name_pending s then 1 else 0)"
  defines "t \<equiv> bt_name_set n s"
  defines "u \<equiv> name_fire addr t"
  defines "clean \<equiv> trim_end (take 24 (filter printable
     (dropWhile (\<lambda>c. c = CHR '' '') (case n of None \<Rightarrow> [] | Some n \<Rightarrow> n))))"
  shows "(name_custom t = clean) \<and>
     (\<forall>c\<in>set clean. 0x20 \<le> ccode c \<and> ccode c \<le> 0x7e) \<and>
     (queued_of is_name_apply t = 1) \<and>
     (queued_of is_name_apply u = 0 \<and> \<not> name_pending u) \<and>
     (name_active u = (if clean = [] then ''Vetera Bridge '' @ dec (256 * unat (addr ! 4) + unat (addr ! 5)) else clean)) \<and>
     (length (name_active u) < 32 \<and> last (calls u) = GapSetName (name_active u)) \<and>
     (dev_ok (wifi_dev s) \<longrightarrow> name_written clean (wifi_dev s) \<longrightarrow> nvs_open (wifi_dev t) False = ESP_OK \<longrightarrow> nvs_name_load (wifi_dev t) = (if clean = [] then None else Some clean))"
proof (rule conjI7; (intro impI)?)
  have clean: "clean = name_clean n" by (simp add: clean_def name_clean_eq BT_NAME_CUSTOM_MAX_def)
  have fits: "length clean \<le> 24" using name_clean_fits [of n] by (simp add: clean BT_NAME_CUSTOM_MAX_def)
  show ct: "name_custom t = clean"
    using fits by (simp add: t_def bt_name_set_def Let_def clean [symmetric] strlcpy_fits BT_NAME_MAX_def spawn_def)
  show "\<forall>c\<in>set clean. 0x20 \<le> ccode c \<and> ccode c \<le> 0x7e"
    using name_clean_printable [of _ n] by (auto simp: clean printable_def)
  have m: "one_shot.matched name_pending (queued_of is_name_apply) s"
    using queue by (simp add: namereq.matched_def)
  have p: "name_pending t" by (simp add: t_def bt_name_set_def Let_def)
  show q: "queued_of is_name_apply t = 1"
    using namereq.request_matched [OF m, of n] p by (simp add: t_def namereq.matched_def)
  show "queued_of is_name_apply u = 0 \<and> \<not> name_pending u"
    using namereq.fired [of t 0 addr] q by (simp add: u_def)
  have act: "name_active u = (if clean = [] then derived_name addr else clean)"
    using ct fits derived_name_fits(2) [of addr]
    by (simp add: u_def name_fire_def name_apply_cb_def bt_name_apply_from_addr_def set_active_def Let_def
        emit_def unqueue_def strlcpy_fits BT_NAME_MAX_def)
  show "name_active u = (if clean = [] then ''Vetera Bridge '' @ dec (256 * unat (addr ! 4) + unat (addr ! 5)) else clean)"
    unfolding act derived_name_fits(1) BT_NAME_PREFIX_def by simp
  show "length (name_active u) < 32 \<and> last (calls u) = GapSetName (name_active u)"
    using act fits derived_name_fits(2) [of addr]
    by (simp add: u_def name_fire_def name_apply_cb_def bt_name_apply_from_addr_def Let_def emit_def)
  assume "dev_ok (wifi_dev s)" "name_written clean (wifi_dev s)" "nvs_open (wifi_dev t) False = ESP_OK"
  moreover have "wifi_dev t = nvs_name_save clean (wifi_dev s)"
    by (simp add: t_def bt_name_set_def Let_def clean)
  ultimately show "nvs_name_load (wifi_dev t) = (if clean = [] then None else Some clean)"
    using nameset.load_save [of "wifi_dev s" clean] fits by (simp add: BT_NAME_MAX_def)
qed

text \<open>The state before \<open>bt_name_init\<close>: the static initialisers.\<close>

definition name_boot :: "('i, wifi_list_t) nvs_dev \<Rightarrow> 'i name_st" where
  "name_boot d = wifi_st.extend (wifi_boot d) (name_st.fields BT_NAME_PREFIX [] [] False)"

lemma name_boot_sel [simp]:
  "name_active (name_boot d) = BT_NAME_PREFIX" "name_custom (name_boot d) = []"
  "name_derived (name_boot d) = []" "name_pending (name_boot d) = False" "wifi_dev (name_boot d) = d"
  "tasks (name_boot d) = []" "calls (name_boot d) = []"
  by (simp_all add: name_boot_def wifi_st.defs name_st.defs wifi_boot_def)

theorem bt_name_set_effect_witness:
  "name_active (name_fire [0, 0x1b, 0x10, 0, 0x12, 0x34] (bt_name_set (Some ''  Blue'') (name_boot map_dev))) = ''Blue'' \<and>
   name_active (name_fire [0, 0x1b, 0x10, 0, 0x12, 0x34] (bt_name_set None (name_boot map_dev))) = ''Vetera Bridge 4660''"
proof -
  have q: "queued_of is_name_apply (name_boot map_dev :: (string \<rightharpoonup> wifi_list_t nvs_val) name_st) =
      (if name_pending (name_boot map_dev :: (string \<rightharpoonup> wifi_list_t nvs_val) name_st) then 1 else 0)"
    by (simp add: queued_of_def)
  have d: "dec 4660 = ''4660''" by (simp add: dec.simps)
  show ?thesis
    using bt_name_set_effect [OF q, where addr = "[0, 0x1b, 0x10, 0, 0x12, 0x34]" and n = "Some ''  Blue''", THEN part5]
      bt_name_set_effect [OF q, where addr = "[0, 0x1b, 0x10, 0, 0x12, 0x34]" and n = None, THEN part5]
    by (simp add: printable_def trim_end_def d)
qed

end
