(* ===== verification/DebugLog.thy ===== *)
theory DebugLog
  imports BtName
begin

text \<open>
  The extended-logging switches of \<open>main/debug_log.c\<close>: a bitmask kept in flash and handed to
  BTstack's packet dump on its own task.  What the dump prints is outside the model; what it is
  switched to is the entry \<open>HciDump packets log\<close> of the trace.
\<close>

unbundle bit_operations_syntax

definition DBG_HCI_PACKETS :: u8 where "DBG_HCI_PACKETS = 1"
definition DBG_BTSTACK_LOG :: u8 where "DBG_BTSTACK_LOG = 2"
definition DBG_VERBOSE :: u8 where "DBG_VERBOSE = 4"
definition DBG_ALL :: u8 where "DBG_ALL = DBG_HCI_PACKETS OR DBG_BTSTACK_LOG OR DBG_VERBOSE"

lemmas dbg_consts = DBG_HCI_PACKETS_def DBG_BTSTACK_LOG_def DBG_VERBOSE_def DBG_ALL_def

record 's dbg_st = "'s name_st" +
  dbg_flags :: u8
  dbg_pending :: bool

definition flags_key :: string where "flags_key = ''dbgflags''"

definition nvs_flags_load :: "('i, 'b) nvs_dev \<Rightarrow> u8 option" where
  "nvs_flags_load d =
     (if nvs_open d False \<noteq> ESP_OK then None
      else case nvs_get_u8 d flags_key of None \<Rightarrow> None | Some v \<Rightarrow> Some (v AND DBG_ALL))"

definition nvs_flags_save :: "u8 \<Rightarrow> ('i, 'b) nvs_dev \<Rightarrow> ('i, 'b) nvs_dev" where
  "nvs_flags_save flags d =
     (if nvs_open d True \<noteq> ESP_OK then d
      else let d1 = snd (if flags = 0 then nvs_erase_key d flags_key else nvs_set_u8 d flags_key flags)
           in snd (nvs_commit d1))"

definition apply_to_hci_dump :: "('s, 'z) dbg_st_scheme \<Rightarrow> ('s, 'z) dbg_st_scheme" where
  "apply_to_hci_dump s =
     (let f = dbg_flags s; stack_log = (f AND DBG_BTSTACK_LOG \<noteq> 0)
      in emit (HciDump (f AND DBG_HCI_PACKETS \<noteq> 0) stack_log) s)"

definition flags_apply_cb :: "('s, 'z) dbg_st_scheme \<Rightarrow> ('s, 'z) dbg_st_scheme" where
  "flags_apply_cb s = apply_to_hci_dump (s\<lparr>dbg_pending := False\<rparr>)"

definition debug_log_init :: "('s, 'z) dbg_st_scheme \<Rightarrow> ('s, 'z) dbg_st_scheme" where
  "debug_log_init s = (case nvs_flags_load (wifi_dev s) of None \<Rightarrow> s | Some v \<Rightarrow> s\<lparr>dbg_flags := v\<rparr>)"

definition debug_log_bt_setup :: "('s, 'z) dbg_st_scheme \<Rightarrow> ('s, 'z) dbg_st_scheme" where
  "debug_log_bt_setup s = apply_to_hci_dump s"

definition debug_log_get :: "('s, 'z) dbg_st_scheme \<Rightarrow> u8" where
  "debug_log_get s = dbg_flags s"

definition debug_log_on :: "('s, 'z) dbg_st_scheme \<Rightarrow> u8 \<Rightarrow> bool" where
  "debug_log_on s flag \<longleftrightarrow> dbg_flags s AND flag \<noteq> 0"

definition debug_log_set :: "u8 \<Rightarrow> ('s, 'z) dbg_st_scheme \<Rightarrow> ('s, 'z) dbg_st_scheme" where
  "debug_log_set flags s =
     (let flags = flags AND DBG_ALL;
          s = s\<lparr>dbg_flags := flags\<rparr>;
          already = dbg_pending s;
          s = (if already then s else s\<lparr>dbg_pending := True\<rparr>);
          s = s\<lparr>wifi_dev := nvs_flags_save flags (wifi_dev s)\<rparr>
      in if already then s else spawn FlagsApply s)"

section \<open>The stored setting\<close>

definition flags_written :: "u8 \<Rightarrow> ('i, 'b) nvs_dev \<Rightarrow> bool" where
  "flags_written v d \<longleftrightarrow> nvs_open d True = ESP_OK \<and>
     (if v = 0 then fst (nvs_erase_key d flags_key) \<in> {ESP_OK, ESP_ERR_NVS_NOT_FOUND}
      else fst (nvs_set_u8 d flags_key v) = ESP_OK)"

text \<open>What a reader of the flash finds: no key stands for all off.\<close>

definition flags_stored :: "u8 \<Rightarrow> u8 option" where
  "flags_stored v = (if v = 0 then None else Some v)"

interpretation flagset: nvs_setting "{flags_key}" "\<lambda>v. v AND DBG_ALL = v" flags_written
  "\<lambda>v d. (flags_stored v, nvs_flags_save v d)" nvs_flags_load
proof unfold_locales
  fix d d' :: "('i, 'b) nvs_dev" and v :: u8 and K :: "string set"
  show "dev_same {flags_key} d (snd (flags_stored v, nvs_flags_save v d))" if ok: "dev_ok d"
    using nvs_step_same(6) [OF nvs_writes_same(2) [OF ok, of flags_key v] ok]
      nvs_step_same(6) [OF nvs_writes_same(5) [OF ok, of flags_key] ok]
    by (simp add: nvs_flags_save_def Let_def)
  show "nvs_flags_load d' = nvs_flags_load d"
    if "dev_same K d d'" "K \<inter> {flags_key} = {}" "nvs_open d' False = nvs_open d False"
    using dev_same_get(2) [OF that(1), of flags_key] that by (simp add: nvs_flags_load_def)
  show "nvs_flags_load (snd (flags_stored v, nvs_flags_save v d)) = fst (flags_stored v, nvs_flags_save v d)"
    if ok: "dev_ok d" and fits: "v AND DBG_ALL = v" and w: "flags_written v d"
      and o: "nvs_open (snd (flags_stored v, nvs_flags_save v d)) False = ESP_OK"
  proof -
    define r where "r = (if v = 0 then nvs_erase_key d flags_key else nvs_set_u8 d flags_key v)"
    have s: "nvs_flags_save v d = snd (nvs_commit (snd r))"
      using w by (simp add: nvs_flags_save_def flags_written_def Let_def r_def)
    have ok1: "dev_ok (snd r)"
      using dev_same_ok [OF nvs_writes_same(2) [OF ok, of flags_key v]]
        dev_same_ok [OF nvs_writes_same(5) [OF ok, of flags_key]] ok by (simp add: r_def)
    have "nvs_get_u8 (snd r) flags_key = flags_stored v"
    proof (cases "v = 0")
      case True
      then have "nvs_erase_key d flags_key = (fst r, snd r)" "fst r \<in> {ESP_OK, ESP_ERR_NVS_NOT_FOUND}"
        using w by (simp_all add: r_def flags_written_def)
      from nvs_get_erased(2) [OF ok this] True show ?thesis by (simp add: flags_stored_def)
    next
      case False
      then have "nvs_set_u8 d flags_key v = (ESP_OK, snd r)"
        using w by (simp add: r_def flags_written_def prod_eq_iff)
      from nvs_get_set(2) [OF ok this] False show ?thesis by (simp add: flags_stored_def)
    qed
    then have "nvs_get_u8 (snd (nvs_commit (snd r))) flags_key = flags_stored v"
      using dev_same_get(2) [OF nvs_writes_same(6) [OF ok1], of flags_key] by simp
    then show ?thesis using o fits by (simp add: s nvs_flags_load_def flags_stored_def)
  qed
qed

section \<open>The queued change\<close>

abbreviation is_flags_apply :: "task \<Rightarrow> bool" where
  "is_flags_apply t \<equiv> t = FlagsApply"

definition flags_fire :: "('s, 'z) dbg_st_scheme \<Rightarrow> ('s, 'z) dbg_st_scheme" where
  "flags_fire s = flags_apply_cb (unqueue is_flags_apply s)"

interpretation flagreq: one_shot dbg_pending "queued_of is_flags_apply" "debug_log_set v" flags_fire
  for v
proof unfold_locales
  fix s :: "('i, 'z) dbg_st_scheme" and k
  show "dbg_pending s \<Longrightarrow> dbg_pending (debug_log_set v s) \<and> queued_of is_flags_apply (debug_log_set v s) = queued_of is_flags_apply s"
    by (simp add: debug_log_set_def Let_def queued_of_def)
  show "\<not> dbg_pending s \<Longrightarrow>
      (dbg_pending (debug_log_set v s) \<and> queued_of is_flags_apply (debug_log_set v s) = Suc (queued_of is_flags_apply s)) \<or>
      (\<not> dbg_pending (debug_log_set v s) \<and> queued_of is_flags_apply (debug_log_set v s) = queued_of is_flags_apply s)"
    by (simp add: debug_log_set_def Let_def queued_of_def spawn_def)
  show "queued_of is_flags_apply s = Suc k \<Longrightarrow>
      \<not> dbg_pending (flags_fire s) \<and> queued_of is_flags_apply (flags_fire s) = k"
    using queued_of_unqueue [of is_flags_apply s]
    by (simp add: flags_fire_def flags_apply_cb_def apply_to_hci_dump_def Let_def queued_of_def emit_def)
qed

section \<open>Properties\<close>

text \<open>Switching the extended logging.  The three switches take effect at once, unknown bits are
  dropped; the change is handed to BTstack by the one callback in its run loop, which sets the packet
  dump to the switches of the moment it runs; and a boot after a successful write comes up with the
  same switches.\<close>

theorem debug_log_set_effect:
  fixes s b :: "('i, 'z) dbg_st_scheme" and v w :: u8
  assumes queue: "queued_of is_flags_apply s = (if dbg_pending s then 1 else 0)"
  defines "t \<equiv> debug_log_set v s"
  shows "(debug_log_on t DBG_HCI_PACKETS = (v AND DBG_HCI_PACKETS \<noteq> 0)) \<and>
     (debug_log_on t DBG_BTSTACK_LOG = (v AND DBG_BTSTACK_LOG \<noteq> 0)) \<and>
     (debug_log_on t DBG_VERBOSE = (v AND DBG_VERBOSE \<noteq> 0)) \<and>
     (debug_log_get t AND NOT DBG_ALL = 0) \<and>
     (queued_of is_flags_apply t = 1) \<and>
     (calls (flags_fire (debug_log_set w t)) = calls s @ [HciDump (w AND DBG_HCI_PACKETS \<noteq> 0) (w AND DBG_BTSTACK_LOG \<noteq> 0)]) \<and>
     (dev_ok (wifi_dev s) \<longrightarrow> flags_written (v AND DBG_ALL) (wifi_dev s) \<longrightarrow> nvs_open (wifi_dev t) False = ESP_OK \<longrightarrow> wifi_dev b = wifi_dev t \<longrightarrow> dbg_flags b = 0 \<longrightarrow> dbg_flags (debug_log_init b) = dbg_flags t)"
proof (rule conjI7; (intro impI)?)
  have fl: "dbg_flags (debug_log_set x y) = x AND DBG_ALL" "calls (debug_log_set x y) = calls y"
    "dbg_pending (debug_log_set x y)" "wifi_dev (debug_log_set x y) = nvs_flags_save (x AND DBG_ALL) (wifi_dev y)"
    for x and y :: "('i, 'z) dbg_st_scheme"
    by (simp_all add: debug_log_set_def Let_def spawn_def)
  have all: "(x AND DBG_ALL) AND f = x AND f" if "DBG_ALL AND f = f" for x f
    using that by (metis and.assoc)
  have sub: "DBG_ALL AND DBG_HCI_PACKETS = DBG_HCI_PACKETS" "DBG_ALL AND DBG_BTSTACK_LOG = DBG_BTSTACK_LOG"
    "DBG_ALL AND DBG_VERBOSE = DBG_VERBOSE" by (simp_all add: dbg_consts)
  show "debug_log_on t DBG_HCI_PACKETS = (v AND DBG_HCI_PACKETS \<noteq> 0)"
    "debug_log_on t DBG_BTSTACK_LOG = (v AND DBG_BTSTACK_LOG \<noteq> 0)"
    "debug_log_on t DBG_VERBOSE = (v AND DBG_VERBOSE \<noteq> 0)"
    by (simp_all only: t_def debug_log_on_def fl all [OF sub(1)] all [OF sub(2)] all [OF sub(3)])
  show "debug_log_get t AND NOT DBG_ALL = 0"
    unfolding debug_log_get_def t_def fl by (simp add: and.assoc)
  have m: "one_shot.matched dbg_pending (queued_of is_flags_apply) s"
    using queue by (simp add: flagreq.matched_def)
  show "queued_of is_flags_apply t = 1"
    using flagreq.request_matched [OF m, of v] fl(3) [of v s] by (simp add: t_def flagreq.matched_def)
  show "calls (flags_fire (debug_log_set w t)) = calls s @ [HciDump (w AND DBG_HCI_PACKETS \<noteq> 0) (w AND DBG_BTSTACK_LOG \<noteq> 0)]"
    by (simp add: flags_fire_def flags_apply_cb_def apply_to_hci_dump_def Let_def unqueue_def fl t_def
        all [OF sub(1)] all [OF sub(2)] del: and.assoc)
  assume ok: "dev_ok (wifi_dev s)" "flags_written (v AND DBG_ALL) (wifi_dev s)" "nvs_open (wifi_dev t) False = ESP_OK"
    and b: "wifi_dev b = wifi_dev t" "dbg_flags b = 0"
  have "nvs_flags_load (wifi_dev t) = flags_stored (v AND DBG_ALL)"
    using flagset.load_save [of "wifi_dev s" "v AND DBG_ALL"] ok by (simp add: t_def fl and.assoc)
  then show "dbg_flags (debug_log_init b) = dbg_flags t"
    using b by (simp add: debug_log_init_def flags_stored_def t_def fl)
qed

text \<open>The state before \<open>debug_log_init\<close>.\<close>

definition dbg_boot :: "('i, wifi_list_t) nvs_dev \<Rightarrow> 'i dbg_st" where
  "dbg_boot d = name_st.extend (name_boot d) (dbg_st.fields 0 False)"

lemma dbg_boot_sel [simp]:
  "dbg_flags (dbg_boot d) = 0" "dbg_pending (dbg_boot d) = False" "wifi_dev (dbg_boot d) = d"
  "tasks (dbg_boot d) = []" "calls (dbg_boot d) = []"
  by (simp_all add: dbg_boot_def name_boot_def wifi_st.defs name_st.defs dbg_st.defs wifi_boot_def)

theorem debug_log_set_effect_witness:
  "debug_log_on (debug_log_set 0x15 (dbg_boot map_dev)) DBG_VERBOSE \<and>
   calls (flags_fire (debug_log_set 3 (debug_log_set 0x15 (dbg_boot map_dev)))) = [HciDump True True]"
proof -
  have q: "queued_of is_flags_apply (dbg_boot map_dev :: (string \<rightharpoonup> wifi_list_t nvs_val) dbg_st) =
      (if dbg_pending (dbg_boot map_dev :: (string \<rightharpoonup> wifi_list_t nvs_val) dbg_st) then 1 else 0)"
    by (simp add: queued_of_def)
  show ?thesis
    using debug_log_set_effect [OF q, where v = "0x15", THEN part3] debug_log_set_effect [OF q, where v = "0x15" and w = 3, THEN part6]
    by (simp add: dbg_consts)
qed

end
