(* ===== verification/BtBootstrap.thy ===== *)
theory BtBootstrap
  imports DebugLog
begin

text \<open>
  The one-shot connect into the phone after a pairing, \<open>main/bt_bootstrap.c\<close>: a state machine
  driven by SDP answers, RFCOMM events and one timer, all on the BTstack task.  The answers of the
  stack are arguments: the error code of a started query or channel (0 for none), the cid a channel
  gets, and the handle of the baseband link if there is one.
\<close>

datatype boot_state_t = BOOT_IDLE | BOOT_WAIT_START | BOOT_PROBE | BOOT_TARGET | BOOT_CONNECT | BOOT_HOLD

definition BOOTSTRAP_START_DELAY_MS :: nat where "BOOTSTRAP_START_DELAY_MS = 1500"
definition BOOTSTRAP_HOLD_MS :: nat where "BOOTSTRAP_HOLD_MS = 3000"
definition BOOTSTRAP_MAX_DONE :: nat where "BOOTSTRAP_MAX_DONE = 16"

text \<open>The class uuids tried in turn: Serial Port, Dial-Up Networking.  The browse root is the uuid of
  the first probe.\<close>

definition target_classes :: "u16 list" where "target_classes = [0x1101, 0x1103]"
definition BROWSE_ROOT :: u16 where "BROWSE_ROOT = 0x1002"

record 's boot_st = "'s dbg_st" +
  boot_state :: boot_state_t
  boot_addr :: bd_addr
  target_channel :: u8
  target_class_idx :: nat
  boot_cid :: u16
  boot_timer :: "nat option"   \<comment> \<open>armed for that many milliseconds\<close>
  done_addrs :: "bd_addr list" \<comment> \<open>the filled part of the array; its length is \<open>done_count\<close>\<close>

record boot_env =
  be_err :: u8          \<comment> \<open>what the query or channel call returned\<close>
  be_cid :: u16         \<comment> \<open>the cid a channel is given\<close>
  be_con :: "u16 option" \<comment> \<open>\<open>hci_connection_for_bd_addr_and_type\<close>\<close>

definition boot_timer_set :: "nat \<Rightarrow> ('s, 'z) boot_st_scheme \<Rightarrow> ('s, 'z) boot_st_scheme" where
  "boot_timer_set ms s = emit (BootTimerAdd ms) (s\<lparr>boot_timer := Some ms\<rparr>)"

definition boot_reset :: "boot_env \<Rightarrow> bool \<Rightarrow> ('s, 'z) boot_st_scheme \<Rightarrow> ('s, 'z) boot_st_scheme" where
  "boot_reset e drop_acl s =
     (let s = emit BootTimerRemove (s\<lparr>boot_timer := None\<rparr>);
          s = (if drop_acl then (case be_con e of None \<Rightarrow> s | Some h \<Rightarrow> emit (GapDisconnect h) s) else s)
      in s\<lparr>boot_state := BOOT_IDLE, target_channel := 0, target_class_idx := 0, boot_cid := 0\<rparr>)"

definition addr_already_done :: "('s, 'z) boot_st_scheme \<Rightarrow> bd_addr \<Rightarrow> bool" where
  "addr_already_done s addr \<longleftrightarrow> list_ex (\<lambda>a. a = addr) (done_addrs s)"

section \<open>The outgoing channel\<close>

datatype rf_event = RfOpened u8 u16 | RfClosed

definition boot_rfcomm_handler :: "boot_env \<Rightarrow> rf_event \<Rightarrow> ('s, 'z) boot_st_scheme \<Rightarrow> ('s, 'z) boot_st_scheme" where
  "boot_rfcomm_handler e ev s =
     (case ev of
        RfOpened status cid \<Rightarrow>
          if status \<noteq> 0 then boot_reset e True s
          else boot_timer_set BOOTSTRAP_HOLD_MS (s\<lparr>boot_cid := cid, boot_state := BOOT_HOLD\<rparr>)
      | RfClosed \<Rightarrow> boot_reset e True s)"

section \<open>SDP\<close>

text \<open>Starting a query; a query that does not start ends the attempt.\<close>

definition boot_query :: "boot_env \<Rightarrow> u16 \<Rightarrow> ('s, 'z) boot_st_scheme \<Rightarrow> ('s, 'z) boot_st_scheme" where
  "boot_query e uuid s =
     (let s = emit (SdpQuery (boot_addr s) uuid (be_err e)) s
      in if be_err e \<noteq> 0 then boot_reset e True s else s)"

datatype sdp_event = SdpService u8 | SdpComplete u8

definition boot_sdp_handler :: "boot_env \<Rightarrow> sdp_event \<Rightarrow> ('s, 'z) boot_st_scheme \<Rightarrow> ('s, 'z) boot_st_scheme" where
  "boot_sdp_handler e ev s =
     (case ev of
        SdpService ch \<Rightarrow>
          if boot_state s = BOOT_TARGET \<and> target_channel s = 0 \<and> ch \<noteq> 0 then s\<lparr>target_channel := ch\<rparr> else s
      | SdpComplete status \<Rightarrow>
          if boot_state s = BOOT_PROBE then
            if status \<noteq> 0 then boot_reset e True s
            else let s = s\<lparr>boot_state := BOOT_TARGET, target_class_idx := 0\<rparr>
                 in boot_query e (target_classes ! target_class_idx s) s
          else if target_channel s = 0 then
            let s = s\<lparr>target_class_idx := target_class_idx s + 1\<rparr>
            in if target_class_idx s < length target_classes
               then boot_query e (target_classes ! target_class_idx s) s
               else boot_reset e True s
          else
            let s = s\<lparr>boot_state := BOOT_CONNECT\<rparr>;
                s = emit (RfCreate (boot_addr s) (target_channel s) (be_err e)) s
            in if be_err e \<noteq> 0 then boot_reset e True s else s\<lparr>boot_cid := be_cid e\<rparr>)"

section \<open>The timer and the trigger\<close>

definition boot_timer_handler :: "boot_env \<Rightarrow> ('s, 'z) boot_st_scheme \<Rightarrow> ('s, 'z) boot_st_scheme" where
  "boot_timer_handler e s =
     (case boot_state s of
        BOOT_WAIT_START \<Rightarrow>
          if get_bt_connected s then boot_reset e False s
          else boot_query e BROWSE_ROOT (s\<lparr>boot_state := BOOT_PROBE\<rparr>)
      | BOOT_HOLD \<Rightarrow> emit (RfDisconnect (boot_cid s)) s
      | _ \<Rightarrow> s)"

definition bt_bootstrap_on_pairing_complete :: "bd_addr \<Rightarrow> ('s, 'z) boot_st_scheme \<Rightarrow> ('s, 'z) boot_st_scheme" where
  "bt_bootstrap_on_pairing_complete addr s =
     (if boot_state s \<noteq> BOOT_IDLE then s
      else if addr_already_done s addr then s
      else let s = (if length (done_addrs s) < BOOTSTRAP_MAX_DONE then s\<lparr>done_addrs := done_addrs s @ [addr]\<rparr> else s);
               s = s\<lparr>boot_addr := addr, boot_state := BOOT_WAIT_START\<rparr>
           in boot_timer_set BOOTSTRAP_START_DELAY_MS s)"

section \<open>Runs\<close>

text \<open>What the stack owes is read off the trace: queries and channels that were started without an
  error.  \<open>boot_answers\<close> counts the answers it has given.\<close>

record boot_answers =
  sdp_done :: nat
  rf_done :: nat
  rf_up :: nat
  rf_down :: nat

definition sdp_started :: "('s, 'z) boot_st_scheme \<Rightarrow> nat" where
  "sdp_started s = length (filter (\<lambda>c. case c of SdpQuery a u err \<Rightarrow> err = 0 | _ \<Rightarrow> False) (calls s))"

definition rf_started :: "('s, 'z) boot_st_scheme \<Rightarrow> nat" where
  "rf_started s = length (filter (\<lambda>c. case c of RfCreate a ch err \<Rightarrow> err = 0 | _ \<Rightarrow> False) (calls s))"

datatype boot_event = EvPaired bd_addr | EvTimer | EvService u8 | EvComplete u8 | EvOpened u8 u16 | EvClosed

inductive boot_step ::
  "boot_env \<Rightarrow> boot_event \<Rightarrow> ('s, 'z) boot_st_scheme \<times> boot_answers \<Rightarrow> ('s, 'z) boot_st_scheme \<times> boot_answers \<Rightarrow> bool"
  for e where
  bs_paired: "boot_step e (EvPaired addr) (s, g) (bt_bootstrap_on_pairing_complete addr s, g)"
| bs_timer: "boot_timer s = Some ms \<Longrightarrow> boot_step e EvTimer (s, g) (boot_timer_handler e (s\<lparr>boot_timer := None\<rparr>), g)"
| bs_service: "sdp_done g < sdp_started s \<Longrightarrow> boot_step e (EvService ch) (s, g) (boot_sdp_handler e (SdpService ch) s, g)"
| bs_complete: "sdp_done g < sdp_started s \<Longrightarrow>
    boot_step e (EvComplete st) (s, g) (boot_sdp_handler e (SdpComplete st) s, g\<lparr>sdp_done := sdp_done g + 1\<rparr>)"
| bs_opened: "rf_done g < rf_started s \<Longrightarrow>
    boot_step e (EvOpened st cid) (s, g) (boot_rfcomm_handler e (RfOpened st cid) s,
      g\<lparr>rf_done := rf_done g + 1, rf_up := rf_up g + (if st = 0 then 1 else 0)\<rparr>)"
| bs_closed: "rf_down g < rf_up g \<Longrightarrow>
    boot_step e EvClosed (s, g) (boot_rfcomm_handler e RfClosed s, g\<lparr>rf_down := rf_down g + 1\<rparr>)"

inductive_cases boot_stepE: "boot_step e ev sg sg'"

text \<open>Other modules act in between: they change their own part of the state, and add calls that are
  neither queries nor channels of this module.\<close>

definition boot_foreign :: "('s, 'z) boot_st_scheme \<Rightarrow> ('s, 'z) boot_st_scheme \<Rightarrow> bool" where
  "boot_foreign s t \<longleftrightarrow> boot_state t = boot_state s \<and> boot_addr t = boot_addr s \<and>
     target_channel t = target_channel s \<and> target_class_idx t = target_class_idx s \<and>
     boot_timer t = boot_timer s \<and> done_addrs t = done_addrs s \<and>
     sdp_started t = sdp_started s \<and> rf_started t = rf_started s"

inductive boot_run :: "('s, 'z) boot_st_scheme \<times> boot_answers \<Rightarrow> bool" where
  br_init: "boot_state s = BOOT_IDLE \<Longrightarrow> target_channel s = 0 \<Longrightarrow> target_class_idx s = 0 \<Longrightarrow> boot_timer s = None \<Longrightarrow>
    done_addrs s = [] \<Longrightarrow> calls s = [] \<Longrightarrow> boot_run (s, \<lparr>sdp_done = 0, rf_done = 0, rf_up = 0, rf_down = 0\<rparr>)"
| br_step: "boot_run (s, g) \<Longrightarrow> boot_step e ev (s, g) (t, h) \<Longrightarrow> boot_run (t, h)"
| br_other: "boot_run (s, g) \<Longrightarrow> boot_foreign s t \<Longrightarrow> boot_run (t, g)"

section \<open>The invariant\<close>

text \<open>What is outstanding in each state.\<close>

definition boot_ok :: "('s, 'z) boot_st_scheme \<times> boot_answers \<Rightarrow> bool" where
  "boot_ok sg = (case sg of (s, g) \<Rightarrow>
     sdp_started s = sdp_done g + (if boot_state s \<in> {BOOT_PROBE, BOOT_TARGET} then 1 else 0) \<and>
     rf_started s = rf_done g + (if boot_state s = BOOT_CONNECT then 1 else 0) \<and>
     rf_up g = rf_down g + (if boot_state s = BOOT_HOLD then 1 else 0) \<and>
     (boot_timer s \<noteq> None \<longrightarrow> boot_state s \<in> {BOOT_WAIT_START, BOOT_HOLD}) \<and>
     (boot_state s = BOOT_WAIT_START \<longrightarrow> boot_timer s \<noteq> None) \<and>
     (boot_state s \<in> {BOOT_IDLE, BOOT_WAIT_START, BOOT_PROBE} \<longrightarrow> target_channel s = 0 \<and> target_class_idx s = 0) \<and>
     target_class_idx s < length target_classes \<and> length (done_addrs s) \<le> BOOTSTRAP_MAX_DONE)"

lemma boot_emit [simp]:
  "boot_state (emit c s) = boot_state s" "boot_addr (emit c s) = boot_addr s"
  "target_channel (emit c s) = target_channel s" "target_class_idx (emit c s) = target_class_idx s"
  "boot_cid (emit c s) = boot_cid s" "boot_timer (emit c s) = boot_timer s" "done_addrs (emit c s) = done_addrs s"
  by (simp_all add: emit_def)

lemma started_emit [simp]:
  "sdp_started (emit c s) = sdp_started s + (case c of SdpQuery a u err \<Rightarrow> if err = 0 then 1 else 0 | _ \<Rightarrow> 0)"
  "rf_started (emit c s) = rf_started s + (case c of RfCreate a ch err \<Rightarrow> if err = 0 then 1 else 0 | _ \<Rightarrow> 0)"
  by (simp_all add: sdp_started_def rf_started_def split: dcall.split)

lemma started_upd [simp]:
  "sdp_started (s\<lparr>boot_state := b\<rparr>) = sdp_started s" "rf_started (s\<lparr>boot_state := b\<rparr>) = rf_started s"
  "sdp_started (s\<lparr>target_channel := c\<rparr>) = sdp_started s" "rf_started (s\<lparr>target_channel := c\<rparr>) = rf_started s"
  "sdp_started (s\<lparr>target_class_idx := i\<rparr>) = sdp_started s" "rf_started (s\<lparr>target_class_idx := i\<rparr>) = rf_started s"
  "sdp_started (s\<lparr>boot_cid := d\<rparr>) = sdp_started s" "rf_started (s\<lparr>boot_cid := d\<rparr>) = rf_started s"
  "sdp_started (s\<lparr>boot_timer := t\<rparr>) = sdp_started s" "rf_started (s\<lparr>boot_timer := t\<rparr>) = rf_started s"
  "sdp_started (s\<lparr>done_addrs := as\<rparr>) = sdp_started s" "rf_started (s\<lparr>done_addrs := as\<rparr>) = rf_started s"
  "sdp_started (s\<lparr>boot_addr := a\<rparr>) = sdp_started s" "rf_started (s\<lparr>boot_addr := a\<rparr>) = rf_started s"
  by (simp_all add: sdp_started_def rf_started_def)

lemma boot_reset_sel [simp]:
  "boot_state (boot_reset e d s) = BOOT_IDLE" "target_channel (boot_reset e d s) = 0"
  "target_class_idx (boot_reset e d s) = 0" "boot_timer (boot_reset e d s) = None"
  "done_addrs (boot_reset e d s) = done_addrs s"
  "sdp_started (boot_reset e d s) = sdp_started s" "rf_started (boot_reset e d s) = rf_started s"
  "boot_addr (boot_reset e d s) = boot_addr s"
  by (simp_all add: boot_reset_def Let_def split: option.split)

lemma boot_query_sel [simp]:
  "boot_state (boot_query e u s) = (if be_err e \<noteq> 0 then BOOT_IDLE else boot_state s)"
  "target_channel (boot_query e u s) = (if be_err e \<noteq> 0 then 0 else target_channel s)"
  "target_class_idx (boot_query e u s) = (if be_err e \<noteq> 0 then 0 else target_class_idx s)"
  "boot_timer (boot_query e u s) = (if be_err e \<noteq> 0 then None else boot_timer s)"
  "done_addrs (boot_query e u s) = done_addrs s"
  "sdp_started (boot_query e u s) = sdp_started s + (if be_err e \<noteq> 0 then 0 else 1)"
  "rf_started (boot_query e u s) = rf_started s"
  by (simp_all add: boot_query_def Let_def)

lemma boot_step_ok: "boot_step e ev sg sg' \<Longrightarrow> boot_ok sg \<Longrightarrow> boot_ok sg'"
proof (induction rule: boot_step.induct)
  case (bs_paired addr s g)
  then show ?case
    by (auto simp: bt_bootstrap_on_pairing_complete_def boot_timer_set_def Let_def boot_ok_def target_classes_def)
next
  case (bs_timer s ms g)
  then show ?case
    by (cases "boot_state s") (auto simp: boot_timer_handler_def boot_ok_def target_classes_def)
next
  case (bs_service g s ch)
  then show ?case by (auto simp: boot_sdp_handler_def boot_ok_def)
next
  case (bs_complete g s st)
  then show ?case
    by (cases "boot_state s") (auto simp: boot_sdp_handler_def boot_ok_def Let_def target_classes_def)
next
  case (bs_opened g s st cid)
  then show ?case
    by (cases "boot_state s") (auto simp: boot_rfcomm_handler_def boot_timer_set_def boot_ok_def target_classes_def)
next
  case (bs_closed g s)
  then show ?case
    by (cases "boot_state s") (auto simp: boot_rfcomm_handler_def boot_ok_def target_classes_def)
qed

lemma boot_run_ok: "boot_run sg \<Longrightarrow> boot_ok sg"
proof (induction rule: boot_run.induct)
  case (br_init s)
  then show ?case by (simp add: boot_ok_def sdp_started_def rf_started_def target_classes_def)
next
  case (br_step s g e ev t h)
  then show ?case using boot_step_ok by blast
next
  case (br_other s g t)
  then show ?case by (auto simp: boot_ok_def boot_foreign_def)
qed

section \<open>Properties\<close>

text \<open>How far an attempt is from its end.\<close>

definition boot_rank :: "('s, 'z) boot_st_scheme \<Rightarrow> nat" where
  "boot_rank s = (case boot_state s of
      BOOT_IDLE \<Rightarrow> 0
    | BOOT_WAIT_START \<Rightarrow> 8
    | BOOT_PROBE \<Rightarrow> 7
    | BOOT_TARGET \<Rightarrow> 5 - target_class_idx s
    | BOOT_CONNECT \<Rightarrow> 3
    | BOOT_HOLD \<Rightarrow> (if boot_timer s = None then 1 else 2))"

text \<open>C34: The bootstrap always comes to an end.  In every run, each event the stack or the timer delivers
  takes the attempt strictly closer to idle, and as long as it is not idle something is outstanding
  that will deliver one: the start timer, an SDP answer, the channel, or its closing.  The table of
  service classes is never read past its end, and the timer is only armed when it is not armed.\<close>

theorem bootstrap_ends:
  fixes s t :: "('i, 'z) boot_st_scheme"
  assumes run: "boot_run (s, g)"
  shows "(boot_step e ev (s, g) (t, h) \<longrightarrow> ev \<in> {EvTimer, EvComplete st, EvOpened st cid, EvClosed} \<longrightarrow> boot_rank t < boot_rank s) \<and>
     (boot_state s = BOOT_IDLE \<or> boot_timer s \<noteq> None \<or> sdp_done g < sdp_started s \<or>
       rf_done g < rf_started s \<or> rf_down g < rf_up g) \<and>
     (target_class_idx s < length target_classes) \<and>
     (boot_step e ev (s, g) (t, h) \<longrightarrow> BootTimerAdd ms \<in> set (drop (length (calls s)) (calls t)) \<longrightarrow> boot_timer s = None)"
proof (rule conjI4; (intro impI)?)
  have ok: "boot_ok (s, g)" by (rule boot_run_ok [OF run])
  then show "boot_state s = BOOT_IDLE \<or> boot_timer s \<noteq> None \<or> sdp_done g < sdp_started s \<or>
      rf_done g < rf_started s \<or> rf_down g < rf_up g"
    and "target_class_idx s < length target_classes"
    by (cases "boot_state s"; auto simp: boot_ok_def)+
  show "boot_rank t < boot_rank s"
    if st: "boot_step e ev (s, g) (t, h)" and ev: "ev \<in> {EvTimer, EvComplete st, EvOpened st cid, EvClosed}"
    using st
  proof (cases rule: boot_step.cases)
    case (bs_timer ms)
    then show ?thesis using ok
      by (cases "boot_state s") (auto simp: boot_timer_handler_def boot_rank_def boot_ok_def)
  next
    case (bs_complete st)
    then show ?thesis using ok
      by (cases "boot_state s")
        (auto simp: boot_sdp_handler_def boot_rank_def boot_ok_def Let_def target_classes_def)
  next
    case (bs_opened st cid)
    then show ?thesis using ok
      by (cases "boot_state s") (auto simp: boot_rfcomm_handler_def boot_timer_set_def boot_rank_def boot_ok_def)
  next
    case bs_closed
    then show ?thesis using ok
      by (cases "boot_state s") (auto simp: boot_rfcomm_handler_def boot_rank_def boot_ok_def)
  qed (use ev in auto)
  have no_add: "BootTimerAdd ms \<notin> set (drop (length (calls u)) (calls (boot_reset e d u)))"
    "BootTimerAdd ms \<notin> set (drop (length (calls u)) (calls (boot_query e q u)))" for u :: "('i, 'z) boot_st_scheme" and d q
    by (auto simp: boot_query_def boot_reset_def Let_def split: option.splits)
  show "boot_timer s = None"
    if st: "boot_step e ev (s, g) (t, h)" and add: "BootTimerAdd ms \<in> set (drop (length (calls s)) (calls t))"
    using st
  proof (cases rule: boot_step.cases)
    case (bs_paired addr)
    then show ?thesis using ok add
      by (auto simp: bt_bootstrap_on_pairing_complete_def boot_ok_def split: if_splits)
  next
    case (bs_timer m)
    then show ?thesis using add no_add [of "s\<lparr>boot_timer := None\<rparr>"] no_add [of "s\<lparr>boot_timer := None, boot_state := BOOT_PROBE\<rparr>"]
      by (auto simp: boot_timer_handler_def split: boot_state_t.splits if_splits)
  next
    case (bs_service ch)
    then show ?thesis using add by (auto simp: boot_sdp_handler_def split: if_splits)
  next
    case (bs_complete st)
    then show ?thesis using ok by (cases "boot_state s") (auto simp: boot_ok_def)
  next
    case (bs_opened st cid)
    then show ?thesis using ok by (cases "boot_state s") (auto simp: boot_ok_def)
  next
    case bs_closed
    then show ?thesis using add no_add(1) [of s True] by (auto simp: boot_rfcomm_handler_def)
  qed
qed

text \<open>The state at boot.\<close>

definition boot_boot :: "('i, wifi_list_t) nvs_dev \<Rightarrow> 'i boot_st" where
  "boot_boot d = dbg_st.extend (dbg_boot d) (boot_st.fields BOOT_IDLE [] 0 0 0 None [])"

lemma boot_boot_sel [simp]:
  "boot_state (boot_boot d) = BOOT_IDLE" "target_channel (boot_boot d) = 0" "target_class_idx (boot_boot d) = 0"
  "boot_timer (boot_boot d) = None" "done_addrs (boot_boot d) = []" "calls (boot_boot d) = []" "tasks (boot_boot d) = []"
  "bt_connected (boot_boot d) = False" "wifi_dev (boot_boot d) = d"
  by (simp_all add: boot_boot_def dbg_boot_def name_boot_def wifi_st.defs name_st.defs dbg_st.defs boot_st.defs wifi_boot_def)

theorem bootstrap_ends_witness:
  "boot_rank (boot_timer_handler \<lparr>be_err = 0, be_cid = 0, be_con = None\<rparr>
      ((bt_bootstrap_on_pairing_complete [1, 2, 3, 4, 5, 6] (boot_boot map_dev))\<lparr>boot_timer := None\<rparr>)) < 8"
proof -
  let ?e = "\<lparr>be_err = 0, be_cid = 0, be_con = None\<rparr>" and ?g = "\<lparr>sdp_done = 0, rf_done = 0, rf_up = 0, rf_down = 0\<rparr>"
  let ?s = "bt_bootstrap_on_pairing_complete [1, 2, 3, 4, 5, 6] (boot_boot map_dev) :: (string \<rightharpoonup> wifi_list_t nvs_val) boot_st"
  have s: "boot_timer ?s = Some 1500" "boot_rank ?s = 8"
    by (simp_all add: bt_bootstrap_on_pairing_complete_def addr_already_done_def boot_timer_set_def Let_def
        BOOTSTRAP_MAX_DONE_def BOOTSTRAP_START_DELAY_MS_def boot_rank_def)
  have "boot_run (boot_boot map_dev :: (string \<rightharpoonup> wifi_list_t nvs_val) boot_st, ?g)" by (rule br_init) simp_all
  then have "boot_run (?s, ?g)" by (rule br_step [OF _ bs_paired])
  moreover have "boot_step ?e EvTimer (?s, ?g) (boot_timer_handler ?e (?s\<lparr>boot_timer := None\<rparr>), ?g)"
    by (rule bs_timer [OF s(1)])
  ultimately show ?thesis using bootstrap_ends [THEN conjunct1, THEN mp, THEN mp] s(2) by fastforce
qed

text \<open>The bootstrap is one-shot and leaves no link behind.  An address that was attempted is not
  attempted again (as long as the table of attempted addresses has room when it pairs), and whenever
  an event takes an attempt back to idle, the baseband link that exists to the phone is dropped,
  unless the phone's own session is live.\<close>

theorem bootstrap_one_shot:
  fixes s t :: "('i, 'z) boot_st_scheme"
  shows "(addr \<in> set (done_addrs s) \<longrightarrow> bt_bootstrap_on_pairing_complete addr s = s) \<and>
     (boot_state s = BOOT_IDLE \<longrightarrow> length (done_addrs s) < BOOTSTRAP_MAX_DONE \<longrightarrow> addr \<in> set (done_addrs (bt_bootstrap_on_pairing_complete addr s))) \<and>
     (boot_step e ev (s, g) (t, h) \<longrightarrow> set (done_addrs s) \<subseteq> set (done_addrs t)) \<and>
     (boot_step e ev (s, g) (t, h) \<longrightarrow> boot_state s \<noteq> BOOT_IDLE \<longrightarrow> boot_state t = BOOT_IDLE \<longrightarrow> be_con e = Some c \<longrightarrow> last (calls t) = GapDisconnect c \<or> (ev = EvTimer \<and> bt_connected s))"
proof (rule conjI4; (intro impI)?)
  show "bt_bootstrap_on_pairing_complete addr s = s" if "addr \<in> set (done_addrs s)"
    using that by (auto simp: bt_bootstrap_on_pairing_complete_def addr_already_done_def list_ex_iff)
  show "addr \<in> set (done_addrs (bt_bootstrap_on_pairing_complete addr s))"
    if "boot_state s = BOOT_IDLE" "length (done_addrs s) < BOOTSTRAP_MAX_DONE"
    using that by (auto simp: bt_bootstrap_on_pairing_complete_def addr_already_done_def list_ex_iff
        boot_timer_set_def Let_def)
  have res: "last (calls (boot_reset e True u)) = GapDisconnect c" if "be_con e = Some c" for u :: "('i, 'z) boot_st_scheme"
    using that by (simp add: boot_reset_def Let_def)
  have qry: "boot_state u = BOOT_IDLE \<or> (be_err e \<noteq> 0 \<and> (be_con e = Some c \<longrightarrow> last (calls (boot_query e q u)) = GapDisconnect c))"
    if "boot_state (boot_query e q u) = BOOT_IDLE" for u :: "('i, 'z) boot_st_scheme" and q
    using that by (auto simp: boot_query_def Let_def res split: if_splits)
  show "set (done_addrs s) \<subseteq> set (done_addrs t)" if "boot_step e ev (s, g) (t, h)"
    using that
    by (cases rule: boot_step.cases)
      (auto simp: bt_bootstrap_on_pairing_complete_def boot_timer_set_def Let_def boot_timer_handler_def
        boot_sdp_handler_def boot_rfcomm_handler_def split: boot_state_t.splits if_splits)
  show "last (calls t) = GapDisconnect c \<or> (ev = EvTimer \<and> bt_connected s)"
    if st: "boot_step e ev (s, g) (t, h)" and i: "boot_state s \<noteq> BOOT_IDLE" "boot_state t = BOOT_IDLE" and c: "be_con e = Some c"
    using st
  proof (cases rule: boot_step.cases)
    case (bs_paired addr)
    then show ?thesis using i by (simp add: bt_bootstrap_on_pairing_complete_def)
  next
    case (bs_timer m)
    then show ?thesis using i c qry [of BROWSE_ROOT "s\<lparr>boot_timer := None, boot_state := BOOT_PROBE\<rparr>"]
      by (auto simp: boot_timer_handler_def get_bt_connected_def split: boot_state_t.splits if_splits)
  next
    case (bs_service ch)
    then show ?thesis using i by (simp add: boot_sdp_handler_def split: if_splits)
  next
    case (bs_complete st)
    then show ?thesis using i c qry [of _ "s\<lparr>boot_state := BOOT_TARGET, target_class_idx := 0\<rparr>"]
        qry [of _ "s\<lparr>target_class_idx := Suc (target_class_idx s)\<rparr>"]
      by (auto simp: boot_sdp_handler_def Let_def res split: if_splits)
  next
    case (bs_opened st cid)
    then show ?thesis using i c by (auto simp: boot_rfcomm_handler_def boot_timer_set_def res split: if_splits)
  next
    case bs_closed
    then show ?thesis using c by (simp add: boot_rfcomm_handler_def res)
  qed
qed

theorem bootstrap_one_shot_witness:
  "done_addrs (bt_bootstrap_on_pairing_complete [1, 2, 3, 4, 5, 6] (boot_boot map_dev)) = [[1, 2, 3, 4, 5, 6]] \<and>
   bt_bootstrap_on_pairing_complete [1, 2, 3, 4, 5, 6]
     ((boot_boot map_dev)\<lparr>done_addrs := [[1, 2, 3, 4, 5, 6]]\<rparr>) = (boot_boot map_dev)\<lparr>done_addrs := [[1, 2, 3, 4, 5, 6]]\<rparr>"
  using bootstrap_one_shot [where addr = "[1, 2, 3, 4, 5, 6]" and s = "(boot_boot map_dev)\<lparr>done_addrs := [[1, 2, 3, 4, 5, 6]]\<rparr>", THEN conjunct1]
  by (simp add: bt_bootstrap_on_pairing_complete_def addr_already_done_def boot_timer_set_def Let_def BOOTSTRAP_MAX_DONE_def)

end
