(* ===== verification/Gateway.thy ===== *)
theory Gateway
  imports BtBootstrap DnsFwd
begin

text \<open>
  The application state machine of \<open>main/gateway.c\<close>: the hooks the serial link calls when a
  phone comes and goes, the guarded kick of the WiFi cycle, the timer that makes the bridge visible
  again, the HCI events it reacts to, and one pass of the watchdog.  Log lines are not modelled.
\<close>

definition HCI_CON_HANDLE_INVALID :: u16 where "HCI_CON_HANDLE_INVALID = 0xffff"
definition BT_REOPEN_DELAY_MS :: nat where "BT_REOPEN_DELAY_MS = 1200"
definition HEAP_WARN_THRESHOLD :: nat where "HEAP_WARN_THRESHOLD = 24576"
definition HEAP_REBOOT_THRESHOLD :: nat where "HEAP_REBOOT_THRESHOLD = 8192"
definition BT_LEGACY_PIN :: string where "BT_LEGACY_PIN = ''0000''"

record 's gw_st = "'s boot_st" +
  bt_rssi :: int
  bt_handle :: u16
  wifi_kick_running :: bool
  bt_reopen_timer :: bool  \<comment> \<open>armed\<close>

section \<open>Helpers\<close>

text \<open>The clock and the boot time are in microseconds.\<close>

definition uptime_seconds :: "64 word \<Rightarrow> 64 word \<Rightarrow> u32" where
  "uptime_seconds now boot_us = ucast ((now - boot_us) div 1000000)"

definition get_bt_rssi :: "('s, 'z) gw_st_scheme \<Rightarrow> int" where
  "get_bt_rssi s = bt_rssi s"

definition bt_rssi_str :: "('s, 'z) gw_st_scheme \<Rightarrow> nat \<Rightarrow> string" where
  "bt_rssi_str s n = snprint n (dec_int (get_bt_rssi s))"

definition get_bt_handle :: "('s, 'z) gw_st_scheme \<Rightarrow> u16" where
  "get_bt_handle s = bt_handle s"

definition bt_set_visible :: "bool \<Rightarrow> ('s, 'z) gw_st_scheme \<Rightarrow> ('s, 'z) gw_st_scheme" where
  "bt_set_visible v s = emit (GapConnectable v) (emit (GapDiscoverable v) s)"

text \<open>The timer's handler; the run loop has taken the timer off its list.\<close>

definition bt_reopen_timer_handler :: "('s, 'z) gw_st_scheme \<Rightarrow> ('s, 'z) gw_st_scheme" where
  "bt_reopen_timer_handler s = (if \<not> get_bt_connected s then bt_set_visible True s else s)"

section \<open>Hooks of the serial link\<close>

definition gw_on_rfcomm_opened :: "u16 \<Rightarrow> ('s, 'z) gw_st_scheme \<Rightarrow> ('s, 'z) gw_st_scheme" where
  "gw_on_rfcomm_opened con_handle s = bt_set_visible False (s\<lparr>bt_connected := True, bt_handle := con_handle\<rparr>)"

definition gw_on_rfcomm_closed :: "('s, 'z) gw_st_scheme \<Rightarrow> ('s, 'z) gw_st_scheme" where
  "gw_on_rfcomm_closed s =
     (let s = s\<lparr>bt_connected := False, bt_handle := HCI_CON_HANDLE_INVALID, bt_rssi := -100\<rparr>;
          s = set_app_state APP_WAIT_BT s;
          s = update_nat s;
          s = emit ReopenTimerRemove (s\<lparr>bt_reopen_timer := False\<rparr>)
      in emit (ReopenTimerAdd BT_REOPEN_DELAY_MS) (s\<lparr>bt_reopen_timer := True\<rparr>))"

definition wifi_kick_task :: "wifi_env \<Rightarrow> ('s, 'z) gw_st_scheme \<Rightarrow> ('s, 'z) gw_st_scheme" where
  "wifi_kick_task e s =
     (let s = s\<lparr>wifi_kick_running := False\<rparr> in
      if ppp_link_up s \<and> \<not> get_wifi_connected s \<and> wifi_list_count s > 0 then wifi_connect_begin e s else s)"

definition gw_wifi_kick_deferred :: "bool \<Rightarrow> ('s, 'z) gw_st_scheme \<Rightarrow> ('s, 'z) gw_st_scheme" where
  "gw_wifi_kick_deferred created s =
     (if wifi_kick_running s then s
      else gw_safe_task_create created WifiKick (s\<lparr>wifi_kick_running := True\<rparr>))"

definition gw_on_ppp_up :: "bool \<Rightarrow> ('s, 'z) gw_st_scheme \<Rightarrow> ('s, 'z) gw_st_scheme" where
  "gw_on_ppp_up created s =
     (if get_wifi_connected s then set_app_state APP_BRIDGE s
      else if wifi_list_count s = 0 then set_app_state APP_NO_WIFI s
      else gw_wifi_kick_deferred created s)"

definition gw_on_ppp_down :: "('s, 'z) gw_st_scheme \<Rightarrow> ('s, 'z) gw_st_scheme" where
  "gw_on_ppp_down s =
     (if app_state s = APP_BRIDGE \<or> app_state s = APP_BRIDGE_NO_WIFI then set_app_state APP_WAIT_BT s else s)"

section \<open>HCI events\<close>

text \<open>The events the handler acts on; the ones it only logs are \<open>HciLogged\<close>.\<close>

datatype hci_event =
    HciState bool               \<comment> \<open>true for \<open>HCI_STATE_WORKING\<close>\<close>
  | HciRssi u16 int
  | HciPinRequest bd_addr
  | HciUserConfirm bd_addr
  | HciPaired u8 bd_addr
  | HciLogged u8

definition hci_packet_handler :: "bd_addr \<Rightarrow> hci_event \<Rightarrow> ('s, 'z) gw_st_scheme \<Rightarrow> ('s, 'z) gw_st_scheme" where
  "hci_packet_handler local ev s =
     (case ev of
        HciState working \<Rightarrow> if working then bt_name_apply_from_addr local s else s
      | HciRssi h r \<Rightarrow> if h = get_bt_handle s then s\<lparr>bt_rssi := r\<rparr> else s
      | HciPinRequest addr \<Rightarrow> emit (PinReply addr BT_LEGACY_PIN) s
      | HciUserConfirm addr \<Rightarrow> emit (ConfirmReply addr) s
      | HciPaired status addr \<Rightarrow> if status = 0 then bt_bootstrap_on_pairing_complete addr s else s
      | HciLogged code \<Rightarrow> s)"

section \<open>Watchdog\<close>

definition rssi_poll_cb :: "('s, 'z) gw_st_scheme \<Rightarrow> ('s, 'z) gw_st_scheme" where
  "rssi_poll_cb s =
     (let h = get_bt_handle s in if h \<noteq> HCI_CON_HANDLE_INVALID then emit (GapReadRssi h) s else s)"

record wd_env =
  wd_free :: nat        \<comment> \<open>\<open>heap_caps_get_free_size\<close>\<close>
  wd_created :: bool    \<comment> \<open>the recovery task could be created\<close>
  wd_now :: u32
  wd_now2 :: u32        \<comment> \<open>after the wait for the old DNS task\<close>
  wd_dns :: bool        \<comment> \<open>the DNS task could be created\<close>

text \<open>One heartbeat.  \<open>during\<close> is what the old DNS task does while it is told to stop.\<close>

definition watchdog_pass ::
  "wd_env \<Rightarrow> (dns_state \<Rightarrow> dns_state) \<Rightarrow> ('s, 'z) gw_st_scheme \<times> dns_state \<Rightarrow> ('s, 'z) gw_st_scheme \<times> dns_state" where
  "watchdog_pass e during sd =
     (let (s, d) = sd;
          s = spawn RssiPoll s;
          s = wifi_watchdog_check (wd_created e) s;
          d = snd (dns_fwd_watchdog_check (wd_now e) (wd_now2 e) (wd_dns e) during d);
          s = (if wd_free e < HEAP_REBOOT_THRESHOLD then emit Restart s else s)
      in (s, d))"

section \<open>Facts\<close>

text \<open>The hooks leave the WiFi state alone.\<close>

lemma wifi_ok_gw_upd [simp]:
  "wifi_okr r (s\<lparr>bt_connected := b\<rparr>) = wifi_okr r s" "wifi_okr r (s\<lparr>bt_handle := h\<rparr>) = wifi_okr r s"
  "wifi_okr r (s\<lparr>bt_rssi := v\<rparr>) = wifi_okr r s" "wifi_okr r (s\<lparr>wifi_kick_running := k\<rparr>) = wifi_okr r s"
  "wifi_okr r (s\<lparr>bt_reopen_timer := t\<rparr>) = wifi_okr r s" "wifi_okr r (s\<lparr>ppp_up_flag := p\<rparr>) = wifi_okr r s"
  by (simp_all add: wifi_ok_defs queued_of_def)

lemma foreign_tasks [simp]: "foreign WifiKick" "foreign RssiPoll" "foreign NatUpdate" "foreign TxNotify"
  by (simp_all add: foreign_def)

lemma bt_set_visible_ok [simp]: "wifi_okr r (bt_set_visible v s) = wifi_okr r s"
  by (simp add: bt_set_visible_def)

lemma gw_hooks_ok:
  assumes "wifi_ok s"
  shows "wifi_ok (gw_on_rfcomm_opened h s)" and "wifi_ok (gw_on_rfcomm_closed s)"
    and "wifi_ok (gw_wifi_kick_deferred created s)" and "wifi_ok (gw_on_ppp_up created s)"
    and "wifi_ok (gw_on_ppp_down s)" and "wifi_ok (bt_reopen_timer_handler s)"
    and "wifi_ok (wifi_kick_task e s)"
proof -
  show k: "wifi_ok (gw_wifi_kick_deferred created s)"
    using assms by (simp add: gw_wifi_kick_deferred_def gw_safe_task_create_def)
  show "wifi_ok (gw_on_rfcomm_opened h s)" "wifi_ok (gw_on_rfcomm_closed s)" "wifi_ok (gw_on_ppp_down s)"
    "wifi_ok (bt_reopen_timer_handler s)" "wifi_ok (wifi_kick_task e s)"
    using assms by (simp_all add: gw_on_rfcomm_opened_def gw_on_rfcomm_closed_def gw_on_ppp_down_def
        bt_reopen_timer_handler_def wifi_kick_task_def Let_def connect_begin_ok)
  show "wifi_ok (gw_on_ppp_up created s)" using assms k by (simp add: gw_on_ppp_up_def)
qed

abbreviation is_kick :: "task \<Rightarrow> bool" where
  "is_kick t \<equiv> t = WifiKick"

definition kick_fire :: "('s, 'z) gw_st_scheme \<Rightarrow> ('s, 'z) gw_st_scheme" where
  "kick_fire s = (unqueue is_kick s)\<lparr>wifi_kick_running := False\<rparr>"

lemma kick_running_sel [simp]:
  "wifi_kick_running (spawn t s) = wifi_kick_running s" "wifi_kick_running (emit c s) = wifi_kick_running s"
  "wifi_kick_running (unqueue p s) = wifi_kick_running s"
  by (simp_all add: spawn_def emit_def unqueue_def)

interpretation wkick: one_shot wifi_kick_running "queued_of is_kick" "gw_wifi_kick_deferred True" kick_fire
proof unfold_locales
  fix s :: "('i, 'z) gw_st_scheme" and k
  show "wifi_kick_running s \<Longrightarrow> wifi_kick_running (gw_wifi_kick_deferred True s) \<and>
      queued_of is_kick (gw_wifi_kick_deferred True s) = queued_of is_kick s"
    by (simp add: gw_wifi_kick_deferred_def)
  show "\<not> wifi_kick_running s \<Longrightarrow>
      (wifi_kick_running (gw_wifi_kick_deferred True s) \<and> queued_of is_kick (gw_wifi_kick_deferred True s) = Suc (queued_of is_kick s)) \<or>
      (\<not> wifi_kick_running (gw_wifi_kick_deferred True s) \<and> queued_of is_kick (gw_wifi_kick_deferred True s) = queued_of is_kick s)"
    by (simp add: gw_wifi_kick_deferred_def gw_safe_task_create_def queued_of_def)
  show "queued_of is_kick s = Suc k \<Longrightarrow> \<not> wifi_kick_running (kick_fire s) \<and> queued_of is_kick (kick_fire s) = k"
    using queued_of_unqueue [of is_kick s] by (simp add: kick_fire_def queued_of_def)
qed

text \<open>The RSSI poll has no such guard: two heartbeats without a turn of the run loop in between register
  the same callback twice.\<close>

lemma wifi_watchdog_poll: "queued_of (\<lambda>t. t = RssiPoll) (wifi_watchdog_check c s) = queued_of (\<lambda>t. t = RssiPoll) s"
  by (auto simp: wifi_watchdog_check_def wifi_recover_def gw_safe_task_create_def Let_def queued_of_def)

lemma watchdog_pass_poll:
  "queued_of (\<lambda>t. t = RssiPoll) (fst (watchdog_pass e f sd)) = Suc (queued_of (\<lambda>t. t = RssiPoll) (fst sd))"
  by (cases sd) (simp add: watchdog_pass_def Let_def wifi_watchdog_poll)

lemma rssi_poll_unguarded:
  "queued_of (\<lambda>t. t = RssiPoll) (fst (watchdog_pass e f (watchdog_pass e f sd))) = queued_of (\<lambda>t. t = RssiPoll) (fst sd) + 2"
  by (simp add: watchdog_pass_poll)

end
