(* ===== verification/PppLink.thy ===== *)
theory PppLink
  imports Gateway
begin

text \<open>
  The serial link of \<open>main/ppp_link.c\<close>: RFCOMM sessions handed to lwIP's PPP, the handshake
  some phones speak before PPP, the transmit path through a stream buffer, and the security
  decision of the automatic mode.  RFCOMM, GAP and lwIP are not part of the repository: calls into
  them are entries of the trace, their results are arguments.
\<close>

definition LAP_RFCOMM_CHANNEL :: nat where "LAP_RFCOMM_CHANNEL = 3"
definition SPP_RFCOMM_CHANNEL :: nat where "SPP_RFCOMM_CHANNEL = 4"
definition PPP_TX_BUF_SIZE :: nat where "PPP_TX_BUF_SIZE = 8192"
definition PPP_TX_CHUNK_MAX :: nat where "PPP_TX_CHUNK_MAX = 1024"

lemmas ppp_consts = LAP_RFCOMM_CHANNEL_def SPP_RFCOMM_CHANNEL_def PPP_TX_BUF_SIZE_def PPP_TX_CHUNK_MAX_def

datatype btsec_mode_t = BTSEC_OFF | BTSEC_ON | BTSEC_AUTO

text \<open>The numbers of the enumeration.\<close>

primrec btsec_code :: "btsec_mode_t \<Rightarrow> u8" where
  "btsec_code BTSEC_OFF = 0"
| "btsec_code BTSEC_ON = 1"
| "btsec_code BTSEC_AUTO = 2"

record 's ppp_st = "'s gw_st" +
  link_mode :: btsec_mode_t
  tx_stream :: "u8 list"
  tx_notify_pending :: bool
  tx_dropped :: u32
  active_cid :: u16
  session_active :: bool
  ppp_teardown :: bool
  ppp_pcb :: bool                \<comment> \<open>\<open>ppp != NULL\<close>\<close>
  ppp_frame_seen :: bool
  pre_ppp_reply :: "string option"
  auto_cid :: u16
  auto_handle :: u16
  auto_addr :: bd_addr
  auto_sec_pending :: bool
  last_phone_name :: string
  last_phone_secured :: bool
  last_phone_valid :: bool
  napt_on :: bool

record ppp_env =
  pe_name_req :: u8       \<comment> \<open>\<open>gap_remote_name_request\<close>, 0 for success\<close>
  pe_create :: bool       \<comment> \<open>\<open>pppapi_pppos_create\<close> returned a pcb\<close>
  pe_listen :: bool       \<comment> \<open>\<open>pppapi_listen\<close> returned \<open>ERR_OK\<close>\<close>
  pe_close :: int         \<comment> \<open>the code the status callback gets from \<open>pppapi_close\<close>\<close>
  pe_task :: bool         \<comment> \<open>the WiFi kick task could be created\<close>
  pe_send :: u8           \<comment> \<open>\<open>rfcomm_send\<close>, 0 for success\<close>
  pe_mfs :: nat           \<comment> \<open>\<open>rfcomm_get_max_frame_size\<close>\<close>

section \<open>The stored security mode\<close>

definition secure_key :: string where "secure_key = ''btsec''"

definition nvs_secure_load :: "('i, 'b) nvs_dev \<Rightarrow> btsec_mode_t" where
  "nvs_secure_load d =
     (if nvs_open d False \<noteq> ESP_OK then BTSEC_AUTO
      else let v = (case nvs_get_u8 d secure_key of None \<Rightarrow> btsec_code BTSEC_AUTO | Some v \<Rightarrow> v)
           in if v = btsec_code BTSEC_OFF then BTSEC_OFF
              else if v = btsec_code BTSEC_ON then BTSEC_ON else BTSEC_AUTO)"

definition nvs_secure_save :: "btsec_mode_t \<Rightarrow> ('i, 'b) nvs_dev \<Rightarrow> ('i, 'b) nvs_dev" where
  "nvs_secure_save mode d =
     (if nvs_open d True \<noteq> ESP_OK then d
      else let d1 = snd (if mode = BTSEC_AUTO then nvs_erase_key d secure_key
                         else nvs_set_u8 d secure_key (btsec_code mode))
           in snd (nvs_commit d1))"

definition ppp_link_secure_get :: "('s, 'z) ppp_st_scheme \<Rightarrow> btsec_mode_t" where
  "ppp_link_secure_get s = link_mode s"

definition ppp_link_secure_saved :: "('s, 'z) ppp_st_scheme \<Rightarrow> btsec_mode_t" where
  "ppp_link_secure_saved s = nvs_secure_load (wifi_dev s)"

definition ppp_link_secure_save :: "btsec_mode_t \<Rightarrow> ('s, 'z) ppp_st_scheme \<Rightarrow> ('s, 'z) ppp_st_scheme" where
  "ppp_link_secure_save mode s = s\<lparr>wifi_dev := nvs_secure_save mode (wifi_dev s)\<rparr>"

definition btsec_mode_str :: "btsec_mode_t \<Rightarrow> string" where
  "btsec_mode_str mode = (case mode of BTSEC_OFF \<Rightarrow> ''off'' | BTSEC_ON \<Rightarrow> ''on'' | BTSEC_AUTO \<Rightarrow> ''auto'')"

section \<open>Automatic security\<close>

definition nosec_names :: "string list" where
  "nosec_names = [''N-Gage'', ''NGage'', ''3650'', ''3600'', ''3660'', ''3620'', ''7650'',
     ''9210'', ''9290'', ''9300'', ''9500'']"

definition ppp_link_last_phone :: "('s, 'z) ppp_st_scheme \<Rightarrow> nat \<Rightarrow> (string \<times> bool) option" where
  "ppp_link_last_phone s name_len =
     (if last_phone_valid s then Some (strlcpy (last_phone_name s) name_len, last_phone_secured s) else None)"

fun contains_nocase :: "string \<Rightarrow> string \<Rightarrow> bool" where
  "contains_nocase [] needle = False"
| "contains_nocase (c # hay) needle = (if starts_nocase (c # hay) needle then True else contains_nocase hay needle)"

definition is_nosec_name :: "string \<Rightarrow> bool" where
  "is_nosec_name name = list_ex (contains_nocase name) nosec_names"

definition auto_release :: "('s, 'z) ppp_st_scheme \<Rightarrow> ('s, 'z) ppp_st_scheme" where
  "auto_release s = s\<lparr>auto_cid := 0, auto_sec_pending := False\<rparr>"

definition auto_fail :: "('s, 'z) ppp_st_scheme \<Rightarrow> ('s, 'z) ppp_st_scheme" where
  "auto_fail s =
     (let cid = auto_cid s;
          s = emit (RfDecline cid) (auto_release s)
      in if active_cid s = cid then s\<lparr>session_active := False, active_cid := 0\<rparr> else s)"

definition auto_decide :: "string option \<Rightarrow> ('s, 'z) ppp_st_scheme \<Rightarrow> ('s, 'z) ppp_st_scheme" where
  "auto_decide name s =
     (let secure = (case name of None \<Rightarrow> True | Some n \<Rightarrow> \<not> is_nosec_name n);
          s = s\<lparr>last_phone_name := strlcpy (case name of None \<Rightarrow> [] | Some n \<Rightarrow> n) BT_NAME_MAX,
                last_phone_secured := secure, last_phone_valid := True\<rparr>
      in if \<not> secure then (let cid = auto_cid s in emit (RfAccept cid) (auto_release s))
         else emit (SecRequest (auto_handle s)) (s\<lparr>auto_sec_pending := True\<rparr>))"

definition auto_begin :: "ppp_env \<Rightarrow> u16 \<Rightarrow> u16 \<Rightarrow> bd_addr \<Rightarrow> ('s, 'z) ppp_st_scheme \<Rightarrow> ('s, 'z) ppp_st_scheme" where
  "auto_begin e cid handle addr s =
     (let s = s\<lparr>auto_cid := cid, auto_handle := handle, auto_addr := addr, auto_sec_pending := False\<rparr>;
          s = emit (NameRequest addr) s
      in if pe_name_req e \<noteq> 0 then auto_decide None s else s)"

datatype auto_event = NameComplete bd_addr u8 string | SecLevel u16 u8 nat

definition auto_hci_handler :: "auto_event \<Rightarrow> ('s, 'z) ppp_st_scheme \<Rightarrow> ('s, 'z) ppp_st_scheme" where
  "auto_hci_handler ev s =
     (if auto_cid s = 0 then s
      else case ev of
          NameComplete addr status rn \<Rightarrow>
            if auto_sec_pending s then s
            else if addr \<noteq> auto_addr s then s
            else if status \<noteq> 0 then auto_decide None s
            else auto_decide (Some (take (BT_NAME_MAX - 1) rn)) s
        | SecLevel handle status level \<Rightarrow>
            if \<not> auto_sec_pending s then s
            else if handle \<noteq> auto_handle s then s
            else if status \<noteq> 0 \<or> level < 2 then auto_fail s
            else (let cid = auto_cid s in emit (RfAccept cid) (auto_release s)))"

section \<open>NAT\<close>

definition update_nat_lwip_ctx :: "('s, 'z) ppp_st_scheme \<Rightarrow> ('s, 'z) ppp_st_scheme" where
  "update_nat_lwip_ctx s =
     (let enable = (ppp_up_flag s \<and> get_wifi_connected s)
      in if enable = napt_on s then s else (emit (NaptEnable enable) s)\<lparr>napt_on := enable\<rparr>)"

definition ppp_link_tx_dropped :: "('s, 'z) ppp_st_scheme \<Rightarrow> u32" where
  "ppp_link_tx_dropped s = tx_dropped s"

section \<open>Transmit path\<close>

definition tx_notify_cb :: "('s, 'z) ppp_st_scheme \<Rightarrow> ('s, 'z) ppp_st_scheme" where
  "tx_notify_cb s =
     (let cid = active_cid s; s = s\<lparr>tx_notify_pending := False\<rparr>
      in if cid \<noteq> 0 then emit (RfCanSend cid) s else s)"

text \<open>\<open>xStreamBufferSend\<close> without waiting writes what fits; the second result is the count.\<close>

definition stream_send :: "u8 list \<Rightarrow> u8 list \<Rightarrow> u8 list \<times> nat" where
  "stream_send buf data = (let n = min (length data) (PPP_TX_BUF_SIZE - length buf) in (buf @ take n data, n))"

definition ppp_output_cb :: "u8 list \<Rightarrow> ('s, 'z) ppp_st_scheme \<Rightarrow> nat \<times> ('s, 'z) ppp_st_scheme" where
  "ppp_output_cb data s =
     (if \<not> session_active s then (length data, s)
      else let (buf, sent) = stream_send (tx_stream s) data;
               s = s\<lparr>tx_stream := buf\<rparr>;
               s = (if sent < length data then s\<lparr>tx_dropped := tx_dropped s + 1\<rparr> else s);
               need = (\<not> tx_notify_pending s);
               s = (if need then s\<lparr>tx_notify_pending := True\<rparr> else s);
               s = (if need then spawn TxNotify s else s)
           in (length data, s))"

section \<open>PPP sessions\<close>

definition ppp_status_cb :: "ppp_env \<Rightarrow> int \<Rightarrow> ('s, 'z) ppp_st_scheme \<Rightarrow> ('s, 'z) ppp_st_scheme" where
  "ppp_status_cb e err s =
     (if err = 0 then gw_on_ppp_up (pe_task e) (update_nat (s\<lparr>ppp_up_flag := True\<rparr>))
      else let s = gw_on_ppp_down (update_nat (s\<lparr>ppp_up_flag := False\<rparr>))
           in if ppp_teardown s then emit PppFree s
              else if session_active s then emit PppListen s
              else s)"

text \<open>\<open>pppapi_close\<close> runs the status callback before it returns.\<close>

definition ppp_close :: "ppp_env \<Rightarrow> ('s, 'z) ppp_st_scheme \<Rightarrow> ('s, 'z) ppp_st_scheme" where
  "ppp_close e s =
     (let s = emit PppClose (s\<lparr>ppp_teardown := True\<rparr>);
          s = ppp_status_cb e (pe_close e) s
      in s\<lparr>ppp_teardown := False, ppp_pcb := False\<rparr>)"

definition ppp_session_start :: "ppp_env \<Rightarrow> ('s, 'z) ppp_st_scheme \<Rightarrow> bool \<times> ('s, 'z) ppp_st_scheme" where
  "ppp_session_start e s =
     (let s = emit PppCreate (s\<lparr>ppp_pcb := pe_create e\<rparr>) in
      if \<not> pe_create e then (False, s)
      else let s = emit PppSilent (emit PppAddrs (emit ProxyAttach s));
               s = emit PppListen s
           in if \<not> pe_listen e then (False, ppp_close e s) else (True, s))"

definition ppp_session_stop :: "ppp_env \<Rightarrow> ('s, 'z) ppp_st_scheme \<Rightarrow> ('s, 'z) ppp_st_scheme" where
  "ppp_session_stop e s =
     (let s = s\<lparr>session_active := False, active_cid := 0\<rparr>;
          s = (if ppp_pcb s then ppp_close e s else s)
      in s\<lparr>ppp_up_flag := False\<rparr>)"

section \<open>RFCOMM events\<close>

text \<open>The printable copy of the first 40 bytes.\<close>

definition pre_ppp_text :: "u8 list \<Rightarrow> string" where
  "pre_ppp_text pkt = map (\<lambda>b. if 0x20 \<le> b \<and> b < 0x7F then char_of (unat b) else CHR ''.'') (take 40 pkt)"

definition crlf :: string where "crlf = [CHR 0x0D, CHR 0x0A]"

definition pre_ppp_handshake :: "u8 list \<Rightarrow> u16 \<Rightarrow> ('s, 'z) ppp_st_scheme \<Rightarrow> bool \<times> ('s, 'z) ppp_st_scheme" where
  "pre_ppp_handshake pkt cid s =
     (if ppp_frame_seen s then (False, s)
      else if 0x7E \<in> set pkt then (False, s\<lparr>ppp_frame_seen := True\<rparr>)
      else let txt = pre_ppp_text pkt;
               s = (if strstr txt ''CLIENT'' \<noteq> None then s\<lparr>pre_ppp_reply := Some ''CLIENTSERVER''\<rparr>
                    else if strstr txt ''ATD'' \<noteq> None then s\<lparr>pre_ppp_reply := Some (crlf @ ''CONNECT 115200'' @ crlf)\<rparr>
                    else if strstr txt ''AT'' \<noteq> None then s\<lparr>pre_ppp_reply := Some (crlf @ ''OK'' @ crlf)\<rparr>
                    else s);
               s = (if pre_ppp_reply s \<noteq> None then emit (RfCanSend cid) s else s)
           in (True, s))"

datatype rfcomm_event =
    PData u16 "u8 list"
  | PIncoming u16 u16 bd_addr      \<comment> \<open>cid, connection handle, address\<close>
  | POpened u8 u16 u16             \<comment> \<open>status, cid, connection handle\<close>
  | PCanSendNow
  | PClosed u16

definition on_data :: "u16 \<Rightarrow> u8 list \<Rightarrow> ('s, 'z) ppp_st_scheme \<Rightarrow> ('s, 'z) ppp_st_scheme" where
  "on_data channel pkt s =
     (if session_active s \<and> channel = active_cid s \<and> ppp_pcb s
      then (case pre_ppp_handshake pkt channel s of (consumed, s) \<Rightarrow>
              if consumed then s else emit (PppInput pkt) s)
      else s)"

definition on_incoming :: "ppp_env \<Rightarrow> u16 \<Rightarrow> u16 \<Rightarrow> bd_addr \<Rightarrow> ('s, 'z) ppp_st_scheme \<Rightarrow> ('s, 'z) ppp_st_scheme" where
  "on_incoming e cid handle addr s =
     (let busy = session_active s;
          s = (if busy then s else s\<lparr>session_active := True, active_cid := cid\<rparr>)
      in if busy then emit (RfDecline cid) s
         else if link_mode s = BTSEC_AUTO then auto_begin e cid handle addr s
         else emit (RfAccept cid) s)"

definition on_opened :: "ppp_env \<Rightarrow> u8 \<Rightarrow> u16 \<Rightarrow> u16 \<Rightarrow> ('s, 'z) ppp_st_scheme \<Rightarrow> ('s, 'z) ppp_st_scheme" where
  "on_opened e status cid con_handle s =
     (if status \<noteq> 0 then
        let s = (if cid = auto_cid s then auto_release s else s)
        in if active_cid s = cid \<or> active_cid s = 0 then s\<lparr>session_active := False, active_cid := 0\<rparr> else s
      else
        let s = s\<lparr>tx_stream := [], tx_notify_pending := False, tx_dropped := 0, ppp_frame_seen := False,
                  pre_ppp_reply := None\<rparr>;
            (ok, s) = ppp_session_start e s
        in if \<not> ok then (emit (RfDisconnect cid) s)\<lparr>session_active := False, active_cid := 0\<rparr>
           else gw_on_rfcomm_opened con_handle s)"

definition on_can_send :: "ppp_env \<Rightarrow> ('s, 'z) ppp_st_scheme \<Rightarrow> ('s, 'z) ppp_st_scheme" where
  "on_can_send e s =
     (let cid = active_cid s in
      if cid = 0 then s
      else case pre_ppp_reply s of
          Some reply \<Rightarrow>
            let s = emit (RfSend cid (map (\<lambda>c. of_nat (ccode c)) reply)) s
            in if pe_send e = 0 then s\<lparr>pre_ppp_reply := None\<rparr> else emit (RfCanSend cid) s
        | None \<Rightarrow>
            let mfs = (if pe_mfs e = 0 \<or> pe_mfs e > PPP_TX_CHUNK_MAX then PPP_TX_CHUNK_MAX else pe_mfs e);
                chunk = take mfs (tx_stream s);
                s = s\<lparr>tx_stream := drop mfs (tx_stream s)\<rparr>;
                s = (if length chunk > 0 then
                       (let s = emit (RfSend cid chunk) s
                        in if pe_send e \<noteq> 0 then s\<lparr>tx_dropped := tx_dropped s + 1\<rparr> else s)
                     else s)
            in if length (tx_stream s) > 0 then emit (RfCanSend cid) s else s)"

definition on_closed :: "ppp_env \<Rightarrow> u16 \<Rightarrow> ('s, 'z) ppp_st_scheme \<Rightarrow> ('s, 'z) ppp_st_scheme" where
  "on_closed e cid s =
     (if cid \<noteq> active_cid s then s
      else if cid = auto_cid s then (auto_release s)\<lparr>session_active := False, active_cid := 0\<rparr>
      else gw_on_rfcomm_closed (ppp_session_stop e s))"

definition rfcomm_packet_handler :: "ppp_env \<Rightarrow> rfcomm_event \<Rightarrow> ('s, 'z) ppp_st_scheme \<Rightarrow> ('s, 'z) ppp_st_scheme" where
  "rfcomm_packet_handler e ev s =
     (case ev of
        PData channel pkt \<Rightarrow> on_data channel pkt s
      | PIncoming cid handle addr \<Rightarrow> on_incoming e cid handle addr s
      | POpened status cid con_handle \<Rightarrow> on_opened e status cid con_handle s
      | PCanSendNow \<Rightarrow> on_can_send e s
      | PClosed cid \<Rightarrow> on_closed e cid s)"

text \<open>\<open>ppp_link_init\<close>; \<open>created\<close> says whether the stream buffer could be allocated, None is the abort,
  of a failed allocation or a failed assertion.\<close>

definition ppp_link_init ::
  "bool \<Rightarrow> (sdp_rec \<Rightarrow> nat) \<Rightarrow> u32 \<times> u32 \<times> u32 \<Rightarrow> ('s, 'z) ppp_st_scheme \<Rightarrow> ('s, 'z) ppp_st_scheme option" where
  "ppp_link_init created len hs s =
     (if \<not> created then None
      else let s = emit SdpInit (emit RfcommInit (emit L2capInit (s\<lparr>tx_stream := []\<rparr>)));
               s = s\<lparr>link_mode := nvs_secure_load (wifi_dev s)\<rparr>;
               s = emit (RfSecLevel (if link_mode s = BTSEC_ON then 2 else 0)) s;
               s = (if link_mode s = BTSEC_AUTO then emit AutoHandlerOn s else s);
               s = emit (RfService SPP_RFCOMM_CHANNEL) (emit (RfService LAP_RFCOMM_CHANNEL) s)
           in case sdp_register_lap_and_spp len hs (of_nat LAP_RFCOMM_CHANNEL) (of_nat SPP_RFCOMM_CHANNEL) of
                None \<Rightarrow> None
              | Some rs \<Rightarrow> Some (fold (\<lambda>r. emit (SdpRegister r)) rs s))"

section \<open>Frame facts\<close>

text \<open>The fields of this module depend on the part of the state behind the gateway's.\<close>

lemma ppp_fields_cong:
  fixes s t :: "('i, 'z) ppp_st_scheme"
  assumes "gw_st.more s = gw_st.more t"
  shows "link_mode s = link_mode t"
    and "tx_stream s = tx_stream t"
    and "tx_notify_pending s = tx_notify_pending t"
    and "tx_dropped s = tx_dropped t"
    and "active_cid s = active_cid t"
    and "session_active s = session_active t"
    and "ppp_teardown s = ppp_teardown t"
    and "ppp_pcb s = ppp_pcb t"
    and "ppp_frame_seen s = ppp_frame_seen t"
    and "pre_ppp_reply s = pre_ppp_reply t"
    and "auto_cid s = auto_cid t"
    and "auto_handle s = auto_handle t"
    and "auto_addr s = auto_addr t"
    and "auto_sec_pending s = auto_sec_pending t"
    and "last_phone_name s = last_phone_name t"
    and "last_phone_secured s = last_phone_secured t"
    and "last_phone_valid s = last_phone_valid t"
    and "napt_on s = napt_on t"
  using assms by (cases s, cases t, simp)+

lemma ppp_emit [simp]:
  fixes s :: "('i, 'z) ppp_st_scheme"
  shows "link_mode (emit c s) = link_mode s"
    and "tx_stream (emit c s) = tx_stream s"
    and "tx_notify_pending (emit c s) = tx_notify_pending s"
    and "tx_dropped (emit c s) = tx_dropped s"
    and "active_cid (emit c s) = active_cid s"
    and "session_active (emit c s) = session_active s"
    and "ppp_teardown (emit c s) = ppp_teardown s"
    and "ppp_pcb (emit c s) = ppp_pcb s"
    and "ppp_frame_seen (emit c s) = ppp_frame_seen s"
    and "pre_ppp_reply (emit c s) = pre_ppp_reply s"
    and "auto_cid (emit c s) = auto_cid s"
    and "auto_handle (emit c s) = auto_handle s"
    and "auto_addr (emit c s) = auto_addr s"
    and "auto_sec_pending (emit c s) = auto_sec_pending s"
    and "last_phone_name (emit c s) = last_phone_name s"
    and "last_phone_secured (emit c s) = last_phone_secured s"
    and "last_phone_valid (emit c s) = last_phone_valid s"
    and "napt_on (emit c s) = napt_on s"
  by (rule ppp_fields_cong, simp add: emit_def)+

lemma ppp_spawn [simp]:
  fixes s :: "('i, 'z) ppp_st_scheme"
  shows "link_mode (spawn t s) = link_mode s"
    and "tx_stream (spawn t s) = tx_stream s"
    and "tx_notify_pending (spawn t s) = tx_notify_pending s"
    and "tx_dropped (spawn t s) = tx_dropped s"
    and "active_cid (spawn t s) = active_cid s"
    and "session_active (spawn t s) = session_active s"
    and "ppp_teardown (spawn t s) = ppp_teardown s"
    and "ppp_pcb (spawn t s) = ppp_pcb s"
    and "ppp_frame_seen (spawn t s) = ppp_frame_seen s"
    and "pre_ppp_reply (spawn t s) = pre_ppp_reply s"
    and "auto_cid (spawn t s) = auto_cid s"
    and "auto_handle (spawn t s) = auto_handle s"
    and "auto_addr (spawn t s) = auto_addr s"
    and "auto_sec_pending (spawn t s) = auto_sec_pending s"
    and "last_phone_name (spawn t s) = last_phone_name s"
    and "last_phone_secured (spawn t s) = last_phone_secured s"
    and "last_phone_valid (spawn t s) = last_phone_valid s"
    and "napt_on (spawn t s) = napt_on s"
  by (rule ppp_fields_cong, simp add: spawn_def)+

lemma ppp_set_app_state [simp]:
  fixes s :: "('i, 'z) ppp_st_scheme"
  shows "link_mode (set_app_state a s) = link_mode s"
    and "tx_stream (set_app_state a s) = tx_stream s"
    and "tx_notify_pending (set_app_state a s) = tx_notify_pending s"
    and "tx_dropped (set_app_state a s) = tx_dropped s"
    and "active_cid (set_app_state a s) = active_cid s"
    and "session_active (set_app_state a s) = session_active s"
    and "ppp_teardown (set_app_state a s) = ppp_teardown s"
    and "ppp_pcb (set_app_state a s) = ppp_pcb s"
    and "ppp_frame_seen (set_app_state a s) = ppp_frame_seen s"
    and "pre_ppp_reply (set_app_state a s) = pre_ppp_reply s"
    and "auto_cid (set_app_state a s) = auto_cid s"
    and "auto_handle (set_app_state a s) = auto_handle s"
    and "auto_addr (set_app_state a s) = auto_addr s"
    and "auto_sec_pending (set_app_state a s) = auto_sec_pending s"
    and "last_phone_name (set_app_state a s) = last_phone_name s"
    and "last_phone_secured (set_app_state a s) = last_phone_secured s"
    and "last_phone_valid (set_app_state a s) = last_phone_valid s"
    and "napt_on (set_app_state a s) = napt_on s"
  by (rule ppp_fields_cong, simp add: set_app_state_eq)+

lemma ppp_update_nat [simp]:
  fixes s :: "('i, 'z) ppp_st_scheme"
  shows "link_mode (update_nat s) = link_mode s"
    and "tx_stream (update_nat s) = tx_stream s"
    and "tx_notify_pending (update_nat s) = tx_notify_pending s"
    and "tx_dropped (update_nat s) = tx_dropped s"
    and "active_cid (update_nat s) = active_cid s"
    and "session_active (update_nat s) = session_active s"
    and "ppp_teardown (update_nat s) = ppp_teardown s"
    and "ppp_pcb (update_nat s) = ppp_pcb s"
    and "ppp_frame_seen (update_nat s) = ppp_frame_seen s"
    and "pre_ppp_reply (update_nat s) = pre_ppp_reply s"
    and "auto_cid (update_nat s) = auto_cid s"
    and "auto_handle (update_nat s) = auto_handle s"
    and "auto_addr (update_nat s) = auto_addr s"
    and "auto_sec_pending (update_nat s) = auto_sec_pending s"
    and "last_phone_name (update_nat s) = last_phone_name s"
    and "last_phone_secured (update_nat s) = last_phone_secured s"
    and "last_phone_valid (update_nat s) = last_phone_valid s"
    and "napt_on (update_nat s) = napt_on s"
  by (rule ppp_fields_cong, simp add: update_nat_def spawn_def)+

lemma ppp_unqueue [simp]:
  fixes s :: "('i, 'z) ppp_st_scheme"
  shows "link_mode (unqueue p s) = link_mode s"
    and "tx_stream (unqueue p s) = tx_stream s"
    and "tx_notify_pending (unqueue p s) = tx_notify_pending s"
    and "tx_dropped (unqueue p s) = tx_dropped s"
    and "active_cid (unqueue p s) = active_cid s"
    and "session_active (unqueue p s) = session_active s"
    and "ppp_teardown (unqueue p s) = ppp_teardown s"
    and "ppp_pcb (unqueue p s) = ppp_pcb s"
    and "ppp_frame_seen (unqueue p s) = ppp_frame_seen s"
    and "pre_ppp_reply (unqueue p s) = pre_ppp_reply s"
    and "auto_cid (unqueue p s) = auto_cid s"
    and "auto_handle (unqueue p s) = auto_handle s"
    and "auto_addr (unqueue p s) = auto_addr s"
    and "auto_sec_pending (unqueue p s) = auto_sec_pending s"
    and "last_phone_name (unqueue p s) = last_phone_name s"
    and "last_phone_secured (unqueue p s) = last_phone_secured s"
    and "last_phone_valid (unqueue p s) = last_phone_valid s"
    and "napt_on (unqueue p s) = napt_on s"
  by (rule ppp_fields_cong, simp add: unqueue_def)+

lemma ppp_gw_on_ppp_up [simp]:
  fixes s :: "('i, 'z) ppp_st_scheme"
  shows "link_mode (gw_on_ppp_up k s) = link_mode s"
    and "tx_stream (gw_on_ppp_up k s) = tx_stream s"
    and "tx_notify_pending (gw_on_ppp_up k s) = tx_notify_pending s"
    and "tx_dropped (gw_on_ppp_up k s) = tx_dropped s"
    and "active_cid (gw_on_ppp_up k s) = active_cid s"
    and "session_active (gw_on_ppp_up k s) = session_active s"
    and "ppp_teardown (gw_on_ppp_up k s) = ppp_teardown s"
    and "ppp_pcb (gw_on_ppp_up k s) = ppp_pcb s"
    and "ppp_frame_seen (gw_on_ppp_up k s) = ppp_frame_seen s"
    and "pre_ppp_reply (gw_on_ppp_up k s) = pre_ppp_reply s"
    and "auto_cid (gw_on_ppp_up k s) = auto_cid s"
    and "auto_handle (gw_on_ppp_up k s) = auto_handle s"
    and "auto_addr (gw_on_ppp_up k s) = auto_addr s"
    and "auto_sec_pending (gw_on_ppp_up k s) = auto_sec_pending s"
    and "last_phone_name (gw_on_ppp_up k s) = last_phone_name s"
    and "last_phone_secured (gw_on_ppp_up k s) = last_phone_secured s"
    and "last_phone_valid (gw_on_ppp_up k s) = last_phone_valid s"
    and "napt_on (gw_on_ppp_up k s) = napt_on s"
  by (rule ppp_fields_cong, simp add: gw_on_ppp_up_def set_app_state_eq gw_wifi_kick_deferred_def gw_safe_task_create_def spawn_def emit_def)+

lemma ppp_gw_on_ppp_down [simp]:
  fixes s :: "('i, 'z) ppp_st_scheme"
  shows "link_mode (gw_on_ppp_down s) = link_mode s"
    and "tx_stream (gw_on_ppp_down s) = tx_stream s"
    and "tx_notify_pending (gw_on_ppp_down s) = tx_notify_pending s"
    and "tx_dropped (gw_on_ppp_down s) = tx_dropped s"
    and "active_cid (gw_on_ppp_down s) = active_cid s"
    and "session_active (gw_on_ppp_down s) = session_active s"
    and "ppp_teardown (gw_on_ppp_down s) = ppp_teardown s"
    and "ppp_pcb (gw_on_ppp_down s) = ppp_pcb s"
    and "ppp_frame_seen (gw_on_ppp_down s) = ppp_frame_seen s"
    and "pre_ppp_reply (gw_on_ppp_down s) = pre_ppp_reply s"
    and "auto_cid (gw_on_ppp_down s) = auto_cid s"
    and "auto_handle (gw_on_ppp_down s) = auto_handle s"
    and "auto_addr (gw_on_ppp_down s) = auto_addr s"
    and "auto_sec_pending (gw_on_ppp_down s) = auto_sec_pending s"
    and "last_phone_name (gw_on_ppp_down s) = last_phone_name s"
    and "last_phone_secured (gw_on_ppp_down s) = last_phone_secured s"
    and "last_phone_valid (gw_on_ppp_down s) = last_phone_valid s"
    and "napt_on (gw_on_ppp_down s) = napt_on s"
  by (rule ppp_fields_cong, simp add: gw_on_ppp_down_def set_app_state_eq)+

lemma ppp_gw_on_rfcomm_opened [simp]:
  fixes s :: "('i, 'z) ppp_st_scheme"
  shows "link_mode (gw_on_rfcomm_opened h s) = link_mode s"
    and "tx_stream (gw_on_rfcomm_opened h s) = tx_stream s"
    and "tx_notify_pending (gw_on_rfcomm_opened h s) = tx_notify_pending s"
    and "tx_dropped (gw_on_rfcomm_opened h s) = tx_dropped s"
    and "active_cid (gw_on_rfcomm_opened h s) = active_cid s"
    and "session_active (gw_on_rfcomm_opened h s) = session_active s"
    and "ppp_teardown (gw_on_rfcomm_opened h s) = ppp_teardown s"
    and "ppp_pcb (gw_on_rfcomm_opened h s) = ppp_pcb s"
    and "ppp_frame_seen (gw_on_rfcomm_opened h s) = ppp_frame_seen s"
    and "pre_ppp_reply (gw_on_rfcomm_opened h s) = pre_ppp_reply s"
    and "auto_cid (gw_on_rfcomm_opened h s) = auto_cid s"
    and "auto_handle (gw_on_rfcomm_opened h s) = auto_handle s"
    and "auto_addr (gw_on_rfcomm_opened h s) = auto_addr s"
    and "auto_sec_pending (gw_on_rfcomm_opened h s) = auto_sec_pending s"
    and "last_phone_name (gw_on_rfcomm_opened h s) = last_phone_name s"
    and "last_phone_secured (gw_on_rfcomm_opened h s) = last_phone_secured s"
    and "last_phone_valid (gw_on_rfcomm_opened h s) = last_phone_valid s"
    and "napt_on (gw_on_rfcomm_opened h s) = napt_on s"
  by (rule ppp_fields_cong, simp add: gw_on_rfcomm_opened_def bt_set_visible_def emit_def)+

lemma ppp_gw_on_rfcomm_closed [simp]:
  fixes s :: "('i, 'z) ppp_st_scheme"
  shows "link_mode (gw_on_rfcomm_closed s) = link_mode s"
    and "tx_stream (gw_on_rfcomm_closed s) = tx_stream s"
    and "tx_notify_pending (gw_on_rfcomm_closed s) = tx_notify_pending s"
    and "tx_dropped (gw_on_rfcomm_closed s) = tx_dropped s"
    and "active_cid (gw_on_rfcomm_closed s) = active_cid s"
    and "session_active (gw_on_rfcomm_closed s) = session_active s"
    and "ppp_teardown (gw_on_rfcomm_closed s) = ppp_teardown s"
    and "ppp_pcb (gw_on_rfcomm_closed s) = ppp_pcb s"
    and "ppp_frame_seen (gw_on_rfcomm_closed s) = ppp_frame_seen s"
    and "pre_ppp_reply (gw_on_rfcomm_closed s) = pre_ppp_reply s"
    and "auto_cid (gw_on_rfcomm_closed s) = auto_cid s"
    and "auto_handle (gw_on_rfcomm_closed s) = auto_handle s"
    and "auto_addr (gw_on_rfcomm_closed s) = auto_addr s"
    and "auto_sec_pending (gw_on_rfcomm_closed s) = auto_sec_pending s"
    and "last_phone_name (gw_on_rfcomm_closed s) = last_phone_name s"
    and "last_phone_secured (gw_on_rfcomm_closed s) = last_phone_secured s"
    and "last_phone_valid (gw_on_rfcomm_closed s) = last_phone_valid s"
    and "napt_on (gw_on_rfcomm_closed s) = napt_on s"
  by (rule ppp_fields_cong, simp add: gw_on_rfcomm_closed_def Let_def emit_def set_app_state_eq update_nat_def spawn_def)+

end
