(* ===== verification/PppProps.thy ===== *)
theory PppProps imports PppLink begin

text \<open>What the PPP link guarantees: the automatic security decision, the receive path and the transmit
  path.\<close>

section \<open>Facts\<close>

text \<open>The name test is a substring test that ignores case.\<close>

lemma contains_nocase_iff:
  "contains_nocase hay needle \<longleftrightarrow> (\<exists>a b c. hay = a @ b @ c \<and> b @ c \<noteq> [] \<and> map tolower b = map tolower needle)"
proof (induction hay)
  case Nil
  then show ?case by simp
next
  case (Cons x hay)
  show ?case
  proof
    assume "contains_nocase (x # hay) needle"
    then consider "starts_nocase (x # hay) needle" | "contains_nocase hay needle" by (auto split: if_splits)
    then show "\<exists>a b c. x # hay = a @ b @ c \<and> b @ c \<noteq> [] \<and> map tolower b = map tolower needle"
    proof cases
      case 1
      then have "take (length needle) (map tolower (x # hay)) = map tolower needle"
        by (simp add: starts_nocase_def starts_with_take)
      then have "map tolower (take (length needle) (x # hay)) = map tolower needle" by (simp only: take_map)
      then show ?thesis
        by (intro exI [of _ "[]"] exI [of _ "take (length needle) (x # hay)"] exI [of _ "drop (length needle) (x # hay)"]) simp
    next
      case 2
      then obtain a b c where "hay = a @ b @ c" "b @ c \<noteq> []" "map tolower b = map tolower needle" using Cons by blast
      then show ?thesis by (intro exI [of _ "x # a"] exI [of _ b] exI [of _ c]) simp
    qed
  next
    assume "\<exists>a b c. x # hay = a @ b @ c \<and> b @ c \<noteq> [] \<and> map tolower b = map tolower needle"
    then obtain a b c where h: "x # hay = a @ b @ c" "b @ c \<noteq> []" "map tolower b = map tolower needle" by blast
    show "contains_nocase (x # hay) needle"
    proof (cases a)
      case Nil
      then have "map tolower (x # hay) = map tolower needle @ map tolower c" using h by simp
      then have "starts_nocase (x # hay) needle" unfolding starts_nocase_def starts_with_iff by blast
      then show ?thesis by simp
    next
      case (Cons y a')
      then have "\<exists>a b c. hay = a @ b @ c \<and> b @ c \<noteq> [] \<and> map tolower b = map tolower needle"
        using h by (intro exI [of _ a'] exI [of _ b] exI [of _ c]) simp
      then show ?thesis using Cons.IH by simp
    qed
  qed
qed

text \<open>A handler only adds calls of a certain kind to the trace.\<close>

definition adds :: "(dcall \<Rightarrow> bool) \<Rightarrow> dcall list \<Rightarrow> dcall list \<Rightarrow> bool" where
  "adds P xs ys \<longleftrightarrow> (\<exists>zs. ys = xs @ zs \<and> list_all P zs)"

lemma adds_refl [intro!, simp]: "adds P xs xs"
  by (simp add: adds_def)

lemma adds_append: "adds P xs ys \<Longrightarrow> list_all P zs \<Longrightarrow> adds P xs (ys @ zs)"
  by (auto simp: adds_def)

lemma adds_drop: "adds P xs ys \<Longrightarrow> c \<in> set (drop (length xs) ys) \<Longrightarrow> P c"
  by (auto simp: adds_def list_all_iff)

lemma gw_calls [simp]:
  "calls (gw_on_ppp_down s) = calls s"
  "calls (gw_on_rfcomm_opened h s) = calls s @ [GapDiscoverable False, GapConnectable False]"
  "calls (gw_on_rfcomm_closed s) = calls s @ [ReopenTimerRemove, ReopenTimerAdd BT_REOPEN_DELAY_MS]"
  by (auto simp: gw_on_ppp_down_def gw_on_rfcomm_opened_def bt_set_visible_def gw_on_rfcomm_closed_def Let_def)

abbreviation no_accept :: "dcall \<Rightarrow> bool" where
  "no_accept c \<equiv> (case c of RfAccept cid \<Rightarrow> False | _ \<Rightarrow> True)"

lemma gw_on_ppp_up_calls: "calls (gw_on_ppp_up k s) \<in> {calls s, calls s @ [Restart]}"
  by (auto simp: gw_on_ppp_up_def gw_wifi_kick_deferred_def gw_safe_task_create_def)

lemma adds_ppp_up: "adds no_accept xs (calls s) \<Longrightarrow> adds no_accept xs (calls (gw_on_ppp_up k s))"
  using gw_on_ppp_up_calls [of k s] by (auto intro!: adds_append)

lemma adds_status_cb: "adds no_accept xs (calls s) \<Longrightarrow> adds no_accept xs (calls (ppp_status_cb e err s))"
  by (auto simp: ppp_status_cb_def Let_def intro!: adds_ppp_up adds_append)

lemma adds_close: "adds no_accept xs (calls s) \<Longrightarrow> adds no_accept xs (calls (ppp_close e s))"
  by (auto simp: ppp_close_def Let_def intro!: adds_status_cb adds_append)

lemma adds_session_start: "adds no_accept xs (calls s) \<Longrightarrow> adds no_accept xs (calls (snd (ppp_session_start e s)))"
  by (auto simp: ppp_session_start_def Let_def intro!: adds_close adds_append)

lemma adds_session_stop: "adds no_accept xs (calls s) \<Longrightarrow> adds no_accept xs (calls (ppp_session_stop e s))"
  by (auto simp: ppp_session_stop_def Let_def intro!: adds_close)

lemma rfcomm_never_accepts:
  assumes "link_mode s = BTSEC_AUTO"
  shows "adds no_accept (calls s) (calls (rfcomm_packet_handler e ev s))"
proof (cases ev)
  case (PData ch pkt)
  then show ?thesis
    by (auto simp: rfcomm_packet_handler_def on_data_def pre_ppp_handshake_def Let_def intro!: adds_append split: prod.split)
next
  case (PIncoming cid h addr)
  then show ?thesis using assms
    by (auto simp: rfcomm_packet_handler_def on_incoming_def auto_begin_def auto_decide_def Let_def intro!: adds_append)
next
  case (POpened st cid h)
  have "adds no_accept (calls s) (calls (snd (ppp_session_start e (s\<lparr>tx_stream := [], tx_notify_pending := False,
      tx_dropped := 0, ppp_frame_seen := False, pre_ppp_reply := None\<rparr>))))"
    by (rule adds_session_start) simp
  then show ?thesis using POpened
    by (auto simp: rfcomm_packet_handler_def on_opened_def Let_def auto_release_def intro!: adds_append split: prod.split)
next
  case PCanSendNow
  then show ?thesis
    by (auto simp: rfcomm_packet_handler_def on_can_send_def Let_def intro!: adds_append split: option.split)
next
  case (PClosed cid)
  then show ?thesis
    by (auto simp: rfcomm_packet_handler_def on_closed_def auto_release_def intro!: adds_append adds_session_stop)
qed

text \<open>The state at boot, and a bridge in automatic mode that holds the channel of a phone it has asked
  for its name.\<close>

definition gw_boot :: "('i, wifi_list_t) nvs_dev \<Rightarrow> 'i gw_st" where
  "gw_boot d = boot_st.extend (boot_boot d) (gw_st.fields (-100) HCI_CON_HANDLE_INVALID False False)"

definition ppp_boot :: "('i, wifi_list_t) nvs_dev \<Rightarrow> 'i ppp_st" where
  "ppp_boot d = gw_st.extend (gw_boot d)
     (ppp_st.fields BTSEC_AUTO [] False 0 0 False False False False None 0 0 [] False [] False False False)"

lemmas ppp_boot_defs = ppp_boot_def gw_boot_def boot_boot_def dbg_boot_def name_boot_def wifi_boot_def
  wifi_st.defs name_st.defs dbg_st.defs boot_st.defs gw_st.defs ppp_st.defs

lemma ppp_boot_sel [simp]:
  "app_state (ppp_boot d) = APP_WAIT_BT" "bt_connected (ppp_boot d) = False" "ppp_up_flag (ppp_boot d) = False"
  "calls (ppp_boot d) = []" "tasks (ppp_boot d) = []" "wifi_dev (ppp_boot d) = d"
  "wifi_connected (ppp_boot d) = False" "link_mode (ppp_boot d) = BTSEC_AUTO" "tx_stream (ppp_boot d) = []"
  "tx_notify_pending (ppp_boot d) = False" "active_cid (ppp_boot d) = 0" "session_active (ppp_boot d) = False"
  "ppp_teardown (ppp_boot d) = False" "ppp_pcb (ppp_boot d) = False" "ppp_frame_seen (ppp_boot d) = False"
  "pre_ppp_reply (ppp_boot d) = None" "auto_cid (ppp_boot d) = 0" "auto_sec_pending (ppp_boot d) = False"
  "napt_on (ppp_boot d) = False" "bt_handle (ppp_boot d) = HCI_CON_HANDLE_INVALID"
  "wifi_kick_running (ppp_boot d) = False" "tx_dropped (ppp_boot d) = 0" "bt_reopen_timer (ppp_boot d) = False"
  "wifi_ignore_disconnect (ppp_boot d) = False"
  by (simp_all add: ppp_boot_defs)

definition ppp_env_good :: ppp_env where
  "ppp_env_good = \<lparr>pe_name_req = 0, pe_create = True, pe_listen = True, pe_close = 5, pe_task = True, pe_send = 0, pe_mfs = 660\<rparr>"

definition demo_held :: "(string \<rightharpoonup> wifi_list_t nvs_val) ppp_st" where
  "demo_held = rfcomm_packet_handler ppp_env_good (PIncoming 7 1 [1, 2, 3, 4, 5, 6]) (ppp_boot map_dev)"

lemma demo_held_eq: "demo_held = (ppp_boot map_dev)\<lparr>calls := [NameRequest [1, 2, 3, 4, 5, 6]], active_cid := 7,
    session_active := True, auto_cid := 7, auto_handle := 1, auto_addr := [1, 2, 3, 4, 5, 6]\<rparr>"
  by (simp add: demo_held_def rfcomm_packet_handler_def on_incoming_def auto_begin_def ppp_env_good_def emit_def Let_def
      ppp_boot_defs)

section \<open>Properties\<close>

text \<open>C4: In the automatic mode no phone is let in unsecured by mistake.  The RFCOMM handler itself never
  accepts a connection; the bridge accepts only the one channel it holds, and only when the phone
  named by that connection answered with a name containing (in any case) a model known to need no
  security, or when the link of that connection reached security level 2, authentication and
  encryption.\<close>

theorem ppp_auto_security:
  fixes s :: "('i, 'z) ppp_st_scheme"
  shows "(link_mode s = BTSEC_AUTO \<longrightarrow> RfAccept c \<notin> set (drop (length (calls s)) (calls (rfcomm_packet_handler e ev s)))) \<and>
     (RfAccept c \<in> set (drop (length (calls s)) (calls (auto_hci_handler av s))) \<longrightarrow> c = auto_cid s \<and> c \<noteq> 0 \<and>
       ((\<exists>rn. av = NameComplete (auto_addr s) 0 rn \<and>
       (\<exists>m\<in>set nosec_names. \<exists>x y z. take 31 rn = x @ y @ z \<and> map tolower y = map tolower m)) \<or>
       (\<exists>l. av = SecLevel (auto_handle s) 0 l \<and> 2 \<le> l \<and> auto_sec_pending s)))"
proof (rule conjI; (intro impI)?)
  show "link_mode s = BTSEC_AUTO \<Longrightarrow>
      RfAccept c \<notin> set (drop (length (calls s)) (calls (rfcomm_packet_handler e ev s)))"
    using adds_drop [OF rfcomm_never_accepts [of s e ev], of "RfAccept c"] by auto
  have nm: "\<exists>m\<in>set nosec_names. \<exists>x y z. n = x @ y @ z \<and> map tolower y = map tolower m"
    if "is_nosec_name n" for n
    using that unfolding is_nosec_name_def list_ex_iff contains_nocase_iff by blast
  assume acc: "RfAccept c \<in> set (drop (length (calls s)) (calls (auto_hci_handler av s)))"
  show "c = auto_cid s \<and> c \<noteq> 0 \<and>
      ((\<exists>rn. av = NameComplete (auto_addr s) 0 rn \<and>
          (\<exists>m\<in>set nosec_names. \<exists>x y z. take 31 rn = x @ y @ z \<and> map tolower y = map tolower m)) \<or>
       (\<exists>l. av = SecLevel (auto_handle s) 0 l \<and> 2 \<le> l \<and> auto_sec_pending s))"
  proof (cases av)
    case (NameComplete addr st rn)
    then have "auto_cid s \<noteq> 0" "addr = auto_addr s" "st = 0" "is_nosec_name (take 31 rn)" "c = auto_cid s"
      using acc by (auto simp: auto_hci_handler_def auto_decide_def auto_release_def Let_def BT_NAME_MAX_def split: if_splits)
    with nm [of "take 31 rn"] NameComplete show ?thesis by simp
  next
    case (SecLevel h st l)
    then show ?thesis
      using acc by (auto simp: auto_hci_handler_def auto_fail_def auto_release_def Let_def split: if_splits)
  qed
qed

theorem ppp_auto_security_witness:
  "(\<exists>m\<in>set nosec_names. \<exists>x y z. ''my n-gage'' = x @ y @ z \<and> map tolower y = map tolower m) \<and>
   RfAccept 9 \<notin> set (drop 1 (calls (rfcomm_packet_handler ppp_env_good (PIncoming 9 1 [6, 5, 4, 3, 2, 1]) demo_held)))"
proof -
  have "is_nosec_name ''my n-gage''" by code_simp
  then have acc: "RfAccept 7 \<in> set (drop (length (calls demo_held))
      (calls (auto_hci_handler (NameComplete [1, 2, 3, 4, 5, 6] 0 ''my n-gage'') demo_held)))"
    by (simp add: demo_held_eq auto_hci_handler_def auto_decide_def auto_release_def Let_def BT_NAME_MAX_def)
  show ?thesis
    using ppp_auto_security [THEN conjunct2, THEN mp, OF acc]
      ppp_auto_security [of demo_held 9 ppp_env_good "PIncoming 9 1 [6, 5, 4, 3, 2, 1]", THEN conjunct1]
    by (simp add: demo_held_eq)
qed

section \<open>The receive path\<close>

definition has_flag :: "u8 list \<Rightarrow> bool" where
  "has_flag pkt \<longleftrightarrow> 0x7E \<in> set pkt"

text \<open>What reaches PPP.\<close>

definition ppp_input_of :: "dcall list \<Rightarrow> u8 list list" where
  "ppp_input_of cs = concat (map (\<lambda>c. case c of PppInput p \<Rightarrow> [p] | _ \<Rightarrow> []) cs)"

lemma ppp_input_of_append [simp]: "ppp_input_of (xs @ ys) = ppp_input_of xs @ ppp_input_of ys"
  by (simp add: ppp_input_of_def)

lemma ppp_input_of_Nil [simp]: "ppp_input_of [] = []"
  by (simp add: ppp_input_of_def)

definition in_session :: "u16 \<Rightarrow> ('s, 'z) ppp_st_scheme \<Rightarrow> bool" where
  "in_session ch s \<longleftrightarrow> session_active s \<and> active_cid s = ch \<and> ppp_pcb s"

lemma on_data_step:
  fixes s :: "('i, 'z) ppp_st_scheme" and p :: "u8 list" and ch :: u16
  assumes "in_session ch s"
  defines "t \<equiv> on_data ch p s"
  shows "in_session ch t" and "ppp_frame_seen t = (ppp_frame_seen s \<or> has_flag p)"
    and "ppp_input_of (calls t) = ppp_input_of (calls s) @ (if ppp_frame_seen s \<or> has_flag p then [p] else [])"
    and "ppp_frame_seen s \<or> has_flag p \<Longrightarrow> pre_ppp_reply t = pre_ppp_reply s"
  using assms(1) unfolding t_def
  by (auto simp: on_data_def in_session_def pre_ppp_handshake_def has_flag_def Let_def ppp_input_of_def split: prod.split)

text \<open>The reply the handshake gives to a packet, if any.\<close>

definition occurs :: "string \<Rightarrow> string \<Rightarrow> bool" where
  "occurs n t \<longleftrightarrow> (\<exists>a b. t = a @ n @ b)"

lemma strstr_occurs: "strstr t n = None \<longleftrightarrow> \<not> occurs n t"
  by (simp add: occurs_def strstr_None_iff)

definition handshake_reply :: "u8 list \<Rightarrow> string option" where
  "handshake_reply p =
     (let t = pre_ppp_text p in
      if occurs ''CLIENT'' t then Some ''CLIENTSERVER''
      else if occurs ''ATD'' t then Some (crlf @ ''CONNECT 115200'' @ crlf)
      else if occurs ''AT'' t then Some (crlf @ ''OK'' @ crlf)
      else None)"

text \<open>C15: The receive path.  Packets of the session before the first HDLC flag go to the handshake and
  never to PPP; the packet with the first flag and everything after it goes to PPP, complete and in
  order, whatever it contains.  A handshake packet that contains CLIENT, a dial command or another AT
  command in its first 40 bytes has the matching reply queued and asks for a send event.  Data for any
  other channel is dropped.\<close>

theorem ppp_receive:
  fixes s :: "('i, 'z) ppp_st_scheme" and e :: ppp_env and ps :: "u8 list list" and ch :: u16
  assumes s: "in_session ch s" and fresh: "\<not> ppp_frame_seen s"
  defines "t \<equiv> fold (\<lambda>p. rfcomm_packet_handler e (PData ch p)) ps s"
  shows "(ppp_input_of (calls t) = ppp_input_of (calls s) @ dropWhile (\<lambda>p. 0x7E \<notin> set p) ps) \<and>
     (0x7E \<notin> set p \<longrightarrow> handshake_reply p = Some r \<longrightarrow> pre_ppp_reply (rfcomm_packet_handler e (PData ch p) s) = Some r \<and>
       calls (rfcomm_packet_handler e (PData ch p) s) = calls s @ [RfCanSend ch]) \<and>
     (c \<noteq> ch \<longrightarrow> rfcomm_packet_handler e (PData c p) s = s)"
proof (rule conjI3; (intro impI)?)
  have run: "ppp_input_of (calls (fold (\<lambda>p. rfcomm_packet_handler e (PData ch p)) ps u)) =
      ppp_input_of (calls u) @ (if ppp_frame_seen u then ps else dropWhile (\<lambda>p. 0x7E \<notin> set p) ps)"
    if "in_session ch u" for u :: "('i, 'z) ppp_st_scheme"
    using that
  proof (induction ps arbitrary: u)
    case (Cons p ps)
    note st = on_data_step [OF Cons.prems, of p]
    have "fold (\<lambda>p. rfcomm_packet_handler e (PData ch p)) (p # ps) u =
        fold (\<lambda>p. rfcomm_packet_handler e (PData ch p)) ps (on_data ch p u)"
      by (simp add: rfcomm_packet_handler_def)
    then show ?case using Cons.IH [OF st(1)] st(2,3) by (simp add: has_flag_def)
  qed simp
  show "ppp_input_of (calls t) = ppp_input_of (calls s) @ dropWhile (\<lambda>p. 0x7E \<notin> set p) ps"
    unfolding t_def using run [OF s] fresh by simp
  show "pre_ppp_reply (rfcomm_packet_handler e (PData ch p) s) = Some r \<and>
      calls (rfcomm_packet_handler e (PData ch p) s) = calls s @ [RfCanSend ch]"
    if "0x7E \<notin> set p" "handshake_reply p = Some r"
    using that s fresh
    by (simp add: rfcomm_packet_handler_def on_data_def in_session_def pre_ppp_handshake_def Let_def
        handshake_reply_def strstr_occurs split: if_splits)
  show "c \<noteq> ch \<Longrightarrow> rfcomm_packet_handler e (PData c p) s = s"
    using s by (simp add: rfcomm_packet_handler_def on_data_def in_session_def)
qed


definition demo_session :: "(string \<rightharpoonup> wifi_list_t nvs_val) ppp_st" where
  "demo_session = (ppp_boot map_dev)\<lparr>session_active := True, active_cid := 7, ppp_pcb := True\<rparr>"

lemma demo_session_ok: "in_session 7 demo_session" "\<not> ppp_frame_seen demo_session" "calls demo_session = []"
  "tx_stream demo_session = []" "tx_notify_pending demo_session = False" "tasks demo_session = []"
  "pre_ppp_reply demo_session = None" "session_active demo_session" "active_cid demo_session = 7"
  by (simp_all add: demo_session_def in_session_def)

theorem ppp_receive_witness:
  "ppp_input_of (calls (fold (\<lambda>p. rfcomm_packet_handler ppp_env_good (PData 7 p))
      [[0x43, 0x4C], [0x7E, 0x21], [0x41, 0x54]] demo_session)) = [[0x7E, 0x21], [0x41, 0x54]]"
  using ppp_receive [OF demo_session_ok(1,2), where e = ppp_env_good and ps = "[[0x43, 0x4C], [0x7E, 0x21], [0x41, 0x54]]", THEN conjunct1]
  by (simp add: demo_session_ok)

section \<open>The transmit path\<close>

text \<open>The bytes handed to RFCOMM.\<close>

definition tx_sent :: "dcall list \<Rightarrow> u8 list" where
  "tx_sent cs = concat (map (\<lambda>c. case c of RfSend cid p \<Rightarrow> p | _ \<Rightarrow> []) cs)"

lemma tx_sent_append [simp]: "tx_sent (xs @ ys) = tx_sent xs @ tx_sent ys"
  by (simp add: tx_sent_def)

lemma tx_sent_Nil [simp]: "tx_sent [] = []"
  by (simp add: tx_sent_def)

datatype tx_op = TxOut "u8 list" | TxSend ppp_env | TxNotified

text \<open>A run of the transmit path: lwIP's output, the send events and the run-loop callback.  \<open>acc\<close>
  collects the bytes the buffer has taken.\<close>

fun tx_run :: "tx_op list \<Rightarrow> ('s, 'z) ppp_st_scheme \<times> u8 list \<Rightarrow> ('s, 'z) ppp_st_scheme \<times> u8 list" where
  "tx_run [] sa = sa"
| "tx_run (TxOut d # ops) (s, acc) =
     tx_run ops (snd (ppp_output_cb d s), acc @ take (PPP_TX_BUF_SIZE - length (tx_stream s)) d)"
| "tx_run (TxSend e # ops) (s, acc) = tx_run ops (rfcomm_packet_handler e PCanSendNow s, acc)"
| "tx_run (TxNotified # ops) (s, acc) = tx_run ops (tx_notify_cb (unqueue (\<lambda>t. t = TxNotify) s), acc)"

definition tx_ready :: "u16 \<Rightarrow> ('s, 'z) ppp_st_scheme \<Rightarrow> bool" where
  "tx_ready ch s \<longleftrightarrow> session_active s \<and> active_cid s = ch \<and> ch \<noteq> 0 \<and> pre_ppp_reply s = None \<and>
     length (tx_stream s) \<le> PPP_TX_BUF_SIZE"

lemma stream_send_eq:
  "stream_send buf d = (buf @ take (PPP_TX_BUF_SIZE - length buf) d, min (length d) (PPP_TX_BUF_SIZE - length buf))"
  by (simp add: stream_send_def Let_def min_def)

lemma output_step:
  fixes s :: "('i, 'z) ppp_st_scheme" and d :: "u8 list"
  assumes "tx_ready ch s"
  defines "t \<equiv> snd (ppp_output_cb d s)"
  shows "tx_ready ch t" and "tx_sent (calls t) = tx_sent (calls s)"
    and "tx_stream t = tx_stream s @ take (PPP_TX_BUF_SIZE - length (tx_stream s)) d"
    and "tx_notify_pending t"
    and "tx_dropped t = tx_dropped s + (if length (tx_stream s) + length d \<le> PPP_TX_BUF_SIZE then 0 else 1)"
  using assms(1) unfolding t_def
  by (auto simp: ppp_output_cb_def tx_ready_def stream_send_eq Let_def min_def)

lemma can_send_step:
  fixes s :: "('i, 'z) ppp_st_scheme" and e :: ppp_env
  assumes "tx_ready ch s"
  defines "t \<equiv> rfcomm_packet_handler e PCanSendNow s"
  shows "tx_ready ch t"
    and "tx_sent (calls t) @ tx_stream t = tx_sent (calls s) @ tx_stream s"
    and "tx_stream t \<noteq> [] \<Longrightarrow> last (calls t) = RfCanSend ch"
    and "tx_stream s \<noteq> [] \<Longrightarrow> length (tx_stream t) < length (tx_stream s)"
    and "RfSend c p \<in> set (drop (length (calls s)) (calls t)) \<Longrightarrow> c = ch \<and> 0 < length p \<and> length p \<le> PPP_TX_CHUNK_MAX"
  using assms(1) unfolding t_def
  by (auto simp: rfcomm_packet_handler_def on_can_send_def tx_ready_def Let_def tx_sent_def PPP_TX_CHUNK_MAX_def split: if_splits)


text \<open>C16: The transmit path is a bounded FIFO.  Over any interleaving of PPP output, send events and
  run-loop callbacks of a session, the bytes handed to RFCOMM followed by the bytes still in the
  buffer are exactly the bytes the buffer has taken, in order; nothing is duplicated and the buffer
  stays within its size.  Output that fits is taken whole, output that does not is cut and counted.
  Each chunk sent goes to the session's channel and has at most 1024 bytes, and a send event with
  bytes left asks for the next one.\<close>

theorem ppp_transmit_fifo:
  fixes s t :: "('i, 'z) ppp_st_scheme"
  assumes r: "tx_ready ch s"
  shows "(tx_run ops (s, acc) = (t, acc') \<longrightarrow> (\<exists>out. acc' = acc @ out \<and>
       tx_sent (calls t) @ tx_stream t = tx_sent (calls s) @ tx_stream s @ out \<and> length (tx_stream t) \<le> PPP_TX_BUF_SIZE)) \<and>
     (length (tx_stream s) + length d \<le> PPP_TX_BUF_SIZE \<longrightarrow> tx_stream (snd (ppp_output_cb d s)) = tx_stream s @ d \<and> tx_dropped (snd (ppp_output_cb d s)) = tx_dropped s) \<and>
     (\<not> length (tx_stream s) + length d \<le> PPP_TX_BUF_SIZE \<longrightarrow> tx_dropped (snd (ppp_output_cb d s)) = tx_dropped s + 1) \<and>
     (tx_stream (rfcomm_packet_handler e PCanSendNow s) \<noteq> [] \<longrightarrow> last (calls (rfcomm_packet_handler e PCanSendNow s)) = RfCanSend ch) \<and>
     (RfSend c p \<in> set (drop (length (calls s)) (calls (rfcomm_packet_handler e PCanSendNow s))) \<longrightarrow> c = ch \<and> 0 < length p \<and> length p \<le> 1024)"
proof (rule conjI5; (intro impI)?)
  have run: "tx_ready ch u \<Longrightarrow> tx_run ops (u, acc) = (t, acc') \<Longrightarrow> \<exists>out. acc' = acc @ out \<and>
      tx_sent (calls t) @ tx_stream t = tx_sent (calls u) @ tx_stream u @ out \<and> length (tx_stream t) \<le> PPP_TX_BUF_SIZE"
    for u :: "('i, 'z) ppp_st_scheme" and acc
  proof (induction ops arbitrary: u acc)
    case Nil
    then show ?case by (simp add: tx_ready_def)
  next
    case (Cons op ops)
    show ?case
    proof (cases op)
      case (TxOut d)
      note st = output_step [OF Cons.prems(1), where d = d]
      let ?k = "take (PPP_TX_BUF_SIZE - length (tx_stream u)) d"
      have "tx_run ops (snd (ppp_output_cb d u), acc @ ?k) = (t, acc')" using Cons.prems(2) TxOut by simp
      from Cons.IH [OF st(1) this] obtain out where "acc' = (acc @ ?k) @ out"
        "tx_sent (calls t) @ tx_stream t = tx_sent (calls (snd (ppp_output_cb d u))) @ tx_stream (snd (ppp_output_cb d u)) @ out"
        "length (tx_stream t) \<le> PPP_TX_BUF_SIZE" by blast
      then show ?thesis using st(2,3) by (intro exI [of _ "?k @ out"]) simp
    next
      case (TxSend e)
      note st = can_send_step [OF Cons.prems(1), where e = e]
      have "tx_run ops (rfcomm_packet_handler e PCanSendNow u, acc) = (t, acc')" using Cons.prems(2) TxSend by simp
      from Cons.IH [OF st(1) this] obtain out where o: "acc' = acc @ out"
        "tx_sent (calls t) @ tx_stream t = tx_sent (calls (rfcomm_packet_handler e PCanSendNow u)) @
          tx_stream (rfcomm_packet_handler e PCanSendNow u) @ out"
        "length (tx_stream t) \<le> PPP_TX_BUF_SIZE" by blast
      from o(2) have "tx_sent (calls t) @ tx_stream t = tx_sent (calls u) @ tx_stream u @ out"
        using st(2) by (metis append_assoc)
      then show ?thesis using o by blast
    next
      case TxNotified
      let ?v = "tx_notify_cb (unqueue (\<lambda>t. t = TxNotify) u)"
      have v: "tx_ready ch ?v" "tx_sent (calls ?v) = tx_sent (calls u)" "tx_stream ?v = tx_stream u"
        using Cons.prems(1) by (simp_all add: tx_notify_cb_def tx_ready_def Let_def tx_sent_def unqueue_def)
      have "tx_run ops (?v, acc) = (t, acc')" using Cons.prems(2) TxNotified by simp
      from Cons.IH [OF v(1) this] show ?thesis using v by simp
    qed
  qed
  then show "tx_run ops (s, acc) = (t, acc') \<Longrightarrow> \<exists>out. acc' = acc @ out \<and>
      tx_sent (calls t) @ tx_stream t = tx_sent (calls s) @ tx_stream s @ out \<and> length (tx_stream t) \<le> PPP_TX_BUF_SIZE"
    using r by blast
  note o = output_step [OF r, where d = d]
  show "length (tx_stream s) + length d \<le> PPP_TX_BUF_SIZE \<Longrightarrow>
      tx_stream (snd (ppp_output_cb d s)) = tx_stream s @ d \<and> tx_dropped (snd (ppp_output_cb d s)) = tx_dropped s"
    "\<not> length (tx_stream s) + length d \<le> PPP_TX_BUF_SIZE \<Longrightarrow> tx_dropped (snd (ppp_output_cb d s)) = tx_dropped s + 1"
    using o by simp_all
  show "tx_stream (rfcomm_packet_handler e PCanSendNow s) \<noteq> [] \<Longrightarrow>
      last (calls (rfcomm_packet_handler e PCanSendNow s)) = RfCanSend ch"
    "RfSend c p \<in> set (drop (length (calls s)) (calls (rfcomm_packet_handler e PCanSendNow s))) \<Longrightarrow>
      c = ch \<and> 0 < length p \<and> length p \<le> 1024"
    using can_send_step(3,5) [OF r, where e = e] by (simp_all add: PPP_TX_CHUNK_MAX_def)
qed

theorem ppp_transmit_fifo_witness:
  "tx_sent (calls (fst (tx_run [TxOut [1, 2], TxOut [3], TxSend ppp_env_good] (demo_session, [])))) = [1, 2, 3]"
proof -
  let ?r = "tx_run [TxOut [1, 2], TxOut [3], TxSend ppp_env_good] (demo_session, [])"
  have r: "tx_ready 7 demo_session" by (simp add: tx_ready_def demo_session_ok)
  have a: "snd ?r = [1, 2, 3]" "tx_stream (fst ?r) = []"
    by (simp_all add: ppp_output_cb_def demo_session_ok stream_send_eq PPP_TX_BUF_SIZE_def Let_def
        rfcomm_packet_handler_def on_can_send_def ppp_env_good_def PPP_TX_CHUNK_MAX_def)
  from ppp_transmit_fifo [OF r, of "[TxOut [1, 2], TxOut [3], TxSend ppp_env_good]" "[]" "fst ?r" "snd ?r", THEN conjunct1]
  show ?thesis using a by (simp add: demo_session_ok)
qed

section \<open>Further observations\<close>

text \<open>A send event that carries the handshake's reply does not ask for another one, so bytes already
  in the buffer wait for the next output.\<close>

lemma reply_starves_stream:
  assumes "active_cid s \<noteq> 0" and "pre_ppp_reply s = Some r" and "pe_send e = 0"
  shows "tx_stream (rfcomm_packet_handler e PCanSendNow s) = tx_stream s"
    and "RfCanSend c \<notin> set (drop (length (calls s)) (calls (rfcomm_packet_handler e PCanSendNow s)))"
  using assms by (simp_all add: rfcomm_packet_handler_def on_can_send_def Let_def)

text \<open>The transmit notification: at most one registration is queued in the run loop.\<close>

definition notify_fire :: "('s, 'z) ppp_st_scheme \<Rightarrow> ('s, 'z) ppp_st_scheme" where
  "notify_fire s = tx_notify_cb (unqueue (\<lambda>t. t = TxNotify) s)"

interpretation txreq: one_shot tx_notify_pending "queued_of (\<lambda>t. t = TxNotify)" "\<lambda>s. snd (ppp_output_cb d s)" notify_fire
  for d
proof unfold_locales
  fix s :: "('i, 'z) ppp_st_scheme" and k
  let ?q = "queued_of (\<lambda>t. t = TxNotify)"
  show "tx_notify_pending s \<Longrightarrow> tx_notify_pending (snd (ppp_output_cb d s)) \<and> ?q (snd (ppp_output_cb d s)) = ?q s"
    by (simp add: ppp_output_cb_def Let_def queued_of_def split: prod.split)
  show "\<not> tx_notify_pending s \<Longrightarrow>
      (tx_notify_pending (snd (ppp_output_cb d s)) \<and> ?q (snd (ppp_output_cb d s)) = Suc (?q s)) \<or>
      (\<not> tx_notify_pending (snd (ppp_output_cb d s)) \<and> ?q (snd (ppp_output_cb d s)) = ?q s)"
    by (simp add: ppp_output_cb_def Let_def queued_of_def split: prod.split)
  show "?q s = Suc k \<Longrightarrow> \<not> tx_notify_pending (notify_fire s) \<and> ?q (notify_fire s) = k"
    using queued_of_unqueue [of "\<lambda>t. t = TxNotify" s] by (simp add: notify_fire_def tx_notify_cb_def Let_def queued_of_def)
qed

end
