(* ===== verification/SecButton.thy ===== *)
theory SecButton
  imports PppProps
begin

text \<open>
  The BOOT button of \<open>main/sec_button.c\<close>, which steps the saved Bluetooth security mode, and the
  setting it shares with the serial link.
\<close>

section \<open>The stored security mode\<close>

definition secure_written :: "btsec_mode_t \<Rightarrow> ('i, 'b) nvs_dev \<Rightarrow> bool" where
  "secure_written m d \<longleftrightarrow> nvs_open d True = ESP_OK \<and>
     (if m = BTSEC_AUTO then fst (nvs_erase_key d secure_key) \<in> {ESP_OK, ESP_ERR_NVS_NOT_FOUND}
      else fst (nvs_set_u8 d secure_key (btsec_code m)) = ESP_OK)"

interpretation secset: nvs_setting "{secure_key}" "\<lambda>m. True" secure_written
  "\<lambda>m d. (m, nvs_secure_save m d)" nvs_secure_load
proof unfold_locales
  fix d d' :: "('i, 'b) nvs_dev" and m :: btsec_mode_t and K :: "string set"
  show "dev_same {secure_key} d (snd (m, nvs_secure_save m d))" if ok: "dev_ok d"
    using nvs_step_same(6) [OF nvs_writes_same(2) [OF ok, of secure_key "btsec_code m"] ok]
      nvs_step_same(6) [OF nvs_writes_same(5) [OF ok, of secure_key] ok]
    by (simp add: nvs_secure_save_def Let_def)
  show "nvs_secure_load d' = nvs_secure_load d"
    if "dev_same K d d'" "K \<inter> {secure_key} = {}" "nvs_open d' False = nvs_open d False"
    using dev_same_get(2) [OF that(1), of secure_key] that by (simp add: nvs_secure_load_def)
  show "nvs_secure_load (snd (m, nvs_secure_save m d)) = fst (m, nvs_secure_save m d)"
    if ok: "dev_ok d" and w: "secure_written m d" and o: "nvs_open (snd (m, nvs_secure_save m d)) False = ESP_OK"
  proof -
    define r where "r = (if m = BTSEC_AUTO then nvs_erase_key d secure_key else nvs_set_u8 d secure_key (btsec_code m))"
    have s: "nvs_secure_save m d = snd (nvs_commit (snd r))"
      using w by (simp add: nvs_secure_save_def secure_written_def Let_def r_def)
    have ok1: "dev_ok (snd r)"
      using dev_same_ok [OF nvs_writes_same(2) [OF ok, of secure_key "btsec_code m"]]
        dev_same_ok [OF nvs_writes_same(5) [OF ok, of secure_key]] ok by (simp add: r_def)
    have "nvs_get_u8 (snd r) secure_key = (if m = BTSEC_AUTO then None else Some (btsec_code m))"
    proof (cases "m = BTSEC_AUTO")
      case True
      then have "nvs_erase_key d secure_key = (fst r, snd r)" "fst r \<in> {ESP_OK, ESP_ERR_NVS_NOT_FOUND}"
        using w by (simp_all add: r_def secure_written_def)
      from nvs_get_erased(2) [OF ok this] True show ?thesis by simp
    next
      case False
      then have "nvs_set_u8 d secure_key (btsec_code m) = (ESP_OK, snd r)"
        using w by (simp add: r_def secure_written_def prod_eq_iff)
      from nvs_get_set(2) [OF ok this] False show ?thesis by simp
    qed
    then have "nvs_get_u8 (nvs_secure_save m d) secure_key = (if m = BTSEC_AUTO then None else Some (btsec_code m))"
      using dev_same_get(2) [OF nvs_writes_same(6) [OF ok1], of secure_key] by (simp add: s)
    then show ?thesis using o by (cases m) (simp_all add: nvs_secure_load_def)
  qed
qed

section \<open>The button task\<close>

definition SEC_BTN_HOLD_MS :: u32 where "SEC_BTN_HOLD_MS = 3000"
definition SEC_BTN_DEBOUNCE_MS :: u32 where "SEC_BTN_DEBOUNCE_MS = 50"
definition SEC_BTN_POLL_MS :: u32 where "SEC_BTN_POLL_MS = 20"

lemmas btn_consts = SEC_BTN_HOLD_MS_def SEC_BTN_DEBOUNCE_MS_def SEC_BTN_POLL_MS_def

text \<open>\<open>btn n\<close> is what the n-th call of \<open>btn_down\<close> reads, \<open>n\<close> the number of readings so far.\<close>

definition led_set :: "bool \<Rightarrow> 'z app_sh_scheme \<Rightarrow> 'z app_sh_scheme" where
  "led_set on s = emit (LedSet on) s"

fun led_blink :: "nat \<Rightarrow> 'z app_sh_scheme \<Rightarrow> 'z app_sh_scheme" where
  "led_blink 0 s = s"
| "led_blink (Suc k) s = led_blink k (led_set False (led_set True s))"

definition led_show :: "btsec_mode_t \<Rightarrow> 'z app_sh_scheme \<Rightarrow> 'z app_sh_scheme" where
  "led_show mode s =
     (let n = (if mode = BTSEC_OFF then 1 else if mode = BTSEC_ON then 3 else 2) in led_blink n s)"

text \<open>The wait for the release may never end: then it is None.\<close>

partial_function (option) wait_release :: "(nat \<Rightarrow> bool) \<Rightarrow> nat \<Rightarrow> nat option" where
  "wait_release btn n = (if btn n then wait_release btn (n + 1) else Some (n + 1))"

lemma poll_below: "held < SEC_BTN_HOLD_MS \<Longrightarrow> unat (held + SEC_BTN_POLL_MS) = unat held + 20"
  by (unat_arith) (simp add: btn_consts)

function hold_loop :: "(nat \<Rightarrow> bool) \<Rightarrow> nat \<Rightarrow> u32 \<Rightarrow> u32 \<times> nat" where
  "hold_loop btn n held =
     (if btn n \<and> held < SEC_BTN_HOLD_MS then hold_loop btn (n + 1) (held + SEC_BTN_POLL_MS) else (held, n + 1))"
  by auto
termination
  by (relation "measure (\<lambda>(btn, n, held). 3000 - unat held)")
    (auto simp: poll_below word_less_nat_alt btn_consts(1))

declare hold_loop.simps [simp del]

text \<open>\<open>sec_button_task\<close>: one round of its loop.  None is a round that never ends; after \<open>Restart\<close>
  the chip boots again.\<close>

definition sec_button_task ::
  "(nat \<Rightarrow> bool) \<Rightarrow> nat \<Rightarrow> ('s, 'z) ppp_st_scheme \<Rightarrow> (nat \<times> ('s, 'z) ppp_st_scheme) option" where
  "sec_button_task btn n s =
     (if \<not> btn n then Some (n + 1, s)
      else case hold_loop btn (n + 1) 0 of (held, n) \<Rightarrow>
        if held < SEC_BTN_DEBOUNCE_MS then Some (n, s)
        else if held < SEC_BTN_HOLD_MS then Some (n, led_show (ppp_link_secure_get s) s)
        else
          let cur = ppp_link_secure_saved s;
              nxt = (if cur = BTSEC_OFF then BTSEC_ON else if cur = BTSEC_ON then BTSEC_AUTO else BTSEC_OFF);
              s = ppp_link_secure_save nxt s;
              s = led_show nxt s
          in case wait_release btn n of None \<Rightarrow> None | Some n \<Rightarrow> Some (n, emit Restart s))"

definition sec_button_start :: "bool \<Rightarrow> 'z app_sh_scheme \<Rightarrow> 'z app_sh_scheme" where
  "sec_button_start created s =
     (let s = emit GpioConfig (emit GpioConfig s);
          s = led_set False s
      in gw_safe_task_create created SecButtonTask s)"

section \<open>Facts\<close>

lemma led_blink_eq: "led_blink k s = s\<lparr>calls := calls s @ concat (replicate k [LedSet True, LedSet False])\<rparr>"
  by (induction k arbitrary: s) (simp_all add: led_set_def emit_def)

lemma held_less: "j \<le> 150 \<Longrightarrow> x \<le> 3000 \<Longrightarrow> ((of_nat (20 * j) :: u32) < of_nat x) = (20 * j < x)"
  unfolding word_less_nat_alt unat_of_nat by simp

lemma hold_loop_eq:
  assumes "\<And>i. i < k \<Longrightarrow> btn (n + i)" and "j + k \<le> 150" and "\<not> btn (n + k) \<or> j + k = 150"
  shows "hold_loop btn n (of_nat (20 * j)) = (of_nat (20 * (j + k)), n + k + 1)"
  using assms
proof (induction k arbitrary: n j)
  case 0
  then show ?case by (subst hold_loop.simps) (auto simp: btn_consts)
next
  case (Suc k)
  have d: "btn n" using Suc.prems(1) [of 0] by simp
  have "hold_loop btn (n + 1) (of_nat (20 * (j + 1))) = (of_nat (20 * (j + 1 + k)), n + 1 + k + 1)"
    using Suc.prems by (intro Suc.IH) (use Suc.prems(1) [of "Suc _"] in auto)
  moreover have "(of_nat (20 * j) :: u32) < SEC_BTN_HOLD_MS"
    using Suc.prems(2) held_less [of j 3000] by (simp add: btn_consts)
  moreover have "of_nat (20 * j) + SEC_BTN_POLL_MS = of_nat (20 * (j + 1))" by (simp add: btn_consts)
  ultimately show ?case using d by (subst hold_loop.simps) (simp del: of_nat_mult of_nat_add)
qed

lemma wait_release_returns:
  assumes "\<And>i. i < k \<Longrightarrow> btn (n + i)" and "\<not> btn (n + k)"
  shows "wait_release btn n = Some (n + k + 1)"
  using assms
proof (induction k arbitrary: n)
  case 0
  then show ?case by (simp add: wait_release.simps)
next
  case (Suc k)
  have "wait_release btn (n + 1) = Some (n + 1 + k + 1)"
    using Suc.prems by (intro Suc.IH) (use Suc.prems(1) [of "Suc _"] in auto)
  then show ?case using Suc.prems(1) [of 0] by (subst wait_release.simps) simp
qed

text \<open>A press: the button is down for \<open>k\<close> further readings and then up.\<close>

definition press :: "(nat \<Rightarrow> bool) \<Rightarrow> nat \<Rightarrow> nat \<Rightarrow> bool" where
  "press btn n k \<longleftrightarrow> (\<forall>i\<le>k. btn (n + i)) \<and> \<not> btn (n + k + 1)"

definition step_mode :: "btsec_mode_t \<Rightarrow> btsec_mode_t" where
  "step_mode m = (case m of BTSEC_OFF \<Rightarrow> BTSEC_ON | BTSEC_ON \<Rightarrow> BTSEC_AUTO | BTSEC_AUTO \<Rightarrow> BTSEC_OFF)"

definition blinks :: "btsec_mode_t \<Rightarrow> dcall list" where
  "blinks m = concat (replicate (case m of BTSEC_OFF \<Rightarrow> 1 | BTSEC_ON \<Rightarrow> 3 | BTSEC_AUTO \<Rightarrow> 2) [LedSet True, LedSet False])"

lemma led_show_eq: "led_show m s = s\<lparr>calls := calls s @ blinks m\<rparr>"
  by (cases m) (simp_all add: led_show_def led_blink_eq blinks_def Let_def)

lemma press_hold:
  assumes "press btn n k"
  shows "k \<le> 150 \<Longrightarrow> hold_loop btn (n + 1) 0 = (of_nat (20 * k), n + k + 2)"
    and "150 \<le> k \<Longrightarrow> hold_loop btn (n + 1) 0 = (3000, n + 152)"
proof -
  have d: "btn (n + 1 + i)" if "i < k" for i
    using assms that unfolding press_def by (metis Suc_leI add.assoc plus_1_eq_Suc)
  show "k \<le> 150 \<Longrightarrow> hold_loop btn (n + 1) 0 = (of_nat (20 * k), n + k + 2)"
    using hold_loop_eq [of k btn "n + 1" 0] d assms by (simp add: press_def)
  show "150 \<le> k \<Longrightarrow> hold_loop btn (n + 1) 0 = (3000, n + 152)"
    using hold_loop_eq [of 150 btn "n + 1" 0] d by simp
qed

section \<open>Properties\<close>

text \<open>C35: The button.  A press shorter than 60 ms, or no press, does nothing; one shorter than three
  seconds blinks the mode in effect and changes nothing; a longer one saves the successor of the
  saved mode, blinks it, and then waits: the task ends with the reboot as its last act, at the reading after
  the first one that shows the button up, number n + k + 1, however long the press was.  Three long presses come back to the same mode, and after a successful write the next start of
  the link has the new mode.\<close>

theorem sec_button_modes:
  fixes s :: "('i, 'z) ppp_st_scheme" and b :: "('i, 'y) ppp_st_scheme"
  assumes p: "press btn n k"
  defines "m \<equiv> step_mode (ppp_link_secure_saved s)"
  shows "(k < 3 \<longrightarrow> sec_button_task btn n s = Some (n + k + 2, s)) \<and>
     (3 \<le> k \<longrightarrow> k < 150 \<longrightarrow> sec_button_task btn n s = Some (n + k + 2, s\<lparr>calls := calls s @ blinks (ppp_link_secure_get s)\<rparr>)) \<and>
     (150 < k \<longrightarrow> sec_button_task btn n s =
       Some (n + k + 2, s\<lparr>wifi_dev := nvs_secure_save m (wifi_dev s), calls := calls s @ blinks m @ [Restart]\<rparr>)) \<and>
     (m \<noteq> ppp_link_secure_saved s \<and> step_mode (step_mode m) = ppp_link_secure_saved s) \<and>
     (dev_ok (wifi_dev s) \<longrightarrow> secure_written m (wifi_dev s) \<longrightarrow> nvs_open (nvs_secure_save m (wifi_dev s)) False = ESP_OK \<longrightarrow> wifi_dev b = nvs_secure_save m (wifi_dev s) \<longrightarrow> ppp_link_init c len hs b = Some b' \<longrightarrow> link_mode b' = m)"
proof (rule conjI5; (intro impI)?)
  have d: "btn n" using p unfolding press_def by (metis add.right_neutral le0)
  note lts = held_less [of k 50] held_less [of k 3000]
  show "k < 3 \<Longrightarrow> sec_button_task btn n s = Some (n + k + 2, s)"
    "3 \<le> k \<Longrightarrow> k < 150 \<Longrightarrow>
      sec_button_task btn n s = Some (n + k + 2, s\<lparr>calls := calls s @ blinks (ppp_link_secure_get s)\<rparr>)"
    using press_hold(1) [OF p] d lts by (simp_all add: sec_button_task_def btn_consts led_show_eq)
  have m: "m = (if ppp_link_secure_saved s = BTSEC_OFF then BTSEC_ON
      else if ppp_link_secure_saved s = BTSEC_ON then BTSEC_AUTO else BTSEC_OFF)"
    by (cases "ppp_link_secure_saved s") (simp_all add: m_def step_mode_def)
  show "sec_button_task btn n s =
      Some (n + k + 2, s\<lparr>wifi_dev := nvs_secure_save m (wifi_dev s), calls := calls s @ blinks m @ [Restart]\<rparr>)" if k: "150 < k"
  proof -
    have "btn (n + 152 + i)" if "i < k - 151" for i
    proof -
      have "152 + i \<le> k" using that by simp
      with p have "btn (n + (152 + i))" unfolding press_def by blast
      then show ?thesis by (simp add: add.assoc)
    qed
    moreover have "\<not> btn (n + 152 + (k - 151))" using p k by (simp add: press_def)
    ultimately have "wait_release btn (n + 152) = Some (n + 152 + (k - 151) + 1)"
      by (rule wait_release_returns)
    moreover have "n + 152 + (k - 151) + 1 = n + k + 2" using k by simp
    ultimately show ?thesis
      using press_hold(2) [OF p] k d
      by (auto simp: sec_button_task_def btn_consts led_show_eq Let_def m [symmetric] ppp_link_secure_save_def emit_def)
  qed
  show "m \<noteq> ppp_link_secure_saved s \<and> step_mode (step_mode m) = ppp_link_secure_saved s"
    by (cases "ppp_link_secure_saved s") (simp_all add: m_def step_mode_def)
  have mode: "link_mode (fold (\<lambda>r. emit (SdpRegister r)) rs x) = link_mode x" for rs and x :: "('i, 'y) ppp_st_scheme"
    by (induction rs arbitrary: x) simp_all
  assume "dev_ok (wifi_dev s)" "secure_written m (wifi_dev s)" "nvs_open (nvs_secure_save m (wifi_dev s)) False = ESP_OK"
    and b: "wifi_dev b = nvs_secure_save m (wifi_dev s)" and i: "ppp_link_init c len hs b = Some b'"
  then have "nvs_secure_load (wifi_dev b) = m" using secset.load_save [of "wifi_dev s" m] by simp
  then show "link_mode b' = m"
    using i mode by (auto simp: ppp_link_init_def Let_def split: if_splits option.splits)
qed

text \<open>A press of 200 readings, then up for good, on a bridge that has never saved a mode.\<close>

theorem sec_button_modes_witness:
  "sec_button_task (\<lambda>n. 5 \<le> n \<and> n \<le> 6) 5 (ppp_boot map_dev) = Some (8, ppp_boot map_dev) \<and>
   sec_button_task (\<lambda>n. 5 \<le> n \<and> n \<le> 205) 5 (ppp_boot map_dev) =
      Some (207, (ppp_boot map_dev)\<lparr>wifi_dev := nvs_secure_save BTSEC_OFF map_dev, calls := [LedSet True, LedSet False, Restart]\<rparr>)"
proof -
  have p: "press (\<lambda>n. 5 \<le> n \<and> n \<le> 6) 5 1" "press (\<lambda>n. 5 \<le> n \<and> n \<le> 205) 5 200" by (auto simp: press_def)
  have m: "step_mode (ppp_link_secure_saved (ppp_boot map_dev)) = BTSEC_OFF"
    by (simp add: ppp_link_secure_saved_def nvs_secure_load_def step_mode_def)
  show ?thesis
    using sec_button_modes [OF p(1), of "ppp_boot map_dev", THEN conjunct1] sec_button_modes [OF p(2), of "ppp_boot map_dev", THEN part3]
    by (simp add: m blinks_def)
qed

end
