(* ===== verification/Settings.thy ===== *)
theory Settings
  imports SecButton ProxySettings
begin

text \<open>
  The settings the modules keep in the one NVS namespace of the firmware, seen together: saving one never
  disturbs another, and any sequence of saves is what the abstract settings record says.
\<close>

text \<open>A store that has room: it opens and takes every write, whatever its contents.\<close>

definition dev_accepts :: "('i, 'b) nvs_dev \<Rightarrow> bool" where
  "dev_accepts d \<longleftrightarrow> dev_ok d \<and> (\<forall>d' k. dev_ops d' = dev_ops d \<longrightarrow>
     (\<forall>rw. nvs_open d' rw = ESP_OK) \<and> (\<forall>v. fst (nvs_set_str d' k v) = ESP_OK) \<and> (\<forall>v. fst (nvs_set_u8 d' k v) = ESP_OK) \<and>
     (\<forall>v. fst (nvs_set_u16 d' k v) = ESP_OK) \<and> fst (nvs_erase_key d' k) \<in> {ESP_OK, ESP_ERR_NVS_NOT_FOUND})"

lemma dev_accepts_map: "dev_accepts \<lparr>dev_ops = map_ops, dev_img = m\<rparr>"
  unfolding dev_accepts_def
proof (intro conjI allI impI)
  show "dev_ok \<lparr>dev_ops = map_ops, dev_img = m\<rparr>" by (rule dev_ok_map_ops)
qed (simp_all add: nvs_defs map_ops_def)

text \<open>What the web pages and the button save.\<close>

datatype set_op = SetName "string option" | SetFlags u8 | SetMode btsec_mode_t | SetProxy bool string u16

definition op_legal :: "set_op \<Rightarrow> bool" where
  "op_legal x = (case x of SetProxy on host port \<Rightarrow> length host < PROXY_HOST_MAX | _ \<Rightarrow> True)"

fun set_step :: "set_op \<Rightarrow> ('s, 'z) ppp_st_scheme \<Rightarrow> ('s, 'z) ppp_st_scheme" where
  "set_step (SetName n) s = bt_name_set n s"
| "set_step (SetFlags v) s = debug_log_set v s"
| "set_step (SetMode m) s = ppp_link_secure_save m s"
| "set_step (SetProxy on host port) s = s\<lparr>wifi_dev := snd (proxy_set on host port (wifi_dev s))\<rparr>"

text \<open>The abstract settings: one value each, replaced on its own.\<close>

record settings =
  st_name :: string
  st_flags :: u8
  st_mode :: btsec_mode_t
  st_proxy :: px_cfg
  st_nets :: "wifi_list_t option"

fun set_spec :: "set_op \<Rightarrow> settings \<Rightarrow> settings" where
  "set_spec (SetName n) a = a\<lparr>st_name := name_clean n\<rparr>"
| "set_spec (SetFlags v) a = a\<lparr>st_flags := v AND DBG_ALL\<rparr>"
| "set_spec (SetMode m) a = a\<lparr>st_mode := m\<rparr>"
| "set_spec (SetProxy on host port) a = a\<lparr>st_proxy := cfg_apply on host port\<rparr>"

definition stored :: "('i, wifi_list_t) nvs_dev \<Rightarrow> settings" where
  "stored d = \<lparr>st_name = (case nvs_name_load d of None \<Rightarrow> [] | Some n \<Rightarrow> n),
     st_flags = (case nvs_flags_load d of None \<Rightarrow> 0 | Some f \<Rightarrow> f), st_mode = nvs_secure_load d,
     st_proxy = settings_load d, st_nets = nvs_list_load d\<rparr>"

text \<open>The key sets are disjoint.\<close>

definition op_keys :: "set_op \<Rightarrow> string set" where
  "op_keys x = (case x of SetName n \<Rightarrow> {name_key} | SetFlags v \<Rightarrow> {flags_key} | SetMode m \<Rightarrow> {secure_key}
     | SetProxy on host port \<Rightarrow> px_keys)"

lemma keys_differ:
  "name_key \<notin> {flags_key, secure_key, wl_key} \<union> px_keys" "flags_key \<notin> {name_key, secure_key, wl_key} \<union> px_keys"
  "secure_key \<notin> {name_key, flags_key, wl_key} \<union> px_keys" "wl_key \<notin> {name_key, flags_key, secure_key} \<union> px_keys"
  by (simp_all add: name_key_def flags_key_def secure_key_def wl_key_def)

lemma set_step_dev:
  fixes s :: "('i, 'z) ppp_st_scheme"
  shows "wifi_dev (bt_name_set n s) = nvs_name_save (name_clean n) (wifi_dev s)"
    and "wifi_dev (debug_log_set v s) = nvs_flags_save (v AND DBG_ALL) (wifi_dev s)"
    and "wifi_dev (ppp_link_secure_save m s) = nvs_secure_save m (wifi_dev s)"
  by (simp_all add: bt_name_set_def debug_log_set_def ppp_link_secure_save_def Let_def)

lemma set_step_same:
  fixes s :: "('i, 'z) ppp_st_scheme"
  assumes "dev_ok (wifi_dev s)"
  shows "dev_same (op_keys x) (wifi_dev s) (wifi_dev (set_step x s))"
  using nameset.save_frame [OF assms] flagset.save_frame [OF assms] secset.save_frame [OF assms] proxy_set_frame [OF assms]
  by (cases x) (simp_all add: op_keys_def set_step_dev)

lemma ops_kept:
  "dev_ops (snd (nvs_set_str d k v)) = dev_ops d" "dev_ops (snd (nvs_set_u8 d k w)) = dev_ops d"
  by (simp_all add: nvs_defs)

lemma accepts_same: "dev_same K d d' \<Longrightarrow> dev_accepts d \<Longrightarrow> dev_accepts d'"
  using dev_same_ok [of K d d'] by (simp add: dev_accepts_def dev_same_def)

lemma set_step_stored:
  fixes s :: "('i, 'z) ppp_st_scheme"
  assumes a: "dev_accepts (wifi_dev s)" and l: "op_legal x"
  shows "stored (wifi_dev (set_step x s)) = set_spec x (stored (wifi_dev s))"
proof -
  let ?d = "wifi_dev s" and ?d' = "wifi_dev (set_step x s)"
  have ok: "dev_ok ?d" using a by (simp add: dev_accepts_def)
  have same: "dev_same (op_keys x) ?d ?d'" by (rule set_step_same [OF ok])
  have a': "dev_accepts ?d'" by (rule accepts_same [OF same a])
  have o: "nvs_open ?d' False = ESP_OK" "nvs_open ?d' False = nvs_open ?d False"
    using a a' by (simp_all add: dev_accepts_def)
  note keep = nameset.load_frame [OF same _ o(2)] flagset.load_frame [OF same _ o(2)] secset.load_frame [OF same _ o(2)]
    pxset.load_frame [OF same _ o(2)] wlset.load_frame [OF same _ o(2)]
  have dis: "wl_key \<notin> op_keys x" "(case x of SetName n \<Rightarrow> True | _ \<Rightarrow> name_key \<notin> op_keys x)"
    "(case x of SetFlags v \<Rightarrow> True | _ \<Rightarrow> flags_key \<notin> op_keys x)" "(case x of SetMode m \<Rightarrow> True | _ \<Rightarrow> secure_key \<notin> op_keys x)"
    "(case x of SetProxy on host port \<Rightarrow> True | _ \<Rightarrow> op_keys x \<inter> px_keys = {})"
    using keys_differ by (auto simp: op_keys_def split: set_op.split)
  have w: "name_written n ?d" "flags_written v ?d" "secure_written m ?d" for n v m
    using a by (simp_all add: dev_accepts_def name_written_def flags_written_def secure_written_def)
  show ?thesis
  proof (cases x)
    case (SetName n)
    have "nvs_name_load ?d' = (if name_clean n = [] then None else Some (name_clean n))"
      using nameset.load_save [OF ok, of "name_clean n"] w(1) o(1) name_clean_fits [of n] SetName
      by (simp add: set_step_dev name_consts)
    then show ?thesis using keep dis SetName by (simp add: stored_def)
  next
    case (SetFlags v)
    have "nvs_flags_load ?d' = flags_stored (v AND DBG_ALL)"
      using flagset.load_save [OF ok, of "v AND DBG_ALL"] w(2) o(1) SetFlags by (simp add: set_step_dev and.assoc)
    then show ?thesis using keep dis SetFlags by (simp add: stored_def flags_stored_def)
  next
    case (SetMode m)
    have "nvs_secure_load ?d' = m"
      using secset.load_save [OF ok, of m] w(3) o(1) SetMode by (simp add: set_step_dev)
    then show ?thesis using keep dis SetMode by (simp add: stored_def)
  next
    case (SetProxy on host port)
    have "save_ok on host port ?d"
      using a by (simp add: save_ok_def dev_accepts_def Let_def ops_kept)
    then have "settings_load ?d' = cfg_apply on host port"
      using pxset.load_save [OF ok, of "(on, host, port)"] o(1) SetProxy l
      by (simp add: op_legal_def proxy_set_def)
    then show ?thesis using keep dis SetProxy by (simp add: stored_def)
  qed
qed

lemma set_steps_stored:
  fixes s :: "('i, 'z) ppp_st_scheme"
  assumes "dev_accepts (wifi_dev s)" and "list_all op_legal xs"
  shows "stored (wifi_dev (fold set_step xs s)) = fold set_spec xs (stored (wifi_dev s))"
  using assms
proof (induction xs arbitrary: s)
  case (Cons x xs)
  have "dev_accepts (wifi_dev (set_step x s))"
    using accepts_same [OF set_step_same] Cons.prems(1) by (metis dev_accepts_def)
  then show ?case using Cons set_step_stored [OF Cons.prems(1), of x] by simp
qed simp

end
