(* ===== verification/Bridge.thy ===== *)
theory Bridge
  imports Settings Bookmarks
begin

text \<open>
  The whole bridge: what each module may do to the state the others rely on, the bring-up of
  \<open>main/gateway.c\<close>, the step relation of everything that can happen afterwards, and the invariants
  of its runs.
\<close>

section \<open>What the WiFi module may change\<close>

abbreviation is_nat :: "task \<Rightarrow> bool" where
  "is_nat t \<equiv> t = NatUpdate"

text \<open>Whether the last call left the bridge discoverable.\<close>

definition discoverable :: "dcall list \<Rightarrow> bool" where
  "discoverable cs = fold (\<lambda>c v. case c of GapDiscoverable b \<Rightarrow> b | _ \<Rightarrow> v) cs False"

lemma discoverable_Nil [simp]: "\<not> discoverable []"
  by (simp add: discoverable_def)

lemma discoverable_append [simp]:
  "discoverable (cs @ ds) = fold (\<lambda>c v. case c of GapDiscoverable b \<Rightarrow> b | _ \<Rightarrow> v) ds (discoverable cs)"
  by (simp add: discoverable_def)

text \<open>The state shown fits the link and the network.\<close>

definition shown_ok :: "('s, 'z) wifi_st_scheme \<Rightarrow> bool" where
  "shown_ok s \<longleftrightarrow> \<not> wifi_ignore_disconnect s \<and>
     (app_state s = APP_BRIDGE \<longrightarrow> ppp_up_flag s \<and> wifi_connected s) \<and>
     (app_state s = APP_BRIDGE_NO_WIFI \<longrightarrow> ppp_up_flag s \<and> \<not> wifi_connected s)"

text \<open>The effect of the WiFi module's operations on everything else: nothing behind its own record, not
  the Bluetooth side, not the kick; a change of the connection leaves a NAT update queued; and a
  fitting state shown stays fitting.\<close>

definition wifi_eff :: "('s, 'z) wifi_st_scheme \<Rightarrow> ('s, 'z) wifi_st_scheme \<Rightarrow> bool" where
  "wifi_eff s t \<longleftrightarrow> wifi_st.more t = wifi_st.more s \<and> bt_connected t = bt_connected s \<and>
     ppp_up_flag t = ppp_up_flag s \<and> queued_of is_kick t = queued_of is_kick s \<and>
     discoverable (calls t) = discoverable (calls s) \<and>
     queued_of is_nat s \<le> queued_of is_nat t \<and> (wifi_connected t \<noteq> wifi_connected s \<longrightarrow> 0 < queued_of is_nat t) \<and>
     (shown_ok s \<longrightarrow> shown_ok t)"

lemma eff_refl [simp]: "wifi_eff s s"
  by (simp add: wifi_eff_def)

lemma eff_trans: "wifi_eff s t \<Longrightarrow> wifi_eff t u \<Longrightarrow> wifi_eff s u"
  by (auto simp: wifi_eff_def)

lemma more_shared [simp]:
  fixes s :: "('s, 'z) wifi_st_scheme"
  shows "wifi_st.more (emit c s) = wifi_st.more s" "wifi_st.more (spawn t s) = wifi_st.more s"
    "wifi_st.more (set_app_state a s) = wifi_st.more s" "wifi_st.more (unqueue p s) = wifi_st.more s"
  by (cases s, simp add: emit_def spawn_def set_app_state_eq unqueue_def)+

lemma eff_emit [simp]: "(case c of GapDiscoverable b \<Rightarrow> False | _ \<Rightarrow> True) \<Longrightarrow> wifi_eff s (emit c s)"
  by (auto simp: wifi_eff_def shown_ok_def split: dcall.splits)

lemma eff_spawn [simp]: "t \<noteq> WifiKick \<Longrightarrow> wifi_eff s (spawn t s)"
  by (auto simp: wifi_eff_def shown_ok_def)

lemma unqueue_sel [simp]:
  "app_state (unqueue p s) = app_state s" "bt_connected (unqueue p s) = bt_connected s"
  "ppp_up_flag (unqueue p s) = ppp_up_flag s" "calls (unqueue p s) = calls s"
  by (simp_all add: unqueue_def)

lemma eff_unqueue [simp]: "wifi_eff s (unqueue is_retry s)" "wifi_eff s (unqueue is_recovery s)"
proof -
  have o: "queued_of is_kick (unqueue q s) = queued_of is_kick s" "queued_of is_nat (unqueue q s) = queued_of is_nat s"
    if "\<not> q WifiKick" "\<not> q NatUpdate" for q
    using that by (auto intro!: queued_of_unqueue_other)
  show "wifi_eff s (unqueue is_retry s)" "wifi_eff s (unqueue is_recovery s)"
    by (simp_all add: wifi_eff_def o shown_ok_def)
qed

lemma eff_state [simp]: "a \<noteq> APP_BRIDGE \<Longrightarrow> a \<noteq> APP_BRIDGE_NO_WIFI \<Longrightarrow> wifi_eff s (set_app_state a s)"
  by (auto simp: wifi_eff_def shown_ok_def)

lemma eff_upd [simp]:
  fixes s :: "('s, 'z) wifi_st_scheme"
  shows "wifi_eff s (s\<lparr>wifi_list := l\<rparr>)" "wifi_eff s (s\<lparr>wifi_retries := n\<rparr>)" "wifi_eff s (s\<lparr>wifi_retry_delay_ms := d\<rparr>)"
    "wifi_eff s (s\<lparr>wifi_rssi := i\<rparr>)" "wifi_eff s (s\<lparr>wifi_cur_ssid := x\<rparr>)" "wifi_eff s (s\<lparr>wifi_ip := x\<rparr>)"
    "wifi_eff s (s\<lparr>scan_in_progress := b\<rparr>)" "wifi_eff s (s\<lparr>candidates := cs\<rparr>)" "wifi_eff s (s\<lparr>cand_rssi := rs\<rparr>)"
    "wifi_eff s (s\<lparr>cand_count := n\<rparr>)" "wifi_eff s (s\<lparr>cand_index := n\<rparr>)" "wifi_eff s (s\<lparr>cand_attempts := n\<rparr>)"
    "wifi_eff s (s\<lparr>wifi_retry_running := b\<rparr>)" "wifi_eff s (s\<lparr>wifi_recovery_running := b\<rparr>)"
    "wifi_eff s (s\<lparr>wifi_stuck_count := n\<rparr>)" "wifi_eff s (s\<lparr>wifi_evt_inst := b\<rparr>)" "wifi_eff s (s\<lparr>ip_evt_inst := b\<rparr>)"
    "wifi_eff s (s\<lparr>wifi_dev := dv\<rparr>)"
  by (simp_all add: wifi_eff_def shown_ok_def queued_of_def)

text \<open>Chains are split from the outside.\<close>

lemma eff_chain:
  "wifi_eff s t \<Longrightarrow> (case c of GapDiscoverable b \<Rightarrow> False | _ \<Rightarrow> True) \<Longrightarrow> wifi_eff s (emit c t)"
  "wifi_eff s t \<Longrightarrow> k \<noteq> WifiKick \<Longrightarrow> wifi_eff s (spawn k t)"
  "wifi_eff s t \<Longrightarrow> a \<noteq> APP_BRIDGE \<Longrightarrow> a \<noteq> APP_BRIDGE_NO_WIFI \<Longrightarrow> wifi_eff s (set_app_state a t)"
  by (blast intro: eff_trans eff_emit eff_spawn eff_state)+

lemma eff_chain_upd:
  fixes s t :: "('s, 'z) wifi_st_scheme"
  assumes "wifi_eff s t"
  shows "wifi_eff s (t\<lparr>wifi_list := l\<rparr>)" "wifi_eff s (t\<lparr>wifi_retries := n\<rparr>)" "wifi_eff s (t\<lparr>wifi_retry_delay_ms := d\<rparr>)"
    "wifi_eff s (t\<lparr>wifi_rssi := i\<rparr>)" "wifi_eff s (t\<lparr>wifi_cur_ssid := x\<rparr>)" "wifi_eff s (t\<lparr>wifi_ip := x\<rparr>)"
    "wifi_eff s (t\<lparr>scan_in_progress := b\<rparr>)" "wifi_eff s (t\<lparr>candidates := cs\<rparr>)" "wifi_eff s (t\<lparr>cand_rssi := rs\<rparr>)"
    "wifi_eff s (t\<lparr>cand_count := n\<rparr>)" "wifi_eff s (t\<lparr>cand_index := n\<rparr>)" "wifi_eff s (t\<lparr>cand_attempts := n\<rparr>)"
    "wifi_eff s (t\<lparr>wifi_retry_running := b\<rparr>)" "wifi_eff s (t\<lparr>wifi_recovery_running := b\<rparr>)"
    "wifi_eff s (t\<lparr>wifi_stuck_count := n\<rparr>)" "wifi_eff s (t\<lparr>wifi_evt_inst := b\<rparr>)" "wifi_eff s (t\<lparr>ip_evt_inst := b\<rparr>)"
    "wifi_eff s (t\<lparr>wifi_dev := dv\<rparr>)"
  by (rule eff_trans [OF assms], simp)+

lemma eff_schedule: "wifi_eff s t \<Longrightarrow> wifi_eff s (wifi_schedule_retry e d t)"
  by (simp add: wifi_schedule_retry_def Let_def eff_chain eff_chain_upd)

lemma eff_failed: "wifi_eff s t \<Longrightarrow> wifi_eff s (wifi_cycle_failed e t)"
  by (simp add: wifi_cycle_failed_def Let_def eff_chain eff_chain_upd eff_schedule)

lemma eff_begin: "wifi_eff s t \<Longrightarrow> wifi_eff s (wifi_connect_begin e t)"
  by (simp add: wifi_connect_begin_def Let_def eff_chain eff_chain_upd eff_schedule eff_failed)

lemma eff_try: "wifi_eff s t \<Longrightarrow> wifi_eff s (wifi_try_candidate e t)"
  by (simp add: wifi_try_candidate_def Let_def eff_chain eff_chain_upd eff_schedule)

lemma eff_scan: "wifi_eff s (handle_scan_done e sc s)"
proof (cases "scan_in_progress s")
  case True
  have "wifi_eff s (after_scan sc s)" by (simp add: after_scan_def Let_def eff_chain eff_chain_upd)
  then show ?thesis by (simp add: handle_scan_done_eq [OF True] eff_failed eff_try eff_chain_upd)
qed (simp add: handle_scan_done_def)

lemma eff_next: "wifi_eff s t \<Longrightarrow> wifi_eff s (next_attempt e t)"
  by (simp add: next_attempt_def Let_def eff_chain eff_chain_upd eff_try eff_failed)

lemma eff_disconnected: "wifi_eff s (on_disconnected e s)"
proof (cases "app_state s = APP_BRIDGE")
  case True
  have "wifi_eff s (set_app_state APP_BRIDGE_NO_WIFI (mark_disconnected s))"
    "wifi_eff s (set_app_state APP_NO_WIFI (mark_disconnected s))"
    using True by (auto simp: wifi_eff_def shown_ok_def mark_disconnected_def update_nat_def queued_of_def)
  moreover have "wifi_eff s (mark_disconnected s)" if "wifi_ignore_disconnect s"
    using True that by (auto simp: wifi_eff_def shown_ok_def mark_disconnected_def update_nat_def queued_of_def)
  ultimately show ?thesis
    using True by (simp add: on_disconnected_def Let_def eff_chain_upd eff_schedule)
next
  case False
  then have "wifi_eff s (mark_disconnected s)"
    by (auto simp: wifi_eff_def shown_ok_def mark_disconnected_def update_nat_def queued_of_def)
  then show ?thesis
    using False by (simp add: on_disconnected_def Let_def eff_chain eff_chain_upd eff_schedule eff_next eff_failed)
qed

lemma eff_got_ip: "wifi_eff s (on_got_ip ip ap s)"
  by (cases ap) (auto simp: on_got_ip_def Let_def wifi_eff_def shown_ok_def update_nat_def queued_of_def ppp_link_up_def)

lemma eff_event: "wifi_eff s (wifi_event_handler e ev s)"
  by (cases ev) (simp_all add: wifi_event_handler_def eff_scan eff_disconnected eff_got_ip)

lemma eff_handlers: "wifi_eff s t \<Longrightarrow> wifi_eff s (wifi_register_handlers t)"
  "wifi_eff s t \<Longrightarrow> wifi_eff s (wifi_unregister_handlers t)"
  by (simp_all add: wifi_register_handlers_def wifi_unregister_handlers_def Let_def eff_chain eff_chain_upd)

lemma eff_retry: "wifi_eff s (wifi_retry_task e (unqueue is_retry s))"
  by (simp add: wifi_retry_task_def Let_def eff_begin eff_chain_upd)

lemma eff_recovery: "wifi_eff s (wifi_recovery_task e (unqueue is_recovery s))"
  by (simp add: wifi_recovery_task_def wifi_soft_reset_def Let_def eff_begin eff_chain eff_chain_upd eff_handlers)

lemma eff_watchdog: "wifi_eff s t \<Longrightarrow> wifi_eff s (wifi_watchdog_check c t)"
  by (simp add: wifi_watchdog_check_def wifi_recover_def gw_safe_task_create_def Let_def eff_chain eff_chain_upd)

lemma eff_lists: "wifi_eff s (snd (wifi_list_add s ssid pass))" "wifi_eff s (snd (wifi_list_remove s i))"
  by (auto simp: wifi_list_add_def wifi_list_remove_def wifi_save_def Let_def eff_chain eff_chain_upd split: option.split)

section \<open>The invariant of the bridge\<close>

text \<open>The part of the state the invariant is about.\<close>

definition core :: "('s, 'z) ppp_st_scheme \<Rightarrow> _" where
  "core s = (wifi_ok s, queued_of is_kick s, wifi_kick_running s, queued_of is_nat s, napt_on s, ppp_up_flag s,
     wifi_connected s, wifi_ignore_disconnect s, app_state s, session_active s, active_cid s, auto_cid s, ppp_pcb s,
     ppp_teardown s, bt_connected s, discoverable (calls s), bt_reopen_timer s)"

text \<open>The invariant, with the state shown when \<open>sb\<close> says so: a reset of the networks gives that part up.\<close>

definition bridge_ok :: "bool \<Rightarrow> ('s, 'z) ppp_st_scheme \<Rightarrow> bool" where
  "bridge_ok sb s \<longleftrightarrow> wifi_ok s \<and> (sb \<longrightarrow> shown_ok s) \<and>
     queued_of is_kick s = (if wifi_kick_running s then 1 else 0) \<and>
     (napt_on s = (ppp_up_flag s \<and> wifi_connected s) \<or> 0 < queued_of is_nat s) \<and>
     session_active s = (active_cid s \<noteq> 0) \<and> (auto_cid s \<noteq> 0 \<longrightarrow> auto_cid s = active_cid s \<and> \<not> ppp_pcb s) \<and>
     (ppp_pcb s \<longrightarrow> active_cid s \<noteq> 0) \<and> (ppp_up_flag s \<longrightarrow> ppp_pcb s) \<and> \<not> ppp_teardown s \<and>
     bt_connected s = ppp_pcb s \<and> (\<not> bt_connected s \<longrightarrow> discoverable (calls s) \<or> bt_reopen_timer s)"

lemma core_bridge:
  assumes "core t = core s" and "bridge_ok sb s"
  shows "bridge_ok sb t"
proof -
  have "bridge_ok sb t = bridge_ok sb s"
    using assms(1) unfolding core_def prod.inject by (elim conjE) (simp only: bridge_ok_def shown_ok_def)
  then show ?thesis using assms(2) by simp
qed

text \<open>Fields behind the WiFi module's record.\<close>

lemma more_fields:
  fixes s t :: "('i, 'z) ppp_st_scheme"
  assumes "wifi_st.more t = wifi_st.more s"
  shows "wifi_kick_running t = wifi_kick_running s" "bt_reopen_timer t = bt_reopen_timer s" "napt_on t = napt_on s"
    "session_active t = session_active s" "active_cid t = active_cid s" "auto_cid t = auto_cid s"
    "ppp_pcb t = ppp_pcb s" "ppp_teardown t = ppp_teardown s"
  using assms by (cases s, cases t, simp)+

lemma eff_bridge:
  fixes s t :: "('i, 'z) ppp_st_scheme"
  assumes e: "wifi_eff s t" and "wifi_ok t" and b: "bridge_ok sb s"
  shows "bridge_ok sb t"
proof -
  have f: "bt_connected t = bt_connected s" "ppp_up_flag t = ppp_up_flag s" "queued_of is_kick t = queued_of is_kick s"
    "discoverable (calls t) = discoverable (calls s)" "wifi_st.more t = wifi_st.more s"
    using e by (simp_all add: wifi_eff_def)
  have n: "napt_on t = (ppp_up_flag t \<and> wifi_connected t) \<or> 0 < queued_of is_nat t"
  proof (cases "wifi_connected t = wifi_connected s \<and> queued_of is_nat t = 0")
    case True
    then have "queued_of is_nat s = 0" using e by (simp add: wifi_eff_def)
    then show ?thesis using True b f more_fields(3) [OF f(5)] by (simp add: bridge_ok_def)
  next
    case False
    then show ?thesis using e by (auto simp: wifi_eff_def)
  qed
  have "sb \<longrightarrow> shown_ok t" using e b by (simp add: wifi_eff_def bridge_ok_def)
  then show ?thesis
    using n b assms(2) unfolding bridge_ok_def by (simp add: f more_fields [OF f(5)])
qed

lemma timer_shared [simp]:
  fixes s :: "('i, 'z) ppp_st_scheme"
  shows "bt_reopen_timer (emit c s) = bt_reopen_timer s" "bt_reopen_timer (spawn t s) = bt_reopen_timer s"
    "bt_reopen_timer (unqueue p s) = bt_reopen_timer s" "bt_reopen_timer (set_app_state a s) = bt_reopen_timer s"
    "wifi_kick_running (set_app_state a s) = wifi_kick_running s"
  by (simp_all add: emit_def spawn_def unqueue_def set_app_state_eq)

lemma wifi_ok_ppp_upd [simp]:
  fixes s :: "('i, 'z) ppp_st_scheme"
  shows "wifi_okr r (s\<lparr>active_cid := c\<rparr>) = wifi_okr r s" "wifi_okr r (s\<lparr>session_active := b\<rparr>) = wifi_okr r s"
    "wifi_okr r (s\<lparr>ppp_teardown := b\<rparr>) = wifi_okr r s" "wifi_okr r (s\<lparr>ppp_pcb := b\<rparr>) = wifi_okr r s"
    "wifi_okr r (s\<lparr>auto_cid := c\<rparr>) = wifi_okr r s" "wifi_okr r (s\<lparr>napt_on := b\<rparr>) = wifi_okr r s"
    "wifi_okr r (s\<lparr>wifi_dev := d\<rparr>) = wifi_okr r s"
  by (simp_all add: wifi_ok_defs queued_of_def)

lemma queued_ppp_upd [simp]:
  fixes s :: "('i, 'z) ppp_st_scheme"
  shows "queued_of p (s\<lparr>active_cid := c\<rparr>) = queued_of p s" "queued_of p (s\<lparr>session_active := b\<rparr>) = queued_of p s"
    "queued_of p (s\<lparr>ppp_teardown := b\<rparr>) = queued_of p s" "queued_of p (s\<lparr>ppp_pcb := b\<rparr>) = queued_of p s"
    "queued_of p (s\<lparr>auto_cid := c\<rparr>) = queued_of p s" "queued_of p (s\<lparr>napt_on := b\<rparr>) = queued_of p s"
    "queued_of p (s\<lparr>ppp_up_flag := b\<rparr>) = queued_of p s" "queued_of p (s\<lparr>bt_connected := b\<rparr>) = queued_of p s"
    "queued_of p (s\<lparr>bt_handle := h\<rparr>) = queued_of p s" "queued_of p (s\<lparr>bt_rssi := r\<rparr>) = queued_of p s"
    "queued_of p (s\<lparr>bt_reopen_timer := b\<rparr>) = queued_of p s" "queued_of p (s\<lparr>wifi_kick_running := b\<rparr>) = queued_of p s"
    "queued_of p (s\<lparr>auto_sec_pending := b\<rparr>) = queued_of p s"
  by (simp_all add: queued_of_def)

text \<open>Changes the invariant does not see.\<close>

lemma core_upd [simp]:
  fixes s :: "('i, 'z) ppp_st_scheme"
  shows "core (s\<lparr>link_mode := m\<rparr>) = core s" "core (s\<lparr>tx_stream := x\<rparr>) = core s"
    "core (s\<lparr>tx_notify_pending := b\<rparr>) = core s" "core (s\<lparr>tx_dropped := w\<rparr>) = core s"
    "core (s\<lparr>ppp_frame_seen := b\<rparr>) = core s" "core (s\<lparr>pre_ppp_reply := p\<rparr>) = core s"
    "core (s\<lparr>auto_handle := h\<rparr>) = core s" "core (s\<lparr>auto_addr := a\<rparr>) = core s"
    "core (s\<lparr>auto_sec_pending := b\<rparr>) = core s" "core (s\<lparr>last_phone_name := n\<rparr>) = core s"
    "core (s\<lparr>last_phone_secured := b\<rparr>) = core s" "core (s\<lparr>last_phone_valid := b\<rparr>) = core s"
    "core (s\<lparr>bt_rssi := r\<rparr>) = core s" "core (s\<lparr>bt_handle := h\<rparr>) = core s" "core (s\<lparr>wifi_dev := d\<rparr>) = core s"
    "core (s\<lparr>name_active := n\<rparr>) = core s" "core (s\<lparr>name_custom := n\<rparr>) = core s" "core (s\<lparr>name_derived := n\<rparr>) = core s"
    "core (s\<lparr>name_pending := b\<rparr>) = core s" "core (s\<lparr>dbg_flags := f\<rparr>) = core s" "core (s\<lparr>dbg_pending := b\<rparr>) = core s"
    "core (s\<lparr>boot_state := bs\<rparr>) = core s" "core (s\<lparr>boot_addr := a\<rparr>) = core s" "core (s\<lparr>target_channel := ch\<rparr>) = core s"
    "core (s\<lparr>target_class_idx := i\<rparr>) = core s" "core (s\<lparr>boot_cid := c\<rparr>) = core s" "core (s\<lparr>boot_timer := t\<rparr>) = core s"
    "core (s\<lparr>done_addrs := ds\<rparr>) = core s"
  by (simp_all add: core_def wifi_ok_defs queued_of_def)

lemma core_emit [simp]: "(case c of GapDiscoverable b \<Rightarrow> False | _ \<Rightarrow> True) \<Longrightarrow> core (emit c s) = core s"
  by (auto simp: core_def split: dcall.splits)

lemma core_spawn [simp]: "foreign t \<Longrightarrow> t \<noteq> WifiKick \<Longrightarrow> t \<noteq> NatUpdate \<Longrightarrow> core (spawn t s) = core s"
  by (simp add: core_def)

lemma core_unqueue:
  fixes s :: "('i, 'z) ppp_st_scheme"
  assumes "foreign t" and "t \<noteq> WifiKick" and "t \<noteq> NatUpdate"
  shows "core (unqueue (\<lambda>x. x = t) s) = core s"
proof -
  have q: "queued_of p (unqueue (\<lambda>x. x = t) s) = queued_of p s" if "\<not> p t" for p
    using that by (intro queued_of_unqueue_other) auto
  have "wifi_ok (unqueue (\<lambda>x. x = t) s) = wifi_ok s"
    using assms by (simp add: wifi_ok_defs q foreign_def)
  then show ?thesis
    using assms by (simp add: core_def q)
qed

lemma foreign_others [simp]: "foreign NameApply" "foreign FlagsApply" "foreign RebootTask"
  by (simp_all add: foreign_def)

section \<open>The quiet operations\<close>

lemma quiet_settings:
  fixes s :: "('i, 'z) ppp_st_scheme"
  shows "core (bt_name_set n s) = core s" "core (debug_log_set v s) = core s" "core (ppp_link_secure_save m s) = core s"
    "core (bt_name_apply_from_addr a s) = core s" "core (apply_to_hci_dump s) = core s"
  by (simp_all add: bt_name_set_def debug_log_set_def ppp_link_secure_save_def bt_name_apply_from_addr_def
      set_active_def apply_to_hci_dump_def Let_def)

lemma quiet_callbacks:
  fixes s :: "('i, 'z) ppp_st_scheme"
  shows "core (name_fire a s) = core s" "core (flags_fire s) = core s" "core (notify_fire s) = core s"
    "core (rssi_poll_cb (unqueue (\<lambda>t. t = RssiPoll) s)) = core s"
  by (simp_all add: name_fire_def name_apply_cb_def flags_fire_def flags_apply_cb_def notify_fire_def tx_notify_cb_def
      rssi_poll_cb_def Let_def quiet_settings core_unqueue)

lemma quiet_boot:
  fixes s :: "('i, 'z) ppp_st_scheme"
  shows "core (bt_bootstrap_on_pairing_complete a s) = core s" "core (boot_timer_handler be s) = core s"
    "core (boot_sdp_handler be es s) = core s" "core (boot_rfcomm_handler be er s) = core s"
proof -
  have r: "core (boot_reset be b u) = core u" for b and u :: "('i, 'z) ppp_st_scheme"
    by (simp add: boot_reset_def Let_def split: option.split)
  have q: "core (boot_query be x u) = core u" for x and u :: "('i, 'z) ppp_st_scheme"
    by (simp add: boot_query_def Let_def r)
  have t: "core (boot_timer_set ms u) = core u" for ms and u :: "('i, 'z) ppp_st_scheme"
    by (simp add: boot_timer_set_def)
  show "core (bt_bootstrap_on_pairing_complete a s) = core s"
    by (simp add: bt_bootstrap_on_pairing_complete_def Let_def t)
  show "core (boot_timer_handler be s) = core s"
    by (simp add: boot_timer_handler_def Let_def r q split: boot_state_t.split)
  show "core (boot_sdp_handler be es s) = core s"
    by (simp add: boot_sdp_handler_def Let_def r q split: sdp_event.split)
  show "core (boot_rfcomm_handler be er s) = core s"
    by (simp add: boot_rfcomm_handler_def Let_def r t split: rf_event.split)
qed

lemma quiet_hci:
  fixes s :: "('i, 'z) ppp_st_scheme"
  shows "core (hci_packet_handler a ev s) = core s"
  by (simp add: hci_packet_handler_def quiet_settings quiet_boot split: hci_event.split)

lemma quiet_data:
  fixes s :: "('i, 'z) ppp_st_scheme"
  shows "core (on_data ch p s) = core s" "core (on_can_send pe s) = core s" "core (snd (ppp_output_cb d s)) = core s"
proof -
  have h: "core (snd (pre_ppp_handshake p ch s)) = core s" by (simp add: pre_ppp_handshake_def Let_def)
  then show "core (on_data ch p s) = core s"
    by (cases "pre_ppp_handshake p ch s") (auto simp: on_data_def)
  show "core (on_can_send pe s) = core s" by (simp add: on_can_send_def Let_def split: option.split)
  show "core (snd (ppp_output_cb d s)) = core s" by (simp add: ppp_output_cb_def Let_def split: prod.split)
qed

section \<open>The operations that matter\<close>

lemma kick_ok: "bridge_ok sb s \<Longrightarrow> bridge_ok sb (gw_wifi_kick_deferred True s)"
  by (auto simp: bridge_ok_def gw_wifi_kick_deferred_def gw_safe_task_create_def shown_ok_def wifi_ok_defs queued_of_def)

lemma queue_split:
  "queued_of is_nat (unqueue is_kick s) = queued_of is_nat s" "queued_of is_kick (unqueue is_nat s) = queued_of is_kick s"
  "queued_of is_retry (unqueue is_kick s) = queued_of is_retry s" "queued_of is_retry (unqueue is_nat s) = queued_of is_retry s"
  "queued_of is_recovery (unqueue is_kick s) = queued_of is_recovery s"
  "queued_of is_recovery (unqueue is_nat s) = queued_of is_recovery s"
  by (auto intro!: queued_of_unqueue_other)

lemma unqueue_wifi [simp]: "wifi_okr r (unqueue is_kick s) = wifi_okr r s" "wifi_okr r (unqueue is_nat s) = wifi_okr r s"
  by (simp_all add: wifi_ok_defs queue_split)

lemma kick_fire_ok:
  fixes s :: "('i, 'z) ppp_st_scheme"
  assumes "bridge_ok sb s" and "0 < queued_of is_kick s"
  shows "bridge_ok sb (kick_fire s)"
proof -
  have "queued_of is_kick s = 1" using assms by (simp add: bridge_ok_def split: if_splits)
  then have "queued_of is_kick (kick_fire s) = 0" "queued_of is_nat (kick_fire s) = queued_of is_nat s"
    using queued_of_unqueue [of is_kick s] queue_split(1) [of s] by (simp_all add: kick_fire_def queued_of_def)
  moreover have "shown_ok (kick_fire s) = shown_ok s" by (simp add: kick_fire_def shown_ok_def)
  ultimately show ?thesis using assms(1)
    by (simp add: bridge_ok_def) (simp add: kick_fire_def)
qed

lemma kick_task_ok:
  fixes s :: "('i, 'z) ppp_st_scheme"
  assumes "bridge_ok sb s" and "0 < queued_of is_kick s"
  shows "bridge_ok sb (wifi_kick_task e (unqueue is_kick s))"
proof -
  have k: "bridge_ok sb (kick_fire s)" using kick_fire_ok [OF assms] .
  then have "bridge_ok sb (wifi_connect_begin e (kick_fire s))"
    by (intro eff_bridge [OF eff_begin [OF eff_refl]] connect_begin_ok) (simp_all add: bridge_ok_def)
  then show ?thesis using k by (simp add: wifi_kick_task_def kick_fire_def [symmetric] Let_def)
qed

lemma nat_ok:
  fixes s :: "('i, 'z) ppp_st_scheme"
  assumes "bridge_ok sb s"
  shows "bridge_ok sb (update_nat_lwip_ctx (unqueue is_nat s))"
  using assms queue_split(2) [of s]
  by (simp add: update_nat_lwip_ctx_def Let_def bridge_ok_def shown_ok_def get_wifi_connected_def)

lemma timer_ok: "bridge_ok sb s \<Longrightarrow> bridge_ok sb (bt_reopen_timer_handler (s\<lparr>bt_reopen_timer := False\<rparr>))"
  by (auto simp: bt_reopen_timer_handler_def bt_set_visible_def get_bt_connected_def bridge_ok_def shown_ok_def)


lemma shown_upd:
  fixes s :: "('i, 'z) ppp_st_scheme"
  shows "shown_ok (s\<lparr>active_cid := c\<rparr>) = shown_ok s" "shown_ok (s\<lparr>session_active := b\<rparr>) = shown_ok s"
    "shown_ok (s\<lparr>auto_cid := c\<rparr>) = shown_ok s" "shown_ok (s\<lparr>ppp_pcb := b\<rparr>) = shown_ok s"
    "shown_ok (s\<lparr>ppp_teardown := b\<rparr>) = shown_ok s" "shown_ok (emit d s) = shown_ok s"
    "shown_ok (s\<lparr>auto_sec_pending := b\<rparr>) = shown_ok s"
  by (simp_all add: shown_ok_def)

lemma release_ok: "bridge_ok sb s \<Longrightarrow> bridge_ok sb (auto_release s)"
proof -
  have "core ((s\<lparr>auto_cid := 0\<rparr>)\<lparr>auto_sec_pending := False\<rparr>) = core (s\<lparr>auto_cid := 0\<rparr>)" by (rule core_upd)
  then have c: "core (auto_release s) = core (s\<lparr>auto_cid := 0\<rparr>)" by (simp add: auto_release_def)
  assume "bridge_ok sb s"
  then have "bridge_ok sb (s\<lparr>auto_cid := 0\<rparr>)" by (simp add: bridge_ok_def shown_upd)
  from core_bridge [OF c this] show ?thesis .
qed

lemma quiet_ok:
  "bridge_ok sb s \<Longrightarrow> (case c of GapDiscoverable b \<Rightarrow> False | _ \<Rightarrow> True) \<Longrightarrow> bridge_ok sb (emit c s)"
  "bridge_ok sb s \<Longrightarrow> bridge_ok sb (s\<lparr>auto_sec_pending := b\<rparr>)"
  by (erule core_bridge [rotated], simp)+

text \<open>Giving the channel up before PPP runs on it.\<close>

lemma drop_ok:
  fixes s :: "('i, 'z) ppp_st_scheme"
  shows "bridge_ok sb s \<Longrightarrow> \<not> ppp_pcb s \<Longrightarrow> auto_cid s = 0 \<Longrightarrow> bridge_ok sb (s\<lparr>session_active := False, active_cid := 0\<rparr>)"
  by (auto simp: bridge_ok_def shown_upd)

lemma release_sel [simp]:
  "auto_cid (auto_release s) = 0" "ppp_pcb (auto_release s) = ppp_pcb s" "active_cid (auto_release s) = active_cid s"
  "session_active (auto_release s) = session_active s"
  by (simp_all add: auto_release_def)

lemma held_not_open: "bridge_ok sb s \<Longrightarrow> auto_cid s \<noteq> 0 \<Longrightarrow> \<not> ppp_pcb s \<and> active_cid s = auto_cid s \<and> session_active s"
  by (simp add: bridge_ok_def)

lemma decide_ok:
  fixes s :: "('i, 'z) ppp_st_scheme"
  assumes "bridge_ok sb s"
  shows "bridge_ok sb (auto_decide n s)"
proof -
  have "bridge_ok sb (s\<lparr>last_phone_name := x, last_phone_secured := b, last_phone_valid := True\<rparr>)" for x b
    by (rule core_bridge [OF _ assms]) simp
  then show ?thesis by (simp add: auto_decide_def Let_def quiet_ok release_ok)
qed

lemma auto_ok:
  fixes s :: "('i, 'z) ppp_st_scheme"
  assumes b: "bridge_ok sb s"
  shows "bridge_ok sb (auto_hci_handler av s)"
proof -
  have "bridge_ok sb (auto_fail s)" if "auto_cid s \<noteq> 0"
    using b held_not_open [OF b that] by (simp add: auto_fail_def Let_def quiet_ok release_ok drop_ok)
  then show ?thesis
    using b by (simp add: auto_hci_handler_def decide_ok Let_def quiet_ok release_ok split: auto_event.split)
qed

section \<open>The phone comes and goes\<close>

definition env_ok :: "ppp_env \<Rightarrow> bool" where
  "env_ok pe \<longleftrightarrow> pe_task pe \<and> pe_close pe \<noteq> 0"

text \<open>What RFCOMM reports: channel numbers are not zero, and a channel opens, or fails to, once, after it
  was accepted.\<close>

definition rf_legal :: "('s, 'z) ppp_st_scheme \<Rightarrow> rfcomm_event \<Rightarrow> bool" where
  "rf_legal s ev = (case ev of
       PIncoming cid h addr \<Rightarrow> cid \<noteq> 0
     | POpened st cid h \<Rightarrow> cid \<noteq> 0 \<and> cid = active_cid s \<and> \<not> ppp_pcb s \<and> (st = 0 \<longrightarrow> auto_cid s = 0)
     | _ \<Rightarrow> True)"

lemma ppp_up_ok:
  fixes s :: "('i, 'z) ppp_st_scheme"
  assumes b: "bridge_ok sb s" and "ppp_pcb s" and e: "pe_task pe"
  shows "bridge_ok sb (ppp_status_cb pe 0 s)"
proof -
  let ?u = "update_nat (s\<lparr>ppp_up_flag := True\<rparr>)"
  have u: "bridge_ok sb (set_app_state a ?u)" if "a = APP_BRIDGE \<longrightarrow> wifi_connected s" "a \<noteq> APP_BRIDGE_NO_WIFI" for a
    using b that assms(2) by (simp add: bridge_ok_def shown_ok_def update_nat_def)
  have "bridge_ok sb ?u" if "\<not> wifi_connected s"
    using b that assms(2) by (auto simp: bridge_ok_def shown_ok_def update_nat_def)
  then have "bridge_ok sb (gw_wifi_kick_deferred True ?u)" if "\<not> wifi_connected s"
    using that kick_ok by blast
  moreover have "wifi_connected ?u = wifi_connected s" by (simp add: update_nat_def)
  ultimately show ?thesis
    using u e by (simp add: ppp_status_cb_def gw_on_ppp_up_def get_wifi_connected_def)
qed


lemma ppp_down_ok:
  fixes s :: "('i, 'z) ppp_st_scheme"
  assumes b: "bridge_ok sb s" and "err \<noteq> 0"
  shows "bridge_ok sb (ppp_status_cb pe err s)"
proof -
  let ?u = "gw_on_ppp_down (update_nat (s\<lparr>ppp_up_flag := False\<rparr>))"
  have "bridge_ok sb ?u"
    using b by (auto simp: bridge_ok_def shown_ok_def update_nat_def gw_on_ppp_down_def)
  moreover have "\<not> ppp_teardown s" using b by (simp add: bridge_ok_def)
  ultimately show ?thesis using assms(2) by (simp add: ppp_status_cb_def Let_def quiet_ok)
qed

lemma ppp_close_sel:
  fixes s :: "('i, 'z) ppp_st_scheme" and pe :: ppp_env
  assumes e: "pe_close pe \<noteq> 0"
  defines "t \<equiv> ppp_close pe s"
  shows "\<not> ppp_up_flag t" "\<not> ppp_pcb t" "\<not> ppp_teardown t" "wifi_okr r t = wifi_okr r s"
    "app_state t = (if app_state s = APP_BRIDGE \<or> app_state s = APP_BRIDGE_NO_WIFI then APP_WAIT_BT else app_state s)"
    "queued_of is_kick t = queued_of is_kick s" "queued_of is_nat t = Suc (queued_of is_nat s)"
    "wifi_kick_running t = wifi_kick_running s" "napt_on t = napt_on s" "wifi_connected t = wifi_connected s"
    "wifi_ignore_disconnect t = wifi_ignore_disconnect s" "session_active t = session_active s"
    "active_cid t = active_cid s" "auto_cid t = auto_cid s" "bt_connected t = bt_connected s"
    "discoverable (calls t) = discoverable (calls s)" "bt_reopen_timer t = bt_reopen_timer s"
  using e by (simp_all add: t_def ppp_close_def ppp_status_cb_def Let_def gw_on_ppp_down_def update_nat_def)

lemma closed_ok:
  fixes s :: "('i, 'z) ppp_st_scheme"
  assumes b: "bridge_ok sb s" and e: "pe_close pe \<noteq> 0"
  shows "bridge_ok sb (on_closed pe cid s)"
proof -
  have k: "wifi_kick_running (s\<lparr>session_active := False, active_cid := 0\<rparr>) = wifi_kick_running s"
    "app_state (s\<lparr>session_active := False, active_cid := 0\<rparr>) = app_state s" by simp_all
  have held: "bridge_ok sb ((auto_release s)\<lparr>session_active := False, active_cid := 0\<rparr>)" if "cid = auto_cid s" "cid = active_cid s"
  proof (cases "auto_cid s = 0")
    case True
    then have "core ((auto_release s)\<lparr>session_active := False, active_cid := 0\<rparr>) = core (auto_release s)"
      using that b by (simp add: core_def auto_release_def bridge_ok_def)
    then show ?thesis using core_bridge release_ok [OF b] by blast
  next
    case False
    then show ?thesis using release_ok [OF b] held_not_open [OF b] by (simp add: drop_ok)
  qed
  have "bridge_ok sb (gw_on_rfcomm_closed (ppp_session_stop pe s))" if "cid = active_cid s" "cid \<noteq> auto_cid s"
    using b that by (simp add: ppp_session_stop_def gw_on_rfcomm_closed_def Let_def bridge_ok_def shown_ok_def
        ppp_close_sel [OF e] update_nat_def)
  then show ?thesis using b held by (simp add: on_closed_def)
qed


lemma incoming_ok:
  fixes s :: "('i, 'z) ppp_st_scheme"
  assumes b: "bridge_ok sb s" and "cid \<noteq> 0"
  shows "bridge_ok sb (on_incoming pe cid h addr s)"
proof (cases "session_active s")
  case True
  then show ?thesis using b by (simp add: on_incoming_def Let_def quiet_ok)
next
  case False
  then have i: "auto_cid s = 0" "\<not> ppp_pcb s" "active_cid s = 0" using b by (auto simp: bridge_ok_def)
  let ?t = "s\<lparr>session_active := True, active_cid := cid\<rparr>"
  have t: "bridge_ok sb ?t" "bridge_ok sb (?t\<lparr>auto_cid := cid\<rparr>)"
    using b i assms(2) by (auto simp: bridge_ok_def shown_upd)
  have "core (emit (NameRequest addr) (?t\<lparr>auto_cid := cid, auto_handle := h, auto_addr := addr, auto_sec_pending := False\<rparr>)) =
      core (?t\<lparr>auto_cid := cid\<rparr>)" by simp
  from core_bridge [OF this t(2)]
  show ?thesis using False t(1)
    by (simp add: on_incoming_def auto_begin_def Let_def quiet_ok decide_ok)
qed

lemma opened_ok:
  fixes s :: "('i, 'z) ppp_st_scheme"
  assumes b: "bridge_ok sb s" and l: "cid \<noteq> 0" "cid = active_cid s" "\<not> ppp_pcb s" "st = 0 \<longrightarrow> auto_cid s = 0"
    and e: "env_ok pe"
  shows "bridge_ok sb (on_opened pe st cid h s)"
proof (cases "st = 0")
  case False
  have "bridge_ok sb ((auto_release s)\<lparr>session_active := False, active_cid := 0\<rparr>)"
    using release_ok [OF b] l by (simp add: drop_ok)
  moreover have "bridge_ok sb (s\<lparr>session_active := False, active_cid := 0\<rparr>)" if "cid \<noteq> auto_cid s"
    using that b l held_not_open [OF b] by (intro drop_ok) auto
  ultimately show ?thesis using False l by (simp add: on_opened_def Let_def)
next
  case True
  have e': "pe_close pe \<noteq> 0" using e by (simp add: env_ok_def)
  let ?t = "s\<lparr>tx_stream := [], tx_notify_pending := False, tx_dropped := 0, ppp_frame_seen := False, pre_ppp_reply := None\<rparr>"
  have "core ?t = core s" by simp
  from core_bridge [OF this b] have t: "bridge_ok sb ?t" .
  have f: "ppp_pcb ?t = False" "active_cid ?t = cid" "auto_cid ?t = 0" using l True by simp_all
  obtain u where u: "u = ?t" by blast
  note t = t [folded u] and f = f [folded u]
  have up: "\<not> ppp_up_flag u" "\<not> bt_connected u" using t f by (auto simp: bridge_ok_def)
  have na: "sb \<longrightarrow> app_state u \<noteq> APP_BRIDGE \<and> app_state u \<noteq> APP_BRIDGE_NO_WIFI" using t up by (auto simp: bridge_ok_def shown_ok_def)
  have "bridge_ok sb (gw_on_rfcomm_opened h v)"
    if "v = emit PppListen (emit PppSilent (emit PppAddrs (emit ProxyAttach (emit PppCreate (u\<lparr>ppp_pcb := True\<rparr>)))))" for v
    using t f up na that l
    by (simp add: gw_on_rfcomm_opened_def bt_set_visible_def bridge_ok_def shown_ok_def)
  moreover have "bridge_ok sb ((emit (RfDisconnect cid) v)\<lparr>session_active := False, active_cid := 0\<rparr>)"
    if "v = emit PppCreate (u\<lparr>ppp_pcb := False\<rparr>)" for v
    using t f up na that by (simp add: bridge_ok_def shown_ok_def)
  moreover have "bridge_ok sb ((emit (RfDisconnect cid) (ppp_close pe v))\<lparr>session_active := False, active_cid := 0\<rparr>)"
    if "v = emit PppListen (emit PppSilent (emit PppAddrs (emit ProxyAttach (emit PppCreate (u\<lparr>ppp_pcb := True\<rparr>)))))" for v
    using t f up na that by (simp add: bridge_ok_def shown_ok_def ppp_close_sel [OF e'])
  ultimately show ?thesis
    using True by (simp add: on_opened_def Let_def ppp_session_start_def u)
qed

lemma rfcomm_ok:
  fixes s :: "('i, 'z) ppp_st_scheme"
  assumes b: "bridge_ok sb s" and l: "rf_legal s ev" and e: "env_ok pe"
  shows "bridge_ok sb (rfcomm_packet_handler pe ev s)"
proof (cases ev)
  case (PData ch p)
  then show ?thesis using core_bridge [OF quiet_data(1) b] by (simp add: rfcomm_packet_handler_def)
next
  case (PIncoming cid h addr)
  then show ?thesis using incoming_ok [OF b] l by (simp add: rfcomm_packet_handler_def rf_legal_def)
next
  case (POpened st cid h)
  have "bridge_ok sb (on_opened pe st cid h s)"
    using l POpened by (intro opened_ok [OF b _ _ _ _ e]) (auto simp: rf_legal_def)
  then show ?thesis using POpened by (simp add: rfcomm_packet_handler_def)
next
  case PCanSendNow
  then show ?thesis using core_bridge [OF quiet_data(2) b] by (simp add: rfcomm_packet_handler_def)
next
  case (PClosed cid)
  then show ?thesis using closed_ok [OF b] e by (simp add: rfcomm_packet_handler_def env_ok_def)
qed


section \<open>Bring-up\<close>

definition BT_CLASS_OF_DEVICE :: nat where "BT_CLASS_OF_DEVICE = 0x020300"

text \<open>What the outside answers during bring-up.\<close>

record main_env =
  me_wifi :: wifi_env
  me_now :: u32                    \<comment> \<open>\<open>esp_timer_get_time\<close> in milliseconds\<close>
  me_dns :: bool                   \<comment> \<open>the DNS task could be created\<close>
  me_proxy :: bool                 \<comment> \<open>the relay task\<close>
  me_wdt :: bool                   \<comment> \<open>the watchdog task\<close>
  me_btn :: bool                   \<comment> \<open>the button task\<close>
  me_stream :: bool                \<comment> \<open>the stream buffer\<close>
  me_len :: "sdp_rec \<Rightarrow> nat"       \<comment> \<open>\<open>de_get_len\<close>\<close>
  me_hs :: "u32 \<times> u32 \<times> u32"       \<comment> \<open>the SDP record handles\<close>

definition bt_setup :: "main_env \<Rightarrow> ('s, 'z) ppp_st_scheme \<Rightarrow> ('s, 'z) ppp_st_scheme option" where
  "bt_setup m s =
     (let s = debug_log_bt_setup s;
          s = emit (GapSetName (name_active s)) s;
          s = emit (GapDiscoverable True) s;
          s = emit (GapConnectable True) s;
          s = emit (GapClass BT_CLASS_OF_DEVICE) s;
          s = emit GapIoCapability s;
          s = emit (GapSecLevel 0) s;
          s = emit HciHandlerOn s
      in ppp_link_init (me_stream m) (me_len m) (me_hs m) s)"

text \<open>\<open>proxy_init\<close> of \<open>http_proxy.c\<close>.\<close>

definition proxy_init :: "bool \<Rightarrow> ('s, 'z) ppp_st_scheme \<Rightarrow> px_cfg \<times> ('s, 'z) ppp_st_scheme" where
  "proxy_init created s = (settings_load (wifi_dev s), gw_safe_task_create created ProxyTask s)"

text \<open>\<open>btstack_main\<close>: the state of the bridge, of the bookmarks, of the DNS forwarder and the proxy
  settings; None is an abort.  Its first lines, the second start of the flash and \<open>boot_us\<close>, are \<open>btstack_main_flash\<close> of
  the theory Entry, which composes the two, and the zero of the clock \<open>uptime_seconds\<close> reads.\<close>

definition btstack_main ::
  "main_env \<Rightarrow> ('s, 'z) ppp_st_scheme \<times> ('s, wifi_list_t) bm_state \<times> dns_state \<Rightarrow>
   (('s, 'z) ppp_st_scheme \<times> ('s, wifi_list_t) bm_state \<times> dns_state \<times> px_cfg) option" where
  "btstack_main m sys =
     (let (s, bm, d) = sys;
          s = debug_log_init s;
          s = bt_name_init s;
          bm = bookmarks_init bm;
          s = wifi_multi_init (me_wifi m) s;
          d = dns_fwd_start (me_now m) (me_dns m) d;
          s = gw_safe_task_create (me_dns m) DnsTask s;
          (px, s) = proxy_init (me_proxy m) s;
          s = gw_safe_task_create (me_wdt m) WatchdogTask s;
          s = emit WebStart s
      in case bt_setup m s of
           None \<Rightarrow> None
         | Some s \<Rightarrow> Some (emit HciPowerOn (sec_button_start (me_btn m) s), bm, d, px))"

section \<open>Runs of the bridge\<close>

inductive bridge_step :: "('i, 'z) ppp_st_scheme \<Rightarrow> ('i, 'z) ppp_st_scheme \<Rightarrow> bool" where
  bs_list_add: "bridge_step s (snd (wifi_list_add s ssid pass))"
| bs_list_remove: "bridge_step s (snd (wifi_list_remove s i))"
| bs_wifi: "bridge_step s (wifi_event_handler e ev s)"
| bs_retry: "0 < queued_of is_retry s \<Longrightarrow> bridge_step s (wifi_retry_task e (unqueue is_retry s))"
| bs_recovery: "0 < queued_of is_recovery s \<Longrightarrow> bridge_step s (wifi_recovery_task e (unqueue is_recovery s))"
| bs_heartbeat: "wd_created we \<Longrightarrow> bridge_step s (fst (watchdog_pass we dur (s, d)))"
| bs_rssi: "bridge_step s (rssi_poll_cb (unqueue (\<lambda>t. t = RssiPoll) s))"
| bs_kick: "bridge_step s (gw_wifi_kick_deferred True s)"
| bs_kick_task: "0 < queued_of is_kick s \<Longrightarrow> bridge_step s (wifi_kick_task e (unqueue is_kick s))"
| bs_nat: "0 < queued_of is_nat s \<Longrightarrow> bridge_step s (update_nat_lwip_ctx (unqueue is_nat s))"
| bs_reopen: "bt_reopen_timer s \<Longrightarrow> bridge_step s (bt_reopen_timer_handler (s\<lparr>bt_reopen_timer := False\<rparr>))"
| bs_hci: "bridge_step s (hci_packet_handler a hev s)"
| bs_auto: "bridge_step s (auto_hci_handler av s)"
| bs_rfcomm: "rf_legal s ev \<Longrightarrow> env_ok pe \<Longrightarrow> bridge_step s (rfcomm_packet_handler pe ev s)"
| bs_ppp_up: "ppp_pcb s \<Longrightarrow> env_ok pe \<Longrightarrow> bridge_step s (ppp_status_cb pe 0 s)"
| bs_ppp_down: "ppp_pcb s \<Longrightarrow> err \<noteq> 0 \<Longrightarrow> bridge_step s (ppp_status_cb pe err s)"
| bs_output: "bridge_step s (snd (ppp_output_cb data s))"
| bs_notify: "bridge_step s (notify_fire s)"
| bs_name: "bridge_step s (bt_name_set n s)"
| bs_name_cb: "bridge_step s (name_fire a s)"
| bs_debug: "bridge_step s (debug_log_set v s)"
| bs_debug_cb: "bridge_step s (flags_fire s)"
| bs_secure: "bridge_step s (ppp_link_secure_save m s)"
| bs_proxy: "bridge_step s (s\<lparr>wifi_dev := snd (proxy_set on host port (wifi_dev s))\<rparr>)"
| bs_reboot: "bridge_step s (gw_safe_task_create created RebootTask s)"
| bs_boot_timer: "bridge_step s (boot_timer_handler be s)"
| bs_boot_sdp: "bridge_step s (boot_sdp_handler be es s)"
| bs_boot_rfcomm: "bridge_step s (boot_rfcomm_handler be er s)"

inductive_simps bridge_step_iff: "bridge_step s t"

inductive bridge_run :: "('i, wifi_list_t) nvs_dev \<Rightarrow> 'i ppp_st \<Rightarrow> bool" for d where
  br_start: "btstack_main m (ppp_boot d, bm, dn) = Some (s, rest) \<Longrightarrow> bridge_run d s"
| br_step: "bridge_run d s \<Longrightarrow> bridge_step s t \<Longrightarrow> bridge_run d t"

text \<open>The whole life of the bridge: these steps, and the reset of the network list (\<open>GET /reset\<close>) at any time; the
  flag says whether there was one.\<close>

inductive bridge_life :: "('i, wifi_list_t) nvs_dev \<Rightarrow> bool \<Rightarrow> 'i ppp_st \<Rightarrow> bool" for d where
  bl_start: "btstack_main m (ppp_boot d, bm, dn) = Some (s, rest) \<Longrightarrow> bridge_life d False s"
| bl_step: "bridge_life d c s \<Longrightarrow> bridge_step s t \<Longrightarrow> bridge_life d c t"
| bl_clear: "bridge_life d c s \<Longrightarrow> bridge_life d True (wifi_list_clear s)"

lemma run_life: "bridge_run d s \<Longrightarrow> bridge_life d False s"
  by (induction rule: bridge_run.induct) (auto intro: bl_start bl_step)

lemma heartbeat_ok:
  fixes s :: "('i, 'z) ppp_st_scheme"
  assumes b: "bridge_ok sb s" and "wd_created we"
  shows "bridge_ok sb (fst (watchdog_pass we dur (s, d)))"
proof -
  let ?s = "spawn RssiPoll s"
  have "core ?s = core s" by simp
  from core_bridge [OF this b] have p: "bridge_ok sb ?s" .
  then have "bridge_ok sb (wifi_watchdog_check True ?s)"
    by (intro eff_bridge [OF eff_watchdog [OF eff_refl] _ p] watchdog_ok) (simp add: bridge_ok_def)
  then show ?thesis using assms(2) by (simp add: watchdog_pass_def Let_def quiet_ok)
qed

lemma bridge_step_ok:
  fixes s t :: "('i, 'z) ppp_st_scheme"
  assumes "bridge_step s t" and b: "bridge_ok sb s"
  shows "bridge_ok sb t"
proof -
  have w: "wifi_ok s" using b by (simp add: bridge_ok_def)
  have eff: "bridge_ok sb u" if "wifi_eff s u" "wifi_ok u" for u using eff_bridge [OF that b] .
  have quiet: "bridge_ok sb u" if "core u = core s" for u using core_bridge [OF that b] .
  show ?thesis
    using assms(1)
  proof cases
    case bs_list_add then show ?thesis using eff [OF eff_lists(1)] list_api_ok(1) [OF w] by simp
  next case bs_list_remove then show ?thesis using eff [OF eff_lists(2)] list_api_ok(2) [OF w] by simp
  next case bs_wifi then show ?thesis using eff [OF eff_event] event_ok [OF w] by simp
  next case bs_retry then show ?thesis using eff [OF eff_retry] retry_task_ok [OF w] by simp
  next case bs_recovery then show ?thesis using eff [OF eff_recovery] recovery_task_ok [OF w] by simp
  next case bs_heartbeat then show ?thesis using heartbeat_ok [OF b] by simp
  next case bs_kick_task then show ?thesis using kick_task_ok [OF b] by simp
  next case bs_rfcomm then show ?thesis using rfcomm_ok [OF b] by simp
  next case (bs_ppp_up pe) then show ?thesis using ppp_up_ok [OF b, of pe] by (simp add: env_ok_def)
  next case bs_ppp_down then show ?thesis using ppp_down_ok [OF b] by simp
  qed (simp_all add: quiet quiet_callbacks quiet_settings quiet_boot quiet_hci quiet_data gw_safe_task_create_def
      kick_ok [OF b] nat_ok [OF b] timer_ok [OF b] auto_ok [OF b])
qed


section \<open>The first state\<close>

lemma register_fold: "core (fold (\<lambda>r. emit (SdpRegister r)) rs s) = core s"
  by (induction rs arbitrary: s) simp_all

lemma quiet_init:
  fixes s :: "('i, 'z) ppp_st_scheme"
  shows "core (debug_log_init s) = core s" "core (bt_name_init s) = core s"
    "wifi_list (debug_log_init s) = wifi_list s" "wifi_list (bt_name_init s) = wifi_list s"
    "wifi_dev (debug_log_init s) = wifi_dev s" "wifi_dev (bt_name_init s) = wifi_dev s"
    "cycle_ok (debug_log_init s) = cycle_ok s" "cycle_ok (bt_name_init s) = cycle_ok s"
    "guards_ok r (debug_log_init s) = guards_ok r s" "guards_ok r (bt_name_init s) = guards_ok r s"
  by (auto simp: debug_log_init_def bt_name_init_def Let_def cycle_ok_def guards_ok_def queued_of_def split: option.split)


lemma multi_init_ok:
  fixes s :: "('i, 'z) wifi_st_scheme"
  assumes z: "wifi_list s = wl_zero" and c: "cycle_ok s" and g: "guards_ok 0 s"
    and flash: "\<And>l. nvs_list_load (wifi_dev s) = Some l \<Longrightarrow> wl_ok l"
  shows "wifi_ok (wifi_multi_init e s)"
proof -
  let ?t = "emit EspStart (emit EspSetModeSta (wifi_register_handlers (emit EspInit s)))"
  have t: "wifi_ok (?t\<lparr>wifi_list := l\<rparr>)" if "wl_ok l" for l
    using that c g by (simp add: wifi_register_handlers_def Let_def wifi_ok_defs queued_of_def emit_def)
  have f: "wifi_list ?t = wl_zero" "wifi_dev ?t = wifi_dev s"
    using z by (simp_all add: wifi_register_handlers_def Let_def emit_def)
  show ?thesis
    using t [OF wl_ok_zero] t [OF flash] f
    by (auto simp: wifi_multi_init_def Let_def intro!: connect_begin_ok split: option.split)
qed

lemma eff_multi_init: "wifi_eff s (wifi_multi_init e s)"
  by (auto simp: wifi_multi_init_def Let_def eff_begin eff_chain eff_chain_upd eff_handlers split: option.split)

lemma boot_facts:
  fixes d :: "('i, wifi_list_t) nvs_dev"
  shows "wifi_list (ppp_boot d) = wl_zero" "cycle_ok (ppp_boot d)" "guards_ok 0 (ppp_boot d)"
  by (simp_all add: ppp_boot_defs cycle_ok_def guards_ok_def queued_of_def CAND_MAX_ATTEMPTS_def
      WIFI_RETRY_BASE_MS_def backoff_steps_def)

lemma setup_core:
  fixes s :: "('i, 'z) ppp_st_scheme"
  assumes "bt_setup m s = Some t"
  shows "core t = core (emit (GapDiscoverable True) s)"
proof -
  let ?v = "emit (GapDiscoverable True) s"
  have d: "core (emit (GapDiscoverable True) u) = core (emit (GapDiscoverable True) s)" if "core u = core s"
    for u :: "('i, 'z) ppp_st_scheme"
    using that by (simp add: core_def)
  have "core (emit (GapSetName (name_active (debug_log_bt_setup s))) (debug_log_bt_setup s)) = core s"
    by (simp add: debug_log_bt_setup_def quiet_settings)
  from d [OF this] show ?thesis
    using assms by (auto simp: bt_setup_def ppp_link_init_def Let_def register_fold split: if_splits option.splits)
qed

lemma bridge_start_ok:
  fixes s :: "'i ppp_st"
  assumes r: "btstack_main m (ppp_boot d, bm, dn) = Some (s, rest)"
    and flash: "\<And>l. nvs_list_load d = Some l \<Longrightarrow> wl_ok l"
  shows "bridge_ok sb s"
proof -
  define s1 where "s1 = bt_name_init (debug_log_init (ppp_boot d))"
  have c1: "core s1 = core (ppp_boot d)" by (simp add: s1_def quiet_init)
  define s2 where "s2 = wifi_multi_init (me_wifi m) s1"
  have ok2: "wifi_ok s2" unfolding s2_def
    by (rule multi_init_ok) (use flash in \<open>simp_all add: s1_def quiet_init boot_facts\<close>)
  have e: "wifi_eff s1 s2" unfolding s2_def by (rule eff_multi_init)
  define s3 where "s3 = emit WebStart (gw_safe_task_create (me_wdt m) WatchdogTask
    (gw_safe_task_create (me_proxy m) ProxyTask (gw_safe_task_create (me_dns m) DnsTask s2)))"
  have c3: "core s3 = core s2" by (simp add: s3_def gw_safe_task_create_def foreign_def)
  obtain s4 where s4: "bt_setup m s3 = Some s4" and s: "s = emit HciPowerOn (sec_button_start (me_btn m) s4)"
    using r by (auto simp: btstack_main_def proxy_init_def Let_def s1_def s2_def s3_def split: option.splits)
  have "core s = core s4"
    by (simp add: s sec_button_start_def led_set_def gw_safe_task_create_def foreign_def Let_def)
  also have "\<dots> = core (emit (GapDiscoverable True) s3)" by (rule setup_core [OF s4])
  also have "\<dots> = core (emit (GapDiscoverable True) s2)" using c3 by (simp add: core_def)
  finally have c: "core s = core (emit (GapDiscoverable True) s2)" .
  have "shown_ok s1" "\<not> napt_on s1" "queued_of is_kick s1 = 0" "\<not> wifi_kick_running s1" "\<not> ppp_up_flag s1"
    "\<not> session_active s1" "active_cid s1 = 0" "auto_cid s1 = 0" "\<not> ppp_pcb s1" "\<not> ppp_teardown s1" "\<not> bt_connected s1"
    using c1 by (simp_all add: core_def shown_ok_def queued_of_def)
  then have "bridge_ok sb (emit (GapDiscoverable True) s2)"
    using e ok2 more_fields [of s2 s1] by (simp add: bridge_ok_def wifi_eff_def shown_upd)
  from core_bridge [OF c this] show ?thesis .
qed

lemma clear_ok:
  fixes s :: "('i, 'z) ppp_st_scheme"
  assumes b: "bridge_ok sb s"
  shows "bridge_ok False (wifi_list_clear s)"
proof -
  let ?z = "s\<lparr>wifi_list := wl_zero\<lparr>wl_ver := 1\<rparr>, wifi_cur_ssid := [], wifi_ignore_disconnect := True\<rparr>"
  have "wifi_ok s" using b by (simp add: bridge_ok_def)
  from list_api_ok(3) [OF this] have w: "wifi_ok (wifi_list_clear s)" .
  have m: "wifi_st.more (wifi_list_clear s) = wifi_st.more s"
    by (cases s) (simp add: wifi_list_clear_def wifi_save_def Let_def emit_def set_app_state_eq)
  have f: "wifi_connected (wifi_list_clear s) = wifi_connected s" "bt_connected (wifi_list_clear s) = bt_connected s"
    "ppp_up_flag (wifi_list_clear s) = ppp_up_flag s" "tasks (wifi_list_clear s) = tasks s"
    "discoverable (calls (wifi_list_clear s)) = discoverable (calls s)"
    by (simp_all add: wifi_list_clear_def wifi_save_def Let_def emit_def set_app_state_eq)
  show ?thesis
    using b w f unfolding bridge_ok_def by (simp add: more_fields [OF m] queued_of_def)
qed

lemma bridge_life_ok:
  assumes "bridge_life d cleared s" and "\<And>l. nvs_list_load d = Some l \<Longrightarrow> wl_ok l"
  shows "bridge_ok (\<not> cleared) s"
  using assms(1)
proof induction
  case (bl_start m bm dn s rest)
  from bridge_start_ok [OF this assms(2)] show ?case by blast
qed (simp_all add: bridge_step_ok clear_ok)


section \<open>Properties\<close>

text \<open>C2: The whole bridge, from bring-up on and over any interleaving of the web pages' settings, WiFi
  events, retry, recovery and kick tasks, heartbeats, Bluetooth and RFCOMM events, PPP status changes
  and run-loop callbacks, with the network list reset at any time or never.  Address translation is on exactly
  when PPP and WiFi are up, or an update of it is queued; as long as the list has not been reset, the state shown
  agrees with the two links (a reset can leave it wrong, see below);
  a session has a channel, a held channel carries no PPP yet, and PPP is only up over a connected
  phone's session; a bridge without a phone is discoverable or about to be; and at most one kick, one
  retry and one recovery task exist.\<close>

theorem bridge_invariant:
  fixes s :: "'i ppp_st"
  assumes r: "bridge_life d cleared s" and flash: "\<And>l. nvs_list_load d = Some l \<Longrightarrow> wl_ok l"
  shows "(napt_on s = (ppp_up_flag s \<and> wifi_connected s) \<or> NatUpdate \<in> set (tasks s)) \<and>
     (\<not> cleared \<and> app_state s = APP_BRIDGE \<longrightarrow> ppp_up_flag s \<and> wifi_connected s) \<and>
     (\<not> cleared \<and> app_state s = APP_BRIDGE_NO_WIFI \<longrightarrow> ppp_up_flag s \<and> \<not> wifi_connected s) \<and>
     (session_active s = (active_cid s \<noteq> 0)) \<and>
     (auto_cid s \<noteq> 0 \<longrightarrow> auto_cid s = active_cid s \<and> \<not> ppp_pcb s \<and> \<not> ppp_up_flag s) \<and>
     (ppp_up_flag s \<longrightarrow> ppp_pcb s \<and> session_active s \<and> bt_connected s) \<and>
     (bt_connected s \<or> discoverable (calls s) \<or> bt_reopen_timer s) \<and>
     (length (filter is_kick (tasks s)) \<le> 1 \<and> length (filter is_retry (tasks s)) \<le> 1 \<and>
       length (filter is_recovery (tasks s)) \<le> 1)"
proof (rule conjI8; (intro impI)?)
  have b: "bridge_ok (\<not> cleared) s" using bridge_life_ok [OF r flash] .
  then have sh: "\<not> cleared \<longrightarrow> shown_ok s" and w: "wifi_ok s" by (simp_all add: bridge_ok_def)
  show "\<not> cleared \<and> app_state s = APP_BRIDGE \<Longrightarrow> ppp_up_flag s \<and> wifi_connected s"
    "\<not> cleared \<and> app_state s = APP_BRIDGE_NO_WIFI \<Longrightarrow> ppp_up_flag s \<and> \<not> wifi_connected s"
    using sh by (simp_all add: shown_ok_def)
  have "(0 < queued_of is_nat s) = (NatUpdate \<in> set (tasks s))"
    by (auto simp: queued_of_def filter_empty_conv)
  then show "napt_on s = (ppp_up_flag s \<and> wifi_connected s) \<or> NatUpdate \<in> set (tasks s)"
    using b by (simp add: bridge_ok_def)
  show "session_active s = (active_cid s \<noteq> 0)"
    "auto_cid s \<noteq> 0 \<Longrightarrow> auto_cid s = active_cid s \<and> \<not> ppp_pcb s \<and> \<not> ppp_up_flag s"
    "ppp_up_flag s \<Longrightarrow> ppp_pcb s \<and> session_active s \<and> bt_connected s"
    "bt_connected s \<or> discoverable (calls s) \<or> bt_reopen_timer s"
    using b by (auto simp: bridge_ok_def)
  have "queued_of is_kick s \<le> 1" using b by (simp add: bridge_ok_def)
  then show "length (filter is_kick (tasks s)) \<le> 1 \<and> length (filter is_retry (tasks s)) \<le> 1 \<and>
      length (filter is_recovery (tasks s)) \<le> 1"
    using w by (auto simp: wifi_ok_defs queued_of_def split: if_splits)
qed

text \<open>Bring-up with enough memory and a conforming encoder does not abort.\<close>

lemma bring_up_succeeds:
  assumes "me_stream m" and "len_standard (me_len m)"
  obtains s bm' d' px where "btstack_main m (t, bm, d) = Some (s, bm', d', px)"
proof -
  obtain h1 h2 h3 where h: "me_hs m = (h1, h2, h3)" by (metis prod_cases3)
  have "bt_setup m u \<noteq> None" for u :: "('a, 'b) ppp_st_scheme"
    using assms(1) sdp_register_succeeds [OF assms(2)]
    by (simp add: bt_setup_def ppp_link_init_def Let_def h)
  then show ?thesis using that by (fastforce simp: btstack_main_def proxy_init_def Let_def split: option.splits)
qed

definition main_env_good :: main_env where
  "main_env_good = \<lparr>me_wifi = env_good, me_now = 0, me_dns = True, me_proxy = True, me_wdt = True, me_btn = True, me_stream = True,
     me_len = len_longest, me_hs = (0x10001, 0x10002, 0x10003)\<rparr>"

definition bm_fresh :: "('i, 'b) nvs_dev \<Rightarrow> ('i, 'b) bm_state" where
  "bm_fresh d = \<lparr>bm_open = False, bm_dev = d, bm_count = 0\<rparr>"

lemma main_env_good_sel: "me_stream main_env_good" "len_standard (me_len main_env_good)"
  by (simp_all add: main_env_good_def len_standard_def len_longest_def)

text \<open>A phone calls a bridge that has just come up and whose networks are reset.\<close>

theorem bridge_invariant_witness:
  "\<exists>s. bridge_life (map_dev :: (string \<rightharpoonup> wifi_list_t nvs_val, wifi_list_t) nvs_dev) True s \<and> session_active s \<and> active_cid s \<noteq> 0"
proof -
  let ?d = "map_dev :: (string \<rightharpoonup> wifi_list_t nvs_val, wifi_list_t) nvs_dev"
  let ?in = "PIncoming 7 1 [1, 2, 3, 4, 5, 6]"
  obtain s rest where "btstack_main main_env_good (ppp_boot ?d, bm_fresh ?d, demo_dns) = Some (s, rest)"
    by (rule bring_up_succeeds [OF main_env_good_sel])
  then have "bridge_life ?d True (wifi_list_clear s)" by (rule bl_clear [OF bl_start])
  moreover have "bridge_step (wifi_list_clear s) (rfcomm_packet_handler ppp_env_good ?in (wifi_list_clear s))"
    by (rule bs_rfcomm) (simp_all add: rf_legal_def env_ok_def ppp_env_good_def)
  ultimately have r: "bridge_life ?d True (rfcomm_packet_handler ppp_env_good ?in (wifi_list_clear s))" by (rule bl_step)
  have "session_active (rfcomm_packet_handler ppp_env_good ?in (wifi_list_clear s))"
    by (simp add: rfcomm_packet_handler_def on_incoming_def auto_begin_def ppp_env_good_def Let_def)
  then show ?thesis using bridge_invariant [OF r demo_flash, THEN part4] r by blast
qed

text \<open>What a boot finds, it uses: no write happens on the way.\<close>

lemma begin_dev: "wifi_dev (wifi_connect_begin e s) = wifi_dev s"
  by (simp add: wifi_connect_begin_def wifi_cycle_failed_def Let_def)

lemma multi_init_dev: "wifi_dev (wifi_multi_init e s) = wifi_dev s"
  by (auto simp: wifi_multi_init_def wifi_register_handlers_def Let_def begin_dev split: option.split)

lemma more_settings:
  fixes s t :: "('i, 'z) ppp_st_scheme"
  assumes "wifi_st.more t = wifi_st.more s"
  shows "name_custom t = name_custom s" "dbg_flags t = dbg_flags s"
  using assms by (cases s, cases t, simp)+

lemma setup_sel:
  fixes s :: "('i, 'z) ppp_st_scheme"
  assumes "bt_setup m s = Some t"
  shows "link_mode t = nvs_secure_load (wifi_dev s)" "name_custom t = name_custom s" "dbg_flags t = dbg_flags s"
    "wifi_dev t = wifi_dev s"
proof -
  have r: "link_mode (fold (\<lambda>r. emit (SdpRegister r)) rs u) = link_mode u"
    "name_custom (fold (\<lambda>r. emit (SdpRegister r)) rs u) = name_custom u"
    "dbg_flags (fold (\<lambda>r. emit (SdpRegister r)) rs u) = dbg_flags u"
    "wifi_dev (fold (\<lambda>r. emit (SdpRegister r)) rs u) = wifi_dev u" for rs and u :: "('i, 'z) ppp_st_scheme"
    by (induction rs arbitrary: u) (simp_all add: emit_def)
  show "link_mode t = nvs_secure_load (wifi_dev s)" "name_custom t = name_custom s" "dbg_flags t = dbg_flags s"
    "wifi_dev t = wifi_dev s"
    using assms by (auto simp: bt_setup_def ppp_link_init_def debug_log_bt_setup_def apply_to_hci_dump_def Let_def r emit_def
        split: if_splits option.splits)
qed

lemma start_settings:
  fixes s :: "('i, 'z) ppp_st_scheme"
  assumes r: "btstack_main m (s, bm, d) = Some (t, bm', d', px)" and z: "name_custom s = []" "dbg_flags s = 0"
  shows "st_name (stored (wifi_dev s)) = name_custom t" "st_flags (stored (wifi_dev s)) = dbg_flags t"
    "st_mode (stored (wifi_dev s)) = link_mode t" "st_proxy (stored (wifi_dev s)) = px" "wifi_dev t = wifi_dev s"
proof -
  define s1 where "s1 = bt_name_init (debug_log_init s)"
  define s2 where "s2 = wifi_multi_init (me_wifi m) s1"
  define s3 where "s3 = emit WebStart (gw_safe_task_create (me_wdt m) WatchdogTask
    (gw_safe_task_create (me_proxy m) ProxyTask (gw_safe_task_create (me_dns m) DnsTask s2)))"
  have dv: "wifi_dev s3 = wifi_dev s" "px = settings_load (wifi_dev s)"
    using r by (auto simp: btstack_main_def proxy_init_def Let_def s1_def s2_def s3_def multi_init_dev quiet_init gw_safe_task_create_def
        emit_def spawn_def split: option.splits)
  obtain s4 where s4: "bt_setup m s3 = Some s4" and t: "t = emit HciPowerOn (sec_button_start (me_btn m) s4)"
    using r by (auto simp: btstack_main_def proxy_init_def Let_def s1_def s2_def s3_def split: option.splits)
  note f = setup_sel [OF s4]
  have t4: "link_mode t = link_mode s4" "name_custom t = name_custom s4" "dbg_flags t = dbg_flags s4" "wifi_dev t = wifi_dev s4"
    by (simp_all add: t sec_button_start_def led_set_def gw_safe_task_create_def Let_def emit_def spawn_def)
  have m: "wifi_st.more s2 = wifi_st.more s1" using eff_multi_init [of s1 "me_wifi m"] by (simp add: s2_def wifi_eff_def)
  have s32: "name_custom s3 = name_custom s1" "dbg_flags s3 = dbg_flags s1"
    using more_settings [OF m] by (simp_all add: s3_def gw_safe_task_create_def emit_def spawn_def)
  have n: "name_custom s1 = st_name (stored (wifi_dev s))" "dbg_flags s1 = st_flags (stored (wifi_dev s))"
    using z by (auto simp: s1_def bt_name_init_def debug_log_init_def stored_def Let_def split: option.split)
  show "st_name (stored (wifi_dev s)) = name_custom t" "st_flags (stored (wifi_dev s)) = dbg_flags t"
    "st_mode (stored (wifi_dev s)) = link_mode t" "st_proxy (stored (wifi_dev s)) = px" "wifi_dev t = wifi_dev s"
    using f t4 s32 n dv by (simp_all add: stored_def)
qed

text \<open>C13: The settings.  Any sequence of saves of the device name, the logging switches, the security mode
  and the proxy, from the web pages or the button, leaves in the one flash namespace what an
  abstract record of independent settings holds, each at its last value and the list of networks
  untouched; and the next boot comes up with exactly these, writing nothing.\<close>

theorem settings_survive_reboot:
  fixes s :: "('i, 'z) ppp_st_scheme" and t :: "'i ppp_st"
  assumes acc: "dev_accepts (wifi_dev s)" and legal: "list_all op_legal xs"
    and boot: "btstack_main m (ppp_boot (wifi_dev (fold set_step xs s)), bm, d) = Some (t, bm', d', px)"
  defines "a \<equiv> fold set_spec xs (stored (wifi_dev s))"
  shows "(stored (wifi_dev t) = a) \<and>
     (name_custom t = st_name a) \<and>
     (dbg_flags t = st_flags a) \<and>
     (link_mode t = st_mode a) \<and>
     (px = st_proxy a) \<and>
     (st_nets a = nvs_list_load (wifi_dev s))"
proof (rule conjI6; (intro impI)?)
  have z: "name_custom (ppp_boot x) = []" "dbg_flags (ppp_boot x) = 0" for x :: "('i, wifi_list_t) nvs_dev"
    by (simp_all add: ppp_boot_defs)
  have st: "stored (wifi_dev (fold set_step xs s)) = a" unfolding a_def by (rule set_steps_stored [OF acc legal])
  show "stored (wifi_dev t) = a" "name_custom t = st_name a" "dbg_flags t = st_flags a"
    "link_mode t = st_mode a" "px = st_proxy a"
    using start_settings [OF boot z] st by simp_all
  have "st_nets (fold set_spec xs b) = st_nets b" for b
  proof (induction xs arbitrary: b)
    case (Cons x xs)
    then show ?case by (cases x) simp_all
  qed simp
  then show "st_nets a = nvs_list_load (wifi_dev s)" by (simp add: a_def stored_def)
qed

definition demo_saves :: "set_op list" where
  "demo_saves = [SetName (Some ''Blue''), SetMode BTSEC_ON, SetFlags 0xFD, SetProxy True ''10.0.0.1'' 3128, SetMode BTSEC_OFF]"

theorem settings_survive_reboot_witness:
  "\<exists>t bm d px. btstack_main main_env_good
      (ppp_boot (wifi_dev (fold set_step demo_saves (ppp_boot map_dev))), bm_fresh map_dev, demo_dns) = Some (t, bm, d, px) \<and>
     name_custom t = ''Blue'' \<and> dbg_flags t = 5 \<and> link_mode t = BTSEC_OFF \<and> px_ready px \<and> st_nets (stored (wifi_dev t)) = None"
proof -
  let ?s = "ppp_boot (map_dev :: (string \<rightharpoonup> wifi_list_t nvs_val, wifi_list_t) nvs_dev)"
  have acc: "dev_accepts (wifi_dev ?s)" using dev_accepts_map [of Map.empty] by (simp add: map_dev_def)
  have legal: "list_all op_legal demo_saves" by (simp add: demo_saves_def op_legal_def)
  obtain t bm d px where b: "btstack_main main_env_good
      (ppp_boot (wifi_dev (fold set_step demo_saves ?s)), bm_fresh map_dev, demo_dns) = Some (t, bm, d, px)"
    by (rule bring_up_succeeds [OF main_env_good_sel])
  have n: "name_clean (Some ''Blue'') = ''Blue''" by code_simp
  have a: "st_name (fold set_spec demo_saves x) = ''Blue''" "st_flags (fold set_spec demo_saves x) = 5"
    "st_mode (fold set_spec demo_saves x) = BTSEC_OFF" "px_ready (st_proxy (fold set_spec demo_saves x))" for x
    by (simp_all add: demo_saves_def n dbg_consts cfg_apply_def strlcpy_def Let_def)
  have l: "nvs_list_load (wifi_dev ?s) = None" by (simp add: nvs_list_load_def)
  note r = settings_survive_reboot [OF acc legal b]
  show ?thesis using b r a l by (intro exI [of _ t] exI [of _ bm] exI [of _ d] exI [of _ px]) simp
qed

section \<open>Further observations\<close>

text \<open>Clearing the networks while WiFi is up, with PPP coming up before the driver reports the disconnect: the
  report is ignored, and the bridge goes on showing an active bridge without WiFi.\<close>

lemma clear_shows_bridge:
  fixes s :: "('i, 'z) ppp_st_scheme" and e :: wifi_env and pe :: ppp_env
  assumes "wifi_connected s"
  defines "t \<equiv> wifi_event_handler e StaDisconnected (ppp_status_cb pe 0 (wifi_list_clear s))"
  shows "app_state t = APP_BRIDGE" and "\<not> wifi_connected t"
  using assms(1)
  by (simp_all add: t_def wifi_event_handler_def on_disconnected_def mark_disconnected_def ppp_status_cb_def gw_on_ppp_up_def
      get_wifi_connected_def wifi_list_clear_def wifi_save_def update_nat_def set_app_state_eq spawn_def emit_def Let_def)

end
