(* ===== verification/WebText.thy ===== *)
theory WebText
  imports Decimal
begin

text \<open>
  The text routines behind the setup pages of \<open>main/web_ui.c\<close>: escaping for HTML, appending to a page
  buffer, decoding submitted forms, reading a request body in pieces, and the two number readers of
  the C library the handlers use.
\<close>

section \<open>C library\<close>

text \<open>The string a buffer holds that has been written byte by byte.\<close>

definition cstr :: "string \<Rightarrow> string" where
  "cstr b = takeWhile (\<lambda>c. c \<noteq> CHR 0x00) b"

definition isspace :: "char \<Rightarrow> bool" where
  "isspace c \<longleftrightarrow> ccode c = 32 \<or> 9 \<le> ccode c \<and> ccode c \<le> 13"

definition digit_val :: "char \<Rightarrow> nat" where
  "digit_val c = (let k = ccode c in
     if 48 \<le> k \<and> k \<le> 57 then k - 48
     else if 65 \<le> k \<and> k \<le> 90 then k - 55
     else if 97 \<le> k \<and> k \<le> 122 then k - 87
     else 99)"

text \<open>\<open>strtol\<close> for the bases 10 and 16, with a \<open>long\<close> of 32 bits: blanks, a sign, the prefix of the base,
  digits; what follows is not read.\<close>

definition strtol :: "nat \<Rightarrow> string \<Rightarrow> int" where
  "strtol base str =
     (let s = dropWhile isspace str;
          neg = (s \<noteq> [] \<and> hd s = CHR ''-'');
          s = (if s \<noteq> [] \<and> (hd s = CHR ''-'' \<or> hd s = CHR ''+'') then tl s else s);
          s = (if base = 16 \<and> 2 < length s \<and> s ! 0 = CHR ''0'' \<and> tolower (s ! 1) = CHR ''x'' \<and> digit_val (s ! 2) < 16
               then drop 2 s else s);
          v = int (foldl (\<lambda>a c. base * a + digit_val c) 0 (takeWhile (\<lambda>c. digit_val c < base) s))
      in max (- (2 ^ 31)) (min (2 ^ 31 - 1) (if neg then - v else v)))"

definition atoi :: "string \<Rightarrow> int" where
  "atoi s = strtol 10 s"

section \<open>Escaping\<close>

definition html_rep :: "char \<Rightarrow> string option" where
  "html_rep c =
     (if c = CHR ''&'' then Some ''&amp;''
      else if c = CHR ''<'' then Some ''&lt;''
      else if c = CHR ''>'' then Some ''&gt;''
      else if c = CHR 0x22 then Some ''&quot;''
      else None)"

text \<open>The loop; \<open>dst\<close> is what has been written, its length is \<open>w\<close>.\<close>

fun html_escape_loop :: "nat \<Rightarrow> string \<Rightarrow> string \<Rightarrow> string" where
  "html_escape_loop n dst [] = dst"
| "html_escape_loop n dst (c # p) =
     (if length dst + 7 < n
      then html_escape_loop n (dst @ (case html_rep c of Some rep \<Rightarrow> rep | None \<Rightarrow> [c])) p
      else dst)"

definition html_escape :: "string \<Rightarrow> nat \<Rightarrow> string" where
  "html_escape src n = html_escape_loop n [] src"

fun html_escape_len :: "string \<Rightarrow> nat" where
  "html_escape_len [] = 0"
| "html_escape_len (c # p) =
     (if c = CHR ''&'' then 5
      else if c = CHR ''<'' \<or> c = CHR ''>'' then 4
      else if c = CHR 0x22 then 6
      else 1) + html_escape_len p"

section \<open>Page buffers\<close>

text \<open>\<open>page_add n txt (dst, w)\<close>: \<open>dst\<close> is the string in the buffer of \<open>n\<close> bytes, \<open>txt\<close> what the format
  and its arguments amount to, the result the new buffer and the returned offset.\<close>

definition page_add :: "nat \<Rightarrow> string \<Rightarrow> string \<times> int \<Rightarrow> string \<times> int" where
  "page_add n txt dw =
     (let (dst, w) = dw in
      if w < 0 \<or> int n \<le> w then (dst, int n - 1)
      else let dst' = take (nat w) dst @ take (n - nat w - 1) txt; w' = w + int (length txt)
           in (dst', if int n \<le> w' then int n - 1 else w'))"

section \<open>Forms\<close>

fun form_decode_loop :: "nat \<Rightarrow> string \<Rightarrow> string \<Rightarrow> string" where
  "form_decode_loop n dst [] = dst"
| "form_decode_loop n dst (c # p) =
     (if \<not> length dst + 1 < n then dst
      else if c = CHR ''+'' then form_decode_loop n (dst @ [CHR '' '']) p
      else if c = CHR ''%'' \<and> 2 \<le> length p
      then form_decode_loop n (dst @ [char_of (strtol 16 (take 2 p))]) (drop 2 p)
      else form_decode_loop n (dst @ [c]) p)"

definition form_decode :: "string \<Rightarrow> nat \<Rightarrow> string" where
  "form_decode src n = cstr (form_decode_loop n [] src)"

section \<open>Request bodies\<close>

text \<open>What \<open>httpd_req_recv\<close> returns, call by call.\<close>

datatype recv_ev = RecvTimeout | RecvError | RecvData string

text \<open>The loop with \<open>k\<close> bytes still wanted; \<open>None\<close> when the calls run out before it ends, \<open>Some None\<close> for
  the return value -1.\<close>

fun recv_loop :: "recv_ev list \<Rightarrow> nat \<Rightarrow> string \<Rightarrow> string option option" where
  "recv_loop evs 0 buf = Some (Some buf)"
| "recv_loop [] (Suc k) buf = None"
| "recv_loop (RecvTimeout # evs) (Suc k) buf = recv_loop evs (Suc k) buf"
| "recv_loop (RecvError # evs) (Suc k) buf = Some None"
| "recv_loop (RecvData d # evs) (Suc k) buf =
     (if d = [] then Some None
      else let d = take (Suc k) d in recv_loop evs (Suc k - length d) (buf @ d))"

definition recv_body :: "nat \<Rightarrow> recv_ev list \<Rightarrow> nat \<Rightarrow> string option option" where
  "recv_body content_len evs sz =
     (let want = (if content_len > sz - 1 then sz - 1 else content_len)
      in recv_loop evs want [])"

section \<open>Facts about escaping\<close>

text \<open>What escaping without a limit gives.\<close>

definition esc :: "char \<Rightarrow> string" where
  "esc c = (case html_rep c of Some rep \<Rightarrow> rep | None \<Rightarrow> [c])"

definition escs :: "string \<Rightarrow> string" where
  "escs s = concat (map esc s)"

lemma escs_simps [simp]: "escs [] = []" "escs (c # s) = esc c @ escs s" "escs (s @ t) = escs s @ escs t"
  by (simp_all add: escs_def)

lemma esc_bounds: "1 \<le> length (esc c)" "length (esc c) \<le> 6"
  by (auto simp: esc_def html_rep_def)

lemma length_escs: "length (escs s) = html_escape_len s"
  by (induction s) (auto simp: esc_def html_rep_def)

lemma length_escs_le: "length s \<le> length (escs s)" "length (escs s) \<le> 6 * length s"
proof (induction s)
  case (Cons c s)
  { case 1 then show ?case using Cons(1) esc_bounds [of c] by simp
  next case 2 then show ?case using Cons(2) esc_bounds [of c] by simp }
qed simp_all

text \<open>The loop escapes a prefix: a character is taken while seven bytes are left.\<close>

fun esc_fit :: "nat \<Rightarrow> nat \<Rightarrow> string \<Rightarrow> nat" where
  "esc_fit n w [] = 0"
| "esc_fit n w (c # p) = (if w + 7 < n then Suc (esc_fit n (w + length (esc c)) p) else 0)"

lemma html_escape_loop_eq: "html_escape_loop n dst p = dst @ escs (take (esc_fit n (length dst) p) p)"
  by (induction n dst p rule: html_escape_loop.induct) (simp_all add: esc_def split: option.split)

lemma html_escape_eq: "html_escape src n = escs (take (esc_fit n 0 src) src)"
  by (simp add: html_escape_def html_escape_loop_eq)

lemma esc_fit_bound: "w < n \<Longrightarrow> w + length (escs (take (esc_fit n w p) p)) < n"
proof (induction p arbitrary: w)
  case (Cons c p)
  show ?case
  proof (cases "w + 7 < n")
    case True
    then have "w + length (esc c) < n" using esc_bounds(2) [of c] by linarith
    from Cons.IH [OF this] True show ?thesis by (simp add: add.assoc)
  qed (use Cons.prems in simp)
qed simp

lemma esc_fit_full: "w + length (escs (butlast p)) + 7 < n \<Longrightarrow> esc_fit n w p = length p"
proof (induction p arbitrary: w)
  case (Cons c p)
  then show ?case by (cases "p = []") (auto simp: add.assoc)
qed simp

lemma length_html_escape: "0 < n \<Longrightarrow> length (html_escape src n) < n"
  using esc_fit_bound [of 0 n src] by (simp add: html_escape_eq)

lemma html_escape_full:
  assumes "length (escs (butlast src)) + 7 < n \<or> length src = 0 \<or> length (escs src) + 6 < n"
  shows "html_escape src n = escs src"
proof -
  have "length (escs (butlast src)) < length (escs src)" if "src \<noteq> []"
    using that esc_bounds(1) [of "last src"] by (metis append_butlast_last_id escs_simps(3) length_append
        escs_simps(1,2) append_Nil2 less_add_same_cancel1 less_eq_Suc_le One_nat_def)
  then have "esc_fit n 0 src = length src"
    using assms esc_fit_full [of 0 src n] by (cases "src = []") auto
  then show ?thesis by (simp add: html_escape_eq)
qed

text \<open>A buffer of six times the size of the string's buffer takes any string.\<close>

lemma html_escape_6: "length src < m \<Longrightarrow> html_escape src (m * 6) = escs src"
proof (rule html_escape_full)
  assume m: "length src < m"
  have "length (escs (butlast src)) \<le> 6 * (length src - 1)" using length_escs_le(2) [of "butlast src"] by simp
  then show "length (escs (butlast src)) + 7 < m * 6 \<or> length src = 0 \<or> length (escs src) + 6 < m * 6"
    using m by arith
qed

text \<open>Reading escaped text back, as a browser does.\<close>

fun html_unescape :: "string \<Rightarrow> string" where
  "html_unescape s =
     (if s = [] then []
      else if starts_with s ''&amp;'' then CHR ''&'' # html_unescape (drop 5 s)
      else if starts_with s ''&lt;'' then CHR ''<'' # html_unescape (drop 4 s)
      else if starts_with s ''&gt;'' then CHR ''>'' # html_unescape (drop 4 s)
      else if starts_with s ''&quot;'' then CHR 0x22 # html_unescape (drop 6 s)
      else hd s # html_unescape (tl s))"

declare html_unescape.simps [simp del]

lemma html_unescape_Nil [simp]: "html_unescape [] = []"
  by (subst html_unescape.simps) simp

lemma html_unescape_esc: "html_unescape (esc c @ s) = c # html_unescape s"
proof -
  have a: "starts_with (c # s) ''&amp;'' = False" "starts_with (c # s) ''&lt;'' = False"
    "starts_with (c # s) ''&gt;'' = False" "starts_with (c # s) ''&quot;'' = False" if "c \<noteq> CHR ''&''"
    using that by simp_all
  show ?thesis
    unfolding esc_def html_rep_def by (subst html_unescape.simps) (auto simp: a)
qed

lemma html_unescape_escs: "html_unescape (escs s) = s"
  by (induction s) (simp_all add: html_unescape_esc)

lemma escs_markup: "c \<in> set (escs s) \<Longrightarrow> c \<notin> {CHR ''<'', CHR ''>'', CHR 0x22}"
  by (induction s) (auto simp: esc_def html_rep_def split: if_splits)

section \<open>Facts about page buffers\<close>

lemma page_add_fits:
  assumes "w = int (length dst)" and "length dst < n"
  shows "page_add n txt (dst, w) = (take (n - 1) (dst @ txt), int (min (n - 1) (length dst + length txt)))"
  using assms by (auto simp: page_add_def Let_def min_def)

text \<open>A page built piece by piece is the concatenation of the pieces, clipped.\<close>

definition page_at :: "nat \<Rightarrow> string \<Rightarrow> string \<times> int" where
  "page_at n txt = (take (n - 1) txt, int (min (n - 1) (length txt)))"

lemma page_add_at: "0 < n \<Longrightarrow> page_add n t (page_at n s) = page_at n (s @ t)"
proof (cases "length s < n")
  case True
  then have "take (n - 1) s = s" "min (n - 1) (length s) = length s" by auto
  then show ?thesis using True page_add_fits [of "int (length s)" s n t] by (simp add: page_at_def)
next
  case False
  assume n: "0 < n"
  define d where "d = take (n - 1) s"
  have d: "length d = n - 1" "take (n - 1) d = d" "length d < n" using False n by (auto simp: d_def)
  have "n - 1 \<le> length s" "n - 1 \<le> length (s @ t)" using False by auto
  then have "page_at n s = (d, int (length d))" "page_at n (s @ t) = (d, int (length d))"
    unfolding page_at_def d(1) by (simp_all add: d_def)
  then show ?thesis using page_add_fits [OF refl d(3), of t] d by simp
qed

lemma page_start: "0 < n \<Longrightarrow> page_add n t ([], 0) = page_at n t"
  using page_add_at [of n t "[]"] by (simp add: page_at_def)

lemma page_fold:
  "0 < n \<Longrightarrow> fold (\<lambda>i. page_add n (f i)) xs (page_at n s) = page_at n (s @ concat (map f xs))"
  by (induction xs arbitrary: s) (simp_all add: page_add_at)

section \<open>Facts about forms\<close>

text \<open>What a browser submits: unreserved characters as they are, a blank as \<open>+\<close>, everything else as
  \<open>%XX\<close>.\<close>

definition hex_digit :: "nat \<Rightarrow> char" where
  "hex_digit d = (if d < 10 then char_of (48 + d) else char_of (55 + d))"

definition url_safe :: "char \<Rightarrow> bool" where
  "url_safe c \<longleftrightarrow> (let k = ccode c in 48 \<le> k \<and> k \<le> 57 \<or> 65 \<le> k \<and> k \<le> 90 \<or> 97 \<le> k \<and> k \<le> 122 \<or> k \<in> {42, 45, 46, 95})"

definition form_enc :: "char \<Rightarrow> string" where
  "form_enc c = (if url_safe c then [c] else if c = CHR '' '' then ''+''
     else [CHR ''%'', hex_digit (ccode c div 16), hex_digit (ccode c mod 16)])"

definition form_encode :: "string \<Rightarrow> string" where
  "form_encode s = concat (map form_enc s)"

lemma form_encode_simps [simp]: "form_encode [] = []" "form_encode (c # s) = form_enc c @ form_encode s"
  by (simp_all add: form_encode_def)

lemma ccode_less: "ccode c < 256"
  using of_char_mod_256 [of c, where 'a = nat] mod_less_divisor [of 256 "ccode c"] by simp

lemma ccode_hex: "d < 16 \<Longrightarrow> ccode (hex_digit d) = (if d < 10 then 48 + d else 55 + d)"
  by (simp add: hex_digit_def)

lemma digit_val_hex: "d < 16 \<Longrightarrow> digit_val (hex_digit d) = d"
  by (auto simp: digit_val_def ccode_hex Let_def)

lemma strtol_hex:
  assumes "a < 16" and "b < 16"
  shows "strtol 16 [hex_digit a, hex_digit b] = int (16 * a + b)"
proof -
  have s: "\<not> isspace (hex_digit a)" "hex_digit a \<noteq> CHR ''-''" "hex_digit a \<noteq> CHR ''+''"
    using ccode_hex [OF assms(1)] by (auto simp: isspace_def split: if_splits)
  have "16 * a + b < 256" using assms by linarith
  then show ?thesis
    using assms by (simp add: strtol_def s digit_val_hex Let_def)
qed

lemma form_enc_step:
  assumes "length dst + 1 < n"
  shows "form_decode_loop n dst (form_enc c @ p) = form_decode_loop n (dst @ [c]) p"
proof (cases "url_safe c")
  case True
  then have "c \<noteq> CHR ''+''" "c \<noteq> CHR ''%''" by (auto simp: url_safe_def)
  then show ?thesis using True assms by (simp add: form_enc_def)
next
  case False
  have less: "ccode c div 16 < 16" "ccode c mod 16 < 16"
    using ccode_less [of c] by (simp_all add: less_mult_imp_div_less)
  have v: "char_of (strtol 16 [hex_digit (ccode c div 16), hex_digit (ccode c mod 16)]) = c"
    unfolding strtol_hex [OF less] by simp
  show ?thesis using False assms by (cases "c = CHR '' ''") (simp_all add: form_enc_def v)
qed

lemma form_decode_loop_enc:
  "length dst + length s < n \<Longrightarrow> form_decode_loop n dst (form_encode s) = dst @ s"
proof (induction s arbitrary: dst)
  case (Cons c s)
  then show ?case using form_enc_step [of dst n c "form_encode s"] by simp
qed simp

lemma length_form_decode_loop: "length dst < n \<Longrightarrow> length (form_decode_loop n dst p) < n"
  by (induction n dst p rule: form_decode_loop.induct) simp_all

lemma cstr_id: "CHR 0x00 \<notin> set s \<Longrightarrow> cstr s = s"
  by (auto simp: cstr_def takeWhile_eq_all_conv)

lemma length_cstr: "length (cstr s) \<le> length s"
  by (simp add: cstr_def length_takeWhile_le)

lemma length_form_decode: "0 < n \<Longrightarrow> length (form_decode s n) < n"
  using length_form_decode_loop [of "[]" n s] length_cstr [of "form_decode_loop n [] s"] by (simp add: form_decode_def)

lemma form_decode_enc: "length s < n \<Longrightarrow> CHR 0x00 \<notin> set s \<Longrightarrow> form_decode (form_encode s) n = s"
  using form_decode_loop_enc [of "[]" s n] by (simp add: form_decode_def cstr_id)

lemma form_enc_chars: "c \<in> set (form_enc d) \<Longrightarrow> c \<noteq> CHR ''&'' \<and> c \<noteq> CHR ''=''"
proof -
  have "ccode d div 16 < 16" "ccode d mod 16 < 16" using ccode_less [of d] by (simp_all add: less_mult_imp_div_less)
  then have "ccode (hex_digit (ccode d div 16)) \<notin> {38, 61}" "ccode (hex_digit (ccode d mod 16)) \<notin> {38, 61}"
    by (auto simp: ccode_hex)
  then show "c \<in> set (form_enc d) \<Longrightarrow> c \<noteq> CHR ''&'' \<and> c \<noteq> CHR ''=''"
    by (auto simp: form_enc_def url_safe_def split: if_splits)
qed

lemma length_form_enc: "1 \<le> length (form_enc c)" "length (form_enc c) \<le> 3"
  by (simp_all add: form_enc_def)

lemma length_form_encode: "length s \<le> length (form_encode s)" "length (form_encode s) \<le> 3 * length s"
proof (induction s)
  case (Cons c s)
  { case 1 then show ?case using Cons(1) length_form_enc [of c] by simp
  next case 2 then show ?case using Cons(2) length_form_enc [of c] by simp }
qed simp_all

section \<open>Lengths of long literals\<close>

text \<open>Counting into an accumulator, which the simplifier does without looking into the characters.\<close>

fun slen :: "'a list \<Rightarrow> nat \<Rightarrow> nat" where
  "slen [] n = n"
| "slen (x # xs) n = slen xs (n + 1)"

lemma slen_eq: "slen xs n = length xs + n"
  by (induction xs arbitrary: n) simp_all

lemma length_slen: "length xs = slen xs 0"
  by (simp add: slen_eq)

lemma slen_cong: "n = n' \<Longrightarrow> slen xs n = slen xs n'"
  by simp

section \<open>Facts about bodies\<close>

definition recv_bytes :: "recv_ev list \<Rightarrow> string" where
  "recv_bytes evs = concat (map (\<lambda>e. case e of RecvData d \<Rightarrow> d | _ \<Rightarrow> []) evs)"

lemma recv_loop_all:
  assumes "\<forall>e\<in>set evs. e \<noteq> RecvError \<and> e \<noteq> RecvData []" and "k \<le> length (recv_bytes evs)"
  shows "recv_loop evs k buf = Some (Some (buf @ take k (recv_bytes evs)))"
  using assms
proof (induction evs k buf rule: recv_loop.induct)
  case (5 d evs k buf)
  then have "d \<noteq> []" by auto
  then show ?case using 5 by (auto simp: recv_bytes_def min_def Let_def le_diff_conv)
qed (auto simp: recv_bytes_def)

lemma recv_loop_bound:
  "recv_loop evs k buf = Some (Some b) \<Longrightarrow> length b = length buf + k"
  by (induction evs k buf rule: recv_loop.induct) (auto simp: Let_def min_def split: if_splits)

end
