(* ===== verification/WebPages.thy ===== *)
theory WebPages
  imports WebText Bridge
begin

text \<open>
  The texts of the setup pages of \<open>main/web_ui.c\<close>: one definition per format string, its arguments
  filled in, one row per source line.
\<close>

definition GW_IP_STR :: string where "GW_IP_STR = ''192.168.7.1''"

definition PAGE_FOOTER :: string where
  "PAGE_FOOTER = ''<hr><small>Vetera Bridge - internet for pre-PAN Bluetooth phones</small>''"

text \<open>\<open>%02u\<close>\<close>

definition dec2 :: "nat \<Rightarrow> string" where
  "dec2 n = (if n < 10 then CHR ''0'' # dec n else dec n)"

section \<open>The pages\<close>

definition links_open :: "string" where
  \<open>links_open = concat [
     ''<div style=\'text-align:left;padding:8px 0;\'>'']\<close>

definition link_row :: "string \<Rightarrow> string \<Rightarrow> string" where
  \<open>link_row url_esc label = concat [
     ''<a href="'', url_esc, ''" style=\'font-size:120%;\'>'', label, ''</a><br>'']\<close>

definition links_close :: "string" where
  \<open>links_close = concat [
     ''</div><hr>'']\<close>

definition root_head :: "string \<Rightarrow> string \<Rightarrow> string" where
  \<open>root_head name_esc refresh = concat [
     ''<html><head><title>'', name_esc, ''</title>'',
     ''<meta charset=\'utf-8\'>'',
     refresh,
     ''<meta name=\'viewport\' content=\'width=device-width,initial-scale=1\'>'',
     ''<meta name=\'format-detection\' content=\'telephone=no\'>'',
     ''</head>'',
     ''<body style=\'font-family:sans-serif;padding:20px;text-align:center;\'>'',
     ''<h2>'', name_esc, ''</h2><hr>'']\<close>

definition root_body :: "string \<Rightarrow> string \<Rightarrow> string \<Rightarrow> string \<Rightarrow> string \<Rightarrow> int \<Rightarrow> string \<Rightarrow> int \<Rightarrow> int \<Rightarrow> string \<Rightarrow> u32 \<Rightarrow> int \<Rightarrow> string" where
  \<open>root_body state link wifi ssid ip w_rssi b_rssi n_nets bmc proxy up heap = concat [
     ''<div style=\'text-align:left;background:#ecf0f1;padding:15px;\'>'',
     ''<b>Status:</b> '', state, ''<br>'',
     ''<b>Phone link (PPP):</b> '', link, ''<br>'',
     ''<b>WiFi:</b> '', wifi, '' '', ssid, ''<br>'',
     ''<b>WiFi IP:</b> '', ip, ''<br>'',
     ''<b>WiFi RSSI:</b> '', dec_int w_rssi, '' dBm<br>'',
     ''<b>BT RSSI:</b> '', b_rssi, ''<br>'',
     ''<b>Saved networks:</b> '', dec_int n_nets, ''/'', dec_int (int WIFI_LIST_MAX), ''<br>'',
     ''<b>Bookmarks:</b> '', dec_int bmc, ''/'', dec_int (int BM_MAX), ''<br>'',
     ''<b>HTTP proxy:</b> '', proxy, ''<br>'',
     ''<b>Uptime:</b> '', dec (unat (up div 86400)), ''d '', dec2 (unat ((up mod 86400) div 3600)), '':'', dec2 (unat ((up mod 3600) div 60)), '':'', dec2 (unat (up mod 60)), ''<br>'',
     ''<b>Free heap:</b> '', dec_int heap, '' KB'',
     ''</div><hr>'',
     ''<a href=\'/\'>Reload</a><br>'',
     ''<a href=\'/bm\'>Bookmarks</a><br>'',
     ''<a href=\'/wifi\'>WiFi networks</a><br>'',
     ''<a href=\'/name\'>Device name</a><br>'',
     ''<a href=\'/security\'>Bluetooth security</a><br>'',
     ''<a href=\'/proxy\'>HTTP proxy</a><br>'',
     ''<a href=\'/debug\'>Debug logging</a><br>'',
     ''<a href=\'/reboot\' style=\'color:#e74c3c;\'>Reboot</a>'',
     ''<br>'', PAGE_FOOTER,
     ''</body></html>'']\<close>

definition bm_head :: "string" where
  \<open>bm_head = concat [
     ''<html><head><title>Bookmarks</title>'',
     ''<meta charset=\'utf-8\'>'',
     ''<meta name=\'viewport\' content=\'width=device-width,initial-scale=1\'>'',
     ''<meta name=\'format-detection\' content=\'telephone=no\'>'',
     ''</head>'',
     ''<body style=\'font-family:sans-serif;padding:20px;text-align:center;\'>'',
     ''<h2>Bookmarks</h2><hr>'']\<close>

definition bm_err :: "string" where
  \<open>bm_err = concat [
     ''<p style=\'color:#e74c3c;\'>Not saved.<br>'',
     ''The address must be http:// or https:// and at most '', dec_int (int BM_URL_MAX - 1), '' '',
     ''characters.</p>'']\<close>

definition bm_none :: "string" where
  \<open>bm_none = concat [
     ''<p>No bookmarks yet.<br>'',
     ''Add them from a PC on the same WiFi at this bridge\'s WiFi IP '',
     ''(shown on the status page) - then they are one tap away on the '',
     ''phone.</p>'']\<close>

definition bm_open_div :: "string" where
  \<open>bm_open_div = concat [
     ''<div style=\'text-align:left;background:#ecf0f1;padding:15px;\'>'']\<close>

definition bm_row :: "int \<Rightarrow> string \<Rightarrow> string \<Rightarrow> string" where
  \<open>bm_row i url_esc label = concat [
     dec_int (i + 1), ''. <a href="'', url_esc, ''"><b>'', label, ''</b></a><br>'',
     ''<small>'', url_esc, ''</small><br>'',
     ''[<a href=\'/bm/edit?i='', dec_int i, ''\'>edit</a>] '',
     ''[<a href=\'/bm/del?i='', dec_int i, ''\'>delete</a>]<br><br>'']\<close>

definition bm_close_div :: "string" where
  \<open>bm_close_div = concat [
     ''</div>'']\<close>

definition bm_foot :: "int \<Rightarrow> string \<Rightarrow> string" where
  \<open>bm_foot n_used add = concat [
     ''<p>('', dec_int n_used, ''/'', dec_int (int BM_MAX), '' used)</p>'',
     add,
     ''<hr>'',
     ''<a href=\'/\'>Status</a><br>'',
     ''<a href=\'/wifi\'>WiFi networks</a>'',
     ''<br>'', PAGE_FOOTER,
     ''</body></html>'']\<close>

definition bm_add_link :: "string" where
  \<open>bm_add_link = concat [
     ''<a href=\'/bm/edit\' style=\'font-size:120%\'>'',
     ''Add a bookmark</a>'']\<close>

definition bm_full :: "string" where
  \<open>bm_full = concat [
     ''<p>List is full - delete one first.</p>'']\<close>

definition bm_edit_page :: "string \<Rightarrow> int \<Rightarrow> string \<Rightarrow> string \<Rightarrow> string" where
  \<open>bm_edit_page verb index title_esc url_esc = concat [
     ''<html><head><title>'', verb, '' Bookmark</title>'',
     ''<meta charset=\'utf-8\'>'',
     ''<meta name=\'viewport\' content=\'width=device-width,initial-scale=1\'>'',
     ''<meta name=\'format-detection\' content=\'telephone=no\'>'',
     ''</head>'',
     ''<body style=\'font-family:sans-serif;padding:20px;text-align:center;\'>'',
     ''<h2>'', verb, '' Bookmark</h2><hr>'',
     ''<form action=\'/bm/save\' method=\'post\'>'',
     ''<input type=\'hidden\' name=\'i\' value='', [CHR 0x27], dec_int index, ''\'>'',
     ''<p>Name:<br>'',
     ''<input type=\'text\' name=\'title\' size=\'20\' maxlength='', [CHR 0x27], dec_int (int BM_TITLE_MAX - 1), ''\' value="'', title_esc, ''"></p>'',
     ''<p>Address:<br>'',
     ''<input type=\'text\' name=\'url\' size=\'30\' maxlength='', [CHR 0x27], dec_int (int BM_URL_MAX - 1), ''\' value="'', url_esc, ''"></p>'',
     ''<p><input type=\'submit\' value=\'Save\' style=\'font-size:110%;\'></p>'',
     ''</form>'',
     ''<p style=\'text-align:left;\'><small>http:// is added automatically if '',
     ''you leave it off. HTTPS sites will not load on an S60v1 phone - its '',
     ''TLS is too old - so plain http:// addresses are the useful ones.</small></p>'',
     ''<hr>'',
     ''<a href=\'/bm\'>Bookmarks</a><br>'',
     ''<a href=\'/\'>Status</a>'',
     ''<br>'', PAGE_FOOTER,
     ''</body></html>'']\<close>

definition wifi_head :: "string" where
  \<open>wifi_head = concat [
     ''<html><head><title>WiFi Networks</title>'',
     ''<meta charset=\'utf-8\'>'',
     ''<meta name=\'viewport\' content=\'width=device-width,initial-scale=1\'>'',
     ''<meta name=\'format-detection\' content=\'telephone=no\'>'',
     ''</head>'',
     ''<body style=\'font-family:sans-serif;padding:20px;text-align:center;\'>'',
     ''<h2>WiFi Networks</h2><hr>'']\<close>

definition wifi_failed :: "string" where
  \<open>wifi_failed = concat [
     ''<p style=\'color:#e74c3c;\'>Could not connect to any saved '',
     ''network.<br>Check the list below.</p>'']\<close>

definition wifi_none :: "string" where
  \<open>wifi_none = concat [
     ''<p>No networks saved yet.<br>'',
     ''The gateway connects to the strongest saved network '',
     ''it can find.</p>'']\<close>

definition wifi_open_div :: "string" where
  \<open>wifi_open_div = concat [
     ''<div style=\'text-align:left;background:#ecf0f1;padding:15px;\'>'']\<close>

definition wifi_row :: "int \<Rightarrow> string \<Rightarrow> string" where
  \<open>wifi_row i ssid_esc = concat [
     dec_int (i + 1), ''. <b>'', ssid_esc, ''</b> [<a href=\'/wifi/del?i='', dec_int i, ''\'>delete</a>]<br>'']\<close>

definition wifi_close_div :: "string" where
  \<open>wifi_close_div = concat [
     ''</div>'']\<close>

definition wifi_foot :: "int \<Rightarrow> string" where
  \<open>wifi_foot n_used = concat [
     ''<p>('', dec_int n_used, ''/'', dec_int (int WIFI_LIST_MAX), '' used)</p>'',
     ''<form action=\'/wifi/add\' method=\'post\'>'',
     ''<p>SSID:<br>'',
     ''<input type=\'text\' name=\'ssid\' size=\'20\' maxlength=\'32\'></p>'',
     ''<p>Password: (empty for open networks)<br>'',
     ''<input type=\'password\' name=\'pass\' size=\'20\' maxlength=\'63\'></p>'',
     ''<p><input type=\'submit\' value=\'Add network\' style=\'font-size:110%;\'></p>'',
     ''</form><hr>'',
     ''<a href=\'/\'>Status</a><br>'',
     ''<a href=\'/reset\'>Forget all networks</a><br>'',
     ''<a href=\'/reboot\' style=\'color:#e74c3c;\'>Reboot</a>'',
     ''<br>'', PAGE_FOOTER,
     ''</body></html>'']\<close>

definition name_page :: "string \<Rightarrow> string \<Rightarrow> string \<Rightarrow> string" where
  \<open>name_page cur_esc derived custom_esc = concat [
     ''<html><head><title>Device Name</title>'',
     ''<meta charset=\'utf-8\'>'',
     ''<meta name=\'viewport\' content=\'width=device-width,initial-scale=1\'>'',
     ''<meta name=\'format-detection\' content=\'telephone=no\'>'',
     ''</head>'',
     ''<body style=\'font-family:sans-serif;padding:20px;text-align:center;\'>'',
     ''<h2>Device Name</h2><hr>'',
     ''<div style=\'text-align:left;background:#ecf0f1;padding:15px;\'>'',
     ''<b>Shown to phones:</b> '', cur_esc, ''<br>'',
     ''<b>Default for this unit:</b> '', derived,
     ''</div>'',
     ''<form action=\'/name\' method=\'post\'>'',
     ''<p>Custom name: (empty = use the default)<br>'',
     ''<input type=\'text\' name=\'name\' size=\'20\' maxlength='', [CHR 0x27], dec_int (int BT_NAME_CUSTOM_MAX), ''\' value="'', custom_esc, ''"></p>'',
     ''<p><input type=\'submit\' value=\'Save name\' style=\'font-size:110%;\'></p>'',
     ''</form>'',
     ''<p style=\'text-align:left;\'><small>The default number comes from this '',
     ''unit\'s Bluetooth address, so every bridge differs. A phone caches the '',
     ''name in its paired-devices list - it may keep showing the old one until '',
     ''it searches for devices again.</small></p><hr>'',
     ''<a href=\'/\'>Status</a><br>'',
     ''<a href=\'/wifi\'>WiFi networks</a>'',
     ''<br>'', PAGE_FOOTER,
     ''</body></html>'']\<close>

definition debug_page :: "string \<Rightarrow> string \<Rightarrow> string \<Rightarrow> string" where
  \<open>debug_page hci stk vrb = concat [
     ''<html><head><title>Debug Logging</title>'',
     ''<meta charset=\'utf-8\'>'',
     ''<meta name=\'viewport\' content=\'width=device-width,initial-scale=1\'>'',
     ''<meta name=\'format-detection\' content=\'telephone=no\'>'',
     ''</head>'',
     ''<body style=\'font-family:sans-serif;padding:20px;text-align:center;\'>'',
     ''<h2>Debug Logging</h2><hr>'',
     ''<form action=\'/debug\' method=\'post\' style=\'text-align:left;\'>'',
     ''<p><input type=\'checkbox\' name=\'hci\' value=\'1'', [CHR 0x27], hci, ''> '',
     ''<b>HCI packet trace</b><br>'',
     ''<small>Every Bluetooth HCI packet as hex: SDP queries, RFCOMM '',
     ''setup, pairing.</small></p>'',
     ''<p><input type=\'checkbox\' name=\'stk\' value=\'1'', [CHR 0x27], stk, ''> '',
     ''<b>BTstack internal log</b><br>'',
     ''<small>The Bluetooth stack\'s own L2CAP/RFCOMM/SDP state '',
     ''messages.</small></p>'',
     ''<p><input type=\'checkbox\' name=\'vrb\' value=\'1'', [CHR 0x27], vrb, ''> '',
     ''<b>Verbose bridge events</b><br>'',
     ''<small>Unhandled HCI event codes, link security when a phone '',
     ''opens the serial channel, every DNS query and its answer.</small></p>'',
     ''<p style=\'text-align:center;\'><input type=\'submit\' value=\'Save\' '',
     ''style=\'font-size:110%;\'></p>'',
     ''</form>'',
     ''<p style=\'text-align:left;\'><small>Output goes to the USB serial '',
     ''console (115200 baud) only. Changes apply at once and are kept '',
     ''across reboots, so a trace can cover pairing from power-on. The '',
     ''packet trace slows the phone\'s connection a lot: turn it off for '',
     ''normal use.</small></p><hr>'',
     ''<a href=\'/\'>Status</a>'',
     ''<br>'', PAGE_FOOTER,
     ''</body></html>'']\<close>

definition security_last :: "string \<Rightarrow> string \<Rightarrow> string" where
  \<open>security_last name_esc verdict = concat [
     ''<br><b>Last phone:</b> '', name_esc, '', '', verdict]\<close>

definition security_page :: "string \<Rightarrow> string \<Rightarrow> string \<Rightarrow> string \<Rightarrow> string \<Rightarrow> string" where
  \<open>security_page now last_esc auto_on on_on off_on = concat [
     ''<html><head><title>Bluetooth Security</title>'',
     ''<meta charset=\'utf-8\'>'',
     ''<meta name=\'viewport\' content=\'width=device-width,initial-scale=1\'>'',
     ''<meta name=\'format-detection\' content=\'telephone=no\'>'',
     ''</head>'',
     ''<body style=\'font-family:sans-serif;padding:20px;text-align:center;\'>'',
     ''<h2>Bluetooth Security</h2><hr>'',
     ''<div style=\'text-align:left;background:#ecf0f1;padding:15px;\'>'',
     ''<b>Now:</b> '', now, last_esc,
     ''</div>'',
     ''<form action=\'/security\' method=\'post\' style=\'text-align:left;\'>'',
     ''<p><input type=\'radio\' name=\'sec\' value=\'auto'', [CHR 0x27], auto_on, ''> <b>Auto</b><br>'',
     ''<small>Off for S60 1st Edition phones and Nokia Communicators, '',
     ''recognised by their Bluetooth name (N-Gage, 3650, 3660, 7650, '',
     ''9210, 9290, 9300, 9500), on for every other '',
     ''phone. A phone renamed away from its model counts as "other".</small></p>'',
     ''<p><input type=\'radio\' name=\'sec\' value=\'on'', [CHR 0x27], on_on, ''> '',
     ''<b>Require authentication and encryption</b><br>'',
     ''<small>The bridge authenticates and encrypts the link before a '',
     ''phone can open the serial channel. S60 2nd Edition phones (e.g. '',
     ''Nokia 7610) with gnubox need this.</small></p>'',
     ''<p><input type=\'radio\' name=\'sec\' value=\'off'', [CHR 0x27], off_on, ''> <b>Off</b><br>'',
     ''<small>How S60 1st Edition phones (N-Gage, 3650, ...) connect.</small></p>'',
     ''<p style=\'text-align:center;\'><input type=\'submit\' value=\'Save\' '',
     ''style=\'font-size:110%;\'></p>'',
     ''</form>'',
     ''<p style=\'text-align:left;\'><small>Saving a change reboots the '',
     ''bridge, which drops a connected phone. With security on for a '',
     ''phone, one that has not paired with the bridge is asked for the '',
     ''PIN (0000) when it connects. Holding the board\'s BOOT button for '',
     ''3 s also switches it: off, on, auto in turn.</small></p><hr>'',
     ''<a href=\'/\'>Status</a>'',
     ''<br>'', PAGE_FOOTER,
     ''</body></html>'']\<close>

definition proxy_now :: "string \<Rightarrow> u16 \<Rightarrow> int \<Rightarrow> string" where
  \<open>proxy_now host_esc port active = concat [
     ''on, '', host_esc, '':'', dec (unat port), '', '', dec_int active, '' active'']\<close>

definition proxy_head :: "string \<Rightarrow> string \<Rightarrow> string" where
  \<open>proxy_head now off_on = concat [
     ''<html><head><title>HTTP Proxy</title>'',
     ''<meta charset=\'utf-8\'>'',
     ''<meta name=\'viewport\' content=\'width=device-width,initial-scale=1\'>'',
     ''<meta name=\'format-detection\' content=\'telephone=no\'>'',
     ''</head>'',
     ''<body style=\'font-family:sans-serif;padding:20px;text-align:center;\'>'',
     ''<h2>HTTP Proxy</h2><hr>'',
     ''<div style=\'text-align:left;background:#ecf0f1;padding:15px;\'>'',
     ''<b>Now:</b> '', now,
     ''</div>'',
     ''<form action=\'/proxy\' method=\'post\' style=\'text-align:left;\'>'',
     ''<p><input type=\'radio\' name=\'px\' value=\'off'', [CHR 0x27], off_on, ''> <b>Off</b><br>'',
     ''<small>The phone reaches web sites directly.</small></p>'']\<close>

definition proxy_row :: "int \<Rightarrow> string \<Rightarrow> proxy_preset \<Rightarrow> string" where
  \<open>proxy_row i checked pr = concat [
     ''<p><input type=\'radio\' name=\'px\' value='', [CHR 0x27], dec_int i, [CHR 0x27], checked, ''> <b>'', pp_name pr, ''</b> '',
     ''('', pp_host pr, '':'', dec (unat (pp_port pr)), '')<br><small>'', pp_note pr, ''</small></p>'']\<close>

definition proxy_foot :: "string \<Rightarrow> string \<Rightarrow> string \<Rightarrow> string" where
  \<open>proxy_foot checked host port = concat [
     ''<p><input type=\'radio\' name=\'px\' value=\'custom'', [CHR 0x27], checked, ''> <b>Custom</b><br>'',
     ''Host: <input type=\'text\' name=\'host\' size=\'18\' maxlength='', [CHR 0x27], dec_int (int PROXY_HOST_MAX - 1), ''\' '',
     ''value="'', host, ''"><br>'',
     ''Port: <input type=\'text\' name=\'port\' size=\'6\' maxlength=\'5\' '',
     ''value='', [CHR 0x27], port, ''\'></p>'',
     ''<p style=\'text-align:center;\'><input type=\'submit\' value=\'Save\' '',
     ''style=\'font-size:110%;\'></p>'',
     ''</form>'',
     ''<p style=\'text-align:left;\'><small>With a proxy on, every connection '',
     ''the phone opens to port 80 or 443 goes through it, with nothing to set '',
     ''up in the browser. This page ('', GW_IP_STR, '') is never proxied. '',
     ''HTTPS goes through as a CONNECT tunnel, so the HTTPS presets need '',
     ''their root CA installed on the phone (from 15pmm01.com). Presets are '',
     ''from 15pmm01.com/wap/en.</small></p><hr>'',
     ''<a href=\'/\'>Status</a>'',
     ''<br>'', PAGE_FOOTER,
     ''</body></html>'']\<close>

definition saved_page :: "string" where
  \<open>saved_page = concat [
     ''<html><body><p>Saved. Rebooting...</p></body></html>'']\<close>

definition rebooting_page :: "string" where
  \<open>rebooting_page = concat [
     ''<html><body><p>Rebooting...</p></body></html>'']\<close>

section \<open>Their lengths\<close>

lemma const_lens:
  "length PAGE_FOOTER = 72" "length GW_IP_STR = 11" "length (dec_int (int WIFI_LIST_MAX)) = 1" "length (dec_int (int BM_MAX)) = 2"
  "length (dec_int (int BM_URL_MAX - 1)) = 3" "length (dec_int (int BM_TITLE_MAX - 1)) = 2"
  "length (dec_int (int BT_NAME_CUSTOM_MAX)) = 2" "length (dec_int (int PROXY_HOST_MAX - 1)) = 2"
  by code_simp+

lemmas pieces = length_concat list.map sum_list.Cons sum_list.Nil const_lens

lemma len_links_open: "length links_open = 44"
  unfolding links_open_def pieces unfolding length_slen by (simp cong: slen_cong)

lemma len_link_row: "length (link_row url_esc label) = 43 + length url_esc + length label"
  unfolding link_row_def pieces unfolding length_slen by (simp cong: slen_cong)

lemma len_links_close: "length links_close = 10"
  unfolding links_close_def pieces unfolding length_slen by (simp cong: slen_cong)

lemma len_root_head: "length (root_head name_esc refresh) = 258 + 2 * length name_esc + length refresh"
  unfolding root_head_def pieces unfolding length_slen by (simp cong: slen_cong)

lemma len_root_body: "length (root_body state link wifi ssid ip w_rssi b_rssi n_nets bmc proxy up heap) = 714 + length state + length link + length wifi + length ssid + length ip + length (dec_int w_rssi) + length b_rssi + length (dec_int n_nets) + length (dec_int bmc) + length proxy + length (dec (unat (up div 86400))) + length (dec2 (unat ((up mod 86400) div 3600))) + length (dec2 (unat ((up mod 3600) div 60))) + length (dec2 (unat (up mod 60))) + length (dec_int heap)"
  unfolding root_body_def pieces unfolding length_slen by (simp cong: slen_cong)

lemma len_bm_head: "length bm_head = 276"
  unfolding bm_head_def pieces unfolding length_slen by (simp cong: slen_cong)

lemma len_bm_err: "length bm_err = 111"
  unfolding bm_err_def pieces unfolding length_slen by (simp cong: slen_cong)

lemma len_bm_none: "length bm_none = 158"
  unfolding bm_none_def pieces unfolding length_slen by (simp cong: slen_cong)

lemma len_bm_open_div: "length bm_open_div = 62"
  unfolding bm_open_div_def pieces unfolding length_slen by (simp cong: slen_cong)

lemma len_bm_row: "length (bm_row i url_esc label) = 121 + length (dec_int (i + 1)) + 2 * length url_esc + length label + 2 * length (dec_int i)"
  unfolding bm_row_def pieces unfolding length_slen by (simp cong: slen_cong)

lemma len_bm_close_div: "length bm_close_div = 6"
  unfolding bm_close_div_def pieces unfolding length_slen by (simp cong: slen_cong)

lemma len_bm_foot: "length (bm_foot n_used add) = 170 + length (dec_int n_used) + length add"
  unfolding bm_foot_def pieces unfolding length_slen by (simp cong: slen_cong)

lemma len_bm_add_link: "length bm_add_link = 60"
  unfolding bm_add_link_def pieces unfolding length_slen by (simp cong: slen_cong)

lemma len_bm_full: "length bm_full = 39"
  unfolding bm_full_def pieces unfolding length_slen by (simp cong: slen_cong)

lemma len_bm_edit_page: "length (bm_edit_page verb index title_esc url_esc) = 951 + 2 * length verb + length (dec_int index) + length title_esc + length url_esc"
  unfolding bm_edit_page_def pieces unfolding length_slen by (simp cong: slen_cong)

lemma len_wifi_head: "length wifi_head = 284"
  unfolding wifi_head_def pieces unfolding length_slen by (simp cong: slen_cong)

lemma len_wifi_failed: "length wifi_failed = 94"
  unfolding wifi_failed_def pieces unfolding length_slen by (simp cong: slen_cong)

lemma len_wifi_none: "length wifi_none = 97"
  unfolding wifi_none_def pieces unfolding length_slen by (simp cong: slen_cong)

lemma len_wifi_open_div: "length wifi_open_div = 62"
  unfolding wifi_open_div_def pieces unfolding length_slen by (simp cong: slen_cong)

lemma len_wifi_row: "length (wifi_row i ssid_esc) = 49 + length (dec_int (i + 1)) + length ssid_esc + length (dec_int i)"
  unfolding wifi_row_def pieces unfolding length_slen by (simp cong: slen_cong)

lemma len_wifi_close_div: "length wifi_close_div = 6"
  unfolding wifi_close_div_def pieces unfolding length_slen by (simp cong: slen_cong)

lemma len_wifi_foot: "length (wifi_foot n_used) = 527 + length (dec_int n_used)"
  unfolding wifi_foot_def pieces unfolding length_slen by (simp cong: slen_cong)

lemma len_name_page: "length (name_page cur_esc derived custom_esc) = 1039 + length cur_esc + length derived + length custom_esc"
  unfolding name_page_def pieces unfolding length_slen by (simp cong: slen_cong)

lemma len_debug_page: "length (debug_page hci stk vrb) = 1370 + length hci + length stk + length vrb"
  unfolding debug_page_def pieces unfolding length_slen by (simp cong: slen_cong)

lemma len_security_last: "length (security_last name_esc verdict) = 25 + length name_esc + length verdict"
  unfolding security_last_def pieces unfolding length_slen by (simp cong: slen_cong)

lemma len_security_page: "length (security_page now last_esc auto_on on_on off_on) = 1670 + length now + length last_esc + length auto_on + length on_on + length off_on"
  unfolding security_page_def pieces unfolding length_slen by (simp cong: slen_cong)

lemma len_proxy_now: "length (proxy_now host_esc port active) = 14 + length host_esc + length (dec (unat port)) + length (dec_int active)"
  unfolding proxy_now_def pieces unfolding length_slen by (simp cong: slen_cong)

lemma len_proxy_head: "length (proxy_head now off_on) = 535 + length now + length off_on"
  unfolding proxy_head_def pieces unfolding length_slen by (simp cong: slen_cong)

lemma len_proxy_row: "length (proxy_row i checked pr) = 77 + length (dec_int i) + length checked + length (pp_name pr) + length (pp_host pr) + length (dec (unat (pp_port pr))) + length (pp_note pr)"
  unfolding proxy_row_def pieces unfolding length_slen by (simp cong: slen_cong)

lemma len_proxy_foot: "length (proxy_foot checked host port) = 801 + length checked + length host + length port"
  unfolding proxy_foot_def pieces unfolding length_slen by (simp cong: slen_cong)

lemma len_saved_page: "length saved_page = 52"
  unfolding saved_page_def pieces unfolding length_slen by (simp cong: slen_cong)

lemma len_rebooting_page: "length rebooting_page = 45"
  unfolding rebooting_page_def pieces unfolding length_slen by (simp cong: slen_cong)

section \<open>Their ends\<close>

lemma concat_ends: "xs \<noteq> [] \<Longrightarrow> last xs = z \<Longrightarrow> \<exists>p. concat xs = p @ z"
  by (metis append_butlast_last_id concat.simps concat_append append_Nil2)

lemma end_root_body: "\<exists>p. root_body state link wifi ssid ip w_rssi b_rssi n_nets bmc proxy up heap = p @ ''</body></html>''"
  unfolding root_body_def by (rule concat_ends) simp_all

lemma end_bm_foot: "\<exists>p. bm_foot n_used add = p @ ''</body></html>''"
  unfolding bm_foot_def by (rule concat_ends) simp_all

lemma end_bm_edit_page: "\<exists>p. bm_edit_page verb index title_esc url_esc = p @ ''</body></html>''"
  unfolding bm_edit_page_def by (rule concat_ends) simp_all

lemma end_wifi_foot: "\<exists>p. wifi_foot n_used = p @ ''</body></html>''"
  unfolding wifi_foot_def by (rule concat_ends) simp_all

lemma end_name_page: "\<exists>p. name_page cur_esc derived custom_esc = p @ ''</body></html>''"
  unfolding name_page_def by (rule concat_ends) simp_all

lemma end_debug_page: "\<exists>p. debug_page hci stk vrb = p @ ''</body></html>''"
  unfolding debug_page_def by (rule concat_ends) simp_all

lemma end_security_page: "\<exists>p. security_page now last_esc auto_on on_on off_on = p @ ''</body></html>''"
  unfolding security_page_def by (rule concat_ends) simp_all

lemma end_proxy_foot: "\<exists>p. proxy_foot checked host port = p @ ''</body></html>''"
  unfolding proxy_foot_def by (rule concat_ends) simp_all

end
