(* ===== verification/WebUi.thy ===== *)
theory WebUi
  imports WebPages
begin

text \<open>
  The pages of \<open>main/web_ui.c\<close>: what each handler answers and what it changes.  The HTTP server, \<open>malloc\<close>
  and \<open>inet_pton\<close> are not part of the repository: what they return is in \<open>web_env\<close> and \<open>http_req\<close>.  A
  response is the status, the headers and the bodies handed to the server; a handler that never gets
  its body is \<open>None\<close>.
\<close>

record web_env =
  we_qkv :: "string \<Rightarrow> string \<Rightarrow> nat \<Rightarrow> bool \<times> string"
    \<comment> \<open>\<open>httpd_query_key_value\<close>: whether it returned \<open>ESP_OK\<close>, and what the zeroed buffer holds then\<close>
  we_pton :: "string \<Rightarrow> bool"    \<comment> \<open>\<open>inet_pton\<close> took the address\<close>
  we_malloc :: bool
  we_send :: esp_err             \<comment> \<open>what sending the response returned\<close>
  we_task :: bool                \<comment> \<open>a task could be created\<close>
  we_active :: int               \<comment> \<open>\<open>proxy_active_sessions\<close>\<close>
  we_free :: nat                 \<comment> \<open>\<open>heap_caps_get_free_size\<close>\<close>
  we_now :: "64 word"
  we_boot :: "64 word"

record http_req =
  rq_host :: "nat \<Rightarrow> string option"   \<comment> \<open>the Host header, for a buffer of this size\<close>
  rq_query :: "nat \<Rightarrow> string option"  \<comment> \<open>the query string, for a buffer of this size\<close>
  rq_len :: nat
  rq_recv :: "recv_ev list"

record web_resp =
  rs_status :: string
  rs_type :: string
  rs_hdrs :: "(string \<times> string) list"
  rs_sent :: "string list"

record 'i web_sys =
  ws_s :: "'i ppp_st"
  ws_bm :: "('i, wifi_list_t) bm_state"
  ws_px :: px_cfg

type_synonym web_out = "esp_err \<times> web_resp"

definition resp0 :: web_resp where
  "resp0 = \<lparr>rs_status = ''200 OK'', rs_type = ''text/html'', rs_hdrs = [], rs_sent = []\<rparr>"

definition ESP_ERR_NO_MEM :: esp_err where "ESP_ERR_NO_MEM = ESP_FAIL 0x101"

section \<open>Responses\<close>

definition no_cache :: "string \<times> string" where
  "no_cache = (''Cache-Control'', ''no-cache, no-store, must-revalidate'')"

definition set_no_cache :: "string \<Rightarrow> web_resp \<Rightarrow> web_resp" where
  "set_no_cache ty r = r\<lparr>rs_type := ty, rs_hdrs := rs_hdrs r @ [no_cache]\<rparr>"

definition sendstr :: "web_env \<Rightarrow> string \<Rightarrow> web_resp \<Rightarrow> web_out" where
  "sendstr e body r = (we_send e, r\<lparr>rs_sent := rs_sent r @ [body]\<rparr>)"

definition redirect_to :: "web_env \<Rightarrow> string \<Rightarrow> web_resp \<Rightarrow> web_out" where
  "redirect_to e loc r =
     sendstr e [] (r\<lparr>rs_status := ''302 Found'',
       rs_hdrs := rs_hdrs r @ [(''Location'', loc), no_cache, (''Pragma'', ''no-cache''), (''Expires'', ''0'')]\<rparr>)"

definition gw_url :: string where "gw_url = ''http://'' @ GW_IP_STR @ ''/''"

text \<open>The check: whether the handler goes on, and the response so far.\<close>

definition captive_check :: "web_env \<Rightarrow> http_req \<Rightarrow> web_resp \<Rightarrow> bool \<times> web_resp" where
  "captive_check e rq r =
     (case rq_host rq 64 of
        None \<Rightarrow> (True, r)
      | Some host \<Rightarrow>
          if strstr host GW_IP_STR = None then
            let host_no_port = strlcpy host 64;
                host_no_port = (case strchr host_no_port CHR '':'' of None \<Rightarrow> host_no_port | Some i \<Rightarrow> take i host_no_port)
            in if \<not> we_pton e host_no_port then (False, snd (redirect_to e gw_url r)) else (True, r)
          else (True, r))"

text \<open>How the page handlers begin, and how the ones that build a page in allocated memory end.\<close>

definition guarded :: "web_env \<Rightarrow> http_req \<Rightarrow> (web_resp \<Rightarrow> web_out) \<Rightarrow> web_out" where
  "guarded e rq f =
     (let (go, r) = captive_check e rq resp0
      in if \<not> go then (ESP_OK, r) else f (set_no_cache ''text/html'' r))"

definition send_page :: "web_env \<Rightarrow> string \<Rightarrow> web_resp \<Rightarrow> web_out" where
  "send_page e page r = (if \<not> we_malloc e then (ESP_ERR_NO_MEM, r) else sendstr e page r)"

text \<open>The index in the query, for the handlers that take one.\<close>

definition query_val :: "web_env \<Rightarrow> http_req \<Rightarrow> string \<Rightarrow> string option" where
  "query_val e rq key =
     (case rq_query rq 32 of
        None \<Rightarrow> None
      | Some q \<Rightarrow> (case we_qkv e q key 8 of (ok, v) \<Rightarrow> if ok then Some v else None))"

section \<open>Bookmark helpers\<close>

definition bm_escaped_total :: "('s, 'b) bm_state \<Rightarrow> nat" where
  "bm_escaped_total bm = fold (\<lambda>i n. case bookmarks_get bm (int i) of None \<Rightarrow> n
     | Some b \<Rightarrow> n + (html_escape_len (bm_title b) + html_escape_len (bm_url b))) [0..<bookmarks_count bm] 0"

text \<open>The escaped URL and the label.\<close>

definition bm_escape :: "bookmark \<Rightarrow> nat \<Rightarrow> nat \<Rightarrow> string \<times> string" where
  "bm_escape b url_n title_n =
     (let url_esc = html_escape (bm_url b) url_n
      in (url_esc, if bm_title b \<noteq> [] then html_escape (bm_title b) title_n else url_esc))"

definition bm_render_links :: "('s, 'b) bm_state \<Rightarrow> nat \<Rightarrow> string \<times> int" where
  "bm_render_links bm n =
     (let bmc = bookmarks_count bm in
      if bmc = 0 then ([], 0)
      else let dw = page_add n links_open ([], 0);
               dw = fold (\<lambda>i dw. case bookmarks_get bm (int i) of
                        None \<Rightarrow> dw
                      | Some b \<Rightarrow> (let (url_esc, label) = bm_escape b (BM_URL_MAX * 6) (BM_TITLE_MAX * 6)
                                   in page_add n (link_row url_esc label) dw)) [0..<bmc] dw
           in page_add n links_close dw)"

section \<open>The status page\<close>

definition name_of :: "string option \<Rightarrow> string" where
  "name_of b = (case b of Some n \<Rightarrow> n | None \<Rightarrow> [])"

definition refresh_meta :: string where
  \<open>refresh_meta = ''<meta http-equiv=\'refresh\' content=\'5\'>''\<close>

definition root_page :: "web_env \<Rightarrow> 'i web_sys \<Rightarrow> string" where
  "root_page e sys =
     (let s = ws_s sys; st = app_state s;
          (ssid, ip) = wifi_get_current s 33 16;
          esc = html_escape ssid 80;
          name = name_of (bt_name_get s (int BT_NAME_MAX));
          name_esc = html_escape name (BT_NAME_MAX * 6);
          up = uptime_seconds (we_now e) (we_boot e);
          busy = (st = APP_WIFI_SCANNING \<or> st = APP_WIFI_CONNECTING \<or> st = APP_BRIDGE_NO_WIFI);
          (px_on, px_host, px_port) = proxy_get (ws_px sys) PROXY_HOST_MAX;
          px_esc = html_escape px_host (PROXY_HOST_MAX * 6);
          px_line = (if px_on then snprint (PROXY_HOST_MAX * 6 + 8) (px_esc @ '':'' @ dec (unat px_port))
                     else strlcpy ''off'' (PROXY_HOST_MAX * 6 + 8));
          bmc = bookmarks_count (ws_bm sys);
          sz = 3072 + bm_escaped_total (ws_bm sys) + bmc * 64;
          (page, w) = page_add sz
            (root_head name_esc (if busy then refresh_meta else [])) ([], 0);
          (links, lw) = bm_render_links (ws_bm sys) (sz - nat w);
          (page, w) = (take (nat w) page @ links, w + lw);
          (page, w) = page_add sz
            (root_body (state_to_str st)
               (if ppp_link_up s then ''up'' else if get_bt_connected s then ''negotiating'' else ''down'')
               (if get_wifi_connected s then ''connected to'' else ''not connected'')
               (if get_wifi_connected s then esc else []) ip (wifi_get_rssi s) (bt_rssi_str s 8)
               (int (wifi_list_count s)) (int bmc) px_line up (int (we_free e div 1024))) (page, w)
      in page)"

definition handler_root :: "web_env \<Rightarrow> http_req \<Rightarrow> 'i web_sys \<Rightarrow> web_out" where
  "handler_root e rq sys = guarded e rq (\<lambda>r.
     let s = ws_s sys; st = app_state s in
     if wifi_list_count s = 0 \<and> (st = APP_WAIT_BT \<or> st = APP_NO_WIFI) then redirect_to e ''/wifi'' r
     else send_page e (root_page e sys) r)"

section \<open>The bookmark pages\<close>

definition bm_page :: "bool \<Rightarrow> ('s, 'b) bm_state \<Rightarrow> string" where
  "bm_page err bm =
     (let bmc = bookmarks_count bm;
          sz = 3072 + bm_escaped_total bm * 2 + bmc * 160;
          dw = page_add sz bm_head ([], 0);
          dw = (if err then page_add sz bm_err dw else dw);
          dw = (if bmc = 0 then page_add sz bm_none dw
                else let dw = page_add sz bm_open_div dw;
                         dw = fold (\<lambda>i dw. case bookmarks_get bm (int i) of
                                  None \<Rightarrow> dw
                                | Some b \<Rightarrow> (let (url_esc, label) = bm_escape b (BM_URL_MAX * 6) (BM_TITLE_MAX * 6)
                                             in page_add sz (bm_row (int i) url_esc label) dw)) [0..<bmc] dw
                     in page_add sz bm_close_div dw)
      in fst (page_add sz (bm_foot (int bmc) (if bmc < BM_MAX then bm_add_link else bm_full)) dw))"

definition handler_bm_get :: "web_env \<Rightarrow> http_req \<Rightarrow> 'i web_sys \<Rightarrow> web_out" where
  "handler_bm_get e rq sys = guarded e rq (send_page e (bm_page (query_val e rq ''err'' \<noteq> None) (ws_bm sys)))"

text \<open>What \<open>bookmarks_get\<close> leaves in a zeroed record: it fills in what it read even when it then fails
  because the address is empty.\<close>

definition bookmarks_out :: "('s, 'b) bm_state \<Rightarrow> int \<Rightarrow> bookmark" where
  "bookmarks_out bm index =
     (case (if bm_open bm \<and> 0 \<le> index \<and> index < int (bm_count bm) then raw_read (bm_dev bm) (nat index) BM_RAW_MAX else None) of
        None \<Rightarrow> \<lparr>bm_title = [], bm_url = []\<rparr>
      | Some raw \<Rightarrow> split_raw raw)"

definition handler_bm_edit :: "web_env \<Rightarrow> http_req \<Rightarrow> 'i web_sys \<Rightarrow> web_out" where
  "handler_bm_edit e rq sys = guarded e rq (\<lambda>r.
     let index = (case query_val e rq ''i'' of Some v \<Rightarrow> atoi v | None \<Rightarrow> -1);
         editing = (index \<ge> 0 \<and> bookmarks_get (ws_bm sys) index \<noteq> None);
         b = (if index \<ge> 0 then bookmarks_out (ws_bm sys) index else \<lparr>bm_title = [], bm_url = []\<rparr>);
         index = (if editing then index else -1)
     in if \<not> editing \<and> BM_MAX \<le> bookmarks_count (ws_bm sys) then redirect_to e ''/bm'' r
        else let url_esc = html_escape (bm_url b) (BM_URL_MAX * 6);
                 title_esc = html_escape (bm_title b) (BM_TITLE_MAX * 6);
                 sz = 2048 + BM_URL_MAX * 6 + BM_TITLE_MAX * 6
             in send_page e (snprint sz (bm_edit_page (if editing then ''Edit'' else ''Add'') index title_esc url_esc)) r)"

text \<open>Reading the body of a form: a failed read ends the handler, a read that never ends never returns.\<close>

definition with_body ::
  "http_req \<Rightarrow> nat \<Rightarrow> 'i web_sys \<Rightarrow> (string \<Rightarrow> web_out \<times> 'i web_sys) \<Rightarrow> (web_out \<times> 'i web_sys) option" where
  "with_body rq sz sys f =
     (case recv_body (rq_len rq) (rq_recv rq) sz of
        None \<Rightarrow> None
      | Some None \<Rightarrow> Some ((ESP_FAIL (-1), resp0), sys)
      | Some (Some b) \<Rightarrow> Some (f (cstr b)))"

definition handler_bm_save :: "web_env \<Rightarrow> http_req \<Rightarrow> 'i web_sys \<Rightarrow> (web_out \<times> 'i web_sys) option" where
  "handler_bm_save e rq sys = with_body rq 1024 sys (\<lambda>buf.
     let (ok, ru) = we_qkv e buf ''url'' 512 in
     if \<not> ok then (redirect_to e ''/bm'' resp0, sys)
     else let ri = snd (we_qkv e buf ''i'' 8);
              rt = snd (we_qkv e buf ''title'' 128);
              title = form_decode rt 128;
              url = form_decode ru 512;
              (saved, bm) = bookmarks_set (ws_bm sys) (if ri \<noteq> [] then atoi ri else -1) (Some title) (Some url);
              sys = sys\<lparr>ws_bm := bm\<rparr>
          in (redirect_to e (if \<not> saved then ''/bm?err=1'' else ''/bm'') resp0, sys))"

definition handler_bm_del :: "web_env \<Rightarrow> http_req \<Rightarrow> 'i web_sys \<Rightarrow> web_out \<times> 'i web_sys" where
  "handler_bm_del e rq sys =
     (redirect_to e ''/bm'' resp0,
      case query_val e rq ''i'' of
        None \<Rightarrow> sys
      | Some v \<Rightarrow> sys\<lparr>ws_bm := snd (bookmarks_remove (ws_bm sys) (atoi v))\<rparr>)"

section \<open>The WiFi pages\<close>

definition wifi_page :: "'i ppp_st \<Rightarrow> string" where
  "wifi_page s =
     (let cnt = wifi_list_count s;
          dw = page_add 4096 wifi_head ([], 0);
          dw = (if app_state s = APP_WIFI_FAILED then page_add 4096 wifi_failed dw else dw);
          dw = (if cnt = 0 then page_add 4096 wifi_none dw
                else let dw = page_add 4096 wifi_open_div dw;
                         dw = fold (\<lambda>i dw. case wifi_list_get_ssid s (int i) 33 of
                                  None \<Rightarrow> dw
                                | Some ssid \<Rightarrow> page_add 4096 (wifi_row (int i) (html_escape ssid 80)) dw) [0..<cnt] dw
                     in page_add 4096 wifi_close_div dw)
      in fst (page_add 4096 (wifi_foot (int cnt)) dw))"

definition handler_wifi_get :: "web_env \<Rightarrow> http_req \<Rightarrow> 'i web_sys \<Rightarrow> web_out" where
  "handler_wifi_get e rq sys = guarded e rq (send_page e (wifi_page (ws_s sys)))"

definition handler_wifi_add :: "web_env \<Rightarrow> http_req \<Rightarrow> 'i web_sys \<Rightarrow> (web_out \<times> 'i web_sys) option" where
  "handler_wifi_add e rq sys = with_body rq 256 sys (\<lambda>buf.
     let (ok, ns) = we_qkv e buf ''ssid'' 64;
         s = ws_s sys;
         s = (if ok then
                let np = snd (we_qkv e buf ''pass'' 80);
                    ssid = form_decode ns 64;
                    pass = form_decode np 80;
                    (added, s) = wifi_list_add s (Some ssid) (Some pass)
                in if added \<and> \<not> get_wifi_connected s \<and> wifi_list_count s > 0 \<and> ppp_link_up s
                   then gw_wifi_kick_deferred (we_task e) s else s
              else s)
     in (redirect_to e ''/wifi'' resp0, sys\<lparr>ws_s := s\<rparr>))"

definition handler_wifi_del :: "web_env \<Rightarrow> http_req \<Rightarrow> 'i web_sys \<Rightarrow> web_out \<times> 'i web_sys" where
  "handler_wifi_del e rq sys =
     (redirect_to e ''/wifi'' resp0,
      case query_val e rq ''i'' of
        None \<Rightarrow> sys
      | Some v \<Rightarrow> sys\<lparr>ws_s := snd (wifi_list_remove (ws_s sys) (atoi v))\<rparr>)"

section \<open>The device name\<close>

definition handler_name_get :: "web_env \<Rightarrow> http_req \<Rightarrow> 'i web_sys \<Rightarrow> web_out" where
  "handler_name_get e rq sys = guarded e rq (\<lambda>r.
     let s = ws_s sys;
         cur = name_of (bt_name_get s (int BT_NAME_MAX));
         custom = name_of (bt_name_get_custom s (int BT_NAME_MAX));
         derived = name_of (bt_name_get_derived s (int BT_NAME_MAX));
         cur_esc = html_escape cur (BT_NAME_MAX * 6);
         custom_esc = html_escape custom (BT_NAME_MAX * 6);
         derived_esc = html_escape derived (BT_NAME_MAX * 6)
     in send_page e (snprint 2560 (name_page cur_esc
          (if derived \<noteq> [] then derived_esc else ''(waiting for Bluetooth)'') custom_esc)) r)"

definition handler_name_post :: "web_env \<Rightarrow> http_req \<Rightarrow> 'i web_sys \<Rightarrow> (web_out \<times> 'i web_sys) option" where
  "handler_name_post e rq sys = with_body rq 192 sys (\<lambda>buf.
     let (ok, raw) = we_qkv e buf ''name'' 128
     in (redirect_to e ''/name'' resp0,
         if ok then sys\<lparr>ws_s := bt_name_set (Some (form_decode raw 128)) (ws_s sys)\<rparr> else sys))"

section \<open>Debug logging\<close>

definition checked :: "bool \<Rightarrow> string" where
  "checked b = (if b then '' checked'' else [])"

definition handler_debug_get :: "web_env \<Rightarrow> http_req \<Rightarrow> 'i web_sys \<Rightarrow> web_out" where
  "handler_debug_get e rq sys = guarded e rq (
     let f = debug_log_get (ws_s sys)
     in send_page e (snprint 2560 (debug_page (checked (f AND DBG_HCI_PACKETS \<noteq> 0))
          (checked (f AND DBG_BTSTACK_LOG \<noteq> 0)) (checked (f AND DBG_VERBOSE \<noteq> 0)))))"

definition handler_debug_post :: "web_env \<Rightarrow> http_req \<Rightarrow> 'i web_sys \<Rightarrow> (web_out \<times> 'i web_sys) option" where
  "handler_debug_post e rq sys = with_body rq 128 sys (\<lambda>buf.
     let f = 0;
         f = (if fst (we_qkv e buf ''hci'' 4) then f OR DBG_HCI_PACKETS else f);
         f = (if fst (we_qkv e buf ''stk'' 4) then f OR DBG_BTSTACK_LOG else f);
         f = (if fst (we_qkv e buf ''vrb'' 4) then f OR DBG_VERBOSE else f)
     in (redirect_to e ''/debug'' resp0, sys\<lparr>ws_s := debug_log_set f (ws_s sys)\<rparr>))"

section \<open>Bluetooth security\<close>

definition security_text :: "'i ppp_st \<Rightarrow> string" where
  "security_text s =
     (let mode = ppp_link_secure_get s;
          now = (if mode = BTSEC_ON then ''required'' else if mode = BTSEC_OFF then ''off'' else ''auto (by phone name)'');
          last_esc = (if mode = BTSEC_AUTO then
              (case ppp_link_last_phone s BT_NAME_MAX of
                 None \<Rightarrow> []
               | Some (name, secured) \<Rightarrow>
                   (let name_esc = html_escape (if name \<noteq> [] then name else ''(no name)'') (BT_NAME_MAX * 6)
                    in snprint (BT_NAME_MAX * 6 + 64)
                         (security_last name_esc (if secured then ''secured'' else ''known model, not secured''))))
            else [])
      in snprint 3072 (security_page now last_esc (checked (mode = BTSEC_AUTO)) (checked (mode = BTSEC_ON))
           (checked (mode = BTSEC_OFF))))"

definition handler_security_get :: "web_env \<Rightarrow> http_req \<Rightarrow> 'i web_sys \<Rightarrow> web_out" where
  "handler_security_get e rq sys = guarded e rq (send_page e (security_text (ws_s sys)))"

definition handler_security_post :: "web_env \<Rightarrow> http_req \<Rightarrow> 'i web_sys \<Rightarrow> (web_out \<times> 'i web_sys) option" where
  "handler_security_post e rq sys = with_body rq 64 sys (\<lambda>buf.
     let (ok, v) = we_qkv e buf ''sec'' 8; back = (redirect_to e ''/security'' resp0, sys) in
     if \<not> ok then back
     else case (if v = ''on'' then Some BTSEC_ON else if v = ''off'' then Some BTSEC_OFF
                else if v = ''auto'' then Some BTSEC_AUTO else None) of
         None \<Rightarrow> back
       | Some mode \<Rightarrow>
           (if mode = ppp_link_secure_get (ws_s sys) then back
            else let s = ppp_link_secure_save mode (ws_s sys)
                 in ((ESP_OK, snd (sendstr e saved_page resp0)),
                     sys\<lparr>ws_s := gw_safe_task_create (we_task e) RebootTask s\<rparr>)))"

section \<open>The proxy page\<close>

definition proxy_preset_match :: "string \<Rightarrow> u16 \<Rightarrow> int" where
  "proxy_preset_match host port =
     (case find (\<lambda>i. case proxy_preset_get i of Some p \<Rightarrow> pp_port p = port \<and> pp_host p = host | None \<Rightarrow> False)
             [0..proxy_preset_count - 1] of
        Some i \<Rightarrow> i | None \<Rightarrow> -1)"

definition proxy_page :: "web_env \<Rightarrow> px_cfg \<Rightarrow> string" where
  "proxy_page e px =
     (let (on, host, port) = proxy_get px PROXY_HOST_MAX;
          match = (if host \<noteq> [] then proxy_preset_match host port else -1);
          host_esc = html_escape host (PROXY_HOST_MAX * 6);
          port_str = (if port \<noteq> 0 then snprint 8 (dec (unat port)) else []);
          now = snprint (PROXY_HOST_MAX * 6 + 64) (if on then proxy_now host_esc port (we_active e) else ''off'');
          sz = 4608;
          dw = page_add sz (proxy_head now (if on then [] else '' checked'')) ([], 0);
          dw = fold (\<lambda>i dw. case proxy_preset_get i of
                   None \<Rightarrow> dw
                 | Some p \<Rightarrow> page_add sz (proxy_row i (checked (on \<and> match = i)) p) dw) [0..proxy_preset_count - 1] dw
      in fst (page_add sz (proxy_foot (checked (on \<and> match < 0)) (if match < 0 then host_esc else [])
           (if match < 0 then port_str else [])) dw))"

definition handler_proxy_get :: "web_env \<Rightarrow> http_req \<Rightarrow> 'i web_sys \<Rightarrow> web_out" where
  "handler_proxy_get e rq sys = guarded e rq (send_page e (proxy_page e (ws_px sys)))"

text \<open>Saving: the settings in RAM and in flash.\<close>

definition save_proxy :: "bool \<Rightarrow> string \<Rightarrow> u16 \<Rightarrow> 'i web_sys \<Rightarrow> 'i web_sys" where
  "save_proxy on host port sys =
     (let (px, d) = proxy_set on host port (wifi_dev (ws_s sys))
      in sys\<lparr>ws_px := px, ws_s := (ws_s sys)\<lparr>wifi_dev := d\<rparr>\<rparr>)"

definition handler_proxy_post :: "web_env \<Rightarrow> http_req \<Rightarrow> 'i web_sys \<Rightarrow> (web_out \<times> 'i web_sys) option" where
  "handler_proxy_post e rq sys = with_body rq 256 sys (\<lambda>buf.
     let (ok, v) = we_qkv e buf ''px'' 8 in
     (redirect_to e ''/proxy'' resp0,
      if \<not> ok then sys
      else let (on, host, port) = proxy_get (ws_px sys) PROXY_HOST_MAX in
        if v = ''off'' then save_proxy False host port sys
        else if v = ''custom'' then
          (let raw = snd (we_qkv e buf ''host'' (PROXY_HOST_MAX * 3));
               rp = snd (we_qkv e buf ''port'' 8);
               nh = form_decode raw PROXY_HOST_MAX;
               h = trim_end (dropWhile (\<lambda>c. c = CHR '' '') nh);
               np = strtol 10 rp
           in if h \<noteq> [] \<and> strchr h CHR '' '' = None \<and> 0 < np \<and> np \<le> 65535
              then save_proxy True h (word_of_int np) sys else sys)
        else (case proxy_preset_get (atoi v) of
                None \<Rightarrow> sys
              | Some p \<Rightarrow> save_proxy True (pp_host p) (pp_port p) sys)))"

section \<open>The others\<close>

definition handler_reset :: "web_env \<Rightarrow> 'i web_sys \<Rightarrow> web_out \<times> 'i web_sys" where
  "handler_reset e sys = (redirect_to e ''/wifi'' resp0, sys\<lparr>ws_s := wifi_list_clear (ws_s sys)\<rparr>)"

definition reboot_task :: "('s, 'z) ppp_st_scheme \<Rightarrow> ('s, 'z) ppp_st_scheme" where
  "reboot_task s = emit Restart s"

definition handler_reboot :: "web_env \<Rightarrow> 'i web_sys \<Rightarrow> web_out \<times> 'i web_sys" where
  "handler_reboot e sys =
     ((ESP_OK, snd (sendstr e rebooting_page resp0)),
      sys\<lparr>ws_s := gw_safe_task_create (we_task e) RebootTask (ws_s sys)\<rparr>)"

definition handler_favicon :: "web_env \<Rightarrow> web_out" where
  "handler_favicon e = sendstr e [] (resp0\<lparr>rs_status := ''204 No Content''\<rparr>)"

definition handler_404 :: "web_env \<Rightarrow> web_out" where
  "handler_404 e = redirect_to e gw_url resp0"

section \<open>Routes\<close>

datatype web_method = HTTP_GET | HTTP_POST

datatype web_page =
    PgRoot | PgWifi | PgWifiAdd | PgWifiDel | PgBm | PgBmEdit | PgBmSave | PgBmDel | PgName | PgNamePost
  | PgDebug | PgDebugPost | PgSecurity | PgSecurityPost | PgProxy | PgProxyPost | PgReset | PgReboot | PgFavicon

definition uris :: "(string \<times> web_method \<times> web_page) list" where
  "uris = [
     (''/'', HTTP_GET, PgRoot),
     (''/wifi'', HTTP_GET, PgWifi),
     (''/wifi/add'', HTTP_POST, PgWifiAdd),
     (''/wifi/del'', HTTP_GET, PgWifiDel),
     (''/bm'', HTTP_GET, PgBm),
     (''/bm/edit'', HTTP_GET, PgBmEdit),
     (''/bm/save'', HTTP_POST, PgBmSave),
     (''/bm/del'', HTTP_GET, PgBmDel),
     (''/name'', HTTP_GET, PgName),
     (''/name'', HTTP_POST, PgNamePost),
     (''/debug'', HTTP_GET, PgDebug),
     (''/debug'', HTTP_POST, PgDebugPost),
     (''/security'', HTTP_GET, PgSecurity),
     (''/security'', HTTP_POST, PgSecurityPost),
     (''/proxy'', HTTP_GET, PgProxy),
     (''/proxy'', HTTP_POST, PgProxyPost),
     (''/reset'', HTTP_GET, PgReset),
     (''/reboot'', HTTP_GET, PgReboot),
     (''/favicon.ico'', HTTP_GET, PgFavicon)]"

definition n_uris :: nat where "n_uris = length uris"

text \<open>The handlers registered at the start; the server has as many slots as it is given.\<close>

definition web_ui_start :: "bool \<Rightarrow> (string \<times> web_method \<times> web_page) list" where
  "web_ui_start started = (if started then take n_uris uris else [])"

text \<open>A handler as the server calls it.\<close>

definition web_handle :: "web_page \<Rightarrow> web_env \<Rightarrow> http_req \<Rightarrow> 'i web_sys \<Rightarrow> (web_out \<times> 'i web_sys) option" where
  "web_handle pg e rq sys =
     (case pg of
        PgRoot \<Rightarrow> Some (handler_root e rq sys, sys)
      | PgWifi \<Rightarrow> Some (handler_wifi_get e rq sys, sys)
      | PgWifiAdd \<Rightarrow> handler_wifi_add e rq sys
      | PgWifiDel \<Rightarrow> Some (handler_wifi_del e rq sys)
      | PgBm \<Rightarrow> Some (handler_bm_get e rq sys, sys)
      | PgBmEdit \<Rightarrow> Some (handler_bm_edit e rq sys, sys)
      | PgBmSave \<Rightarrow> handler_bm_save e rq sys
      | PgBmDel \<Rightarrow> Some (handler_bm_del e rq sys)
      | PgName \<Rightarrow> Some (handler_name_get e rq sys, sys)
      | PgNamePost \<Rightarrow> handler_name_post e rq sys
      | PgDebug \<Rightarrow> Some (handler_debug_get e rq sys, sys)
      | PgDebugPost \<Rightarrow> handler_debug_post e rq sys
      | PgSecurity \<Rightarrow> Some (handler_security_get e rq sys, sys)
      | PgSecurityPost \<Rightarrow> handler_security_post e rq sys
      | PgProxy \<Rightarrow> Some (handler_proxy_get e rq sys, sys)
      | PgProxyPost \<Rightarrow> handler_proxy_post e rq sys
      | PgReset \<Rightarrow> Some (handler_reset e sys)
      | PgReboot \<Rightarrow> Some (handler_reboot e sys)
      | PgFavicon \<Rightarrow> Some (handler_favicon e, sys))"

text \<open>A request: the first registered entry for its path and method; a path nobody registered goes to the
  error handler.  What the server answers itself when only the method is wrong is \<open>own\<close>.\<close>

definition web_request ::
  "web_out \<Rightarrow> web_env \<Rightarrow> web_method \<Rightarrow> string \<Rightarrow> http_req \<Rightarrow> 'i web_sys \<Rightarrow> (web_out \<times> 'i web_sys) option" where
  "web_request own e m path rq sys =
     (case find (\<lambda>u. fst u = path \<and> fst (snd u) = m) (web_ui_start True) of
        Some u \<Rightarrow> web_handle (snd (snd u)) e rq sys
      | None \<Rightarrow> Some (if \<exists>u\<in>set (web_ui_start True). fst u = path then own else handler_404 e, sys))"

end
