(* ===== verification/WebForms.thy ===== *)
theory WebForms
  imports WebUi
begin

text \<open>
  The forms of \<open>main/web_ui.c\<close>, from what a browser submits to what the modules are asked to store.
  \<open>httpd_query_key_value\<close> is part of ESP-IDF: \<open>qkv_ok\<close> is what its documentation promises.
\<close>

section \<open>Submitted forms\<close>

type_synonym form = "(string \<times> string) list"

definition form_field :: "string \<times> string \<Rightarrow> string" where
  "form_field f = fst f @ ''='' @ snd f"

fun form_body :: "form \<Rightarrow> string" where
  "form_body [] = []"
| "form_body [f] = form_field f"
| "form_body (f # fs) = form_field f @ ''&'' @ form_body fs"

definition form_ok :: "form \<Rightarrow> bool" where
  "form_ok fs \<longleftrightarrow> distinct (map fst fs) \<and>
     (\<forall>f\<in>set fs. \<forall>c\<in>set (fst f @ snd f). c \<noteq> CHR ''&'' \<and> c \<noteq> CHR ''='')"

text \<open>The value of a key is copied into the buffer, cut to its size; the call fails when the key is not
  there or the value was cut.\<close>

definition qkv_ok :: "(string \<Rightarrow> string \<Rightarrow> nat \<Rightarrow> bool \<times> string) \<Rightarrow> bool" where
  "qkv_ok q \<longleftrightarrow> (\<forall>fs key n. form_ok fs \<longrightarrow> 0 < n \<longrightarrow>
     q (form_body fs) key n =
       (case map_of fs key of None \<Rightarrow> (False, []) | Some v \<Rightarrow> (length v < n, take (n - 1) v)))"

text \<open>A function that keeps it.\<close>

fun split_amp :: "string \<Rightarrow> string list" where
  "split_amp [] = [[]]"
| "split_amp (c # s) = (if c = CHR ''&'' then [] # split_amp s
     else (c # hd (split_amp s)) # tl (split_amp s))"

definition qkv_spec :: "string \<Rightarrow> string \<Rightarrow> nat \<Rightarrow> bool \<times> string" where
  "qkv_spec q key n =
     (case find (\<lambda>f. CHR ''='' \<in> set f \<and> takeWhile (\<lambda>c. c \<noteq> CHR ''='') f = key) (split_amp q) of
        None \<Rightarrow> (False, [])
      | Some f \<Rightarrow> let v = drop (length key + 1) f in (length v < n, take (n - 1) v))"

lemma split_amp_app: "CHR ''&'' \<notin> set s \<Longrightarrow> split_amp (s @ t) = (s @ hd (split_amp t)) # tl (split_amp t)"
proof (induction s)
  case Nil
  have "split_amp t \<noteq> []" by (cases t) auto
  then show ?case by simp
next
  case (Cons c s)
  then show ?case by (cases "c = CHR ''&''") simp_all
qed

lemma split_amp_body: "form_ok fs \<Longrightarrow> fs \<noteq> [] \<Longrightarrow> split_amp (form_body fs) = map form_field fs"
proof (induction fs rule: form_body.induct)
  case (2 f)
  then have "CHR ''&'' \<notin> set (form_field f)" by (auto simp: form_ok_def form_field_def)
  then show ?case using split_amp_app [of "form_field f" "[]"] by simp
next
  case (3 f g fs)
  then have "CHR ''&'' \<notin> set (form_field f)" "form_ok (g # fs)" by (auto simp: form_ok_def form_field_def)
  then show ?case using 3 split_amp_app [of "form_field f"] by simp
qed simp

lemma find_field:
  assumes "form_ok fs"
  shows "find (\<lambda>f. CHR ''='' \<in> set f \<and> takeWhile (\<lambda>c. c \<noteq> CHR ''='') f = key) (map form_field fs) =
    map_option (\<lambda>v. form_field (key, v)) (map_of fs key)"
  using assms
proof (induction fs)
  case (Cons f fs)
  obtain k v where f: "f = (k, v)" by (cases f)
  have "\<forall>c\<in>set k. c \<noteq> CHR ''=''" using Cons.prems by (simp add: form_ok_def f)
  then have "takeWhile (\<lambda>c. c \<noteq> CHR ''='') (form_field f) = k"
    by (simp add: f form_field_def takeWhile_append2)
  moreover have "CHR ''='' \<in> set (form_field f)" by (simp add: form_field_def)
  moreover have "form_ok fs" using Cons.prems by (auto simp: form_ok_def)
  ultimately show ?case using Cons.IH by (simp add: f)
qed simp

lemma qkv_spec_ok: "qkv_ok qkv_spec"
  unfolding qkv_ok_def
proof (intro allI impI)
  fix fs :: form and key and n :: nat
  assume f: "form_ok fs" and "0 < n"
  show "qkv_spec (form_body fs) key n =
      (case map_of fs key of None \<Rightarrow> (False, []) | Some v \<Rightarrow> (length v < n, take (n - 1) v))"
  proof (cases "fs = []")
    case False
    then show ?thesis
      using find_field [OF f] split_amp_body [OF f]
      by (simp add: qkv_spec_def form_field_def split: option.split)
  qed (simp add: qkv_spec_def)
qed

section \<open>What arrives\<close>

text \<open>The request carries the form, in any pieces and with any timeouts in between.\<close>

definition carries :: "http_req \<Rightarrow> form \<Rightarrow> bool" where
  "carries rq fs \<longleftrightarrow> form_ok fs \<and> rq_len rq = length (form_body fs) \<and> recv_bytes (rq_recv rq) = form_body fs \<and>
     (\<forall>ev\<in>set (rq_recv rq). ev \<noteq> RecvError \<and> ev \<noteq> RecvData []) \<and> CHR 0x00 \<notin> set (form_body fs)"

lemma carries_body:
  assumes c: "carries rq fs" and l: "length (form_body fs) < n"
  shows "with_body rq n sys f = Some (f (form_body fs))"
proof -
  have "recv_loop (rq_recv rq) (length (form_body fs)) [] = Some (Some (form_body fs))"
    using recv_loop_all [of "rq_recv rq" "length (form_body fs)" "[]"] c by (simp add: carries_def)
  moreover have "\<not> length (form_body fs) > n - 1" using l by simp
  moreover have "cstr (form_body fs) = form_body fs" using c cstr_id by (simp add: carries_def)
  ultimately show ?thesis using c by (simp add: with_body_def recv_body_def carries_def)
qed

lemma carries_value:
  assumes "carries rq fs" and "qkv_ok q" and "0 < n"
  shows "q (form_body fs) key n = (case map_of fs key of None \<Rightarrow> (False, []) | Some v \<Rightarrow> (length v < n, take (n - 1) v))"
  using assms by (simp add: qkv_ok_def carries_def)

text \<open>The number in a hidden field.\<close>

lemma atoi_dec_int:
  assumes "-1 \<le> k" and "k < 2 ^ 31"
  shows "atoi (dec_int k) = k"
proof (cases "k = -1")
  case True
  have "dec_int (-1) = ''-1''" by code_simp
  moreover have "atoi ''-1'' = -1" by code_simp
  ultimately show ?thesis using True by simp
next
  case False
  then have k: "0 \<le> k" using assms by simp
  define s where "s = dec (nat k)"
  have d: "48 \<le> ccode c" "ccode c \<le> 57" if "c \<in> set s" for c using that dec_ascii by (auto simp: s_def)
  have dv: "digit_val c = ccode c - 48" "digit_val c < 10" if "c \<in> set s" for c
    using d [OF that] by (simp_all add: digit_val_def less_diff_conv2)
  have "foldl (\<lambda>a c. 10 * a + digit_val c) a s = foldl (\<lambda>a c. 10 * a + (ccode c - 48)) a s" for a
    by (rule foldl_cong) (simp_all add: dv)
  then have v: "foldl (\<lambda>a c. 10 * a + digit_val c) 0 s = nat k"
    using undigits_dec [of "nat k"] by (simp add: undigits_def s_def)
  have t: "takeWhile (\<lambda>c. digit_val c < 10) s = s"
    by (rule takeWhile_eq_all_conv [THEN iffD2]) (use dv(2) in blast)
  obtain c r where s: "s = c # r" using dec_not_Nil [of "nat k"] by (cases s) (auto simp: s_def)
  have "\<not> isspace c" "c \<noteq> CHR ''-''" "c \<noteq> CHR ''+''" using d [of c] by (auto simp: s isspace_def)
  then have "strtol 10 s = max (- (2 ^ 31)) (min (2 ^ 31 - 1) (int (nat k)))"
    using v t by (simp add: strtol_def s Let_def)
  then show ?thesis using assms k by (simp add: atoi_def dec_int_def s_def)
qed

section \<open>The values that reach the modules\<close>

text \<open>A field that arrives whole.\<close>

lemma field_whole:
  assumes "carries rq fs" and "qkv_ok q" and "map_of fs key = Some v" and "length v < n"
  shows "q (form_body fs) key n = (True, v)"
  using carries_value [OF assms(1,2), of n key] assms(3,4) by simp

definition clean :: "string \<Rightarrow> bool" where
  "clean s \<longleftrightarrow> CHR 0x00 \<notin> set s"

lemma field_decoded: "clean v \<Longrightarrow> length (form_encode v) < n \<Longrightarrow> form_decode (form_encode v) n = v"
  using form_decode_enc [of v n] length_form_encode(1) [of v] by (simp add: clean_def)

text \<open>A browser sends this value in this field, short enough for a buffer.\<close>

definition sends :: "form \<Rightarrow> string \<Rightarrow> string \<Rightarrow> nat \<Rightarrow> bool" where
  "sends fs key v n \<longleftrightarrow> map_of fs key = Some (form_encode v) \<and> clean v \<and> length (form_encode v) < n"

lemma bm_save_stores:
  assumes c: "carries rq fs" and q: "qkv_ok (we_qkv e)" and l: "length (form_body fs) < 1024"
    and i: "map_of fs ''i'' = Some (dec_int k)" "-1 \<le> k" "k < 1000000"
    and t: "map_of fs ''title'' = Some (form_encode t)" "clean t" "length (form_encode t) < 128"
    and u: "map_of fs ''url'' = Some (form_encode u)" "clean u" "length (form_encode u) < 512"
  shows "handler_bm_save e rq sys =
    Some (redirect_to e (if fst (bookmarks_set (ws_bm sys) k (Some t) (Some u)) then ''/bm'' else ''/bm?err=1'') resp0,
      sys\<lparr>ws_bm := snd (bookmarks_set (ws_bm sys) k (Some t) (Some u))\<rparr>)"
proof -
  have n: "dec_int k \<noteq> []" by (simp add: dec_int_def)
  have "length (dec_int k) < 8"
  proof (cases "k = -1")
    case True
    have "length (dec_int (-1)) = 2" by code_simp
    then show ?thesis using True by simp
  next
    case False
    then have "nat k < 10 ^ 6" "\<not> k < 0" using i(2,3) by auto
    then show ?thesis using length_dec [of "nat k" 6] by (simp add: dec_int_def)
  qed
  then have v: "we_qkv e (form_body fs) ''i'' 8 = (True, dec_int k)" by (rule field_whole [OF c q i(1)])
  have a: "atoi (dec_int k) = k" using i by (intro atoi_dec_int) auto
  show ?thesis
    unfolding handler_bm_save_def carries_body [OF c l]
    using n by (simp add: v field_whole [OF c q t(1) t(3)] field_whole [OF c q u(1) u(3)] a
        field_decoded [OF t(2,3)] field_decoded [OF u(2,3)] split: prod.split)
qed

lemma name_post_stores:
  assumes c: "carries rq fs" and q: "qkv_ok (we_qkv e)" and l: "length (form_body fs) < 192"
    and v: "map_of fs ''name'' = Some (form_encode v)" "clean v" "length (form_encode v) < 128"
  shows "handler_name_post e rq sys =
    Some (redirect_to e ''/name'' resp0, sys\<lparr>ws_s := bt_name_set (Some v) (ws_s sys)\<rparr>)"
  unfolding handler_name_post_def carries_body [OF c l]
  by (simp add: field_whole [OF c q v(1) v(3)] field_decoded [OF v(2,3)])

lemma wifi_add_stores:
  assumes c: "carries rq fs" and q: "qkv_ok (we_qkv e)" and l: "length (form_body fs) < 256"
    and n: "map_of fs ''ssid'' = Some (form_encode n)" "clean n" "length (form_encode n) < 64"
    and p: "map_of fs ''pass'' = Some (form_encode p)" "clean p" "length (form_encode p) < 80"
  shows "handler_wifi_add e rq sys = Some (redirect_to e ''/wifi'' resp0, sys\<lparr>ws_s :=
     (let (added, s) = wifi_list_add (ws_s sys) (Some n) (Some p)
      in if added \<and> \<not> get_wifi_connected s \<and> wifi_list_count s > 0 \<and> ppp_link_up s
         then gw_wifi_kick_deferred (we_task e) s else s)\<rparr>)"
  unfolding handler_wifi_add_def carries_body [OF c l]
  by (simp add: field_whole [OF c q n(1) n(3)] field_whole [OF c q p(1) p(3)]
      field_decoded [OF n(2,3)] field_decoded [OF p(2,3)] Let_def split: prod.split)

text \<open>Values that do not fit: a name that is too long in its encoded form is dropped, a password is stored
  cut, and both times the answer is the same as for a saved network.\<close>

lemma wifi_add_drops:
  assumes c: "carries rq fs" and q: "qkv_ok (we_qkv e)" and l: "length (form_body fs) < 256"
    and n: "map_of fs ''ssid'' = Some v" "64 \<le> length v"
  shows "handler_wifi_add e rq sys = Some (redirect_to e ''/wifi'' resp0, sys)"
  unfolding handler_wifi_add_def carries_body [OF c l]
  using carries_value [OF c q, of 64 "''ssid''"] n by simp

lemma wifi_add_cuts:
  assumes c: "carries rq fs" and q: "qkv_ok (we_qkv e)" and l: "length (form_body fs) < 256"
    and n: "map_of fs ''ssid'' = Some (form_encode n)" "clean n" "length (form_encode n) < 64"
    and p: "map_of fs ''pass'' = Some v" "80 \<le> length v"
    and f: "get_wifi_connected (snd (wifi_list_add (ws_s sys) (Some n) (Some (form_decode (take 79 v) 80))))"
  shows "handler_wifi_add e rq sys = Some (redirect_to e ''/wifi'' resp0,
    sys\<lparr>ws_s := snd (wifi_list_add (ws_s sys) (Some n) (Some (form_decode (take 79 v) 80)))\<rparr>)"
  unfolding handler_wifi_add_def carries_body [OF c l]
  using carries_value [OF c q, of 80 "''pass''"] p f
  by (auto simp: field_whole [OF c q n(1) n(3)] field_decoded [OF n(2,3)] Let_def split: prod.split)

section \<open>Reads that fail, fields that are missing\<close>

text \<open>The connection breaks before the body is complete.\<close>

definition broken :: "http_req \<Rightarrow> nat \<Rightarrow> bool" where
  "broken rq n \<longleftrightarrow> (\<exists>pre ev post. rq_recv rq = pre @ ev # post \<and> (ev = RecvError \<or> ev = RecvData []) \<and>
     length (recv_bytes pre) < min (rq_len rq) (n - 1))"

lemma recv_loop_broken:
  assumes "ev = RecvError \<or> ev = RecvData []" and "length (recv_bytes pre) < k"
  shows "recv_loop (pre @ ev # post) k buf = Some None"
  using assms(2)
proof (induction pre arbitrary: k buf)
  case Nil
  then show ?case using assms(1) by (cases k) (auto simp: recv_bytes_def)
next
  case (Cons x pre)
  then obtain j where k: "k = Suc j" by (cases k) auto
  show ?case
  proof (cases x)
    case (RecvData d)
    then have "length (recv_bytes pre) < Suc j - length d" "length d < Suc j"
      using Cons.prems by (auto simp: recv_bytes_def k)
    then show ?thesis using Cons.IH RecvData by (simp add: k Let_def)
  qed (use Cons in \<open>simp_all add: k recv_bytes_def\<close>)
qed

lemma broken_body: "broken rq n \<Longrightarrow> with_body rq n sys f = Some ((ESP_FAIL (-1), resp0), sys)"
proof -
  assume "broken rq n"
  then obtain pre ev post where r: "rq_recv rq = pre @ ev # post" "ev = RecvError \<or> ev = RecvData []"
    and l: "length (recv_bytes pre) < min (rq_len rq) (n - 1)" unfolding broken_def by blast
  have "length (recv_bytes pre) < (if rq_len rq > n - 1 then n - 1 else rq_len rq)" using l by simp
  from recv_loop_broken [OF r(2) this, of post "[]"] show ?thesis
    by (simp add: with_body_def recv_body_def r(1) Let_def)
qed

text \<open>The buffer of a form, the field without which it does nothing, and where it leads back to.\<close>

definition post_of :: "web_page \<Rightarrow> (nat \<times> string option \<times> string) option" where
  "post_of pg = (case pg of
       PgBmSave \<Rightarrow> Some (1024, Some ''url'', ''/bm'')
     | PgWifiAdd \<Rightarrow> Some (256, Some ''ssid'', ''/wifi'')
     | PgNamePost \<Rightarrow> Some (192, Some ''name'', ''/name'')
     | PgDebugPost \<Rightarrow> Some (128, None, ''/debug'')
     | PgSecurityPost \<Rightarrow> Some (64, Some ''sec'', ''/security'')
     | PgProxyPost \<Rightarrow> Some (256, Some ''px'', ''/proxy'')
     | _ \<Rightarrow> None)"

lemma post_broken:
  assumes "post_of pg = Some (n, x)" and "broken rq n"
  shows "web_handle pg e rq sys = Some ((ESP_FAIL (-1), resp0), sys)"
  using assms by (cases pg) (auto simp: post_of_def web_handle_def handler_bm_save_def handler_wifi_add_def handler_name_post_def
      handler_debug_post_def handler_security_post_def handler_proxy_post_def broken_body)

lemma post_missing:
  assumes p: "post_of pg = Some (n, Some key, back)" and c: "carries rq fs" and q: "qkv_ok (we_qkv e)"
    and l: "length (form_body fs) < n" and k: "map_of fs key = None"
  shows "web_handle pg e rq sys = Some (redirect_to e back resp0, sys)"
proof -
  have m: "we_qkv e (form_body fs) x m = (False, [])" if "0 < m" "map_of fs x = None" for x m
    using carries_value [OF c q that(1), of x] that(2) by simp
  show ?thesis
    using p l k by (cases pg) (auto simp: carries_body [OF c] m post_of_def web_handle_def handler_bm_save_def
        handler_wifi_add_def handler_name_post_def handler_security_post_def handler_proxy_post_def)
qed

section \<open>An example\<close>

text \<open>A bridge that has just booted, with an empty store.\<close>

definition demo_env :: web_env where
  "demo_env = \<lparr>we_qkv = qkv_spec, we_pton = (\<lambda>h. False), we_malloc = True, we_send = ESP_OK, we_task = True,
     we_active = 0, we_free = 100000, we_now = 5000000, we_boot = 0\<rparr>"

definition demo_req :: http_req where
  "demo_req = \<lparr>rq_host = (\<lambda>n. None), rq_query = (\<lambda>n. None), rq_len = 0, rq_recv = []\<rparr>"

definition demo_sys :: "(string \<rightharpoonup> wifi_list_t nvs_val) web_sys" where
  "demo_sys = \<lparr>ws_s = ppp_boot map_dev, ws_bm = bm_fresh map_dev, ws_px = cfg_apply False [] 0\<rparr>"

lemma demo_sys_sel [simp]:
  "ws_bm demo_sys = bm_fresh map_dev" "ws_s demo_sys = ppp_boot map_dev" "we_free demo_env = 100000"
  "we_malloc demo_env" "we_send demo_env = ESP_OK" "we_qkv demo_env = qkv_spec" "we_task demo_env"
  "\<not> we_pton demo_env h" "rq_query demo_req n = None" "rq_host demo_req n = None"
  by (simp_all add: demo_sys_def demo_env_def demo_req_def)

lemma demo_boot:
  fixes d :: "('i, wifi_list_t) nvs_dev"
  shows "wifi_list_count (ppp_boot d) = 0" "wifi_get_rssi (ppp_boot d) = -100"
  by (simp_all add: ppp_boot_defs wifi_list_count_def wifi_get_rssi_def wl_zero_def)

end
