(* ===== verification/WebFit.thy ===== *)
theory WebFit
  imports WebForms
begin

text \<open>
  The page buffers of \<open>main/web_ui.c\<close>: every page the handlers send is the concatenation of its pieces,
  clipped to its buffer, and the buffers are large enough.
\<close>

section \<open>Pages as clipped texts\<close>

text \<open>A page built in a part of the buffer that starts behind what is already there.\<close>

lemma page_sub:
  assumes "0 < n" and "page_at n s = (p, w)" and "page_at (n - nat w) t = (q, v)"
  shows "(take (nat w) p @ q, w + v) = page_at n (s @ t)"
proof -
  have pw: "p = take (n - 1) s" "nat w = min (n - 1) (length s)" "w = int (min (n - 1) (length s))"
    and qv: "q = take (n - nat w - 1) t" "v = int (min (n - nat w - 1) (length t))"
    using assms by (auto simp: page_at_def)
  have t: "take (nat w) p = take (n - 1) s" unfolding pw(1,2) by (simp add: min_def)
  show ?thesis
  proof (cases "length s \<le> n - 1")
    case True
    then have "nat w = length s" "w = int (length s)" using pw by auto
    moreover have "length s + min (n - length s - 1) (length t) = min (n - 1) (length s + length t)"
      using True by arith
    then have "int (length s) + int (min (n - length s - 1) (length t)) = int (min (n - 1) (length s + length t))"
      unfolding of_nat_add [symmetric] by (rule arg_cong)
    moreover have "n - length s - 1 = n - 1 - length s" by simp
    ultimately show ?thesis using True unfolding t qv page_at_def by (simp add: min.absorb2)
  next
    case False
    then have "nat w = n - 1" "w = int (n - 1)" using pw by auto
    then have "n - nat w - 1 = 0" using assms(1) by simp
    then show ?thesis using False \<open>w = int (n - 1)\<close> unfolding t qv page_at_def by (simp add: min_def)
  qed
qed

lemma page_fold_some:
  assumes "0 < n"
  shows "fold (\<lambda>i dw. case g i of None \<Rightarrow> dw | Some b \<Rightarrow> page_add n (f i b) dw) xs (page_at n s) =
    page_at n (s @ concat (map (\<lambda>i. case g i of None \<Rightarrow> [] | Some b \<Rightarrow> f i b) xs))"
proof (induction xs arbitrary: s)
  case (Cons x xs)
  then show ?case by (cases "g x") (simp_all add: page_add_at [OF assms])
qed simp

text \<open>A text that fits is sent whole.\<close>

lemma page_at_fits: "length s < n \<Longrightarrow> fst (page_at n s) = s"
  by (simp add: page_at_def)

section \<open>The pages with bookmarks\<close>

definition label_of :: "bookmark \<Rightarrow> string \<times> string" where
  "label_of b = bm_escape b (BM_URL_MAX * 6) (BM_TITLE_MAX * 6)"

definition links_text :: "('s, 'b) bm_state \<Rightarrow> string" where
  "links_text bm = (if bookmarks_count bm = 0 then []
     else links_open @ concat (map (\<lambda>i. case bookmarks_get bm (int i) of None \<Rightarrow> []
       | Some b \<Rightarrow> link_row (fst (label_of b)) (snd (label_of b))) [0..<bookmarks_count bm]) @ links_close)"

lemma bm_render_links_eq: "0 < n \<Longrightarrow> bm_render_links bm n = page_at n (links_text bm)"
proof (cases "bookmarks_count bm = 0")
  case True
  then show ?thesis by (simp add: bm_render_links_def links_text_def page_at_def)
next
  case False
  assume n: "0 < n"
  show ?thesis
    using False page_fold_some [OF n, where f = "\<lambda>i b. link_row (fst (label_of b)) (snd (label_of b))"
        and g = "\<lambda>i. bookmarks_get bm (int i)"]
    by (simp add: bm_render_links_def links_text_def Let_def label_of_def [symmetric] case_prod_beta page_start [OF n]
        page_add_at [OF n] cong: option.case_cong)
qed

definition bm_text :: "bool \<Rightarrow> ('s, 'b) bm_state \<Rightarrow> string" where
  "bm_text err bm = bm_head @ (if err then bm_err else []) @
     (if bookmarks_count bm = 0 then bm_none
      else bm_open_div @ concat (map (\<lambda>i. case bookmarks_get bm (int i) of None \<Rightarrow> []
        | Some b \<Rightarrow> bm_row (int i) (fst (label_of b)) (snd (label_of b))) [0..<bookmarks_count bm]) @ bm_close_div) @
     bm_foot (int (bookmarks_count bm)) (if bookmarks_count bm < BM_MAX then bm_add_link else bm_full)"

lemma bm_page_eq:
  "bm_page err bm = fst (page_at (3072 + bm_escaped_total bm * 2 + bookmarks_count bm * 160) (bm_text err bm))"
proof -
  define n where "n = 3072 + bm_escaped_total bm * 2 + bookmarks_count bm * 160"
  have n: "0 < n" by (simp add: n_def)
  note f = page_fold_some [OF n, where f = "\<lambda>i b. bm_row (int i) (fst (label_of b)) (snd (label_of b))"
        and g = "\<lambda>i. bookmarks_get bm (int i)"]
  show ?thesis
    unfolding bm_page_def bm_text_def Let_def n_def [symmetric]
    by (simp add: label_of_def [symmetric] case_prod_beta page_start [OF n] page_add_at [OF n] f cong: option.case_cong)
qed

text \<open>What a list of bookmarks contributes to the sizes.\<close>

lemma escaped_total_eq:
  "bm_escaped_total bm = sum_list (map (\<lambda>i. case bookmarks_get bm (int i) of None \<Rightarrow> 0
     | Some b \<Rightarrow> html_escape_len (bm_title b) + html_escape_len (bm_url b)) [0..<bookmarks_count bm])"
proof -
  have "fold (\<lambda>i n. case g i of None \<Rightarrow> n | Some b \<Rightarrow> n + f b) xs k =
      k + sum_list (map (\<lambda>i. case g i of None \<Rightarrow> 0 | Some b \<Rightarrow> f b) xs)" for g :: "nat \<Rightarrow> bookmark option" and f xs and k :: nat
    by (induction xs arbitrary: k) (auto split: option.split)
  then show ?thesis by (simp add: bm_escaped_total_def)
qed

lemma length_html_escape_le: "length (html_escape s n) \<le> html_escape_len s"
proof -
  have "length (escs (take k s)) \<le> length (escs s)" for k
    using escs_simps(3) [of "take k s" "drop k s"] by (metis append_take_drop_id length_append le_add1)
  then show ?thesis by (simp add: html_escape_eq length_escs)
qed

lemma sum_rows:
  fixes f g :: "nat \<Rightarrow> nat"
  shows "(\<And>i. i \<in> set xs \<Longrightarrow> f i \<le> g i + c) \<Longrightarrow> sum_list (map f xs) \<le> sum_list (map g xs) + length xs * c"
proof (induction xs)
  case (Cons x xs)
  then have "f x \<le> g x + c" "sum_list (map f xs) \<le> sum_list (map g xs) + length xs * c" by simp_all
  then show ?case by simp
qed simp

definition titled :: "('s, 'b) bm_state \<Rightarrow> bool" where
  "titled bm \<longleftrightarrow> (\<forall>i<bookmarks_count bm. \<forall>b. bookmarks_get bm (int i) = Some b \<longrightarrow> bm_title b \<noteq> [])"

lemma label_bounds:
  assumes "bm_title b \<noteq> []"
  shows "length (fst (label_of b)) \<le> html_escape_len (bm_url b)" and "length (snd (label_of b)) \<le> html_escape_len (bm_title b)"
  using assms length_html_escape_le by (simp_all add: label_of_def bm_escape_def Let_def)

lemma length_links:
  assumes "titled bm"
  shows "length (links_text bm) \<le> 54 + bm_escaped_total bm + bookmarks_count bm * 43"
proof -
  let ?f = "\<lambda>i. length (case bookmarks_get bm (int i) of None \<Rightarrow> [] | Some b \<Rightarrow> link_row (fst (label_of b)) (snd (label_of b)))"
  let ?g = "\<lambda>i. case bookmarks_get bm (int i) of None \<Rightarrow> 0 | Some b \<Rightarrow> html_escape_len (bm_title b) + html_escape_len (bm_url b)"
  have "sum_list (map ?f [0..<bookmarks_count bm]) \<le> sum_list (map ?g [0..<bookmarks_count bm]) + length [0..<bookmarks_count bm] * 43"
  proof (rule sum_rows)
    fix i assume "i \<in> set [0..<bookmarks_count bm]"
    then show "?f i \<le> ?g i + 43"
      using assms label_bounds by (fastforce simp: titled_def len_link_row split: option.split)
  qed
  then show ?thesis
    by (simp add: links_text_def len_links_open len_links_close length_concat comp_def escaped_total_eq)
qed

lemma length_dec_small: "0 \<le> i \<Longrightarrow> i < 100 \<Longrightarrow> length (dec_int i) \<le> 2"
  using length_dec [of "nat i" 2] by (simp add: dec_int_def)

lemma length_bm_text:
  assumes "titled bm" and "bookmarks_count bm \<le> BM_MAX"
  shows "length (bm_text err bm) \<le> 846 + bm_escaped_total bm * 2 + bookmarks_count bm * 127"
proof -
  let ?f = "\<lambda>i. length (case bookmarks_get bm (int i) of None \<Rightarrow> [] | Some b \<Rightarrow> bm_row (int i) (fst (label_of b)) (snd (label_of b)))"
  let ?g = "\<lambda>i. 2 * (case bookmarks_get bm (int i) of None \<Rightarrow> 0 | Some b \<Rightarrow> html_escape_len (bm_title b) + html_escape_len (bm_url b))"
  have c: "bookmarks_count bm \<le> 24" using assms(2) by (simp add: BM_MAX_def)
  have "sum_list (map ?f [0..<bookmarks_count bm]) \<le> sum_list (map ?g [0..<bookmarks_count bm]) + length [0..<bookmarks_count bm] * 127"
  proof (rule sum_rows)
    fix i assume i: "i \<in> set [0..<bookmarks_count bm]"
    have d: "length (dec_int (int i)) \<le> 2" "length (dec_int (int i + 1)) \<le> 2" using i c by (auto intro!: length_dec_small)
    show "?f i \<le> ?g i + 127"
    proof (cases "bookmarks_get bm (int i)")
      case (Some b)
      then have "bm_title b \<noteq> []" using assms(1) i by (auto simp: titled_def)
      from label_bounds [OF this] d show ?thesis by (simp add: Some len_bm_row)
    qed simp
  qed
  moreover have "length (dec_int (int (bookmarks_count bm))) \<le> 2" "length (dec_int 0) \<le> 2"
    using c by (auto intro!: length_dec_small)
  ultimately show ?thesis
    by (simp add: bm_text_def len_bm_head len_bm_err len_bm_none len_bm_open_div len_bm_close_div len_bm_foot len_bm_add_link
        len_bm_full length_concat comp_def escaped_total_eq sum_list_const_mult)
qed


section \<open>The status page\<close>

definition root_text :: "web_env \<Rightarrow> 'i web_sys \<Rightarrow> string" where
  "root_text e sys =
     (let s = ws_s sys; st = app_state s;
          name_esc = html_escape (name_of (bt_name_get s (int BT_NAME_MAX))) (BT_NAME_MAX * 6);
          (px_on, px_host, px_port) = proxy_get (ws_px sys) PROXY_HOST_MAX;
          px_line = (if px_on then snprint (PROXY_HOST_MAX * 6 + 8) (html_escape px_host (PROXY_HOST_MAX * 6) @ '':'' @ dec (unat px_port))
                     else strlcpy ''off'' (PROXY_HOST_MAX * 6 + 8))
      in root_head name_esc
           (if st = APP_WIFI_SCANNING \<or> st = APP_WIFI_CONNECTING \<or> st = APP_BRIDGE_NO_WIFI then refresh_meta else []) @
         links_text (ws_bm sys) @
         root_body (state_to_str st)
           (if ppp_link_up s then ''up'' else if get_bt_connected s then ''negotiating'' else ''down'')
           (if get_wifi_connected s then ''connected to'' else ''not connected'')
           (if get_wifi_connected s then html_escape (fst (wifi_get_current s 33 16)) 80 else [])
           (snd (wifi_get_current s 33 16)) (wifi_get_rssi s) (bt_rssi_str s 8)
           (int (wifi_list_count s)) (int (bookmarks_count (ws_bm sys))) px_line
           (uptime_seconds (we_now e) (we_boot e)) (int (we_free e div 1024)))"

lemma root_page_eq:
  "root_page e sys = fst (page_at (3072 + bm_escaped_total (ws_bm sys) + bookmarks_count (ws_bm sys) * 64) (root_text e sys))"
proof -
  define n where "n = 3072 + bm_escaped_total (ws_bm sys) + bookmarks_count (ws_bm sys) * 64"
  have n: "0 < n" by (simp add: n_def)
  define p w where "p H = fst (page_at n H)" and "w H = snd (page_at n H)" for H
  define q v where "q H L = fst (page_at (n - nat (w H)) L)" and "v H L = snd (page_at (n - nat (w H)) L)" for H L
  have h: "page_at n H = (p H, w H)" and l: "page_at (n - nat (w H)) L = (q H L, v H L)" for H L
    by (simp_all add: p_def w_def q_def v_def)
  have "nat (w H) = min (n - 1) (length H)" for H by (simp add: w_def page_at_def)
  then have nw: "0 < n - nat (w H)" for H using n by simp
  note sub = page_sub [OF n h l, unfolded h]
  have add: "page_add n t (p s, w s) = (p (s @ t), w (s @ t))" for s t using page_add_at [OF n, of t s] by (simp add: h)
  show ?thesis
    unfolding root_page_def root_text_def Let_def n_def [symmetric]
    by (simp add: page_start [OF n] h bm_render_links_eq [OF nw] l sub add case_prod_beta split del: if_split)
qed

lemma snprint_less: "0 < n \<Longrightarrow> length (snprint n s) < n"
  using length_strlcpy [of n s] by (simp add: snprint_def strlcpy_def)

lemma unat_clock: "unat ((up :: u32) div 86400) < 10 ^ 5" "unat ((up mod 86400) div 3600) < 100"
  "unat ((up mod 3600) div 60) < 100" "unat (up mod 60) < 100"
proof -
  have "unat up < 4294967296" by (rule unat_less_u32)
  then show "unat (up div 86400) < 10 ^ 5" by (simp add: unat_div less_mult_imp_div_less)
  have "unat (up mod 86400) < 86400" "unat (up mod 3600) < 3600" "unat (up mod 60) < 60" by (simp_all add: unat_mod)
  then show "unat ((up mod 86400) div 3600) < 100" "unat ((up mod 3600) div 60) < 100" "unat (up mod 60) < 100"
    by (simp_all add: unat_div less_mult_imp_div_less)
qed

lemma length_dec2: "n < 100 \<Longrightarrow> length (dec2 n) \<le> 2"
  using length_dec [of n 1] length_dec [of n 2] by (simp add: dec2_def)

lemma length_state: "length (state_to_str st) \<le> 16"
  by (cases st) (simp_all add: state_to_str_def)

lemma length_dec_rssi: "-128 \<le> r \<Longrightarrow> r \<le> 127 \<Longrightarrow> length (dec_int r) \<le> 4"
proof -
  assume "-128 \<le> r" "r \<le> 127"
  then have "nat r < 10 ^ 3" "nat (- r) < 10 ^ 3" by auto
  from this [THEN length_dec] show ?thesis by (auto simp: dec_int_def)
qed

lemma length_html_escape_lt: "0 < n \<Longrightarrow> length (html_escape s n) \<le> n - 1"
  using length_html_escape [of n s] by simp

lemma length_root_text:
  assumes titled: "titled (ws_bm sys)" and bmc: "bookmarks_count (ws_bm sys) \<le> BM_MAX"
    and nets: "wifi_list_count (ws_s sys) \<le> WIFI_LIST_MAX" and free: "we_free e < 2 ^ 32"
    and rssi: "-128 \<le> wifi_get_rssi (ws_s sys)" "wifi_get_rssi (ws_s sys) \<le> 127"
  shows "length (root_text e sys) < 3072 + bm_escaped_total (ws_bm sys) + bookmarks_count (ws_bm sys) * 64"
proof -
  let ?s = "ws_s sys" and ?up = "uptime_seconds (we_now e) (we_boot e)"
  let ?name = "html_escape (name_of (bt_name_get ?s (int BT_NAME_MAX))) (BT_NAME_MAX * 6)"
  have free': "we_free e div 1024 < 10 ^ 7" using free by (simp add: less_mult_imp_div_less)
  have b: "length ?name \<le> 191" "length (html_escape (fst (wifi_get_current ?s 33 16)) 80) \<le> 79"
    "length (snd (wifi_get_current ?s 33 16)) \<le> 15" "length (bt_rssi_str ?s 8) \<le> 7" for s
    using length_html_escape_lt [of "BT_NAME_MAX * 6"] length_html_escape_lt [of 80] snprint_less [of 8]
    by (simp_all add: name_consts wifi_get_current_def strlcpy_def bt_rssi_str_def less_Suc_eq_le [symmetric])
  have d: "length (dec_int (int (wifi_list_count ?s))) \<le> 2" "length (dec_int (int (bookmarks_count (ws_bm sys)))) \<le> 2"
    "length (dec_int (int (we_free e div 1024))) \<le> 7" "length (dec_int (wifi_get_rssi ?s)) \<le> 4"
    using nets bmc length_dec [OF free'] length_dec_rssi [OF rssi]
    by (auto intro!: length_dec_small simp: WIFI_LIST_MAX_def BM_MAX_def) (simp add: dec_int_def)
  have u: "length (dec (unat (?up div 86400))) \<le> 5" "length (dec2 (unat ((?up mod 86400) div 3600))) \<le> 2"
    "length (dec2 (unat ((?up mod 3600) div 60))) \<le> 2" "length (dec2 (unat (?up mod 60))) \<le> 2"
    by (rule length_dec [OF unat_clock(1)], simp) (rule length_dec2 [OF unat_clock(2)] length_dec2 [OF unat_clock(3)]
        length_dec2 [OF unat_clock(4)])+
  obtain on host port where px: "proxy_get (ws_px sys) 64 = (on, host, port)" by (metis prod_cases3)
  define px_line where "px_line = (if on then snprint 392 (html_escape host 384 @ '':'' @ dec (unat port)) else strlcpy ''off'' 392)"
  have pl: "length px_line \<le> 391"
    using snprint_less [of 392] length_strlcpy [of 392] by (simp add: px_line_def less_Suc_eq_le [symmetric])
  define ref lnk wc ssid where "ref = (if app_state ?s = APP_WIFI_SCANNING \<or> app_state ?s = APP_WIFI_CONNECTING \<or>
      app_state ?s = APP_BRIDGE_NO_WIFI then refresh_meta else [])"
    and "lnk = (if ppp_link_up ?s then ''up'' else if get_bt_connected ?s then ''negotiating'' else ''down'')"
    and "wc = (if get_wifi_connected ?s then ''connected to'' else ''not connected'')"
    and "ssid = (if get_wifi_connected ?s then html_escape (fst (wifi_get_current ?s 33 16)) 80 else [])"
  have "length refresh_meta = 39" by code_simp
  then have i: "length ref \<le> 39" "length lnk \<le> 11" "length wc \<le> 13" "length ssid \<le> 79"
    using b(2) by (simp_all add: ref_def lnk_def wc_def ssid_def)
  have eq: "root_text e sys = root_head ?name ref @ links_text (ws_bm sys) @
      root_body (state_to_str (app_state ?s)) lnk wc ssid (snd (wifi_get_current ?s 33 16)) (wifi_get_rssi ?s) (bt_rssi_str ?s 8)
        (int (wifi_list_count ?s)) (int (bookmarks_count (ws_bm sys))) px_line ?up (int (we_free e div 1024))"
    by (simp add: root_text_def Let_def px px_line_def ref_def lnk_def wc_def ssid_def)
  show ?thesis
    unfolding eq length_append len_root_head len_root_body
    using b(1,3,4) d u pl i length_state [of "app_state ?s"] length_links [OF titled] by linarith
qed


section \<open>The other pages\<close>

lemma length_concat_le: "(\<And>i. i \<in> set xs \<Longrightarrow> length (f i) \<le> k) \<Longrightarrow> length (concat (map f xs)) \<le> length xs * k"
proof (induction xs)
  case (Cons x xs)
  then have "length (f x) \<le> k" "length (concat (map f xs)) \<le> length xs * k" by simp_all
  then show ?case by simp
qed simp

definition wifi_text :: "'i ppp_st \<Rightarrow> string" where
  "wifi_text s = wifi_head @ (if app_state s = APP_WIFI_FAILED then wifi_failed else []) @
     (if wifi_list_count s = 0 then wifi_none
      else wifi_open_div @ concat (map (\<lambda>i. case wifi_list_get_ssid s (int i) 33 of None \<Rightarrow> []
        | Some ssid \<Rightarrow> wifi_row (int i) (html_escape ssid 80)) [0..<wifi_list_count s]) @ wifi_close_div) @
     wifi_foot (int (wifi_list_count s))"

lemma wifi_page_eq: "wifi_page s = fst (page_at 4096 (wifi_text s))"
proof -
  define n :: nat where "n = 4096"
  have n: "0 < n" by (simp add: n_def)
  note f = page_fold_some [OF n, where f = "\<lambda>i ssid. wifi_row (int i) (html_escape ssid 80)"
        and g = "\<lambda>i. wifi_list_get_ssid s (int i) 33"]
  show ?thesis
    unfolding wifi_page_def wifi_text_def Let_def n_def [symmetric]
    by (simp add: page_start [OF n] page_add_at [OF n] f)
qed

lemma length_wifi_text:
  assumes nets: "wifi_list_count s \<le> WIFI_LIST_MAX"
  shows "length (wifi_text s) < 4096"
proof -
  let ?rows = "concat (map (\<lambda>i. case wifi_list_get_ssid s (int i) 33 of None \<Rightarrow> []
        | Some ssid \<Rightarrow> wifi_row (int i) (html_escape ssid 80)) [0..<wifi_list_count s])"
  have c: "wifi_list_count s \<le> 8" using nets by (simp add: WIFI_LIST_MAX_def)
  have e: "length (html_escape ssid 80) \<le> 79" for ssid using length_html_escape_lt [of 80 ssid] by simp
  have "length ?rows \<le> length [0..<wifi_list_count s] * 132"
  proof (rule length_concat_le)
    fix i assume i: "i \<in> set [0..<wifi_list_count s]"
    have "length (dec_int (int i)) \<le> 2" "length (dec_int (int i + 1)) \<le> 2" using i c by (auto intro!: length_dec_small)
    then have "length (wifi_row (int i) (html_escape ssid 80)) \<le> 132" for ssid
      using e [of ssid] by (simp add: len_wifi_row)
    then show "length (case wifi_list_get_ssid s (int i) 33 of None \<Rightarrow> []
        | Some ssid \<Rightarrow> wifi_row (int i) (html_escape ssid 80)) \<le> 132"
      by (simp split: option.split)
  qed
  moreover have "length (dec_int (int (wifi_list_count s))) \<le> 2" "length (dec_int 0) \<le> 2"
    using c by (auto intro!: length_dec_small)
  ultimately show ?thesis using c
    by (simp add: wifi_text_def len_wifi_head len_wifi_failed len_wifi_none len_wifi_open_div len_wifi_close_div len_wifi_foot)
qed

definition proxy_text :: "web_env \<Rightarrow> px_cfg \<Rightarrow> string" where
  "proxy_text e px =
     (let (on, host, port) = proxy_get px PROXY_HOST_MAX;
          match = (if host \<noteq> [] then proxy_preset_match host port else -1);
          host_esc = html_escape host (PROXY_HOST_MAX * 6);
          port_str = (if port \<noteq> 0 then snprint 8 (dec (unat port)) else []);
          now = snprint (PROXY_HOST_MAX * 6 + 64) (if on then proxy_now host_esc port (we_active e) else ''off'')
      in proxy_head now (if on then [] else '' checked'') @
         concat (map (\<lambda>i. case proxy_preset_get i of None \<Rightarrow> []
           | Some p \<Rightarrow> proxy_row i (checked (on \<and> match = i)) p) [0..proxy_preset_count - 1]) @
         proxy_foot (checked (on \<and> match < 0)) (if match < 0 then host_esc else []) (if match < 0 then port_str else []))"

lemma proxy_page_eq: "proxy_page e px = fst (page_at 4608 (proxy_text e px))"
proof -
  define n :: nat where "n = 4608"
  have n: "0 < n" by (simp add: n_def)
  obtain on host port where px: "proxy_get px 64 = (on, host, port)" by (metis prod_cases3)
  note f = page_fold_some [OF n, where g = proxy_preset_get]
  show ?thesis
    unfolding proxy_page_def proxy_text_def Let_def n_def [symmetric] px prod.case
    by (simp add: page_start [OF n] page_add_at [OF n] f split del: if_split)
qed

lemma length_checked: "length (checked b) \<le> 8"
  by (simp add: checked_def)

lemma length_preset:
  assumes "proxy_preset_get i = Some p"
  shows "length (pp_name p) + length (pp_host p) + length (pp_note p) \<le> 70" and "length (dec (unat (pp_port p))) \<le> 5"
    and "0 \<le> i \<and> i < 6"
proof -
  have "p \<in> set presets" using assms nth_mem [of "nat i" presets]
    by (auto simp: proxy_preset_get_def proxy_preset_count_def split: if_splits)
  then show "length (pp_name p) + length (pp_host p) + length (pp_note p) \<le> 70"
    by (auto simp: presets_def)
  have "unat (pp_port p) < 10 ^ 5" using unat_less_u16 [of "pp_port p"] by simp
  then show "length (dec (unat (pp_port p))) \<le> 5" by (rule length_dec) simp
  show "0 \<le> i \<and> i < 6" using assms preset_get_iff by blast
qed

lemma length_proxy_text: "length (proxy_text e px) < 4608"
proof -
  obtain on host port where px: "proxy_get px 64 = (on, host, port)" by (metis prod_cases3)
  define match where "match = (if host \<noteq> [] then proxy_preset_match host port else -1)"
  define now where "now = snprint 448 (if on then proxy_now (html_escape host 384) port (we_active e) else ''off'')"
  define off host' port' where "off = (if on then [] else '' checked'')"
    and "host' = (if match < 0 then html_escape host 384 else [])"
    and "port' = (if match < 0 then if port \<noteq> 0 then snprint 8 (dec (unat port)) else [] else [])"
  let ?rows = "concat (map (\<lambda>i. case proxy_preset_get i of None \<Rightarrow> []
           | Some p \<Rightarrow> proxy_row i (checked (on \<and> match = i)) p) [0..proxy_preset_count - 1])"
  have "length ?rows \<le> length [0..proxy_preset_count - 1] * 162"
  proof (rule length_concat_le)
    fix i :: int
    show "length (case proxy_preset_get i of None \<Rightarrow> [] | Some p \<Rightarrow> proxy_row i (checked (on \<and> match = i)) p) \<le> 162"
    proof (cases "proxy_preset_get i")
      case (Some p)
      have "length (dec_int i) \<le> 2" using length_preset(3) [OF Some] by (intro length_dec_small) auto
      then show ?thesis using length_preset(1,2) [OF Some] length_checked [of "on \<and> match = i"] by (simp add: Some len_proxy_row)
    qed simp
  qed
  then have rows: "length ?rows \<le> 972" by (simp add: proxy_preset_count_def presets_def)
  have b: "length now \<le> 447" "length off \<le> 8" "length host' \<le> 383" "length port' \<le> 7"
    using snprint_less [of 448] snprint_less [of 8] length_html_escape_lt [of 384]
    by (simp_all add: now_def off_def host'_def port'_def less_Suc_eq_le [symmetric])
  have "proxy_text e px = proxy_head now off @ ?rows @ proxy_foot (checked (on \<and> match < 0)) host' port'"
    unfolding now_def off_def host'_def port'_def match_def by (simp add: proxy_text_def px Let_def split del: if_split)
  then show ?thesis using rows b length_checked [of "on \<and> match < 0"]
    by (simp only: length_append len_proxy_head len_proxy_foot)
qed


section \<open>Complete pages\<close>

definition complete :: "string \<Rightarrow> bool" where
  "complete page \<longleftrightarrow> (\<exists>p. page = p @ ''</body></html>'')"

lemma complete_append: "complete t \<Longrightarrow> complete (s @ t)"
  by (metis complete_def append.assoc)

lemma complete_ends:
  "complete (root_body a b c d f i g j k l m n)" "complete (bm_foot i a)" "complete (wifi_foot i)" "complete (proxy_foot a b c)"
  "complete (name_page a b c)" "complete (debug_page a b c)" "complete (security_page a b c d f)"
  "complete (bm_edit_page a i b c)" "complete saved_page" "complete rebooting_page"
proof -
  have "saved_page = ''<html><body><p>Saved. Rebooting...</p>'' @ ''</body></html>''"
    "rebooting_page = ''<html><body><p>Rebooting...</p>'' @ ''</body></html>''"
    by (simp_all add: saved_page_def rebooting_page_def)
  then show "complete saved_page" "complete rebooting_page" unfolding complete_def by blast+
qed (simp_all add: complete_def end_root_body end_bm_foot end_wifi_foot end_proxy_foot end_name_page end_debug_page
    end_security_page end_bm_edit_page)

lemma complete_page_at: "length s < n \<Longrightarrow> complete s \<Longrightarrow> complete (fst (page_at n s))"
  by (simp add: page_at_fits)

lemma complete_snprint: "length s < n \<Longrightarrow> complete s \<Longrightarrow> complete (snprint n s)"
  by (simp add: snprint_def)

lemma complete_root:
  assumes "titled (ws_bm sys)" and "bookmarks_count (ws_bm sys) \<le> BM_MAX"
    and "wifi_list_count (ws_s sys) \<le> WIFI_LIST_MAX" and "we_free e < 2 ^ 32"
    and "-128 \<le> wifi_get_rssi (ws_s sys)" "wifi_get_rssi (ws_s sys) \<le> 127"
  shows "complete (root_page e sys)"
proof -
  have "complete (root_text e sys)"
    by (simp add: root_text_def Let_def case_prod_beta complete_append complete_ends)
  then show ?thesis unfolding root_page_eq by (rule complete_page_at [OF length_root_text [OF assms]])
qed

lemma complete_bm: "titled bm \<Longrightarrow> bookmarks_count bm \<le> BM_MAX \<Longrightarrow> complete (bm_page err bm)"
  unfolding bm_page_eq using length_bm_text [of bm err]
  by (intro complete_page_at) (auto simp: bm_text_def complete_append complete_ends)

lemma complete_wifi: "wifi_list_count s \<le> WIFI_LIST_MAX \<Longrightarrow> complete (wifi_page s)"
  unfolding wifi_page_eq by (intro complete_page_at length_wifi_text) (simp_all add: wifi_text_def complete_append complete_ends)

lemma complete_proxy: "complete (proxy_page e px)"
  unfolding proxy_page_eq
  by (intro complete_page_at length_proxy_text) (simp add: proxy_text_def Let_def case_prod_beta complete_append complete_ends)

lemma complete_security: "complete (security_text s)"
proof -
  have n: "length (html_escape x 192) \<le> 191" for x using length_html_escape_lt [of 192 x] by simp
  have sn: "length (snprint 256 x) \<le> 255" for x using snprint_less [of 256 x] by simp
  define now where "now = (if ppp_link_secure_get s = BTSEC_ON then ''required''
      else if ppp_link_secure_get s = BTSEC_OFF then ''off'' else ''auto (by phone name)'')"
  define lst where "lst = (if ppp_link_secure_get s = BTSEC_AUTO then
        (case ppp_link_last_phone s 32 of None \<Rightarrow> []
         | Some (name, secured) \<Rightarrow> snprint 256 (security_last (html_escape (if name \<noteq> [] then name else ''(no name)'') 192)
             (if secured then ''secured'' else ''known model, not secured'')))
      else [])"
  have "length now \<le> 20" "length lst \<le> 255" using sn by (auto simp: now_def lst_def split: option.split)
  then have "length (security_page now lst (checked a) (checked b) (checked c)) < 3072" for a b c
    using length_checked [of a] length_checked [of b] length_checked [of c] by (simp only: len_security_page)
  then have "complete (snprint 3072 (security_page now lst (checked a) (checked b) (checked c)))" for a b c
    by (intro complete_snprint complete_ends)
  moreover have "(32::nat) * 6 = 192" "(192::nat) + 64 = 256" by simp_all
  ultimately show ?thesis
    unfolding security_text_def Let_def BT_NAME_MAX_def
    by (simp only: now_def lst_def)
qed

lemma complete_edit:
  "complete (snprint 3200 (bm_edit_page (if ed then ''Edit'' else ''Add'') i (html_escape t 192) (html_escape u 960)))"
  if "length (dec_int i) \<le> 11"
  using that length_html_escape_lt [of 192 t] length_html_escape_lt [of 960 u]
  by (intro complete_snprint complete_ends) (simp add: len_bm_edit_page)

lemma complete_name:
  "length d \<le> 191 \<Longrightarrow> complete (snprint 2560 (name_page (html_escape c 192) d (html_escape k 192)))"
  using length_html_escape_lt [of 192 c] length_html_escape_lt [of 192 k]
  by (intro complete_snprint complete_ends) (simp add: len_name_page)

lemma complete_debug: "complete (snprint 2560 (debug_page (checked a) (checked b) (checked c)))"
  using length_checked [of a] length_checked [of b] length_checked [of c]
  by (intro complete_snprint complete_ends) (simp add: len_debug_page)

text \<open>What a handler sends.\<close>

definition sent_pages :: "web_out \<Rightarrow> string set" where
  "sent_pages out = set (rs_sent (snd out)) - {[]}"

lemma sent_redirect [simp]: "sent_pages (redirect_to e loc r) = set (rs_sent r) - {[]}"
  by (auto simp: sent_pages_def redirect_to_def sendstr_def)

lemma sent_page: "sent_pages (send_page e page r) \<subseteq> insert page (set (rs_sent r))"
  by (auto simp: sent_pages_def send_page_def sendstr_def)

lemma sent_guarded:
  assumes "p \<in> sent_pages (guarded e rq f)"
  obtains r where "rs_sent r = []" "p \<in> sent_pages (f r)"
proof -
  have "rs_sent (set_no_cache ''text/html'' resp0) = []" by (simp add: set_no_cache_def resp0_def)
  moreover have "p \<in> sent_pages (f (set_no_cache ''text/html'' resp0))"
    using assms by (auto simp: guarded_def captive_check_def Let_def sent_pages_def redirect_to_def sendstr_def resp0_def
        split: option.splits if_splits)
  ultimately show ?thesis using that by blast
qed

lemma sent_guarded_page: "p \<in> sent_pages (guarded e rq (send_page e page)) \<Longrightarrow> p = page"
  by (erule sent_guarded) (use sent_page in fastforce)


lemma sent_with_body:
  assumes "with_body rq sz sys f = Some (out, t)" and "p \<in> sent_pages out"
    and "\<And>b. sent_pages (fst (f b)) \<subseteq> P"
  shows "p \<in> P"
proof (cases "recv_body (rq_len rq) (rq_recv rq) sz")
  case (Some r)
  then show ?thesis
  proof (cases r)
    case (Some b)
    then have "f (cstr b) = (out, t)" using assms(1) \<open>recv_body _ _ _ = Some r\<close> by (simp add: with_body_def)
    then show ?thesis using assms(2) assms(3) [of "cstr b"] by auto
  qed (use assms(1,2) Some in \<open>auto simp: with_body_def sent_pages_def resp0_def\<close>)
qed (use assms(1) in \<open>simp add: with_body_def\<close>)

lemma sent_none [simp]: "rs_sent resp0 = []"
  by (simp add: resp0_def)

lemma sent_posts:
  assumes "p \<in> sent_pages out"
  shows "handler_wifi_add e rq sys = Some (out, t) \<Longrightarrow> p \<in> {saved_page}"
    and "handler_bm_save e rq sys = Some (out, t) \<Longrightarrow> p \<in> {saved_page}"
    and "handler_name_post e rq sys = Some (out, t) \<Longrightarrow> p \<in> {saved_page}"
    and "handler_debug_post e rq sys = Some (out, t) \<Longrightarrow> p \<in> {saved_page}"
    and "handler_security_post e rq sys = Some (out, t) \<Longrightarrow> p \<in> {saved_page}"
    and "handler_proxy_post e rq sys = Some (out, t) \<Longrightarrow> p \<in> {saved_page}"
proof -
  have s: "sent_pages (c, snd (sendstr e saved_page resp0)) \<subseteq> {saved_page}" for c
    by (auto simp: sent_pages_def sendstr_def resp0_def)
  show "handler_wifi_add e rq sys = Some (out, t) \<Longrightarrow> p \<in> {saved_page}"
    unfolding handler_wifi_add_def by (erule sent_with_body [OF _ assms]) (simp add: Let_def case_prod_beta)
  show "handler_bm_save e rq sys = Some (out, t) \<Longrightarrow> p \<in> {saved_page}"
    unfolding handler_bm_save_def by (erule sent_with_body [OF _ assms]) (simp add: Let_def case_prod_beta)
  show "handler_name_post e rq sys = Some (out, t) \<Longrightarrow> p \<in> {saved_page}"
    unfolding handler_name_post_def by (erule sent_with_body [OF _ assms]) (simp add: Let_def case_prod_beta)
  show "handler_debug_post e rq sys = Some (out, t) \<Longrightarrow> p \<in> {saved_page}"
    unfolding handler_debug_post_def by (erule sent_with_body [OF _ assms]) (simp add: Let_def)
  show "handler_security_post e rq sys = Some (out, t) \<Longrightarrow> p \<in> {saved_page}"
    unfolding handler_security_post_def
    by (erule sent_with_body [OF _ assms]) (use s in \<open>auto simp: Let_def case_prod_beta split: option.split\<close>)
  show "handler_proxy_post e rq sys = Some (out, t) \<Longrightarrow> p \<in> {saved_page}"
    unfolding handler_proxy_post_def by (erule sent_with_body [OF _ assms]) (simp add: Let_def case_prod_beta)
qed

lemma sent_others:
  assumes "p \<in> sent_pages out"
  shows "handler_wifi_del e rq sys = (out, t) \<Longrightarrow> complete p" "handler_bm_del e rq sys = (out, t) \<Longrightarrow> complete p"
    "handler_reset e sys = (out, t) \<Longrightarrow> complete p" "handler_reboot e sys = (out, t) \<Longrightarrow> complete p"
    "handler_favicon e = out \<Longrightarrow> complete p"
  using assms complete_ends(10)
  by (auto simp: handler_wifi_del_def handler_bm_del_def handler_reset_def handler_reboot_def handler_favicon_def
      sent_pages_def sendstr_def redirect_to_def resp0_def)

lemma sent_built:
  assumes "p \<in> sent_pages (guarded e rq f)" and "\<And>r. rs_sent r = [] \<Longrightarrow> sent_pages (f r) \<subseteq> {q}"
  shows "p = q"
  using assms by (elim sent_guarded) blast

lemma sent_page_only: "rs_sent r = [] \<Longrightarrow> sent_pages (send_page e page r) \<subseteq> {page}"
  using sent_page [of e page r] by simp

lemma sent_gets:
  shows "p \<in> sent_pages (handler_root e rq sys) \<Longrightarrow> p = root_page e sys"
    and "p \<in> sent_pages (handler_wifi_get e rq sys) \<Longrightarrow> p = wifi_page (ws_s sys)"
    and "p \<in> sent_pages (handler_bm_get e rq sys) \<Longrightarrow> p = bm_page (query_val e rq ''err'' \<noteq> None) (ws_bm sys)"
    and "p \<in> sent_pages (handler_security_get e rq sys) \<Longrightarrow> p = security_text (ws_s sys)"
    and "p \<in> sent_pages (handler_proxy_get e rq sys) \<Longrightarrow> p = proxy_page e (ws_px sys)"
    and "p \<in> sent_pages (handler_debug_get e rq sys) \<Longrightarrow> complete p"
    and "p \<in> sent_pages (handler_name_get e rq sys) \<Longrightarrow> complete p"
proof -
  show "p \<in> sent_pages (handler_root e rq sys) \<Longrightarrow> p = root_page e sys"
    unfolding handler_root_def by (erule sent_built) (simp add: Let_def sent_page_only)
  show "p \<in> sent_pages (handler_wifi_get e rq sys) \<Longrightarrow> p = wifi_page (ws_s sys)"
    unfolding handler_wifi_get_def by (erule sent_built) (rule sent_page_only)
  show "p \<in> sent_pages (handler_bm_get e rq sys) \<Longrightarrow> p = bm_page (query_val e rq ''err'' \<noteq> None) (ws_bm sys)"
    unfolding handler_bm_get_def by (erule sent_built) (rule sent_page_only)
  show "p \<in> sent_pages (handler_security_get e rq sys) \<Longrightarrow> p = security_text (ws_s sys)"
    unfolding handler_security_get_def by (erule sent_built) (rule sent_page_only)
  show "p \<in> sent_pages (handler_proxy_get e rq sys) \<Longrightarrow> p = proxy_page e (ws_px sys)"
    unfolding handler_proxy_get_def by (erule sent_built) (rule sent_page_only)
  show "p \<in> sent_pages (handler_debug_get e rq sys) \<Longrightarrow> complete p"
    unfolding handler_debug_get_def Let_def by (drule sent_built, rule sent_page_only, assumption) (simp only: complete_debug)
  show "p \<in> sent_pages (handler_name_get e rq sys) \<Longrightarrow> complete p"
  proof -
    assume a: "p \<in> sent_pages (handler_name_get e rq sys)"
    have d: "length (if d \<noteq> [] then html_escape d 192 else ''(waiting for Bluetooth)'') \<le> 191" for d
      using length_html_escape_lt [of 192 d] by simp
    have m: "(32::nat) * 6 = 192" by simp
    from sent_built [OF a [unfolded handler_name_get_def Let_def BT_NAME_MAX_def m] sent_page_only]
    show "complete p" by (simp only: complete_name [OF d])
  qed
qed

lemma sent_edit:
  assumes "p \<in> sent_pages (handler_bm_edit e rq sys)" and "bookmarks_count (ws_bm sys) \<le> BM_MAX"
  shows "complete p"
proof -
  obtain r where r: "rs_sent r = []" "p \<in> sent_pages (let
         index = (case query_val e rq ''i'' of Some v \<Rightarrow> atoi v | None \<Rightarrow> -1);
         editing = (index \<ge> 0 \<and> bookmarks_get (ws_bm sys) index \<noteq> None);
         b = (if index \<ge> 0 then bookmarks_out (ws_bm sys) index else \<lparr>bm_title = [], bm_url = []\<rparr>);
         index = (if editing then index else -1)
     in if \<not> editing \<and> BM_MAX \<le> bookmarks_count (ws_bm sys) then redirect_to e ''/bm'' r
        else let url_esc = html_escape (bm_url b) (BM_URL_MAX * 6);
                 title_esc = html_escape (bm_title b) (BM_TITLE_MAX * 6);
                 sz = 2048 + BM_URL_MAX * 6 + BM_TITLE_MAX * 6
             in send_page e (snprint sz (bm_edit_page (if editing then ''Edit'' else ''Add'') index title_esc url_esc)) r)"
    using assms(1) unfolding handler_bm_edit_def by (rule sent_guarded)
  define index where "index = (case query_val e rq ''i'' of Some v \<Rightarrow> atoi v | None \<Rightarrow> -1)"
  define ed where "ed = (index \<ge> 0 \<and> bookmarks_get (ws_bm sys) index \<noteq> None)"
  define b where "b = (if index \<ge> 0 then bookmarks_out (ws_bm sys) index else \<lparr>bm_title = [], bm_url = []\<rparr>)"
  define k where "k = (if ed then index else -1)"
  have "ed \<Longrightarrow> index < 24"
    using assms(2) by (auto simp: ed_def bookmarks_get_def bookmarks_count_def BM_MAX_def split: if_splits)
  then have "ed \<Longrightarrow> length (dec_int index) \<le> 2" using length_dec_small [of index] by (simp add: ed_def)
  moreover have "length (dec_int (-1)) = 2" by code_simp
  ultimately have l: "length (dec_int k) \<le> 11" by (cases ed) (simp_all add: k_def)
  have m: "(160::nat) * 6 = 960" "(32::nat) * 6 = 192" "(2048::nat) + 960 + 192 = 3200" by simp_all
  have "p \<in> sent_pages (send_page e (snprint 3200
      (bm_edit_page (if ed then ''Edit'' else ''Add'') k (html_escape (bm_title b) 192) (html_escape (bm_url b) 960))) r)"
    using r unfolding Let_def index_def [symmetric] ed_def [symmetric] b_def [symmetric] k_def [symmetric]
      BM_URL_MAX_def BM_TITLE_MAX_def m by (auto split: if_splits)
  with sent_page_only [OF r(1)] have "p = snprint 3200
      (bm_edit_page (if ed then ''Edit'' else ''Add'') k (html_escape (bm_title b) 192) (html_escape (bm_url b) 960))" by blast
  then show ?thesis using complete_edit [OF l] by simp
qed

text \<open>C9: No page is ever cut off.  Whatever the settings and the saved entries contain, every page a
  handler sends ends with its closing tags: the escaped texts fit the places reserved for them and the
  pages fit their buffers.  For the two pages that list bookmarks this holds when every bookmark has a
  name.\<close>

theorem pages_complete:
  fixes sys :: "'i web_sys"
  assumes "web_handle pg e rq sys = Some (out, t)" and "page \<in> set (rs_sent (snd out))" and "page \<noteq> []"
    and "bookmarks_count (ws_bm sys) \<le> BM_MAX" and "pg \<in> {PgRoot, PgBm} \<Longrightarrow> titled (ws_bm sys)"
    and "wifi_list_count (ws_s sys) \<le> WIFI_LIST_MAX" and "we_free e < 2 ^ 32"
    and "-128 \<le> wifi_get_rssi (ws_s sys)" and "wifi_get_rssi (ws_s sys) \<le> 127"
  shows "\<exists>p. page = p @ ''</body></html>''"
proof -
  have page: "page \<in> sent_pages out" using assms(2,3) by (simp add: sent_pages_def)
  note h = assms(1) [unfolded web_handle_def] and gets = sent_gets [where p = page and e = e and rq = rq and sys = sys]
  have sv: "page \<in> {saved_page} \<Longrightarrow> complete page" using complete_ends(9) by simp
  have "complete page"
  proof (cases pg)
    case PgRoot
    then show ?thesis using h page gets(1) complete_root [OF assms(5) assms(4,6-9)] by auto
  next
    case PgBm
    then show ?thesis using h page gets(3) complete_bm [OF assms(5) assms(4)] by auto
  next
    case PgBmEdit
    then show ?thesis using h page sent_edit [OF _ assms(4)] by auto
  next case PgWifi then show ?thesis using h page gets(2) complete_wifi [OF assms(6)] by auto
  next case PgSecurity then show ?thesis using h page gets(4) complete_security by auto
  next case PgProxy then show ?thesis using h page gets(5) complete_proxy by auto
  next case PgDebug then show ?thesis using h page gets(6) by auto
  next case PgName then show ?thesis using h page gets(7) by auto
  next case PgWifiAdd then show ?thesis using h page sent_posts(1) [OF page] sv by auto
  next case PgBmSave then show ?thesis using h page sent_posts(2) [OF page] sv by auto
  next case PgNamePost then show ?thesis using h page sent_posts(3) [OF page] sv by auto
  next case PgDebugPost then show ?thesis using h page sent_posts(4) [OF page] sv by auto
  next case PgSecurityPost then show ?thesis using h page sent_posts(5) [OF page] sv by auto
  next case PgProxyPost then show ?thesis using h page sent_posts(6) [OF page] sv by auto
  next case PgWifiDel then show ?thesis using h page sent_others(1) [OF page] by auto
  next case PgBmDel then show ?thesis using h page sent_others(2) [OF page] by auto
  next case PgReset then show ?thesis using h page sent_others(3) [OF page] by auto
  next case PgReboot then show ?thesis using h page sent_others(4) [OF page] by auto
  next case PgFavicon then show ?thesis using h page sent_others(5) [OF page] by auto
  qed
  then show ?thesis by (simp add: complete_def)
qed


theorem pages_complete_witness:
  "\<exists>p. bm_page False (bm_fresh (map_dev :: (string \<rightharpoonup> wifi_list_t nvs_val, wifi_list_t) nvs_dev)) = p @ ''</body></html>''"
proof -
  let ?bm = "bm_fresh (map_dev :: (string \<rightharpoonup> wifi_list_t nvs_val, wifi_list_t) nvs_dev)"
  have t: "titled ?bm" and c: "bookmarks_count ?bm \<le> BM_MAX"
    by (simp_all add: titled_def bm_fresh_def bookmarks_count_def)
  have n: "bm_page False ?bm \<noteq> []" using complete_bm [OF t c, of False] by (auto simp: complete_def)
  have h: "web_handle PgBm demo_env demo_req demo_sys = Some (handler_bm_get demo_env demo_req demo_sys, demo_sys)"
    by (simp add: web_handle_def)
  have p: "bm_page False ?bm \<in> set (rs_sent (snd (handler_bm_get demo_env demo_req demo_sys)))"
    by (simp add: handler_bm_get_def guarded_def captive_check_def query_val_def send_page_def sendstr_def)
  show ?thesis
    by (rule pages_complete [OF h p n]) (use t c in \<open>simp_all add: demo_boot WIFI_LIST_MAX_def\<close>)
qed

text \<open>The two bookmark pages reserve the address of an unnamed bookmark once too few, as its label is the
  address again: with a full list of unnamed bookmarks of 107 characters or more the status page is cut.\<close>

lemma root_page_cut:
  assumes c: "bookmarks_count (ws_bm sys) = 24"
    and u: "\<And>i. i < 24 \<Longrightarrow> \<exists>b. bookmarks_get (ws_bm sys) (int i) = Some b \<and> bm_title b = [] \<and>
      length (bm_url b) < BM_URL_MAX \<and> 107 \<le> html_escape_len (bm_url b)"
  shows "length (root_text e sys) > length (root_page e sys)"
proof -
  let ?bm = "ws_bm sys"
  let ?f = "\<lambda>i. case bookmarks_get ?bm (int i) of None \<Rightarrow> [] | Some b \<Rightarrow> link_row (fst (label_of b)) (snd (label_of b))"
  let ?g = "\<lambda>i. case bookmarks_get ?bm (int i) of None \<Rightarrow> 0 | Some b \<Rightarrow> html_escape_len (bm_title b) + html_escape_len (bm_url b)"
  have row: "?g i + 150 \<le> length (?f i)" if i: "i < 24" for i
  proof -
    obtain b where b: "bookmarks_get ?bm (int i) = Some b" "bm_title b = []" "length (bm_url b) < BM_URL_MAX"
      "107 \<le> html_escape_len (bm_url b)" using u [OF i] by blast
    have "html_escape (bm_url b) (BM_URL_MAX * 6) = escs (bm_url b)" by (rule html_escape_6 [OF b(3)])
    then show ?thesis using b by (simp add: label_of_def bm_escape_def len_link_row length_escs Let_def)
  qed
  have "sum_list (map (\<lambda>i. ?g i + 150) [0..<24]) \<le> sum_list (map (\<lambda>i. length (?f i)) [0..<24])"
    by (rule sum_list_mono) (use row in simp)
  then have "bm_escaped_total ?bm + 3600 \<le> length (concat (map ?f [0..<24]))"
    by (simp add: escaped_total_eq c sum_list_addf sum_list_triv length_concat comp_def)
  then have "bm_escaped_total ?bm + 3654 \<le> length (links_text ?bm)"
    by (simp add: links_text_def c len_links_open len_links_close)
  then have "3072 + bm_escaped_total ?bm + 24 * 64 \<le> length (root_text e sys)"
    by (simp add: root_text_def Let_def case_prod_beta len_root_head len_root_body)
  then show ?thesis by (simp add: root_page_eq c page_at_def)
qed

end
