(* ===== verification/WebProps.thy ===== *)
theory WebProps
  imports WebForms WebFit
begin

text \<open>
  What the pages of \<open>main/web_ui.c\<close> promise: text that cannot break out of a page, forms that reach the
  modules as they were typed, requests that are only steps of the bridge, and the captive portal.
\<close>

section \<open>Requests as steps of the bridge\<close>

lemma set_proxy_step:
  fixes s :: "'i ppp_st"
  shows "save_proxy on host port sys = sys\<lparr>ws_px := fst (proxy_set on host port (wifi_dev (ws_s sys))),
     ws_s := (ws_s sys)\<lparr>wifi_dev := snd (proxy_set on host port (wifi_dev (ws_s sys)))\<rparr>\<rparr>"
  by (simp add: save_proxy_def case_prod_beta)

text \<open>A body that is read, or a form that does nothing.\<close>

lemma with_body_cases:
  assumes "with_body rq n sys f = Some (out, t)"
  obtains "t = sys" | b where "f b = (out, t)"
  using assms by (auto simp: with_body_def split: option.splits)

abbreviation steps :: "'i ppp_st \<Rightarrow> 'i ppp_st \<Rightarrow> bool" where
  "steps \<equiv> rtranclp bridge_step"

lemma step1: "bridge_step s t \<Longrightarrow> steps s t"
  by (rule r_into_rtranclp)

lemma wifi_add_steps:
  fixes sys :: "'i web_sys"
  assumes "handler_wifi_add e rq sys = Some (out, t)" and "we_task e"
  shows "steps (ws_s sys) (ws_s t) \<and> ws_bm t = ws_bm sys \<and> ws_px t = ws_px sys"
proof -
  have a: "steps (ws_s sys) (snd (wifi_list_add (ws_s sys) n p))" for n p by (rule step1) (rule bs_list_add)
  have k: "steps (ws_s sys) (gw_wifi_kick_deferred True (snd (wifi_list_add (ws_s sys) n p)))" for n p
    using a bs_kick by (rule rtranclp.rtrancl_into_rtrancl)
  show ?thesis
    using assms(1) unfolding handler_wifi_add_def
    by (rule with_body_cases) (use a k assms(2) in \<open>auto simp: case_prod_beta Let_def split: if_splits\<close>)
qed

text \<open>What each page may change.\<close>

definition reading :: "web_page \<Rightarrow> bool" where
  "reading pg \<longleftrightarrow> pg \<in> {PgRoot, PgWifi, PgBm, PgBmEdit, PgName, PgDebug, PgSecurity, PgProxy, PgFavicon}"

definition web_eff :: "web_page \<Rightarrow> 'i web_sys \<Rightarrow> 'i web_sys \<Rightarrow> bool" where
  "web_eff pg sys t \<longleftrightarrow> steps (ws_s sys) (ws_s t) \<and> (reading pg \<longrightarrow> t = sys) \<and>
     (pg \<notin> {PgBmSave, PgBmDel} \<longrightarrow> ws_bm t = ws_bm sys) \<and> (pg \<noteq> PgProxyPost \<longrightarrow> ws_px t = ws_px sys) \<and>
     (cfg_ok (ws_px sys) \<longrightarrow> cfg_ok (ws_px t))"

lemma web_eff_same: "web_eff pg sys sys"
  by (simp add: web_eff_def)

lemma web_eff_s:
  "steps (ws_s sys) s \<Longrightarrow> \<not> reading pg \<Longrightarrow> web_eff pg sys (sys\<lparr>ws_s := s\<rparr>)"
  by (simp add: web_eff_def)

lemma web_eff_bm: "web_eff PgBmSave sys (sys\<lparr>ws_bm := b\<rparr>)" "web_eff PgBmDel sys (sys\<lparr>ws_bm := b\<rparr>)"
  by (simp_all add: web_eff_def reading_def)

lemma web_eff_proxy:
  fixes sys :: "'i web_sys"
  shows "web_eff PgProxyPost sys (save_proxy on host port sys)"
proof -
  have "steps (ws_s sys) ((ws_s sys)\<lparr>wifi_dev := snd (proxy_set on host port (wifi_dev (ws_s sys)))\<rparr>)"
    by (rule step1) (rule bs_proxy)
  moreover have "cfg_ok (fst (proxy_set on host port (wifi_dev (ws_s sys))))"
    by (simp add: proxy_set_def Let_def cfg_apply_ok)
  ultimately show ?thesis by (simp add: web_eff_def reading_def set_proxy_step)
qed

lemma web_eff_posts:
  fixes sys :: "'i web_sys"
  assumes t: "we_task e"
  shows "handler_wifi_add e rq sys = Some (out, t) \<Longrightarrow> web_eff PgWifiAdd sys t"
    "handler_bm_save e rq sys = Some (out, t) \<Longrightarrow> web_eff PgBmSave sys t"
    "handler_name_post e rq sys = Some (out, t) \<Longrightarrow> web_eff PgNamePost sys t"
    "handler_debug_post e rq sys = Some (out, t) \<Longrightarrow> web_eff PgDebugPost sys t"
    "handler_security_post e rq sys = Some (out, t) \<Longrightarrow> web_eff PgSecurityPost sys t"
    "handler_proxy_post e rq sys = Some (out, t) \<Longrightarrow> web_eff PgProxyPost sys t"
proof -
  note steps = bs_name [THEN step1] bs_debug [THEN step1]
  have sec: "steps (ws_s sys) (gw_safe_task_create b RebootTask (ppp_link_secure_save m (ws_s sys)))" for b m
    using step1 [OF bs_secure] bs_reboot by (rule rtranclp.rtrancl_into_rtrancl)
  show "handler_wifi_add e rq sys = Some (out, t) \<Longrightarrow> web_eff PgWifiAdd sys t"
    using wifi_add_steps [OF _ t] by (fastforce simp: web_eff_def reading_def)
  { assume "handler_bm_save e rq sys = Some (out, t)"
    then show "web_eff PgBmSave sys t" unfolding handler_bm_save_def
      by (rule with_body_cases) (auto simp: case_prod_beta Let_def web_eff_same web_eff_bm split: if_splits) }
  { assume "handler_name_post e rq sys = Some (out, t)"
    then show "web_eff PgNamePost sys t" unfolding handler_name_post_def
      by (rule with_body_cases)
        (auto simp: case_prod_beta Let_def web_eff_same reading_def intro!: web_eff_s steps split: if_splits) }
  { assume "handler_debug_post e rq sys = Some (out, t)"
    then show "web_eff PgDebugPost sys t" unfolding handler_debug_post_def
      by (rule with_body_cases) (auto simp: Let_def web_eff_same reading_def intro!: web_eff_s steps) }
  { assume "handler_security_post e rq sys = Some (out, t)"
    then show "web_eff PgSecurityPost sys t" unfolding handler_security_post_def
      by (rule with_body_cases)
        (auto simp: case_prod_beta Let_def web_eff_same reading_def intro!: web_eff_s sec split: if_splits option.splits) }
  { assume "handler_proxy_post e rq sys = Some (out, t)"
    then show "web_eff PgProxyPost sys t" unfolding handler_proxy_post_def
      by (rule with_body_cases)
        (auto simp: case_prod_beta Let_def web_eff_same web_eff_proxy split: if_splits option.splits) }
qed

lemma web_eff_handle:
  fixes sys :: "'i web_sys"
  assumes h: "web_handle pg e rq sys = Some (out, t)" and "pg \<noteq> PgReset" and k: "we_task e"
  shows "web_eff pg sys t"
proof (cases pg)
  case PgWifiDel
  then show ?thesis using h bs_list_remove [THEN step1]
    by (auto simp: web_handle_def handler_wifi_del_def web_eff_same reading_def intro!: web_eff_s split: option.splits)
next
  case PgBmDel
  then show ?thesis using h by (auto simp: web_handle_def handler_bm_del_def web_eff_same web_eff_bm split: option.splits)
next
  case PgReboot
  then show ?thesis using h bs_reboot [THEN step1]
    by (auto simp: web_handle_def handler_reboot_def reading_def intro!: web_eff_s)
qed (use assms in \<open>auto simp: web_handle_def web_eff_same intro: web_eff_posts [OF k]\<close>)

lemma run_steps: "steps s t \<Longrightarrow> bridge_run d s \<Longrightarrow> bridge_run d t"
  by (induction rule: rtranclp_induct) (auto intro: br_step)

section \<open>Routes\<close>

lemma find_distinct:
  "distinct (map k us) \<Longrightarrow> u \<in> set us \<Longrightarrow> find (\<lambda>x. k x = k u) us = Some u"
  by (induction us) auto

lemma uris_distinct: "distinct (map (\<lambda>u. (fst u, fst (snd u))) uris)"
  by (simp add: uris_def)

lemma uris_all: "web_ui_start True = uris"
  by (simp add: web_ui_start_def n_uris_def)

lemma web_route: "(path, m, pg) \<in> set uris \<Longrightarrow> web_request own e m path rq sys = web_handle pg e rq sys"
  using find_distinct [OF uris_distinct, of "(path, m, pg)"] by (simp add: web_request_def uris_all)

lemma web_request_cases:
  assumes "web_request own e m path rq sys = Some (out, t)"
  obtains pg where "(path, m, pg) \<in> set uris" "web_handle pg e rq sys = Some (out, t)" | "t = sys"
proof (cases "find (\<lambda>u. fst u = path \<and> fst (snd u) = m) (web_ui_start True)")
  case None
  then show ?thesis using assms that(2) by (simp add: web_request_def)
next
  case (Some u)
  then obtain i where "i < length uris" "u = uris ! i" "fst u = path" "fst (snd u) = m"
    by (auto simp: find_Some_iff uris_all)
  then have "(path, m, snd (snd u)) \<in> set uris" by (metis nth_mem prod.collapse)
  then show ?thesis using assms Some that(1) by (simp add: web_request_def)
qed

lemma uris_pages:
  "(path, m, pg) \<in> set uris \<Longrightarrow> pg = PgReset \<longleftrightarrow> path = ''/reset''"
  "(path, m, pg) \<in> set uris \<Longrightarrow> reading pg \<longleftrightarrow> m = HTTP_GET \<and> path \<notin> {''/wifi/del'', ''/bm/del'', ''/reset'', ''/reboot''}"
  "(path, m, pg) \<in> set uris \<Longrightarrow> pg \<in> {PgBmSave, PgBmDel} \<longleftrightarrow> path \<in> {''/bm/save'', ''/bm/del''}"
  "(path, m, pg) \<in> set uris \<Longrightarrow> pg = PgProxyPost \<Longrightarrow> path = ''/proxy''"
  "(path, m, pg) \<in> set uris \<Longrightarrow> pg = PgFavicon \<Longrightarrow> path = ''/favicon.ico''"
  by (auto simp: uris_def reading_def)

section \<open>The captive portal\<close>

text \<open>A request for a domain: the Host header neither names the gateway nor is an address.\<close>

definition foreign_host :: "web_env \<Rightarrow> http_req \<Rightarrow> bool" where
  "foreign_host e rq \<longleftrightarrow> (case rq_host rq 64 of None \<Rightarrow> False
     | Some h \<Rightarrow> strstr h GW_IP_STR = None \<and> \<not> we_pton e (takeWhile (\<lambda>c. c \<noteq> CHR '':'') (take 63 h)))"

lemma strchr_takeWhile: "(case strchr s c of None \<Rightarrow> s | Some i \<Rightarrow> take i s) = takeWhile (\<lambda>x. x \<noteq> c) s"
  by (induction s) (auto split: option.splits)

lemma captive_eq:
  "captive_check e rq r = (if foreign_host e rq then (False, snd (redirect_to e gw_url r)) else (True, r))"
proof (cases "rq_host rq 64")
  case (Some h)
  have l: "strlcpy h 64 = take 63 h" by (simp add: strlcpy_def)
  have "(case strchr (strlcpy h 64) CHR '':'' of None \<Rightarrow> strlcpy h 64 | Some i \<Rightarrow> take i (strlcpy h 64)) =
      takeWhile (\<lambda>c. c \<noteq> CHR '':'') (take 63 h)" unfolding l by (rule strchr_takeWhile)
  then show ?thesis using Some by (simp add: captive_check_def foreign_host_def Let_def)
qed (simp add: captive_check_def foreign_host_def)

text \<open>Where a response leads.\<close>

definition leads_to :: "web_out \<Rightarrow> string \<Rightarrow> bool" where
  "leads_to out loc \<longleftrightarrow> rs_status (snd out) = ''302 Found'' \<and> (''Location'', loc) \<in> set (rs_hdrs (snd out))"

definition stays :: "web_out \<Rightarrow> bool" where
  "stays out \<longleftrightarrow> \<not> leads_to out gw_url"

lemma gw_url_eq: "gw_url = ''http://192.168.7.1/''"
  by (simp add: gw_url_def GW_IP_STR_def)

lemma stays_simps:
  "stays (redirect_to e (CHR ''/'' # loc) resp0)"
  "stays (redirect_to e (CHR ''/'' # loc) (set_no_cache ty resp0))"
  "stays (send_page e page (set_no_cache ty resp0))" "stays (c, snd (sendstr e page resp0))" "stays (c, resp0)"
  "stays (handler_favicon e)"
  by (simp_all add: stays_def leads_to_def redirect_to_def sendstr_def send_page_def set_no_cache_def resp0_def no_cache_def
      gw_url_eq handler_favicon_def)

lemma guarded_stays:
  "\<not> foreign_host e rq \<Longrightarrow> guarded e rq f = f (set_no_cache ''text/html'' resp0)"
  "foreign_host e rq \<Longrightarrow> guarded e rq f = (ESP_OK, snd (redirect_to e gw_url resp0))"
  by (simp_all add: guarded_def captive_eq)

lemma body_stays:
  assumes "with_body rq n sys f = Some (out, t)" and "\<And>b. stays (fst (f b))"
  shows "stays out"
  using assms(1)
  by (auto simp: with_body_def stays_simps split: option.splits) (metis assms(2) fst_conv)

lemma posts_stay:
  assumes "web_handle pg e rq sys = Some (out, t)" and "\<not> reading pg"
  shows "stays out"
proof -
  have p1: "stays out" if "handler_wifi_add e rq sys = Some (out, t)"
    using that unfolding handler_wifi_add_def by (rule body_stays) (auto simp: stays_simps case_prod_beta Let_def split: option.split)
  have p2: "stays out" if "handler_bm_save e rq sys = Some (out, t)"
    using that unfolding handler_bm_save_def by (rule body_stays) (auto simp: stays_simps case_prod_beta Let_def split: option.split)
  have p3: "stays out" if "handler_name_post e rq sys = Some (out, t)"
    using that unfolding handler_name_post_def by (rule body_stays) (auto simp: stays_simps case_prod_beta Let_def split: option.split)
  have p4: "stays out" if "handler_debug_post e rq sys = Some (out, t)"
    using that unfolding handler_debug_post_def by (rule body_stays) (auto simp: stays_simps case_prod_beta Let_def split: option.split)
  have p5: "stays out" if "handler_security_post e rq sys = Some (out, t)"
    using that unfolding handler_security_post_def by (rule body_stays) (auto simp: stays_simps case_prod_beta Let_def split: option.split)
  have p6: "stays out" if "handler_proxy_post e rq sys = Some (out, t)"
    using that unfolding handler_proxy_post_def by (rule body_stays) (simp add: stays_simps case_prod_beta)
  show ?thesis
    using assms
    by (cases pg) (auto simp: web_handle_def reading_def handler_bm_del_def handler_wifi_del_def handler_reset_def
        handler_reboot_def stays_simps intro: p1 p2 p3 p4 p5 p6)
qed

lemma gets_stay:
  assumes "web_handle pg e rq sys = Some (out, t)" and "reading pg" and "\<not> foreign_host e rq"
  shows "stays out"
  using assms
  by (cases pg) (auto simp: web_handle_def reading_def handler_root_def handler_wifi_get_def handler_bm_get_def
      handler_bm_edit_def handler_name_get_def handler_debug_get_def handler_security_get_def handler_proxy_get_def
      guarded_stays(1) stays_simps Let_def)

lemma gets_bounce:
  assumes "reading pg" and "pg \<noteq> PgFavicon" and "foreign_host e rq"
  shows "web_handle pg e rq sys = Some ((ESP_OK, snd (redirect_to e gw_url resp0)), sys)"
  using assms
  by (cases pg) (auto simp: web_handle_def reading_def handler_root_def handler_wifi_get_def handler_bm_get_def
      handler_bm_edit_def handler_name_get_def handler_debug_get_def handler_security_get_def handler_proxy_get_def
      guarded_stays(2))

section \<open>Properties\<close>

text \<open>C11: The captive portal.  Every page in the table is reached under its path and method.  A browser that gets one of
  the pages that are only looked at (the root, the lists, the forms) under the name of some domain, or asks in any way
  for a path the bridge does not have, is sent to the bridge's own
  address with an empty answer that must not be cached, and nothing changes; the actions (deleting an entry, the reset, the reboot
  and the posted forms) and the icon are not bounced and are carried out under any name.  No page asked for at
  that address (or any other literal address) sends the browser there again, so there is no loop.\<close>

theorem web_captive_portal:
  fixes sys :: "'i web_sys"
  shows "((path, m, pg) \<in> set uris \<longrightarrow> web_request own e m path rq sys = web_handle pg e rq sys) \<and>
    ((path, HTTP_GET, pg) \<in> set uris \<and> path \<notin> {''/wifi/del'', ''/bm/del'', ''/reset'', ''/reboot'', ''/favicon.ico''} \<and>
      foreign_host e rq \<longrightarrow>
      (\<exists>r. web_request own e HTTP_GET path rq sys = Some ((ESP_OK, r), sys) \<and> rs_sent r = [[]] \<and>
         leads_to (ESP_OK, r) ''http://192.168.7.1/'' \<and> no_cache \<in> set (rs_hdrs r))) \<and>
    (path \<notin> fst ` set uris \<longrightarrow>
      (\<exists>c r. web_request own e m path rq sys = Some ((c, r), sys) \<and> rs_sent r = [[]] \<and>
         leads_to (c, r) ''http://192.168.7.1/'' \<and> no_cache \<in> set (rs_hdrs r))) \<and>
    ((path, m, pg) \<in> set uris \<and> \<not> foreign_host e rq \<and> web_request own e m path rq sys = Some (out, t) \<longrightarrow>
      \<not> leads_to out ''http://192.168.7.1/'')"
proof (rule conjI4; (intro impI)?)
  show "(path, m, pg) \<in> set uris \<Longrightarrow> web_request own e m path rq sys = web_handle pg e rq sys" by (rule web_route)
  let ?r = "snd (redirect_to e gw_url resp0)"
  have r: "rs_sent ?r = [[]]" "leads_to (c, ?r) ''http://192.168.7.1/''" "no_cache \<in> set (rs_hdrs ?r)" for c
    by (simp_all add: redirect_to_def sendstr_def resp0_def leads_to_def gw_url_eq)
  { assume a: "(path, HTTP_GET, pg) \<in> set uris \<and> path \<notin> {''/wifi/del'', ''/bm/del'', ''/reset'', ''/reboot'', ''/favicon.ico''} \<and>
      foreign_host e rq"
    then have u: "(path, HTTP_GET, pg) \<in> set uris" by blast
    have "reading pg" "pg \<noteq> PgFavicon" using uris_pages(2,5) [OF u] a by auto
    then show "\<exists>r. web_request own e HTTP_GET path rq sys = Some ((ESP_OK, r), sys) \<and> rs_sent r = [[]] \<and>
         leads_to (ESP_OK, r) ''http://192.168.7.1/'' \<and> no_cache \<in> set (rs_hdrs r)"
      using a web_route gets_bounce r by metis }
  { assume "path \<notin> fst ` set uris"
    then have n: "\<not> (\<exists>u\<in>set uris. fst u = path)" by (metis image_eqI)
    then have "find (\<lambda>u. fst u = path \<and> fst (snd u) = m) uris = None" by (auto simp: find_None_iff)
    then have "web_request own e m path rq sys = Some (redirect_to e gw_url resp0, sys)"
      using n by (simp add: web_request_def uris_all handler_404_def)
    then show "\<exists>c r. web_request own e m path rq sys = Some ((c, r), sys) \<and> rs_sent r = [[]] \<and>
         leads_to (c, r) ''http://192.168.7.1/'' \<and> no_cache \<in> set (rs_hdrs r)"
      using r by (metis prod.collapse) }
  { assume a: "(path, m, pg) \<in> set uris \<and> \<not> foreign_host e rq \<and> web_request own e m path rq sys = Some (out, t)"
    then have "web_handle pg e rq sys = Some (out, t)" using web_route by metis
    then show "\<not> leads_to out ''http://192.168.7.1/''"
      using gets_stay posts_stay a by (metis stays_def gw_url_eq) }
qed

theorem web_captive_portal_witness:
  "\<exists>r. web_request (ESP_OK, resp0) demo_env HTTP_GET ''/'' (demo_req\<lparr>rq_host := \<lambda>n. Some ''wap.yahoo.com:80''\<rparr>) demo_sys =
     Some ((ESP_OK, r), demo_sys) \<and> leads_to (ESP_OK, r) ''http://192.168.7.1/''"
proof -
  have "strstr ''wap.yahoo.com:80'' GW_IP_STR = None" unfolding GW_IP_STR_def by code_simp
  then have "foreign_host demo_env (demo_req\<lparr>rq_host := \<lambda>n. Some ''wap.yahoo.com:80''\<rparr>)" by (simp add: foreign_host_def)
  moreover have "(''/'', HTTP_GET, PgRoot) \<in> set uris" by (simp add: uris_def)
  ultimately show ?thesis
    using web_captive_portal [of "''/''" HTTP_GET PgRoot "(ESP_OK, resp0)" demo_env _ demo_sys, THEN conjunct2, THEN conjunct1]
    by blast
qed

text \<open>C6: Requests are steps of the bridge.  Whatever a browser asks for, other than the reset of the list of
  networks: the bridge stays in a state its invariants hold in; a page that is only looked at changes
  nothing; only the two bookmark actions change the bookmarks and only the proxy form the proxy
  settings, which stay well-formed.\<close>

theorem web_requests_safe:
  fixes sys :: "'i web_sys"
  assumes run: "bridge_run d (ws_s sys)" and r: "web_request own e m path rq sys = Some (out, t)"
    and task: "we_task e" and path: "path \<noteq> ''/reset''"
  shows "bridge_run d (ws_s t) \<and>
    (m = HTTP_GET \<and> path \<notin> {''/wifi/del'', ''/bm/del'', ''/reboot''} \<longrightarrow> t = sys) \<and>
    (path \<notin> {''/bm/save'', ''/bm/del''} \<longrightarrow> ws_bm t = ws_bm sys) \<and>
    (path \<noteq> ''/proxy'' \<longrightarrow> ws_px t = ws_px sys) \<and>
    (cfg_ok (ws_px sys) \<longrightarrow> cfg_ok (ws_px t))"
  using r
proof (cases rule: web_request_cases)
  case (1 pg)
  note u = uris_pages [OF 1(1)]
  have "web_eff pg sys t" using web_eff_handle [OF 1(2) _ task] u(1) path by simp
  then have e: "steps (ws_s sys) (ws_s t)" "reading pg \<Longrightarrow> t = sys" "pg \<notin> {PgBmSave, PgBmDel} \<Longrightarrow> ws_bm t = ws_bm sys"
    "pg \<noteq> PgProxyPost \<Longrightarrow> ws_px t = ws_px sys" "cfg_ok (ws_px sys) \<Longrightarrow> cfg_ok (ws_px t)"
    by (simp_all add: web_eff_def)
  show ?thesis
  proof (rule conjI5; (intro impI)?)
    show "bridge_run d (ws_s t)" by (rule run_steps [OF e(1) run])
    show "m = HTTP_GET \<and> path \<notin> {''/wifi/del'', ''/bm/del'', ''/reboot''} \<Longrightarrow> t = sys"
      using e(2) u(2) path by blast
    show "path \<notin> {''/bm/save'', ''/bm/del''} \<Longrightarrow> ws_bm t = ws_bm sys" using e(3) u(3) by blast
    show "path \<noteq> ''/proxy'' \<Longrightarrow> ws_px t = ws_px sys" using e(4) u(4) by blast
  qed (rule e(5))
qed (use run in simp)

theorem web_requests_safe_witness:
  "\<exists>(sys :: (string \<rightharpoonup> wifi_list_t nvs_val) web_sys) out t.
     web_request (ESP_OK, resp0) demo_env HTTP_GET ''/reboot'' demo_req sys = Some (out, t) \<and>
     bridge_run map_dev (ws_s t) \<and> RebootTask \<in> set (tasks (ws_s t)) \<and> ws_bm t = ws_bm sys"
proof -
  let ?d = "map_dev :: (string \<rightharpoonup> wifi_list_t nvs_val, wifi_list_t) nvs_dev"
  obtain s rest where "btstack_main main_env_good (ppp_boot ?d, bm_fresh ?d, demo_dns) = Some (s, rest)"
    by (rule bring_up_succeeds [OF main_env_good_sel])
  then have "bridge_run ?d s" by (rule br_start)
  moreover define sys where "sys = demo_sys\<lparr>ws_s := s\<rparr>"
  ultimately have r: "bridge_run ?d (ws_s sys)" by simp
  obtain out t where h: "handler_reboot demo_env sys = (out, t)" by fastforce
  have w: "web_request (ESP_OK, resp0) demo_env HTTP_GET ''/reboot'' demo_req sys = Some (out, t)"
    using web_route [of "''/reboot''" HTTP_GET PgReboot "(ESP_OK, resp0)" demo_env demo_req sys]
    by (simp add: uris_def web_handle_def h)
  have "RebootTask \<in> set (tasks (ws_s t))"
    using h by (auto simp: handler_reboot_def gw_safe_task_create_def)
  moreover have "we_task demo_env" by simp
  ultimately show ?thesis using web_requests_safe [OF r w] w
    by (intro exI [of _ sys] exI [of _ out] exI [of _ t]) simp
qed

text \<open>C26: A form that is not complete has no effect.  When the connection breaks before the body is there, the
  handler fails without an answer; when the one field a form cannot do without is missing, it leads
  back to its page; either way nothing is changed.\<close>

theorem web_form_incomplete:
  fixes sys :: "'i web_sys"
  assumes "post_of pg = Some (n, needed, back)" and "qkv_ok (we_qkv e)"
  shows "(broken rq n \<longrightarrow> web_handle pg e rq sys = Some ((ESP_FAIL (-1), resp0), sys)) \<and>
    (needed = Some key \<and> carries rq fs \<and> length (form_body fs) < n \<and> map_of fs key = None \<longrightarrow>
      web_handle pg e rq sys = Some (redirect_to e back resp0, sys))"
  using post_broken [OF assms(1)] post_missing [OF _ _ assms(2)] assms(1) by blast

theorem web_form_incomplete_witness:
  "web_handle PgNamePost demo_env (demo_req\<lparr>rq_len := 20, rq_recv := [RecvTimeout, RecvData ''name=Blue'', RecvError]\<rparr>)
     demo_sys = Some ((ESP_FAIL (-1), resp0), demo_sys)"
proof -
  have p: "post_of PgNamePost = Some (192, Some ''name'', ''/name'')" by (simp add: post_of_def)
  have "broken (demo_req\<lparr>rq_len := 20, rq_recv := [RecvTimeout, RecvData ''name=Blue'', RecvError]\<rparr>) 192"
    unfolding broken_def
    by (rule exI [of _ "[RecvTimeout, RecvData ''name=Blue'']"]) (simp add: recv_bytes_def)
  moreover have "qkv_ok (we_qkv demo_env)" by (simp add: qkv_spec_ok)
  ultimately show ?thesis
    using web_form_incomplete [where e = demo_env and sys = demo_sys, OF p, THEN conjunct1] by blast
qed

text \<open>C12: What is typed is what is stored.  A form a browser sends, with its fields in any order, its body in any
  pieces, and every byte but NUL in its values: the bookmark form asks the list to store exactly the
  title and address under the index it was shown with, the name form sets exactly the name, and the
  network form adds exactly the network, as long as the encoded values fit the buffers.\<close>

theorem web_forms_store:
  fixes sys :: "'i web_sys"
  assumes c: "carries rq fs" and q: "qkv_ok (we_qkv e)"
  shows "(length (form_body fs) < 1024 \<and> map_of fs ''i'' = Some (dec_int k) \<and> -1 \<le> k \<and> k < int BM_MAX \<and>
      sends fs ''title'' t 128 \<and> sends fs ''url'' u 512 \<longrightarrow>
      (\<exists>out. web_handle PgBmSave e rq sys =
         Some (out, sys\<lparr>ws_bm := snd (bookmarks_set (ws_bm sys) k (Some t) (Some u))\<rparr>))) \<and>
    (length (form_body fs) < 192 \<and> sends fs ''name'' v 128 \<longrightarrow>
      (\<exists>out. web_handle PgNamePost e rq sys = Some (out, sys\<lparr>ws_s := bt_name_set (Some v) (ws_s sys)\<rparr>))) \<and>
    (length (form_body fs) < 256 \<and> sends fs ''ssid'' n 64 \<and> sends fs ''pass'' p 80 \<longrightarrow>
      (\<exists>out w. web_handle PgWifiAdd e rq sys = Some (out, sys\<lparr>ws_s := w\<rparr>) \<and>
         (let (added, s) = wifi_list_add (ws_s sys) (Some n) (Some p) in w = s \<or>
            added \<and> \<not> get_wifi_connected s \<and> ppp_link_up s \<and> w = gw_wifi_kick_deferred (we_task e) s)))"
proof (intro conjI impI)
  { assume a: "length (form_body fs) < 1024 \<and> map_of fs ''i'' = Some (dec_int k) \<and> -1 \<le> k \<and> k < int BM_MAX \<and>
      sends fs ''title'' t 128 \<and> sends fs ''url'' u 512"
    then have "k < 1000000" by (simp add: BM_MAX_def)
    then show "\<exists>out. web_handle PgBmSave e rq sys =
         Some (out, sys\<lparr>ws_bm := snd (bookmarks_set (ws_bm sys) k (Some t) (Some u))\<rparr>)"
      using a bm_save_stores [OF c q, of k t u sys] by (auto simp: web_handle_def sends_def) }
  { assume "length (form_body fs) < 192 \<and> sends fs ''name'' v 128"
    then show "\<exists>out. web_handle PgNamePost e rq sys = Some (out, sys\<lparr>ws_s := bt_name_set (Some v) (ws_s sys)\<rparr>)"
      using name_post_stores [OF c q, of v sys] by (auto simp: web_handle_def sends_def) }
  { assume "length (form_body fs) < 256 \<and> sends fs ''ssid'' n 64 \<and> sends fs ''pass'' p 80"
    then have "web_handle PgWifiAdd e rq sys = Some (redirect_to e ''/wifi'' resp0, sys\<lparr>ws_s :=
     (let (added, s) = wifi_list_add (ws_s sys) (Some n) (Some p)
      in if added \<and> \<not> get_wifi_connected s \<and> wifi_list_count s > 0 \<and> ppp_link_up s
         then gw_wifi_kick_deferred (we_task e) s else s)\<rparr>)"
      using wifi_add_stores [OF c q, of n p sys] by (simp add: web_handle_def sends_def)
    then show "\<exists>out w. web_handle PgWifiAdd e rq sys = Some (out, sys\<lparr>ws_s := w\<rparr>) \<and>
         (let (added, s) = wifi_list_add (ws_s sys) (Some n) (Some p) in w = s \<or>
            added \<and> \<not> get_wifi_connected s \<and> ppp_link_up s \<and> w = gw_wifi_kick_deferred (we_task e) s)"
      by (intro exI conjI, assumption) (simp add: case_prod_beta) }
qed

theorem web_forms_store_witness:
  "\<exists>out t. web_handle PgNamePost demo_env (demo_req\<lparr>rq_len := 12, rq_recv := [RecvData ''name=A'', RecvTimeout, RecvData ''+%26+B'']\<rparr>)
     demo_sys = Some (out, t) \<and> name_custom (ws_s t) = ''A & B''"
proof -
  let ?rq = "demo_req\<lparr>rq_len := 12, rq_recv := [RecvData ''name=A'', RecvTimeout, RecvData ''+%26+B'']\<rparr>"
  let ?fs = "[(''name'', ''A+%26+B'')]"
  have c: "carries ?rq ?fs"
    by (auto simp: carries_def form_ok_def form_field_def recv_bytes_def)
  have "form_encode ''A & B'' = ''A+%26+B''" by code_simp
  then have s: "sends ?fs ''name'' ''A & B'' 128" by (simp add: sends_def clean_def)
  have n: "name_clean (Some ''A & B'') = ''A & B''" "strlcpy ''A & B'' BT_NAME_MAX = ''A & B''" by code_simp+
  have "length (form_body ?fs) < 192" by (simp add: form_field_def)
  then have "\<exists>out. web_handle PgNamePost demo_env ?rq demo_sys =
      Some (out, demo_sys\<lparr>ws_s := bt_name_set (Some ''A & B'') (ws_s demo_sys)\<rparr>)"
    using web_forms_store [where e = demo_env and sys = demo_sys, OF c, THEN conjunct2, THEN conjunct1] s by (simp add: qkv_spec_ok)
  moreover have "name_custom (bt_name_set (Some ''A & B'') s) = ''A & B''" for s :: "(string \<rightharpoonup> wifi_list_t nvs_val) ppp_st"
    by (simp add: bt_name_set_def n Let_def spawn_def)
  ultimately show ?thesis by fastforce
qed

text \<open>C25: Text from settings and networks cannot break out of a page: the escaped text has no markup character,
  fits its buffer, and a browser shows the text itself, or the start of it when the buffer is too
  small; a buffer of six times the size always takes it all, as \<open>html_escape_len\<close> counts.\<close>

theorem html_escape_safe:
  assumes "0 < n"
  shows "set (html_escape s n) \<inter> {CHR ''<'', CHR ''>'', CHR 0x22} = {} \<and> length (html_escape s n) < n \<and>
    (\<exists>k. html_unescape (html_escape s n) = take k s) \<and>
    (length s < m \<longrightarrow> html_unescape (html_escape s (m * 6)) = s \<and> length (html_escape s (m * 6)) = html_escape_len s)"
  using length_html_escape [OF assms] escs_markup html_unescape_escs html_escape_6 length_escs
  by (auto simp: html_escape_eq)

theorem html_escape_safe_witness:
  "set (html_escape ''<b>Tom & Co'' 12) \<inter> {CHR ''<'', CHR ''>'', CHR 0x22} = {} \<and>
   html_unescape (html_escape ''<b>Tom & Co'' (12 * 6)) = ''<b>Tom & Co''"
  using html_escape_safe [of 12 "''<b>Tom & Co''" 12] by simp

text \<open>C20: The security form.  A word that is no mode, or the mode in effect, changes nothing; another mode is
  saved and a reboot queued, the mode in effect stays until then, and the reboot comes up in the new
  mode with every other setting as it was.\<close>

definition mode_word :: "string \<Rightarrow> btsec_mode_t option" where
  "mode_word v = (if v = ''on'' then Some BTSEC_ON else if v = ''off'' then Some BTSEC_OFF
     else if v = ''auto'' then Some BTSEC_AUTO else None)"

lemma mode_word_short: "8 \<le> length v \<Longrightarrow> mode_word v = None"
  by (auto simp: mode_word_def)

lemma security_post_eq:
  assumes c: "carries rq fs" and q: "qkv_ok (we_qkv e)" and l: "length (form_body fs) < 64" and v: "map_of fs ''sec'' = Some v"
  shows "web_handle PgSecurityPost e rq sys = Some (
    case mode_word v of None \<Rightarrow> (redirect_to e ''/security'' resp0, sys)
    | Some mode \<Rightarrow> if mode = ppp_link_secure_get (ws_s sys) then (redirect_to e ''/security'' resp0, sys)
        else ((ESP_OK, snd (sendstr e saved_page resp0)),
          sys\<lparr>ws_s := gw_safe_task_create (we_task e) RebootTask (ppp_link_secure_save mode (ws_s sys))\<rparr>))"
proof (cases "length v < 8")
  case True
  show ?thesis
    unfolding web_handle_def handler_security_post_def web_page.case carries_body [OF c l]
    by (simp add: field_whole [OF c q v True] mode_word_def [symmetric] Let_def split: option.split)
next
  case False
  have "we_qkv e (form_body fs) ''sec'' 8 = (False, take 7 v)" using carries_value [OF c q, of 8 "''sec''"] v False by simp
  then show ?thesis
    unfolding web_handle_def handler_security_post_def web_page.case carries_body [OF c l]
    using False by (simp add: mode_word_short)
qed

theorem web_security_form:
  fixes sys :: "'i web_sys" and b :: "'i ppp_st"
  assumes f: "carries rq fs" "qkv_ok (we_qkv e)" "length (form_body fs) < 64" "map_of fs ''sec'' = Some v"
    and acc: "dev_accepts (wifi_dev (ws_s sys))" and task: "we_task e"
    and h: "web_handle PgSecurityPost e rq sys = Some (out, t)"
    and boot: "btstack_main m (ppp_boot (wifi_dev (ws_s t)), bm, d) = Some (b, bm', d', px)"
  shows "case mode_word v of
      None \<Rightarrow> t = sys
    | Some mode \<Rightarrow>
        if mode = ppp_link_secure_get (ws_s sys) then t = sys
        else rs_sent (snd out) = [saved_page] \<and> ppp_link_secure_get (ws_s t) = ppp_link_secure_get (ws_s sys) \<and>
          RebootTask \<in> set (tasks (ws_s t)) \<and> link_mode b = mode \<and>
          stored (wifi_dev b) = (stored (wifi_dev (ws_s sys)))\<lparr>st_mode := mode\<rparr>"
proof -
  have z: "name_custom (ppp_boot x) = []" "dbg_flags (ppp_boot x) = 0" for x :: "('i, wifi_list_t) nvs_dev"
    by (simp_all add: ppp_boot_defs)
  note start = start_settings(3,5) [OF boot z]
  have st: "stored (nvs_secure_save k (wifi_dev (ws_s sys))) = (stored (wifi_dev (ws_s sys)))\<lparr>st_mode := k\<rparr>" for k
    using set_steps_stored [OF acc, of "[SetMode k]"] by (simp add: op_legal_def ppp_link_secure_save_def)
  have "rs_sent resp0 = []" by (simp add: resp0_def)
  then show ?thesis
    using h start unfolding security_post_eq [OF f]
    by (auto simp: sendstr_def ppp_link_secure_get_def task gw_safe_task_create_def st ppp_link_secure_save_def
        split: option.split)
qed

theorem web_security_form_witness:
  "\<exists>out t b bm d px. web_handle PgSecurityPost demo_env (demo_req\<lparr>rq_len := 6, rq_recv := [RecvData ''sec=on'']\<rparr>) demo_sys =
     Some (out, t) \<and>
     btstack_main main_env_good (ppp_boot (wifi_dev (ws_s t)), bm_fresh map_dev, demo_dns) = Some (b, bm, d, px) \<and>
     link_mode b = BTSEC_ON"
proof -
  let ?rq = "demo_req\<lparr>rq_len := 6, rq_recv := [RecvData ''sec=on'']\<rparr>"
  let ?fs = "[(''sec'', ''on'')]"
  have f: "carries ?rq ?fs" "qkv_ok (we_qkv demo_env)" "length (form_body ?fs) < 64" "map_of ?fs ''sec'' = Some ''on''"
    by (auto simp: carries_def form_ok_def form_field_def recv_bytes_def qkv_spec_ok)
  have acc: "dev_accepts (wifi_dev (ws_s demo_sys))" using dev_accepts_map [of Map.empty] by (simp add: map_dev_def)
  obtain out t where h: "web_handle PgSecurityPost demo_env ?rq demo_sys = Some (out, t)"
    unfolding security_post_eq [OF f] by fastforce
  obtain b bm d px where b: "btstack_main main_env_good (ppp_boot (wifi_dev (ws_s t)), bm_fresh map_dev, demo_dns) =
      Some (b, bm, d, px)" by (rule bring_up_succeeds [OF main_env_good_sel])
  have "we_task demo_env" by simp
  from web_security_form [OF f acc this h b] show ?thesis
    using h b by (auto simp: mode_word_def ppp_link_secure_get_def)
qed

end
