(* ===== verification/WebLists.thy ===== *)
theory WebLists
  imports WebProps
begin

text \<open>
  The two lists on the setup pages of \<open>main/web_ui.c\<close>: the pages show exactly the saved entries, numbered
  as the modules number them, and the link behind an entry deletes that entry.
\<close>

section \<open>What a page prints\<close>

context saved_list
begin

text \<open>The loop of a page over a saved list.\<close>

lemma rows:
  assumes "inv s"
  shows "concat (map (\<lambda>i. case get s (int i) of None \<Rightarrow> [] | Some v \<Rightarrow> f i v) [0..<count s]) =
    concat (map (\<lambda>(i, x). f i (view x)) (enumerate 0 (entries s)))"
proof -
  have "map (\<lambda>i. case get s (int i) of None \<Rightarrow> [] | Some v \<Rightarrow> f i v) [0..<count s] =
      map (\<lambda>(i, x). f i (view x)) (enumerate 0 (entries s))"
    by (rule nth_equalityI) (simp_all add: assms count get_in nth_enumerate_eq)
  then show ?thesis by (rule arg_cong)
qed

text \<open>Deleting through a number that is on the page.\<close>

lemma remove_shown:
  assumes "inv s" and "remove s (int i) = (True, t)"
  shows "entries t = remove_nth i (entries s) \<and> inv t"
  using remove_ok [OF assms] by simp

end

lemma bm_list_fits:
  assumes "bm_inv bm" and "b \<in> set (bm_list bm)"
  shows "length (bm_title b) < BM_TITLE_MAX" and "length (bm_url b) < BM_URL_MAX"
proof -
  obtain bs where v: "bm_view bm bs" using assms(1) by (auto simp: bm_inv_def)
  then have "valid_bm b" using assms(2) bm_list_view [OF v] by (auto simp: bm_view_def slots_def in_set_conv_nth)
  then show "length (bm_title b) < BM_TITLE_MAX" "length (bm_url b) < BM_URL_MAX"
    by (simp_all add: valid_bm_def valid_url_def)
qed

lemma label_titled:
  assumes "bm_inv bm" and "b \<in> set (bm_list bm)" and "bm_title b \<noteq> []"
  shows "label_of b = (escs (bm_url b), escs (bm_title b))"
  using bm_list_fits [OF assms(1,2)] assms(3) by (simp add: label_of_def bm_escape_def html_escape_6 Let_def)

lemma bm_page_rows:
  assumes inv: "bm_inv bm" and t: "titled bm" and "bm_list bm \<noteq> []"
  shows "bm_page err bm = bm_head @ (if err then bm_err else []) @ bm_open_div @
    concat (map (\<lambda>(i, b). bm_row (int i) (escs (bm_url b)) (escs (bm_title b))) (enumerate 0 (bm_list bm))) @ bm_close_div @
    bm_foot (int (length (bm_list bm))) (if length (bm_list bm) < BM_MAX then bm_add_link else bm_full)"
proof -
  have c: "bookmarks_count bm = length (bm_list bm)" by (rule bml.count [OF inv])
  have "bm_title b \<noteq> []" if "b \<in> set (bm_list bm)" for b
    using that t bml.get_in [OF inv] by (auto simp: in_set_conv_nth titled_def c)
  then have l: "label_of b = (escs (bm_url b), escs (bm_title b))" if "b \<in> set (bm_list bm)" for b
    using label_titled [OF inv that] that by blast
  have "concat (map (\<lambda>i. case bookmarks_get bm (int i) of None \<Rightarrow> []
        | Some b \<Rightarrow> bm_row (int i) (fst (label_of b)) (snd (label_of b))) [0..<bookmarks_count bm]) =
      concat (map (\<lambda>(i, b). bm_row (int i) (escs (bm_url b)) (escs (bm_title b))) (enumerate 0 (bm_list bm)))"
    unfolding bml.rows [OF inv]
    by (rule arg_cong [where f = concat]) (auto simp: l in_set_enumerate_eq)
  then have "bm_text err bm = bm_head @ (if err then bm_err else []) @ bm_open_div @
    concat (map (\<lambda>(i, b). bm_row (int i) (escs (bm_url b)) (escs (bm_title b))) (enumerate 0 (bm_list bm))) @ bm_close_div @
    bm_foot (int (length (bm_list bm))) (if length (bm_list bm) < BM_MAX then bm_add_link else bm_full)"
    using assms(3) by (simp add: bm_text_def c)
  moreover have "length (bm_text err bm) < 3072 + bm_escaped_total bm * 2 + bookmarks_count bm * 160"
    using length_bm_text [OF t, of err] bml.count_le [OF inv] by simp
  ultimately show ?thesis using page_at_fits by (simp add: bm_page_eq)
qed

lemma wifi_page_rows:
  assumes ok: "wl_ok (wifi_list s)" and "wifi_nets s \<noteq> []"
  shows "wifi_page s = wifi_head @ (if app_state s = APP_WIFI_FAILED then wifi_failed else []) @ wifi_open_div @
    concat (map (\<lambda>(i, c). wifi_row (int i) (html_escape (c_ssid c) 80)) (enumerate 0 (wifi_nets s))) @ wifi_close_div @
    wifi_foot (int (length (wifi_nets s)))"
proof -
  have c: "wifi_list_count s = length (wifi_nets s)" by (rule wll.count [OF ok])
  note r = wll.rows [OF ok, of "\<lambda>i ssid. wifi_row (int i) (html_escape ssid 80)"]
  have "wifi_list_count s \<le> WIFI_LIST_MAX" by (rule wll.count_le [OF ok])
  from page_at_fits [OF length_wifi_text [OF this]] show ?thesis
    using assms(2) unfolding wifi_page_eq wifi_text_def r by (simp add: c)
qed

section \<open>What the links do\<close>

lemma form_ok_index: "form_ok [(''i'', dec_int (int i))]"
proof -
  have "c \<noteq> CHR ''&'' \<and> c \<noteq> CHR ''=''" if "c \<in> set (dec i)" for c using dec_ascii [OF that] by auto
  then show ?thesis by (auto simp: form_ok_def dec_int_def)
qed

lemma query_index:
  assumes q: "qkv_ok (we_qkv e)" and rq: "rq_query rq 32 = Some (''i='' @ dec_int (int i))" and i: "i < 1000000"
  shows "query_val e rq ''i'' = Some (dec_int (int i))" and "atoi (dec_int (int i)) = int i"
proof -
  have l: "length (dec_int (int i)) < 8" using length_dec [of i 6] i by (simp add: dec_int_def)
  have b: "form_body [(''i'', dec_int (int i))] = ''i='' @ dec_int (int i)" by (simp add: form_field_def)
  have "we_qkv e (''i='' @ dec_int (int i)) ''i'' 8 = (True, dec_int (int i))"
    using q form_ok_index [of i] l unfolding b [symmetric] qkv_ok_def by fastforce
  then show "query_val e rq ''i'' = Some (dec_int (int i))" using rq by (simp add: query_val_def)
  show "atoi (dec_int (int i)) = int i" using i by (intro atoi_dec_int) auto
qed

lemma wifi_remove_in: "wl_ok (wifi_list s) \<Longrightarrow> i < length (wifi_nets s) \<Longrightarrow> fst (wifi_list_remove s (int i))"
  using length_nets [of "wifi_list s"] by (simp add: wifi_list_remove_def wifi_nets_def Let_def)

section \<open>Properties\<close>

text \<open>C8: The lists on the pages.  When there are entries, and every bookmark has a name (a nameless one can make the
  page be cut off), the bookmark page and the network page show every saved entry, in order, under
  its number and with its text escaped, between fixed texts; and the link behind entry number i asks
  for exactly entry i to be deleted: the networks are then the old ones without it, and so are the
  bookmarks when the flash takes the change, and nothing else is touched.\<close>

theorem web_lists:
  fixes sys :: "'i web_sys"
  assumes bm: "bm_inv (ws_bm sys)" "titled (ws_bm sys)" and wl: "wl_ok (wifi_list (ws_s sys))"
    and q: "qkv_ok (we_qkv e)" and rq: "rq_query rq 32 = Some (''i='' @ dec_int (int i))"
  defines "bs \<equiv> bm_list (ws_bm sys)" and "ns \<equiv> wifi_nets (ws_s sys)"
  shows "(bs \<noteq> [] \<longrightarrow> bm_page False (ws_bm sys) = bm_head @ bm_open_div @
      concat (map (\<lambda>(k, b). bm_row (int k) (escs (bm_url b)) (escs (bm_title b))) (enumerate 0 bs)) @ bm_close_div @
      bm_foot (int (length bs)) (if length bs < BM_MAX then bm_add_link else bm_full)) \<and>
    (ns \<noteq> [] \<longrightarrow> wifi_page (ws_s sys) =
      wifi_head @ (if app_state (ws_s sys) = APP_WIFI_FAILED then wifi_failed else []) @ wifi_open_div @
      concat (map (\<lambda>(k, c). wifi_row (int k) (html_escape (c_ssid c) 80)) (enumerate 0 ns)) @ wifi_close_div @
      wifi_foot (int (length ns))) \<and>
    (i < length bs \<and> fst (bookmarks_remove (ws_bm sys) (int i)) \<longrightarrow>
      (\<exists>out t. web_request own e HTTP_GET ''/bm/del'' rq sys = Some (out, t) \<and>
        bm_list (ws_bm t) = remove_nth i bs \<and> ws_s t = ws_s sys)) \<and>
    (i < length ns \<longrightarrow>
      (\<exists>out t. web_request own e HTTP_GET ''/wifi/del'' rq sys = Some (out, t) \<and>
        wifi_nets (ws_s t) = remove_nth i ns \<and> ws_bm t = ws_bm sys))"
proof (rule conjI4; (intro impI)?)
  { assume a: "i < length bs \<and> fst (bookmarks_remove (ws_bm sys) (int i))"
    have "length bs \<le> BM_MAX" unfolding bs_def by (rule bml.bound [OF bm(1)])
    then have i: "i < 1000000" using a by (simp add: BM_MAX_def)
    obtain b where b: "bookmarks_remove (ws_bm sys) (int i) = (True, b)" using a by (metis prod.collapse)
    have "web_request own e HTTP_GET ''/bm/del'' rq sys = Some (redirect_to e ''/bm'' resp0, sys\<lparr>ws_bm := b\<rparr>)"
      using web_route [of "''/bm/del''" HTTP_GET PgBmDel own e rq sys]
      by (simp add: uris_def web_handle_def handler_bm_del_def query_index [OF q rq i] b)
    then show "\<exists>out t. web_request own e HTTP_GET ''/bm/del'' rq sys = Some (out, t) \<and>
        bm_list (ws_bm t) = remove_nth i bs \<and> ws_s t = ws_s sys"
      using bml.remove_shown [OF bm(1) b] by (simp add: bs_def) }
  { assume a: "i < length ns"
    have "length ns \<le> WIFI_LIST_MAX" unfolding ns_def by (rule wll.bound [OF wl])
    then have i: "i < 1000000" using a by (simp add: WIFI_LIST_MAX_def)
    obtain u where u: "wifi_list_remove (ws_s sys) (int i) = (True, u)"
      using wifi_remove_in [OF wl] a unfolding ns_def by (metis prod.collapse)
    have "web_request own e HTTP_GET ''/wifi/del'' rq sys = Some (redirect_to e ''/wifi'' resp0, sys\<lparr>ws_s := u\<rparr>)"
      using web_route [of "''/wifi/del''" HTTP_GET PgWifiDel own e rq sys]
      by (simp add: uris_def web_handle_def handler_wifi_del_def query_index [OF q rq i] u)
    then show "\<exists>out t. web_request own e HTTP_GET ''/wifi/del'' rq sys = Some (out, t) \<and>
        wifi_nets (ws_s t) = remove_nth i ns \<and> ws_bm t = ws_bm sys"
      using wll.remove_shown [OF wl u] by (simp add: ns_def) }
qed (use bm_page_rows [OF bm, of False] wifi_page_rows [OF wl] in \<open>simp_all add: bs_def ns_def\<close>)

definition demo_lists :: "(string \<rightharpoonup> wifi_list_t nvs_val) web_sys" where
  "demo_lists = demo_sys\<lparr>ws_bm := bm_boot map_dev,
     ws_s := (ppp_boot map_dev)\<lparr>wifi_list := the (wl_add (wl_zero\<lparr>wl_ver := 1\<rparr>) ''Home'' (Some ''pw''))\<rparr>\<rparr>"

theorem web_lists_witness:
  "\<exists>out t. web_request (ESP_OK, resp0) demo_env HTTP_GET ''/wifi/del'' (demo_req\<lparr>rq_query := \<lambda>n. Some ''i=0''\<rparr>) demo_lists =
       Some (out, t) \<and> wifi_nets (ws_s demo_lists) = [\<lparr>c_ssid = ''Home'', c_pass = ''pw''\<rparr>] \<and> wifi_nets (ws_s t) = []"
proof -
  have "bm_repr (bm_boot (map_dev :: (string \<rightharpoonup> wifi_list_t nvs_val, wifi_list_t) nvs_dev)) []"
    using bm_boot_repr [of "map_dev :: (string \<rightharpoonup> wifi_list_t nvs_val, wifi_list_t) nvs_dev" "[]" 0]
    by (simp add: slots_def count_stored_def)
  then have b: "bm_view (ws_bm demo_lists) []" by (simp add: demo_lists_def bm_repr_def)
  then have bm: "bm_inv (ws_bm demo_lists)" "titled (ws_bm demo_lists)"
    by (auto simp: bm_inv_def titled_def bm_view_def bookmarks_count_def)
  have n: "nets (the (wl_add (wl_zero\<lparr>wl_ver := 1\<rparr>) ''Home'' (Some ''pw''))) = [\<lparr>c_ssid = ''Home'', c_pass = ''pw''\<rparr>]"
    "wl_ok (the (wl_add (wl_zero\<lparr>wl_ver := 1\<rparr>) ''Home'' (Some ''pw'')))"
    by code_simp+
  then have w: "wl_ok (wifi_list (ws_s demo_lists))" "wifi_nets (ws_s demo_lists) = [\<lparr>c_ssid = ''Home'', c_pass = ''pw''\<rparr>]"
    by (simp_all add: demo_lists_def wifi_nets_def)
  have "dec_int (int 0) = ''0''" by code_simp
  then have q: "rq_query (demo_req\<lparr>rq_query := \<lambda>n. Some ''i=0''\<rparr>) 32 = Some (''i='' @ dec_int (int 0))" by simp
  have k: "qkv_ok (we_qkv demo_env)" by (simp add: qkv_spec_ok)
  from web_lists [OF bm w(1) k q, where own = "(ESP_OK, resp0)", THEN conjunct2, THEN conjunct2, THEN conjunct2] show ?thesis
    using w(2) by (auto simp: remove_nth_def)
qed

end
