(* ===== verification/Vhci.thy ===== *)
theory Vhci
  imports Prelude
begin

text \<open>
  The HCI transport of \<open>components/btstack-esp32/hci_transport_esp32_vhci.c\<close>: packets of the controller,
  which arrive on its own task, go through a ring buffer to the main thread.  The ring buffer, the run
  loop and the controller are not part of the repository.  The ring buffer and the two conversions of
  lengths are the parameter \<open>ring_ops\<close>, with \<open>ring_ok\<close> as its documented behaviour; a callback is a flag; the mutex makes every
  section between taking and giving it one step.
\<close>

section \<open>The ring buffer\<close>

record 'r ring_ops =
  rg_free :: "'r \<Rightarrow> nat"                        \<comment> \<open>\<open>btstack_ring_buffer_bytes_free\<close>\<close>
  rg_avail :: "'r \<Rightarrow> nat"                       \<comment> \<open>\<open>btstack_ring_buffer_bytes_available\<close>\<close>
  rg_write :: "'r \<Rightarrow> u8 list \<Rightarrow> 'r"           \<comment> \<open>\<open>btstack_ring_buffer_write\<close>, result ignored\<close>
  rg_read :: "'r \<Rightarrow> nat \<Rightarrow> u8 list \<times> 'r"  \<comment> \<open>\<open>btstack_ring_buffer_read\<close>\<close>
  le_store_16 :: "u16 \<Rightarrow> u8 list"               \<comment> \<open>\<open>little_endian_store_16\<close>\<close>
  le_read_16 :: "u8 list \<Rightarrow> u16"                \<comment> \<open>\<open>little_endian_read_16\<close>\<close>

text \<open>A queue of bytes: \<open>view\<close> is its content, \<open>cap\<close> its size; a write that does not fit writes nothing.
  A length is stored in two bytes and read back.\<close>

definition ring_ok :: "'r ring_ops \<Rightarrow> ('r \<Rightarrow> u8 list) \<Rightarrow> nat \<Rightarrow> bool" where
  "ring_ok ops view cap \<longleftrightarrow> (\<forall>r. length (view r) \<le> cap \<and> rg_free ops r = cap - length (view r) \<and>
     rg_avail ops r = length (view r) \<and>
     (\<forall>d. view (rg_write ops r d) = (if length (view r) + length d \<le> cap then view r @ d else view r)) \<and>
     (\<forall>n. fst (rg_read ops r n) = take n (view r) \<and> view (snd (rg_read ops r n)) = drop n (view r))) \<and>
     (\<forall>n. length (le_store_16 ops n) = 2 \<and> le_read_16 ops (le_store_16 ops n) = n)"

section \<open>The transport\<close>

datatype vh_call = CtlInit | CtlEnable | CtlDisable | CtlRegister | CtlSend "u8 list"

record 'r vhci_st =
  ring_buffer_mutex :: bool          \<comment> \<open>it exists\<close>
  packet_handler :: "nat option"     \<comment> \<open>the pointer \<open>transport_packet_handler\<close>\<close>
  hci_ringbuffer :: 'r
  hci_receive_buffer :: "u8 list"
  recv_queued :: bool                \<comment> \<open>\<open>packet_receive_callback_context\<close> is in the run loop\<close>
  sent_queued :: bool                \<comment> \<open>\<open>packet_send_callback_context\<close> is\<close>
  delivering :: bool                 \<comment> \<open>the main thread is in \<open>transport_deliver_packets\<close>\<close>
  delivered :: "(u8 \<times> u8 list) list"  \<comment> \<open>the calls of \<open>transport_packet_handler\<close>\<close>
  bt_controller_initialized :: bool
  ctl_calls :: "vh_call list"

definition transport_init :: "'r vhci_st \<Rightarrow> 'r vhci_st" where
  "transport_init s = s\<lparr>ring_buffer_mutex := True\<rparr>"

definition transport_register_packet_handler :: "nat option \<Rightarrow> 'r vhci_st \<Rightarrow> 'r vhci_st" where
  "transport_register_packet_handler handler s = s\<lparr>packet_handler := handler\<rparr>"

text \<open>The callbacks of the controller; None is the assertion, or the mutex taken before it was made.\<close>

definition host_send_pkt_available_cb :: "bool \<Rightarrow> 'r vhci_st \<Rightarrow> 'r vhci_st option" where
  "host_send_pkt_available_cb in_isr s = (if in_isr then None else Some (s\<lparr>sent_queued := True\<rparr>))"

definition host_recv_pkt_cb :: "'r ring_ops \<Rightarrow> bool \<Rightarrow> u8 list \<Rightarrow> u16 \<Rightarrow> 'r vhci_st \<Rightarrow> 'r vhci_st option" where
  "host_recv_pkt_cb ops in_isr data len s =
     (if in_isr \<or> \<not> ring_buffer_mutex s then None
      else let space = (word_of_nat (rg_free ops (hci_ringbuffer s)) :: u16) in
        if space < len then Some s
        else let r = rg_write ops (hci_ringbuffer s) (le_store_16 ops len);
                 r = rg_write ops r (take (unat len) data)
             in Some (s\<lparr>hci_ringbuffer := r, recv_queued := True\<rparr>))"

text \<open>The main thread.\<close>

definition transport_packet_handler :: "u8 \<Rightarrow> u8 list \<Rightarrow> 'r vhci_st \<Rightarrow> 'r vhci_st option" where
  "transport_packet_handler ty packet s =
     (case packet_handler s of None \<Rightarrow> None | Some h \<Rightarrow> Some (s\<lparr>delivered := delivered s @ [(ty, packet)]\<rparr>))"

text \<open>\<open>event_packet\<close> and \<open>packet_sent\<close> are the numbers BTstack gives to events and to this event.\<close>

definition transport_notify_packet_send :: "u8 \<Rightarrow> u8 \<Rightarrow> 'r vhci_st \<Rightarrow> 'r vhci_st option" where
  "transport_notify_packet_send event_packet packet_sent s =
     transport_packet_handler event_packet [packet_sent, 0] (s\<lparr>sent_queued := False\<rparr>)"

text \<open>\<open>transport_deliver_packets\<close>, from one taking of the mutex to the next: the flag says whether the loop
  goes on.  None is a read behind the received bytes, a write behind the buffer, no mutex or no handler.\<close>

definition deliver_start :: "'r vhci_st \<Rightarrow> 'r vhci_st" where
  "deliver_start s = s\<lparr>recv_queued := False, delivering := True\<rparr>"

definition deliver_round :: "'r ring_ops \<Rightarrow> 'r vhci_st \<Rightarrow> 'r vhci_st option" where
  "deliver_round ops s =
     (if \<not> ring_buffer_mutex s then None
      else if rg_avail ops (hci_ringbuffer s) = 0 then Some (s\<lparr>delivering := False\<rparr>)
      else let (tag, r) = rg_read ops (hci_ringbuffer s) 2 in
        if length tag < 2 then None
        else let len = le_read_16 ops tag; (got, r) = rg_read ops r (unat len) in
          if length (hci_receive_buffer s) < length got then None
          else let buf = got @ drop (length got) (hci_receive_buffer s);
                   s = s\<lparr>hci_ringbuffer := r, hci_receive_buffer := buf\<rparr>
               in if length buf \<le> unat (len - 1) then None
                  else transport_packet_handler (buf ! 0) (take (unat (len - 1)) (tl buf)) s)"

text \<open>The loop undisturbed; \<open>fuel\<close> bounds the rounds.\<close>

fun transport_deliver_packets :: "'r ring_ops \<Rightarrow> nat \<Rightarrow> 'r vhci_st \<Rightarrow> 'r vhci_st option" where
  "transport_deliver_packets ops 0 s = None"
| "transport_deliver_packets ops (Suc fuel) s =
     (case deliver_round ops s of
        None \<Rightarrow> None
      | Some s \<Rightarrow> if delivering s then transport_deliver_packets ops fuel s else Some s)"

text \<open>Opening; the answers of the controller are arguments, -1 is a failure.\<close>

definition transport_open :: "'r \<Rightarrow> int \<Rightarrow> int \<Rightarrow> 'r vhci_st \<Rightarrow> int \<times> 'r vhci_st" where
  "transport_open fresh init_ret enable_ret s =
     (let s = s\<lparr>hci_ringbuffer := fresh\<rparr>;
          first = \<not> bt_controller_initialized s;
          s = (if first then s\<lparr>bt_controller_initialized := True, ctl_calls := ctl_calls s @ [CtlInit]\<rparr> else s)
      in if first \<and> init_ret \<noteq> 0 then (-1, s)
         else let s = s\<lparr>ctl_calls := ctl_calls s @ [CtlEnable]\<rparr> in
           if enable_ret \<noteq> 0 then (-1, s) else (0, s\<lparr>ctl_calls := ctl_calls s @ [CtlRegister]\<rparr>))"

text \<open>The order of BTstack, \<open>init\<close>, the handler, \<open>open\<close>, makes the transport ready.\<close>

definition vh_ready :: "'r vhci_st \<Rightarrow> bool" where
  "vh_ready s \<longleftrightarrow> ring_buffer_mutex s \<and> packet_handler s \<noteq> None"

lemma transport_up:
  "transport_open fresh i 0 (transport_register_packet_handler (Some h) (transport_init s)) = (0, t) \<Longrightarrow>
     vh_ready t \<and> hci_ringbuffer t = fresh \<and> delivered t = delivered s"
  by (auto simp: transport_open_def transport_register_packet_handler_def transport_init_def vh_ready_def Let_def split: if_splits)

definition transport_close :: "'r vhci_st \<Rightarrow> int \<times> 'r vhci_st" where
  "transport_close s = (0, s\<lparr>ctl_calls := ctl_calls s @ [CtlDisable]\<rparr>)"

definition transport_send_packet :: "u8 \<Rightarrow> u8 list \<Rightarrow> 'r vhci_st \<Rightarrow> int \<times> 'r vhci_st" where
  "transport_send_packet ty packet s = (0, s\<lparr>ctl_calls := ctl_calls s @ [CtlSend (ty # packet)]\<rparr>)"

section \<open>Frames\<close>

definition frame :: "'r ring_ops \<Rightarrow> u8 list \<Rightarrow> u8 list" where
  "frame ops d = le_store_16 ops (word_of_nat (length d)) @ d"

definition frames :: "'r ring_ops \<Rightarrow> u8 list list \<Rightarrow> u8 list" where
  "frames ops q = concat (map (frame ops) q)"

lemma frames_simps [simp]:
  "frames ops [] = []" "frames ops (d # q) = frame ops d @ frames ops q" "frames ops (p @ q) = frames ops p @ frames ops q"
  by (simp_all add: frames_def)

lemma ring_okD:
  assumes "ring_ok ops view cap"
  shows "length (view r) \<le> cap" "rg_free ops r = cap - length (view r)" "rg_avail ops r = length (view r)"
    "view (rg_write ops r d) = (if length (view r) + length d \<le> cap then view r @ d else view r)"
    "fst (rg_read ops r n) = take n (view r)" "view (snd (rg_read ops r n)) = drop n (view r)"
    "length (le_store_16 ops l) = 2" "le_read_16 ops (le_store_16 ops l) = l"
  using assms by (simp_all add: ring_ok_def)

section \<open>Facts about one step\<close>

text \<open>A packet of the controller: it has a type and fits the receive buffer of \<open>n\<close> bytes.\<close>

definition legal :: "nat \<Rightarrow> u8 list \<Rightarrow> bool" where
  "legal n d \<longleftrightarrow> 1 \<le> length d \<and> length d \<le> n \<and> length d < 2 ^ 16"

definition split_packet :: "u8 list \<Rightarrow> u8 \<times> u8 list" where
  "split_packet d = (hd d, tl d)"

lemma u16_of_nat: "n < 2 ^ 16 \<Longrightarrow> unat (word_of_nat n :: u16) = n"
  by (simp add: unsigned_of_nat take_bit_eq_mod)

lemma recv_frame:
  assumes ok: "ring_ok ops view cap" and c: "cap < 2 ^ 16" and l: "length d < 2 ^ 16"
    and room: "length (view (hci_ringbuffer s)) + length d + 2 \<le> cap"
    and r: "host_recv_pkt_cb ops False d (word_of_nat (length d)) s = Some t"
  shows "view (hci_ringbuffer t) = view (hci_ringbuffer s) @ frame ops d" "t = s\<lparr>hci_ringbuffer := hci_ringbuffer t, recv_queued := True\<rparr>"
proof -
  let ?v = "view (hci_ringbuffer s)"
  have f: "rg_free ops (hci_ringbuffer s) = cap - length ?v" by (rule ring_okD(2) [OF ok])
  have "\<not> (word_of_nat (rg_free ops (hci_ringbuffer s)) :: u16) < word_of_nat (length d)"
    using c l room u16_of_nat [of "length d"] u16_of_nat [of "cap - length ?v"] by (simp add: f word_less_nat_alt)
  moreover have w: "view (rg_write ops x y) = (if length (view x) + length y \<le> cap then view x @ y else view x)" for x y
    by (rule ring_okD(4) [OF ok])
  ultimately show "view (hci_ringbuffer t) = ?v @ frame ops d" "t = s\<lparr>hci_ringbuffer := hci_ringbuffer t, recv_queued := True\<rparr>"
    using r room u16_of_nat [OF l] by (auto simp: host_recv_pkt_cb_def Let_def w frame_def ring_okD(7) [OF ok] split: if_splits)
qed

lemma recv_drop:
  assumes ok: "ring_ok ops view cap" and c: "cap < 2 ^ 16" and l: "length d < 2 ^ 16"
    and full: "cap < length (view (hci_ringbuffer s)) + length d"
    and r: "host_recv_pkt_cb ops False d (word_of_nat (length d)) s = Some t"
  shows "t = s"
proof -
  let ?v = "view (hci_ringbuffer s)"
  have f: "rg_free ops (hci_ringbuffer s) = cap - length ?v" "length ?v \<le> cap" by (rule ring_okD(2) [OF ok], rule ring_okD(1) [OF ok])
  have "(word_of_nat (rg_free ops (hci_ringbuffer s)) :: u16) < word_of_nat (length d)"
    using c l full f(2) u16_of_nat [of "length d"] u16_of_nat [of "cap - length ?v"] by (simp add: f(1) word_less_nat_alt)
  then show ?thesis using r by (simp add: host_recv_pkt_cb_def Let_def split: if_splits)
qed

text \<open>A round of the loop on a buffer that holds whole frames.\<close>

lemma round_empty:
  assumes "ring_ok ops view cap" and "view (hci_ringbuffer s) = []" and "vh_ready s"
  shows "deliver_round ops s = Some (s\<lparr>delivering := False\<rparr>)"
  using assms(2,3) by (simp add: deliver_round_def ring_okD(3) [OF assms(1)] vh_ready_def)

lemma round_frame:
  assumes ok: "ring_ok ops view cap" and v: "view (hci_ringbuffer s) = frame ops d @ rest"
    and l: "legal (length (hci_receive_buffer s)) d" and rdy: "vh_ready s"
  obtains t where "deliver_round ops s = Some t" "view (hci_ringbuffer t) = rest"
    "delivered t = delivered s @ [split_packet d]" "delivering t = delivering s" "recv_queued t = recv_queued s"
    "length (hci_receive_buffer t) = length (hci_receive_buffer s)" "vh_ready t"
proof -
  have rd: "fst (rg_read ops r n) = take n (view r)" "view (snd (rg_read ops r n)) = drop n (view r)" for r n
    by (rule ring_okD(5) [OF ok], rule ring_okD(6) [OF ok])
  have av: "rg_avail ops (hci_ringbuffer s) \<noteq> 0" using v l by (auto simp: ring_okD(3) [OF ok] frame_def legal_def)
  obtain tag r1 where 1: "rg_read ops (hci_ringbuffer s) 2 = (tag, r1)" by fastforce
  have t1: "tag = le_store_16 ops (word_of_nat (length d))" "view r1 = d @ rest"
    using rd [of "hci_ringbuffer s" 2] 1 v by (simp_all add: frame_def ring_okD(7) [OF ok])
  have len: "unat (word_of_nat (length d) :: u16) = length d" using l u16_of_nat by (simp add: legal_def)
  obtain got r2 where 2: "rg_read ops r1 (length d) = (got, r2)" by fastforce
  have t2: "got = d" "view r2 = rest" using rd [of r1 "length d"] 2 t1 by simp_all
  let ?buf = "d @ drop (length d) (hci_receive_buffer s)"
  have "(1 :: u16) \<le> word_of_nat (length d)" using len l by (simp add: word_le_nat_alt legal_def)
  then have len1: "unat ((word_of_nat (length d) :: u16) - 1) = length d - 1"
    using len by (simp add: unat_sub)
  have b: "length ?buf = length (hci_receive_buffer s)" using l by (simp add: legal_def)
  have "d \<noteq> []" using l by (auto simp: legal_def)
  then have "take (length d - 1) (tl ?buf) = tl d" "?buf ! 0 = hd d" by (cases d; simp)+
  moreover have "\<not> length (hci_receive_buffer s) < length d" "\<not> length (hci_receive_buffer s) \<le> length d - 1"
    using l unfolding legal_def by linarith+
  ultimately have "deliver_round ops s = transport_packet_handler (hd d) (tl d)
      (s\<lparr>hci_ringbuffer := r2, hci_receive_buffer := ?buf\<rparr>)"
    using av b rdy by (simp add: vh_ready_def deliver_round_def 1 2 t1(1) t2(1) len len1 ring_okD(7,8) [OF ok] Let_def)
  then show ?thesis
    using that [of "s\<lparr>hci_ringbuffer := r2, hci_receive_buffer := ?buf, delivered := delivered s @ [(hd d, tl d)]\<rparr>"] t2 b rdy
    by (auto simp: transport_packet_handler_def split_packet_def vh_ready_def split: option.split)
qed

section \<open>Runs\<close>

text \<open>The controller's task and the main thread, interleaved at the mutex: packets arrive at any time, the run
  loop starts the delivery when it is queued, and the delivery does its rounds.  \<open>acc\<close> collects what
  was not dropped.  A packet for which the ring has room, but not for its length as well, is left
  out (see below).\<close>

inductive vh_run :: "'r ring_ops \<Rightarrow> ('r \<Rightarrow> u8 list) \<Rightarrow> nat \<Rightarrow> 'r vhci_st \<Rightarrow> u8 list list \<Rightarrow> 'r vhci_st \<Rightarrow> bool"
  for ops view cap s0 where
  vr_start: "vh_run ops view cap s0 [] s0"
| vr_recv: "vh_run ops view cap s0 acc s \<Longrightarrow> legal (length (hci_receive_buffer s)) d \<Longrightarrow>
    length (view (hci_ringbuffer s)) + length d + 2 \<le> cap \<Longrightarrow>
    host_recv_pkt_cb ops False d (word_of_nat (length d)) s = Some t \<Longrightarrow> vh_run ops view cap s0 (acc @ [d]) t"
| vr_drop: "vh_run ops view cap s0 acc s \<Longrightarrow> legal (length (hci_receive_buffer s)) d \<Longrightarrow>
    cap < length (view (hci_ringbuffer s)) + length d \<Longrightarrow>
    host_recv_pkt_cb ops False d (word_of_nat (length d)) s = Some t \<Longrightarrow> vh_run ops view cap s0 acc t"
| vr_deliver: "vh_run ops view cap s0 acc s \<Longrightarrow> recv_queued s \<Longrightarrow> \<not> delivering s \<Longrightarrow>
    vh_run ops view cap s0 acc (deliver_start s)"
| vr_round: "vh_run ops view cap s0 acc s \<Longrightarrow> delivering s \<Longrightarrow> deliver_round ops s = Some t \<Longrightarrow> vh_run ops view cap s0 acc t"

text \<open>What every run keeps: the ring holds whole frames, the ones not delivered yet, and the main thread will
  see them.\<close>

definition vh_inv :: "'r ring_ops \<Rightarrow> ('r \<Rightarrow> u8 list) \<Rightarrow> 'r vhci_st \<Rightarrow> u8 list list \<Rightarrow> 'r vhci_st \<Rightarrow> u8 list list \<Rightarrow> bool" where
  "vh_inv ops view s0 acc s q \<longleftrightarrow> view (hci_ringbuffer s) = frames ops q \<and>
     delivered s @ map split_packet q = delivered s0 @ map split_packet acc \<and>
     list_all (legal (length (hci_receive_buffer s))) q \<and> (q \<noteq> [] \<longrightarrow> recv_queued s \<or> delivering s) \<and> vh_ready s"

lemma vh_run_inv:
  assumes "vh_run ops view cap s0 acc s" and ok: "ring_ok ops view cap" and c: "cap < 2 ^ 16"
    and e: "view (hci_ringbuffer s0) = []" and rdy: "vh_ready s0"
  shows "\<exists>q. vh_inv ops view s0 acc s q"
  using assms(1)
proof induction
  case vr_start
  show ?case using e rdy by (intro exI [of _ "[]"]) (simp add: vh_inv_def)
next
  case (vr_recv acc s d t)
  then obtain q where q: "vh_inv ops view s0 acc s q" by blast
  have l: "length d < 2 ^ 16" using vr_recv.hyps(2) by (simp add: legal_def)
  note t = recv_frame [OF ok c l vr_recv.hyps(3,4)]
  have "vh_inv ops view s0 (acc @ [d]) t (q @ [d])"
    using q t(1) vr_recv.hyps(2) by (subst t(2)) (simp add: vh_inv_def vh_ready_def)
  then show ?case by blast
next
  case (vr_drop acc s d t)
  then have "length d < 2 ^ 16" by (simp add: legal_def)
  from recv_drop [OF ok c this vr_drop.hyps(3,4)] show ?case using vr_drop by auto
next
  case (vr_deliver acc s)
  then show ?case by (auto simp: vh_inv_def vh_ready_def deliver_start_def)
next
  case (vr_round acc s t)
  then obtain q where q: "vh_inv ops view s0 acc s q" by blast
  show ?case
  proof (cases q)
    case Nil
    then have "t = s\<lparr>delivering := False\<rparr>" using round_empty [OF ok] q vr_round.hyps(3) by (simp add: vh_inv_def)
    then show ?thesis using q Nil by (intro exI [of _ "[]"]) (simp add: vh_inv_def vh_ready_def)
  next
    case (Cons d q')
    then have "view (hci_ringbuffer s) = frame ops d @ frames ops q'" "legal (length (hci_receive_buffer s)) d" "vh_ready s"
      using q by (simp_all add: vh_inv_def)
    from round_frame [OF ok this] vr_round.hyps(3) obtain "view (hci_ringbuffer t) = frames ops q'"
      "delivered t = delivered s @ [split_packet d]" "delivering t = delivering s"
      "length (hci_receive_buffer t) = length (hci_receive_buffer s)" "vh_ready t" by (metis option.inject)
    then have "vh_inv ops view s0 acc t q'" using q Cons vr_round.hyps(2) by (simp add: vh_inv_def)
    then show ?thesis by blast
  qed
qed

text \<open>The loop empties the ring, one round per packet and one to see that it is empty.\<close>

lemma deliver_all:
  assumes "ring_ok ops view cap" and "view (hci_ringbuffer s) = frames ops q"
    and "list_all (legal (length (hci_receive_buffer s))) q" and "delivering s" and "vh_ready s"
  shows "\<exists>t. transport_deliver_packets ops (Suc (length q)) s = Some t \<and> delivered t = delivered s @ map split_packet q \<and>
    view (hci_ringbuffer t) = [] \<and> \<not> delivering t"
  using assms
proof (induction q arbitrary: s)
  case Nil
  then show ?case using round_empty [OF Nil(1)] by simp
next
  case (Cons d q)
  then have "view (hci_ringbuffer s) = frame ops d @ frames ops q" "legal (length (hci_receive_buffer s)) d" by simp_all
  from round_frame [OF Cons.prems(1) this Cons.prems(5)] obtain u where u: "deliver_round ops s = Some u"
    "view (hci_ringbuffer u) = frames ops q" "delivered u = delivered s @ [split_packet d]" "delivering u = delivering s"
    "length (hci_receive_buffer u) = length (hci_receive_buffer s)" "vh_ready u" by metis
  from Cons.IH [OF Cons.prems(1) u(2)] Cons.prems show ?case using u by simp
qed

section \<open>Properties\<close>

text \<open>C32: Packets of the controller reach the stack whole, in order and once, however their arrival is
  interleaved with the delivery: what was delivered and what the ring still holds is what was
  accepted, as long as the transport was set up and no packet arrives when there is room for it but not for its two length bytes as
  well; no read or write leaves a buffer; no wake-up is lost, that is a ring that holds a packet
  has its delivery queued or running; and the delivery, once it runs undisturbed, ends with
  everything delivered.\<close>

theorem vhci_delivers:
  assumes ok: "ring_ok ops view cap" and c: "cap < 2 ^ 16" and e: "view (hci_ringbuffer s0) = []" and rdy: "vh_ready s0"
    and r: "vh_run ops view cap s0 acc s"
  shows "(\<exists>rest. delivered s @ rest = delivered s0 @ map (\<lambda>d. (hd d, tl d)) acc) \<and>
    deliver_round ops s \<noteq> None \<and>
    (view (hci_ringbuffer s) \<noteq> [] \<longrightarrow> recv_queued s \<or> delivering s) \<and>
    (\<exists>fuel t. transport_deliver_packets ops fuel (s\<lparr>delivering := True\<rparr>) = Some t \<and>
       delivered t = delivered s0 @ map (\<lambda>d. (hd d, tl d)) acc \<and> view (hci_ringbuffer t) = [])"
proof -
  obtain q where q: "vh_inv ops view s0 acc s q" using vh_run_inv [OF r ok c e rdy] by blast
  have s: "split_packet = (\<lambda>d. (hd d, tl d))" by (rule ext) (simp add: split_packet_def)
  have "deliver_round ops s \<noteq> None"
  proof (cases q)
    case (Cons d q')
    then have "view (hci_ringbuffer s) = frame ops d @ frames ops q'" "legal (length (hci_receive_buffer s)) d" "vh_ready s"
      using q by (simp_all add: vh_inv_def)
    from round_frame [OF ok this] show ?thesis by auto
  qed (use q round_empty [OF ok] in \<open>simp add: vh_inv_def\<close>)
  moreover have "\<exists>t. transport_deliver_packets ops (Suc (length q)) (s\<lparr>delivering := True\<rparr>) = Some t \<and>
       delivered t = delivered s @ map split_packet q \<and> view (hci_ringbuffer t) = [] \<and> \<not> delivering t"
    using deliver_all [OF ok, of "s\<lparr>delivering := True\<rparr>" q] q by (simp add: vh_inv_def vh_ready_def)
  moreover have "\<exists>rest. delivered s @ rest = delivered s0 @ map split_packet acc" using q by (auto simp: vh_inv_def)
  moreover have "view (hci_ringbuffer s) \<noteq> [] \<longrightarrow> recv_queued s \<or> delivering s" using q by (auto simp: vh_inv_def)
  moreover have "delivered s @ map split_packet q = delivered s0 @ map split_packet acc" using q by (simp add: vh_inv_def)
  ultimately show ?thesis unfolding s [symmetric] by (intro conjI) metis+
qed

text \<open>A ring of 64 bytes, and lengths with the low byte first.\<close>

definition len_tag :: "u16 \<Rightarrow> u8 list" where
  "len_tag len = [ucast len, ucast (drop_bit 8 len)]"

definition read_tag :: "u8 list \<Rightarrow> u16" where
  "read_tag b = ucast (b ! 0) + push_bit 8 (ucast (b ! 1))"

lemma tag_read: "read_tag (len_tag len) = len"
proof -
  let ?lo = "ucast (ucast len :: u8) :: u16" and ?hi = "push_bit 8 (ucast (ucast (drop_bit 8 len) :: u8)) :: u16"
  have "?lo + ?hi = or ?lo ?hi"
    by (rule disjunctive_add) (auto simp: bit_simps)
  also have "\<dots> = len"
    by (rule bit_word_eqI) (auto simp: bit_simps)
  finally show ?thesis by (simp add: read_tag_def len_tag_def)
qed

definition list_ring :: "u8 list ring_ops" where
  "list_ring = \<lparr>rg_free = (\<lambda>r. 64 - length (take 64 r)), rg_avail = (\<lambda>r. length (take 64 r)),
     rg_write = (\<lambda>r d. let r = take 64 r in if length r + length d \<le> 64 then r @ d else r),
     rg_read = (\<lambda>r n. let r = take 64 r in (take n r, drop n r)),
     le_store_16 = len_tag, le_read_16 = read_tag\<rparr>"

lemma list_ring_ok: "ring_ok list_ring (take 64) 64"
  using tag_read by (auto simp: ring_ok_def list_ring_def Let_def min_def len_tag_def)

definition demo_vhci :: "u8 list vhci_st" where
  "demo_vhci = \<lparr>ring_buffer_mutex = True, packet_handler = Some 1, hci_ringbuffer = [], hci_receive_buffer = replicate 16 0, recv_queued = False, sent_queued = False,
     delivering = False, delivered = [], bt_controller_initialized = True, ctl_calls = []\<rparr>"

definition demo_recv :: "u8 list \<Rightarrow> u8 list vhci_st \<Rightarrow> u8 list vhci_st" where
  "demo_recv d s = the (host_recv_pkt_cb list_ring False d (word_of_nat (length d)) s)"

theorem vhci_delivers_witness:
  "\<exists>fuel t. transport_deliver_packets list_ring fuel ((demo_recv [2, 7] (demo_recv [4, 1, 0] demo_vhci))\<lparr>delivering := True\<rparr>) = Some t \<and>
     delivered t = [(4, [1, 0]), (2, [7])]"
proof -
  have d: "ring_buffer_mutex demo_vhci" "delivered demo_vhci = []" "hci_ringbuffer demo_vhci = []" "length (hci_receive_buffer demo_vhci) = 16"
    by (simp_all add: demo_vhci_def)
  have some: "host_recv_pkt_cb list_ring False x (word_of_nat (length x)) s = Some (demo_recv x s)" if "ring_buffer_mutex s" for x s
    using that
    by (simp add: demo_recv_def host_recv_pkt_cb_def Let_def)
  let ?s = "demo_recv [4, 1, 0] demo_vhci"
  have s: "ring_buffer_mutex ?s" "view (hci_ringbuffer ?s) = view [3, 0, 4, 1, 0]" "length (hci_receive_buffer ?s) = 16" for view :: "u8 list \<Rightarrow> u8 list"
    using d by (simp_all add: demo_recv_def host_recv_pkt_cb_def Let_def list_ring_def len_tag_def)
  have "vh_run list_ring (take 64) 64 demo_vhci ([] @ [[4, 1, 0]]) ?s"
    by (rule vr_recv [OF vr_start _ _ some]) (simp_all add: legal_def d)
  from vr_recv [OF this _ _ some, of "[2, 7]"]
  have "vh_run list_ring (take 64) 64 demo_vhci [[4, 1, 0], [2, 7]] (demo_recv [2, 7] ?s)"
    by (simp add: legal_def s)
  note r = this
  have c: "(64 :: nat) < 2 ^ 16" "take 64 (hci_ringbuffer demo_vhci) = []" using d by simp_all
  obtain fuel t where "transport_deliver_packets list_ring fuel ((demo_recv [2, 7] ?s)\<lparr>delivering := True\<rparr>) = Some t"
    "delivered t = delivered demo_vhci @ map (\<lambda>d. (hd d, tl d)) [[4, 1, 0], [2, 7]]"
    using vhci_delivers [OF list_ring_ok c _ r] by (auto simp: demo_vhci_def vh_ready_def)
  then show ?thesis using d by (intro exI [of _ fuel] exI [of _ t]) simp
qed

text \<open>A packet for which there is room, but not for its length as well: the length is stored, the packet is not,
  and the next packets are taken apart at the wrong places.\<close>

lemma vhci_tag_alone:
  assumes ok: "ring_ok ops view cap" and c: "cap < 2 ^ 16" and l: "length d < 2 ^ 16"
    and room: "length (view (hci_ringbuffer s)) + length d \<le> cap" "cap < length (view (hci_ringbuffer s)) + length d + 2"
    and two: "length (view (hci_ringbuffer s)) + 2 \<le> cap"
    and r: "host_recv_pkt_cb ops False d (word_of_nat (length d)) s = Some t"
  shows "view (hci_ringbuffer t) = view (hci_ringbuffer s) @ le_store_16 ops (word_of_nat (length d))"
proof -
  let ?v = "view (hci_ringbuffer s)"
  have f: "rg_free ops (hci_ringbuffer s) = cap - length ?v" by (rule ring_okD(2) [OF ok])
  have "\<not> (word_of_nat (rg_free ops (hci_ringbuffer s)) :: u16) < word_of_nat (length d)"
    using c l room u16_of_nat [of "length d"] u16_of_nat [of "cap - length ?v"] by (simp add: f word_less_nat_alt)
  moreover have w: "view (rg_write ops x y) = (if length (view x) + length y \<le> cap then view x @ y else view x)" for x y
    by (rule ring_okD(4) [OF ok])
  ultimately show ?thesis
    using r room two u16_of_nat [OF l] by (auto simp: host_recv_pkt_cb_def Let_def w ring_okD(7) [OF ok] split: if_splits)
qed

end
