(* ===== verification/Tlv.thy ===== *)
theory Tlv
  imports Nvs
begin

unbundle bit_operations_syntax

text \<open>
  The tag store of \<open>components/btstack-esp32/btstack_tlv_esp32.c\<close>, in which BTstack keeps the link keys of
  paired phones: one blob per tag in the flash namespace of BTstack.  \<open>char_for_nibble\<close> and the callers
  are BTstack code, not part of the repository; the function is the parameter \<open>cn\<close>.
\<close>

record 's tlv_st =
  nvs_active :: bool
  tlv_dev :: "('s, u8 list) nvs_dev"

text \<open>\<open>cn\<close>: the character of a value below 16.\<close>

definition key_for_tag :: "(nat \<Rightarrow> char) \<Rightarrow> u32 \<Rightarrow> string" where
  "key_for_tag cn tag = map (\<lambda>i. cn (unat (drop_bit (4 * (7 - i)) tag AND 0x0f))) [0..<8]"

text \<open>The size of the value, 0 for none, and what is copied into the buffer.\<close>

definition btstack_tlv_esp32_get_tag :: "(nat \<Rightarrow> char) \<Rightarrow> u32 \<Rightarrow> nat \<Rightarrow> 's tlv_st \<Rightarrow> nat \<times> u8 list" where
  "btstack_tlv_esp32_get_tag cn tag buffer_size t =
     (if \<not> nvs_active t then (0, [])
      else case nvs_get_blob (tlv_dev t) (key_for_tag cn tag) of
          Some v \<Rightarrow> if length v > buffer_size then (0, []) else (length v, v)
        | None \<Rightarrow> (0, []))"

text \<open>The result is 0 for success and for an inactive store, 1 for an error.\<close>

definition btstack_tlv_esp32_store_tag :: "(nat \<Rightarrow> char) \<Rightarrow> u32 \<Rightarrow> u8 list \<Rightarrow> 's tlv_st \<Rightarrow> nat \<times> 's tlv_st" where
  "btstack_tlv_esp32_store_tag cn tag data t =
     (if \<not> nvs_active t then (0, t)
      else let (err, d) = nvs_set_blob (tlv_dev t) (key_for_tag cn tag) data; t = t\<lparr>tlv_dev := d\<rparr> in
        if err \<noteq> ESP_OK then (1, t)
        else let (err, d) = nvs_commit (tlv_dev t); t = t\<lparr>tlv_dev := d\<rparr> in
          if err \<noteq> ESP_OK then (1, t) else (0, t))"

definition btstack_tlv_esp32_delete_tag :: "(nat \<Rightarrow> char) \<Rightarrow> u32 \<Rightarrow> 's tlv_st \<Rightarrow> 's tlv_st" where
  "btstack_tlv_esp32_delete_tag cn tag t =
     (if \<not> nvs_active t then t
      else t\<lparr>tlv_dev := snd (nvs_erase_key (tlv_dev t) (key_for_tag cn tag))\<rparr>)"

text \<open>The start: \<open>flash_init\<close> and \<open>flash_erase\<close> are \<open>nvs_flash_init\<close> and \<open>nvs_flash_erase\<close> on the store, \<open>retry\<close> the two
  errors that ask for an erase; None is an abort.\<close>

definition flash_start ::
  "(('s, 'b) nvs_dev \<Rightarrow> esp_err \<times> ('s, 'b) nvs_dev) \<Rightarrow> (('s, 'b) nvs_dev \<Rightarrow> esp_err \<times> ('s, 'b) nvs_dev) \<Rightarrow> esp_err set \<Rightarrow>
   ('s, 'b) nvs_dev \<Rightarrow> ('s, 'b) nvs_dev option" where
  "flash_start flash_init flash_erase retry d =
     (let (err, d) = flash_init d in
      if err \<in> retry then
        (let (err, d) = flash_erase d in
         if err \<noteq> ESP_OK then None
         else let (err, d) = flash_init d in if err \<noteq> ESP_OK then None else Some d)
      else if err \<noteq> ESP_OK then None else Some d)"

definition btstack_tlv_esp32_get_instance ::
  "(('s, u8 list) nvs_dev \<Rightarrow> esp_err \<times> ('s, u8 list) nvs_dev) \<Rightarrow> (('s, u8 list) nvs_dev \<Rightarrow> esp_err \<times> ('s, u8 list) nvs_dev) \<Rightarrow>
   esp_err set \<Rightarrow> ('s, u8 list) nvs_dev \<Rightarrow> 's tlv_st option" where
  "btstack_tlv_esp32_get_instance flash_init flash_erase retry d =
     map_option (\<lambda>d. \<lparr>nvs_active = (nvs_open d True = ESP_OK), tlv_dev = d\<rparr>) (flash_start flash_init flash_erase retry d)"

section \<open>Keys\<close>

lemma nibble_nat: "unat (drop_bit (4 * k) (x :: u32) AND 0x0f) = unat x div 16 ^ k mod 16"
proof -
  have "unat (take_bit 4 (drop_bit (4 * k) x)) = unat x div 2 ^ (4 * k) mod 2 ^ 4"
    unfolding unsigned_take_bit_eq unsigned_drop_bit_eq
    by (simp add: take_bit_eq_mod drop_bit_eq_div mod_less [OF unat_less_u32])
  moreover have "drop_bit (4 * k) x AND 0x0f = take_bit 4 (drop_bit (4 * k) x)"
    by (simp add: take_bit_eq_mask mask_eq_exp_minus_1)
  ultimately show ?thesis by (simp add: power_mult)
qed

lemma digits_eq:
  fixes a b :: nat
  assumes "\<And>i. i < n \<Longrightarrow> a div 16 ^ i mod 16 = b div 16 ^ i mod 16" and "a < 16 ^ n" and "b < 16 ^ n"
  shows "a = b"
  using assms
proof (induction n arbitrary: a b)
  case (Suc n)
  have "a div 16 = b div 16"
  proof (rule Suc.IH)
    show "a div 16 div 16 ^ i mod 16 = b div 16 div 16 ^ i mod 16" if "i < n" for i
      using Suc.prems(1) [of "Suc i"] that by (simp add: div_mult2_eq)
  qed (use Suc.prems in \<open>simp_all add: div_less_iff_less_mult mult.commute\<close>)
  moreover have "a mod 16 = b mod 16" using Suc.prems(1) [of 0] by simp
  ultimately show ?case by (metis div_mult_mod_eq)
qed simp

text \<open>The keys of different tags differ, for any function that gives the sixteen values different characters.\<close>

lemma key_for_tag_inj:
  assumes "inj_on cn {0..<16}" and "key_for_tag cn x = key_for_tag cn y"
  shows "x = y"
proof -
  have "unat x div 16 ^ k mod 16 = unat y div 16 ^ k mod 16" if "k < 8" for k
  proof -
    have "(7 - k) \<in> set [0..<8]" "7 - (7 - k) = k" using that by auto
    then have "cn (unat (drop_bit (4 * k) x AND 0x0f)) = cn (unat (drop_bit (4 * k) y AND 0x0f))"
      using assms(2) unfolding key_for_tag_def map_eq_conv by metis
    then show ?thesis using assms(1) by (simp add: nibble_nat inj_on_def)
  qed
  moreover have "unat x < 16 ^ 8" "unat y < 16 ^ 8" using unat_less_u32 [of x] unat_less_u32 [of y] by simp_all
  ultimately have "unat x = unat y" by (rule digits_eq)
  then show ?thesis by (simp add: word_unat_eq_iff)
qed

section \<open>The map of tags\<close>

text \<open>What the store holds, as a map.\<close>

definition tags :: "(nat \<Rightarrow> char) \<Rightarrow> 's tlv_st \<Rightarrow> u32 \<Rightarrow> u8 list option" where
  "tags cn t tag = (if nvs_active t then nvs_get_blob (tlv_dev t) (key_for_tag cn tag) else None)"

datatype tlv_op = TlvStore u32 "u8 list" | TlvDelete u32

fun tlv_step :: "(nat \<Rightarrow> char) \<Rightarrow> tlv_op \<Rightarrow> 's tlv_st \<Rightarrow> 's tlv_st" where
  "tlv_step cn (TlvStore tag data) t = snd (btstack_tlv_esp32_store_tag cn tag data t)"
| "tlv_step cn (TlvDelete tag) t = btstack_tlv_esp32_delete_tag cn tag t"

text \<open>The flash carries the operation out.\<close>

fun tlv_done :: "(nat \<Rightarrow> char) \<Rightarrow> tlv_op \<Rightarrow> 's tlv_st \<Rightarrow> bool" where
  "tlv_done cn (TlvStore tag data) t = (fst (btstack_tlv_esp32_store_tag cn tag data t) = 0)"
| "tlv_done cn (TlvDelete tag) t =
     (fst (nvs_erase_key (tlv_dev t) (key_for_tag cn tag)) \<in> {ESP_OK, ESP_ERR_NVS_NOT_FOUND})"

fun tlv_all_done :: "(nat \<Rightarrow> char) \<Rightarrow> tlv_op list \<Rightarrow> 's tlv_st \<Rightarrow> bool" where
  "tlv_all_done cn [] t = True"
| "tlv_all_done cn (y # ys) t = (tlv_done cn y t \<and> tlv_all_done cn ys (tlv_step cn y t))"

fun tlv_tag :: "tlv_op \<Rightarrow> u32" where
  "tlv_tag (TlvStore tag data) = tag"
| "tlv_tag (TlvDelete tag) = tag"

fun tlv_spec :: "tlv_op \<Rightarrow> (u32 \<Rightarrow> u8 list option) \<Rightarrow> u32 \<Rightarrow> u8 list option" where
  "tlv_spec (TlvStore tag data) m = m(tag \<mapsto> data)"
| "tlv_spec (TlvDelete tag) m = m(tag := None)"

lemma tlv_step_same:
  assumes "dev_ok (tlv_dev t)"
  shows "dev_same {key_for_tag cn (tlv_tag oper)} (tlv_dev t) (tlv_dev (tlv_step cn oper t)) \<and>
    nvs_active (tlv_step cn oper t) = nvs_active t"
proof (cases oper)
  case (TlvStore tag data)
  let ?r = "nvs_set_blob (tlv_dev t) (key_for_tag cn tag) data"
  have s: "dev_same {key_for_tag cn tag} (tlv_dev t) (snd ?r)" by (rule nvs_writes_same(4) [OF assms])
  then have "dev_ok (snd ?r)" using dev_same_ok assms by blast
  then have "dev_same {key_for_tag cn tag} (tlv_dev t) (snd (nvs_commit (snd ?r)))"
    using dev_same_step [OF s dev_same_mono [OF nvs_writes_same(6)]] by simp
  then show ?thesis using s TlvStore
    by (simp add: btstack_tlv_esp32_store_tag_def Let_def case_prod_beta)
next
  case (TlvDelete tag)
  then show ?thesis using nvs_writes_same(5) [OF assms, of "key_for_tag cn tag"]
    by (simp add: btstack_tlv_esp32_delete_tag_def)
qed

lemma tlv_step_tags:
  assumes ok: "dev_ok (tlv_dev t)" and inj: "inj_on cn {0..<16}" and act: "nvs_active t"
  shows "(tlv_done cn oper t \<longrightarrow> tags cn (tlv_step cn oper t) = tlv_spec oper (tags cn t)) \<and>
    (x \<noteq> tlv_tag oper \<longrightarrow> tags cn (tlv_step cn oper t) x = tags cn t x)"
proof -
  note same = tlv_step_same [OF ok, of cn oper]
  have other: "tags cn (tlv_step cn oper t) y = tags cn t y" if "y \<noteq> tlv_tag oper" for y
  proof -
    have "key_for_tag cn y \<notin> {key_for_tag cn (tlv_tag oper)}" using key_for_tag_inj [OF inj] that by auto
    from dev_same_get(4) [OF conjunct1 [OF same] this] show ?thesis using same by (simp add: tags_def)
  qed
  moreover have "tags cn (tlv_step cn oper t) (tlv_tag oper) = tlv_spec oper (tags cn t) (tlv_tag oper)"
    if d: "tlv_done cn oper t"
  proof (cases oper)
    case (TlvStore tag data)
    let ?r = "nvs_set_blob (tlv_dev t) (key_for_tag cn tag) data"
    have w: "?r = (ESP_OK, snd ?r)" using d TlvStore act
      by (auto simp: btstack_tlv_esp32_store_tag_def Let_def case_prod_beta prod_eq_iff split: if_splits)
    have g: "nvs_get_blob (snd ?r) (key_for_tag cn tag) = Some data" by (rule nvs_get_set(4) [OF ok w])
    have "dev_ok (snd ?r)" using dev_same_ok [OF nvs_writes_same(4) [OF ok]] ok by blast
    then have "nvs_get_blob (snd (nvs_commit (snd ?r))) (key_for_tag cn tag) = Some data"
      by (simp add: dev_same_get(4) [OF nvs_writes_same(6)] g)
    then show ?thesis using w g TlvStore act
      by (simp add: tags_def btstack_tlv_esp32_store_tag_def Let_def case_prod_beta)
  next
    case (TlvDelete tag)
    let ?r = "nvs_erase_key (tlv_dev t) (key_for_tag cn tag)"
    have "?r = (fst ?r, snd ?r)" by simp
    from nvs_get_erased [OF ok this] have "nvs_get_blob (snd ?r) (key_for_tag cn tag) = None"
      using d TlvDelete by auto
    then show ?thesis using TlvDelete act by (simp add: tags_def btstack_tlv_esp32_delete_tag_def)
  qed
  moreover have "tlv_spec oper m y = m y" if "y \<noteq> tlv_tag oper" for m y using that by (cases oper) auto
  ultimately show ?thesis by (metis ext)
qed

lemma tlv_steps_tags:
  assumes "dev_ok (tlv_dev t)" and "inj_on cn {0..<16}" and "nvs_active t" and "tlv_all_done cn xs t"
  shows "tags cn (fold (tlv_step cn) xs t) = fold tlv_spec xs (tags cn t) \<and> nvs_active (fold (tlv_step cn) xs t) \<and>
    dev_ok (tlv_dev (fold (tlv_step cn) xs t))"
  using assms
proof (induction xs arbitrary: t)
  case (Cons y ys)
  have "dev_ok (tlv_dev (tlv_step cn y t))" "nvs_active (tlv_step cn y t)"
    using tlv_step_same [OF Cons.prems(1), of cn y] dev_same_ok Cons.prems by blast+
  moreover have "tags cn (tlv_step cn y t) = tlv_spec y (tags cn t)"
    using tlv_step_tags [OF Cons.prems(1-3), of y] Cons.prems(4) by simp
  ultimately show ?case using Cons.IH Cons.prems by simp
qed simp

section \<open>Properties\<close>

text \<open>The tag store is a map.  Any sequence of stores and deletes the flash carries out has the effect of
  the same sequence on a map from tags to values, so each tag reads back as its last value, however
  the tags are chosen and in any order; a read into a buffer that is too small gives nothing, and an
  operation that fails touches no other tag.\<close>

theorem tlv_is_map:
  assumes "dev_ok (tlv_dev t)" and "inj_on cn {0..<16}" and "nvs_active t"
    and "tlv_all_done cn xs t"
  defines "u \<equiv> fold (tlv_step cn) xs t" and "m \<equiv> fold tlv_spec xs (tags cn t)"
  shows "tags cn u = m \<and>
    btstack_tlv_esp32_get_tag cn tag n u =
      (case m tag of None \<Rightarrow> (0, []) | Some v \<Rightarrow> if n < length v then (0, []) else (length v, v)) \<and>
    (tag \<noteq> tlv_tag oper \<longrightarrow> tags cn (tlv_step cn oper u) tag = m tag)"
proof -
  have r: "tags cn u = m \<and> nvs_active u \<and> dev_ok (tlv_dev u)"
    unfolding u_def m_def by (rule tlv_steps_tags [OF assms(1-4)])
  then have o: "tag \<noteq> tlv_tag oper \<longrightarrow> tags cn (tlv_step cn oper u) tag = m tag"
    using tlv_step_tags [OF _ assms(2)] by metis
  have "nvs_get_blob (tlv_dev u) (key_for_tag cn tag) = m tag" using r by (auto simp: tags_def)
  then show ?thesis using r o by (simp add: btstack_tlv_esp32_get_tag_def split: option.split)
qed

text \<open>On the store in memory every operation is carried out.\<close>

lemma tlv_map_done: "dev_ops (tlv_dev t) = map_ops \<Longrightarrow> tlv_all_done cn xs t"
proof (induction xs arbitrary: t)
  case (Cons y ys)
  have "tlv_done cn y t \<and> dev_ops (tlv_dev (tlv_step cn y t)) = map_ops"
    using Cons.prems by (cases y) (auto simp: btstack_tlv_esp32_store_tag_def btstack_tlv_esp32_delete_tag_def nvs_defs
        map_ops_def Let_def)
  then show ?case using Cons.IH by simp
qed simp

theorem tlv_is_map_witness:
  "btstack_tlv_esp32_get_tag char_of 7 16
     (fold (tlv_step char_of) [TlvStore 7 [1], TlvStore 0x70000000 [2, 3], TlvDelete 9, TlvStore 7 [4, 5, 6]]
       \<lparr>nvs_active = True, tlv_dev = map_dev\<rparr>) = (3, [4, 5, 6])"
proof -
  let ?t = "\<lparr>nvs_active = True, tlv_dev = map_dev :: (string \<rightharpoonup> u8 list nvs_val, u8 list) nvs_dev\<rparr>"
  let ?xs = "[TlvStore 7 [1], TlvStore 0x70000000 [2, 3], TlvDelete 9, TlvStore 7 [4, 5, 6]]"
  have t: "dev_ok (tlv_dev ?t)" "nvs_active ?t" by simp_all
  have inj: "inj_on (char_of :: nat \<Rightarrow> char) {0..<16}"
    by (rule inj_on_inverseI [where g = of_char]) simp
  have "tlv_all_done char_of ?xs ?t" by (rule tlv_map_done) (simp add: map_dev_def)
  note r = tlv_is_map [OF t(1) inj t(2) this, where tag = 7 and n = 16, THEN conjunct2, THEN conjunct1]
  have "tags char_of ?t = Map.empty" by (rule ext) (simp add: tags_def)
  then show ?thesis unfolding r by simp
qed

end
