(* ===== verification/Entry.thy ===== *)
theory Entry
  imports Bridge Tlv Vhci "HOL-Library.Monad_Syntax"
begin

text \<open>
  Where the firmware starts: \<open>app_main\<close> of \<open>main/main.c\<close>, \<open>btstack_init\<close> and the event handler of
  \<open>components/btstack-esp32/btstack_port_esp32.c\<close>, and the console input of \<open>btstack_stdio_esp32.c\<close>, over the UART or
  over USB.  Libraries that are only told about each other leave an entry in a trace.  What ESP-IDF and the stack
  answer is an argument; a failed \<open>ESP_ERROR_CHECK\<close> or assertion is None.
\<close>

section \<open>BTstack on the board\<close>

text \<open>The configuration: the internal controller or one on a UART, the dump, classic and low energy, audio.\<close>

record port_cfg =
  cfg_internal_bt :: bool
  cfg_hci_dump :: bool
  cfg_classic :: bool
  cfg_ble :: bool
  cfg_audio :: bool

datatype port_call = MemoryInit | RunLoopInit | HciInit bool | HciDumpInit | TlvInstance | LinkKeyDb | LeDeviceDb
  | AddEventHandler | AudioInstances | SetChipsetZephyr | RandomAddress "u8 list" | BtstackUp "u8 list"

record port_st =
  static_address :: "u8 list"
  port_calls :: "port_call list"

abbreviation pcall :: "port_call \<Rightarrow> port_st \<Rightarrow> port_st" where
  "pcall c p \<equiv> p\<lparr>port_calls := port_calls p @ [c]\<rparr>"

text \<open>\<open>nordic\<close>: the company number of Nordic; \<open>le16\<close>: \<open>little_endian_read_16\<close>.  Only the reads are checked.\<close>

definition local_version_information_handler ::
    "nat \<Rightarrow> (u8 list \<Rightarrow> nat \<Rightarrow> nat) \<Rightarrow> u8 list \<Rightarrow> port_st \<Rightarrow> port_st option" where
  "local_version_information_handler nordic le16 packet p =
     (if length packet < 14 then None
      else let manufacturer = le16 packet 10 in Some (if manufacturer = nordic then pcall SetChipsetZephyr p else p))"

text \<open>An event, decoded by BTstack: its kind, and for the static address where the return parameters start.\<close>

datatype port_event = BtstackState bool "u8 list" | LocalVersion | ZephyrStaticAddress nat | PortOther

definition null_address :: "u8 list \<Rightarrow> bool" where
  "null_address a \<longleftrightarrow> list_all (\<lambda>x. x = 0) a"

definition port_packet_handler ::
    "nat \<Rightarrow> (u8 list \<Rightarrow> nat \<Rightarrow> nat) \<Rightarrow> (u8 list \<Rightarrow> u8 list) \<Rightarrow> bool \<Rightarrow> port_event \<Rightarrow> u8 list \<Rightarrow> nat \<Rightarrow> port_st \<Rightarrow> port_st option" where
  "port_packet_handler nordic le16 reverse_48 is_event ev packet sz p =
     (if \<not> is_event then Some p
      else case ev of
          BtstackState working local_addr \<Rightarrow>
            if working
            then let a = (if null_address local_addr \<and> \<not> null_address (static_address p) then static_address p else local_addr)
                 in Some (pcall (BtstackUp a) p)
            else Some p
        | LocalVersion \<Rightarrow> local_version_information_handler nordic le16 packet p
        | ZephyrStaticAddress q \<Rightarrow>
            if length packet \<le> q then None
            else if packet ! q = 0 \<and> 13 \<le> sz
            then if length packet < q + 8 then None
                 else let a = reverse_48 (take 6 (drop (q + 2) packet)) in Some (pcall (RandomAddress a) (p\<lparr>static_address := a\<rparr>))
            else Some p
        | PortOther \<Rightarrow> Some p)"

text \<open>The flash: starting and erasing it, the errors that ask for an erase, and the two views of it, one for the
  settings of the bridge and one for the tags of BTstack.\<close>

record 's board =
  bd_init :: "'s \<Rightarrow> esp_err \<times> 's"
  bd_erase :: "'s \<Rightarrow> esp_err \<times> 's"
  bd_retry :: "esp_err set"
  bd_ops :: "('s, wifi_list_t) nvs_ops"
  bd_tlv_ops :: "('s, u8 list) nvs_ops"

definition on_img :: "('s \<Rightarrow> esp_err \<times> 's) \<Rightarrow> ('s, 'b) nvs_dev \<Rightarrow> esp_err \<times> ('s, 'b) nvs_dev" where
  "on_img f d = dev_put d (f (dev_img d))"

definition btstack_init :: "port_cfg \<Rightarrow> 's board \<Rightarrow> 's \<Rightarrow> port_st \<Rightarrow> ('s tlv_st \<times> port_st) option" where
  "btstack_init cfg b img p =
     (let p = pcall MemoryInit p;
          p = pcall RunLoopInit p;
          p = pcall (HciInit (cfg_internal_bt cfg)) p;
          p = (if cfg_hci_dump cfg then pcall HciDumpInit p else p)
      in do {
        tlv \<leftarrow> btstack_tlv_esp32_get_instance (on_img (bd_init b)) (on_img (bd_erase b)) (bd_retry b)
          \<lparr>dev_ops = bd_tlv_ops b, dev_img = img\<rparr>;
        let p = pcall TlvInstance p;
            p = (if cfg_classic cfg then pcall LinkKeyDb p else p);
            p = (if cfg_ble cfg then pcall LeDeviceDb p else p);
            p = pcall AddEventHandler p;
            p = (if cfg_audio cfg then pcall AudioInstances p else p)
        in Some (tlv, p)
      })"

section \<open>The console over the UART\<close>

datatype uart_event = UART_DATA nat | UART_FIFO_OVF | UART_BUFFER_FULL | UART_OTHER

datatype stdio_call = FlushStdout | UartParam nat bool | UartDriverInstall nat nat nat | UartVfs | UsbInstall nat nat | StdioTask

record stdio_st =
  stdin_handler :: "nat option"
  btstack_stdio_initialized :: bool
  uart_queue :: "uart_event list"
  uart_rx :: "u8 list"                         \<comment> \<open>what waits in the driver\<close>
  stdin_chars :: "(nat \<times> u8) list"        \<comment> \<open>the calls of the handler\<close>
  stdio_poll :: bool                           \<comment> \<open>\<open>stdio_callback_context\<close> is in the run loop\<close>
  stdio_calls :: "stdio_call list"

abbreviation scall :: "stdio_call \<Rightarrow> stdio_st \<Rightarrow> stdio_st" where
  "scall c s \<equiv> s\<lparr>stdio_calls := stdio_calls s @ [c]\<rparr>"

definition RX_BUF_SIZE :: nat where "RX_BUF_SIZE = 1024"
definition TX_BUF_SIZE :: nat where "TX_BUF_SIZE = 4096"

definition btstack_stdin_setup :: "nat option \<Rightarrow> stdio_st \<Rightarrow> stdio_st" where
  "btstack_stdin_setup handler s = s\<lparr>stdin_handler := handler\<rparr>"

text \<open>Reading the bytes of one event, one by one.\<close>

fun read_chars :: "nat \<Rightarrow> nat \<Rightarrow> stdio_st \<Rightarrow> stdio_st option" where
  "read_chars cb 0 s = Some s"
| "read_chars cb (Suc i) s =
     (case uart_rx s of
        [] \<Rightarrow> None
      | c # rx \<Rightarrow> read_chars cb i (s\<lparr>uart_rx := rx, stdin_chars := stdin_chars s @ [(cb, c)]\<rparr>))"

fun stdio_events :: "uart_event list \<Rightarrow> stdio_st \<Rightarrow> stdio_st option" where
  "stdio_events [] s = Some (s\<lparr>uart_queue := []\<rparr>)"
| "stdio_events (UART_DATA n # q) s =
     (case stdin_handler s of
        None \<Rightarrow> stdio_events q (s\<lparr>uart_rx := []\<rparr>)
      | Some cb \<Rightarrow> (case read_chars cb n s of None \<Rightarrow> None | Some s \<Rightarrow> stdio_events q s))"
| "stdio_events (UART_FIFO_OVF # q) s = Some (s\<lparr>uart_rx := [], uart_queue := []\<rparr>)"
| "stdio_events (UART_BUFFER_FULL # q) s = Some (s\<lparr>uart_rx := [], uart_queue := []\<rparr>)"
| "stdio_events (UART_OTHER # q) s = stdio_events q s"

definition btstack_stdio_process :: "stdio_st \<Rightarrow> stdio_st option" where
  "btstack_stdio_process s = stdio_events (uart_queue s) (s\<lparr>stdio_poll := False\<rparr>)"

text \<open>One round of the task; it waits while the queue is empty.\<close>

definition btstack_stdio_task :: "stdio_st \<Rightarrow> stdio_st" where
  "btstack_stdio_task s = (if uart_queue s = [] then s else s\<lparr>stdio_poll := True\<rparr>)"

text \<open>\<open>ref_tick\<close>: the UART can be clocked by the reference tick; then only a high rate uses the default clock.\<close>

definition btstack_stdio_init :: "bool \<Rightarrow> nat \<Rightarrow> bool \<times> bool \<Rightarrow> stdio_st \<Rightarrow> stdio_st option" where
  "btstack_stdio_init ref_tick baud_rate rets s =
     (let s = scall FlushStdout s;
          default_clock = (ref_tick \<and> 1000000 < baud_rate);
          (param, install) = rets
      in if \<not> param then None
         else let s = scall (UartParam baud_rate default_clock) s in
           if \<not> install then None
           else let s = scall (UartDriverInstall RX_BUF_SIZE TX_BUF_SIZE 10) s;
                    s = scall UartVfs s;
                    s = scall StdioTask s
                in Some (s\<lparr>btstack_stdio_initialized := True\<rparr>))"

section \<open>The console over USB\<close>

record 'r jtag_st =
  jtag_ring :: 'r
  jtag_handler :: "nat option"
  jtag_chars :: "(nat \<times> u8) list"
  jtag_poll :: bool

text \<open>One round of the loop that empties the ring buffer; the flag says whether it goes on.\<close>

definition jtag_round :: "'r ring_ops \<Rightarrow> 'r jtag_st \<Rightarrow> (bool \<times> 'r jtag_st) option" where
  "jtag_round ops s =
     (if rg_avail ops (jtag_ring s) = 0 then Some (False, s)
      else let (got, r) = rg_read ops (jtag_ring s) 1; s = s\<lparr>jtag_ring := r\<rparr> in
        case got of
          [c] \<Rightarrow> Some (True, case jtag_handler s of None \<Rightarrow> s | Some cb \<Rightarrow> s\<lparr>jtag_chars := jtag_chars s @ [(cb, c)]\<rparr>)
        | _ \<Rightarrow> None)"

fun jtag_rounds :: "'r ring_ops \<Rightarrow> nat \<Rightarrow> 'r jtag_st \<Rightarrow> 'r jtag_st option" where
  "jtag_rounds ops 0 s = None"
| "jtag_rounds ops (Suc fuel) s =
     (case jtag_round ops s of None \<Rightarrow> None | Some (go, s) \<Rightarrow> if go then jtag_rounds ops fuel s else Some s)"

definition jtag_stdio_process :: "'r ring_ops \<Rightarrow> nat \<Rightarrow> 'r jtag_st \<Rightarrow> 'r jtag_st option" where
  "jtag_stdio_process ops fuel s = jtag_rounds ops fuel (s\<lparr>jtag_poll := False\<rparr>)"

text \<open>A round of the task, with the bytes it read, at most 99.\<close>

definition jtag_stdio_task :: "'r ring_ops \<Rightarrow> u8 list \<Rightarrow> 'r jtag_st \<Rightarrow> 'r jtag_st" where
  "jtag_stdio_task ops line s =
     (if line = [] then s else s\<lparr>jtag_ring := rg_write ops (jtag_ring s) line, jtag_poll := True\<rparr>)"

definition jtag_stdio_init :: "bool \<Rightarrow> stdio_st \<Rightarrow> stdio_st option" where
  "jtag_stdio_init install s =
     (if \<not> install then None
      else let s = scall (UsbInstall RX_BUF_SIZE TX_BUF_SIZE) s; s = scall StdioTask s in Some (s\<lparr>btstack_stdio_initialized := True\<rparr>))"

section \<open>The start\<close>

definition app_flash :: "('s \<Rightarrow> esp_err \<times> 's) \<Rightarrow> ('s \<Rightarrow> esp_err \<times> 's) \<Rightarrow> esp_err set \<Rightarrow> 's \<Rightarrow> 's option" where
  "app_flash flash_init flash_erase retry img =
     (let (err, img) = flash_init img in
      if err \<in> retry
      then let (err, img) = flash_erase img in
        if err \<noteq> ESP_OK then None
        else let (err, img) = flash_init img in if err \<noteq> ESP_OK then None else Some img
      else Some img)"

text \<open>The same at the start of \<open>btstack_main\<close> of \<open>main/gateway.c\<close>, where no answer but the first is looked at.\<close>

definition btstack_main_flash :: "('s \<Rightarrow> esp_err \<times> 's) \<Rightarrow> ('s \<Rightarrow> esp_err \<times> 's) \<Rightarrow> esp_err set \<Rightarrow> 's \<Rightarrow> 's" where
  "btstack_main_flash flash_init flash_erase retry img =
     (let (ret, img) = flash_init img in
      if ret \<in> retry then let (_, img) = flash_erase img; (_, img) = flash_init img in img else img)"

text \<open>\<open>console\<close>: whether one is configured, and what its initialisation is told.  The run loop then runs the callbacks and events
  of \<open>bridge_step\<close>.\<close>

definition app_main ::
    "port_cfg \<Rightarrow> 's board \<Rightarrow> (bool \<times> nat \<times> bool \<times> bool) option \<Rightarrow> main_env \<Rightarrow> dns_state \<Rightarrow> 's \<Rightarrow> port_st \<Rightarrow> stdio_st \<Rightarrow>
     ('s tlv_st \<times> port_st \<times> stdio_st \<times> 's ppp_st \<times> ('s, wifi_list_t) bm_state \<times> dns_state \<times> px_cfg) option" where
  "app_main cfg b console m dn img p st = do {
     img \<leftarrow> app_flash (bd_init b) (bd_erase b) (bd_retry b) img;
     (tlv, p) \<leftarrow> btstack_init cfg b img p;
     st \<leftarrow> (case console of None \<Rightarrow> Some st | Some (ref_tick, baud, rets) \<Rightarrow> btstack_stdio_init ref_tick baud rets st);
     let img = btstack_main_flash (bd_init b) (bd_erase b) (bd_retry b) (dev_img (tlv_dev tlv));
     let d = \<lparr>dev_ops = bd_ops b, dev_img = img\<rparr>;
     (s, bm, dn, px) \<leftarrow> btstack_main m (ppp_boot d, bm_fresh d, dn);
     Some (tlv, p, st, s, bm, dn, px)
   }"

section \<open>What the start does\<close>

text \<open>Every start that gets through is a run of the bridge on the flash it found or erased.\<close>

theorem start_is_run:
  assumes "app_main cfg b console m dn img p st = Some (tlv, p', st', s, rest)"
  shows "bridge_run \<lparr>dev_ops = bd_ops b, dev_img = btstack_main_flash (bd_init b) (bd_erase b) (bd_retry b) (dev_img (tlv_dev tlv))\<rparr> s"
proof -
  from assms obtain bm dn' where
    "btstack_main m (ppp_boot \<lparr>dev_ops = bd_ops b, dev_img = btstack_main_flash (bd_init b) (bd_erase b) (bd_retry b) (dev_img (tlv_dev tlv))\<rparr>, bm, dn') = Some (s, rest)"
    by (auto simp: app_main_def Let_def split: bind_splits option.splits prod.splits)
  then show ?thesis by (rule br_start)
qed

text \<open>A flash that starts, at once or after it was erased.\<close>

definition flash_starts :: "'s board \<Rightarrow> 's \<Rightarrow> 's \<Rightarrow> bool" where
  "flash_starts b img img' \<longleftrightarrow> ESP_OK \<notin> bd_retry b \<and> fst (bd_init b img') = ESP_OK \<and> snd (bd_init b img') = img' \<and>
     (bd_init b img = (ESP_OK, img') \<or>
      fst (bd_init b img) \<in> bd_retry b \<and> fst (bd_erase b (snd (bd_init b img))) = ESP_OK \<and>
        bd_init b (snd (bd_erase b (snd (bd_init b img)))) = (ESP_OK, img'))"

lemma app_flash_ok: "flash_starts b img img' \<Longrightarrow> app_flash (bd_init b) (bd_erase b) (bd_retry b) img = Some img'"
  by (auto simp: flash_starts_def app_flash_def Let_def split: prod.split)

lemma main_flash_ok: "flash_starts b img img' \<Longrightarrow> btstack_main_flash (bd_init b) (bd_erase b) (bd_retry b) img' = img'"
  by (auto simp: flash_starts_def btstack_main_flash_def split: prod.split)

lemma btstack_init_ok:
  assumes "flash_starts b img img'"
  obtains tlv p' where "btstack_init cfg b img' p = Some (tlv, p')" "tlv_dev tlv = \<lparr>dev_ops = bd_tlv_ops b, dev_img = img'\<rparr>"
proof -
  have i: "bd_init b img' = (ESP_OK, img')" "ESP_OK \<notin> bd_retry b" using assms by (auto simp: flash_starts_def prod_eq_iff)
  then have "btstack_tlv_esp32_get_instance (on_img (bd_init b)) (on_img (bd_erase b)) (bd_retry b) \<lparr>dev_ops = bd_tlv_ops b, dev_img = img'\<rparr> =
    Some \<lparr>nvs_active = (nvs_open \<lparr>dev_ops = bd_tlv_ops b, dev_img = img'\<rparr> True = ESP_OK), tlv_dev = \<lparr>dev_ops = bd_tlv_ops b, dev_img = img'\<rparr>\<rparr>"
    by (simp add: btstack_tlv_esp32_get_instance_def flash_start_def on_img_def dev_put_def)
  then show thesis using that by (fastforce simp: btstack_init_def Let_def)
qed

text \<open>C29: With memory for the stream buffer, a conforming record encoder and a console that can be set up (if there is one),
  the firmware comes up on every flash that starts, a worn one that has to be erased included.  When the flash cannot be
  started and reports an error that asks for an erase, \<open>app_main\<close> aborts itself, because the second attempt fails; when it reports
  any other error, \<open>app_main\<close> goes on, but the tag store of BTstack then aborts.\<close>

theorem start_outcome:
  assumes "me_stream m" and "len_standard (me_len m)" and "\<And>r n q. console = Some (r, n, q) \<Longrightarrow> q = (True, True)"
  shows "(flash_starts b img img' \<longrightarrow>
      (\<exists>tlv p' st' s rest. app_main cfg b console m dn img p st = Some (tlv, p', st', s, rest) \<and> dev_img (tlv_dev tlv) = img' \<and>
         bridge_run \<lparr>dev_ops = bd_ops b, dev_img = img'\<rparr> s)) \<and>
    ((\<forall>i. fst (bd_init b i) \<noteq> ESP_OK) \<longrightarrow>
      (if fst (bd_init b img) \<in> bd_retry b then app_flash (bd_init b) (bd_erase b) (bd_retry b) img = None
       else app_flash (bd_init b) (bd_erase b) (bd_retry b) img = Some (snd (bd_init b img)) \<and>
         btstack_init cfg b (snd (bd_init b img)) p = None) \<and>
      app_main cfg b console m dn img p st = None)"
proof (intro conjI impI)
  assume f: "flash_starts b img img'"
  obtain tlv p' where t: "btstack_init cfg b img' p = Some (tlv, p')" "tlv_dev tlv = \<lparr>dev_ops = bd_tlv_ops b, dev_img = img'\<rparr>"
    by (rule btstack_init_ok [OF f])
  let ?d = "\<lparr>dev_ops = bd_ops b, dev_img = img'\<rparr>"
  obtain s bm' dn' px where m: "btstack_main m (ppp_boot ?d, bm_fresh ?d, dn) = Some (s, bm', dn', px)"
    by (rule bring_up_succeeds [OF assms(1,2)])
  obtain st' where st: "(case console of None \<Rightarrow> Some st | Some (r, n, q) \<Rightarrow> btstack_stdio_init r n q st) = Some st'"
    using assms(3) by (cases console) (auto simp: btstack_stdio_init_def Let_def)
  have "app_main cfg b console m dn img p st = Some (tlv, p', st', s, bm', dn', px)"
    using app_flash_ok [OF f] main_flash_ok [OF f] t m st by (simp add: app_main_def)
  moreover have "bridge_run ?d s" by (rule br_start [OF m])
  ultimately show "\<exists>tlv p' st' s rest. app_main cfg b console m dn img p st = Some (tlv, p', st', s, rest) \<and> dev_img (tlv_dev tlv) = img' \<and>
         bridge_run ?d s" using t(2) by auto
next
  assume dead: "\<forall>i. fst (bd_init b i) \<noteq> ESP_OK"
  then have "btstack_tlv_esp32_get_instance (on_img (bd_init b)) (on_img (bd_erase b)) (bd_retry b) d = None"
    for d :: "('a, u8 list) nvs_dev"
    by (auto simp: btstack_tlv_esp32_get_instance_def flash_start_def on_img_def dev_put_def Let_def)
  then have i: "btstack_init cfg b i p = None" for i by (simp add: btstack_init_def Let_def)
  then show "app_main cfg b console m dn img p st = None" by (simp add: app_main_def split: bind_splits)
  show "if fst (bd_init b img) \<in> bd_retry b then app_flash (bd_init b) (bd_erase b) (bd_retry b) img = None
      else app_flash (bd_init b) (bd_erase b) (bd_retry b) img = Some (snd (bd_init b img)) \<and>
        btstack_init cfg b (snd (bd_init b img)) p = None"
    using dead i by (auto simp: app_flash_def Let_def prod_eq_iff split: prod.split)
qed

text \<open>Two stores on one flash, which has to be erased before it starts.\<close>

definition part_ops :: "('t \<Rightarrow> 's) \<Rightarrow> ('s \<Rightarrow> 't \<Rightarrow> 't) \<Rightarrow> ('s, 'b) nvs_ops \<Rightarrow> ('t, 'b) nvs_ops" where
  "part_ops g p ops = \<lparr>op_open = \<lambda>i. op_open ops (g i), op_get_str = \<lambda>i. op_get_str ops (g i), op_get_u8 = \<lambda>i. op_get_u8 ops (g i),
     op_get_u16 = \<lambda>i. op_get_u16 ops (g i), op_get_blob = \<lambda>i. op_get_blob ops (g i),
     op_set_str = \<lambda>i k v. map_prod id (\<lambda>s. p s i) (op_set_str ops (g i) k v), op_set_u8 = \<lambda>i k v. map_prod id (\<lambda>s. p s i) (op_set_u8 ops (g i) k v),
     op_set_u16 = \<lambda>i k v. map_prod id (\<lambda>s. p s i) (op_set_u16 ops (g i) k v),
     op_set_blob = \<lambda>i k v. map_prod id (\<lambda>s. p s i) (op_set_blob ops (g i) k v),
     op_erase_key = \<lambda>i k. map_prod id (\<lambda>s. p s i) (op_erase_key ops (g i) k), op_commit = \<lambda>i. map_prod id (\<lambda>s. p s i) (op_commit ops (g i))\<rparr>"

definition demo_board :: "((string \<rightharpoonup> wifi_list_t nvs_val) \<times> (string \<rightharpoonup> u8 list nvs_val)) board" where
  "demo_board = \<lparr>bd_init = \<lambda>i. (if fst i ''worn'' = None then ESP_OK else ESP_FAIL 1, i), bd_erase = \<lambda>i. (ESP_OK, (Map.empty, Map.empty)),
     bd_retry = {ESP_FAIL 1}, bd_ops = part_ops fst (\<lambda>s i. (s, snd i)) map_ops, bd_tlv_ops = part_ops snd (\<lambda>s i. (fst i, s)) map_ops\<rparr>"

theorem start_outcome_witness:
  "\<exists>tlv p st s rest. app_main \<lparr>cfg_internal_bt = True, cfg_hci_dump = False, cfg_classic = True, cfg_ble = False, cfg_audio = False\<rparr> demo_board
      (Some (True, 115200, True, True)) main_env_good demo_dns ([''worn'' \<mapsto> VU8 1], Map.empty)
      \<lparr>static_address = [], port_calls = []\<rparr>
      \<lparr>stdin_handler = None, btstack_stdio_initialized = False, uart_queue = [], uart_rx = [], stdin_chars = [], stdio_poll = False, stdio_calls = []\<rparr> =
        Some (tlv, p, st, s, rest) \<and>
      bridge_run \<lparr>dev_ops = bd_ops demo_board, dev_img = (Map.empty, Map.empty)\<rparr> s"
proof -
  have "flash_starts demo_board ([''worn'' \<mapsto> VU8 1], Map.empty) (Map.empty, Map.empty)"
    by (simp add: flash_starts_def demo_board_def)
  then show ?thesis
    using start_outcome [OF main_env_good_sel, of "Some (True, 115200, True, True)" demo_board "([''worn'' \<mapsto> VU8 1], Map.empty)" "(Map.empty, Map.empty)"]
    by fastforce
qed

section \<open>Events of the port\<close>

text \<open>The handler reads only what the event has: 14 bytes of a version, and the return parameters from their start when the size
  says they are there; the address is set only by a command that succeeded.\<close>

lemma port_events_safe:
  assumes "ev = LocalVersion \<Longrightarrow> 14 \<le> length packet" and "\<And>q. ev = ZephyrStaticAddress q \<Longrightarrow> q = 5 \<and> 6 \<le> length packet" and "sz = length packet"
  shows "\<exists>p'. port_packet_handler nordic le16 r48 is_event ev packet sz p = Some p' \<and>
    (static_address p' \<noteq> static_address p \<longrightarrow> ev = ZephyrStaticAddress 5 \<and> packet ! 5 = 0 \<and> static_address p' = r48 (take 6 (drop 7 packet)))"
  using assms by (cases ev) (auto simp: port_packet_handler_def local_version_information_handler_def Let_def)

section \<open>Console input\<close>

lemma read_chars_eq:
  "n \<le> length (uart_rx s) \<Longrightarrow> read_chars cb n s =
     Some (s\<lparr>uart_rx := drop n (uart_rx s), stdin_chars := stdin_chars s @ map (Pair cb) (take n (uart_rx s))\<rparr>)"
proof (induction n arbitrary: s)
  case (Suc i)
  then obtain c rx where "uart_rx s = c # rx" by (cases "uart_rx s") auto
  with Suc show ?case by simp
qed simp

fun data_total :: "uart_event list \<Rightarrow> nat" where
  "data_total [] = 0"
| "data_total (UART_DATA n # q) = n + data_total q"
| "data_total (e # q) = data_total q"

text \<open>With a handler set and no overflow, the bytes the events announce reach the handler in their order and the others stay; an
  overflow drops the rest of both.  Without one, everything is dropped.\<close>

lemma stdio_delivers:
  assumes "stdin_handler s = Some cb" and "data_total q \<le> length (uart_rx s)" and "UART_FIFO_OVF \<notin> set q" and "UART_BUFFER_FULL \<notin> set q"
  shows "stdio_events q s = Some (s\<lparr>uart_queue := [], uart_rx := drop (data_total q) (uart_rx s),
     stdin_chars := stdin_chars s @ map (Pair cb) (take (data_total q) (uart_rx s))\<rparr>)"
  using assms
proof (induction q s rule: stdio_events.induct)
  case (2 n q s)
  then have n: "n \<le> length (uart_rx s)" by simp
  from 2 read_chars_eq [OF n, of cb] show ?case by (simp add: take_add add.commute)
qed simp_all

theorem stdio_input:
  assumes "data_total (uart_queue s) \<le> length (uart_rx s)"
  shows "\<exists>t k. btstack_stdio_process s = Some t \<and> uart_queue t = [] \<and>
    stdin_chars t = stdin_chars s @ (case stdin_handler s of None \<Rightarrow> [] | Some cb \<Rightarrow> map (Pair cb) (take k (uart_rx s))) \<and>
    (UART_FIFO_OVF \<notin> set (uart_queue s) \<and> UART_BUFFER_FULL \<notin> set (uart_queue s) \<longrightarrow> k = data_total (uart_queue s))"
proof -
  have "\<exists>t k. stdio_events q u = Some t \<and> uart_queue t = [] \<and>
      stdin_chars t = stdin_chars u @ (case stdin_handler u of None \<Rightarrow> [] | Some cb \<Rightarrow> map (Pair cb) (take k (uart_rx u))) \<and>
      (UART_FIFO_OVF \<notin> set q \<and> UART_BUFFER_FULL \<notin> set q \<longrightarrow> k = data_total q)"
    if "stdin_handler u = None \<or> data_total q \<le> length (uart_rx u)" for q u
    using that
  proof (induction q u rule: stdio_events.induct)
    case (2 n q u)
    show ?case
    proof (cases "stdin_handler u")
      case None
      from 2(1) [OF None] None obtain t k where "stdio_events q (u\<lparr>uart_rx := []\<rparr>) = Some t" "uart_queue t = []"
        "stdin_chars t = stdin_chars u" by auto
      with None show ?thesis by (intro exI [of _ t] exI [of _ "data_total (UART_DATA n # q)"]) simp
    next
      case (Some cb)
      with 2(3) have n: "n \<le> length (uart_rx u)" "data_total q \<le> length (drop n (uart_rx u))" by simp_all
      note rc = read_chars_eq [OF n(1), of cb]
      from 2(2) [OF Some rc] Some n(2) obtain t k where t: "stdio_events q (u\<lparr>uart_rx := drop n (uart_rx u),
          stdin_chars := stdin_chars u @ map (Pair cb) (take n (uart_rx u))\<rparr>) = Some t" "uart_queue t = []"
        "stdin_chars t = (stdin_chars u @ map (Pair cb) (take n (uart_rx u))) @ map (Pair cb) (take k (drop n (uart_rx u)))"
        "UART_FIFO_OVF \<notin> set q \<and> UART_BUFFER_FULL \<notin> set q \<longrightarrow> k = data_total q" by auto
      with Some rc show ?thesis
        by (intro exI [of _ t] exI [of _ "n + k"]) (simp add: take_add)
    qed
  next
    case (1 u)
    then show ?case by (intro exI [of _ "u\<lparr>uart_queue := []\<rparr>"] exI [of _ 0]) (simp split: option.split)
  next
    case (3 q u)
    then show ?case by (intro exI [of _ "u\<lparr>uart_rx := [], uart_queue := []\<rparr>"] exI [of _ 0]) (simp split: option.split)
  next
    case (4 q u)
    then show ?case by (intro exI [of _ "u\<lparr>uart_rx := [], uart_queue := []\<rparr>"] exI [of _ 0]) (simp split: option.split)
  qed simp_all
  from this [of "s\<lparr>stdio_poll := False\<rparr>" "uart_queue s"] assms show ?thesis by (simp add: btstack_stdio_process_def cong: option.case_cong)
qed

text \<open>Over USB: one round more than there are bytes empties the ring buffer, in order.\<close>

lemma jtag_rounds_all:
  assumes ok: "ring_ok ops view cap" and f: "length (view (jtag_ring s)) < fuel"
  shows "\<exists>t. jtag_rounds ops fuel s = Some t \<and> view (jtag_ring t) = [] \<and> jtag_handler t = jtag_handler s \<and>
    jtag_chars t = jtag_chars s @ (case jtag_handler s of None \<Rightarrow> [] | Some cb \<Rightarrow> map (Pair cb) (view (jtag_ring s)))"
  using f
proof (induction fuel arbitrary: s)
  case (Suc fuel)
  show ?case
  proof (cases "view (jtag_ring s)")
    case Nil
    then show ?thesis by (auto simp: jtag_round_def ring_okD(3) [OF ok] split: option.split)
  next
    case (Cons c v)
    obtain got r where g: "rg_read ops (jtag_ring s) 1 = (got, r)" by fastforce
    with ring_okD(5,6) [OF ok, of "jtag_ring s" 1] Cons have g2: "got = [c]" "view r = v" by simp_all
    let ?s = "case jtag_handler s of None \<Rightarrow> s\<lparr>jtag_ring := r\<rparr> | Some cb \<Rightarrow> s\<lparr>jtag_ring := r, jtag_chars := jtag_chars s @ [(cb, c)]\<rparr>"
    have 1: "jtag_round ops s = Some (True, ?s)"
      using g g2 Cons by (simp add: jtag_round_def ring_okD(3) [OF ok] split: option.split)
    have 2: "view (jtag_ring ?s) = v" "jtag_handler ?s = jtag_handler s" using g2 by (simp_all split: option.split)
    with Suc.prems Cons have "length (view (jtag_ring ?s)) < fuel" by simp
    from Suc.IH [OF this] 2 obtain t where "jtag_rounds ops fuel ?s = Some t" "view (jtag_ring t) = []" "jtag_handler t = jtag_handler s"
      "jtag_chars t = jtag_chars ?s @ (case jtag_handler s of None \<Rightarrow> [] | Some cb \<Rightarrow> map (Pair cb) v)" by auto
    with 1 Cons show ?thesis by (cases "jtag_handler s") simp_all
  qed
qed simp

end
