(* ===== verification/HalUart.thy ===== *)
theory HalUart
  imports Prelude
begin

text \<open>
  The serial driver for an external controller, \<open>components/btstack-esp32/hal_uart_dma_esp32.c\<close>: blocks are
  read from and written to the FIFOs of the UART by the caller as far as they go, the rest by the interrupt
  handler.  The register access of ESP-IDF is the parameter \<open>uart_ops\<close>, with \<open>uart_ok\<close> as its documented
  behaviour; the two interrupts have a raw and an enable bit.  A callback of the client is a number, calling
  it is an entry of \<open>hal_notes\<close>; calling a null pointer and a failed assertion are None.  The synchronous
  writing of \<open>ENABLE_UART_SYNCHRONOUS_WRITE\<close> is not configured.
\<close>

section \<open>The driver\<close>

record 'u uart_ops =
  ll_txfifo_len :: "'u \<Rightarrow> u32"                     \<comment> \<open>free places\<close>
  ll_rxfifo_len :: "'u \<Rightarrow> u32"
  ll_write_txfifo :: "'u \<Rightarrow> u8 list \<Rightarrow> 'u"
  ll_read_rxfifo :: "'u \<Rightarrow> nat \<Rightarrow> u8 list \<times> 'u"
  ll_fifo_def_len :: u16                              \<comment> \<open>\<open>UART_LL_FIFO_DEF_LEN\<close>\<close>

datatype uart_note = BlockReceived nat "u8 list" | BlockSent nat

datatype uart_call = NReset bool | ParamConfig u32 bool | SetPin | InverseRts | IntrAlloc | TxEmptyThr nat

record 'u hal_st =
  uart_dev :: 'u
  receive_callback :: "nat option"
  send_callback :: "nat option"
  rx_got :: "u8 list"                \<comment> \<open>the bytes before \<open>rx_transfer.buf\<close>\<close>
  rx_nbytes :: u16
  tx_rest :: "u8 list"               \<comment> \<open>the bytes from \<open>tx_transfer.buf\<close> on\<close>
  tx_nbytes :: u16
  rx_full_thr :: u16
  rx_raw :: bool
  rx_ena :: bool
  tx_raw :: bool
  tx_ena :: bool
  uart_baud :: u32
  uart_flow :: bool
  hal_notes :: "uart_note list"
  uart_calls :: "uart_call list"

definition hal_uart_dma_fill_tx_fifo :: "'u uart_ops \<Rightarrow> 'u hal_st \<Rightarrow> 'u hal_st" where
  "hal_uart_dma_fill_tx_fifo ops s =
     (let space = (ucast (ll_txfifo_len ops (uart_dev s)) :: u16);
          chunk = min space (tx_nbytes s)
      in if 0 < chunk
         then s\<lparr>uart_dev := ll_write_txfifo ops (uart_dev s) (take (unat chunk) (tx_rest s)),
                tx_nbytes := tx_nbytes s - chunk, tx_rest := drop (unat chunk) (tx_rest s)\<rparr>
         else s)"

definition hal_uart_dma_read_rx_fifo :: "'u uart_ops \<Rightarrow> 'u hal_st \<Rightarrow> 'u hal_st" where
  "hal_uart_dma_read_rx_fifo ops s =
     (let available = (ucast (ll_rxfifo_len ops (uart_dev s)) :: u16);
          chunk = min available (rx_nbytes s)
      in if 0 < chunk
         then let (got, u) = ll_read_rxfifo ops (uart_dev s) (unat chunk)
              in s\<lparr>uart_dev := u, rx_nbytes := rx_nbytes s - chunk, rx_got := rx_got s @ got\<rparr>
         else s)"

definition call_received :: "'u hal_st \<Rightarrow> 'u hal_st option" where
  "call_received s = map_option (\<lambda>cb. s\<lparr>hal_notes := hal_notes s @ [BlockReceived cb (rx_got s)]\<rparr>) (receive_callback s)"

definition call_sent :: "'u hal_st \<Rightarrow> 'u hal_st option" where
  "call_sent s = map_option (\<lambda>cb. s\<lparr>hal_notes := hal_notes s @ [BlockSent cb]\<rparr>) (send_callback s)"

definition isr_rx :: "'u uart_ops \<Rightarrow> 'u hal_st \<Rightarrow> 'u hal_st option" where
  "isr_rx ops s =
     (let s = hal_uart_dma_read_rx_fifo ops (s\<lparr>rx_raw := False\<rparr>)
      in if rx_nbytes s = 0 then call_received (s\<lparr>rx_ena := False\<rparr>)
         else Some (s\<lparr>rx_full_thr := min (ll_fifo_def_len ops - 1) (rx_nbytes s)\<rparr>))"

definition isr_tx :: "'u uart_ops \<Rightarrow> 'u hal_st \<Rightarrow> 'u hal_st option" where
  "isr_tx ops s =
     (let s = hal_uart_dma_fill_tx_fifo ops (s\<lparr>tx_raw := False\<rparr>)
      in if tx_nbytes s = 0 then call_sent (s\<lparr>tx_ena := False\<rparr>) else Some s)"

definition hal_uart_dma_isr :: "'u uart_ops \<Rightarrow> 'u hal_st \<Rightarrow> 'u hal_st option" where
  "hal_uart_dma_isr ops s =
     (let rx = rx_raw s \<and> rx_ena s; tx = tx_raw s \<and> tx_ena s
      in case (if rx then isr_rx ops s else Some s) of
           None \<Rightarrow> None
         | Some s \<Rightarrow> if tx then isr_tx ops s else Some s)"

text \<open>\<open>nreset\<close>: whether \<open>UART_NRESET\<close> is a pin; \<open>rts_inv\<close>: \<open>CONFIG_EXAMPLE_HCI_UART_INVERT_RTS\<close>; the last
  argument is what the checked configuration calls return, in their order.\<close>

definition hal_uart_dma_init :: "bool \<Rightarrow> bool \<Rightarrow> bool \<times> bool \<times> bool \<Rightarrow> 'u hal_st \<Rightarrow> 'u hal_st option" where
  "hal_uart_dma_init nreset rts_inv rets s =
     (let (cfg, pin, line) = rets;
          s = (if nreset then s\<lparr>uart_calls := uart_calls s @ [NReset False, NReset True]\<rparr> else s)
      in if \<not> cfg then None
         else let s = s\<lparr>uart_calls := uart_calls s @ [ParamConfig (uart_baud s) (uart_flow s)]\<rparr> in
           if \<not> pin then None
           else let s = s\<lparr>uart_calls := uart_calls s @ [SetPin]\<rparr> in
             if rts_inv \<and> \<not> line then None
             else let s = (if rts_inv then s\<lparr>uart_calls := uart_calls s @ [InverseRts]\<rparr> else s)
                  in Some (s\<lparr>rx_ena := False, tx_ena := False,
                             uart_calls := uart_calls s @ [IntrAlloc, TxEmptyThr 10]\<rparr>))"

definition hal_uart_dma_set_block_received :: "nat option \<Rightarrow> 'u hal_st \<Rightarrow> 'u hal_st" where
  "hal_uart_dma_set_block_received cb s = s\<lparr>receive_callback := cb\<rparr>"

definition hal_uart_dma_set_block_sent :: "nat option \<Rightarrow> 'u hal_st \<Rightarrow> 'u hal_st option" where
  "hal_uart_dma_set_block_sent cb s = (if cb = None then None else Some (s\<lparr>send_callback := cb\<rparr>))"

definition hal_uart_dma_set_baud :: "bool \<Rightarrow> u32 \<Rightarrow> 'u hal_st \<Rightarrow> (int \<times> 'u hal_st) option" where
  "hal_uart_dma_set_baud cfg baud s =
     (let s = s\<lparr>uart_baud := baud\<rparr>
      in if cfg then Some (0, s\<lparr>uart_calls := uart_calls s @ [ParamConfig (uart_baud s) (uart_flow s)]\<rparr>) else None)"

definition hal_uart_dma_set_flowcontrol :: "bool \<Rightarrow> bool \<Rightarrow> 'u hal_st \<Rightarrow> (int \<times> 'u hal_st) option" where
  "hal_uart_dma_set_flowcontrol cfg on s =
     (let s = s\<lparr>uart_flow := on\<rparr>
      in if cfg then Some (0, s\<lparr>uart_calls := uart_calls s @ [ParamConfig (uart_baud s) (uart_flow s)]\<rparr>) else None)"

definition hal_uart_dma_receive_block :: "'u uart_ops \<Rightarrow> u16 \<Rightarrow> 'u hal_st \<Rightarrow> 'u hal_st option" where
  "hal_uart_dma_receive_block ops len s =
     (if rx_nbytes s \<noteq> 0 then None
      else let s = hal_uart_dma_read_rx_fifo ops (s\<lparr>rx_got := [], rx_nbytes := len\<rparr>)
        in if 0 < rx_nbytes s
           then Some (s\<lparr>rx_full_thr := min (ll_fifo_def_len ops - 1) (rx_nbytes s), rx_raw := False, rx_ena := True\<rparr>)
           else call_received s)"

definition hal_uart_dma_send_block :: "'u uart_ops \<Rightarrow> u8 list \<Rightarrow> u16 \<Rightarrow> 'u hal_st \<Rightarrow> 'u hal_st option" where
  "hal_uart_dma_send_block ops buffer len s =
     (if tx_nbytes s \<noteq> 0 then None
      else let s = hal_uart_dma_fill_tx_fifo ops (s\<lparr>tx_rest := buffer, tx_nbytes := len\<rparr>)
        in if 0 < tx_nbytes s then Some (s\<lparr>tx_raw := False, tx_ena := True\<rparr>) else call_sent s)"

section \<open>The FIFOs\<close>

text \<open>\<open>rxv\<close>: what waits in the receive FIFO.  \<open>txv\<close>: what was written to the transmit FIFO so far.\<close>

definition uart_ok :: "'u uart_ops \<Rightarrow> ('u \<Rightarrow> u8 list) \<Rightarrow> ('u \<Rightarrow> u8 list) \<Rightarrow> bool" where
  "uart_ok ops rxv txv \<longleftrightarrow> 2 \<le> ll_fifo_def_len ops \<and>
     (\<forall>u. length (rxv u) < 2 ^ 16 \<and> ll_rxfifo_len ops u = word_of_nat (length (rxv u)) \<and>
        unat (ll_txfifo_len ops u) < 2 ^ 16 \<and>
        (\<forall>d. length d \<le> unat (ll_txfifo_len ops u) \<longrightarrow>
           txv (ll_write_txfifo ops u d) = txv u @ d \<and> rxv (ll_write_txfifo ops u d) = rxv u) \<and>
        (\<forall>n \<le> length (rxv u). fst (ll_read_rxfifo ops u n) = take n (rxv u) \<and>
           rxv (snd (ll_read_rxfifo ops u n)) = drop n (rxv u) \<and> txv (snd (ll_read_rxfifo ops u n)) = txv u))"

lemma u16_of_u32: "unat (w :: u32) < 2 ^ 16 \<Longrightarrow> unat (ucast w :: u16) = unat w"
  by (simp add: unsigned_ucast_eq take_bit_eq_mod)

lemma rxfifo_len:
  assumes "uart_ok ops rxv txv"
  shows "unat (ucast (ll_rxfifo_len ops u) :: u16) = length (rxv u)"
proof -
  have l: "length (rxv u) < 2 ^ 16" and e: "ll_rxfifo_len ops u = word_of_nat (length (rxv u))"
    using assms by (simp_all add: uart_ok_def)
  have "unat (word_of_nat (length (rxv u)) :: u32) = length (rxv u)"
    using l by (simp add: unsigned_of_nat take_bit_eq_mod)
  then show ?thesis using l u16_of_u32 [of "ll_rxfifo_len ops u"] by (simp add: e)
qed

lemma unat_min16: "unat (min a b :: u16) = min (unat a) (unat b)"
  by (simp add: min_def word_le_nat_alt)

lemma word_sub_nat: "n \<le> unat w \<Longrightarrow> unat (w - word_of_nat n :: u16) = unat w - n"
proof -
  assume n: "n \<le> unat w"
  then have e: "unat (word_of_nat n :: u16) = n"
    using unsigned_less [of w, where ?'a = nat] by (simp add: unsigned_of_nat take_bit_eq_mod)
  with n have "word_of_nat n \<le> w" by (simp add: word_le_nat_alt)
  then show ?thesis by (simp add: unat_sub e)
qed

lemma read_rx:
  assumes ok: "uart_ok ops rxv txv"
  defines "n s \<equiv> min (length (rxv (uart_dev s))) (unat (rx_nbytes s))"
  obtains u where "hal_uart_dma_read_rx_fifo ops s = s\<lparr>uart_dev := u, rx_nbytes := rx_nbytes s - word_of_nat (n s),
      rx_got := rx_got s @ take (n s) (rxv (uart_dev s))\<rparr>"
    "rxv u = drop (n s) (rxv (uart_dev s))" "txv u = txv (uart_dev s)"
proof (cases "n s = 0")
  case True
  then have "min (ucast (ll_rxfifo_len ops (uart_dev s)) :: u16) (rx_nbytes s) = 0"
    by (metis n_def unat_min16 rxfifo_len [OF ok] unat_eq_zero)
  then have "\<not> 0 < min (ucast (ll_rxfifo_len ops (uart_dev s)) :: u16) (rx_nbytes s)" by simp
  then have "hal_uart_dma_read_rx_fifo ops s = s" by (simp only: hal_uart_dma_read_rx_fifo_def Let_def if_False)
  with True show ?thesis by (intro that [of "uart_dev s"]) simp_all
next
  case False
  let ?c = "min (ucast (ll_rxfifo_len ops (uart_dev s)) :: u16) (rx_nbytes s)"
  have c: "unat ?c = n s" by (simp add: n_def unat_min16 rxfifo_len [OF ok])
  then have p: "0 < ?c" "?c = word_of_nat (n s)" using False by (simp_all add: word_less_nat_alt flip: c)
  obtain got u where 1: "ll_read_rxfifo ops (uart_dev s) (n s) = (got, u)" by fastforce
  have "n s \<le> length (rxv (uart_dev s))" by (simp add: n_def)
  then have "got = take (n s) (rxv (uart_dev s))" "rxv u = drop (n s) (rxv (uart_dev s))" "txv u = txv (uart_dev s)"
    using ok 1 by (simp_all add: uart_ok_def) (metis fst_conv snd_conv)+
  with p 1 c show ?thesis
    by (intro that [of u]) (simp_all add: hal_uart_dma_read_rx_fifo_def Let_def del: min_less_iff_conj)
qed

lemma fill_tx:
  assumes ok: "uart_ok ops rxv txv"
  obtains u n where "hal_uart_dma_fill_tx_fifo ops s = s\<lparr>uart_dev := u, tx_nbytes := tx_nbytes s - word_of_nat n,
      tx_rest := drop n (tx_rest s)\<rparr>"
    "n \<le> unat (tx_nbytes s)" "rxv u = rxv (uart_dev s)" "txv u = txv (uart_dev s) @ take n (tx_rest s)"
proof -
  let ?sp = "ucast (ll_txfifo_len ops (uart_dev s)) :: u16"
  let ?c = "min ?sp (tx_nbytes s)"
  let ?u = "ll_write_txfifo ops (uart_dev s) (take (unat ?c) (tx_rest s))"
  have sp: "unat ?sp = unat (ll_txfifo_len ops (uart_dev s))" using ok by (intro u16_of_u32) (simp add: uart_ok_def)
  show thesis
  proof (cases "0 < ?c")
    case True
    have l: "length (take (unat ?c) (tx_rest s)) \<le> unat (ll_txfifo_len ops (uart_dev s))"
      using sp unat_min16 [of ?sp "tx_nbytes s"] by simp
    have "hal_uart_dma_fill_tx_fifo ops s = s\<lparr>uart_dev := ?u, tx_nbytes := tx_nbytes s - ?c, tx_rest := drop (unat ?c) (tx_rest s)\<rparr>"
      using True by (simp only: hal_uart_dma_fill_tx_fifo_def Let_def if_True)
    moreover have "unat ?c \<le> unat (tx_nbytes s)" by (simp add: unat_min16)
    ultimately show thesis using ok l by (intro that [where u = ?u and n = "unat ?c"]) (simp_all add: uart_ok_def)
  next
    case False
    then have "hal_uart_dma_fill_tx_fifo ops s = s" by (simp only: hal_uart_dma_fill_tx_fifo_def Let_def if_False)
    then show thesis by (intro that [where u = "uart_dev s" and n = 0]) simp_all
  qed
qed

section \<open>Runs\<close>

fun received_of :: "uart_note list \<Rightarrow> u8 list list" where
  "received_of [] = []"
| "received_of (BlockReceived cb d # ns) = d # received_of ns"
| "received_of (BlockSent cb # ns) = received_of ns"

fun sent_count :: "uart_note list \<Rightarrow> nat" where
  "sent_count [] = 0"
| "sent_count (BlockReceived cb d # ns) = sent_count ns"
| "sent_count (BlockSent cb # ns) = Suc (sent_count ns)"

lemma received_append [simp]: "received_of (xs @ ys) = received_of xs @ received_of ys"
  by (induction xs rule: received_of.induct) simp_all

lemma sent_append [simp]: "sent_count (xs @ ys) = sent_count xs + sent_count ys"
  by (induction xs rule: sent_count.induct) simp_all

text \<open>The driver at work: the client asks for blocks when its last request is answered, bytes arrive, places
  in the transmit FIFO become free, interrupts become pending and the handler runs, in any order.  The indices are the
  bytes that arrived, the sizes of the blocks asked for, and the blocks to send.\<close>

inductive hal_run :: "'u uart_ops \<Rightarrow> ('u \<Rightarrow> u8 list) \<Rightarrow> ('u \<Rightarrow> u8 list) \<Rightarrow>
    u8 list \<Rightarrow> u16 list \<Rightarrow> u8 list list \<Rightarrow> 'u hal_st \<Rightarrow> bool"
  for ops rxv txv where
  hr_start: "hal_uart_dma_init nreset rts_inv rets s0 = Some s1 \<Longrightarrow>
     hal_uart_dma_set_block_sent (Some cs) (hal_uart_dma_set_block_received (Some cr) s1) = Some s \<Longrightarrow>
     rx_nbytes s0 = 0 \<Longrightarrow> tx_nbytes s0 = 0 \<Longrightarrow> hal_notes s0 = [] \<Longrightarrow> rxv (uart_dev s0) = [] \<Longrightarrow> txv (uart_dev s0) = [] \<Longrightarrow>
     hal_run ops rxv txv [] [] [] s"
| hr_hw: "hal_run ops rxv txv arr reqs blks s \<Longrightarrow> rxv u = rxv (uart_dev s) @ d \<Longrightarrow> txv u = txv (uart_dev s) \<Longrightarrow>
     hal_run ops rxv txv (arr @ d) reqs blks (s\<lparr>uart_dev := u, rx_raw := r, tx_raw := t\<rparr>)"
| hr_receive: "hal_run ops rxv txv arr reqs blks s \<Longrightarrow> hal_uart_dma_receive_block ops len s = Some t \<Longrightarrow>
     hal_run ops rxv txv arr (reqs @ [len]) blks t"
| hr_send: "hal_run ops rxv txv arr reqs blks s \<Longrightarrow> unat len \<le> length buffer \<Longrightarrow>
     hal_uart_dma_send_block ops buffer len s = Some t \<Longrightarrow>
     hal_run ops rxv txv arr reqs (blks @ [take (unat len) buffer]) t"
| hr_isr: "hal_run ops rxv txv arr reqs blks s \<Longrightarrow> hal_uart_dma_isr ops s = Some t \<Longrightarrow>
     hal_run ops rxv txv arr reqs blks t"

definition rx_inv :: "('u \<Rightarrow> u8 list) \<Rightarrow> u8 list \<Rightarrow> u16 list \<Rightarrow> 'u hal_st \<Rightarrow> bool" where
  "rx_inv rxv arr reqs s \<longleftrightarrow> receive_callback s \<noteq> None \<and>
     (if rx_nbytes s = 0
      then concat (received_of (hal_notes s)) @ rxv (uart_dev s) = arr \<and>
        map length (received_of (hal_notes s)) = map unat reqs \<and> \<not> rx_ena s
      else concat (received_of (hal_notes s)) @ rx_got s @ rxv (uart_dev s) = arr \<and> rx_ena s \<and>
        1 \<le> rx_full_thr s \<and> rx_full_thr s \<le> rx_nbytes s \<and> reqs \<noteq> [] \<and>
        map length (received_of (hal_notes s)) = map unat (butlast reqs) \<and>
        length (rx_got s) + unat (rx_nbytes s) = unat (last reqs))"

definition tx_inv :: "('u \<Rightarrow> u8 list) \<Rightarrow> u8 list list \<Rightarrow> 'u hal_st \<Rightarrow> bool" where
  "tx_inv txv blks s \<longleftrightarrow> send_callback s \<noteq> None \<and> unat (tx_nbytes s) \<le> length (tx_rest s) \<and>
     txv (uart_dev s) @ take (unat (tx_nbytes s)) (tx_rest s) = concat blks \<and>
     (tx_ena s \<longleftrightarrow> tx_nbytes s \<noteq> 0) \<and> sent_count (hal_notes s) + (if tx_nbytes s = 0 then 0 else 1) = length blks"

text \<open>After reading, a request is answered or its rest is awaited.\<close>

definition rx_mid :: "('u \<Rightarrow> u8 list) \<Rightarrow> u8 list \<Rightarrow> u16 list \<Rightarrow> 'u hal_st \<Rightarrow> bool" where
  "rx_mid rxv arr reqs s \<longleftrightarrow> receive_callback s \<noteq> None \<and> reqs \<noteq> [] \<and>
     concat (received_of (hal_notes s)) @ rx_got s @ rxv (uart_dev s) = arr \<and>
     map length (received_of (hal_notes s)) = map unat (butlast reqs) \<and>
     length (rx_got s) + unat (rx_nbytes s) = unat (last reqs)"

lemma read_rx_mid:
  assumes ok: "uart_ok ops rxv txv" and m: "rx_mid rxv arr reqs s"
  shows "rx_mid rxv arr reqs (hal_uart_dma_read_rx_fifo ops s)"
proof -
  let ?n = "min (length (rxv (uart_dev s))) (unat (rx_nbytes s))"
  obtain u where u: "hal_uart_dma_read_rx_fifo ops s = s\<lparr>uart_dev := u, rx_nbytes := rx_nbytes s - word_of_nat ?n,
      rx_got := rx_got s @ take ?n (rxv (uart_dev s))\<rparr>"
    "rxv u = drop ?n (rxv (uart_dev s))" by (rule read_rx [OF ok])
  have n: "?n \<le> unat (rx_nbytes s)" by simp
  then have "unat (rx_nbytes s - word_of_nat ?n) = unat (rx_nbytes s) - ?n" by (rule word_sub_nat)
  moreover have "take ?n (rxv (uart_dev s)) @ drop ?n (rxv (uart_dev s)) = rxv (uart_dev s)" by (rule append_take_drop_id)
  ultimately show ?thesis using m n unfolding u(1) rx_mid_def by (auto simp: u(2) simp del: append_take_drop_id)
qed

lemma rx_inv_mid: "rx_inv rxv arr reqs s \<Longrightarrow> rx_nbytes s \<noteq> 0 \<Longrightarrow> rx_mid rxv arr reqs s"
  by (simp add: rx_inv_def rx_mid_def)

lemma tx_inv_cong:
  assumes "tx_inv txv blks s" and "send_callback t = send_callback s" "tx_nbytes t = tx_nbytes s" "tx_rest t = tx_rest s"
    "txv (uart_dev t) = txv (uart_dev s)" "tx_ena t = tx_ena s" "sent_count (hal_notes t) = sent_count (hal_notes s)"
  shows "tx_inv txv blks t"
  using assms by (simp add: tx_inv_def)

lemma rx_inv_cong:
  assumes "rx_inv rxv arr reqs s" and "receive_callback t = receive_callback s" "rx_nbytes t = rx_nbytes s" "rx_got t = rx_got s"
    "rxv (uart_dev t) = rxv (uart_dev s)" "rx_ena t = rx_ena s" "rx_full_thr t = rx_full_thr s"
    "received_of (hal_notes t) = received_of (hal_notes s)"
  shows "rx_inv rxv arr reqs t"
  using assms by (simp add: rx_inv_def)

lemma rx_done:
  assumes m: "rx_mid rxv arr reqs s" and z: "rx_nbytes s = 0" and e: "\<not> rx_ena s"
  obtains t where "call_received s = Some t" "rx_inv rxv arr reqs t" "tx_inv txv blks s \<Longrightarrow> tx_inv txv blks t"
    "received_of (hal_notes t) = received_of (hal_notes s) @ [rx_got s]"
proof -
  obtain cb where cb: "receive_callback s = Some cb" using m by (auto simp: rx_mid_def)
  have r: "map unat reqs = map unat (butlast reqs) @ [unat (last reqs)]"
    using m by (metis append_butlast_last_id list.simps(8,9) map_append rx_mid_def)
  let ?t = "s\<lparr>hal_notes := hal_notes s @ [BlockReceived cb (rx_got s)]\<rparr>"
  have c: "concat (received_of (hal_notes s)) @ rx_got s @ rxv (uart_dev s) = arr"
    and lens: "map length (received_of (hal_notes s)) = map unat (butlast reqs)"
    and len: "length (rx_got s) = unat (last reqs)" using m z by (simp_all add: rx_mid_def)
  have "map length (received_of (hal_notes ?t)) = map unat reqs" by (simp add: r lens len)
  with c z e cb have "rx_inv rxv arr reqs ?t" by (simp add: rx_inv_def)
  moreover have "tx_inv txv blks s \<Longrightarrow> tx_inv txv blks ?t" by (simp add: tx_inv_def)
  moreover have "call_received s = Some ?t" by (simp add: call_received_def cb)
  ultimately show thesis using that by simp
qed

lemma thr_range:
  fixes n :: u16
  assumes "2 \<le> k" and "n \<noteq> 0"
  shows "1 \<le> min (k - 1) n \<and> min (k - 1) n \<le> n"
proof -
  have "1 \<le> k - 1" using assms(1) unat_sub [of 1 k] by (simp add: word_le_nat_alt)
  moreover have "1 \<le> n" using assms(2) by (metis word_not_simps(1) linorder_not_less word_gt_0 inc_le add_0)
  ultimately show ?thesis by simp
qed

lemma rx_more:
  assumes "rx_mid rxv arr reqs s" and "rx_nbytes s \<noteq> 0" and "2 \<le> k"
  shows "rx_inv rxv arr reqs (s\<lparr>rx_full_thr := min (k - 1) (rx_nbytes s), rx_ena := True\<rparr>)"
  using assms(1) thr_range [OF assms(3,2)] assms(2) by (simp add: rx_inv_def rx_mid_def)

lemma isr_rx_inv:
  assumes ok: "uart_ok ops rxv txv" and i: "rx_inv rxv arr reqs s" and x: "tx_inv txv blks s" and e: "rx_ena s"
  obtains t where "isr_rx ops s = Some t" "rx_inv rxv arr reqs t" "tx_inv txv blks t"
    "unat (rx_nbytes s) \<le> length (rxv (uart_dev s)) \<Longrightarrow> length (received_of (hal_notes t)) = Suc (length (received_of (hal_notes s)))"
proof -
  have nz: "rx_nbytes s \<noteq> 0" using i e by (auto simp: rx_inv_def split: if_splits)
  let ?s = "s\<lparr>rx_raw := False\<rparr>"
  let ?r = "hal_uart_dma_read_rx_fifo ops ?s"
  have "rx_mid rxv arr reqs ?s" using rx_inv_mid [OF i nz] by (simp add: rx_mid_def)
  then have m: "rx_mid rxv arr reqs ?r" by (rule read_rx_mid [OF ok])
  obtain u where u: "?r = ?s\<lparr>uart_dev := u, rx_nbytes := rx_nbytes s - word_of_nat (min (length (rxv (uart_dev s))) (unat (rx_nbytes s))),
      rx_got := rx_got s @ take (min (length (rxv (uart_dev s))) (unat (rx_nbytes s))) (rxv (uart_dev s))\<rparr>"
    "txv u = txv (uart_dev s)" by (rule read_rx [OF ok, of ?s]) simp
  have x': "tx_inv txv blks ?r" by (rule tx_inv_cong [OF x]) (simp_all add: u)
  have full: "rx_nbytes ?r = 0" if "unat (rx_nbytes s) \<le> length (rxv (uart_dev s))" using that by (simp add: u(1) min_absorb2)
  show thesis
  proof (cases "rx_nbytes ?r = 0")
    case True
    let ?d = "?r\<lparr>rx_ena := False\<rparr>"
    have "rx_mid rxv arr reqs ?d" "tx_inv txv blks ?d" using m x' by (simp_all add: rx_mid_def tx_inv_def)
    with True obtain t where "call_received ?d = Some t" "rx_inv rxv arr reqs t" "tx_inv txv blks t"
      "received_of (hal_notes t) = received_of (hal_notes ?d) @ [rx_got ?d]" by (auto elim: rx_done)
    with True show thesis by (intro that [of t]) (simp_all add: isr_rx_def Let_def u(1))
  next
    case False
    let ?t = "?r\<lparr>rx_full_thr := min (ll_fifo_def_len ops - 1) (rx_nbytes ?r)\<rparr>"
    have k: "2 \<le> ll_fifo_def_len ops" using ok by (simp add: uart_ok_def)
    have "rx_inv rxv arr reqs ?t" by (rule rx_inv_cong [OF rx_more [OF m False k]]) (simp_all add: u(1) e)
    moreover have "tx_inv txv blks ?t" using x' by (simp add: tx_inv_def)
    ultimately show thesis using False full by (intro that [of ?t]) (simp_all add: isr_rx_def Let_def)
  qed
qed

text \<open>Writing what fits, then reporting or waiting.\<close>

definition tx_mid :: "('u \<Rightarrow> u8 list) \<Rightarrow> u8 list list \<Rightarrow> 'u hal_st \<Rightarrow> bool" where
  "tx_mid txv blks s \<longleftrightarrow> send_callback s \<noteq> None \<and> unat (tx_nbytes s) \<le> length (tx_rest s) \<and>
     txv (uart_dev s) @ take (unat (tx_nbytes s)) (tx_rest s) = concat blks \<and> Suc (sent_count (hal_notes s)) = length blks"

lemma fill_tx_mid:
  assumes ok: "uart_ok ops rxv txv" and m: "tx_mid txv blks s"
  shows "tx_mid txv blks (hal_uart_dma_fill_tx_fifo ops s)"
proof -
  obtain u n where u: "hal_uart_dma_fill_tx_fifo ops s = s\<lparr>uart_dev := u, tx_nbytes := tx_nbytes s - word_of_nat n,
      tx_rest := drop n (tx_rest s)\<rparr>" "n \<le> unat (tx_nbytes s)" "txv u = txv (uart_dev s) @ take n (tx_rest s)"
    by (rule fill_tx [OF ok])
  have "unat (tx_nbytes s - word_of_nat n) = unat (tx_nbytes s) - n" by (rule word_sub_nat [OF u(2)])
  moreover have "take n (tx_rest s) @ take (unat (tx_nbytes s) - n) (drop n (tx_rest s)) = take (unat (tx_nbytes s)) (tx_rest s)"
    using u(2) by (simp flip: take_add)
  ultimately show ?thesis using m unfolding u(1) tx_mid_def by (auto simp: u(3))
qed

lemma fill_tx_rx:
  assumes ok: "uart_ok ops rxv txv" and "rx_inv rxv arr reqs s"
  shows "rx_inv rxv arr reqs (hal_uart_dma_fill_tx_fifo ops s)"
proof -
  obtain u n where u: "hal_uart_dma_fill_tx_fifo ops s = s\<lparr>uart_dev := u, tx_nbytes := tx_nbytes s - word_of_nat n,
      tx_rest := drop n (tx_rest s)\<rparr>" "rxv u = rxv (uart_dev s)" by (rule fill_tx [OF ok])
  show ?thesis by (rule rx_inv_cong [OF assms(2)]) (simp_all add: u)
qed

lemma tx_end:
  assumes m: "tx_mid txv blks s" and i: "rx_inv rxv arr reqs s"
  obtains t where "(if tx_nbytes s = 0 then call_sent (s\<lparr>tx_ena := False\<rparr>) else Some (s\<lparr>tx_raw := r, tx_ena := True\<rparr>)) = Some t"
    "rx_inv rxv arr reqs t" "tx_inv txv blks t" "received_of (hal_notes t) = received_of (hal_notes s)"
proof (cases "tx_nbytes s = 0")
  case True
  obtain cb where cb: "send_callback s = Some cb" using m by (auto simp: tx_mid_def)
  let ?t = "s\<lparr>tx_ena := False, hal_notes := hal_notes s @ [BlockSent cb]\<rparr>"
  have "rx_inv rxv arr reqs ?t" by (rule rx_inv_cong [OF i]) simp_all
  moreover have "tx_inv txv blks ?t" using m cb True by (simp add: tx_inv_def tx_mid_def)
  ultimately show thesis using True cb by (intro that [of ?t]) (simp_all add: call_sent_def)
next
  case False
  let ?t = "s\<lparr>tx_raw := r, tx_ena := True\<rparr>"
  have "rx_inv rxv arr reqs ?t" by (rule rx_inv_cong [OF i]) simp_all
  moreover have "tx_inv txv blks ?t" using m False by (simp add: tx_inv_def tx_mid_def)
  ultimately show thesis using False by (intro that [of ?t]) simp_all
qed

lemma isr_tx_inv:
  assumes ok: "uart_ok ops rxv txv" and i: "rx_inv rxv arr reqs s" and x: "tx_inv txv blks s" and e: "tx_ena s"
  obtains t where "isr_tx ops s = Some t" "rx_inv rxv arr reqs t" "tx_inv txv blks t"
    "received_of (hal_notes t) = received_of (hal_notes s)"
proof -
  let ?s = "s\<lparr>tx_raw := False\<rparr>"
  let ?f = "hal_uart_dma_fill_tx_fifo ops ?s"
  have "tx_mid txv blks ?s" using x e by (auto simp: tx_inv_def tx_mid_def split: if_splits)
  then have m: "tx_mid txv blks ?f" by (rule fill_tx_mid [OF ok])
  have i': "rx_inv rxv arr reqs ?f" by (rule fill_tx_rx [OF ok]) (rule rx_inv_cong [OF i], simp_all)
  obtain u n where u: "?f = ?s\<lparr>uart_dev := u, tx_nbytes := tx_nbytes s - word_of_nat n, tx_rest := drop n (tx_rest s)\<rparr>"
    by (rule fill_tx [OF ok, of ?s]) simp
  have eq: "?f\<lparr>tx_raw := False, tx_ena := True\<rparr> = ?f" "hal_notes ?f = hal_notes s" using e by (simp_all add: u)
  obtain t where t: "(if tx_nbytes ?f = 0 then call_sent (?f\<lparr>tx_ena := False\<rparr>) else Some ?f) = Some t"
    "rx_inv rxv arr reqs t" "tx_inv txv blks t" "received_of (hal_notes t) = received_of (hal_notes s)"
    using tx_end [OF m i', where r = False] unfolding eq by metis
  from t(1) have "isr_tx ops s = Some t" by (simp only: isr_tx_def Let_def)
  from that [OF this t(2-4)] show thesis .
qed

lemma isr_rx_frame: "isr_rx ops s = Some t \<Longrightarrow> tx_ena t = tx_ena s"
  by (auto simp: isr_rx_def Let_def call_received_def hal_uart_dma_read_rx_fifo_def split: if_splits prod.splits)

lemma isr_inv:
  assumes ok: "uart_ok ops rxv txv" and i: "rx_inv rxv arr reqs s" and x: "tx_inv txv blks s"
  obtains t where "hal_uart_dma_isr ops s = Some t" "rx_inv rxv arr reqs t" "tx_inv txv blks t"
    "rx_raw s \<Longrightarrow> rx_ena s \<Longrightarrow> unat (rx_nbytes s) \<le> length (rxv (uart_dev s)) \<Longrightarrow>
       length (received_of (hal_notes t)) = Suc (length (received_of (hal_notes s)))"
proof -
  let ?P = "\<lambda>t. rx_inv rxv arr reqs t \<and> tx_inv txv blks t \<and> (rx_raw s \<and> rx_ena s \<and> unat (rx_nbytes s) \<le> length (rxv (uart_dev s)) \<longrightarrow>
       length (received_of (hal_notes t)) = Suc (length (received_of (hal_notes s))))"
  have "\<exists>t. (if rx_raw s \<and> rx_ena s then isr_rx ops s else Some s) = Some t \<and> ?P t \<and> tx_ena t = tx_ena s"
  proof (cases "rx_raw s \<and> rx_ena s")
    case True
    then have "rx_ena s" by simp
    from isr_rx_inv [OF ok i x this] isr_rx_frame True show ?thesis by (metis (full_types))
  next
    case False
    with i x show ?thesis by auto
  qed
  then obtain t1 where t1: "(if rx_raw s \<and> rx_ena s then isr_rx ops s else Some s) = Some t1" "?P t1" "tx_ena t1 = tx_ena s" by blast
  have "\<exists>t. (if tx_raw s \<and> tx_ena s then isr_tx ops t1 else Some t1) = Some t \<and> ?P t"
  proof (cases "tx_raw s \<and> tx_ena s")
    case True
    with t1(3) have e: "tx_ena t1" by simp
    from t1(2) have "rx_inv rxv arr reqs t1" "tx_inv txv blks t1" by simp_all
    from isr_tx_inv [OF ok this e] True t1(2) show ?thesis by (metis (full_types))
  next
    case False
    with t1(2) show ?thesis by auto
  qed
  then obtain t where t: "(if tx_raw s \<and> tx_ena s then isr_tx ops t1 else Some t1) = Some t" "?P t" by blast
  then show thesis by (intro that [of t]) (simp_all add: hal_uart_dma_isr_def Let_def t1(1))
qed

lemma receive_inv:
  assumes ok: "uart_ok ops rxv txv" and i: "rx_inv rxv arr reqs s" and x: "tx_inv txv blks s" and z: "rx_nbytes s = 0"
  obtains t where "hal_uart_dma_receive_block ops len s = Some t" "rx_inv rxv arr (reqs @ [len]) t" "tx_inv txv blks t"
proof -
  let ?s = "s\<lparr>rx_got := [], rx_nbytes := len\<rparr>"
  let ?r = "hal_uart_dma_read_rx_fifo ops ?s"
  have "rx_mid rxv arr (reqs @ [len]) ?s" using i z by (simp add: rx_inv_def rx_mid_def)
  then have m: "rx_mid rxv arr (reqs @ [len]) ?r" by (rule read_rx_mid [OF ok])
  obtain u n got where u: "?r = ?s\<lparr>uart_dev := u, rx_nbytes := n, rx_got := got\<rparr>" "txv u = txv (uart_dev s)"
    by (rule read_rx [OF ok, of ?s]) simp
  have x': "tx_inv txv blks ?r" by (rule tx_inv_cong [OF x]) (simp_all add: u)
  have k: "2 \<le> ll_fifo_def_len ops" using ok by (simp add: uart_ok_def)
  show thesis
  proof (cases "rx_nbytes ?r = 0")
    case True
    have "\<not> rx_ena ?r" using i z by (simp add: u rx_inv_def)
    from rx_done [OF m True this, of txv blks] x' obtain t where
      "call_received ?r = Some t" "rx_inv rxv arr (reqs @ [len]) t" "tx_inv txv blks t" by blast
    with True z show thesis by (intro that [of t]) (simp_all add: hal_uart_dma_receive_block_def Let_def)
  next
    case False
    let ?t = "?r\<lparr>rx_full_thr := min (ll_fifo_def_len ops - 1) (rx_nbytes ?r), rx_raw := False, rx_ena := True\<rparr>"
    have "rx_inv rxv arr (reqs @ [len]) ?t" by (rule rx_inv_cong [OF rx_more [OF m False k]]) simp_all
    moreover have "tx_inv txv blks ?t" by (rule tx_inv_cong [OF x']) simp_all
    ultimately show thesis using False z
      by (intro that [of ?t]) (simp_all add: hal_uart_dma_receive_block_def Let_def word_gt_0)
  qed
qed

lemma send_inv:
  assumes ok: "uart_ok ops rxv txv" and i: "rx_inv rxv arr reqs s" and x: "tx_inv txv blks s" and z: "tx_nbytes s = 0"
    and l: "unat len \<le> length buffer"
  obtains t where "hal_uart_dma_send_block ops buffer len s = Some t" "rx_inv rxv arr reqs t"
    "tx_inv txv (blks @ [take (unat len) buffer]) t"
proof -
  let ?s = "s\<lparr>tx_rest := buffer, tx_nbytes := len\<rparr>"
  let ?f = "hal_uart_dma_fill_tx_fifo ops ?s"
  have ne: "\<not> tx_ena s" using x z by (simp add: tx_inv_def)
  have "tx_mid txv (blks @ [take (unat len) buffer]) ?s" using x z l by (simp add: tx_inv_def tx_mid_def)
  then have m: "tx_mid txv (blks @ [take (unat len) buffer]) ?f" by (rule fill_tx_mid [OF ok])
  have i': "rx_inv rxv arr reqs ?f" by (rule fill_tx_rx [OF ok]) (rule rx_inv_cong [OF i], simp_all)
  obtain u n b where u: "?f = ?s\<lparr>uart_dev := u, tx_nbytes := n, tx_rest := b\<rparr>" by (rule fill_tx [OF ok, of ?s]) simp
  obtain t where t: "(if tx_nbytes ?f = 0 then call_sent (?f\<lparr>tx_ena := False\<rparr>) else Some (?f\<lparr>tx_raw := False, tx_ena := True\<rparr>)) = Some t"
    "rx_inv rxv arr reqs t" "tx_inv txv (blks @ [take (unat len) buffer]) t" by (rule tx_end [OF m i'])
  have "?f\<lparr>tx_ena := False\<rparr> = ?f" using ne by (simp add: u)
  with t z show thesis
    by (intro that [of t]) (simp_all add: hal_uart_dma_send_block_def Let_def word_gt_0 split: if_splits)
qed

text \<open>In every run both invariants hold.\<close>

lemma init_frame:
  assumes "hal_uart_dma_init nreset rts_inv rets s = Some t"
  shows "\<not> rx_ena t \<and> \<not> tx_ena t \<and> rx_nbytes t = rx_nbytes s \<and> tx_nbytes t = tx_nbytes s \<and> hal_notes t = hal_notes s \<and> uart_dev t = uart_dev s"
  using assms by (auto simp: hal_uart_dma_init_def Let_def split: if_splits prod.splits)

lemma run_inv:
  assumes ok: "uart_ok ops rxv txv" and r: "hal_run ops rxv txv arr reqs blks s"
  shows "rx_inv rxv arr reqs s \<and> tx_inv txv blks s"
  using r
proof induction
  case (hr_start nreset rts_inv rets s0 s1 cs cr s)
  from init_frame [OF hr_start(1)] hr_start(2-) show ?case
    by (auto simp: hal_uart_dma_set_block_sent_def hal_uart_dma_set_block_received_def rx_inv_def tx_inv_def)
next
  case (hr_hw arr reqs blks s u d r t)
  then show ?case by (auto simp: rx_inv_def tx_inv_def split: if_splits)
next
  case (hr_receive arr reqs blks s len t)
  then have "rx_nbytes s = 0" by (simp add: hal_uart_dma_receive_block_def split: if_splits)
  with receive_inv [OF ok _ _ this] hr_receive show ?case by (metis option.sel)
next
  case (hr_send arr reqs blks s len buffer t)
  then have "tx_nbytes s = 0" by (simp add: hal_uart_dma_send_block_def split: if_splits)
  with send_inv [OF ok _ _ this hr_send(2)] hr_send show ?case by (metis option.sel)
next
  case (hr_isr arr reqs blks s t)
  with isr_inv [OF ok] show ?case by (metis option.sel)
qed

text \<open>C36: In every run of the serial driver no null pointer is called; the blocks handed to the client, what
  is read of the open block and what waits in the FIFO are, in this order, the bytes that arrived; each request is
  answered once, with a block of its size, when enough bytes are there; while a request is open its interrupt is
  enabled and its threshold is at least one and at most what is missing.  What was written to the transmit FIFO, and the
  rest that is still to be written, are the blocks to send in their order; each is reported once, when it is
  written, and the interrupt is enabled just until then.\<close>

theorem uart_blocks:
  assumes ok: "uart_ok ops rxv txv" and r: "hal_run ops rxv txv arr reqs blks s"
  shows "concat (received_of (hal_notes s)) @ (if rx_nbytes s = 0 then [] else rx_got s) @ rxv (uart_dev s) = arr \<and>
    map length (received_of (hal_notes s)) = map unat (if rx_nbytes s = 0 then reqs else butlast reqs) \<and>
    (rx_nbytes s \<noteq> 0 \<longrightarrow> rx_ena s \<and> 1 \<le> rx_full_thr s \<and> rx_full_thr s \<le> rx_nbytes s \<and>
       length (rx_got s) + unat (rx_nbytes s) = unat (last reqs)) \<and>
    txv (uart_dev s) @ take (unat (tx_nbytes s)) (tx_rest s) = concat blks \<and>
    sent_count (hal_notes s) + (if tx_nbytes s = 0 then 0 else 1) = length blks \<and>
    (tx_ena s \<longleftrightarrow> tx_nbytes s \<noteq> 0) \<and>
    (\<exists>t. hal_uart_dma_isr ops s = Some t \<and>
       (rx_raw s \<and> rx_nbytes s \<noteq> 0 \<and> unat (rx_nbytes s) \<le> length (rxv (uart_dev s)) \<longrightarrow>
          length (received_of (hal_notes t)) = Suc (length (received_of (hal_notes s)))))"
proof -
  have i: "rx_inv rxv arr reqs s" and x: "tx_inv txv blks s" using run_inv [OF ok r] by simp_all
  obtain t where t: "hal_uart_dma_isr ops s = Some t"
    "rx_raw s \<Longrightarrow> rx_ena s \<Longrightarrow> unat (rx_nbytes s) \<le> length (rxv (uart_dev s)) \<Longrightarrow>
       length (received_of (hal_notes t)) = Suc (length (received_of (hal_notes s)))"
    by (rule isr_inv [OF ok i x]) blast
  show ?thesis
    by (intro conjI exI [of _ t]; use i x t in \<open>force simp: rx_inv_def tx_inv_def split: if_splits\<close>)
qed

text \<open>A UART with four places to write to, and a run on it: three bytes are asked for, two arrive, then the third.\<close>

definition demo_rx :: "u8 list \<times> u8 list \<Rightarrow> u8 list" where "demo_rx u = take 65535 (fst u)"

definition demo_uart :: "(u8 list \<times> u8 list) uart_ops" where
  "demo_uart = \<lparr>ll_txfifo_len = \<lambda>u. 4, ll_rxfifo_len = \<lambda>u. word_of_nat (length (demo_rx u)),
     ll_write_txfifo = \<lambda>u d. (fst u, snd u @ d), ll_read_rxfifo = \<lambda>u n. (take n (demo_rx u), (drop n (demo_rx u), snd u)),
     ll_fifo_def_len = 128\<rparr>"

lemma demo_uart_ok: "uart_ok demo_uart demo_rx snd"
  by (auto simp: uart_ok_def demo_uart_def demo_rx_def word_le_nat_alt min_def)

definition demo_hal :: "u8 list \<Rightarrow> (u8 list \<times> u8 list) hal_st" where
  "demo_hal rx = \<lparr>uart_dev = (rx, []), receive_callback = Some 1, send_callback = Some 2, rx_got = [], rx_nbytes = 0,
     tx_rest = [], tx_nbytes = 0, rx_full_thr = 0, rx_raw = False, rx_ena = False, tx_raw = False, tx_ena = False,
     uart_baud = 1000000, uart_flow = True, hal_notes = [], uart_calls = [ParamConfig 1000000 True, SetPin, IntrAlloc, TxEmptyThr 10]\<rparr>"

theorem uart_blocks_witness:
  "\<exists>s t. hal_run demo_uart demo_rx snd [7, 8, 9] [3] [] s \<and> hal_uart_dma_isr demo_uart s = Some t \<and> length (received_of (hal_notes t)) = 1"
proof -
  let ?r = "hal_run demo_uart demo_rx snd"
  have 0: "?r [] [] [] (demo_hal [])"
  proof (rule hr_start)
    show "hal_uart_dma_init False False (True, True, True) ((demo_hal [])\<lparr>uart_calls := [], receive_callback := None, send_callback := None\<rparr>) =
      Some ((demo_hal [])\<lparr>receive_callback := None, send_callback := None\<rparr>)"
      by (simp add: hal_uart_dma_init_def demo_hal_def)
    show "hal_uart_dma_set_block_sent (Some 2) (hal_uart_dma_set_block_received (Some 1)
        ((demo_hal [])\<lparr>receive_callback := None, send_callback := None\<rparr>)) = Some (demo_hal [])"
      by (simp add: hal_uart_dma_set_block_sent_def hal_uart_dma_set_block_received_def demo_hal_def)
  qed (simp_all add: demo_hal_def demo_rx_def)
  let ?s1 = "(demo_hal [])\<lparr>rx_nbytes := 3, rx_full_thr := 3, rx_ena := True\<rparr>"
  have "hal_uart_dma_receive_block demo_uart 3 (demo_hal []) = Some ?s1"
    by (simp add: hal_uart_dma_receive_block_def hal_uart_dma_read_rx_fifo_def demo_uart_def demo_hal_def demo_rx_def)
  from hr_receive [OF 0 this] have 1: "?r [] [3] [] ?s1" by simp
  from hr_hw [OF 1, of "([7, 8], [])" "[7, 8]" False True] have 2: "?r [7, 8] [3] [] (?s1\<lparr>uart_dev := ([7, 8], []), rx_raw := True, tx_raw := False\<rparr>)"
    by (simp add: demo_rx_def demo_hal_def)
  let ?s2 = "(demo_hal [])\<lparr>rx_got := [7, 8], rx_nbytes := 1, rx_full_thr := 1, rx_ena := True\<rparr>"
  have "hal_uart_dma_isr demo_uart (?s1\<lparr>uart_dev := ([7, 8], []), rx_raw := True, tx_raw := False\<rparr>) = Some ?s2"
    by (simp add: hal_uart_dma_isr_def isr_rx_def hal_uart_dma_read_rx_fifo_def demo_uart_def demo_hal_def demo_rx_def)
  from hr_isr [OF 2 this] have 3: "?r [7, 8] [3] [] ?s2" .
  let ?s3 = "?s2\<lparr>uart_dev := ([9], []), rx_raw := True, tx_raw := False\<rparr>"
  from hr_hw [OF 3, of "([9], [])" "[9]" False True] have 4: "?r [7, 8, 9] [3] [] ?s3"
    by (simp add: demo_rx_def demo_hal_def)
  have "rx_raw ?s3" "rx_nbytes ?s3 \<noteq> 0" "unat (rx_nbytes ?s3) \<le> length (demo_rx (uart_dev ?s3))" "received_of (hal_notes ?s3) = []"
    by (simp_all add: demo_hal_def demo_rx_def)
  with uart_blocks [OF demo_uart_ok 4] have "\<exists>t. hal_uart_dma_isr demo_uart ?s3 = Some t \<and> length (received_of (hal_notes t)) = 1" by force
  with 4 show ?thesis by blast
qed

end
