(* ===== verification/Es8388.thy ===== *)
theory Es8388
  imports Prelude "HOL-Library.Signed_Division"
begin

unbundle bit_operations_syntax

text \<open>
  The audio codec driver of \<open>components/btstack-esp32/es8388.c\<close>, registers set and read over the I2C bus.  The bus
  driver and the pin of the amplifier are part of ESP-IDF: \<open>i2c_ops\<close> are its calls on a state of its own, with \<open>i2c_ok\<close> as
  the documented behaviour and the register file of the chip.  A result is a C \<open>int\<close>, 0 for success; what \<open>es8388_read_reg\<close>
  leaves in the caller's variable is part of its result.  Log lines are not modelled.
\<close>

section \<open>Registers and settings\<close>

definition ES8388_ADDR :: u8 where "ES8388_ADDR = 0x20"
definition ES8388_CONTROL1 :: u8 where "ES8388_CONTROL1 = 0x00"
definition ES8388_CONTROL2 :: u8 where "ES8388_CONTROL2 = 0x01"
definition ES8388_CHIPPOWER :: u8 where "ES8388_CHIPPOWER = 0x02"
definition ES8388_ADCPOWER :: u8 where "ES8388_ADCPOWER = 0x03"
definition ES8388_DACPOWER :: u8 where "ES8388_DACPOWER = 0x04"
definition ES8388_MASTERMODE :: u8 where "ES8388_MASTERMODE = 0x08"
definition ES8388_ADCCONTROL1 :: u8 where "ES8388_ADCCONTROL1 = 0x09"
definition ES8388_ADCCONTROL2 :: u8 where "ES8388_ADCCONTROL2 = 0x0a"
definition ES8388_ADCCONTROL3 :: u8 where "ES8388_ADCCONTROL3 = 0x0b"
definition ES8388_ADCCONTROL4 :: u8 where "ES8388_ADCCONTROL4 = 0x0c"
definition ES8388_ADCCONTROL5 :: u8 where "ES8388_ADCCONTROL5 = 0x0d"
definition ES8388_ADCCONTROL8 :: u8 where "ES8388_ADCCONTROL8 = 0x10"
definition ES8388_ADCCONTROL9 :: u8 where "ES8388_ADCCONTROL9 = 0x11"
definition ES8388_DACCONTROL1 :: u8 where "ES8388_DACCONTROL1 = 0x17"
definition ES8388_DACCONTROL2 :: u8 where "ES8388_DACCONTROL2 = 0x18"
definition ES8388_DACCONTROL3 :: u8 where "ES8388_DACCONTROL3 = 0x19"
definition ES8388_DACCONTROL4 :: u8 where "ES8388_DACCONTROL4 = 0x1a"
definition ES8388_DACCONTROL5 :: u8 where "ES8388_DACCONTROL5 = 0x1b"
definition ES8388_DACCONTROL16 :: u8 where "ES8388_DACCONTROL16 = 0x26"
definition ES8388_DACCONTROL17 :: u8 where "ES8388_DACCONTROL17 = 0x27"
definition ES8388_DACCONTROL20 :: u8 where "ES8388_DACCONTROL20 = 0x2a"
definition ES8388_DACCONTROL21 :: u8 where "ES8388_DACCONTROL21 = 0x2b"
definition ES8388_DACCONTROL23 :: u8 where "ES8388_DACCONTROL23 = 0x2d"
definition ES8388_DACCONTROL24 :: u8 where "ES8388_DACCONTROL24 = 0x2e"
definition ES8388_DACCONTROL25 :: u8 where "ES8388_DACCONTROL25 = 0x2f"
definition ES8388_DACCONTROL26 :: u8 where "ES8388_DACCONTROL26 = 0x30"
definition ES8388_DACCONTROL27 :: u8 where "ES8388_DACCONTROL27 = 0x31"

lemmas es_regs =
  ES8388_ADDR_def ES8388_CONTROL1_def ES8388_CONTROL2_def ES8388_CHIPPOWER_def ES8388_ADCPOWER_def
  ES8388_DACPOWER_def ES8388_MASTERMODE_def ES8388_ADCCONTROL1_def ES8388_ADCCONTROL2_def
  ES8388_ADCCONTROL3_def ES8388_ADCCONTROL4_def ES8388_ADCCONTROL5_def ES8388_ADCCONTROL8_def
  ES8388_ADCCONTROL9_def ES8388_DACCONTROL1_def ES8388_DACCONTROL2_def ES8388_DACCONTROL3_def
  ES8388_DACCONTROL4_def ES8388_DACCONTROL5_def ES8388_DACCONTROL16_def ES8388_DACCONTROL17_def
  ES8388_DACCONTROL20_def ES8388_DACCONTROL21_def ES8388_DACCONTROL23_def ES8388_DACCONTROL24_def
  ES8388_DACCONTROL25_def ES8388_DACCONTROL26_def ES8388_DACCONTROL27_def

datatype es_codec_module_t =
    ES_MODULE_MIN | ES_MODULE_ADC | ES_MODULE_DAC | ES_MODULE_ADC_DAC | ES_MODULE_LINE | ES_MODULE_MAX

datatype es_codec_i2s_fmt_t =
    ES_FMT_MIN | ES_I2S_NORMAL | ES_I2S_LEFT | ES_I2S_RIGHT | ES_I2S_DSP | ES_I2S_MAX

fun fmt_code :: "es_codec_i2s_fmt_t \<Rightarrow> int" where
  "fmt_code ES_FMT_MIN = -1" | "fmt_code ES_I2S_NORMAL = 0" | "fmt_code ES_I2S_LEFT = 1"
  | "fmt_code ES_I2S_RIGHT = 2" | "fmt_code ES_I2S_DSP = 3" | "fmt_code ES_I2S_MAX = 4"

datatype sclk_div_t =
    MclkDiv_MIN | MclkDiv_1 | MclkDiv_2 | MclkDiv_3 | MclkDiv_4 | MclkDiv_6 | MclkDiv_8 | MclkDiv_9
  | MclkDiv_11 | MclkDiv_12 | MclkDiv_16 | MclkDiv_18 | MclkDiv_22 | MclkDiv_24 | MclkDiv_33 | MclkDiv_36
  | MclkDiv_44 | MclkDiv_48 | MclkDiv_66 | MclkDiv_72 | MclkDiv_5 | MclkDiv_10 | MclkDiv_15 | MclkDiv_17
  | MclkDiv_20 | MclkDiv_25 | MclkDiv_30 | MclkDiv_32 | MclkDiv_34 | MclkDiv_7 | MclkDiv_13 | MclkDiv_14
  | MclkDiv_MAX

fun sclk_code :: "sclk_div_t \<Rightarrow> int" where
  "sclk_code MclkDiv_MIN = -1" | "sclk_code MclkDiv_1 = 1" | "sclk_code MclkDiv_2 = 2"
  | "sclk_code MclkDiv_3 = 3" | "sclk_code MclkDiv_4 = 4" | "sclk_code MclkDiv_6 = 5"
  | "sclk_code MclkDiv_8 = 6" | "sclk_code MclkDiv_9 = 7" | "sclk_code MclkDiv_11 = 8"
  | "sclk_code MclkDiv_12 = 9" | "sclk_code MclkDiv_16 = 10" | "sclk_code MclkDiv_18 = 11"
  | "sclk_code MclkDiv_22 = 12" | "sclk_code MclkDiv_24 = 13" | "sclk_code MclkDiv_33 = 14"
  | "sclk_code MclkDiv_36 = 15" | "sclk_code MclkDiv_44 = 16" | "sclk_code MclkDiv_48 = 17"
  | "sclk_code MclkDiv_66 = 18" | "sclk_code MclkDiv_72 = 19" | "sclk_code MclkDiv_5 = 20"
  | "sclk_code MclkDiv_10 = 21" | "sclk_code MclkDiv_15 = 22" | "sclk_code MclkDiv_17 = 23"
  | "sclk_code MclkDiv_20 = 24" | "sclk_code MclkDiv_25 = 25" | "sclk_code MclkDiv_30 = 26"
  | "sclk_code MclkDiv_32 = 27" | "sclk_code MclkDiv_34 = 28" | "sclk_code MclkDiv_7 = 29"
  | "sclk_code MclkDiv_13 = 30" | "sclk_code MclkDiv_14 = 31" | "sclk_code MclkDiv_MAX = 32"

datatype lclk_div_t =
    LclkDiv_MIN | LclkDiv_128 | LclkDiv_192 | LclkDiv_256 | LclkDiv_384 | LclkDiv_512 | LclkDiv_576
  | LclkDiv_768 | LclkDiv_1024 | LclkDiv_1152 | LclkDiv_1408 | LclkDiv_1536 | LclkDiv_2112 | LclkDiv_2304
  | LclkDiv_125 | LclkDiv_136 | LclkDiv_250 | LclkDiv_272 | LclkDiv_375 | LclkDiv_500 | LclkDiv_544
  | LclkDiv_750 | LclkDiv_1000 | LclkDiv_1088 | LclkDiv_1496 | LclkDiv_1500 | LclkDiv_MAX

fun lclk_code :: "lclk_div_t \<Rightarrow> int" where
  "lclk_code LclkDiv_MIN = -1" | "lclk_code LclkDiv_128 = 0" | "lclk_code LclkDiv_192 = 1"
  | "lclk_code LclkDiv_256 = 2" | "lclk_code LclkDiv_384 = 3" | "lclk_code LclkDiv_512 = 4"
  | "lclk_code LclkDiv_576 = 5" | "lclk_code LclkDiv_768 = 6" | "lclk_code LclkDiv_1024 = 7"
  | "lclk_code LclkDiv_1152 = 8" | "lclk_code LclkDiv_1408 = 9" | "lclk_code LclkDiv_1536 = 10"
  | "lclk_code LclkDiv_2112 = 11" | "lclk_code LclkDiv_2304 = 12" | "lclk_code LclkDiv_125 = 16"
  | "lclk_code LclkDiv_136 = 17" | "lclk_code LclkDiv_250 = 18" | "lclk_code LclkDiv_272 = 19"
  | "lclk_code LclkDiv_375 = 20" | "lclk_code LclkDiv_500 = 21" | "lclk_code LclkDiv_544 = 22"
  | "lclk_code LclkDiv_750 = 23" | "lclk_code LclkDiv_1000 = 24" | "lclk_code LclkDiv_1088 = 25"
  | "lclk_code LclkDiv_1496 = 26" | "lclk_code LclkDiv_1500 = 27" | "lclk_code LclkDiv_MAX = 28"

datatype es_codec_bits_len_t =
    BIT_LENGTH_MIN | BIT_LENGTH_16BITS | BIT_LENGTH_18BITS | BIT_LENGTH_20BITS | BIT_LENGTH_24BITS
  | BIT_LENGTH_32BITS | BIT_LENGTH_MAX

fun bits_code :: "es_codec_bits_len_t \<Rightarrow> int" where
  "bits_code BIT_LENGTH_MIN = -1" | "bits_code BIT_LENGTH_16BITS = 3" | "bits_code BIT_LENGTH_18BITS = 2"
  | "bits_code BIT_LENGTH_20BITS = 1" | "bits_code BIT_LENGTH_24BITS = 0" | "bits_code BIT_LENGTH_32BITS = 4"
  | "bits_code BIT_LENGTH_MAX = 5"

datatype es_codec_mode_t =
    ES_MODE_MIN | ES_MODE_SLAVE | ES_MODE_MASTER | ES_MODE_MAX

fun mode_code :: "es_codec_mode_t \<Rightarrow> int" where
  "mode_code ES_MODE_MIN = -1" | "mode_code ES_MODE_SLAVE = 0" | "mode_code ES_MODE_MASTER = 1"
  | "mode_code ES_MODE_MAX = 2"

record es8388_config_t =
  cfg_es_mode :: es_codec_mode_t
  cfg_dac_output :: int
  cfg_adc_input :: int

text \<open>\<open>AUDIO_CODEC_ES8388_DEFAULT\<close>\<close>

definition es8388_default :: es8388_config_t where
  "es8388_default = \<lparr>cfg_es_mode = ES_MODE_SLAVE, cfg_dac_output = 0x04 OR 0x08 OR 0x10 OR 0x20, cfg_adc_input = 0x00\<rparr>"

section \<open>The bus\<close>

datatype i2c_cmd = I2cStart | I2cWrite u8 | I2cRead | I2cStop

record 'c i2c_ops =
  i2c_param_config :: "'c \<Rightarrow> int \<times> 'c"
  i2c_driver_install :: "'c \<Rightarrow> int \<times> 'c"
  i2c_cmd_link_create :: "'c \<Rightarrow> 'c"
  i2c_master_add :: "i2c_cmd \<Rightarrow> 'c \<Rightarrow> int \<times> 'c"
    \<comment> \<open>\<open>i2c_master_start\<close>, \<open>i2c_master_write_byte\<close>, \<open>i2c_master_read_byte\<close>, \<open>i2c_master_stop\<close>\<close>
  i2c_master_cmd_begin :: "'c \<Rightarrow> int \<times> u8 \<times> 'c"   \<comment> \<open>with the byte read\<close>
  i2c_cmd_link_delete :: "'c \<Rightarrow> 'c"
  gpio_set_pa :: "bool \<Rightarrow> 'c \<Rightarrow> 'c"             \<comment> \<open>pin 21 as an output, at this level\<close>

type_synonym 'c es_op = "'c \<Rightarrow> int \<times> 'c"

text \<open>\<open>res |= f()\<close>, one after the other.\<close>

fun or_res :: "'c es_op list \<Rightarrow> int \<Rightarrow> 'c es_op" where
  "or_res [] res c = (res, c)"
| "or_res (f # fs) res c = (let (r, c) = f c in or_res fs (res OR r) c)"

definition es_write_reg :: "'c i2c_ops \<Rightarrow> u8 \<Rightarrow> u8 \<Rightarrow> u8 \<Rightarrow> 'c es_op" where
  "es_write_reg ops slave_addr reg_addr data c =
     (let c = i2c_cmd_link_create ops c;
          (res, c) = or_res [i2c_master_add ops I2cStart, i2c_master_add ops (I2cWrite slave_addr),
            i2c_master_add ops (I2cWrite reg_addr), i2c_master_add ops (I2cWrite data), i2c_master_add ops I2cStop] 0 c;
          (r, _, c) = i2c_master_cmd_begin ops c;
          res = res OR r;
          c = i2c_cmd_link_delete ops c
      in if res \<noteq> 0 then (-1, c) else (res, c))"

definition es8388_read_reg :: "'c i2c_ops \<Rightarrow> u8 \<Rightarrow> u8 \<Rightarrow> 'c \<Rightarrow> int \<times> u8 \<times> 'c" where
  "es8388_read_reg ops reg_addr pdata c =
     (let c = i2c_cmd_link_create ops c;
          (res, c) = or_res [i2c_master_add ops I2cStart, i2c_master_add ops (I2cWrite ES8388_ADDR),
            i2c_master_add ops (I2cWrite reg_addr), i2c_master_add ops I2cStop] 0 c;
          (r, _, c) = i2c_master_cmd_begin ops c;
          res = res OR r;
          c = i2c_cmd_link_delete ops c;
          c = i2c_cmd_link_create ops c;
          (res, c) = or_res [i2c_master_add ops I2cStart, i2c_master_add ops (I2cWrite (ES8388_ADDR OR 0x01)),
            i2c_master_add ops I2cRead, i2c_master_add ops I2cStop] res c;
          (r, data, c) = i2c_master_cmd_begin ops c;
          res = res OR r;
          c = i2c_cmd_link_delete ops c
      in if res \<noteq> 0 then (-1, pdata, c) else (res, data, c))"

definition i2c_init :: "'c i2c_ops \<Rightarrow> 'c es_op" where
  "i2c_init ops c =
     (let (res, c) = i2c_param_config ops c;
          (r, c) = i2c_driver_install ops c;
          res = res OR r
      in if res \<noteq> 0 then (-1, c) else (res, c))"

text \<open>The values printed, with their numbers.\<close>

definition es8388_read_all_regs :: "'c i2c_ops \<Rightarrow> 'c \<Rightarrow> (nat \<times> u8) list \<times> 'c" where
  "es8388_read_all_regs ops c =
     fold (\<lambda>i (out, c). let (_, reg, c) = es8388_read_reg ops (word_of_nat i) 0 c in (out @ [(i, reg)], c)) [0..<50] ([], c)"

definition es8388_write_reg :: "'c i2c_ops \<Rightarrow> u8 \<Rightarrow> u8 \<Rightarrow> 'c es_op" where
  "es8388_write_reg ops regAdd data = es_write_reg ops ES8388_ADDR regAdd data"

section \<open>The operations\<close>

text \<open>An \<open>int\<close> passed as a byte.\<close>

abbreviation (input) byte :: "int \<Rightarrow> u8" where "byte i \<equiv> word_of_int i"

abbreviation (input) wr :: "'c i2c_ops \<Rightarrow> u8 \<Rightarrow> int \<Rightarrow> 'c es_op" where
  "wr ops reg i \<equiv> es_write_reg ops ES8388_ADDR reg (byte i)"

definition es8388_set_adc_dac_volume :: "'c i2c_ops \<Rightarrow> es_codec_module_t \<Rightarrow> int \<Rightarrow> int \<Rightarrow> 'c es_op" where
  "es8388_set_adc_dac_volume ops mode volume dot =
     (let volume = (if volume < -96 \<or> 0 < volume then if volume < -96 then -96 else 0 else volume);
          dot = (if 5 \<le> dot then 1 else 0);
          volume = push_bit 1 (- volume) + dot
      in or_res
        ((if mode = ES_MODULE_ADC \<or> mode = ES_MODULE_ADC_DAC
          then [wr ops ES8388_ADCCONTROL8 volume, wr ops ES8388_ADCCONTROL9 volume] else []) @
         (if mode = ES_MODULE_DAC \<or> mode = ES_MODULE_ADC_DAC
          then [wr ops ES8388_DACCONTROL5 volume, wr ops ES8388_DACCONTROL4 volume] else [])) 0)"

definition es8388_set_mute :: "'c i2c_ops \<Rightarrow> int \<Rightarrow> 'c es_op" where
  "es8388_set_mute ops enable c =
     (let (res, reg, c) = es8388_read_reg ops ES8388_DACCONTROL3 0 c;
          reg = reg AND 0xFB
      in or_res [wr ops ES8388_DACCONTROL3 (uint reg OR push_bit 2 enable)] res c)"

definition es8388_start :: "'c i2c_ops \<Rightarrow> es_codec_module_t \<Rightarrow> 'c es_op" where
  "es8388_start ops mode c =
     (let (_, prev_data, c) = es8388_read_reg ops ES8388_DACCONTROL21 0 c;
          (res, c) = or_res
            (if mode = ES_MODULE_LINE
             then [wr ops ES8388_DACCONTROL16 0x09, wr ops ES8388_DACCONTROL17 0x50,
                   wr ops ES8388_DACCONTROL20 0x50, wr ops ES8388_DACCONTROL21 0xC0]
             else [wr ops ES8388_DACCONTROL21 0x80]) 0 c;
          (_, data, c) = es8388_read_reg ops ES8388_DACCONTROL21 0 c
      in or_res
        ((if prev_data \<noteq> data then [wr ops ES8388_CHIPPOWER 0xF0, wr ops ES8388_CHIPPOWER 0x00] else []) @
         (if mode = ES_MODULE_ADC \<or> mode = ES_MODULE_ADC_DAC \<or> mode = ES_MODULE_LINE
          then [wr ops ES8388_ADCPOWER 0x00] else []) @
         (if mode = ES_MODULE_DAC \<or> mode = ES_MODULE_ADC_DAC \<or> mode = ES_MODULE_LINE
          then [wr ops ES8388_DACPOWER 0x3c, es8388_set_mute ops 0] else [])) res c)"

definition es8388_stop :: "'c i2c_ops \<Rightarrow> es_codec_module_t \<Rightarrow> 'c es_op" where
  "es8388_stop ops mode =
     (if mode = ES_MODULE_LINE
      then or_res [wr ops ES8388_DACCONTROL21 0x80, wr ops ES8388_DACCONTROL16 0x00,
                   wr ops ES8388_DACCONTROL17 0x90, wr ops ES8388_DACCONTROL20 0x90] 0
      else or_res
        ((if mode = ES_MODULE_DAC \<or> mode = ES_MODULE_ADC_DAC
          then [wr ops ES8388_DACPOWER 0x00, es8388_set_mute ops 1] else []) @
         (if mode = ES_MODULE_ADC \<or> mode = ES_MODULE_ADC_DAC then [wr ops ES8388_ADCPOWER 0xFF] else []) @
         (if mode = ES_MODULE_ADC_DAC then [wr ops ES8388_DACCONTROL21 0x9C] else [])) 0)"

definition es8388_i2s_config_clock :: "'c i2c_ops \<Rightarrow> sclk_div_t \<Rightarrow> lclk_div_t \<Rightarrow> 'c es_op" where
  "es8388_i2s_config_clock ops sclk lclk =
     or_res [wr ops ES8388_MASTERMODE (sclk_code sclk), wr ops ES8388_ADCCONTROL5 (lclk_code lclk),
             wr ops ES8388_DACCONTROL2 (lclk_code lclk)] 0"

definition es8388_uninit :: "'c i2c_ops \<Rightarrow> 'c \<Rightarrow> 'c" where
  "es8388_uninit ops c = snd (wr ops ES8388_CHIPPOWER 0xFF c)"

definition es8388_pa_power :: "'c i2c_ops \<Rightarrow> bool \<Rightarrow> 'c \<Rightarrow> 'c" where
  "es8388_pa_power ops enable = gpio_set_pa ops enable"

definition es8388_init :: "'c i2c_ops \<Rightarrow> es8388_config_t \<Rightarrow> 'c es_op" where
  "es8388_init ops cfg c =
     (let (res, c) = i2c_init ops c;
          (res, c) = or_res
            [wr ops ES8388_DACCONTROL3 0x04,
             wr ops ES8388_CONTROL2 0x50, wr ops ES8388_CHIPPOWER 0x00, wr ops ES8388_MASTERMODE (mode_code (cfg_es_mode cfg)),
             wr ops ES8388_DACPOWER 0xC0, wr ops ES8388_CONTROL1 0x12, wr ops ES8388_DACCONTROL1 0x18,
             wr ops ES8388_DACCONTROL2 0x02, wr ops ES8388_DACCONTROL16 0x00, wr ops ES8388_DACCONTROL17 0x90,
             wr ops ES8388_DACCONTROL20 0x90, wr ops ES8388_DACCONTROL21 0x80, wr ops ES8388_DACCONTROL23 0x00,
             es8388_set_adc_dac_volume ops ES_MODULE_DAC 0 0, wr ops ES8388_DACPOWER (cfg_dac_output cfg),
             wr ops ES8388_ADCPOWER 0xFF, wr ops ES8388_ADCCONTROL1 0x88, wr ops ES8388_ADCCONTROL2 (cfg_adc_input cfg),
             wr ops ES8388_ADCCONTROL3 0x02, wr ops ES8388_ADCCONTROL4 0x0c, wr ops ES8388_ADCCONTROL5 0x02,
             es8388_set_adc_dac_volume ops ES_MODULE_ADC 0 0, wr ops ES8388_ADCPOWER 0x09] res c
      in (res, es8388_pa_power ops True c))"

text \<open>A field of a register: the bits outside the mask are kept.  Several operations do this for one or for both sides.\<close>

definition rmw :: "'c i2c_ops \<Rightarrow> u8 \<Rightarrow> u8 \<Rightarrow> int \<Rightarrow> u8 \<Rightarrow> 'c \<Rightarrow> int \<times> u8 \<times> 'c" where
  "rmw ops addr keep bits reg c =
     (let (res, reg, c) = es8388_read_reg ops addr reg c;
          reg = reg AND keep;
          (r, c) = wr ops addr (uint reg OR bits) c
      in (res OR r, reg, c))"

definition es8388_config_fmt :: "'c i2c_ops \<Rightarrow> es_codec_module_t \<Rightarrow> es_codec_i2s_fmt_t \<Rightarrow> 'c es_op" where
  "es8388_config_fmt ops mode fmt c =
     (let (res, reg, c) = (if mode = ES_MODULE_ADC \<or> mode = ES_MODULE_ADC_DAC
            then rmw ops ES8388_ADCCONTROL4 0xfc (fmt_code fmt) 0 c else (0, 0, c));
          (res, reg, c) = (if mode = ES_MODULE_DAC \<or> mode = ES_MODULE_ADC_DAC
            then rmw ops ES8388_DACCONTROL1 0xf9 (push_bit 1 (fmt_code fmt)) reg c else (res, reg, c))
      in (res, c))"

definition es8388_set_volume :: "'c i2c_ops \<Rightarrow> int \<Rightarrow> 'c es_op" where
  "es8388_set_volume ops volume =
     (let volume = (if volume < 0 then 0 else if 100 < volume then 100 else volume);
          volume = volume div 3
      in or_res [wr ops ES8388_DACCONTROL24 volume, wr ops ES8388_DACCONTROL25 volume,
                 wr ops ES8388_DACCONTROL26 0, wr ops ES8388_DACCONTROL27 0] 0)"

text \<open>The result and the volume stored for the caller; \<open>ESP_FAIL\<close> is -1.\<close>

definition es8388_get_volume :: "'c i2c_ops \<Rightarrow> 'c \<Rightarrow> int \<times> int \<times> 'c" where
  "es8388_get_volume ops c =
     (let (res, reg, c) = es8388_read_reg ops ES8388_DACCONTROL24 0 c
      in if res = -1 then (res, 0, c)
         else let volume = uint reg; volume = volume * 3; volume = (if volume = 99 then 100 else volume) in (res, volume, c))"

definition es8388_set_bits_per_sample :: "'c i2c_ops \<Rightarrow> es_codec_module_t \<Rightarrow> es_codec_bits_len_t \<Rightarrow> 'c es_op" where
  "es8388_set_bits_per_sample ops mode bits c =
     (let (res, reg, c) = (if mode = ES_MODULE_ADC \<or> mode = ES_MODULE_ADC_DAC
            then rmw ops ES8388_ADCCONTROL4 0xe3 (push_bit 2 (bits_code bits)) 0 c else (0, 0, c));
          (res, reg, c) = (if mode = ES_MODULE_DAC \<or> mode = ES_MODULE_ADC_DAC
            then rmw ops ES8388_DACCONTROL1 0xc7 (push_bit 3 (bits_code bits)) reg c else (res, reg, c))
      in (res, c))"

definition es8388_get_mute :: "'c i2c_ops \<Rightarrow> 'c \<Rightarrow> int \<times> int \<times> 'c" where
  "es8388_get_mute ops c =
     (let (res, reg, c) = es8388_read_reg ops ES8388_DACCONTROL3 0 c;
          reg = (if res = 0 then drop_bit 2 (reg AND 0x04) else reg)
      in (res, uint reg, c))"

definition es8388_set_dac_ouput :: "'c i2c_ops \<Rightarrow> int \<Rightarrow> 'c es_op" where
  "es8388_set_dac_ouput ops output c = (let (res, _, c) = rmw ops ES8388_DACPOWER 0xc3 output 0 c in (res, c))"

definition es8388_set_adc_input :: "'c i2c_ops \<Rightarrow> int \<Rightarrow> 'c es_op" where
  "es8388_set_adc_input ops input c = (let (res, _, c) = rmw ops ES8388_ADCCONTROL2 0x0f input 0 c in (res, c))"

text \<open>\<open>MIC_GAIN_MIN\<close> is -1, \<open>MIC_GAIN_MAX\<close> is 25; the division of C rounds towards 0.\<close>

definition es8388_set_mic_gain :: "'c i2c_ops \<Rightarrow> int \<Rightarrow> 'c es_op" where
  "es8388_set_mic_gain ops gain =
     (let gain = (if gain = -1 then 0 else gain);
          gain = (if gain = 25 then 24 else gain);
          gain_n = gain sdiv 3
      in wr ops ES8388_ADCCONTROL1 (push_bit 4 gain_n OR gain_n))"

section \<open>The chip\<close>

text \<open>What the bus driver promises: \<open>link\<close> is the command list under construction, \<open>regs\<close> the registers, \<open>ptr\<close> the
  address the chip reads next.  A transaction that fails may have changed the register it writes, no other.\<close>

definition i2c_ok :: "'c i2c_ops \<Rightarrow> ('c \<Rightarrow> i2c_cmd list) \<Rightarrow> ('c \<Rightarrow> u8 \<Rightarrow> u8) \<Rightarrow> ('c \<Rightarrow> u8) \<Rightarrow> bool" where
  "i2c_ok ops link regs ptr \<longleftrightarrow>
     (\<forall>c. link (i2c_cmd_link_create ops c) = [] \<and> regs (i2c_cmd_link_create ops c) = regs c \<and> ptr (i2c_cmd_link_create ops c) = ptr c) \<and>
     (\<forall>c. regs (i2c_cmd_link_delete ops c) = regs c \<and> ptr (i2c_cmd_link_delete ops c) = ptr c) \<and>
     (\<forall>c x. regs (snd (i2c_master_add ops x c)) = regs c \<and> ptr (snd (i2c_master_add ops x c)) = ptr c \<and>
        (fst (i2c_master_add ops x c) = 0 \<longrightarrow> link (snd (i2c_master_add ops x c)) = link c @ [x])) \<and>
     (\<forall>c r d res u c'. link c = [I2cStart, I2cWrite ES8388_ADDR, I2cWrite r, I2cWrite d, I2cStop] \<longrightarrow>
        i2c_master_cmd_begin ops c = (res, u, c') \<longrightarrow>
        (\<forall>q. q \<noteq> r \<longrightarrow> regs c' q = regs c q) \<and> (res = 0 \<longrightarrow> regs c' r = d)) \<and>
     (\<forall>c r res u c'. link c = [I2cStart, I2cWrite ES8388_ADDR, I2cWrite r, I2cStop] \<longrightarrow>
        i2c_master_cmd_begin ops c = (res, u, c') \<longrightarrow> regs c' = regs c \<and> (res = 0 \<longrightarrow> ptr c' = r)) \<and>
     (\<forall>c res u c'. link c = [I2cStart, I2cWrite (ES8388_ADDR OR 1), I2cRead, I2cStop] \<longrightarrow>
        i2c_master_cmd_begin ops c = (res, u, c') \<longrightarrow> regs c' = regs c \<and> (res = 0 \<longrightarrow> u = regs c (ptr c))) \<and>
     (\<forall>c. regs (snd (i2c_param_config ops c)) = regs c \<and> regs (snd (i2c_driver_install ops c)) = regs c) \<and>
     (\<forall>b c. regs (gpio_set_pa ops b c) = regs c)"

lemma int_or_zero [simp]: "(a :: int) OR b = 0 \<longleftrightarrow> a = 0 \<and> b = 0"
  by (auto simp: bit_eq_iff bit_or_iff)

lemma or_res_ok:
  assumes "or_res fs res c = (0, t)"
  shows "res = 0 \<and> (fs \<noteq> [] \<longrightarrow> (\<exists>c1. hd fs c = (0, c1) \<and> or_res (tl fs) 0 c1 = (0, t)))"
  using assms
proof (induction fs arbitrary: res c)
  case (Cons f fs)
  obtain r c1 where f: "f c = (r, c1)" by fastforce
  with Cons.prems have e: "or_res fs (res OR r) c1 = (0, t)" by simp
  from Cons.IH [OF e] have z: "res OR r = 0" by simp
  then have "res = 0" "r = 0" by simp_all
  with e f z show ?case by simp
qed simp

lemma or_res_Cons: "or_res (f # fs) res c = (0, t) \<longleftrightarrow> res = 0 \<and> (\<exists>c1. f c = (0, c1) \<and> or_res fs 0 c1 = (0, t))"
proof
  assume "or_res (f # fs) res c = (0, t)"
  from or_res_ok [OF this] show "res = 0 \<and> (\<exists>c1. f c = (0, c1) \<and> or_res fs 0 c1 = (0, t))" by simp
qed auto

text \<open>The invariant of a partial sequence: adding commands changes neither registers nor pointer, and builds the list.\<close>

lemma add_cmds:
  assumes ok: "i2c_ok ops link regs ptr" and a: "or_res (map (i2c_master_add ops) xs) res c = (r, t)"
  shows "regs t = regs c \<and> ptr t = ptr c \<and> (r = 0 \<longrightarrow> res = 0 \<and> link t = link c @ xs)"
  using a
proof (induction xs arbitrary: res c)
  case (Cons x xs)
  obtain q c1 where f: "i2c_master_add ops x c = (q, c1)" by fastforce
  with ok have 1: "regs c1 = regs c" "ptr c1 = ptr c" "q = 0 \<longrightarrow> link c1 = link c @ [x]"
    unfolding i2c_ok_def by (metis fst_conv snd_conv)+
  from Cons.prems f have e: "or_res (map (i2c_master_add ops) xs) (res OR q) c1 = (r, t)" by simp
  from Cons.IH [OF e] 1 show ?case by auto
qed simp

lemma write_reg:
  assumes ok: "i2c_ok ops link regs ptr" and w: "es_write_reg ops ES8388_ADDR reg d c = (res, t)"
  shows "res = 0 \<Longrightarrow> regs t = (regs c)(reg := d)" "res = 0 \<or> res = -1"
proof -
  let ?xs = "[I2cStart, I2cWrite ES8388_ADDR, I2cWrite reg, I2cWrite d, I2cStop]"
  let ?c1 = "i2c_cmd_link_create ops c"
  obtain r1 c2 where a: "or_res (map (i2c_master_add ops) ?xs) 0 ?c1 = (r1, c2)" by fastforce
  obtain r2 u c3 where b: "i2c_master_cmd_begin ops c2 = (r2, u, c3)" by (metis prod_cases3)
  have t: "res = (if r1 OR r2 \<noteq> 0 then -1 else 0)" "t = i2c_cmd_link_delete ops c3"
    using w a b by (auto simp: es_write_reg_def Let_def split: if_splits)
  from t(1) show "res = 0 \<or> res = -1" by (simp split: if_splits)
  assume "res = 0"
  with t(1) have z: "r1 = 0" "r2 = 0" by (auto split: if_splits)
  from add_cmds [OF ok a] have 1: "regs c2 = regs ?c1" "link c2 = link ?c1 @ ?xs" using z by simp_all
  have c1: "link ?c1 = []" "regs ?c1 = regs c" using ok by (simp_all add: i2c_ok_def)
  from 1 c1 have l: "link c2 = ?xs" by simp
  have "(\<forall>q. q \<noteq> reg \<longrightarrow> regs c3 q = regs c2 q) \<and> regs c3 reg = d"
    using ok l b z(2) unfolding i2c_ok_def by blast
  then have "regs c3 = (regs c)(reg := d)" using 1 c1 by auto
  then show "regs t = (regs c)(reg := d)" using ok t(2) by (simp add: i2c_ok_def)
qed

lemma read_reg:
  assumes ok: "i2c_ok ops link regs ptr" and w: "es8388_read_reg ops reg p c = (res, v, t)"
  shows "res = 0 \<Longrightarrow> regs t = regs c \<and> v = regs c reg" "res = 0 \<or> res = -1 \<and> v = p"
proof -
  let ?xs = "[I2cStart, I2cWrite ES8388_ADDR, I2cWrite reg, I2cStop]"
  let ?ys = "[I2cStart, I2cWrite (ES8388_ADDR OR 1), I2cRead, I2cStop]"
  let ?c1 = "i2c_cmd_link_create ops c"
  obtain r1 c2 where a: "or_res (map (i2c_master_add ops) ?xs) 0 ?c1 = (r1, c2)" by fastforce
  obtain r2 u c3 where b: "i2c_master_cmd_begin ops c2 = (r2, u, c3)" by (metis prod_cases3)
  let ?c4 = "i2c_cmd_link_create ops (i2c_cmd_link_delete ops c3)"
  obtain r3 c5 where a2: "or_res (map (i2c_master_add ops) ?ys) (r1 OR r2) ?c4 = (r3, c5)" by fastforce
  obtain r4 x c6 where b2: "i2c_master_cmd_begin ops c5 = (r4, x, c6)" by (metis prod_cases3)
  have t: "res = (if r3 OR r4 \<noteq> 0 then -1 else 0)" "v = (if r3 OR r4 \<noteq> 0 then p else x)" "t = i2c_cmd_link_delete ops c6"
    using w a b a2 b2 by (auto simp: es8388_read_reg_def Let_def split: if_splits)
  from t(1,2) show "res = 0 \<or> res = -1 \<and> v = p" by (simp split: if_splits)
  assume "res = 0"
  with t(1) have z: "r3 = 0" "r4 = 0" by (auto split: if_splits)
  from add_cmds [OF ok a2] z(1) have 2: "regs c5 = regs ?c4" "ptr c5 = ptr ?c4" "r1 OR r2 = 0" "link c5 = link ?c4 @ ?ys" by simp_all
  then have z2: "r1 = 0" "r2 = 0" by simp_all
  from add_cmds [OF ok a] z2 have 1: "regs c2 = regs ?c1" "link c2 = link ?c1 @ ?xs" by simp_all
  have c1: "link ?c1 = []" "regs ?c1 = regs c" and c4: "link ?c4 = []" "regs ?c4 = regs c3" "ptr ?c4 = ptr c3"
    using ok by (simp_all add: i2c_ok_def)
  from 1 c1 have l: "link c2 = ?xs" by simp
  have 3: "regs c3 = regs c2" "ptr c3 = reg" using ok l b z2(2) unfolding i2c_ok_def by blast+
  from 2 c4 have l2: "link c5 = ?ys" by simp
  have 4: "regs c6 = regs c5" "x = regs c5 (ptr c5)" using ok l2 b2 z(2) unfolding i2c_ok_def by blast+
  show "regs t = regs c \<and> v = regs c reg" using ok t z 4 2 c4 3 1 c1 by (simp add: i2c_ok_def)
qed

lemma byte_or: "byte (uint a OR i) = a OR byte i"
  by (rule bit_word_eqI) (simp add: bit_simps)

lemma rmw_reg:
  assumes ok: "i2c_ok ops link regs ptr" and w: "rmw ops addr keep bits p c = (0, v, t)"
  shows "regs t = (regs c)(addr := (regs c addr AND keep) OR byte bits) \<and> v = regs c addr AND keep"
proof -
  obtain r x c1 where a: "es8388_read_reg ops addr p c = (r, x, c1)" by (metis prod_cases3)
  obtain r2 c2 where b: "wr ops addr (uint (x AND keep) OR bits) c1 = (r2, c2)" by fastforce
  from w a b have z: "r = 0" "r2 = 0" "t = c2" "v = x AND keep" by (auto simp: rmw_def Let_def)
  have "regs c1 = regs c" "x = regs c addr" using read_reg(1) [OF ok a z(1)] by simp_all
  with write_reg(1) [OF ok b z(2)] z(3,4) show ?thesis by (simp add: byte_or)
qed

text \<open>A sequence of plain writes.\<close>

lemma writes:
  assumes ok: "i2c_ok ops link regs ptr"
  shows "or_res (map (\<lambda>(r, i). wr ops r i) ws) res c = (0, t) \<Longrightarrow> regs t = fold (\<lambda>(r, i) f. f(r := byte i)) ws (regs c)"
proof (induction ws arbitrary: res c)
  case (Cons w ws)
  obtain r i where w: "w = (r, i)" by fastforce
  with Cons.prems obtain c1 where 1: "wr ops r i c = (0, c1)" "or_res (map (\<lambda>(r, i). wr ops r i) ws) 0 c1 = (0, t)"
    by (auto simp: or_res_Cons simp del: or_res.simps(2))
  from Cons.IH [OF 1(2)] write_reg(1) [OF ok 1(1)] show ?case by (simp add: w)
qed simp

lemma set_volume_regs:
  assumes ok: "i2c_ok ops link regs ptr" and w: "es8388_set_volume ops v c = (0, t)"
  shows "regs t = (regs c)(ES8388_DACCONTROL24 := byte (max 0 (min 100 v) div 3), ES8388_DACCONTROL25 := byte (max 0 (min 100 v) div 3),
    ES8388_DACCONTROL26 := 0, ES8388_DACCONTROL27 := 0)"
proof -
  let ?k = "max 0 (min 100 v) div 3"
  have e: "(if v < 0 then 0 else if 100 < v then 100 else v) div 3 = ?k" by simp
  have "or_res (map (\<lambda>(r, i). wr ops r i) [(ES8388_DACCONTROL24, ?k), (ES8388_DACCONTROL25, ?k), (ES8388_DACCONTROL26, 0),
      (ES8388_DACCONTROL27, 0)]) 0 c = (0, t)"
    using w unfolding es8388_set_volume_def Let_def e by simp
  from writes [OF ok this] show ?thesis by simp
qed

text \<open>The volume read back is the volume set, put in range, to within 2.\<close>

theorem codec_volume:
  assumes ok: "i2c_ok ops link regs ptr" and s: "es8388_set_volume ops v c = (0, t)" and g: "es8388_get_volume ops t = (0, w, u)"
  shows "\<bar>w - max 0 (min 100 v)\<bar> \<le> 2 \<and> 0 \<le> w \<and> w \<le> 100 \<and> (100 \<le> v \<longrightarrow> w = 100) \<and> (v \<le> 0 \<longrightarrow> w = 0) \<and> regs u = regs t"
proof -
  let ?m = "max 0 (min 100 v)"
  obtain r x c1 where a: "es8388_read_reg ops ES8388_DACCONTROL24 0 t = (r, x, c1)" by (metis prod_cases3)
  from g a have r: "r = 0" "u = c1" "w = (if uint x * 3 = 99 then 100 else uint x * 3)"
    by (auto simp: es8388_get_volume_def Let_def split: if_splits)
  have "x = byte (?m div 3)" "regs u = regs t"
    using read_reg(1) [OF ok a r(1)] set_volume_regs [OF ok s] r(2) by (simp_all add: es_regs)
  moreover have "0 \<le> ?m div 3" "?m div 3 \<le> 33" by auto
  ultimately have x: "uint x = ?m div 3" "regs u = regs t" by (simp_all add: uint_word_of_int take_bit_eq_mod)
  have "3 * (?m div 3) \<le> ?m" "?m < 3 * (?m div 3) + 3" by presburger+
  with x r(3) show ?thesis by (auto simp: max_def min_def split: if_splits)
qed

text \<open>Muting changes the mute bit alone, and reads back.\<close>

theorem codec_mute:
  assumes ok: "i2c_ok ops link regs ptr" and s: "es8388_set_mute ops e c = (0, t)" and e: "e = 0 \<or> e = 1"
    and g: "es8388_get_mute ops t = (0, w, u)"
  shows "w = e \<and> regs t = (regs c)(ES8388_DACCONTROL3 := (regs c ES8388_DACCONTROL3 AND 0xFB) OR (if e = 1 then 4 else 0))"
proof -
  obtain r x c1 where a: "es8388_read_reg ops ES8388_DACCONTROL3 0 c = (r, x, c1)" by (metis prod_cases3)
  from s a obtain c2 where b: "r = 0" "wr ops ES8388_DACCONTROL3 (uint (x AND 0xFB) OR push_bit 2 e) c1 = (0, c2)" "t = c2"
    by (auto simp: es8388_set_mute_def Let_def or_res_Cons simp del: or_res.simps(2))
  have x: "regs c1 = regs c" "x = regs c ES8388_DACCONTROL3" using read_reg(1) [OF ok a b(1)] by simp_all
  have v: "byte (uint (x AND 0xFB) OR push_bit 2 e) = (x AND 0xFB) OR (if e = 1 then 4 else 0)"
    using e by (auto simp: byte_or)
  have t: "regs t = (regs c)(ES8388_DACCONTROL3 := (regs c ES8388_DACCONTROL3 AND 0xFB) OR (if e = 1 then 4 else 0))"
    using write_reg(1) [OF ok b(2)] b(3) x unfolding v by simp
  obtain r2 y c3 where a2: "es8388_read_reg ops ES8388_DACCONTROL3 0 t = (r2, y, c3)" by (metis prod_cases3)
  from g a2 have r2: "r2 = 0" "w = uint (drop_bit 2 (y AND 0x04))" by (auto simp: es8388_get_mute_def Let_def split: if_splits)
  have "y = (x AND 0xFB) OR (if e = 1 then 4 else 0)" using read_reg(1) [OF ok a2 r2(1)] t x(2) by simp
  then have "y AND 0x04 = (if e = 1 then 4 else 0)" using e by (auto simp: bit.conj_disj_distrib2 and.assoc)
  with r2(2) e t show ?thesis by auto
qed

text \<open>The effect of an operation that succeeds, and of a sequence of them.\<close>

definition sets :: "('c \<Rightarrow> u8 \<Rightarrow> u8) \<Rightarrow> 'c es_op \<Rightarrow> ((u8 \<Rightarrow> u8) \<Rightarrow> u8 \<Rightarrow> u8) \<Rightarrow> bool" where
  "sets regs f g \<longleftrightarrow> (\<forall>c t. f c = (0, t) \<longrightarrow> regs t = g (regs c))"

lemma sets_seq: "list_all2 (sets regs) fs gs \<Longrightarrow> or_res fs res c = (0, t) \<Longrightarrow> regs t = fold (\<lambda>g. g) gs (regs c)"
proof (induction fs gs arbitrary: res c rule: list_all2_induct)
  case (Cons f fs g gs)
  from Cons.prems obtain c1 where "f c = (0, c1)" "or_res fs 0 c1 = (0, t)" by (auto simp: or_res_Cons simp del: or_res.simps(2))
  with Cons.IH [of 0 c1] Cons.hyps(1) show ?case by (simp add: sets_def)
qed simp

lemma sets_wr: "i2c_ok ops link regs ptr \<Longrightarrow> sets regs (wr ops r i) (\<lambda>f. f(r := byte i))"
  using write_reg(1) by (fastforce simp: sets_def)

lemma sets_volume:
  assumes ok: "i2c_ok ops link regs ptr"
  shows "sets regs (es8388_set_adc_dac_volume ops ES_MODULE_DAC 0 0) (\<lambda>f. f(ES8388_DACCONTROL5 := 0, ES8388_DACCONTROL4 := 0))"
    "sets regs (es8388_set_adc_dac_volume ops ES_MODULE_ADC 0 0) (\<lambda>f. f(ES8388_ADCCONTROL8 := 0, ES8388_ADCCONTROL9 := 0))"
  unfolding sets_def es8388_set_adc_dac_volume_def
  using writes [OF ok, of "[(ES8388_DACCONTROL5, 0), (ES8388_DACCONTROL4, 0)]" 0]
    writes [OF ok, of "[(ES8388_ADCCONTROL8, 0), (ES8388_ADCCONTROL9, 0)]" 0] by simp_all

lemma sets_mute:
  assumes ok: "i2c_ok ops link regs ptr"
  shows "sets regs (es8388_set_mute ops e) (\<lambda>f. f(ES8388_DACCONTROL3 := (f ES8388_DACCONTROL3 AND 0xFB) OR byte (push_bit 2 e)))"
  unfolding sets_def
proof (intro allI impI)
  fix c t
  assume s: "es8388_set_mute ops e c = (0, t)"
  obtain r x c1 where a: "es8388_read_reg ops ES8388_DACCONTROL3 0 c = (r, x, c1)" by (metis prod_cases3)
  from s a obtain c2 where b: "r = 0" "wr ops ES8388_DACCONTROL3 (uint (x AND 0xFB) OR push_bit 2 e) c1 = (0, c2)" "t = c2"
    by (auto simp: es8388_set_mute_def Let_def or_res_Cons simp del: or_res.simps(2))
  from read_reg(1) [OF ok a b(1)] write_reg(1) [OF ok b(2)] b(3)
  show "regs t = (regs c)(ES8388_DACCONTROL3 := (regs c ES8388_DACCONTROL3 AND 0xFB) OR byte (push_bit 2 e))" by (simp add: byte_or)
qed

text \<open>The registers after the initialisation.\<close>

definition init_writes :: "es8388_config_t \<Rightarrow> (u8 \<times> u8) list" where
  "init_writes cfg =
     [(ES8388_DACCONTROL3, 0x04), (ES8388_CONTROL2, 0x50), (ES8388_CHIPPOWER, 0), (ES8388_MASTERMODE, byte (mode_code (cfg_es_mode cfg))),
      (ES8388_DACPOWER, 0xC0), (ES8388_CONTROL1, 0x12), (ES8388_DACCONTROL1, 0x18), (ES8388_DACCONTROL2, 0x02),
      (ES8388_DACCONTROL16, 0), (ES8388_DACCONTROL17, 0x90), (ES8388_DACCONTROL20, 0x90), (ES8388_DACCONTROL21, 0x80),
      (ES8388_DACCONTROL23, 0), (ES8388_DACCONTROL5, 0), (ES8388_DACCONTROL4, 0), (ES8388_DACPOWER, byte (cfg_dac_output cfg)),
      (ES8388_ADCPOWER, 0xFF), (ES8388_ADCCONTROL1, 0x88), (ES8388_ADCCONTROL2, byte (cfg_adc_input cfg)), (ES8388_ADCCONTROL3, 0x02),
      (ES8388_ADCCONTROL4, 0x0c), (ES8388_ADCCONTROL5, 0x02), (ES8388_ADCCONTROL8, 0), (ES8388_ADCCONTROL9, 0), (ES8388_ADCPOWER, 0x09)]"

lemma init_regs:
  assumes ok: "i2c_ok ops link regs ptr" and i: "es8388_init ops cfg c = (0, t)"
  shows "regs t = fold (\<lambda>(r, d) f. f(r := d)) (init_writes cfg) (regs c)"
proof -
  obtain r0 c0 where a: "i2c_init ops c = (r0, c0)" by fastforce
  have r0: "regs c0 = regs c"
    using a ok by (auto simp: i2c_init_def i2c_ok_def Let_def split: prod.splits if_splits) (metis snd_conv)+
  note w = sets_wr [OF ok] and v = sets_volume [OF ok]
  let ?fs = "[wr ops ES8388_DACCONTROL3 0x04,
             wr ops ES8388_CONTROL2 0x50, wr ops ES8388_CHIPPOWER 0x00, wr ops ES8388_MASTERMODE (mode_code (cfg_es_mode cfg)),
             wr ops ES8388_DACPOWER 0xC0, wr ops ES8388_CONTROL1 0x12, wr ops ES8388_DACCONTROL1 0x18,
             wr ops ES8388_DACCONTROL2 0x02, wr ops ES8388_DACCONTROL16 0x00, wr ops ES8388_DACCONTROL17 0x90,
             wr ops ES8388_DACCONTROL20 0x90, wr ops ES8388_DACCONTROL21 0x80, wr ops ES8388_DACCONTROL23 0x00,
             es8388_set_adc_dac_volume ops ES_MODULE_DAC 0 0, wr ops ES8388_DACPOWER (cfg_dac_output cfg),
             wr ops ES8388_ADCPOWER 0xFF, wr ops ES8388_ADCCONTROL1 0x88, wr ops ES8388_ADCCONTROL2 (cfg_adc_input cfg),
             wr ops ES8388_ADCCONTROL3 0x02, wr ops ES8388_ADCCONTROL4 0x0c, wr ops ES8388_ADCCONTROL5 0x02,
             es8388_set_adc_dac_volume ops ES_MODULE_ADC 0 0, wr ops ES8388_ADCPOWER 0x09]"
  obtain r t1 where b: "or_res ?fs r0 c0 = (r, t1)" by fastforce
  from i a b have r: "r = 0" "t = es8388_pa_power ops True t1" by (simp_all only: es8388_init_def Let_def prod.case prod.inject)
  have l: "list_all2 (sets regs) ?fs
     [\<lambda>f. f(ES8388_DACCONTROL3 := byte 0x04), \<lambda>f. f(ES8388_CONTROL2 := byte 0x50), \<lambda>f. f(ES8388_CHIPPOWER := byte 0x00),
      \<lambda>f. f(ES8388_MASTERMODE := byte (mode_code (cfg_es_mode cfg))), \<lambda>f. f(ES8388_DACPOWER := byte 0xC0),
      \<lambda>f. f(ES8388_CONTROL1 := byte 0x12), \<lambda>f. f(ES8388_DACCONTROL1 := byte 0x18), \<lambda>f. f(ES8388_DACCONTROL2 := byte 0x02),
      \<lambda>f. f(ES8388_DACCONTROL16 := byte 0x00), \<lambda>f. f(ES8388_DACCONTROL17 := byte 0x90), \<lambda>f. f(ES8388_DACCONTROL20 := byte 0x90),
      \<lambda>f. f(ES8388_DACCONTROL21 := byte 0x80), \<lambda>f. f(ES8388_DACCONTROL23 := byte 0x00),
      \<lambda>f. f(ES8388_DACCONTROL5 := 0, ES8388_DACCONTROL4 := 0), \<lambda>f. f(ES8388_DACPOWER := byte (cfg_dac_output cfg)),
      \<lambda>f. f(ES8388_ADCPOWER := byte 0xFF), \<lambda>f. f(ES8388_ADCCONTROL1 := byte 0x88), \<lambda>f. f(ES8388_ADCCONTROL2 := byte (cfg_adc_input cfg)),
      \<lambda>f. f(ES8388_ADCCONTROL3 := byte 0x02), \<lambda>f. f(ES8388_ADCCONTROL4 := byte 0x0c), \<lambda>f. f(ES8388_ADCCONTROL5 := byte 0x02),
      \<lambda>f. f(ES8388_ADCCONTROL8 := 0, ES8388_ADCCONTROL9 := 0), \<lambda>f. f(ES8388_ADCPOWER := byte 0x09)]"
    by (simp only: list_all2_Cons list_all2_Nil) (intro conjI w v refl)
  have "regs t = regs t1" using ok r(2) by (simp add: es8388_pa_power_def i2c_ok_def)
  also have "\<dots> = fold (\<lambda>(r, d) f. f(r := d)) (init_writes cfg) (regs c)"
    using sets_seq [OF l, of r0 c0 t1] b r(1) r0 by (simp add: init_writes_def)
  finally show ?thesis .
qed

text \<open>The word format of one side: the two fields do not disturb each other or the other bits.\<close>

lemma sets_fmt:
  assumes ok: "i2c_ok ops link regs ptr"
  shows "sets regs (es8388_config_fmt ops ES_MODULE_ADC f) (\<lambda>g. g(ES8388_ADCCONTROL4 := (g ES8388_ADCCONTROL4 AND 0xfc) OR byte (fmt_code f)))"
    "sets regs (es8388_config_fmt ops ES_MODULE_DAC f) (\<lambda>g. g(ES8388_DACCONTROL1 := (g ES8388_DACCONTROL1 AND 0xf9) OR byte (push_bit 1 (fmt_code f))))"
    "sets regs (es8388_set_bits_per_sample ops ES_MODULE_ADC b)
       (\<lambda>g. g(ES8388_ADCCONTROL4 := (g ES8388_ADCCONTROL4 AND 0xe3) OR byte (push_bit 2 (bits_code b))))"
    "sets regs (es8388_set_bits_per_sample ops ES_MODULE_DAC b)
       (\<lambda>g. g(ES8388_DACCONTROL1 := (g ES8388_DACCONTROL1 AND 0xc7) OR byte (push_bit 3 (bits_code b))))"
  using rmw_reg [OF ok] unfolding sets_def es8388_config_fmt_def es8388_set_bits_per_sample_def
  by (auto simp: Let_def split: prod.splits)

theorem codec_format:
  assumes ok: "i2c_ok ops link regs ptr" and m: "m = ES_MODULE_ADC \<or> m = ES_MODULE_DAC"
    and f: "es8388_config_fmt ops m f c = (0, t)" "0 \<le> fmt_code f" "fmt_code f \<le> 3"
    and b: "es8388_set_bits_per_sample ops m b t = (0, u)" "0 \<le> bits_code b" "bits_code b \<le> 4"
  shows "regs u =
    (if m = ES_MODULE_ADC
     then (regs c)(ES8388_ADCCONTROL4 := (regs c ES8388_ADCCONTROL4 AND 0xe0) OR byte (fmt_code f) OR byte (push_bit 2 (bits_code b)))
     else (regs c)(ES8388_DACCONTROL1 := (regs c ES8388_DACCONTROL1 AND 0xc1) OR byte (push_bit 1 (fmt_code f)) OR byte (push_bit 3 (bits_code b))))"
proof -
  have fs: "fmt_code f = 0 \<or> fmt_code f = 1 \<or> fmt_code f = 2 \<or> fmt_code f = 3" using f(2,3) by presburger
  have 1: "byte (fmt_code f) AND 0xe3 = byte (fmt_code f)" "byte (push_bit 1 (fmt_code f)) AND 0xc7 = byte (push_bit 1 (fmt_code f))"
    using fs by auto
  show ?thesis
  proof (cases "m = ES_MODULE_ADC")
    case True
    with sets_fmt(1,3) [OF ok] f(1) b(1) have "regs t = (regs c)(ES8388_ADCCONTROL4 := (regs c ES8388_ADCCONTROL4 AND 0xfc) OR byte (fmt_code f))"
      "regs u = (regs t)(ES8388_ADCCONTROL4 := (regs t ES8388_ADCCONTROL4 AND 0xe3) OR byte (push_bit 2 (bits_code b)))"
      unfolding sets_def by blast+
    with True 1 show ?thesis by (simp add: bit.conj_disj_distrib2 and.assoc or.assoc)
  next
    case False
    with m have "m = ES_MODULE_DAC" by simp
    with sets_fmt(2,4) [OF ok] f(1) b(1) have "regs t = (regs c)(ES8388_DACCONTROL1 := (regs c ES8388_DACCONTROL1 AND 0xf9) OR byte (push_bit 1 (fmt_code f)))"
      "regs u = (regs t)(ES8388_DACCONTROL1 := (regs t ES8388_DACCONTROL1 AND 0xc7) OR byte (push_bit 3 (bits_code b)))"
      unfolding sets_def by blast+
    with False 1 show ?thesis by (simp add: bit.conj_disj_distrib2 and.assoc or.assoc)
  qed
qed

text \<open>For both sides together the result is that of the DAC alone: a failure on the ADC is not reported.\<close>

theorem codec_error_lost:
  "fst (es8388_config_fmt ops ES_MODULE_ADC_DAC f c) =
     (let (_, reg, c) = rmw ops ES8388_ADCCONTROL4 0xfc (fmt_code f) 0 c
      in fst (rmw ops ES8388_DACCONTROL1 0xf9 (push_bit 1 (fmt_code f)) reg c))"
  by (simp add: es8388_config_fmt_def Let_def split: prod.splits)

text \<open>A running codec: power is on, mute is off.\<close>

lemma start_regs:
  assumes ok: "i2c_ok ops link regs ptr" and s: "es8388_start ops ES_MODULE_ADC_DAC c = (0, t)"
  shows "regs t ES8388_ADCPOWER = 0 \<and> regs t ES8388_DACPOWER = 0x3c \<and> regs t ES8388_DACCONTROL3 AND 4 = 0"
proof -
  obtain r1 p c1 where a: "es8388_read_reg ops ES8388_DACCONTROL21 0 c = (r1, p, c1)" by (metis prod_cases3)
  obtain r2 c2 where b: "or_res [wr ops ES8388_DACCONTROL21 0x80] 0 c1 = (r2, c2)" by fastforce
  obtain r3 d c3 where e: "es8388_read_reg ops ES8388_DACCONTROL21 0 c2 = (r3, d, c3)" by (metis prod_cases3)
  define ws where "ws = (if p \<noteq> d then [wr ops ES8388_CHIPPOWER 0xF0, wr ops ES8388_CHIPPOWER 0x00] else [])"
  have w: "list_all2 (sets regs) ws (if p \<noteq> d then [\<lambda>g. g(ES8388_CHIPPOWER := byte 0xF0), \<lambda>g. g(ES8388_CHIPPOWER := byte 0x00)] else [])"
    unfolding ws_def by (cases "p \<noteq> d") (simp_all only: if_True if_False simp_thms list_all2_Cons list_all2_Nil sets_wr [OF ok])
  have l: "list_all2 (sets regs) [wr ops ES8388_ADCPOWER 0x00, wr ops ES8388_DACPOWER 0x3c, es8388_set_mute ops 0]
      [\<lambda>g. g(ES8388_ADCPOWER := byte 0x00), \<lambda>g. g(ES8388_DACPOWER := byte 0x3c),
       \<lambda>g. g(ES8388_DACCONTROL3 := (g ES8388_DACCONTROL3 AND 0xFB) OR byte (push_bit 2 0))]"
    by (simp only: list_all2_Cons list_all2_Nil sets_wr [OF ok] sets_mute [OF ok] simp_thms)
  have o: "or_res (ws @ [wr ops ES8388_ADCPOWER 0x00, wr ops ES8388_DACPOWER 0x3c, es8388_set_mute ops 0]) r2 c3 = (0, t)"
    using s a b e unfolding es8388_start_def ws_def by (simp add: Let_def)
  from sets_seq [OF list_all2_appendI [OF w l] o]
  show ?thesis by (auto simp: es_regs and.assoc)
qed

section \<open>A chip\<close>

text \<open>A bus with one chip that answers every transaction.\<close>

definition chip_ops :: "(i2c_cmd list \<times> (u8 \<Rightarrow> u8) \<times> u8) i2c_ops" where
  "chip_ops = \<lparr>i2c_param_config = Pair 0, i2c_driver_install = Pair 0, i2c_cmd_link_create = \<lambda>c. ([], snd c),
     i2c_master_add = \<lambda>x c. (0, (fst c @ [x], snd c)),
     i2c_master_cmd_begin = \<lambda>(l, f, q).
       (case l of
          [I2cStart, I2cWrite a, I2cWrite r, I2cWrite d, I2cStop] \<Rightarrow> (0, 0, (l, f(r := d), q))
        | [I2cStart, I2cWrite a, I2cWrite r, I2cStop] \<Rightarrow> (0, 0, (l, f, r))
        | [I2cStart, I2cWrite a, I2cRead, I2cStop] \<Rightarrow> (0, f q, (l, f, q))
        | _ \<Rightarrow> (-1, 0, (l, f, q))),
     i2c_cmd_link_delete = \<lambda>c. ([], snd c), gpio_set_pa = \<lambda>b c. c\<rparr>"

lemma chip_ok: "i2c_ok chip_ops fst (\<lambda>c. fst (snd c)) (\<lambda>c. snd (snd c))"
  by (auto simp: i2c_ok_def chip_ops_def)

lemma codec_volume_chip:
  "fst (snd (es8388_get_volume chip_ops (snd (es8388_set_volume chip_ops 70 ([], (\<lambda>r. 0), 0))))) = 69"
  by (simp add: es8388_get_volume_def es8388_set_volume_def es8388_read_reg_def es_write_reg_def chip_ops_def Let_def es_regs)

end
