(* ===== verification/AudioBuf.thy ===== *)
theory AudioBuf
  imports Prelude Es8388
begin

text \<open>
  What the two I2S drivers, \<open>components/btstack-esp32/btstack_audio_esp32_v4.c\<close> and \<open>_v5.c\<close>, have in common: the
  states of sink and source, the loops that turn mono samples into stereo ones and back inside the sample
  buffer, and the setting up of the codec on the board that has one.
\<close>

datatype btstack_audio_esp32_state_t = AUDIO_OFF | AUDIO_INITIALIZED | AUDIO_STREAMING

definition BYTES_PER_SAMPLE_STEREO :: nat where "BYTES_PER_SAMPLE_STEREO = 4"

section \<open>Mono and stereo\<close>

text \<open>The loop down from the last sample; None is an access outside the buffer.  The counter of the source is an
  \<open>int16_t\<close>, so a start above 32767 is negative and the loop does not run.\<close>

fun dup_loop :: "nat \<Rightarrow> u16 list \<Rightarrow> u16 list option" where
  "dup_loop 0 b = Some b"
| "dup_loop (Suc i) b =
     (if 2 * i + 1 < length b
      then let b = b[2 * i := b ! i]; b = b[2 * i + 1 := b ! i] in dup_loop i b
      else None)"

definition mono_to_stereo :: "nat \<Rightarrow> u16 list \<Rightarrow> u16 list option" where
  "mono_to_stereo num_samples b = (if sint (word_of_int (int num_samples - 1) :: u16) < 0 then Some b else dup_loop num_samples b)"

fun drop_loop :: "nat \<Rightarrow> nat \<Rightarrow> u16 list \<Rightarrow> u16 list option" where
  "drop_loop i 0 b = Some b"
| "drop_loop i (Suc n) b = (if 2 * i < length b then drop_loop (Suc i) n (b[i := b ! (2 * i)]) else None)"

definition stereo_to_mono :: "nat \<Rightarrow> u16 list \<Rightarrow> u16 list option" where
  "stereo_to_mono num_samples b = drop_loop 0 num_samples b"

definition twice :: "'a list \<Rightarrow> 'a list" where
  "twice xs = concat (map (\<lambda>x. [x, x]) xs)"

lemma twice_simps [simp]: "twice [] = []" "twice (x # xs) = x # x # twice xs" "twice (xs @ ys) = twice xs @ twice ys"
  "length (twice xs) = 2 * length xs"
  by (simp_all add: twice_def) (induction xs, simp_all)

lemma dup_loop_eq: "2 * n \<le> length b \<Longrightarrow> dup_loop n b = Some (twice (take n b) @ drop (2 * n) b)"
proof (induction n arbitrary: b)
  case (Suc i)
  let ?b = "b[2 * i := b ! i]"
  let ?c = "?b[2 * i + 1 := ?b ! i]"
  have v: "?b ! i = b ! i" using Suc.prems by (cases "i = 0") simp_all
  have "take i ?c = take i b" by (simp add: nth_list_update list_eq_iff_nth_eq)
  moreover have "drop (2 * i) ?c = b ! i # b ! i # drop (2 * Suc i) b"
    using Suc.prems v by (simp add: list_eq_iff_nth_eq nth_list_update nth_Cons split: nat.split)
  ultimately show ?case using Suc.prems Suc.IH [of ?c] by (simp add: Let_def take_Suc_conv_app_nth)
qed simp

lemma mono_to_stereo_eq:
  assumes "n < 2 ^ 15" and "2 * n \<le> length b"
  shows "mono_to_stereo n b = Some (twice (take n b) @ drop (2 * n) b)"
proof (cases n)
  case 0
  then show ?thesis by (simp add: mono_to_stereo_def)
next
  case (Suc m)
  have "sint (word_of_int (int m) :: u16) = int m"
    using assms(1) Suc by (simp add: signed_of_nat signed_take_bit_int_eq_self)
  with Suc assms(2) show ?thesis by (simp add: mono_to_stereo_def dup_loop_eq del: dup_loop.simps)
qed

lemma mono_to_stereo_length: "mono_to_stereo n b = Some c \<Longrightarrow> length c = length b"
proof -
  have "dup_loop n b = Some c \<Longrightarrow> length c = length b" for n b
    by (induction n b rule: dup_loop.induct) (auto simp: Let_def split: if_splits)
  then show "mono_to_stereo n b = Some c \<Longrightarrow> length c = length b" by (auto simp: mono_to_stereo_def split: if_splits)
qed

lemma drop_loop_eq:
  "i + n \<le> length b \<Longrightarrow> 2 * (i + n) \<le> length b + 1 \<Longrightarrow>
     drop_loop i n b = Some (take i b @ map (\<lambda>k. b ! (2 * k)) [i..<i + n] @ drop (i + n) b)"
proof (induction n arbitrary: i b)
  case (Suc n)
  let ?c = "b[i := b ! (2 * i)]"
  have m: "map (\<lambda>k. ?c ! (2 * k)) [Suc i..<Suc i + n] = map (\<lambda>k. b ! (2 * k)) [Suc i..<Suc i + n]"
    by (intro map_cong refl nth_list_update_neq) auto
  have u: "[i..<i + Suc n] = i # [Suc i..<Suc i + n]" by (simp add: upt_rec)
  have t: "take (Suc i) ?c = take i b @ [b ! (2 * i)]" using Suc.prems by (simp add: take_Suc_conv_app_nth)
  have "drop_loop i (Suc n) b = drop_loop (Suc i) n ?c" using Suc.prems by simp
  also have "\<dots> = Some (take (Suc i) ?c @ map (\<lambda>k. ?c ! (2 * k)) [Suc i..<Suc i + n] @ drop (Suc i + n) ?c)"
    using Suc.prems by (intro Suc.IH) simp_all
  finally show ?case unfolding m t u by simp
qed simp

lemma twice_nth: "k < length xs \<Longrightarrow> twice xs ! (2 * k) = xs ! k"
proof (induction xs arbitrary: k)
  case (Cons x xs)
  then show ?case by (cases k) simp_all
qed simp

text \<open>Samples doubled and halved again are the samples.\<close>

lemma mono_round_trip:
  assumes "n < 2 ^ 15" and "2 * n \<le> length b"
  shows "\<exists>c. mono_to_stereo n b = Some c \<and> length c = length b \<and> map_option (take n) (stereo_to_mono n c) = Some (take n b)"
proof -
  let ?c = "twice (take n b) @ drop (2 * n) b"
  have l: "length ?c = length b" using assms(2) by simp
  have "map (\<lambda>k. ?c ! (2 * k)) [0..<n] = take n b"
    using assms(2) by (intro nth_equalityI) (simp_all add: nth_append twice_nth)
  moreover have "stereo_to_mono n ?c = Some (map (\<lambda>k. ?c ! (2 * k)) [0..<n] @ drop n ?c)"
    using assms(2) unfolding stereo_to_mono_def by (subst drop_loop_eq) (simp_all add: l)
  ultimately show ?thesis using mono_to_stereo_eq [OF assms] l assms(2) by simp
qed

text \<open>What is played of the samples of the client.\<close>

definition to_stereo :: "u8 \<Rightarrow> u16 list \<Rightarrow> u16 list" where
  "to_stereo ch xs = (if ch = 1 then twice xs else xs)"

lemma fill_stereo:
  assumes ch: "ch = 1 \<or> ch = 2" and l: "length xs = n * unat (ch :: u8)" and n: "n < 2 ^ 15" "2 * n \<le> length b"
  obtains c where "(if ch = 1 then mono_to_stereo n (xs @ drop (length xs) b) else Some (xs @ drop (length xs) b)) = Some c"
    "length c = length b" "take (2 * n) c = to_stereo ch xs"
proof (cases "ch = 1")
  case True
  then have xs: "length xs = n" using l by simp
  have "mono_to_stereo n (xs @ drop (length xs) b) = Some (twice (take n (xs @ drop (length xs) b)) @ drop (2 * n) (xs @ drop (length xs) b))"
    by (rule mono_to_stereo_eq [OF n(1)]) (use xs n(2) in simp)
  with True xs n(2) show thesis
    by (intro that [of "twice xs @ drop (2 * n) (xs @ drop (length xs) b)"]) (simp_all add: to_stereo_def)
next
  case False
  with ch l have "length xs = 2 * n" by simp
  with False n(2) show thesis by (intro that [of "xs @ drop (length xs) b"]) (simp_all add: to_stereo_def)
qed

section \<open>The codec\<close>

text \<open>The setting up after the call of \<open>es8388_init\<close>, in version 5 with every result checked; None is the abort.  In
  version 4 the results are ignored.\<close>

definition codec_setup :: "'c i2c_ops \<Rightarrow> 'c es_op list" where
  "codec_setup ops = [es8388_init ops es8388_default, es8388_config_fmt ops ES_MODULE_ADC_DAC ES_I2S_NORMAL,
     es8388_set_bits_per_sample ops ES_MODULE_ADC_DAC BIT_LENGTH_16BITS, es8388_start ops ES_MODULE_ADC_DAC,
     es8388_set_volume ops 70, es8388_set_mute ops 0]"

fun all_checked :: "'c es_op list \<Rightarrow> 'c \<Rightarrow> 'c option" where
  "all_checked [] c = Some c"
| "all_checked (f # fs) c = (let (r, c) = f c in if r = 0 then all_checked fs c else None)"

text \<open>The conversions of the gains of the audio interface.\<close>

definition sink_volume :: "u8 \<Rightarrow> u8" where
  "sink_volume gain = ucast ((ucast gain :: u16) * 100 div 128)"

definition source_gain :: "u8 \<Rightarrow> u8" where
  "source_gain gain = ucast ((ucast gain :: u16) * 24 div 127)"

lemma gain_values:
  "unat (sink_volume g) = unat g * 100 div 128" "unat (source_gain g) = unat g * 24 div 127"
proof -
  have u: "unat g < 256" using unsigned_less [of g, where ?'a = nat] by simp
  then have "unat ((ucast g :: u16) * 100) = unat g * 100" "unat ((ucast g :: u16) * 24) = unat g * 24"
    by (simp_all add: unat_word_ariths unsigned_ucast_eq take_bit_eq_mod)
  with u show "unat (sink_volume g) = unat g * 100 div 128" "unat (source_gain g) = unat g * 24 div 127"
    by (simp_all add: sink_volume_def source_gain_def unsigned_ucast_eq unat_div take_bit_eq_mod)
qed

end
