(* ===== verification/AudioV5.thy ===== *)
theory AudioV5
  imports AudioBuf "HOL-Library.Monad_Syntax"
begin

text \<open>
  The I2S driver for ESP-IDF 5, \<open>components/btstack-esp32/btstack_audio_esp32_v5.c\<close>: a sink and a source that share
  one pair of channels, and the handler that moves samples between the channels and the client's callbacks.  The
  channel driver of ESP-IDF is the parameter \<open>i2s_ops\<close>, with \<open>i2s_ok\<close> as its documented behaviour; the run loop's data
  source is two flags; the codec is there on boards that have one (\<open>cod\<close>).  A failed assertion or
  \<open>ESP_ERROR_CHECK\<close>, a null pointer called and an access outside the buffer are None.
\<close>

definition DRIVER_ISR_INTERVAL_MS :: u32 where "DRIVER_ISR_INTERVAL_MS = 10"
definition DMA_BUFFER_COUNT :: nat where "DMA_BUFFER_COUNT = 6"
definition MAX_DMA_BUFFER_SAMPLES :: nat where "MAX_DMA_BUFFER_SAMPLES = 48000 * 2 * 10 div 1000"

section \<open>State\<close>

datatype i2s_dir = TxChan | RxChan

record 'i i2s_ops =
  i2s_new_channel :: "u32 \<Rightarrow> 'i \<Rightarrow> bool \<times> 'i"                \<comment> \<open>with \<open>dma_frame_num\<close>; True is \<open>ESP_OK\<close>\<close>
  i2s_channel_init_std_mode :: "i2s_dir \<Rightarrow> u32 \<Rightarrow> 'i \<Rightarrow> bool \<times> 'i"
  i2s_channel_register_event_callback :: "i2s_dir \<Rightarrow> 'i \<Rightarrow> bool \<times> 'i"
  i2s_channel_enable :: "i2s_dir \<Rightarrow> 'i \<Rightarrow> bool \<times> 'i"
  i2s_channel_disable :: "i2s_dir \<Rightarrow> 'i \<Rightarrow> bool \<times> 'i"
  i2s_del_channel :: "i2s_dir \<Rightarrow> 'i \<Rightarrow> bool \<times> 'i"

record ('c, 'i) audio_st =
  i2s_installed :: bool
  i2s_streaming :: bool
  i2s_samplerate :: u32
  sink_num_channels :: u8
  sink_samplerate :: u32
  source_num_channels :: u8
  source_samplerate :: u32
  sink_state :: btstack_audio_esp32_state_t
  source_state :: btstack_audio_esp32_state_t
  sink_callback :: "nat option"
  source_callback :: "nat option"
  es8388_initialized :: bool
  codec :: 'c
  i2s :: 'i
  handler_set :: bool
  poll_enabled :: bool          \<comment> \<open>the callbacks of \<open>transport_data_source\<close> are enabled\<close>
  in_run_loop :: bool           \<comment> \<open>\<open>transport_data_source\<close> is in the run loop\<close>
  poll_pending :: bool
  isr_bytes_read :: u32
  isr_bytes_written :: u32
  audio_buffer :: "u16 list"
  played :: "u16 list list"                    \<comment> \<open>the blocks handed to \<open>i2s_channel_write\<close>\<close>
  recorded :: "(nat \<times> u16 list) list"       \<comment> \<open>the calls of the recording callback\<close>

definition esp_check :: "('i \<Rightarrow> bool \<times> 'i) \<Rightarrow> ('c, 'i) audio_st \<Rightarrow> ('c, 'i) audio_st option" where
  "esp_check f s = (let (ok, i) = f (i2s s) in if ok then Some (s\<lparr>i2s := i\<rparr>) else None)"

section \<open>Starting and stopping\<close>

definition btstack_audio_esp32_es8388_init :: "'c i2c_ops option \<Rightarrow> ('c, 'i) audio_st \<Rightarrow> ('c, 'i) audio_st option" where
  "btstack_audio_esp32_es8388_init cod s =
     (case cod of
        None \<Rightarrow> Some s
      | Some ops \<Rightarrow>
          if es8388_initialized s then Some s
          else map_option (\<lambda>c. s\<lparr>es8388_initialized := True, codec := c\<rparr>) (all_checked (codec_setup ops) (codec s)))"

definition btstack_audio_esp32_stream_start :: "('c, 'i) audio_st \<Rightarrow> ('c, 'i) audio_st" where
  "btstack_audio_esp32_stream_start s =
     (if i2s_streaming s then s
      else if \<not> (sink_state s = AUDIO_STREAMING \<or> source_state s = AUDIO_STREAMING) then s
      else s\<lparr>isr_bytes_written := 0, isr_bytes_read := 0, poll_enabled := True, in_run_loop := True, i2s_streaming := True\<rparr>)"

definition btstack_audio_esp32_stream_stop :: "('c, 'i) audio_st \<Rightarrow> ('c, 'i) audio_st" where
  "btstack_audio_esp32_stream_stop s =
     (if \<not> i2s_streaming s then s
      else if sink_state s = AUDIO_STREAMING \<or> source_state s = AUDIO_STREAMING then s
      else s\<lparr>poll_enabled := False, in_run_loop := False, isr_bytes_written := 0, isr_bytes_read := 0, i2s_streaming := False\<rparr>)"

text \<open>The sample rate of one side is taken over, unless the other side has set a different one.\<close>

definition use_rate :: "btstack_audio_esp32_state_t \<Rightarrow> u32 \<Rightarrow> u32 \<Rightarrow> u32 option" where
  "use_rate st r rate = (if st = AUDIO_OFF then Some rate else if rate \<noteq> 0 \<and> rate \<noteq> r then None else Some r)"

definition btstack_audio_esp32_init ::
    "'i i2s_ops \<Rightarrow> 'c i2c_ops option \<Rightarrow> ('c, 'i) audio_st \<Rightarrow> ('c, 'i) audio_st option" where
  "btstack_audio_esp32_init ops cod s =
     (if i2s_installed s then Some s
      else do {
        rate \<leftarrow> use_rate (sink_state s) (sink_samplerate s) 0;
        rate \<leftarrow> use_rate (source_state s) (source_samplerate s) rate;
        let dma_frame_num = DRIVER_ISR_INTERVAL_MS * rate div 1000;
        if 4092 < dma_frame_num then None
        else do {
          s \<leftarrow> esp_check (i2s_new_channel ops dma_frame_num) (s\<lparr>i2s_samplerate := rate\<rparr>);
          s \<leftarrow> esp_check (i2s_channel_init_std_mode ops TxChan rate) s;
          s \<leftarrow> esp_check (i2s_channel_init_std_mode ops RxChan rate) s;
          s \<leftarrow> esp_check (i2s_channel_register_event_callback ops RxChan) s;
          s \<leftarrow> esp_check (i2s_channel_register_event_callback ops TxChan) s;
          s \<leftarrow> btstack_audio_esp32_es8388_init cod s;
          Some (s\<lparr>i2s_installed := True, handler_set := True\<rparr>)
        }
      })"

definition btstack_audio_esp32_deinit :: "'i i2s_ops \<Rightarrow> ('c, 'i) audio_st \<Rightarrow> ('c, 'i) audio_st option" where
  "btstack_audio_esp32_deinit ops s =
     (if \<not> i2s_installed s then Some s
      else if sink_state s \<noteq> AUDIO_OFF \<or> source_state s \<noteq> AUDIO_OFF then Some s
      else do {
        s \<leftarrow> esp_check (i2s_del_channel ops RxChan) s;
        s \<leftarrow> esp_check (i2s_del_channel ops TxChan) s;
        Some (s\<lparr>poll_enabled := False, in_run_loop := False, i2s_installed := False\<rparr>)
      })"

section \<open>The sink\<close>

definition btstack_audio_esp32_sink_init ::
    "'i i2s_ops \<Rightarrow> 'c i2c_ops option \<Rightarrow> u8 \<Rightarrow> u32 \<Rightarrow> nat option \<Rightarrow> ('c, 'i) audio_st \<Rightarrow> (int \<times> ('c, 'i) audio_st) option" where
  "btstack_audio_esp32_sink_init ops cod channels samplerate playback s =
     (if playback = None \<or> \<not> (1 \<le> channels \<and> channels \<le> 2) \<or> \<not> samplerate \<le> 48000 then None
      else map_option (Pair 0) (btstack_audio_esp32_init ops cod
        (s\<lparr>sink_callback := playback, sink_num_channels := channels, sink_samplerate := samplerate, sink_state := AUDIO_INITIALIZED\<rparr>)))"

definition btstack_audio_esp32_sink_get_samplerate :: "('c, 'i) audio_st \<Rightarrow> u32" where
  "btstack_audio_esp32_sink_get_samplerate s = sink_samplerate s"

definition btstack_audio_esp32_sink_set_volume :: "'c i2c_ops option \<Rightarrow> u8 \<Rightarrow> ('c, 'i) audio_st \<Rightarrow> ('c, 'i) audio_st" where
  "btstack_audio_esp32_sink_set_volume cod gain s =
     (case cod of
        None \<Rightarrow> s
      | Some ops \<Rightarrow> if \<not> es8388_initialized s then s
          else s\<lparr>codec := snd (es8388_set_volume ops (uint (sink_volume gain)) (codec s))\<rparr>)"

definition btstack_audio_esp32_sink_start_stream :: "'i i2s_ops \<Rightarrow> ('c, 'i) audio_st \<Rightarrow> ('c, 'i) audio_st option" where
  "btstack_audio_esp32_sink_start_stream ops s =
     (if sink_state s \<noteq> AUDIO_INITIALIZED then Some s
      else if sink_samplerate s \<noteq> i2s_samplerate s then None
      else esp_check (i2s_channel_enable ops TxChan) (btstack_audio_esp32_stream_start (s\<lparr>sink_state := AUDIO_STREAMING\<rparr>)))"

definition btstack_audio_esp32_sink_stop_stream :: "'i i2s_ops \<Rightarrow> ('c, 'i) audio_st \<Rightarrow> ('c, 'i) audio_st option" where
  "btstack_audio_esp32_sink_stop_stream ops s =
     (if sink_state s \<noteq> AUDIO_STREAMING then Some s
      else map_option btstack_audio_esp32_stream_stop
        (esp_check (i2s_channel_disable ops TxChan) (s\<lparr>sink_state := AUDIO_INITIALIZED\<rparr>)))"

definition btstack_audio_esp32_sink_close :: "'i i2s_ops \<Rightarrow> ('c, 'i) audio_st \<Rightarrow> ('c, 'i) audio_st option" where
  "btstack_audio_esp32_sink_close ops s = do {
     s \<leftarrow> (if sink_state s = AUDIO_STREAMING then btstack_audio_esp32_sink_stop_stream ops s else Some s);
     btstack_audio_esp32_deinit ops (s\<lparr>sink_state := AUDIO_OFF\<rparr>)
   }"

section \<open>The source\<close>

definition btstack_audio_esp32_source_init ::
    "'i i2s_ops \<Rightarrow> 'c i2c_ops option \<Rightarrow> u8 \<Rightarrow> u32 \<Rightarrow> nat option \<Rightarrow> ('c, 'i) audio_st \<Rightarrow> (int \<times> ('c, 'i) audio_st) option" where
  "btstack_audio_esp32_source_init ops cod channels samplerate recording s =
     (if recording = None then None
      else map_option (Pair 0) (btstack_audio_esp32_init ops cod
        (s\<lparr>source_callback := recording, source_num_channels := channels, source_samplerate := samplerate,
           source_state := AUDIO_INITIALIZED\<rparr>)))"

definition btstack_audio_esp32_source_get_samplerate :: "('c, 'i) audio_st \<Rightarrow> u32" where
  "btstack_audio_esp32_source_get_samplerate s = source_samplerate s"

definition btstack_audio_esp32_source_set_gain :: "'c i2c_ops option \<Rightarrow> u8 \<Rightarrow> ('c, 'i) audio_st \<Rightarrow> ('c, 'i) audio_st" where
  "btstack_audio_esp32_source_set_gain cod gain s =
     (case cod of
        None \<Rightarrow> s
      | Some ops \<Rightarrow> if \<not> es8388_initialized s then s
          else s\<lparr>codec := snd (es8388_set_mic_gain ops (uint (source_gain gain)) (codec s))\<rparr>)"

definition btstack_audio_esp32_source_start_stream :: "'i i2s_ops \<Rightarrow> ('c, 'i) audio_st \<Rightarrow> ('c, 'i) audio_st option" where
  "btstack_audio_esp32_source_start_stream ops s =
     (if source_state s \<noteq> AUDIO_INITIALIZED then Some s
      else if source_samplerate s \<noteq> i2s_samplerate s then None
      else esp_check (i2s_channel_enable ops RxChan) (btstack_audio_esp32_stream_start (s\<lparr>source_state := AUDIO_STREAMING\<rparr>)))"

definition btstack_audio_esp32_source_stop_stream :: "'i i2s_ops \<Rightarrow> ('c, 'i) audio_st \<Rightarrow> ('c, 'i) audio_st option" where
  "btstack_audio_esp32_source_stop_stream ops s =
     (if source_state s \<noteq> AUDIO_STREAMING then Some s
      else map_option btstack_audio_esp32_stream_stop
        (esp_check (i2s_channel_disable ops RxChan) (s\<lparr>source_state := AUDIO_INITIALIZED\<rparr>)))"

definition btstack_audio_esp32_source_close :: "'i i2s_ops \<Rightarrow> ('c, 'i) audio_st \<Rightarrow> ('c, 'i) audio_st option" where
  "btstack_audio_esp32_source_close ops s = do {
     s \<leftarrow> (if source_state s = AUDIO_STREAMING then btstack_audio_esp32_source_stop_stream ops s else Some s);
     btstack_audio_esp32_deinit ops (s\<lparr>source_state := AUDIO_OFF\<rparr>)
   }"

section \<open>Interrupts and samples\<close>

definition i2s_rx_callback :: "u32 \<Rightarrow> ('c, 'i) audio_st \<Rightarrow> bool \<times> ('c, 'i) audio_st" where
  "i2s_rx_callback block_size s =
     (let s = s\<lparr>isr_bytes_read := isr_bytes_read s + block_size\<rparr>
      in if 0 < block_size then (True, s\<lparr>poll_pending := True\<rparr>) else (False, s))"

definition i2s_tx_callback :: "u32 \<Rightarrow> ('c, 'i) audio_st \<Rightarrow> bool \<times> ('c, 'i) audio_st" where
  "i2s_tx_callback block_size s =
     (let s = s\<lparr>isr_bytes_written := isr_bytes_written s + block_size\<rparr>
      in if 0 < block_size then (True, s\<lparr>poll_pending := True\<rparr>) else (False, s))"

text \<open>What the client, the driver and the interrupts do while the handler runs: the samples the playback callback
  writes, the result and length of writing and reading, the samples read, and the bytes the interrupts add.\<close>

datatype i2s_ret = RetOk | RetTimeout | RetError

record process_env =
  pe_play :: "nat \<Rightarrow> u16 list"
  pe_write :: "i2s_ret \<times> nat"
  pe_read :: "i2s_ret \<times> nat \<times> u16 list"
  pe_isr_written :: u32
  pe_isr_read :: u32

definition put_samples :: "u16 list \<Rightarrow> u16 list \<Rightarrow> u16 list option" where
  "put_samples xs b = (if length xs \<le> length b then Some (xs @ drop (length xs) b) else None)"

definition process_sink :: "process_env \<Rightarrow> u32 \<Rightarrow> ('c, 'i) audio_st \<Rightarrow> ('c, 'i) audio_st option" where
  "process_sink e write_block_size s =
     (let num_samples = (ucast (write_block_size div 4) :: u16)
      in if num_samples = 0 then Some (s\<lparr>isr_bytes_written := isr_bytes_written s + pe_isr_written e\<rparr>)
         else if sink_callback s = None then None
         else do {
           b \<leftarrow> put_samples (pe_play e (unat num_samples)) (audio_buffer s);
           b \<leftarrow> (if sink_num_channels s = 1 then mono_to_stereo (unat num_samples) b else Some b);
           if 2 * length b < unat write_block_size then None
           else if fst (pe_write e) = RetOk \<and> snd (pe_write e) \<noteq> unat write_block_size then None
           else Some (s\<lparr>audio_buffer := b, played := played s @ [take (unat write_block_size div 2) b],
                        isr_bytes_written := isr_bytes_written s + pe_isr_written e - write_block_size\<rparr>)
         })"

definition process_source :: "process_env \<Rightarrow> u32 \<Rightarrow> ('c, 'i) audio_st \<Rightarrow> ('c, 'i) audio_st option" where
  "process_source e read_block_size s =
     (let num_samples = (ucast (read_block_size div 4) :: u16); (ret, bytes_read, data) = pe_read e
      in if num_samples = 0 then Some (s\<lparr>isr_bytes_read := isr_bytes_read s + pe_isr_read e\<rparr>)
         else do {
           b \<leftarrow> put_samples data (audio_buffer s);
           if ret = RetOk \<and> bytes_read \<noteq> unat read_block_size then None
           else do {
             b \<leftarrow> (if source_num_channels s = 1 then stereo_to_mono (unat num_samples) b else Some b);
             cb \<leftarrow> source_callback s;
             Some (s\<lparr>audio_buffer := b, recorded := recorded s @ [(unat num_samples, b)],
                     isr_bytes_read := isr_bytes_read s + pe_isr_read e - read_block_size\<rparr>)
           }
         })"

definition i2s_data_process :: "process_env \<Rightarrow> ('c, 'i) audio_st \<Rightarrow> ('c, 'i) audio_st option" where
  "i2s_data_process e s =
     (let write_block_size = isr_bytes_written s; read_block_size = isr_bytes_read s
      in do { s \<leftarrow> process_sink e write_block_size s; process_source e read_block_size s })"

section \<open>The channels\<close>

text \<open>\<open>ex\<close>: which channels exist; \<open>rn\<close>: which are enabled.  Creating may fail; enabling a channel that is enabled and
  deleting one that is enabled are refused.\<close>

definition i2s_ok :: "'i i2s_ops \<Rightarrow> ('i \<Rightarrow> i2s_dir \<Rightarrow> bool) \<Rightarrow> ('i \<Rightarrow> i2s_dir \<Rightarrow> bool) \<Rightarrow> bool" where
  "i2s_ok ops ex rn \<longleftrightarrow>
     (\<forall>n i j. i2s_new_channel ops n i = (True, j) \<longrightarrow> ex j TxChan \<and> ex j RxChan \<and> \<not> rn j TxChan \<and> \<not> rn j RxChan) \<and>
     (\<forall>d r i. ex (snd (i2s_channel_init_std_mode ops d r i)) = ex i \<and> rn (snd (i2s_channel_init_std_mode ops d r i)) = rn i) \<and>
     (\<forall>d i. ex (snd (i2s_channel_register_event_callback ops d i)) = ex i \<and> rn (snd (i2s_channel_register_event_callback ops d i)) = rn i) \<and>
     (\<forall>d i. ex i d \<longrightarrow> (fst (i2s_channel_enable ops d i) \<longleftrightarrow> \<not> rn i d) \<and> (\<not> rn i d \<longrightarrow>
        ex (snd (i2s_channel_enable ops d i)) = ex i \<and> rn (snd (i2s_channel_enable ops d i)) = (rn i)(d := True))) \<and>
     (\<forall>d i. ex i d \<longrightarrow> (fst (i2s_channel_disable ops d i) \<longleftrightarrow> rn i d) \<and> (rn i d \<longrightarrow>
        ex (snd (i2s_channel_disable ops d i)) = ex i \<and> rn (snd (i2s_channel_disable ops d i)) = (rn i)(d := False))) \<and>
     (\<forall>d i. ex i d \<longrightarrow> (fst (i2s_del_channel ops d i) \<longleftrightarrow> \<not> rn i d) \<and> (\<not> rn i d \<longrightarrow>
        ex (snd (i2s_del_channel ops d i)) = (ex i)(d := False) \<and> rn (snd (i2s_del_channel ops d i)) = rn i))"

definition audio_inv :: "('i \<Rightarrow> i2s_dir \<Rightarrow> bool) \<Rightarrow> ('i \<Rightarrow> i2s_dir \<Rightarrow> bool) \<Rightarrow> u32 \<Rightarrow> ('c, 'i) audio_st \<Rightarrow> bool" where
  "audio_inv ex rn R s \<longleftrightarrow>
     (i2s_installed s \<longleftrightarrow> sink_state s \<noteq> AUDIO_OFF \<or> source_state s \<noteq> AUDIO_OFF) \<and>
     (i2s_streaming s \<longleftrightarrow> sink_state s = AUDIO_STREAMING \<or> source_state s = AUDIO_STREAMING) \<and>
     (poll_enabled s \<longleftrightarrow> i2s_streaming s) \<and> (in_run_loop s \<longleftrightarrow> i2s_streaming s) \<and>
     (i2s_installed s \<longrightarrow> i2s_samplerate s = R \<and> ex (i2s s) TxChan \<and> ex (i2s s) RxChan \<and>
        (rn (i2s s) TxChan \<longleftrightarrow> sink_state s = AUDIO_STREAMING) \<and> (rn (i2s s) RxChan \<longleftrightarrow> source_state s = AUDIO_STREAMING)) \<and>
     (sink_state s \<noteq> AUDIO_OFF \<longrightarrow> sink_samplerate s = R \<and> sink_callback s \<noteq> None) \<and>
     (source_state s \<noteq> AUDIO_OFF \<longrightarrow> source_samplerate s = R \<and> source_callback s \<noteq> None)"

lemmas audio_defs = btstack_audio_esp32_stream_start_def btstack_audio_esp32_stream_stop_def
  btstack_audio_esp32_sink_start_stream_def btstack_audio_esp32_sink_stop_stream_def btstack_audio_esp32_sink_close_def
  btstack_audio_esp32_source_start_stream_def btstack_audio_esp32_source_stop_stream_def btstack_audio_esp32_source_close_def
  btstack_audio_esp32_deinit_def esp_check_def

lemma enable_ok:
  assumes "i2s_ok ops ex rn" and "ex i d" and "\<not> rn i d"
  obtains j where "i2s_channel_enable ops d i = (True, j)" "ex j = ex i" "rn j = (rn i)(d := True)"
proof -
  have "fst (i2s_channel_enable ops d i)" "ex (snd (i2s_channel_enable ops d i)) = ex i" "rn (snd (i2s_channel_enable ops d i)) = (rn i)(d := True)"
    using assms by (simp_all add: i2s_ok_def)
  then show thesis by (intro that [of "snd (i2s_channel_enable ops d i)"]) (simp_all add: prod_eq_iff)
qed

lemma disable_ok:
  assumes "i2s_ok ops ex rn" and "ex i d" and "rn i d"
  obtains j where "i2s_channel_disable ops d i = (True, j)" "ex j = ex i" "rn j = (rn i)(d := False)"
proof -
  have "fst (i2s_channel_disable ops d i)" "ex (snd (i2s_channel_disable ops d i)) = ex i" "rn (snd (i2s_channel_disable ops d i)) = (rn i)(d := False)"
    using assms by (simp_all add: i2s_ok_def)
  then show thesis by (intro that [of "snd (i2s_channel_disable ops d i)"]) (simp_all add: prod_eq_iff)
qed

lemma del_ok:
  assumes "i2s_ok ops ex rn" and "ex i d" and "\<not> rn i d"
  obtains j where "i2s_del_channel ops d i = (True, j)" "ex j = (ex i)(d := False)" "rn j = rn i"
proof -
  have "fst (i2s_del_channel ops d i)" "ex (snd (i2s_del_channel ops d i)) = (ex i)(d := False)" "rn (snd (i2s_del_channel ops d i)) = rn i"
    using assms by (simp_all add: i2s_ok_def)
  then show thesis by (intro that [of "snd (i2s_del_channel ops d i)"]) (simp_all add: prod_eq_iff)
qed

text \<open>Each operation is carried out and keeps the invariant.\<close>

lemma sink_start_inv:
  assumes ok: "i2s_ok ops ex rn" and i: "audio_inv ex rn R s"
  obtains t where "btstack_audio_esp32_sink_start_stream ops s = Some t" "audio_inv ex rn R t"
proof (cases "sink_state s = AUDIO_INITIALIZED")
  case True
  with i have "ex (i2s s) TxChan" "\<not> rn (i2s s) TxChan" by (simp_all add: audio_inv_def)
  then obtain j where j: "i2s_channel_enable ops TxChan (i2s s) = (True, j)" "ex j = ex (i2s s)" "rn j = (rn (i2s s))(TxChan := True)"
    by (rule enable_ok [OF ok])
  show thesis
    using i True j by (intro that [of "(btstack_audio_esp32_stream_start (s\<lparr>sink_state := AUDIO_STREAMING\<rparr>))\<lparr>i2s := j\<rparr>"])
      (simp_all add: audio_inv_def audio_defs)
next
  case False
  with i show thesis by (intro that [of s]) (simp_all add: audio_defs)
qed

lemma source_start_inv:
  assumes ok: "i2s_ok ops ex rn" and i: "audio_inv ex rn R s"
  obtains t where "btstack_audio_esp32_source_start_stream ops s = Some t" "audio_inv ex rn R t"
proof (cases "source_state s = AUDIO_INITIALIZED")
  case True
  with i have "ex (i2s s) RxChan" "\<not> rn (i2s s) RxChan" by (simp_all add: audio_inv_def)
  then obtain j where j: "i2s_channel_enable ops RxChan (i2s s) = (True, j)" "ex j = ex (i2s s)" "rn j = (rn (i2s s))(RxChan := True)"
    by (rule enable_ok [OF ok])
  show thesis
    using i True j by (intro that [of "(btstack_audio_esp32_stream_start (s\<lparr>source_state := AUDIO_STREAMING\<rparr>))\<lparr>i2s := j\<rparr>"])
      (simp_all add: audio_inv_def audio_defs)
next
  case False
  with i show thesis by (intro that [of s]) (simp_all add: audio_defs)
qed

lemma sink_stop_inv:
  assumes ok: "i2s_ok ops ex rn" and i: "audio_inv ex rn R s"
  obtains t where "btstack_audio_esp32_sink_stop_stream ops s = Some t" "audio_inv ex rn R t"
    "sink_state t = (if sink_state s = AUDIO_STREAMING then AUDIO_INITIALIZED else sink_state s)"
proof (cases "sink_state s = AUDIO_STREAMING")
  case True
  with i have "ex (i2s s) TxChan" "rn (i2s s) TxChan" by (simp_all add: audio_inv_def)
  then obtain j where j: "i2s_channel_disable ops TxChan (i2s s) = (True, j)" "ex j = ex (i2s s)" "rn j = (rn (i2s s))(TxChan := False)"
    by (rule disable_ok [OF ok])
  show thesis
    using i True j by (intro that [of "btstack_audio_esp32_stream_stop (s\<lparr>sink_state := AUDIO_INITIALIZED, i2s := j\<rparr>)"])
      (simp_all add: audio_inv_def audio_defs)
next
  case False
  with i show thesis by (intro that [of s]) (simp_all add: audio_defs)
qed

lemma source_stop_inv:
  assumes ok: "i2s_ok ops ex rn" and i: "audio_inv ex rn R s"
  obtains t where "btstack_audio_esp32_source_stop_stream ops s = Some t" "audio_inv ex rn R t"
    "source_state t = (if source_state s = AUDIO_STREAMING then AUDIO_INITIALIZED else source_state s)"
proof (cases "source_state s = AUDIO_STREAMING")
  case True
  with i have "ex (i2s s) RxChan" "rn (i2s s) RxChan" by (simp_all add: audio_inv_def)
  then obtain j where j: "i2s_channel_disable ops RxChan (i2s s) = (True, j)" "ex j = ex (i2s s)" "rn j = (rn (i2s s))(RxChan := False)"
    by (rule disable_ok [OF ok])
  show thesis
    using i True j by (intro that [of "btstack_audio_esp32_stream_stop (s\<lparr>source_state := AUDIO_INITIALIZED, i2s := j\<rparr>)"])
      (simp_all add: audio_inv_def audio_defs)
next
  case False
  with i show thesis by (intro that [of s]) (simp_all add: audio_defs)
qed

text \<open>Leaving the state \<open>AUDIO_OFF\<close> on one side, with the channels deleted when the other side is off too.\<close>

lemma deinit_inv:
  assumes ok: "i2s_ok ops ex rn"
    and st: "sink_state s \<noteq> AUDIO_OFF \<or> source_state s \<noteq> AUDIO_OFF \<longrightarrow> i2s_installed s"
    and off: "i2s_installed s \<and> sink_state s = AUDIO_OFF \<and> source_state s = AUDIO_OFF \<longrightarrow>
      ex (i2s s) TxChan \<and> ex (i2s s) RxChan \<and> \<not> rn (i2s s) TxChan \<and> \<not> rn (i2s s) RxChan \<and> \<not> i2s_streaming s"
    and i: "i2s_installed s \<and> (sink_state s \<noteq> AUDIO_OFF \<or> source_state s \<noteq> AUDIO_OFF) \<longrightarrow> audio_inv ex rn R s"
    and n: "\<not> i2s_installed s \<longrightarrow> audio_inv ex rn R s"
  shows "\<exists>u. btstack_audio_esp32_deinit ops s = Some u \<and> audio_inv ex rn R u"
proof (cases "i2s_installed s \<and> sink_state s = AUDIO_OFF \<and> source_state s = AUDIO_OFF")
  case True
  with off have e: "ex (i2s s) RxChan" "ex (i2s s) TxChan" "\<not> rn (i2s s) RxChan" "\<not> rn (i2s s) TxChan" "\<not> i2s_streaming s" by simp_all
  obtain j where j: "i2s_del_channel ops RxChan (i2s s) = (True, j)" "ex j = (ex (i2s s))(RxChan := False)" "rn j = rn (i2s s)"
    by (rule del_ok [OF ok e(1,3)])
  with e have "ex j TxChan" "\<not> rn j TxChan" by simp_all
  then obtain k where k: "i2s_del_channel ops TxChan j = (True, k)" by (rule del_ok [OF ok])
  show ?thesis
    using True j k e(5) by (intro exI [of _ "s\<lparr>i2s := k, poll_enabled := False, in_run_loop := False, i2s_installed := False\<rparr>"])
      (simp_all add: audio_inv_def audio_defs)
next
  case False
  with i n have "audio_inv ex rn R s" by blast
  with False show ?thesis by (intro exI [of _ s]) (auto simp: audio_defs)
qed

lemma sink_close_inv:
  assumes ok: "i2s_ok ops ex rn" and i: "audio_inv ex rn R s"
  obtains t where "btstack_audio_esp32_sink_close ops s = Some t" "audio_inv ex rn R t"
proof -
  have "\<exists>t. (if sink_state s = AUDIO_STREAMING then btstack_audio_esp32_sink_stop_stream ops s else Some s) = Some t \<and>
      audio_inv ex rn R t \<and> sink_state t \<noteq> AUDIO_STREAMING"
  proof (cases "sink_state s = AUDIO_STREAMING")
    case True
    with sink_stop_inv [OF ok i] show ?thesis by (metis btstack_audio_esp32_state_t.distinct(6))
  qed (use i in simp)
  then obtain t where t: "(if sink_state s = AUDIO_STREAMING then btstack_audio_esp32_sink_stop_stream ops s else Some s) = Some t"
    "audio_inv ex rn R t" "sink_state t \<noteq> AUDIO_STREAMING" by blast
  have "\<exists>u. btstack_audio_esp32_deinit ops (t\<lparr>sink_state := AUDIO_OFF\<rparr>) = Some u \<and> audio_inv ex rn R u"
    by (rule deinit_inv [OF ok]; insert t(2,3); auto simp: audio_inv_def)
  then obtain u where "btstack_audio_esp32_deinit ops (t\<lparr>sink_state := AUDIO_OFF\<rparr>) = Some u" "audio_inv ex rn R u" by blast
  with t(1) show thesis by (intro that [of u]) (simp_all add: btstack_audio_esp32_sink_close_def)
qed

lemma source_close_inv:
  assumes ok: "i2s_ok ops ex rn" and i: "audio_inv ex rn R s"
  obtains t where "btstack_audio_esp32_source_close ops s = Some t" "audio_inv ex rn R t"
proof -
  have "\<exists>t. (if source_state s = AUDIO_STREAMING then btstack_audio_esp32_source_stop_stream ops s else Some s) = Some t \<and>
      audio_inv ex rn R t \<and> source_state t \<noteq> AUDIO_STREAMING"
  proof (cases "source_state s = AUDIO_STREAMING")
    case True
    with source_stop_inv [OF ok i] show ?thesis by (metis btstack_audio_esp32_state_t.distinct(6))
  qed (use i in simp)
  then obtain t where t: "(if source_state s = AUDIO_STREAMING then btstack_audio_esp32_source_stop_stream ops s else Some s) = Some t"
    "audio_inv ex rn R t" "source_state t \<noteq> AUDIO_STREAMING" by blast
  have "\<exists>u. btstack_audio_esp32_deinit ops (t\<lparr>source_state := AUDIO_OFF\<rparr>) = Some u \<and> audio_inv ex rn R u"
    by (rule deinit_inv [OF ok]; insert t(2,3); auto simp: audio_inv_def)
  then obtain u where "btstack_audio_esp32_deinit ops (t\<lparr>source_state := AUDIO_OFF\<rparr>) = Some u" "audio_inv ex rn R u" by blast
  with t(1) show thesis by (intro that [of u]) (simp_all add: btstack_audio_esp32_source_close_def)
qed

lemma esp_checkD: "esp_check f s = Some t \<Longrightarrow> f (i2s s) = (True, i2s t) \<and> t = s\<lparr>i2s := i2s t\<rparr>"
  by (auto simp: esp_check_def split: prod.splits if_splits)

lemma codec_init_frame:
  "btstack_audio_esp32_es8388_init cod s = Some t \<Longrightarrow> t = s\<lparr>es8388_initialized := es8388_initialized t, codec := codec t\<rparr>"
  by (auto simp: btstack_audio_esp32_es8388_init_def split: option.splits if_splits)

text \<open>Bringing up the channels: what it leaves, when it is carried out.\<close>

lemma init_fresh:
  assumes ok: "i2s_ok ops ex rn" and i: "btstack_audio_esp32_init ops cod s = Some t" and n: "\<not> i2s_installed s"
    and r: "sink_state s \<noteq> AUDIO_OFF \<or> source_state s \<noteq> AUDIO_OFF"
      "sink_state s \<noteq> AUDIO_OFF \<longrightarrow> sink_samplerate s = R" "source_state s \<noteq> AUDIO_OFF \<longrightarrow> source_samplerate s = R"
  shows "t = s\<lparr>i2s_samplerate := R, i2s := i2s t, es8388_initialized := es8388_initialized t, codec := codec t,
      i2s_installed := True, handler_set := True\<rparr> \<and>
    ex (i2s t) TxChan \<and> ex (i2s t) RxChan \<and> \<not> rn (i2s t) TxChan \<and> \<not> rn (i2s t) RxChan"
proof -
  from i n obtain r1 r2 s1 s2 s3 s4 s5 s6 where
    u: "use_rate (sink_state s) (sink_samplerate s) 0 = Some r1" "use_rate (source_state s) (source_samplerate s) r1 = Some r2" and
    c: "esp_check (i2s_new_channel ops (DRIVER_ISR_INTERVAL_MS * r2 div 1000)) (s\<lparr>i2s_samplerate := r2\<rparr>) = Some s1"
      "esp_check (i2s_channel_init_std_mode ops TxChan r2) s1 = Some s2" "esp_check (i2s_channel_init_std_mode ops RxChan r2) s2 = Some s3"
      "esp_check (i2s_channel_register_event_callback ops RxChan) s3 = Some s4"
      "esp_check (i2s_channel_register_event_callback ops TxChan) s4 = Some s5"
    and e: "btstack_audio_esp32_es8388_init cod s5 = Some s6" and t: "t = s6\<lparr>i2s_installed := True, handler_set := True\<rparr>"
    by (auto simp: btstack_audio_esp32_init_def Let_def split: bind_splits if_splits)
  have R: "r2 = R" using u r by (auto simp: use_rate_def split: if_splits)
  note d = c [THEN esp_checkD]
  have v1: "ex (i2s s1) TxChan" "ex (i2s s1) RxChan" "\<not> rn (i2s s1) TxChan" "\<not> rn (i2s s1) RxChan"
    using ok d(1) unfolding i2s_ok_def by blast+
  have f: "ex (snd (i2s_channel_init_std_mode ops d r i)) = ex i" "rn (snd (i2s_channel_init_std_mode ops d r i)) = rn i"
    "ex (snd (i2s_channel_register_event_callback ops d i)) = ex i" "rn (snd (i2s_channel_register_event_callback ops d i)) = rn i" for d r i
    using ok by (simp_all add: i2s_ok_def)
  have "ex (i2s s5) = ex (i2s s1)" "rn (i2s s5) = rn (i2s s1)"
    using d(2-5) f by (metis snd_conv)+
  moreover have "i2s t = i2s s5" using t codec_init_frame [OF e] by (cases s6, cases s5) auto
  moreover have "s5 = s\<lparr>i2s_samplerate := R, i2s := i2s s5\<rparr>"
    using d R by (cases s, cases s1, cases s2, cases s3, cases s4, cases s5) simp
  ultimately show ?thesis
    using v1 t codec_init_frame [OF e] by (cases s, cases s5, cases s6, cases t) simp
qed

lemma sink_init_inv:
  assumes ok: "i2s_ok ops ex rn" and i: "audio_inv ex rn R s" and st: "sink_state s \<noteq> AUDIO_STREAMING"
    and c: "btstack_audio_esp32_sink_init ops cod ch R cb s = Some (r, t)"
  shows "audio_inv ex rn R t"
proof -
  let ?s = "s\<lparr>sink_callback := cb, sink_num_channels := ch, sink_samplerate := R, sink_state := AUDIO_INITIALIZED\<rparr>"
  from c have t: "btstack_audio_esp32_init ops cod ?s = Some t" "cb \<noteq> None"
    by (auto simp: btstack_audio_esp32_sink_init_def split: if_splits)
  show ?thesis
  proof (cases "i2s_installed s")
    case True
    with t(1) have "t = ?s" by (simp add: btstack_audio_esp32_init_def)
    with True i st t(2) show ?thesis by (auto simp: audio_inv_def)
  next
    case False
    from init_fresh [OF ok t(1), of R] False i have "t = ?s\<lparr>i2s_samplerate := R, i2s := i2s t, es8388_initialized := es8388_initialized t,
        codec := codec t, i2s_installed := True, handler_set := True\<rparr>"
      "ex (i2s t) TxChan" "ex (i2s t) RxChan" "\<not> rn (i2s t) TxChan" "\<not> rn (i2s t) RxChan" by (simp_all add: audio_inv_def)
    with False i t(2) show ?thesis unfolding audio_inv_def by (cases t) auto
  qed
qed

lemma source_init_inv:
  assumes ok: "i2s_ok ops ex rn" and i: "audio_inv ex rn R s" and st: "source_state s \<noteq> AUDIO_STREAMING"
    and c: "btstack_audio_esp32_source_init ops cod ch R cb s = Some (r, t)"
  shows "audio_inv ex rn R t"
proof -
  let ?s = "s\<lparr>source_callback := cb, source_num_channels := ch, source_samplerate := R, source_state := AUDIO_INITIALIZED\<rparr>"
  from c have t: "btstack_audio_esp32_init ops cod ?s = Some t" "cb \<noteq> None"
    by (auto simp: btstack_audio_esp32_source_init_def split: if_splits)
  show ?thesis
  proof (cases "i2s_installed s")
    case True
    with t(1) have "t = ?s" by (simp add: btstack_audio_esp32_init_def)
    with True i st t(2) show ?thesis by (auto simp: audio_inv_def)
  next
    case False
    from init_fresh [OF ok t(1), of R] False i have "t = ?s\<lparr>i2s_samplerate := R, i2s := i2s t, es8388_initialized := es8388_initialized t,
        codec := codec t, i2s_installed := True, handler_set := True\<rparr>"
      "ex (i2s t) TxChan" "ex (i2s t) RxChan" "\<not> rn (i2s t) TxChan" "\<not> rn (i2s t) RxChan" by (simp_all add: audio_inv_def)
    with False i t(2) show ?thesis unfolding audio_inv_def by (cases t) auto
  qed
qed

section \<open>Runs\<close>

text \<open>A client that uses one sample rate and sets a side up only while it does not stream.\<close>

inductive audio_run :: "'i i2s_ops \<Rightarrow> 'c i2c_ops option \<Rightarrow> u32 \<Rightarrow> ('c, 'i) audio_st \<Rightarrow> bool" for ops cod R where
  ar_start: "sink_state s = AUDIO_OFF \<Longrightarrow> source_state s = AUDIO_OFF \<Longrightarrow> \<not> i2s_installed s \<Longrightarrow> \<not> i2s_streaming s \<Longrightarrow>
     \<not> poll_enabled s \<Longrightarrow> \<not> in_run_loop s \<Longrightarrow> audio_run ops cod R s"
| ar_sink_init: "audio_run ops cod R s \<Longrightarrow> sink_state s \<noteq> AUDIO_STREAMING \<Longrightarrow>
     btstack_audio_esp32_sink_init ops cod ch R cb s = Some (r, t) \<Longrightarrow> audio_run ops cod R t"
| ar_source_init: "audio_run ops cod R s \<Longrightarrow> source_state s \<noteq> AUDIO_STREAMING \<Longrightarrow>
     btstack_audio_esp32_source_init ops cod ch R cb s = Some (r, t) \<Longrightarrow> audio_run ops cod R t"
| ar_sink_start: "audio_run ops cod R s \<Longrightarrow> btstack_audio_esp32_sink_start_stream ops s = Some t \<Longrightarrow> audio_run ops cod R t"
| ar_sink_stop: "audio_run ops cod R s \<Longrightarrow> btstack_audio_esp32_sink_stop_stream ops s = Some t \<Longrightarrow> audio_run ops cod R t"
| ar_sink_close: "audio_run ops cod R s \<Longrightarrow> btstack_audio_esp32_sink_close ops s = Some t \<Longrightarrow> audio_run ops cod R t"
| ar_source_start: "audio_run ops cod R s \<Longrightarrow> btstack_audio_esp32_source_start_stream ops s = Some t \<Longrightarrow> audio_run ops cod R t"
| ar_source_stop: "audio_run ops cod R s \<Longrightarrow> btstack_audio_esp32_source_stop_stream ops s = Some t \<Longrightarrow> audio_run ops cod R t"
| ar_source_close: "audio_run ops cod R s \<Longrightarrow> btstack_audio_esp32_source_close ops s = Some t \<Longrightarrow> audio_run ops cod R t"
| ar_volume: "audio_run ops cod R s \<Longrightarrow> audio_run ops cod R (btstack_audio_esp32_sink_set_volume cod g s)"
| ar_gain: "audio_run ops cod R s \<Longrightarrow> audio_run ops cod R (btstack_audio_esp32_source_set_gain cod g s)"
| ar_isr_tx: "audio_run ops cod R s \<Longrightarrow> audio_run ops cod R (snd (i2s_tx_callback n s))"
| ar_isr_rx: "audio_run ops cod R s \<Longrightarrow> audio_run ops cod R (snd (i2s_rx_callback n s))"
| ar_process: "audio_run ops cod R s \<Longrightarrow> i2s_data_process e s = Some t \<Longrightarrow> audio_run ops cod R t"

lemma audio_inv_cong:
  assumes "audio_inv ex rn R s" and "i2s_installed t = i2s_installed s" "i2s_streaming t = i2s_streaming s"
    "poll_enabled t = poll_enabled s" "in_run_loop t = in_run_loop s" "i2s_samplerate t = i2s_samplerate s" "i2s t = i2s s"
    "sink_state t = sink_state s" "source_state t = source_state s" "sink_samplerate t = sink_samplerate s"
    "source_samplerate t = source_samplerate s" "sink_callback t = sink_callback s" "source_callback t = source_callback s"
  shows "audio_inv ex rn R t"
  using assms by (simp add: audio_inv_def)

lemma process_sink_frame:
  "process_sink e w s = Some t \<Longrightarrow> t = s\<lparr>audio_buffer := audio_buffer t, played := played t, isr_bytes_written := isr_bytes_written t\<rparr>"
  by (auto simp: process_sink_def Let_def split: if_splits bind_splits)

lemma process_source_frame:
  "process_source e w s = Some t \<Longrightarrow> t = s\<lparr>audio_buffer := audio_buffer t, recorded := recorded t, isr_bytes_read := isr_bytes_read t\<rparr>"
  by (auto simp: process_source_def Let_def split: if_splits bind_splits prod.splits)

lemma process_frame:
  assumes "i2s_data_process e s = Some t"
  shows "t = s\<lparr>audio_buffer := audio_buffer t, played := played t, recorded := recorded t, isr_bytes_written := isr_bytes_written t,
    isr_bytes_read := isr_bytes_read t\<rparr>"
proof -
  from assms obtain u where "process_sink e (isr_bytes_written s) s = Some u" "process_source e (isr_bytes_read s) u = Some t"
    by (auto simp: i2s_data_process_def Let_def split: bind_splits)
  from process_sink_frame [OF this(1)] process_source_frame [OF this(2)] show ?thesis by (cases s, cases u, cases t) simp
qed

lemma run_audio_inv:
  assumes ok: "i2s_ok ops ex rn" and r: "audio_run ops cod R s"
  shows "audio_inv ex rn R s"
  using r
proof induction
  case (ar_start s)
  then show ?case by (simp add: audio_inv_def)
next
  case (ar_sink_init s ch cb r t)
  from sink_init_inv [OF ok ar_sink_init(4,2,3)] show ?case .
next
  case (ar_source_init s ch cb r t)
  from source_init_inv [OF ok ar_source_init(4,2,3)] show ?case .
next
  case (ar_sink_start s t)
  obtain u where "btstack_audio_esp32_sink_start_stream ops s = Some u" "audio_inv ex rn R u"
    by (rule sink_start_inv [OF ok ar_sink_start(3)])
  with ar_sink_start(2) show ?case by simp
next
  case (ar_sink_stop s t)
  obtain u where "btstack_audio_esp32_sink_stop_stream ops s = Some u" "audio_inv ex rn R u"
    by (rule sink_stop_inv [OF ok ar_sink_stop(3)])
  with ar_sink_stop(2) show ?case by simp
next
  case (ar_sink_close s t)
  obtain u where "btstack_audio_esp32_sink_close ops s = Some u" "audio_inv ex rn R u"
    by (rule sink_close_inv [OF ok ar_sink_close(3)])
  with ar_sink_close(2) show ?case by simp
next
  case (ar_source_start s t)
  obtain u where "btstack_audio_esp32_source_start_stream ops s = Some u" "audio_inv ex rn R u"
    by (rule source_start_inv [OF ok ar_source_start(3)])
  with ar_source_start(2) show ?case by simp
next
  case (ar_source_stop s t)
  obtain u where "btstack_audio_esp32_source_stop_stream ops s = Some u" "audio_inv ex rn R u"
    by (rule source_stop_inv [OF ok ar_source_stop(3)])
  with ar_source_stop(2) show ?case by simp
next
  case (ar_source_close s t)
  obtain u where "btstack_audio_esp32_source_close ops s = Some u" "audio_inv ex rn R u"
    by (rule source_close_inv [OF ok ar_source_close(3)])
  with ar_source_close(2) show ?case by simp
next
  case (ar_volume s g)
  then show ?case by (elim audio_inv_cong) (simp_all add: btstack_audio_esp32_sink_set_volume_def split: option.split)
next
  case (ar_gain s g)
  then show ?case by (elim audio_inv_cong) (simp_all add: btstack_audio_esp32_source_set_gain_def split: option.split)
next
  case (ar_isr_tx s n)
  then show ?case by (elim audio_inv_cong) (simp_all add: i2s_tx_callback_def Let_def)
next
  case (ar_isr_rx s n)
  then show ?case by (elim audio_inv_cong) (simp_all add: i2s_rx_callback_def Let_def)
next
  case (ar_process s e t)
  from process_frame [OF ar_process(2)] have "audio_inv ex rn R t = audio_inv ex rn R s"
    by (cases s, cases t) (simp add: audio_inv_def)
  with ar_process(3) show ?case by simp
qed

text \<open>In every run of such a client the channels are there exactly while a side is set up, each is enabled exactly while its side
  streams, the handler is polled exactly while one streams, both sides run at the rate of the channels, and starting, stopping
  and closing either side is always carried out: no driver call is refused, no assertion fails.\<close>

theorem audio_lifecycle:
  assumes ok: "i2s_ok ops ex rn" and r: "audio_run ops cod R s"
  shows "(i2s_installed s \<longleftrightarrow> sink_state s \<noteq> AUDIO_OFF \<or> source_state s \<noteq> AUDIO_OFF) \<and>
    (in_run_loop s \<and> poll_enabled s \<longleftrightarrow> sink_state s = AUDIO_STREAMING \<or> source_state s = AUDIO_STREAMING) \<and>
    (i2s_installed s \<longrightarrow> i2s_samplerate s = R \<and> ex (i2s s) TxChan \<and> ex (i2s s) RxChan \<and>
       (rn (i2s s) TxChan \<longleftrightarrow> sink_state s = AUDIO_STREAMING) \<and> (rn (i2s s) RxChan \<longleftrightarrow> source_state s = AUDIO_STREAMING)) \<and>
    btstack_audio_esp32_sink_start_stream ops s \<noteq> None \<and> btstack_audio_esp32_sink_stop_stream ops s \<noteq> None \<and>
    btstack_audio_esp32_sink_close ops s \<noteq> None \<and> btstack_audio_esp32_source_start_stream ops s \<noteq> None \<and>
    btstack_audio_esp32_source_stop_stream ops s \<noteq> None \<and> btstack_audio_esp32_source_close ops s \<noteq> None"
proof -
  have i: "audio_inv ex rn R s" by (rule run_audio_inv [OF ok r])
  have "btstack_audio_esp32_sink_start_stream ops s \<noteq> None" by (rule sink_start_inv [OF ok i]) simp
  moreover have "btstack_audio_esp32_sink_stop_stream ops s \<noteq> None" by (rule sink_stop_inv [OF ok i]) simp
  moreover have "btstack_audio_esp32_sink_close ops s \<noteq> None" by (rule sink_close_inv [OF ok i]) simp
  moreover have "btstack_audio_esp32_source_start_stream ops s \<noteq> None" by (rule source_start_inv [OF ok i]) simp
  moreover have "btstack_audio_esp32_source_stop_stream ops s \<noteq> None" by (rule source_stop_inv [OF ok i]) simp
  moreover have "btstack_audio_esp32_source_close ops s \<noteq> None" by (rule source_close_inv [OF ok i]) simp
  ultimately show ?thesis using i by (simp add: audio_inv_def)
qed

text \<open>Setting the sink up again while it streams leaves its channel enabled, and the next start is refused by the driver.\<close>

lemma reinit_while_streaming:
  assumes ok: "i2s_ok ops ex rn" and i: "audio_inv ex rn R s" and st: "sink_state s = AUDIO_STREAMING"
    and c: "btstack_audio_esp32_sink_init ops cod ch R cb s = Some (r, t)"
  shows "btstack_audio_esp32_sink_start_stream ops t = None"
proof -
  let ?s = "s\<lparr>sink_callback := cb, sink_num_channels := ch, sink_samplerate := R, sink_state := AUDIO_INITIALIZED\<rparr>"
  from i st have n: "i2s_installed s" "ex (i2s s) TxChan" "rn (i2s s) TxChan" "i2s_samplerate s = R" by (simp_all add: audio_inv_def)
  with c have "t = ?s" by (auto simp: btstack_audio_esp32_sink_init_def btstack_audio_esp32_init_def split: if_splits)
  moreover have "\<not> fst (i2s_channel_enable ops TxChan (i2s s))" using ok n by (simp add: i2s_ok_def)
  ultimately show ?thesis using n
    by (cases "i2s_channel_enable ops TxChan (i2s s)")
      (simp add: btstack_audio_esp32_sink_start_stream_def esp_check_def btstack_audio_esp32_stream_start_def)
qed

section \<open>Samples\<close>

text \<open>The playback callback writes one value per sample and channel; the driver reads no more than it was asked for, and
  reports a full transfer or a timeout.\<close>

definition env_ok :: "process_env \<Rightarrow> ('c, 'i) audio_st \<Rightarrow> bool" where
  "env_ok e s \<longleftrightarrow>
     (\<forall>n. length (pe_play e n) = n * unat (sink_num_channels s)) \<and>
     (fst (pe_write e) = RetOk \<longrightarrow> snd (pe_write e) = unat (isr_bytes_written s)) \<and>
     length (snd (snd (pe_read e))) \<le> unat (isr_bytes_read s) div 2 \<and>
     (fst (pe_read e) = RetOk \<longrightarrow> fst (snd (pe_read e)) = unat (isr_bytes_read s))"

lemma num_samples: "unat w div 4 < 2 ^ 16 \<Longrightarrow> unat (ucast ((w :: u32) div 4) :: u16) = unat w div 4"
  by (simp add: unsigned_ucast_eq unat_div take_bit_eq_mod)

lemma put_samples_eq: "length xs \<le> length b \<Longrightarrow> put_samples xs b = Some (xs @ drop (length xs) b)"
  by (simp add: put_samples_def)

text \<open>The steps of the two halves, one premise for each.\<close>

lemma process_sinkI:
  assumes "unat (ucast (w div 4) :: u16) = n" and "(ucast (w div 4) :: u16) \<noteq> 0" and "sink_callback s \<noteq> None"
    and "put_samples (pe_play e n) (audio_buffer s) = Some b"
    and "(if sink_num_channels s = 1 then mono_to_stereo n b else Some b) = Some c"
    and "\<not> 2 * length c < unat w" and "\<not> (fst (pe_write e) = RetOk \<and> snd (pe_write e) \<noteq> unat w)"
  shows "process_sink e w s = Some (s\<lparr>audio_buffer := c, played := played s @ [take (unat w div 2) c],
    isr_bytes_written := isr_bytes_written s + pe_isr_written e - w\<rparr>)"
  by (simp only: process_sink_def Let_def assms if_False Option.bind.simps)

lemma process_sourceI:
  assumes "unat (ucast (w div 4) :: u16) = n" and "(ucast (w div 4) :: u16) \<noteq> 0" and "pe_read e = (ret, br, data)"
    and "put_samples data (audio_buffer s) = Some b" and "\<not> (ret = RetOk \<and> br \<noteq> unat w)"
    and "(if source_num_channels s = 1 then stereo_to_mono n b else Some b) = Some c" and "source_callback s = Some f"
  shows "process_source e w s = Some (s\<lparr>audio_buffer := c, recorded := recorded s @ [(n, c)],
    isr_bytes_read := isr_bytes_read s + pe_isr_read e - w\<rparr>)"
  by (simp only: process_source_def Let_def assms if_False Option.bind.simps prod.case)

lemma process_sink_ok:
  assumes cb: "sink_callback s \<noteq> None" and ch: "sink_num_channels s = 1 \<or> sink_num_channels s = 2"
    and b: "unat w \<le> 2 * length (audio_buffer s)" and l: "length (audio_buffer s) < 2 ^ 16"
    and play: "\<And>n. length (pe_play e n) = n * unat (sink_num_channels s)"
    and wr: "fst (pe_write e) = RetOk \<longrightarrow> snd (pe_write e) = unat w" and q: "4 dvd unat w" "w \<noteq> 0"
  obtains t where "process_sink e w s = Some t" "length (audio_buffer t) = length (audio_buffer s)"
    "played t = played s @ [to_stereo (sink_num_channels s) (pe_play e (unat w div 4))]"
    "isr_bytes_written t = isr_bytes_written s + pe_isr_written e - w"
proof -
  let ?n = "unat w div 4"
  let ?xs = "pe_play e ?n"
  let ?b = "?xs @ drop (length ?xs) (audio_buffer s)"
  have n: "2 * ?n \<le> length (audio_buffer s)" "?n < 2 ^ 15" using b l by simp_all
  have ns: "unat (ucast (w div 4) :: u16) = ?n" using n(2) by (intro num_samples) simp
  have n0: "0 < ?n" using q by (metis dvd_div_eq_0_iff gr0I unat_eq_zero)
  have nz: "(ucast (w div 4) :: u16) \<noteq> 0" using ns n0 by (metis less_irrefl unat_0)
  have xl: "length ?xs \<le> length (audio_buffer s)" using ch n(1) play by auto
  have p: "put_samples ?xs (audio_buffer s) = Some ?b" by (rule put_samples_eq [OF xl])
  have w2: "unat w div 2 = 2 * ?n" using q(1) by auto
  obtain c where c: "(if sink_num_channels s = 1 then mono_to_stereo ?n ?b else Some ?b) = Some c" "length c = length (audio_buffer s)"
    "take (2 * ?n) c = to_stereo (sink_num_channels s) ?xs"
    by (rule fill_stereo [OF ch _ n(2,1), of ?xs]) (use play in simp_all)
  let ?t = "s\<lparr>audio_buffer := c, played := played s @ [take (unat w div 2) c],
    isr_bytes_written := isr_bytes_written s + pe_isr_written e - w\<rparr>"
  have "process_sink e w s = Some ?t" by (rule process_sinkI [OF ns nz cb p c(1)]) (use c(2) b wr in auto)
  then show thesis using c(2,3) by (intro that [of ?t]) (simp_all add: w2)
qed

lemma process_source_ok:
  assumes cb: "source_callback s \<noteq> None" and d: "pe_read e = (ret, br, data)"
    and b: "unat w \<le> 2 * length (audio_buffer s)" and l: "length (audio_buffer s) < 2 ^ 16"
    and dl: "length data \<le> unat w div 2" and rd: "ret = RetOk \<longrightarrow> br = unat w" and q: "4 dvd unat w" "w \<noteq> 0"
  obtains t where "process_source e w s = Some t" "length (audio_buffer t) = length (audio_buffer s)"
    "\<exists>c. recorded t = recorded s @ [(unat w div 4, c)] \<and>
       (length data = 2 * (unat w div 4) \<longrightarrow>
          take (unat w div 4) c = (if source_num_channels s = 1 then map (\<lambda>k. data ! (2 * k)) [0..<unat w div 4] else take (unat w div 4) data))"
    "isr_bytes_read t = isr_bytes_read s + pe_isr_read e - w" "played t = played s" "isr_bytes_written t = isr_bytes_written s"
proof -
  let ?n = "unat w div 4"
  let ?b = "data @ drop (length data) (audio_buffer s)"
  have n: "2 * ?n \<le> length (audio_buffer s)" "?n < 2 ^ 15" using b l by simp_all
  have ns: "unat (ucast (w div 4) :: u16) = ?n" using n(2) by (intro num_samples) simp
  have n0: "0 < ?n" using q by (metis dvd_div_eq_0_iff gr0I unat_eq_zero)
  have nz: "(ucast (w div 4) :: u16) \<noteq> 0" using ns n0 by (metis less_irrefl unat_0)
  have w2: "unat w div 2 = 2 * ?n" using q(1) by auto
  with dl n(1) have xl: "length data \<le> length (audio_buffer s)" by simp
  have p: "put_samples data (audio_buffer s) = Some ?b" by (rule put_samples_eq [OF xl])
  have bl: "length ?b = length (audio_buffer s)" using xl by simp
  obtain f where f: "source_callback s = Some f" using cb by blast
  define c where "c = (if source_num_channels s = 1 then map (\<lambda>k. ?b ! (2 * k)) [0..<?n] @ drop ?n ?b else ?b)"
  have m: "(if source_num_channels s = 1 then stereo_to_mono ?n ?b else Some ?b) = Some c"
    unfolding c_def stereo_to_mono_def using n(1) bl by (auto simp: drop_loop_eq)
  have cl: "length c = length (audio_buffer s)" unfolding c_def using bl n(1) by auto
  have ct: "take ?n c = (if source_num_channels s = 1 then map (\<lambda>k. data ! (2 * k)) [0..<?n] else take ?n data)"
    if "length data = 2 * ?n" unfolding c_def using that by (auto simp: nth_append)
  let ?t = "s\<lparr>audio_buffer := c, recorded := recorded s @ [(?n, c)], isr_bytes_read := isr_bytes_read s + pe_isr_read e - w\<rparr>"
  have "process_source e w s = Some ?t" by (rule process_sourceI [OF ns nz d p _ m f]) (use rd in simp)
  then show thesis using cl ct by (intro that [of ?t]) auto
qed

text \<open>As long as no more bytes are pending than the buffer holds (twelve blocks at 48 kHz), the handler stays in the
  buffer: it plays what the client delivered, doubled for a mono sink, records what was read, halved for a mono source, and
  takes off the counters exactly what it has handled, so bytes the interrupts add meanwhile stay counted.\<close>

theorem audio_samples:
  assumes b: "length (audio_buffer s) = MAX_DMA_BUFFER_SAMPLES * BYTES_PER_SAMPLE_STEREO * DMA_BUFFER_COUNT div 2"
    and cb: "sink_callback s \<noteq> None" "source_callback s \<noteq> None" and ch: "sink_num_channels s = 1 \<or> sink_num_channels s = 2"
    and e: "env_ok e s"
    and w: "4 dvd unat (isr_bytes_written s)" "isr_bytes_written s \<noteq> 0" "unat (isr_bytes_written s) \<le> 23040"
    and r: "4 dvd unat (isr_bytes_read s)" "isr_bytes_read s \<noteq> 0" "unat (isr_bytes_read s) \<le> 23040"
  shows "\<exists>t c. i2s_data_process e s = Some t \<and>
    played t = played s @ [to_stereo (sink_num_channels s) (pe_play e (unat (isr_bytes_written s) div 4))] \<and>
    isr_bytes_written t = pe_isr_written e \<and> isr_bytes_read t = pe_isr_read e \<and>
    recorded t = recorded s @ [(unat (isr_bytes_read s) div 4, c)] \<and>
    (length (snd (snd (pe_read e))) = unat (isr_bytes_read s) div 2 \<longrightarrow> take (unat (isr_bytes_read s) div 4) c =
       (if source_num_channels s = 1 then map (\<lambda>k. snd (snd (pe_read e)) ! (2 * k)) [0..<unat (isr_bytes_read s) div 4]
        else take (unat (isr_bytes_read s) div 4) (snd (snd (pe_read e)))))"
proof -
  have l: "length (audio_buffer s) = 11520" using b by (simp add: MAX_DMA_BUFFER_SAMPLES_def BYTES_PER_SAMPLE_STEREO_def DMA_BUFFER_COUNT_def)
  obtain t where t: "process_sink e (isr_bytes_written s) s = Some t" "length (audio_buffer t) = length (audio_buffer s)"
    "played t = played s @ [to_stereo (sink_num_channels s) (pe_play e (unat (isr_bytes_written s) div 4))]"
    "isr_bytes_written t = isr_bytes_written s + pe_isr_written e - isr_bytes_written s"
    by (rule process_sink_ok [OF cb(1) ch, of "isr_bytes_written s" e]) (use l e w in \<open>simp_all add: env_ok_def\<close>)
  have f: "source_callback t = source_callback s" "source_num_channels t = source_num_channels s" "recorded t = recorded s"
    "isr_bytes_read t = isr_bytes_read s"
    using process_sink_frame [OF t(1)] by (cases s, cases t; simp)+
  obtain ret br data where d: "pe_read e = (ret, br, data)" by (metis prod_cases3)
  obtain u where u: "process_source e (isr_bytes_read s) t = Some u"
    "\<exists>c. recorded u = recorded t @ [(unat (isr_bytes_read s) div 4, c)] \<and>
       (length data = 2 * (unat (isr_bytes_read s) div 4) \<longrightarrow> take (unat (isr_bytes_read s) div 4) c =
          (if source_num_channels t = 1 then map (\<lambda>k. data ! (2 * k)) [0..<unat (isr_bytes_read s) div 4]
           else take (unat (isr_bytes_read s) div 4) data))"
    "isr_bytes_read u = isr_bytes_read t + pe_isr_read e - isr_bytes_read s" "played u = played t" "isr_bytes_written u = isr_bytes_written t"
    by (rule process_source_ok [of t e ret br data "isr_bytes_read s"]) (use l e r cb d t(2) f in \<open>simp_all add: env_ok_def\<close>)
  have "unat (isr_bytes_read s) div 2 = 2 * (unat (isr_bytes_read s) div 4)" using r(1) by auto
  with t(1,3,4) u f d show ?thesis by (auto simp: i2s_data_process_def)
qed

text \<open>More than the buffer holds runs over its end: nothing bounds what the interrupts add while the main thread is late.\<close>

theorem audio_overrun:
  assumes w: "23040 < unat (isr_bytes_written s)" "unat (isr_bytes_written s) < 2 ^ 18"
    and b: "length (audio_buffer s) = 11520"
  shows "i2s_data_process e s = None"
proof -
  let ?w = "isr_bytes_written s"
  have ns: "unat (ucast (?w div 4) :: u16) = unat ?w div 4" using w(2) by (intro num_samples) simp
  have "0 < unat ?w div 4" using w(1) by simp
  with ns have nz: "(ucast (?w div 4) :: u16) \<noteq> 0" by (metis less_irrefl unat_0)
  have len: "length c = 11520" if "put_samples xs (audio_buffer s) = Some c" for xs c
    using that b by (auto simp: put_samples_def split: if_splits)
  have "process_sink e ?w s \<noteq> Some t" for t
  proof
    assume t: "process_sink e ?w s = Some t"
    have "\<exists>b c. put_samples (pe_play e (unat ?w div 4)) (audio_buffer s) = Some b \<and>
        (if sink_num_channels s = 1 then mono_to_stereo (unat ?w div 4) b else Some b) = Some c \<and> \<not> 2 * length c < unat ?w"
      using t nz unfolding process_sink_def Let_def ns by (auto simp: bind_eq_Some_conv simp del: if_split split: if_split_asm)
    then obtain b c where "put_samples (pe_play e (unat ?w div 4)) (audio_buffer s) = Some b"
      "(if sink_num_channels s = 1 then mono_to_stereo (unat ?w div 4) b else Some b) = Some c" "\<not> 2 * length c < unat ?w" by blast
    moreover from this have "length c = length b" using mono_to_stereo_length by (auto split: if_splits)
    ultimately show False using len w(1) by auto
  qed
  then have "process_sink e ?w s = None" by (cases "process_sink e ?w s") auto
  then show ?thesis by (simp add: i2s_data_process_def)
qed

section \<open>A pair of channels\<close>

definition chan_ops :: "((i2s_dir \<Rightarrow> bool) \<times> (i2s_dir \<Rightarrow> bool)) i2s_ops" where
  "chan_ops = \<lparr>i2s_new_channel = \<lambda>n i. (True, (\<lambda>d. True, \<lambda>d. False)), i2s_channel_init_std_mode = \<lambda>d r i. (True, i),
     i2s_channel_register_event_callback = \<lambda>d i. (True, i),
     i2s_channel_enable = \<lambda>d i. (fst i d \<and> \<not> snd i d, (fst i, (snd i)(d := fst i d))),
     i2s_channel_disable = \<lambda>d i. (snd i d, (fst i, (snd i)(d := False))),
     i2s_del_channel = \<lambda>d i. (fst i d \<and> \<not> snd i d, ((fst i)(d := False), snd i))\<rparr>"

lemma chan_ok: "i2s_ok chan_ops fst snd"
  by (auto simp: i2s_ok_def chan_ops_def)

end
