(* ===== verification/AudioV4.thy ===== *)
theory AudioV4
  imports AudioBuf "HOL-Library.Monad_Syntax"
begin

text \<open>
  The I2S driver for ESP-IDF 4, \<open>components/btstack-esp32/btstack_audio_esp32_v4.c\<close>: one driver for both directions,
  installed anew when a side is set up, and a timer that answers at most two events of the driver's queue in each round.
  Names that the driver for version 5 also uses end in \<open>_v4\<close>.  A call into the I2S driver is an entry of \<open>i2s_calls\<close>;
  what it delivers is an argument.  A failed assertion, a null pointer called and an access outside the buffer are None.
\<close>

definition DRIVER_POLL_INTERVAL_MS :: u32 where "DRIVER_POLL_INTERVAL_MS = 5"
definition MAX_DMA_BUFFER_SAMPLES_v4 :: nat where "MAX_DMA_BUFFER_SAMPLES_v4 = 48000 * 2 * 5 div 1000"

datatype i2s_call =
    I2sUninstall | I2sInstall bool bool u32 u16 | I2sSetPin bool bool | I2sStart | I2sStop | I2sMclk

datatype i2s_event_type = I2S_EVENT_TX_DONE | I2S_EVENT_RX_DONE | I2S_EVENT_OTHER

record 'c audio4_st =
  i2s_installed_v4 :: bool
  i2s_streaming_v4 :: bool
  i2s_samplerate_v4 :: u32
  samples_per_dma_buffer :: u16
  driver_timer :: bool           \<comment> \<open>the timer is in the run loop\<close>
  sink_num_channels_v4 :: u8
  sink_samplerate_v4 :: u32
  source_num_channels_v4 :: u8
  source_samplerate_v4 :: u32
  sink_state_v4 :: btstack_audio_esp32_state_t
  source_state_v4 :: btstack_audio_esp32_state_t
  sink_callback_v4 :: "nat option"
  source_callback_v4 :: "nat option"
  es8388_initialized_v4 :: bool
  codec_v4 :: 'c
  sink_buffer :: "u16 list"
  sink_buffer_ready :: bool
  i2s_calls :: "i2s_call list"
  sent_blocks :: "u16 list list"               \<comment> \<open>the blocks \<open>i2s_write\<close> took\<close>
  recorded_v4 :: "(nat \<times> u16 list) list"

section \<open>The driver\<close>

text \<open>The results of the codec are ignored here.\<close>

definition btstack_audio_esp32_es8388_init_v4 :: "'c i2c_ops option \<Rightarrow> 'c audio4_st \<Rightarrow> 'c audio4_st" where
  "btstack_audio_esp32_es8388_init_v4 cod s =
     (case cod of
        None \<Rightarrow> s
      | Some ops \<Rightarrow>
          if es8388_initialized_v4 s then s
          else s\<lparr>es8388_initialized_v4 := True, codec_v4 := fold (\<lambda>f c. snd (f c)) (codec_setup ops) (codec_v4 s)\<rparr>)"

definition btstack_audio_esp32_stream_start_v4 :: "'c audio4_st \<Rightarrow> 'c audio4_st" where
  "btstack_audio_esp32_stream_start_v4 s =
     (if i2s_streaming_v4 s then s
      else s\<lparr>i2s_calls := i2s_calls s @ [I2sStart], driver_timer := True, i2s_streaming_v4 := True\<rparr>)"

definition btstack_audio_esp32_stream_stop_v4 :: "'c audio4_st \<Rightarrow> 'c audio4_st" where
  "btstack_audio_esp32_stream_stop_v4 s =
     (if \<not> i2s_streaming_v4 s then s
      else if sink_state_v4 s = AUDIO_STREAMING \<or> source_state_v4 s = AUDIO_STREAMING then s
      else s\<lparr>driver_timer := False, i2s_calls := i2s_calls s @ [I2sStop], i2s_streaming_v4 := False\<rparr>)"

text \<open>One side of the setting up: its direction, its rate against the one already taken, the size of a DMA buffer.\<close>

definition take_rate :: "btstack_audio_esp32_state_t \<Rightarrow> u32 \<Rightarrow> u32 \<times> u16 \<Rightarrow> (u32 \<times> u16) option" where
  "take_rate st r p =
     (if st = AUDIO_OFF then Some p
      else if fst p \<noteq> 0 \<and> fst p \<noteq> r then None
      else Some (r, ucast (r * 2 * DRIVER_POLL_INTERVAL_MS div 1000)))"

definition btstack_audio_esp32_init_v4 :: "'c i2c_ops option \<Rightarrow> 'c audio4_st \<Rightarrow> 'c audio4_st option" where
  "btstack_audio_esp32_init_v4 cod s =
     (let s = (if i2s_installed_v4 s then s\<lparr>i2s_calls := i2s_calls s @ [I2sUninstall]\<rparr> else s);
          tx = (sink_state_v4 s \<noteq> AUDIO_OFF); rx = (source_state_v4 s \<noteq> AUDIO_OFF)
      in do {
        p \<leftarrow> take_rate (sink_state_v4 s) (sink_samplerate_v4 s) (0, samples_per_dma_buffer s);
        (rate, n) \<leftarrow> take_rate (source_state_v4 s) (source_samplerate_v4 s) p;
        if MAX_DMA_BUFFER_SAMPLES_v4 < unat n then None
        else let s = s\<lparr>i2s_samplerate_v4 := rate, samples_per_dma_buffer := n\<rparr>;
                 s = (if cod = None then s else s\<lparr>i2s_calls := i2s_calls s @ [I2sMclk]\<rparr>);
                 s = s\<lparr>i2s_calls := i2s_calls s @ [I2sInstall tx rx rate n, I2sSetPin tx rx]\<rparr>;
                 s = btstack_audio_esp32_es8388_init_v4 cod s
             in Some (s\<lparr>i2s_installed_v4 := True\<rparr>)
      })"

definition btstack_audio_esp32_deinit_v4 :: "'c audio4_st \<Rightarrow> 'c audio4_st" where
  "btstack_audio_esp32_deinit_v4 s =
     (if \<not> i2s_installed_v4 s then s
      else if sink_state_v4 s \<noteq> AUDIO_OFF \<or> source_state_v4 s \<noteq> AUDIO_OFF then s
      else s\<lparr>i2s_calls := i2s_calls s @ [I2sUninstall], i2s_installed_v4 := False\<rparr>)"

section \<open>The sink\<close>

text \<open>\<open>play\<close>: what the playback callback writes; \<open>bytes_written\<close>: what \<open>i2s_write\<close> took.\<close>

definition btstack_audio_esp32_sink_fill_buffer :: "(nat \<Rightarrow> u16 list) \<Rightarrow> nat \<Rightarrow> 'c audio4_st \<Rightarrow> 'c audio4_st option" where
  "btstack_audio_esp32_sink_fill_buffer play bytes_written s =
     (let n = unat (samples_per_dma_buffer s) in
      if MAX_DMA_BUFFER_SAMPLES_v4 < n then None
      else let data_len = unat (samples_per_dma_buffer s * 4) in do {
        s \<leftarrow> (if sink_buffer_ready s then Some s
              else if sink_state_v4 s = AUDIO_STREAMING
              then if sink_callback_v4 s = None \<or> length (sink_buffer s) < length (play n) then None
                   else let b = play n @ drop (length (play n)) (sink_buffer s) in
                     map_option (\<lambda>b. s\<lparr>sink_buffer := b, sink_buffer_ready := True\<rparr>)
                       (if sink_num_channels_v4 s = 1 then mono_to_stereo n b else Some b)
              else Some (s\<lparr>sink_buffer := replicate (data_len div 2) 0 @ drop (data_len div 2) (sink_buffer s)\<rparr>));
        if bytes_written = data_len
        then Some (s\<lparr>sent_blocks := sent_blocks s @ [take (data_len div 2) (sink_buffer s)], sink_buffer_ready := False\<rparr>)
        else if bytes_written = 0 then Some s
        else None
      })"

definition btstack_audio_esp32_sink_init_v4 ::
    "'c i2c_ops option \<Rightarrow> u8 \<Rightarrow> u32 \<Rightarrow> nat option \<Rightarrow> 'c audio4_st \<Rightarrow> (int \<times> 'c audio4_st) option" where
  "btstack_audio_esp32_sink_init_v4 cod channels samplerate playback s =
     (if playback = None \<or> \<not> (1 \<le> channels \<and> channels \<le> 2) then None
      else map_option (Pair 0) (btstack_audio_esp32_init_v4 cod
        (s\<lparr>sink_callback_v4 := playback, sink_num_channels_v4 := channels, sink_samplerate_v4 := samplerate,
           sink_state_v4 := AUDIO_INITIALIZED\<rparr>)))"

definition btstack_audio_esp32_sink_get_samplerate_v4 :: "'c audio4_st \<Rightarrow> u32" where
  "btstack_audio_esp32_sink_get_samplerate_v4 s = sink_samplerate_v4 s"

definition btstack_audio_esp32_sink_set_volume_v4 :: "'c i2c_ops option \<Rightarrow> u8 \<Rightarrow> 'c audio4_st \<Rightarrow> 'c audio4_st" where
  "btstack_audio_esp32_sink_set_volume_v4 cod gain s =
     (case cod of
        None \<Rightarrow> s
      | Some ops \<Rightarrow> if \<not> es8388_initialized_v4 s then s
          else s\<lparr>codec_v4 := snd (es8388_set_volume ops (uint (sink_volume gain)) (codec_v4 s))\<rparr>)"

definition btstack_audio_esp32_sink_start_stream_v4 :: "'c audio4_st \<Rightarrow> 'c audio4_st option" where
  "btstack_audio_esp32_sink_start_stream_v4 s =
     (if sink_state_v4 s \<noteq> AUDIO_INITIALIZED then Some s
      else if sink_samplerate_v4 s \<noteq> i2s_samplerate_v4 s then None
      else Some (btstack_audio_esp32_stream_start_v4 (s\<lparr>sink_state_v4 := AUDIO_STREAMING, sink_buffer_ready := False\<rparr>)))"

definition btstack_audio_esp32_sink_stop_stream_v4 :: "'c audio4_st \<Rightarrow> 'c audio4_st" where
  "btstack_audio_esp32_sink_stop_stream_v4 s =
     (if sink_state_v4 s \<noteq> AUDIO_STREAMING then s
      else btstack_audio_esp32_stream_stop_v4 (s\<lparr>sink_state_v4 := AUDIO_INITIALIZED\<rparr>))"

definition btstack_audio_esp32_sink_close_v4 :: "'c audio4_st \<Rightarrow> 'c audio4_st" where
  "btstack_audio_esp32_sink_close_v4 s =
     (let s = (if sink_state_v4 s = AUDIO_STREAMING then btstack_audio_esp32_sink_stop_stream_v4 s else s)
      in btstack_audio_esp32_deinit_v4 (s\<lparr>sink_state_v4 := AUDIO_OFF\<rparr>))"

section \<open>The source\<close>

text \<open>\<open>bytes_read\<close> and \<open>data\<close>: what \<open>i2s_read\<close> delivered into the local buffer, \<open>rest\<close> what else that contains.\<close>

definition btstack_audio_esp32_source_process_buffer ::
    "nat \<Rightarrow> u16 list \<Rightarrow> u16 list \<Rightarrow> 'c audio4_st \<Rightarrow> 'c audio4_st option" where
  "btstack_audio_esp32_source_process_buffer bytes_read data rest s =
     (let n = unat (samples_per_dma_buffer s) in
      if MAX_DMA_BUFFER_SAMPLES_v4 < n then None
      else let data_len = unat (samples_per_dma_buffer s * 4) in
        if bytes_read = 0 then Some s
        else if bytes_read < data_len then None
        else if source_state_v4 s = AUDIO_STREAMING
        then do {
          b \<leftarrow> (if source_num_channels_v4 s = 1 then stereo_to_mono n (data @ rest) else Some (data @ rest));
          cb \<leftarrow> source_callback_v4 s;
          Some (s\<lparr>recorded_v4 := recorded_v4 s @ [(n, b)]\<rparr>)
        }
        else Some s)"

definition btstack_audio_esp32_source_init_v4 ::
    "'c i2c_ops option \<Rightarrow> u8 \<Rightarrow> u32 \<Rightarrow> nat option \<Rightarrow> 'c audio4_st \<Rightarrow> (int \<times> 'c audio4_st) option" where
  "btstack_audio_esp32_source_init_v4 cod channels samplerate recording s =
     (if recording = None then None
      else map_option (Pair 0) (btstack_audio_esp32_init_v4 cod
        (s\<lparr>source_callback_v4 := recording, source_num_channels_v4 := channels, source_samplerate_v4 := samplerate,
           source_state_v4 := AUDIO_INITIALIZED\<rparr>)))"

definition btstack_audio_esp32_source_get_samplerate_v4 :: "'c audio4_st \<Rightarrow> u32" where
  "btstack_audio_esp32_source_get_samplerate_v4 s = source_samplerate_v4 s"

definition btstack_audio_esp32_source_set_gain_v4 :: "'c i2c_ops option \<Rightarrow> u8 \<Rightarrow> 'c audio4_st \<Rightarrow> 'c audio4_st" where
  "btstack_audio_esp32_source_set_gain_v4 cod gain s =
     (case cod of
        None \<Rightarrow> s
      | Some ops \<Rightarrow> if \<not> es8388_initialized_v4 s then s
          else s\<lparr>codec_v4 := snd (es8388_set_mic_gain ops (uint (source_gain gain)) (codec_v4 s))\<rparr>)"

definition btstack_audio_esp32_source_start_stream_v4 :: "'c audio4_st \<Rightarrow> 'c audio4_st option" where
  "btstack_audio_esp32_source_start_stream_v4 s =
     (if source_state_v4 s \<noteq> AUDIO_INITIALIZED then Some s
      else if source_samplerate_v4 s \<noteq> i2s_samplerate_v4 s then None
      else Some (btstack_audio_esp32_stream_start_v4 (s\<lparr>source_state_v4 := AUDIO_STREAMING\<rparr>)))"

definition btstack_audio_esp32_source_stop_stream_v4 :: "'c audio4_st \<Rightarrow> 'c audio4_st" where
  "btstack_audio_esp32_source_stop_stream_v4 s =
     (if source_state_v4 s \<noteq> AUDIO_STREAMING then s
      else btstack_audio_esp32_stream_stop_v4 (s\<lparr>source_state_v4 := AUDIO_INITIALIZED\<rparr>))"

definition btstack_audio_esp32_source_close_v4 :: "'c audio4_st \<Rightarrow> 'c audio4_st" where
  "btstack_audio_esp32_source_close_v4 s =
     (let s = (if source_state_v4 s = AUDIO_STREAMING then btstack_audio_esp32_source_stop_stream_v4 s else s)
      in btstack_audio_esp32_deinit_v4 (s\<lparr>source_state_v4 := AUDIO_OFF\<rparr>))"

section \<open>The timer\<close>

text \<open>What the driver delivers for an event: \<open>play\<close> and \<open>bytes_written\<close>, or \<open>bytes_read\<close>, \<open>data\<close> and \<open>rest\<close>.\<close>

record event_env =
  ee_play :: "nat \<Rightarrow> u16 list"
  ee_written :: nat
  ee_read :: nat
  ee_data :: "u16 list"
  ee_rest :: "u16 list"

fun handle_event :: "i2s_event_type \<Rightarrow> event_env \<Rightarrow> 'c audio4_st \<Rightarrow> 'c audio4_st option" where
  "handle_event I2S_EVENT_TX_DONE e s = btstack_audio_esp32_sink_fill_buffer (ee_play e) (ee_written e) s"
| "handle_event I2S_EVENT_RX_DONE e s = btstack_audio_esp32_source_process_buffer (ee_read e) (ee_data e) (ee_rest e) s"
| "handle_event I2S_EVENT_OTHER e s = Some s"

text \<open>At most two events are taken from the queue; then the timer is set again.\<close>

fun take_events :: "nat \<Rightarrow> (i2s_event_type \<times> event_env) list \<Rightarrow> 'c audio4_st \<Rightarrow> ('c audio4_st \<times> (i2s_event_type \<times> event_env) list) option" where
  "take_events 0 q s = Some (s, q)"
| "take_events (Suc i) [] s = Some (s, [])"
| "take_events (Suc i) ((ev, e) # q) s = (case handle_event ev e s of None \<Rightarrow> None | Some s \<Rightarrow> take_events i q s)"

definition btstack_audio_esp32_driver_timer_handler ::
    "(i2s_event_type \<times> event_env) list \<Rightarrow> 'c audio4_st \<Rightarrow> ('c audio4_st \<times> (i2s_event_type \<times> event_env) list) option" where
  "btstack_audio_esp32_driver_timer_handler q s = map_option (\<lambda>(s, q). (s\<lparr>driver_timer := True\<rparr>, q)) (take_events 2 q s)"

section \<open>Retries\<close>

text \<open>A sink that streams, with a buffer of its size.\<close>

definition sink_ready :: "'c audio4_st \<Rightarrow> bool" where
  "sink_ready s \<longleftrightarrow> sink_state_v4 s = AUDIO_STREAMING \<and> sink_callback_v4 s \<noteq> None \<and>
     (sink_num_channels_v4 s = 1 \<or> sink_num_channels_v4 s = 2) \<and> unat (samples_per_dma_buffer s) \<le> MAX_DMA_BUFFER_SAMPLES_v4 \<and>
     length (sink_buffer s) = MAX_DMA_BUFFER_SAMPLES_v4 * BYTES_PER_SAMPLE_STEREO div 2"

definition data_bytes :: "'c audio4_st \<Rightarrow> nat" where
  "data_bytes s = unat (samples_per_dma_buffer s * 4)"

definition pending_block :: "'c audio4_st \<Rightarrow> u16 list list" where
  "pending_block s = (if sink_buffer_ready s then [take (data_bytes s div 2) (sink_buffer s)] else [])"

text \<open>Filling the buffer again and again: the blocks the client delivered, converted, and the last state.\<close>

fun fills :: "event_env list \<Rightarrow> 'c audio4_st \<Rightarrow> (u16 list list \<times> 'c audio4_st) option" where
  "fills [] s = Some ([], s)"
| "fills (e # es) s =
     (case handle_event I2S_EVENT_TX_DONE e s of
        None \<Rightarrow> None
      | Some t \<Rightarrow> map_option (\<lambda>(bs, u).
          ((if sink_buffer_ready s then [] else [to_stereo (sink_num_channels_v4 s) (ee_play e (unat (samples_per_dma_buffer s)))]) @ bs, u))
          (fills es t))"

lemma data_bytes_eq: "unat (samples_per_dma_buffer s) \<le> MAX_DMA_BUFFER_SAMPLES_v4 \<Longrightarrow> data_bytes s = 4 * unat (samples_per_dma_buffer s)"
  by (simp add: data_bytes_def MAX_DMA_BUFFER_SAMPLES_v4_def unat_word_ariths)

lemma fill_step:
  assumes r: "sink_ready s" and p: "\<And>n. length (ee_play e n) = n * unat (sink_num_channels_v4 s)"
    and w: "ee_written e = 0 \<or> ee_written e = data_bytes s"
  obtains t where "handle_event I2S_EVENT_TX_DONE e s = Some t" "sink_ready t" "data_bytes t = data_bytes s"
    "sink_num_channels_v4 t = sink_num_channels_v4 s"
    "sent_blocks t @ pending_block t = sent_blocks s @ pending_block s @
       (if sink_buffer_ready s then [] else [to_stereo (sink_num_channels_v4 s) (ee_play e (unat (samples_per_dma_buffer s)))])"
proof -
  let ?n = "unat (samples_per_dma_buffer s)"
  let ?xs = "ee_play e ?n"
  let ?b = "?xs @ drop (length ?xs) (sink_buffer s)"
  have n: "?n \<le> MAX_DMA_BUFFER_SAMPLES_v4" "?n < 2 ^ 15" "2 * ?n \<le> length (sink_buffer s)"
    using r by (simp_all add: sink_ready_def MAX_DMA_BUFFER_SAMPLES_v4_def BYTES_PER_SAMPLE_STEREO_def)
  have db: "data_bytes s div 2 = 2 * ?n" using data_bytes_eq [OF n(1)] by simp
  obtain b where b: "(if sink_num_channels_v4 s = 1 then mono_to_stereo ?n ?b else Some ?b) = Some b" "length b = length (sink_buffer s)"
    "take (2 * ?n) b = to_stereo (sink_num_channels_v4 s) ?xs"
    by (rule fill_stereo [OF _ _ n(2,3), of "sink_num_channels_v4 s" ?xs]) (use r p in \<open>auto simp: sink_ready_def\<close>)
  define u where "u = (if sink_buffer_ready s then s else s\<lparr>sink_buffer := b, sink_buffer_ready := True\<rparr>)"
  define t where "t = (if ee_written e = data_bytes s
    then u\<lparr>sent_blocks := sent_blocks u @ [take (data_bytes s div 2) (sink_buffer u)], sink_buffer_ready := False\<rparr> else u)"
  have xl: "length ?xs \<le> length (sink_buffer s)" using p n(3) r by (auto simp: sink_ready_def)
  have "(if sink_buffer_ready s then Some s
      else if sink_state_v4 s = AUDIO_STREAMING
      then if sink_callback_v4 s = None \<or> length (sink_buffer s) < length ?xs then None
           else map_option (\<lambda>b. s\<lparr>sink_buffer := b, sink_buffer_ready := True\<rparr>)
                  (if sink_num_channels_v4 s = 1 then mono_to_stereo ?n ?b else Some ?b)
      else Some (s\<lparr>sink_buffer := replicate (data_bytes s div 2) 0 @ drop (data_bytes s div 2) (sink_buffer s)\<rparr>)) = Some u"
    using r xl unfolding b(1) u_def by (auto simp: sink_ready_def)
  then have "handle_event I2S_EVENT_TX_DONE e s = Some t"
    using n(1) w unfolding t_def handle_event.simps btstack_audio_esp32_sink_fill_buffer_def Let_def data_bytes_def
    by (auto simp del: if_split)
  moreover have "sink_ready t" "data_bytes t = data_bytes s" "sink_num_channels_v4 t = sink_num_channels_v4 s"
    using r b(2) by (simp_all add: t_def u_def sink_ready_def data_bytes_def)
  moreover have "sent_blocks t @ pending_block t = sent_blocks s @ pending_block s @
       (if sink_buffer_ready s then [] else [to_stereo (sink_num_channels_v4 s) ?xs])"
    using b(3) db by (simp add: t_def u_def pending_block_def data_bytes_def)
  ultimately show thesis by (rule that)
qed

text \<open>Whatever the driver refuses, each block of the client reaches it exactly once and in order; only the last may still wait.\<close>

theorem sink_exactly_once:
  assumes "sink_ready s" and "\<And>e n. e \<in> set es \<Longrightarrow> length (ee_play e n) = n * unat (sink_num_channels_v4 s)"
    and "\<And>e. e \<in> set es \<Longrightarrow> ee_written e = 0 \<or> ee_written e = data_bytes s"
  shows "\<exists>bs t. fills es s = Some (bs, t) \<and> sent_blocks t @ pending_block t = sent_blocks s @ pending_block s @ bs"
  using assms
proof (induction es arbitrary: s)
  case (Cons e es)
  obtain t where t: "handle_event I2S_EVENT_TX_DONE e s = Some t" "sink_ready t" "data_bytes t = data_bytes s"
    "sink_num_channels_v4 t = sink_num_channels_v4 s"
    "sent_blocks t @ pending_block t = sent_blocks s @ pending_block s @
       (if sink_buffer_ready s then [] else [to_stereo (sink_num_channels_v4 s) (ee_play e (unat (samples_per_dma_buffer s)))])"
    by (rule fill_step [OF Cons.prems(1), of e]) (use Cons.prems(2,3) in auto)
  from Cons.IH [of t] t(2-4) Cons.prems(2,3) obtain bs u where u: "fills es t = Some (bs, u)"
    "sent_blocks u @ pending_block u = sent_blocks t @ pending_block t @ bs" by auto
  with t(1,5) show ?case by (simp del: handle_event.simps)
qed simp

section \<open>Setting up\<close>

definition audio4_inv :: "u32 \<Rightarrow> 'c audio4_st \<Rightarrow> bool" where
  "audio4_inv R s \<longleftrightarrow>
     (i2s_installed_v4 s \<longleftrightarrow> sink_state_v4 s \<noteq> AUDIO_OFF \<or> source_state_v4 s \<noteq> AUDIO_OFF) \<and>
     (i2s_streaming_v4 s \<longleftrightarrow> sink_state_v4 s = AUDIO_STREAMING \<or> source_state_v4 s = AUDIO_STREAMING) \<and>
     (driver_timer s \<longleftrightarrow> i2s_streaming_v4 s) \<and>
     (i2s_installed_v4 s \<longrightarrow> i2s_samplerate_v4 s = R \<and> unat (samples_per_dma_buffer s) = unat R div 100) \<and>
     (sink_state_v4 s \<noteq> AUDIO_OFF \<longrightarrow> sink_samplerate_v4 s = R) \<and> (source_state_v4 s \<noteq> AUDIO_OFF \<longrightarrow> source_samplerate_v4 s = R)"

lemma dma_samples: "R \<le> 48000 \<Longrightarrow> unat (ucast ((R :: u32) * 2 * DRIVER_POLL_INTERVAL_MS div 1000) :: u16) = unat R div 100"
proof -
  assume "R \<le> 48000"
  then have "unat R \<le> 48000" by (simp add: word_le_nat_alt)
  then show ?thesis
    by (simp add: DRIVER_POLL_INTERVAL_MS_def unsigned_ucast_eq unat_div unat_word_ariths take_bit_eq_mod)
qed

text \<open>At one rate of at most 48 kHz a side can always be set up.\<close>

lemma init4:
  assumes R: "R \<le> 48000" and "sink_state_v4 s \<noteq> AUDIO_OFF \<or> source_state_v4 s \<noteq> AUDIO_OFF"
    and "sink_state_v4 s \<noteq> AUDIO_OFF \<longrightarrow> sink_samplerate_v4 s = R" "source_state_v4 s \<noteq> AUDIO_OFF \<longrightarrow> source_samplerate_v4 s = R"
  shows "\<exists>t. btstack_audio_esp32_init_v4 cod s = Some t \<and> i2s_installed_v4 t \<and> i2s_samplerate_v4 t = R \<and>
    unat (samples_per_dma_buffer t) = unat R div 100 \<and> sink_state_v4 t = sink_state_v4 s \<and> source_state_v4 t = source_state_v4 s \<and>
    i2s_streaming_v4 t = i2s_streaming_v4 s \<and> driver_timer t = driver_timer s \<and>
    sink_samplerate_v4 t = sink_samplerate_v4 s \<and> source_samplerate_v4 t = source_samplerate_v4 s"
proof -
  have m: "\<not> MAX_DMA_BUFFER_SAMPLES_v4 < unat (ucast (R * 2 * DRIVER_POLL_INTERVAL_MS div 1000) :: u16)"
    using R dma_samples [OF R] by (simp add: MAX_DMA_BUFFER_SAMPLES_v4_def word_le_nat_alt)
  show ?thesis
    using assms(2-) m dma_samples [OF R]
    by (auto simp: btstack_audio_esp32_init_v4_def take_rate_def Let_def btstack_audio_esp32_es8388_init_v4_def split: option.split)
qed

text \<open>A client with one rate that sets a side up only while it does not stream; the timer fires while it is in the run loop.\<close>

inductive audio4_run :: "'c i2c_ops option \<Rightarrow> u32 \<Rightarrow> 'c audio4_st \<Rightarrow> bool" for cod R where
  a4_start: "sink_state_v4 s = AUDIO_OFF \<Longrightarrow> source_state_v4 s = AUDIO_OFF \<Longrightarrow> \<not> i2s_installed_v4 s \<Longrightarrow> \<not> i2s_streaming_v4 s \<Longrightarrow>
     \<not> driver_timer s \<Longrightarrow> audio4_run cod R s"
| a4_sink_init: "audio4_run cod R s \<Longrightarrow> sink_state_v4 s \<noteq> AUDIO_STREAMING \<Longrightarrow>
     btstack_audio_esp32_sink_init_v4 cod ch R cb s = Some (r, t) \<Longrightarrow> audio4_run cod R t"
| a4_source_init: "audio4_run cod R s \<Longrightarrow> source_state_v4 s \<noteq> AUDIO_STREAMING \<Longrightarrow>
     btstack_audio_esp32_source_init_v4 cod ch R cb s = Some (r, t) \<Longrightarrow> audio4_run cod R t"
| a4_sink_start: "audio4_run cod R s \<Longrightarrow> btstack_audio_esp32_sink_start_stream_v4 s = Some t \<Longrightarrow> audio4_run cod R t"
| a4_source_start: "audio4_run cod R s \<Longrightarrow> btstack_audio_esp32_source_start_stream_v4 s = Some t \<Longrightarrow> audio4_run cod R t"
| a4_sink_stop: "audio4_run cod R s \<Longrightarrow> audio4_run cod R (btstack_audio_esp32_sink_stop_stream_v4 s)"
| a4_source_stop: "audio4_run cod R s \<Longrightarrow> audio4_run cod R (btstack_audio_esp32_source_stop_stream_v4 s)"
| a4_sink_close: "audio4_run cod R s \<Longrightarrow> audio4_run cod R (btstack_audio_esp32_sink_close_v4 s)"
| a4_source_close: "audio4_run cod R s \<Longrightarrow> audio4_run cod R (btstack_audio_esp32_source_close_v4 s)"
| a4_volume: "audio4_run cod R s \<Longrightarrow> audio4_run cod R (btstack_audio_esp32_sink_set_volume_v4 cod g s)"
| a4_gain: "audio4_run cod R s \<Longrightarrow> audio4_run cod R (btstack_audio_esp32_source_set_gain_v4 cod g s)"
| a4_timer: "audio4_run cod R s \<Longrightarrow> driver_timer s \<Longrightarrow> btstack_audio_esp32_driver_timer_handler q s = Some (t, q') \<Longrightarrow> audio4_run cod R t"

lemmas audio4_defs = btstack_audio_esp32_stream_start_v4_def btstack_audio_esp32_stream_stop_v4_def
  btstack_audio_esp32_sink_start_stream_v4_def btstack_audio_esp32_source_start_stream_v4_def
  btstack_audio_esp32_sink_stop_stream_v4_def btstack_audio_esp32_source_stop_stream_v4_def
  btstack_audio_esp32_sink_close_v4_def btstack_audio_esp32_source_close_v4_def btstack_audio_esp32_deinit_v4_def

lemma event_frame:
  "handle_event ev e s = Some t \<Longrightarrow> t = s\<lparr>sink_buffer := sink_buffer t, sink_buffer_ready := sink_buffer_ready t,
     sent_blocks := sent_blocks t, recorded_v4 := recorded_v4 t\<rparr>"
  by (cases ev) (auto simp: btstack_audio_esp32_sink_fill_buffer_def btstack_audio_esp32_source_process_buffer_def Let_def
      split: if_splits bind_splits)

lemma events_inv: "take_events i q s = Some (t, q') \<Longrightarrow> audio4_inv R s \<Longrightarrow> audio4_inv R t \<and> driver_timer t = driver_timer s"
proof (induction i q s rule: take_events.induct)
  case (3 i ev e q s)
  from 3(2) obtain u where u: "handle_event ev e s = Some u" "take_events i q u = Some (t, q')" by (auto split: option.splits)
  from event_frame [OF u(1)] have "audio4_inv R u = audio4_inv R s \<and> driver_timer u = driver_timer s"
    by (cases s, cases u) (simp add: audio4_inv_def)
  with 3(1) [OF u] 3(3) show ?case by simp
qed auto

lemma sink_init4_inv:
  assumes "audio4_inv R s" "R \<le> 48000" "sink_state_v4 s \<noteq> AUDIO_STREAMING" "cb \<noteq> None" "1 \<le> ch \<and> ch \<le> 2"
  shows "\<exists>t. btstack_audio_esp32_sink_init_v4 cod ch R cb s = Some (0, t) \<and> audio4_inv R t"
proof -
  let ?s = "s\<lparr>sink_callback_v4 := cb, sink_num_channels_v4 := ch, sink_samplerate_v4 := R, sink_state_v4 := AUDIO_INITIALIZED\<rparr>"
  from init4 [OF assms(2), of ?s cod] assms(1) obtain t where "btstack_audio_esp32_init_v4 cod ?s = Some t" "i2s_installed_v4 t"
    "i2s_samplerate_v4 t = R" "unat (samples_per_dma_buffer t) = unat R div 100" "sink_state_v4 t = sink_state_v4 ?s"
    "source_state_v4 t = source_state_v4 ?s" "i2s_streaming_v4 t = i2s_streaming_v4 ?s" "driver_timer t = driver_timer ?s"
    "sink_samplerate_v4 t = sink_samplerate_v4 ?s" "source_samplerate_v4 t = source_samplerate_v4 ?s"
    by (auto simp: audio4_inv_def)
  with assms show ?thesis by (auto simp: btstack_audio_esp32_sink_init_v4_def audio4_inv_def)
qed

lemma source_init4_inv:
  assumes "audio4_inv R s" "R \<le> 48000" "source_state_v4 s \<noteq> AUDIO_STREAMING" "cb \<noteq> None"
  shows "\<exists>t. btstack_audio_esp32_source_init_v4 cod ch R cb s = Some (0, t) \<and> audio4_inv R t"
proof -
  let ?s = "s\<lparr>source_callback_v4 := cb, source_num_channels_v4 := ch, source_samplerate_v4 := R, source_state_v4 := AUDIO_INITIALIZED\<rparr>"
  from init4 [OF assms(2), of ?s cod] assms(1) obtain t where "btstack_audio_esp32_init_v4 cod ?s = Some t" "i2s_installed_v4 t"
    "i2s_samplerate_v4 t = R" "unat (samples_per_dma_buffer t) = unat R div 100" "sink_state_v4 t = sink_state_v4 ?s"
    "source_state_v4 t = source_state_v4 ?s" "i2s_streaming_v4 t = i2s_streaming_v4 ?s" "driver_timer t = driver_timer ?s"
    "sink_samplerate_v4 t = sink_samplerate_v4 ?s" "source_samplerate_v4 t = source_samplerate_v4 ?s"
    by (auto simp: audio4_inv_def)
  with assms show ?thesis by (auto simp: btstack_audio_esp32_source_init_v4_def audio4_inv_def)
qed

lemma stop4_inv:
  assumes "audio4_inv R s"
  shows "audio4_inv R (btstack_audio_esp32_sink_stop_stream_v4 s)" "audio4_inv R (btstack_audio_esp32_source_stop_stream_v4 s)"
    "sink_state_v4 (btstack_audio_esp32_sink_stop_stream_v4 s) \<noteq> AUDIO_STREAMING"
    "source_state_v4 (btstack_audio_esp32_source_stop_stream_v4 s) \<noteq> AUDIO_STREAMING"
proof -
  show "audio4_inv R (btstack_audio_esp32_sink_stop_stream_v4 s)"
    using assms by (cases "sink_state_v4 s"; cases "source_state_v4 s") (simp_all add: audio4_inv_def audio4_defs)
  show "audio4_inv R (btstack_audio_esp32_source_stop_stream_v4 s)"
    using assms by (cases "sink_state_v4 s"; cases "source_state_v4 s") (simp_all add: audio4_inv_def audio4_defs)
qed (simp_all add: audio4_defs)

lemma deinit4_inv:
  assumes "audio4_inv R s"
  shows "sink_state_v4 s \<noteq> AUDIO_STREAMING \<Longrightarrow> audio4_inv R (btstack_audio_esp32_deinit_v4 (s\<lparr>sink_state_v4 := AUDIO_OFF\<rparr>))"
    "source_state_v4 s \<noteq> AUDIO_STREAMING \<Longrightarrow> audio4_inv R (btstack_audio_esp32_deinit_v4 (s\<lparr>source_state_v4 := AUDIO_OFF\<rparr>))"
  using assms by (cases "sink_state_v4 s"; cases "source_state_v4 s"; simp add: audio4_inv_def audio4_defs)+

lemma close4_inv:
  assumes "audio4_inv R s"
  shows "audio4_inv R (btstack_audio_esp32_sink_close_v4 s)" "audio4_inv R (btstack_audio_esp32_source_close_v4 s)"
  using assms stop4_inv [OF assms]
  by (simp_all add: deinit4_inv btstack_audio_esp32_sink_close_v4_def btstack_audio_esp32_source_close_v4_def)

lemma run_audio4_inv:
  assumes R: "R \<le> 48000" and r: "audio4_run cod R s"
  shows "audio4_inv R s"
  using r
proof induction
  case (a4_sink_init s ch cb r t)
  then have "cb \<noteq> None" "1 \<le> ch \<and> ch \<le> 2" by (auto simp: btstack_audio_esp32_sink_init_v4_def split: if_splits)
  from sink_init4_inv [OF a4_sink_init(4) R a4_sink_init(2) this, of cod] a4_sink_init(3) show ?case by auto
next
  case (a4_source_init s ch cb r t)
  then have "cb \<noteq> None" by (auto simp: btstack_audio_esp32_source_init_v4_def split: if_splits)
  from source_init4_inv [OF a4_source_init(4) R a4_source_init(2) this, of cod ch] a4_source_init(3) show ?case by auto
next
  case (a4_timer s q t q')
  then obtain u where u: "take_events 2 q s = Some (u, q')" "t = u\<lparr>driver_timer := True\<rparr>"
    by (auto simp: btstack_audio_esp32_driver_timer_handler_def)
  from events_inv [OF u(1) a4_timer(4)] a4_timer(2) have "audio4_inv R u" "driver_timer u" by simp_all
  moreover from this(2) u(2) have "t = u" by simp
  ultimately show ?case by simp
next
  case (a4_sink_start s t)
  then show ?case by (cases "sink_state_v4 s"; auto simp: audio4_inv_def audio4_defs split: if_splits)
next
  case (a4_source_start s t)
  then show ?case by (cases "source_state_v4 s"; auto simp: audio4_inv_def audio4_defs split: if_splits)
next
  case (a4_sink_stop s)
  then show ?case by (simp add: stop4_inv)
next
  case (a4_source_stop s)
  then show ?case by (simp add: stop4_inv)
next
  case (a4_sink_close s)
  then show ?case by (simp add: close4_inv)
next
  case (a4_source_close s)
  then show ?case by (simp add: close4_inv)
qed (simp_all add: audio4_inv_def btstack_audio_esp32_sink_set_volume_v4_def btstack_audio_esp32_source_set_gain_v4_def split: option.split)

text \<open>In every run of such a client the driver is installed exactly while a side is set up, with buffers of a hundredth of the rate;
  the timer runs exactly while one streams; and setting up and starting are always carried out.\<close>

theorem audio4_lifecycle:
  assumes R: "R \<le> 48000" and r: "audio4_run cod R s"
  shows "(i2s_installed_v4 s \<longleftrightarrow> sink_state_v4 s \<noteq> AUDIO_OFF \<or> source_state_v4 s \<noteq> AUDIO_OFF) \<and>
    (driver_timer s \<longleftrightarrow> sink_state_v4 s = AUDIO_STREAMING \<or> source_state_v4 s = AUDIO_STREAMING) \<and>
    (i2s_installed_v4 s \<longrightarrow> unat (samples_per_dma_buffer s) = unat R div 100) \<and>
    btstack_audio_esp32_sink_start_stream_v4 s \<noteq> None \<and> btstack_audio_esp32_source_start_stream_v4 s \<noteq> None \<and>
    (sink_state_v4 s \<noteq> AUDIO_STREAMING \<longrightarrow> btstack_audio_esp32_sink_init_v4 cod 2 R (Some f) s \<noteq> None) \<and>
    (source_state_v4 s \<noteq> AUDIO_STREAMING \<longrightarrow> btstack_audio_esp32_source_init_v4 cod 2 R (Some f) s \<noteq> None)"
proof -
  have i: "audio4_inv R s" by (rule run_audio4_inv [OF R r])
  moreover have "btstack_audio_esp32_sink_start_stream_v4 s \<noteq> None" "btstack_audio_esp32_source_start_stream_v4 s \<noteq> None"
    using i by (auto simp: audio4_inv_def audio4_defs)
  moreover have "sink_state_v4 s \<noteq> AUDIO_STREAMING \<longrightarrow> btstack_audio_esp32_sink_init_v4 cod 2 R (Some f) s \<noteq> None"
    using sink_init4_inv [OF i R, of "Some f" 2 cod] by (auto simp: word_le_nat_alt)
  moreover have "source_state_v4 s \<noteq> AUDIO_STREAMING \<longrightarrow> btstack_audio_esp32_source_init_v4 cod 2 R (Some f) s \<noteq> None"
    using source_init4_inv [OF i R, of "Some f" cod 2] by auto
  ultimately show ?thesis by (simp add: audio4_inv_def)
qed

text \<open>Two sides with different rates are refused by the assertion.\<close>

lemma rates_differ:
  assumes "sink_state_v4 s \<noteq> AUDIO_OFF" "sink_samplerate_v4 s \<noteq> 0" "sink_samplerate_v4 s \<noteq> r"
  shows "btstack_audio_esp32_source_init_v4 cod ch r cb s = None"
  using assms by (auto simp: btstack_audio_esp32_source_init_v4_def btstack_audio_esp32_init_v4_def take_rate_def Let_def)

end
