(* ===== verification/Spec2Isabelle.thy ===== *)
theory Spec2Isabelle
  imports Prelude Bytes Nvs SavedList OneShot Bookmarks ProxyFlow ProxyParse ProxySettings ProxySession DnsFwd
    SdpLap AppState WifiList WifiScan WifiMulti Decimal BtName DebugLog BtBootstrap Gateway PppLink PppProps
    SecButton Settings Bridge WebText WebPages WebUi WebForms WebFit WebProps WebLists Vhci Tlv Entry HalUart Es8388
    AudioBuf AudioV5 AudioV4
begin

text \<open>
  Vetera Bridge, the firmware of an ESP32 that gives old Bluetooth phones a way into the internet: the
  phone dials in over a serial Bluetooth channel (RFCOMM), speaks PPP over it, and the bridge forwards its
  packets with NAT to a WiFi network.  A DNS forwarder answers the phone's queries, setup pages are served
  on the phone's side of the link, and a transparent proxy takes web connections to a relay.

  \<^bold>\<open>The parts and how they meet.\<close>  The modules share a few flags, the application state they show, the flash
  store, and two places where work is handed over: the run loop of BTstack and the tasks of FreeRTOS.
  The serial link reports a phone to the gateway, which kicks the WiFi cycle; both ends of the path update
  NAT; the DNS forwarder and the captive pages look at whether WiFi is up; the pages call the modules'
  save functions; the packet hooks and the relay task of the proxy share the flow table.  In the theories:

  \<^item> \<open>Prelude\<close>, \<open>Bytes\<close>, \<open>Decimal\<close>: C strings, the routines of the C library, list facts; byte buffers whose
    reads are checked; the number formats of \<open>snprintf\<close>.
  \<^item> \<open>Nvs\<close>: the flash store as a record of functions, \<open>dev_ok\<close> as its documented behaviour, and the locale
    \<open>nvs_setting\<close>: a setting owns its keys, keeps \<open>dev_ok\<close>, reads back what was saved, and touches no other key.
    Interpreted for the name (\<open>nameset\<close>), the logging flags (\<open>flagset\<close>), the security mode (\<open>secset\<close>), the
    proxy (\<open>pxset\<close>) and the networks (\<open>wlset\<close>).
  \<^item> \<open>SavedList\<close>: the locale \<open>saved_list\<close>, a numbered list that the pages show and delete from, interpreted
    for the bookmarks (\<open>bml\<close>) and the networks (\<open>wll\<close>).
  \<^item> \<open>OneShot\<close>: the locale \<open>one_shot\<close>, work queued at most once behind a pending flag, interpreted for the
    WiFi kick (\<open>wkick\<close>), the retry and recovery tasks (\<open>wretry\<close>, \<open>wrec\<close>), the renaming (\<open>namereq\<close>), the logging
    flags (\<open>flagreq\<close>) and the send notification of the serial link (\<open>txreq\<close>).
  \<^item> \<open>AppState\<close>, \<open>Gateway\<close>, \<open>Bridge\<close>: \<open>main/gateway.c\<close> and \<open>main/gateway.h\<close>.  \<open>AppState\<close> has the shared state and
    helpers, \<open>Gateway\<close> the hooks, HCI events and a pass of the watchdog, \<open>Bridge\<close> the bring-up \<open>btstack_main\<close> with
    \<open>proxy_init\<close> of \<open>main/http_proxy.c\<close>, the step relation \<open>bridge_step\<close> over everything that can happen afterwards,
    and the runs \<open>bridge_run\<close>.  The reset of the network list (\<open>GET /reset\<close>) is no step of these, because it can leave the wrong state
    on show (\<open>clear_shows_bridge\<close>); \<open>bridge_life\<close> is the runs with resets.
  \<^item> \<open>WifiList\<close>, \<open>WifiScan\<close>, \<open>WifiMulti\<close>: \<open>main/wifi_multi.c\<close>; the saved list with its blob, the choice of
    candidates after a scan, the connect cycle with retries, recovery, watchdog and event handler.
  \<^item> \<open>BtName\<close>, \<open>DebugLog\<close>, \<open>BtBootstrap\<close>, \<open>SecButton\<close>, \<open>SdpLap\<close>: the files of \<open>main\<close> with these names.
  \<^item> \<open>PppLink\<close>, \<open>PppProps\<close>: \<open>main/ppp_link.c\<close>; sessions, automatic security, the handshake before PPP, the
    transmit buffer, PPP status and NAT; the second theory has the properties.
  \<^item> \<open>Settings\<close>: the one NVS namespace that the modules share, over all of their save functions.
  \<^item> \<open>DnsFwd\<close>: \<open>main/dns_fwd.c\<close>.
  \<^item> \<open>ProxyFlow\<close>, \<open>ProxyParse\<close>, \<open>ProxySettings\<close>, \<open>ProxySession\<close>: \<open>main/http_proxy.c\<close>; flow table and packet hooks,
    the parsers of request heads and ClientHellos, the settings, the sessions and the loop of the relay.
  \<^item> \<open>Bookmarks\<close>: \<open>main/bookmarks.c\<close>.
  \<^item> \<open>WebText\<close>, \<open>WebPages\<close>, \<open>WebUi\<close>: \<open>main/web_ui.c\<close>; text routines, page texts, handlers and routes.  \<open>WebForms\<close>
    relates forms as a browser submits them to what the handlers store, \<open>WebFit\<close> bounds the pages,
    \<open>WebLists\<close> treats the two lists shown, \<open>WebProps\<close> has the remaining properties.
  \<^item> \<open>Vhci\<close>, \<open>Tlv\<close>: \<open>hci_transport_esp32_vhci.c\<close> and \<open>btstack_tlv_esp32.c\<close> of \<open>components/btstack-esp32\<close>, the two
    ports of BTstack the bridge runs on: packets of the controller, and the link keys of phones.
  \<^item> \<open>Entry\<close>: where it starts; \<open>app_main\<close> of \<open>main/main.c\<close>, which starts the flash, calls \<open>btstack_init\<close> of
    \<open>btstack_port_esp32.c\<close>, the console of \<open>btstack_stdio_esp32.c\<close> over the UART or USB, and then \<open>btstack_main\<close> of
    \<open>Bridge\<close>; the event handler of the port.
  \<^item> \<open>HalUart\<close>: \<open>hal_uart_dma_esp32.c\<close>, the serial driver for an external controller.
  \<^item> \<open>Es8388\<close>, \<open>AudioBuf\<close>, \<open>AudioV5\<close>, \<open>AudioV4\<close>: the codec driver \<open>es8388.c\<close> with its header, and the I2S drivers
    \<open>btstack_audio_esp32_v5.c\<close> and \<open>btstack_audio_esp32_v4.c\<close> for two versions of ESP-IDF, with what they share in
    \<open>AudioBuf\<close>.  The board of the bridge has neither an external controller nor audio, so these drivers stand by themselves.

  \<^bold>\<open>State.\<close>  The static variables of the modules are one extensible record, grown module by module:
  \<open>app_sh\<close> (gateway.h), \<open>wifi_st\<close>, \<open>name_st\<close>, \<open>dbg_st\<close>, \<open>boot_st\<close>, \<open>gw_st\<close>, \<open>ppp_st\<close>.  An operation of a module works on
  every extension of its record, so that the callers need no lifting.  Bookmarks, DNS cache, relay, proxy
  settings, HCI transport, tag store and the drivers (\<open>port_st\<close>, \<open>stdio_st\<close>, \<open>jtag_st\<close>, \<open>hal_st\<close>, \<open>audio_st\<close>,
  \<open>audio4_st\<close>) have records of their own; \<open>web_sys\<close> collects what the pages touch.
  A call into a driver or stack whose effect is outside is an entry of a trace (\<open>calls\<close>, \<open>r_trace\<close>, \<open>ctl_calls\<close>,
  \<open>port_calls\<close>, \<open>stdio_calls\<close>, \<open>uart_calls\<close>, \<open>i2s_calls\<close>);
  a result that the code branches on is an argument, alone or in a record (\<open>wifi_env\<close>, \<open>scan_env\<close>, \<open>ppp_env\<close>,
  \<open>boot_env\<close>, \<open>wd_env\<close>, \<open>main_env\<close>, \<open>web_env\<close>, \<open>io\<close>).  Tasks and run-loop callbacks are queued in \<open>tasks\<close> and fired by
  steps of their own, in any order.  Sections under a mutex or spinlock are one step.  Integers that can
  wrap are words, others \<open>nat\<close> or \<open>int\<close>; C strings are the characters before the NUL; a read outside a buffer is None.

  \<^bold>\<open>What the lemmas show.\<close>
  \<^item> The bridge: in every run from the bring-up, resets of the network list included, the flags, NAT and visibility
    agree, and before the first reset the state shown too (\<open>bridge_invariant\<close>); settings are independent and survive a reboot (\<open>settings_survive_reboot\<close>).
  \<^item> WiFi: the selection after a scan equals a reference on lists, the delays of the queued
    retries double up to a cap and end, a loss of the network that is not deliberate is followed up in the states that
    have a network, list edits are persistent.
  \<^item> Serial link: packets go to the handshake or to PPP as the first flag byte decides; what is sent and buffered is
    what was taken, in order; a channel is accepted in automatic mode only for a phone held for a reason.
  \<^item> Proxy: checksums stay valid, rewriting there and back is the identity for as long as a connection
    lasts (\<open>conn_step\<close>: whatever other packets, connections and sessions there are), only web segments of the phone
    are touched, flows are unique; parsers stay in their buffers and find the host; relay sessions
    keep their invariant and copy bytes unchanged.
  \<^item> DNS: answers match their queries, cached or made up or forwarded; the exchange ends at its deadline.
  \<^item> Pages: all requests are steps of the bridge; texts are escaped, pages fit their buffers, forms arrive as
    typed or change nothing; the lists shown are the lists saved, deletion included.
  \<^item> Bookmarks, name, logging, bootstrap, button, records: refinements of abstract lists and values, the ranks that
    end the bootstrap, the press durations, well-formed service records; and, on a flash that replaces a value as a whole or not at
    all (\<open>dev_atomic\<close>), what a failed edit or delete of a bookmark shows, and a power cut at every image of the flash that a delete
    goes through (\<open>trace_ops\<close>, \<open>images\<close>).
  \<^item> Ports: packets of the controller are delivered whole, in order and once under every interleaving; the tag
    store is a map.
  \<^item> Start: on a flash that starts, at once or erased, \<open>app_main\<close> leads to a run of the bridge; on
    one that cannot be started, \<open>app_main\<close> or the tag store aborts, depending on the error (\<open>start_outcome\<close>, \<open>start_is_run\<close>); console bytes reach the handler in order (\<open>stdio_input\<close>,
    \<open>jtag_rounds_all\<close>).
  \<^item> Drivers: blocks of the serial driver arrive whole and in order under every interleaving with its interrupts
    (\<open>uart_blocks\<close>); the registers of the codec after each operation (\<open>codec_volume\<close>, \<open>codec_mute\<close>, \<open>codec_format\<close>,
    \<open>init_regs\<close>); both audio drivers keep an invariant that ties the states of sink and source to the channels
    (\<open>audio_lifecycle\<close>, \<open>audio4_lifecycle\<close>) and move samples unchanged (\<open>audio_samples\<close>, \<open>sink_exactly_once\<close>), with the
    cases where they fail (\<open>audio_overrun\<close>, \<open>reinit_while_streaming\<close>, \<open>codec_error_lost\<close>).

  \<^bold>\<open>Bounds and fuel.\<close>  The buffer sizes are those of the source.  Loops are structural recursions or functions with a
  measure.  Three need more: the wait for the release of the button, \<open>wait_release\<close>, is a \<open>partial_function\<close>, proved to
  return when the button is released; \<open>transport_deliver_packets\<close> takes fuel, and one round more than there are packets
  in the ring buffer is enough (\<open>deliver_all\<close>); \<open>jtag_rounds\<close> takes fuel, and one round more than there are bytes is
  enough (\<open>jtag_rounds_all\<close>).  Task loops that never end are modelled by one
  pass and a step relation.

  \<^bold>\<open>Not modelled.\<close>
  \<^item> The configuration headers, which are constants, and the code that this configuration leaves out: the synchronous
    writing of \<open>hal_uart_dma_esp32.c\<close>, and its two functions without a body, for sleeping and for the CSR interrupt.
  \<^item> The flags that make sockets non-blocking, and the names of \<open>errno\<close>: what a socket call answers is in \<open>io\<close>.
  \<^item> Log output, delays, stack sizes and priorities of tasks, and everything inside BTstack, lwIP, FreeRTOS and
    ESP-IDF, which appears as parameters with the documented behaviour as hypothesis (\<open>dev_ok\<close>, \<open>ring_ok\<close>,
    \<open>qkv_ok\<close>, \<open>uart_ok\<close>, \<open>i2c_ok\<close>, \<open>i2s_ok\<close>, the encoder of data elements), each shown to be satisfiable by a concrete
    function.
\<close>

end
